(* ===== verification/Prelude.thy ===== *)
theory Prelude
  imports Main "HOL-Library.Word" "HOL-Library.Monad_Syntax"
begin

text \<open>
  The types and the generic lemmas every component shares: machine integers at the widths of
  the i386 target (\<open>clib/include/stdint.h\<close>, \<open>clib/include/stddef.h\<close>), little-endian byte
  encodings, bounds-checked buffer copies, and facts on lists, options and words.
  A failed \<open>k_assert\<close> (\<open>kernel/kassert.h\<close>) and an access outside a buffer are the value
  \<^const>\<open>None\<close> of an option result.
\<close>

unbundle bit_operations_syntax

section \<open>Machine integers\<close>

type_synonym byte = "8 word"
type_synonym u16 = "16 word"
type_synonym u32 = "32 word"
type_synonym u64 = "64 word"

named_theorems word_nat_simps
  \<open>equations that move a fixed-width expression to the natural numbers\<close>

definition has_single_bit :: "'a::len word \<Rightarrow> bool" where
  "has_single_bit x \<longleftrightarrow> x \<noteq> 0 \<and> x AND (x - 1) = 0"

lemma unat_u32_bound: "unat (x :: u32) < 2 ^ 32"
proof -
  have "unat x < 2 ^ LENGTH(32)" by (rule unsigned_less)
  then show ?thesis by simp
qed

lemma unat_bit_mask [word_nat_simps]:
  fixes x :: "'a::len word"
  shows "unat (x AND (2 ^ k - 1)) = unat x mod 2 ^ k"
  by (simp only: take_bit_eq_mod [symmetric] unsigned_take_bit_eq [symmetric]
      mask_eq_exp_minus_1 [symmetric] take_bit_eq_mask [symmetric])

lemma unat_shift_right [word_nat_simps]:
  fixes x :: "'a::len word"
  shows "unat (drop_bit k x) = unat x div 2 ^ k"
  unfolding unat_drop_bit_eq by (rule drop_bit_eq_div)

lemma unat_sub_small [word_nat_simps]:
  fixes x y :: "'a::len word"
  assumes "unat y \<le> unat x"
  shows "unat (x - y) = unat x - unat y"
  using assms by (simp add: unat_sub word_le_nat_alt)

lemma unat_add_small [word_nat_simps]:
  fixes x y :: "'a::len word"
  assumes "unat x + unat y < 2 ^ LENGTH('a)"
  shows "unat (x + y) = unat x + unat y"
  using assms by (simp add: unat_word_ariths)

lemma word_zero_iff: "(x :: u32) = 0 \<longleftrightarrow> unat x = 0"
  by (simp add: unat_eq_0)

lemma u32_sub: "y \<le> x \<Longrightarrow> unat (x - y :: u32) = unat x - unat y"
  by (rule unat_sub_small) (simp add: word_le_nat_alt)

lemma u32_add: "unat (x :: u32) + unat y < 2 ^ 32 \<Longrightarrow> unat (x + y) = unat x + unat y"
  by (rule unat_add_small) simp

lemma u32_neg:
  assumes "(x :: u32) \<noteq> 0"
  shows "unat (- x) = 2 ^ 32 - unat x"
proof -
  have "- x = - 1 - (x - 1)" by simp
  also have "unat \<dots> = unat (- 1 :: u32) - unat (x - 1)"
    by (rule u32_sub) simp
  also have "\<dots> = 2 ^ 32 - 1 - (unat x - 1)"
    using assms by (simp add: unat_minus_one unsigned_minus_1_eq_mask mask_eq_exp_minus_1)
  also have "\<dots> = 2 ^ 32 - unat x"
    using assms unat_gt_0 [of x] by linarith
  finally show ?thesis .
qed

lemma unat_ucast_small [word_nat_simps]:
  fixes x :: "'a::len word"
  assumes "unat x < 2 ^ LENGTH('b::len)"
  shows "unat (ucast x :: 'b word) = unat x"
  using assms by (simp add: unsigned_ucast_eq take_bit_eq_mod)

lemma unat_shift_left_small [word_nat_simps]:
  fixes x :: "'a::len word"
  assumes "unat x * 2 ^ k < 2 ^ LENGTH('a)"
  shows "unat (push_bit k x) = unat x * 2 ^ k"
proof -
  have "unat (push_bit k x) = take_bit LENGTH('a) (push_bit k (unat x))"
    by (rule unsigned_push_bit_eq)
  also have "\<dots> = (unat x * 2 ^ k) mod 2 ^ LENGTH('a)"
    unfolding push_bit_eq_mult take_bit_eq_mod ..
  finally show ?thesis using assms by simp
qed

lemma and_not_mask_eq:
  fixes x :: "'a::len word"
  shows "x AND NOT (2 ^ k - 1) = x - (x AND (2 ^ k - 1))"
proof -
  have "x = (x AND (2 ^ k - 1)) OR (x AND NOT (2 ^ k - 1))"
    by (rule bit_word_eqI) (auto simp: bit_simps)
  also have "\<dots> = (x AND (2 ^ k - 1)) + (x AND NOT (2 ^ k - 1))"
    by (rule disjunctive_add [symmetric]) (auto simp: bit_simps)
  finally show ?thesis by (simp add: algebra_simps)
qed

lemma unat_align_down [word_nat_simps]:
  fixes x :: "'a::len word"
  shows "unat (x AND NOT (2 ^ k - 1)) = unat x - unat x mod 2 ^ k"
  by (simp only: and_not_mask_eq unat_sub_small unat_bit_mask mod_less_eq_dividend)

lemma unat_exp_less [simp]:
  assumes "k < LENGTH('a::len)"
  shows "unat (2 ^ k :: 'a word) = 2 ^ k"
proof -
  have "unat (push_bit k (1 :: 'a word)) = take_bit LENGTH('a) (push_bit k 1)"
    by (simp only: unsigned_push_bit_eq unsigned_1)
  also have "\<dots> = 2 ^ k"
    using assms by (simp add: push_bit_eq_mult take_bit_eq_mod)
  finally show ?thesis by (simp add: push_bit_eq_mult)
qed

lemma has_single_bit_exp:
  assumes "k < LENGTH('a::len)"
  shows "has_single_bit (2 ^ k :: 'a word)"
proof -
  have "(2 ^ k :: 'a word) AND (2 ^ k - 1) = 0"
    by (rule bit_word_eqI) (simp flip: mask_eq_exp_minus_1 add: bit_simps)
  then show ?thesis using assms by (simp add: has_single_bit_def)
qed

definition countr_zero :: "'a::len word \<Rightarrow> nat" where
  "countr_zero x = length (takeWhile (\<lambda>i. \<not> bit x i) [0..<LENGTH('a)])"

lemma takeWhile_upt_first:
  assumes "k < n" and "P k" and "\<forall>i < k. \<not> P i"
  shows "takeWhile (\<lambda>i. \<not> P i) [0..<n] = [0..<k]"
proof -
  have "[0..<n] = [0..<k] @ k # [Suc k..<n]"
    using assms(1) by (metis append.simps(1) le_add1 less_imp_le_nat plus_nat.add_0
        upt_add_eq_append upt_conv_Cons le_add_diff_inverse)
  with assms(2,3) show ?thesis by (simp add: takeWhile_tail)
qed

lemma countr_zero_exp [simp]:
  assumes "k < LENGTH('a::len)"
  shows "countr_zero (2 ^ k :: 'a word) = k"
proof -
  have "takeWhile (\<lambda>i. \<not> bit (2 ^ k :: 'a word) i) [0..<LENGTH('a)] = [0..<k]"
    using assms by (intro takeWhile_upt_first) (simp_all add: bit_simps)
  then show ?thesis by (simp add: countr_zero_def)
qed

section \<open>Buffers\<close>

text \<open>
  \<open>memcpy\<close> out of and into a buffer; an access outside the buffer has no defined result and is
  \<^const>\<open>None\<close>.
\<close>

definition slice :: "nat \<Rightarrow> nat \<Rightarrow> 'a list \<Rightarrow> 'a list option" where
  "slice off n xs = (if off + n \<le> length xs then Some (take n (drop off xs)) else None)"

definition patch :: "nat \<Rightarrow> 'a list \<Rightarrow> 'a list \<Rightarrow> 'a list option" where
  "patch off src dst =
     (if off + length src \<le> length dst
      then Some (take off dst @ src @ drop (off + length src) dst) else None)"

lemma slice_Some_iff:
  "slice off n xs = Some ys \<longleftrightarrow> off + n \<le> length xs \<and> ys = take n (drop off xs)"
  by (auto simp: slice_def)

lemma patch_Some_iff:
  "patch off src dst = Some ys \<longleftrightarrow>
     off + length src \<le> length dst \<and> ys = take off dst @ src @ drop (off + length src) dst"
  by (auto simp: patch_def)

lemma slice_map_upt:
  "q + n \<le> len \<Longrightarrow> slice q n (map f [base..<base + len]) = Some (map f [base + q..<base + q + n])"
  by (simp add: slice_def drop_map take_map)

lemma length_patch: "patch off src dst = Some ys \<Longrightarrow> length ys = length dst"
  by (auto simp: patch_Some_iff)

lemma nth_patch:
  assumes "patch off src dst = Some ys" and "i < length dst"
  shows "ys ! i = (if off \<le> i \<and> i < off + length src then src ! (i - off) else dst ! i)"
  using assms by (auto simp: patch_Some_iff nth_append)

lemma slice_patch:
  assumes "patch off src dst = Some ys"
  shows "slice off (length src) ys = Some src"
  using assms by (auto simp: patch_Some_iff slice_def)

text \<open>A function on addresses with a run of bytes laid over it.\<close>

definition overlay :: "nat \<Rightarrow> 'a list \<Rightarrow> (nat \<Rightarrow> 'a) \<Rightarrow> nat \<Rightarrow> 'a" where
  "overlay p xs f a = (if p \<le> a \<and> a < p + length xs then xs ! (a - p) else f a)"

lemma overlay_Nil [simp]: "overlay p [] f = f"
  by (rule ext) (auto simp: overlay_def)

lemma overlay_append: "overlay p (xs @ ys) f = overlay (p + length xs) ys (overlay p xs f)"
  by (rule ext) (auto simp: overlay_def nth_append)

lemma map_overlay_same [simp]: "map (overlay p xs f) [p..<p + length xs] = xs"
  by (rule nth_equalityI) (simp_all add: overlay_def)

lemma map_overlay_disjoint:
  "b \<le> p \<or> p + length xs \<le> a \<Longrightarrow> map (overlay p xs f) [a..<b] = map f [a..<b]"
  by (auto simp: overlay_def)

lemma overlay_map_id: "overlay p (map f [p..<p + n]) f = f"
  by (rule ext) (auto simp: overlay_def)

text \<open>\<open>std::find_if\<close>: the position of the first element that satisfies a predicate.\<close>

fun find_if :: "('a \<Rightarrow> bool) \<Rightarrow> 'a list \<Rightarrow> nat option" where
  "find_if P [] = None"
| "find_if P (x # xs) = (if P x then Some 0 else map_option Suc (find_if P xs))"

lemma find_if_Some:
  "find_if P xs = Some i \<Longrightarrow> i < length xs \<and> P (xs ! i) \<and> (\<forall>j < i. \<not> P (xs ! j))"
proof (induction xs arbitrary: i)
  case (Cons x xs)
  then show ?case by (cases i) (auto split: if_splits simp: nth_Cons' less_Suc_eq_0_disj)
qed simp

lemma find_if_None: "find_if P xs = None \<longleftrightarrow> (\<forall>x \<in> set xs. \<not> P x)"
  by (induction xs) auto

lemma find_if_append: "\<forall>x \<in> set xs. \<not> P x \<Longrightarrow> P y \<Longrightarrow> find_if P (xs @ y # ys) = Some (length xs)"
  by (induction xs) auto

text \<open>Little-endian integers in byte buffers.\<close>

fun le_bytes :: "nat \<Rightarrow> nat \<Rightarrow> byte list" where
  "le_bytes 0 v = []"
| "le_bytes (Suc n) v = of_nat v # le_bytes n (v div 256)"

fun le_nat :: "byte list \<Rightarrow> nat" where
  "le_nat [] = 0"
| "le_nat (b # bs) = unat b + 256 * le_nat bs"

lemma length_le_bytes [simp]: "length (le_bytes n v) = n"
  by (induction n arbitrary: v) auto

lemma le_nat_le_bytes [simp]: "le_nat (le_bytes n v) = v mod 256 ^ n"
proof (induction n arbitrary: v)
  case (Suc n)
  have "unat (of_nat v :: byte) = v mod 256" by (simp add: unat_of_nat take_bit_eq_mod)
  with Suc show ?case by (simp add: mod_mult2_eq add.commute)
qed simp

lemma le_nat_bound: "le_nat bs < 256 ^ length bs"
proof (induction bs)
  case (Cons b bs)
  have "unat b < 256" using unsigned_less [of b] by simp
  with Cons show ?case by simp
qed simp

lemma le_bytes_le_nat [simp]: "le_bytes (length bs) (le_nat bs) = bs"
proof (induction bs)
  case (Cons b bs)
  have "unat b < 256" using unsigned_less [of b] by simp
  moreover have "(of_nat (unat b + 256 * le_nat bs) :: byte) = b"
  proof -
    have "(of_nat 256 :: byte) = 0" by (simp add: word_unat_eq_iff unat_of_nat take_bit_eq_mod)
    then have "(of_nat (256 * le_nat bs) :: byte) = 0" by (simp only: of_nat_mult mult_zero_left)
    then show ?thesis by (simp only: of_nat_add) simp
  qed
  ultimately show ?case using Cons by simp
qed simp

end
