(* ===== verification/FsUtil.thy ===== *)
theory FsUtil
  imports Prelude
begin

text \<open>
  \<open>kernel/filesystem/util.h\<close>: splitting a byte range of a file into a partial first chunk, whole
  chunks and a partial last chunk, and the alignment helpers.
\<close>

record fs_chunks =
  start_chunk :: u32
  start_offset :: u32
  start_size :: u32
  num_full_chunks :: u32
  end_size :: u32

definition filesystem_chunkify_npow :: "u32 \<Rightarrow> u32 \<Rightarrow> u32 \<Rightarrow> fs_chunks" where
  "filesystem_chunkify_npow offset len chunk_size =
     (let first_chunk = offset div chunk_size;
          start_offset = offset mod chunk_size;
          last_chunk = (offset + len) div chunk_size;
          end_size = (if first_chunk = last_chunk then 0 else (offset + len) mod chunk_size);
          start_size = (len - end_size) mod chunk_size;
          num_chunks = (len - (start_size + end_size)) div chunk_size
      in \<lparr>start_chunk = first_chunk, start_offset = start_offset, start_size = start_size,
          num_full_chunks = num_chunks, end_size = end_size\<rparr>)"

definition filesystem_chunkify :: "u64 \<Rightarrow> u32 \<Rightarrow> u32 \<Rightarrow> u32 \<Rightarrow> fs_chunks" where
  "filesystem_chunkify offset len chunk_size_mask chunk_size_log2 =
     (let first_chunk = ucast (drop_bit (unat chunk_size_log2) offset) :: u32;
          start_offset = ucast offset AND chunk_size_mask;
          last_chunk = ucast (drop_bit (unat chunk_size_log2) (offset + ucast len)) :: u32;
          end_size = (if first_chunk = last_chunk then 0
                      else ucast (offset + ucast len) AND chunk_size_mask);
          start_size = (len - end_size) AND chunk_size_mask;
          num_chunks = drop_bit (unat chunk_size_log2) (len - (start_size + end_size))
      in \<lparr>start_chunk = first_chunk, start_offset = start_offset, start_size = start_size,
          num_full_chunks = num_chunks, end_size = end_size\<rparr>)"

definition align_power_2 :: "u32 \<Rightarrow> u32 \<Rightarrow> u32 option" where
  "align_power_2 x align = (if has_single_bit align then Some (x AND NOT (align - 1)) else None)"

definition round_up :: "u32 \<Rightarrow> u32 \<Rightarrow> u32" where
  "round_up x align = ((x + (align - 1)) div align) * align"

section \<open>The chunks over the natural numbers\<close>

text \<open>
  The abstract specification: the five numbers of a split, computed without machine arithmetic.
\<close>

record chunk_split =
  first_chunk :: nat
  first_offset :: nat
  first_size :: nat
  full_chunks :: nat
  last_size :: nat

definition split_range :: "nat \<Rightarrow> nat \<Rightarrow> nat \<Rightarrow> chunk_split" where
  "split_range pos n c =
     (let e = (if pos div c = (pos + n) div c then 0 else (pos + n) mod c);
          s = (n - e) mod c
      in \<lparr>first_chunk = pos div c, first_offset = pos mod c, first_size = s,
          full_chunks = (n - (s + e)) div c, last_size = e\<rparr>)"

definition abs_chunks :: "fs_chunks \<Rightarrow> chunk_split" where
  "abs_chunks k = \<lparr>first_chunk = unat (start_chunk k), first_offset = unat (start_offset k),
     first_size = unat (start_size k), full_chunks = unat (num_full_chunks k),
     last_size = unat (end_size k)\<rparr>"

text \<open>
  What the callers rely on: the pieces start at the position asked for, they add up to the length,
  no piece crosses a chunk boundary, and when anything follows the first piece, the first piece
  ends exactly at a chunk boundary.
\<close>

definition covers_range :: "nat \<Rightarrow> nat \<Rightarrow> nat \<Rightarrow> chunk_split \<Rightarrow> bool" where
  "covers_range pos n c k \<longleftrightarrow>
     first_chunk k * c + first_offset k = pos \<and> first_offset k < c \<and> last_size k < c \<and>
     first_size k + full_chunks k * c + last_size k = n \<and>
     first_offset k + first_size k \<le> c \<and>
     (0 < full_chunks k \<or> 0 < last_size k \<longrightarrow>
        (first_size k = 0 \<and> first_offset k = 0) \<or> first_offset k + first_size k = c)"

lemma split_range_same_chunk:
  fixes pos n c :: nat
  assumes "0 < c" and "pos div c = (pos + n) div c"
  shows "n < c \<and> pos mod c + n < c"
proof -
  have "pos mod c + n = (pos + n) mod c"
  proof -
    have "pos + n = (pos div c) * c + (pos + n) mod c"
      using assms(2) by (metis div_mult_mod_eq)
    moreover have "pos = (pos div c) * c + pos mod c" by simp
    ultimately show ?thesis by linarith
  qed
  moreover have "(pos + n) mod c < c" using assms(1) by simp
  ultimately show ?thesis by linarith
qed

lemma split_range_later_chunk:
  fixes pos n c :: nat
  assumes c: "0 < c" and ne: "pos div c \<noteq> (pos + n) div c"
  obtains m where "n - (pos + n) mod c = (c - pos mod c) + m * c" and "(pos + n) mod c \<le> n"
proof -
  let ?q = "pos div c" and ?r = "pos mod c" and ?q' = "(pos + n) div c" and ?e = "(pos + n) mod c"
  have "?q \<le> ?q'" by (simp add: div_le_mono)
  with ne obtain m where m: "?q' = ?q + Suc m"
    by (metis less_iff_Suc_add add_Suc_right le_neq_implies_less)
  have 1: "pos = ?q * c + ?r" and 2: "pos + n = ?q' * c + ?e" by simp_all
  have "?q' * c = ?q * c + c + m * c" unfolding m by (simp add: algebra_simps)
  with 1 2 have "?r + n = c + m * c + ?e" by linarith
  moreover have "?r < c" using c by simp
  ultimately have "n - ?e = (c - ?r) + m * c" and "?e \<le> n" by linarith+
  then show thesis by (rule that)
qed

lemma split_range_covers:
  assumes c: "0 < c"
  shows "covers_range pos n c (split_range pos n c)"
proof (cases "pos div c = (pos + n) div c")
  case True
  show ?thesis
    using split_range_same_chunk [OF c True] c
    by (simp add: covers_range_def split_range_def Let_def True [symmetric])
next
  case False
  let ?e = "(pos + n) mod c" and ?r = "pos mod c"
  from split_range_later_chunk [OF c False]
  obtain m where m: "n - ?e = (c - ?r) + m * c" and le: "?e \<le> n" by blast
  have s: "(n - ?e) mod c = (c - ?r) mod c" by (simp add: m)
  have r: "?r < c" and e: "?e < c" using c by simp_all
  show ?thesis
  proof (cases "?r = 0")
    case True
    then have s0: "(n - ?e) mod c = 0" by (simp add: s)
    then have "(n - ?e) div c * c = n - ?e" by (metis add.right_neutral div_mult_mod_eq)
    moreover have "pos div c * c = pos" using True by (metis add.right_neutral div_mult_mod_eq)
    ultimately show ?thesis
      using le True False c e s0 by (simp add: covers_range_def split_range_def Let_def)
  next
    case nz: False
    then have s1: "(n - ?e) mod c = c - ?r" using r by (simp add: s)
    then have "n - ((c - ?r) + ?e) = m * c" using m by linarith
    then have d: "(n - ((c - ?r) + ?e)) div c * c = m * c" using c by simp
    have sum: "(c - ?r) + m * c + ?e = n" using m le by linarith
    have p: "pos div c * c + ?r = pos" by simp
    show ?thesis
      unfolding covers_range_def split_range_def Let_def
      by (simp only: chunk_split.simps if_False False s1 d, intro conjI impI disjI2)
        (use sum p r e in linarith)+
  qed
qed

lemma split_range_last_le:
  fixes pos n c :: nat
  assumes "0 < c" and "pos div c \<noteq> (pos + n) div c"
  shows "(pos + n) mod c \<le> n"
  using split_range_later_chunk [OF assms] by blast

section \<open>The code computes the split\<close>

lemma abs_chunkify_npow:
  assumes "unat pos + unat n < 2 ^ 32" and "c \<noteq> 0"
  shows "abs_chunks (filesystem_chunkify_npow pos n c) = split_range (unat pos) (unat n) (unat c)"
proof -
  let ?e = "if pos div c = (pos + n) div c then 0 else (pos + n) mod c"
  let ?E = "if unat pos div unat c = (unat pos + unat n) div unat c then 0
            else (unat pos + unat n) mod unat c"
  have sum: "unat (pos + n) = unat pos + unat n"
    using assms(1) by (simp add: unat_add_small)
  have same: "pos div c = (pos + n) div c \<longleftrightarrow>
      unat pos div unat c = (unat pos + unat n) div unat c"
    by (simp add: word_unat_eq_iff unat_div_distrib sum)
  have e: "unat ?e = ?E" by (simp add: same unat_mod_distrib sum)
  have c: "0 < unat c" using assms(2) by (simp add: unat_gt_0)
  have le: "?E \<le> unat n"
    using split_range_last_le [OF c] by simp
  have d: "unat (n - ?e) = unat n - ?E"
    using le by (simp only: e unat_sub_small)
  have s: "unat ((n - ?e) mod c) = (unat n - ?E) mod unat c"
    by (simp only: unat_mod_distrib d)
  have sl: "(unat n - ?E) mod unat c + ?E \<le> unat n"
    using le mod_less_eq_dividend [of "unat n - ?E" "unat c"] by linarith
  have "unat ((n - ?e) mod c + ?e) = (unat n - ?E) mod unat c + ?E"
    by (rule trans [OF unat_add_small])
       (use sl unat_u32_bound [of n] in \<open>simp_all only: s e, simp\<close>)
  then have "unat ((n - ((n - ?e) mod c + ?e)) div c) =
      (unat n - ((unat n - ?E) mod unat c + ?E)) div unat c"
    using sl by (simp only: unat_div_distrib unat_sub_small)
  with e s show ?thesis
    by (simp only: abs_chunks_def filesystem_chunkify_npow_def split_range_def Let_def
        fs_chunks.simps unat_div_distrib unat_mod_distrib)
qed

lemma abs_chunkify:
  assumes k: "k < 32" and range: "unat pos + unat n < 2 ^ (32 + k)"
  shows "abs_chunks (filesystem_chunkify pos n (2 ^ k - 1) (of_nat k)) =
    split_range (unat pos) (unat n) (2 ^ k)"
proof -
  let ?c = "2 ^ k :: nat"
  let ?fc = "ucast (drop_bit k pos) :: u32"
  let ?lc = "ucast (drop_bit k (pos + ucast n)) :: u32"
  let ?e = "if ?fc = ?lc then 0 else ucast (pos + ucast n) AND (2 ^ k - 1) :: u32"
  let ?E = "if unat pos div ?c = (unat pos + unat n) div ?c then 0
            else (unat pos + unat n) mod ?c"
  have "(2::nat) ^ (32 + k) \<le> 2 ^ 64" using k by (intro power_increasing) simp_all
  moreover have n64: "unat (ucast n :: u64) = unat n"
    by (rule unat_ucast_small) (use unat_u32_bound [of n] in simp)
  ultimately have sum: "unat (pos + ucast n) = unat pos + unat n"
    using range by (simp add: unat_add_small)
  have kk: "unat (of_nat k :: u32) = k" using k by (simp add: unat_of_nat take_bit_eq_mod)
  have low: "unat (ucast x AND (2 ^ k - 1) :: u32) = unat x mod ?c" for x :: u64
  proof -
    have "unat (ucast x :: u32) = unat x mod 2 ^ 32"
      by (simp add: unsigned_ucast_eq take_bit_eq_mod)
    moreover have "?c dvd 2 ^ 32" using k by (intro le_imp_power_dvd) simp
    ultimately show ?thesis by (simp only: unat_bit_mask mod_mod_cancel)
  qed
  have quot: "unat (ucast (drop_bit k x) :: u32) = unat x div ?c"
    if "unat x < 2 ^ (32 + k)" for x :: u64
  proof -
    have "unat x div ?c < 2 ^ 32" using that by (simp add: power_add less_mult_imp_div_less)
    then show ?thesis by (simp add: unat_ucast_small unat_shift_right)
  qed
  have fc: "unat ?fc = unat pos div ?c" using range by (intro quot) simp
  have lc: "unat ?lc = (unat pos + unat n) div ?c"
    using range by (subst quot) (simp_all add: sum)
  have same: "?fc = ?lc \<longleftrightarrow> unat pos div ?c = (unat pos + unat n) div ?c"
    by (simp only: word_unat_eq_iff fc lc)
  have e: "unat ?e = ?E" by (simp add: same low sum)
  have le: "?E \<le> unat n" using split_range_last_le [of ?c] by simp
  have d: "unat (n - ?e) = unat n - ?E" using le by (simp only: e unat_sub_small)
  have s: "unat ((n - ?e) AND (2 ^ k - 1)) = (unat n - ?E) mod ?c"
    by (simp only: unat_bit_mask d)
  have sl: "(unat n - ?E) mod ?c + ?E \<le> unat n"
    using le mod_less_eq_dividend [of "unat n - ?E" ?c] by linarith
  have "unat (((n - ?e) AND (2 ^ k - 1)) + ?e) = (unat n - ?E) mod ?c + ?E"
    by (rule trans [OF unat_add_small])
       (use sl unat_u32_bound [of n] in \<open>simp_all only: s e, simp\<close>)
  then have num: "unat (drop_bit k (n - (((n - ?e) AND (2 ^ k - 1)) + ?e))) =
      (unat n - ((unat n - ?E) mod ?c + ?E)) div ?c"
    using sl by (simp only: unat_shift_right unat_sub_small)
  show ?thesis
    unfolding abs_chunks_def filesystem_chunkify_def split_range_def Let_def fs_chunks.simps kk
    by (simp only: fc low e s num)
qed

section \<open>Properties\<close>

text \<open>The split of a byte range computed with shifts and masks in 32-bit arithmetic is the exact one:
  its pieces begin at the offset, add up to the length, cross no chunk boundary, and everything
  after a partial first piece is aligned.\<close>

theorem chunkify_exact:
  assumes "k < 32" and "unat pos + unat n < 2 ^ (32 + k)"
  shows "abs_chunks (filesystem_chunkify pos n (2 ^ k - 1) (of_nat k)) = split_range (unat pos) (unat n) (2 ^ k) \<and>
    covers_range (unat pos) (unat n) (2 ^ k) (abs_chunks (filesystem_chunkify pos n (2 ^ k - 1) (of_nat k)))"
proof -
  have "abs_chunks (filesystem_chunkify pos n (2 ^ k - 1) (of_nat k)) = split_range (unat pos) (unat n) (2 ^ k)"
    by (rule abs_chunkify [OF assms])
  then show ?thesis using split_range_covers [of "2 ^ k"] by simp
qed

theorem chunkify_exact_witness:
  "abs_chunks (filesystem_chunkify 1000 3000 (2 ^ 9 - 1) 9) =
     \<lparr>first_chunk = 1, first_offset = 488, first_size = 24, full_chunks = 5, last_size = 416\<rparr>"
  using chunkify_exact [of 9 1000 3000] by (simp add: split_range_def)

text \<open>For power-of-two chunks the routine with shifts agrees with the one with divisions.\<close>

theorem chunkify_equiv:
  assumes "k < 32" and "unat pos + unat n < 2 ^ 32"
  shows "filesystem_chunkify (ucast pos) n (2 ^ k - 1) (of_nat k) =
    filesystem_chunkify_npow pos n (2 ^ k)"
proof -
  have p: "unat (ucast pos :: u64) = unat pos"
    by (rule unat_ucast_small) (use unat_u32_bound [of pos] in simp)
  have "(2::nat) ^ 32 \<le> 2 ^ (32 + k)" by (intro power_increasing) simp_all
  with assms have "unat (ucast pos :: u64) + unat n < 2 ^ (32 + k)" by (simp only: p)
  then have "abs_chunks (filesystem_chunkify (ucast pos) n (2 ^ k - 1) (of_nat k)) =
    split_range (unat pos) (unat n) (2 ^ k)"
    using assms(1) p by (simp only: abs_chunkify)
  also have "\<dots> = abs_chunks (filesystem_chunkify_npow pos n (2 ^ k))"
  proof -
    have u: "unat (2 ^ k :: u32) = 2 ^ k" using assms(1) by simp
    then have "(2 ^ k :: u32) \<noteq> 0" by (metis power_not_zero unat_0 zero_neq_numeral)
    from abs_chunkify_npow [OF assms(2) this] show ?thesis by (simp only: u)
  qed
  finally show ?thesis by (auto simp: abs_chunks_def word_unat_eq_iff intro: fs_chunks.equality)
qed

theorem chunkify_equiv_witness:
  "filesystem_chunkify (ucast (1000 :: u32)) 3000 (2 ^ 9 - 1) 9 = filesystem_chunkify_npow 1000 3000 (2 ^ 9)"
  using chunkify_equiv [of 9 1000 3000] by simp

end
