(* ===== verification/Drives.thy ===== *)
theory Drives
  imports FsUtil
begin

text \<open>
  \<open>kernel/filesystem/drives.cpp\<close>: the block cache in front of a disk driver and the byte-granular
  reads and writes the filesystem drivers use. The driver is the struct of function pointers of
  \<open>kernel/filesystem/fs_driver.h\<close>; the device behind it is its state, of type \<open>'m\<close>.
  The code's locks serialise the operations; the model is the sequential program.
\<close>

section \<open>Drivers, cached blocks, drives\<close>

record 'm disk_driver =
  read_blocks :: "('m \<Rightarrow> u32 \<Rightarrow> u32 \<Rightarrow> byte list) option"
  write_blocks :: "('m \<Rightarrow> u32 \<Rightarrow> byte list \<Rightarrow> u32 \<Rightarrow> 'm) option"
  allocate_buffer :: "(u32 \<Rightarrow> byte list) option"
  free_buffer :: "unit option"

record cached_block =
  blk_index :: u32
  blk_data :: "byte list option"
  blk_dirty :: bool
  blk_valid :: bool

text \<open>
  \<open>m_malloc\<close> gives the contents a buffer of \<open>malloc\<close> happens to have: the source does not
  initialise it.
\<close>

record 'm filesystem_drive =
  m_drv_impl_data :: 'm
  m_driver :: "'m disk_driver"
  m_index :: u32
  m_minimum_block_size :: u32
  m_blocksz_log2 :: u32
  m_num_blocks :: u32
  m_num_blocks_per_cache :: u32
  m_malloc :: "u32 \<Rightarrow> byte list"
  m_last_index :: u32
  m_size :: u32
  m_data :: "cached_block list"

definition default_cache_size :: u32 where
  "default_cache_size = 1024"

definition calc_block_ratio :: "u32 \<Rightarrow> u32 \<Rightarrow> u32 option" where
  "calc_block_ratio block_size cache_size =
     (if has_single_bit block_size \<and> has_single_bit cache_size
      then Some (if cache_size < block_size \<or> cache_size mod block_size \<noteq> 0
                 then 1 else cache_size div block_size)
      else None)"

definition new_filesystem_drive ::
  "'m disk_driver \<Rightarrow> 'm \<Rightarrow> u32 \<Rightarrow> u32 \<Rightarrow> u32 \<Rightarrow> (u32 \<Rightarrow> byte list) \<Rightarrow> (nat \<Rightarrow> u32) \<Rightarrow>
     'm filesystem_drive option" where
  "new_filesystem_drive disk_drv driver_data block_size num_blocks idx malloc junk =
     (case calc_block_ratio block_size default_cache_size of
        None \<Rightarrow> None
      | Some ratio \<Rightarrow>
          if (allocate_buffer disk_drv = None) = (free_buffer disk_drv = None)
          then Some \<lparr>m_drv_impl_data = driver_data, m_driver = disk_drv, m_index = idx,
                 m_minimum_block_size = block_size,
                 m_blocksz_log2 = of_nat (countr_zero block_size),
                 m_num_blocks = num_blocks, m_num_blocks_per_cache = ratio, m_malloc = malloc,
                 m_last_index = 0, m_size = 8,
                 m_data = map (\<lambda>i. \<lparr>blk_index = junk i, blk_data = None, blk_dirty = False,
                                    blk_valid = False\<rparr>) [0..<8]\<rparr>
          else None)"

definition read_only :: "'m filesystem_drive \<Rightarrow> bool" where
  "read_only d \<longleftrightarrow> write_blocks (m_driver d) = None"

definition needs_buffer :: "'m filesystem_drive \<Rightarrow> bool" where
  "needs_buffer d \<longleftrightarrow> allocate_buffer (m_driver d) \<noteq> None"

definition supports_byte_access :: "'m filesystem_drive \<Rightarrow> bool" where
  "supports_byte_access d \<longleftrightarrow> m_minimum_block_size d = 1 \<and> \<not> needs_buffer d"

definition blocks_to_bytes :: "'m filesystem_drive \<Rightarrow> u32 \<Rightarrow> u32" where
  "blocks_to_bytes d n = push_bit (unat (m_blocksz_log2 d)) n"

definition drive_write_blocks ::
  "'m filesystem_drive \<Rightarrow> u32 \<Rightarrow> byte list \<Rightarrow> u32 \<Rightarrow> 'm filesystem_drive option" where
  "drive_write_blocks d lba buf n =
     (case write_blocks (m_driver d) of
        None \<Rightarrow> None
      | Some wr \<Rightarrow> Some (d\<lparr>m_drv_impl_data := wr (m_drv_impl_data d) lba buf n\<rparr>))"

definition drive_read_blocks :: "'m filesystem_drive \<Rightarrow> u32 \<Rightarrow> u32 \<Rightarrow> byte list option" where
  "drive_read_blocks d lba n =
     (case read_blocks (m_driver d) of
        None \<Rightarrow> None
      | Some rd \<Rightarrow> Some (rd (m_drv_impl_data d) lba n))"

definition drive_allocate_buffer :: "'m filesystem_drive \<Rightarrow> u32 \<Rightarrow> byte list" where
  "drive_allocate_buffer d n =
     (case allocate_buffer (m_driver d) of Some alloc \<Rightarrow> alloc n | None \<Rightarrow> m_malloc d n)"

section \<open>The cache\<close>

definition refresh_oldest_item :: "'m filesystem_drive \<Rightarrow> 'm filesystem_drive \<times> nat" where
  "refresh_oldest_item d =
     (let nxt = (m_last_index d + 1) mod m_size d
      in (d\<lparr>m_last_index := nxt\<rparr>, unat nxt))"

text \<open>
  \<open>block_rw\<close>: find the cached block that holds a block of the disk, or recycle the oldest one:
  write its old contents back when dirty, read the new contents unless all of them are about to
  be overwritten.
\<close>

definition prepare_item ::
  "'m filesystem_drive \<Rightarrow> cached_block \<Rightarrow> u32 \<Rightarrow> ('m filesystem_drive \<times> cached_block) option" where
  "prepare_item d item old_index =
     (case blk_data item of
        None \<Rightarrow> Some (d, item\<lparr>blk_data :=
                  Some (drive_allocate_buffer d (blocks_to_bytes d (m_num_blocks_per_cache d)))\<rparr>)
      | Some xs \<Rightarrow>
          if blk_dirty item
          then do {
            d \<leftarrow> drive_write_blocks d old_index xs (m_num_blocks_per_cache d);
            Some (d, item\<lparr>blk_dirty := False\<rparr>)
          }
          else Some (d, item))"

definition block_rw ::
  "'m filesystem_drive \<Rightarrow> u32 \<Rightarrow> bool \<Rightarrow> ('m filesystem_drive \<times> nat) option" where
  "block_rw d idx write_all = do {
     block \<leftarrow> align_power_2 idx (m_num_blocks_per_cache d);
     case find_if (\<lambda>c. block = blk_index c \<and> blk_valid c) (m_data d) of
       Some i \<Rightarrow> Some (d, i)
     | None \<Rightarrow>
         (let (d, i) = refresh_oldest_item d;
              item = m_data d ! i;
              old_index = blk_index item
          in do {
            (d, item) \<leftarrow> prepare_item d (item\<lparr>blk_index := block\<rparr>) old_index;
            item \<leftarrow> (if write_all then Some item
                    else do {
                      xs \<leftarrow> drive_read_blocks d (blk_index item) (m_num_blocks_per_cache d);
                      Some (item\<lparr>blk_data := Some xs\<rparr>)
                    });
            Some (d\<lparr>m_data := (m_data d)[i := item\<lparr>blk_valid := True\<rparr>]\<rparr>, i)
          })
   }"

definition write_to_block ::
  "'m filesystem_drive \<Rightarrow> u32 \<Rightarrow> u32 \<Rightarrow> byte list \<Rightarrow> u32 \<Rightarrow> 'm filesystem_drive option" where
  "write_to_block d block off buf num_bytes = do {
     (d, i) \<leftarrow> block_rw d block (num_bytes = blocks_to_bytes d (m_num_blocks_per_cache d));
     let blk = m_data d ! i;
     let block_offset = blocks_to_bytes d (block - blk_index blk);
     xs \<leftarrow> blk_data blk;
     src \<leftarrow> slice 0 (unat num_bytes) buf;
     xs \<leftarrow> patch (unat (block_offset + off)) src xs;
     Some (d\<lparr>m_data := (m_data d)[i := blk\<lparr>blk_data := Some xs, blk_dirty := True\<rparr>]\<rparr>)
   }"

definition read_from_block ::
  "'m filesystem_drive \<Rightarrow> u32 \<Rightarrow> u32 \<Rightarrow> u32 \<Rightarrow> (byte list \<times> 'm filesystem_drive) option" where
  "read_from_block d block off num_bytes = do {
     (d, i) \<leftarrow> block_rw d block False;
     let blk = m_data d ! i;
     let block_offset = blocks_to_bytes d (block - blk_index blk);
     xs \<leftarrow> blk_data blk;
     out \<leftarrow> slice (unat (block_offset + off)) (unat num_bytes) xs;
     Some (out, d)
   }"

text \<open>The range test \<open>block_flush\<close> and \<open>block_invalidate\<close> share.\<close>

definition skips_block :: "'m filesystem_drive \<Rightarrow> u32 \<Rightarrow> u32 \<Rightarrow> cached_block \<Rightarrow> bool" where
  "skips_block d idx num_blocks b \<longleftrightarrow>
     idx + num_blocks < blk_index b \<or> blk_index b + m_num_blocks_per_cache d < idx"

fun flush_blocks ::
  "'m filesystem_drive \<Rightarrow> u32 \<Rightarrow> u32 \<Rightarrow> cached_block list \<Rightarrow>
     ('m filesystem_drive \<times> cached_block list) option" where
  "flush_blocks d idx n [] = Some (d, [])"
| "flush_blocks d idx n (b # bs) =
     (if skips_block d idx n b \<or> \<not> blk_dirty b
      then do {
        (d, bs) \<leftarrow> flush_blocks d idx n bs;
        Some (d, b # bs)
      }
      else do {
        xs \<leftarrow> blk_data b;
        d \<leftarrow> drive_write_blocks d (blk_index b) xs (m_num_blocks_per_cache d);
        (d, bs) \<leftarrow> flush_blocks d idx n bs;
        Some (d, b\<lparr>blk_dirty := False\<rparr> # bs)
      })"

definition block_flush :: "'m filesystem_drive \<Rightarrow> u32 \<Rightarrow> u32 \<Rightarrow> 'm filesystem_drive option" where
  "block_flush d idx n = do {
     (d, bs) \<leftarrow> flush_blocks d idx n (m_data d);
     Some (d\<lparr>m_data := bs\<rparr>)
   }"

definition block_invalidate :: "'m filesystem_drive \<Rightarrow> u32 \<Rightarrow> u32 \<Rightarrow> 'm filesystem_drive" where
  "block_invalidate d idx n =
     d\<lparr>m_data := map (\<lambda>b. if skips_block d idx n b then b else b\<lparr>blk_valid := False\<rparr>) (m_data d)\<rparr>"

section \<open>Reads and writes of byte ranges\<close>

fun write_full_chunks ::
  "'m filesystem_drive \<Rightarrow> u32 \<Rightarrow> byte list \<Rightarrow> nat \<Rightarrow>
     ('m filesystem_drive \<times> u32 \<times> byte list) option" where
  "write_full_chunks d block buf 0 = Some (d, block, buf)"
| "write_full_chunks d block buf (Suc n) = do {
     d \<leftarrow> write_to_block d block 0 buf (m_minimum_block_size d);
     write_full_chunks d (block + 1) (drop (unat (m_minimum_block_size d)) buf) n
   }"

fun read_full_chunks ::
  "'m filesystem_drive \<Rightarrow> u32 \<Rightarrow> nat \<Rightarrow> (byte list \<times> 'm filesystem_drive \<times> u32) option" where
  "read_full_chunks d block 0 = Some ([], d, block)"
| "read_full_chunks d block (Suc n) = do {
     (xs, d) \<leftarrow> read_from_block d block 0 (m_minimum_block_size d);
     (ys, d, block) \<leftarrow> read_full_chunks d (block + 1) n;
     Some (xs @ ys, d, block)
   }"

definition filesystem_write_to_disk ::
  "'m filesystem_drive \<Rightarrow> u32 \<Rightarrow> u32 \<Rightarrow> byte list \<Rightarrow> u32 \<Rightarrow> 'm filesystem_drive option" where
  "filesystem_write_to_disk d block_num off buf num_bytes =
     (if read_only d then None
      else if supports_byte_access d then drive_write_blocks d (block_num + off) buf num_bytes
      else
        let blocks = filesystem_chunkify (ucast off) num_bytes
                       (m_minimum_block_size d - 1) (m_blocksz_log2 d);
            block = block_num + start_chunk blocks
        in do {
          (d, block, buf) \<leftarrow>
            (if start_size blocks \<noteq> 0
             then do {
               d \<leftarrow> write_to_block d block (start_offset blocks) buf (start_size blocks);
               Some (d, block + 1, drop (unat (start_size blocks)) buf)
             }
             else Some (d, block, buf));
          (d, block, buf) \<leftarrow>
            (if num_full_chunks blocks \<noteq> 0
             then if \<not> needs_buffer d \<and> 1 < num_full_chunks blocks
                  then do {
                    d \<leftarrow> drive_write_blocks (block_invalidate d block (num_full_chunks blocks))
                          block buf (num_full_chunks blocks);
                    Some (d, block + num_full_chunks blocks,
                      drop (unat (blocks_to_bytes d (num_full_chunks blocks))) buf)
                  }
                  else write_full_chunks d block buf (unat (num_full_chunks blocks))
             else Some (d, block, buf));
          (if end_size blocks \<noteq> 0 then write_to_block d block 0 buf (end_size blocks) else Some d)
        })"

definition filesystem_read_from_disk ::
  "'m filesystem_drive \<Rightarrow> u32 \<Rightarrow> u32 \<Rightarrow> u32 \<Rightarrow> (byte list \<times> 'm filesystem_drive) option" where
  "filesystem_read_from_disk d block_num off num_bytes =
     (if supports_byte_access d
      then map_option (\<lambda>xs. (xs, d)) (drive_read_blocks d (block_num + off) num_bytes)
      else
        let blocks = filesystem_chunkify (ucast off) num_bytes
                       (m_minimum_block_size d - 1) (m_blocksz_log2 d);
            block = block_num + start_chunk blocks
        in do {
          (xs, d, block) \<leftarrow>
            (if start_size blocks \<noteq> 0
             then do {
               (xs, d) \<leftarrow> read_from_block d block (start_offset blocks) (start_size blocks);
               Some (xs, d, block + 1)
             }
             else Some ([], d, block));
          (ys, d, block) \<leftarrow>
            (if num_full_chunks blocks \<noteq> 0
             then if \<not> needs_buffer d \<and> 1 < num_full_chunks blocks
                  then do {
                    d \<leftarrow> block_flush d block (num_full_chunks blocks);
                    ys \<leftarrow> drive_read_blocks d block (num_full_chunks blocks);
                    Some (ys, d, block + num_full_chunks blocks)
                  }
                  else read_full_chunks d block (unat (num_full_chunks blocks))
             else Some ([], d, block));
          (zs, d) \<leftarrow>
            (if end_size blocks \<noteq> 0 then read_from_block d block 0 (end_size blocks)
             else Some ([], d));
          Some (xs @ ys @ zs, d)
        })"

end
