(* ===== verification/FsTypes.thy ===== *)
theory FsTypes
  imports Drives
begin

text \<open>
  The data the filesystem layers exchange (\<open>api/files.h\<close>, \<open>kernel/filesystem.h\<close>,
  \<open>kernel/filesystem/fs_driver.h\<close>): file blocks and handles, directory streams, the virtual drive a
  filesystem driver works on, and the driver as a struct of function pointers.
\<close>

section \<open>Files\<close>

definition IS_DIR :: u32 where "IS_DIR = 0x01"
definition IS_READONLY :: u32 where "IS_READONLY = 0x02"
definition FILE_READ :: u32 where "FILE_READ = 0x01"
definition FILE_WRITE :: u32 where "FILE_WRITE = 0x02"
definition FILE_CREATE :: u32 where "FILE_CREATE = 0x08"
definition MAX_PATH :: nat where "MAX_PATH = 255"

record file_data_block =
  location_on_disk :: u32
  disk_id :: u32
  file_size :: u64
  file_flags :: u32
  format_data :: "byte list"

text \<open>\<open>std::string\<close> is a list of bytes; a path shared through \<open>intrusive_ptr\<close> is an option.\<close>

type_synonym bytes = "byte list"

record file_handle =
  dir_path :: "bytes option"
  name :: bytes
  file_data :: file_data_block
  time_created :: "64 word"
  time_modified :: "64 word"

record directory_stream =
  full_path :: "bytes option"
  dir_data :: file_data_block
  file_list :: "file_handle list"

definition ascii :: "string \<Rightarrow> bytes" where
  "ascii s = map of_char s"

text \<open>
  \<open>toupper\<close> of \<open>clib/include/ctype.h\<close> looks a character up in a table of 128. A plain \<open>char\<close> above 127 is
  negative, and the table is read in front of its beginning: what \<open>islower\<close> finds there is the
  argument \<open>low\<close>.
\<close>

definition islower :: "(byte \<Rightarrow> bool) \<Rightarrow> byte \<Rightarrow> bool" where
  "islower low c \<longleftrightarrow> (if c < 128 then 97 \<le> c \<and> c \<le> 122 else low c)"

definition toupper :: "(byte \<Rightarrow> bool) \<Rightarrow> byte \<Rightarrow> int" where
  "toupper low c = (if islower low c then sint c + 65 - 97 else sint c)"

definition filesystem_names_identical :: "(byte \<Rightarrow> bool) \<Rightarrow> bytes \<Rightarrow> bytes \<Rightarrow> bool" where
  "filesystem_names_identical low a b \<longleftrightarrow>
     length a = length b \<and> list_all2 (\<lambda>c_a c_b. toupper low c_a = toupper low c_b) a b"

section \<open>Virtual drives and drivers\<close>

datatype mount_status = MOUNT_SUCCESS | UNKNOWN_FILESYSTEM | MOUNT_FAILURE | DRIVE_NOT_SUPPORTED

text \<open>A partition of a disk, with the private data \<open>'i\<close> of the filesystem driver mounted on it.\<close>

record ('m, 'i) filesystem_virtual_drive =
  disk :: "'m filesystem_drive"
  fs_impl_data :: 'i
  fs_id :: u32
  first_block :: u32
  num_blocks :: u32
  block_size :: u32
  root_name :: bytes

definition filesystem_write ::
  "('m, 'i) filesystem_virtual_drive \<Rightarrow> u32 \<Rightarrow> u32 \<Rightarrow> bytes \<Rightarrow> u32 \<Rightarrow>
     ('m, 'i) filesystem_virtual_drive option" where
  "filesystem_write fd block off buf num_bytes =
     map_option (\<lambda>d. fd\<lparr>disk := d\<rparr>)
       (filesystem_write_to_disk (disk fd) (block + first_block fd) off buf num_bytes)"

definition filesystem_read ::
  "('m, 'i) filesystem_virtual_drive \<Rightarrow> u32 \<Rightarrow> u32 \<Rightarrow> u32 \<Rightarrow>
     (bytes \<times> ('m, 'i) filesystem_virtual_drive) option" where
  "filesystem_read fd block off num_bytes =
     map_option (\<lambda>(xs, d). (xs, fd\<lparr>disk := d\<rparr>))
       (filesystem_read_from_disk (disk fd) (block + first_block fd) off num_bytes)"

end
