(* ===== verification/Streams.thy ===== *)
theory Streams
  imports FsTypes
begin

text \<open>
  \<open>kernel/filesystem/streams.cpp\<close>: open files. A driver is the struct of function pointers of
  \<open>kernel/filesystem/fs_driver.h\<close>, over the state \<open>'v\<close> of the virtual drive it works on; the kernel
  keeps the list of virtual drives (\<open>drives.cpp\<close>).
\<close>

section \<open>Drivers and mounted drives\<close>

record 'v filesystem_driver =
  mount_disk :: "'v \<Rightarrow> (mount_status \<times> file_handle option \<times> 'v) option"
  read_chunks :: "(bytes \<Rightarrow> u32 \<Rightarrow> u64 \<Rightarrow> u32 \<Rightarrow> file_data_block \<Rightarrow> 'v \<Rightarrow> (bytes \<times> u32 \<times> 'v) option) option"
  write_chunks :: "(bytes \<Rightarrow> u32 \<Rightarrow> u64 \<Rightarrow> u32 \<Rightarrow> file_data_block \<Rightarrow> 'v \<Rightarrow> (u32 \<times> 'v) option) option"
  allocate_chunks :: "(u32 \<Rightarrow> u32 \<Rightarrow> file_data_block \<Rightarrow> 'v \<Rightarrow> (u64 \<times> 'v) option) option"
  read_dir :: "directory_stream \<Rightarrow> file_data_block \<Rightarrow> 'v \<Rightarrow> (directory_stream \<times> 'v) option"
  flush_file :: "(file_data_block \<Rightarrow> 'v \<Rightarrow> 'v option) option"
  create_file :: "(bytes \<Rightarrow> u32 \<Rightarrow> directory_stream \<Rightarrow> 'v \<Rightarrow> (directory_stream \<times> 'v) option) option"
  delete_file :: "(file_data_block \<Rightarrow> 'v \<Rightarrow> (int \<times> 'v) option) option"

record 'v virtual_drive =
  fs_driver :: "'v filesystem_driver option"
  drive_state :: 'v
  root_dir :: "file_handle option"
  mounted :: bool
  vd_read_only :: bool

record file_stream =
  stream_file :: file_data_block
  modified :: bool

text \<open>\<open>filesystem_get_drive\<close>: the assertions fail outside the list and on unmounted drives.\<close>

definition filesystem_get_drive ::
  "'v virtual_drive list \<Rightarrow> u32 \<Rightarrow> ('v virtual_drive \<times> 'v filesystem_driver) option" where
  "filesystem_get_drive vds i =
     (if unat i < length vds \<and> mounted (vds ! unat i)
      then case fs_driver (vds ! unat i) of
             None \<Rightarrow> None
           | Some drv \<Rightarrow> if read_chunks drv = None then None else Some (vds ! unat i, drv)
      else None)"

definition put_state :: "'v virtual_drive list \<Rightarrow> u32 \<Rightarrow> 'v \<Rightarrow> 'v virtual_drive list" where
  "put_state vds i v = vds[unat i := (vds ! unat i)\<lparr>drive_state := v\<rparr>]"

section \<open>Streams on one drive\<close>

text \<open>
  Each operation on the driver and the state of the drive the stream's file lives on. The
  length read or written is the last result.
\<close>

definition filesystem_create_stream :: "file_data_block \<Rightarrow> file_stream" where
  "filesystem_create_stream f = \<lparr>stream_file = f, modified = False\<rparr>"

definition clip_read :: "file_data_block \<Rightarrow> u64 \<Rightarrow> u32 \<Rightarrow> u32 option" where
  "clip_read f off len =
     (if file_flags f AND IS_DIR = 0
      then if file_size f \<le> off then None
           else if file_size f < off + ucast len then Some (ucast (file_size f - off))
           else Some len
      else Some len)"

definition stream_read ::
  "'v filesystem_driver \<Rightarrow> u64 \<Rightarrow> bytes \<Rightarrow> u32 \<Rightarrow> file_stream \<Rightarrow> 'v \<Rightarrow> (bytes \<times> u32 \<times> 'v) option" where
  "stream_read drv off dst len s v =
     (case clip_read (stream_file s) off len of
        None \<Rightarrow> Some (dst, 0, v)
      | Some len' \<Rightarrow> do {
          rd \<leftarrow> read_chunks drv;
          (dst, _, v) \<leftarrow> rd dst (location_on_disk (stream_file s)) off len' (stream_file s) v;
          Some (dst, len', v)
        })"

definition stream_allocate_space ::
  "'v filesystem_driver \<Rightarrow> u32 \<Rightarrow> u64 \<Rightarrow> file_stream \<Rightarrow> 'v \<Rightarrow> (file_stream \<times> 'v) option" where
  "stream_allocate_space drv location requested_size s v = do {
     alloc \<leftarrow> allocate_chunks drv;
     (allocated_size, v) \<leftarrow> alloc location (ucast requested_size) (stream_file s) v;
     Some (s\<lparr>stream_file := (stream_file s)\<lparr>file_size := min allocated_size requested_size\<rparr>\<rparr>, v)
   }"

definition stream_write ::
  "'v filesystem_driver \<Rightarrow> u64 \<Rightarrow> bytes \<Rightarrow> u32 \<Rightarrow> file_stream \<Rightarrow> 'v \<Rightarrow>
     (u32 \<times> file_stream \<times> 'v) option" where
  "stream_write drv off buf len s v =
     (if file_flags (stream_file s) AND IS_READONLY \<noteq> 0 then None
      else do {
        wr \<leftarrow> write_chunks drv;
        (s, len, v) \<leftarrow>
          (if file_flags (stream_file s) AND IS_DIR = 0 \<and> file_size (stream_file s) \<le> off + ucast len
           then do {
             (s, v) \<leftarrow> stream_allocate_space drv (location_on_disk (stream_file s)) (off + ucast len) s v;
             Some (s, ucast (file_size (stream_file s) - off), v)
           }
           else Some (s, len, v));
        (_, v) \<leftarrow> wr buf (location_on_disk (stream_file s)) off len (stream_file s) v;
        Some (len, s\<lparr>modified := True\<rparr>, v)
      })"

definition stream_close :: "'v filesystem_driver \<Rightarrow> file_stream \<Rightarrow> 'v \<Rightarrow> 'v option" where
  "stream_close drv s v =
     (if modified s
      then if file_flags (stream_file s) AND IS_READONLY \<noteq> 0 then None
           else do { fl \<leftarrow> flush_file drv; fl (stream_file s) v }
      else Some v)"

section \<open>The kernel's operations\<close>

text \<open>A handle that may not be opened in the mode asked for gives no stream.\<close>

definition filesystem_open_file_handle ::
  "'v virtual_drive list \<Rightarrow> file_handle \<Rightarrow> u32 \<Rightarrow> file_stream option option" where
  "filesystem_open_file_handle vds f mode =
     (let data = file_data f in
      if mode AND FILE_WRITE \<noteq> 0
      then if file_flags data AND IS_READONLY \<noteq> 0 then Some None
           else do {
             (drive, drv) \<leftarrow> filesystem_get_drive vds (disk_id data);
             if vd_read_only drive then Some None
             else if file_flags data AND IS_DIR \<noteq> 0 then Some None
             else Some (Some (filesystem_create_stream data))
           }
      else
        let data = data\<lparr>file_flags := file_flags data OR IS_READONLY\<rparr> in
        if file_flags data AND IS_DIR \<noteq> 0 then Some None
        else Some (Some (filesystem_create_stream data)))"

definition filesystem_read_file ::
  "u64 \<Rightarrow> bytes \<Rightarrow> u32 \<Rightarrow> file_stream \<Rightarrow> 'v virtual_drive list \<Rightarrow>
     (bytes \<times> u32 \<times> 'v virtual_drive list) option" where
  "filesystem_read_file off dst len s vds =
     (case clip_read (stream_file s) off len of
        None \<Rightarrow> Some (dst, 0, vds)
      | Some _ \<Rightarrow> do {
          (drive, drv) \<leftarrow> filesystem_get_drive vds (disk_id (stream_file s));
          (dst, n, v) \<leftarrow> stream_read drv off dst len s (drive_state drive);
          Some (dst, n, put_state vds (disk_id (stream_file s)) v)
        })"

definition filesystem_write_file ::
  "u64 \<Rightarrow> bytes \<Rightarrow> u32 \<Rightarrow> file_stream \<Rightarrow> 'v virtual_drive list \<Rightarrow>
     (u32 \<times> file_stream \<times> 'v virtual_drive list) option" where
  "filesystem_write_file off buf len s vds = do {
     (drive, drv) \<leftarrow> filesystem_get_drive vds (disk_id (stream_file s));
     (n, s', v) \<leftarrow> stream_write drv off buf len s (drive_state drive);
     Some (n, s', put_state vds (disk_id (stream_file s)) v)
   }"

definition filesystem_close_file ::
  "file_stream option \<Rightarrow> 'v virtual_drive list \<Rightarrow> (int \<times> 'v virtual_drive list) option" where
  "filesystem_close_file so vds =
     (case so of
        None \<Rightarrow> Some (-1, vds)
      | Some s \<Rightarrow>
          if modified s
          then do {
            (drive, drv) \<leftarrow> filesystem_get_drive vds (disk_id (stream_file s));
            v \<leftarrow> stream_close drv s (drive_state drive);
            Some (0, put_state vds (disk_id (stream_file s)) v)
          }
          else Some (0, vds))"

text \<open>The system calls check their pointers first; a null pointer is \<^const>\<open>None\<close>.\<close>

definition syscall_read_file ::
  "u64 \<Rightarrow> bytes option \<Rightarrow> u32 \<Rightarrow> file_stream option \<Rightarrow> 'v virtual_drive list \<Rightarrow>
     (bytes option \<times> u32 \<times> 'v virtual_drive list) option" where
  "syscall_read_file off dst len f vds =
     (case (f, dst) of
        (Some s, Some buf) \<Rightarrow>
          map_option (\<lambda>(buf, n, vds). (Some buf, n, vds)) (filesystem_read_file off buf len s vds)
      | _ \<Rightarrow> Some (dst, 0, vds))"

definition syscall_write_file ::
  "u64 \<Rightarrow> bytes option \<Rightarrow> u32 \<Rightarrow> file_stream option \<Rightarrow> 'v virtual_drive list \<Rightarrow>
     (u32 \<times> file_stream option \<times> 'v virtual_drive list) option" where
  "syscall_write_file off src len f vds =
     (case (f, src) of
        (Some s, Some buf) \<Rightarrow>
          if file_flags (stream_file s) AND IS_READONLY \<noteq> 0 then Some (0, f, vds)
          else map_option (\<lambda>(n, s, vds). (n, Some s, vds)) (filesystem_write_file off buf len s vds)
      | _ \<Rightarrow> Some (0, f, vds))"

definition syscall_open_file_handle ::
  "'v virtual_drive list \<Rightarrow> file_handle option \<Rightarrow> u32 \<Rightarrow> file_stream option option" where
  "syscall_open_file_handle vds f mode =
     (case f of None \<Rightarrow> Some None | Some h \<Rightarrow> filesystem_open_file_handle vds h mode)"

definition syscall_close_file ::
  "file_stream option \<Rightarrow> 'v virtual_drive list \<Rightarrow> (int \<times> 'v virtual_drive list) option" where
  "syscall_close_file so vds =
     (case so of
        None \<Rightarrow> Some (-1, vds)
      | Some s \<Rightarrow> map_option (\<lambda>(_, vds). (0, vds)) (filesystem_close_file so vds))"

section \<open>Properties\<close>

lemma readonly_bit: "(x OR IS_READONLY) AND IS_READONLY \<noteq> 0" for x :: u32
proof -
  have "bit ((x OR IS_READONLY) AND IS_READONLY) 1"
    by (simp add: bit_and_iff bit_or_iff IS_READONLY_def)
  then show ?thesis using bit_0_eq by force
qed

text \<open>A stream can be written through the system call exactly when it was opened for writing: the
  open call gives a stream for \<open>FILE_WRITE\<close> only on a writable file of a writable drive, and any
  write to a stream opened without it transfers nothing and leaves the stream and all drives as
  they were.\<close>

theorem write_needs_mode:
  assumes "syscall_open_file_handle vds (Some h) mode = Some (Some s)"
  shows "(file_flags (stream_file s) AND IS_READONLY = 0 \<longleftrightarrow> mode AND FILE_WRITE \<noteq> 0) \<and>
    (mode AND FILE_WRITE = 0 \<longrightarrow> syscall_write_file off src len (Some s) vds' = Some (0, Some s, vds')) \<and>
    (mode AND FILE_WRITE \<noteq> 0 \<longrightarrow>
      (\<exists>drive drv. filesystem_get_drive vds (disk_id (file_data h)) = Some (drive, drv) \<and> \<not> vd_read_only drive)) \<and>
    file_flags (file_data h) AND IS_DIR = 0"
proof (cases "mode AND FILE_WRITE = 0")
  case True
  with assms have d: "(file_flags (file_data h) OR IS_READONLY) AND IS_DIR = 0"
    and s: "s = filesystem_create_stream ((file_data h)\<lparr>file_flags := file_flags (file_data h) OR IS_READONLY\<rparr>)"
    by (auto simp: syscall_open_file_handle_def filesystem_open_file_handle_def Let_def split: if_splits)
  have "file_flags (stream_file s) AND IS_READONLY \<noteq> 0"
    using readonly_bit by (simp add: s filesystem_create_stream_def)
  moreover have "file_flags (file_data h) AND IS_DIR = 0"
    using d by (simp add: bit.conj_disj_distrib2 IS_READONLY_def IS_DIR_def)
  ultimately show ?thesis
    using True by (auto simp: syscall_write_file_def split: option.splits)
next
  case False
  with assms show ?thesis
    by (auto simp: syscall_open_file_handle_def filesystem_open_file_handle_def Let_def filesystem_create_stream_def
        split: if_splits Option.bind_splits)
qed

definition sample_file :: "u32 \<Rightarrow> file_handle" where
  "sample_file flags = \<lparr>dir_path = None, name = ascii ''a'', file_data =
     \<lparr>location_on_disk = 5, disk_id = 0, file_size = 100, file_flags = flags, format_data = []\<rparr>,
     time_created = 0, time_modified = 0\<rparr>"

theorem write_needs_mode_witness:
  "\<exists>s. syscall_open_file_handle ([] :: unit virtual_drive list) (Some (sample_file 0)) FILE_READ = Some (Some s) \<and>
     syscall_write_file 0 (Some [1, 2]) 2 (Some s) ([] :: unit virtual_drive list) = Some (0, Some s, [])"
proof -
  obtain s where "syscall_open_file_handle ([] :: unit virtual_drive list) (Some (sample_file 0)) FILE_READ = Some (Some s)"
    by (simp add: syscall_open_file_handle_def filesystem_open_file_handle_def sample_file_def FILE_READ_def
        FILE_WRITE_def IS_DIR_def IS_READONLY_def)
  with write_needs_mode [OF this, of 0 "Some [1, 2]" 2 "[]"] show ?thesis
    by (auto simp: FILE_READ_def FILE_WRITE_def)
qed

text \<open>A read stays in the file: at or past the end it returns zero and touches nothing; before the end it
  returns a length of at most what was asked for that ends at most at the end of the file, and less
  than asked for only when it ends there.\<close>

theorem read_stays_in_file:
  assumes "syscall_read_file off (Some buf) len (Some s) vds = Some (dst, n, vds')"
    and "file_flags (stream_file s) AND IS_DIR = 0" and "unat off + unat len < 2 ^ 64"
  shows "if file_size (stream_file s) \<le> off then n = 0 \<and> dst = Some buf \<and> vds' = vds
    else unat n \<le> unat len \<and> unat off + unat n \<le> unat (file_size (stream_file s)) \<and>
      (unat n < unat len \<longrightarrow> unat off + unat n = unat (file_size (stream_file s)))"
proof (cases "file_size (stream_file s) \<le> off")
  case True
  with assms show ?thesis
    by (auto simp: syscall_read_file_def filesystem_read_file_def clip_read_def)
next
  case False
  let ?sz = "file_size (stream_file s)"
  from False assms(2) obtain len' where clip: "clip_read (stream_file s) off len = Some len'"
    by (cases "file_size (stream_file s) < off + ucast len") (auto simp: clip_read_def)
  with assms(1) have n: "n = len'"
    by (auto simp: syscall_read_file_def filesystem_read_file_def stream_read_def split: Option.bind_splits)
  have sum: "unat (off + ucast len) = unat off + unat len"
  proof -
    have "unat (ucast len :: u64) = unat len" using unat_u32_bound [of len] by (intro unat_ucast_small) simp
    then show ?thesis using assms(3) by (subst unat_add_small) simp_all
  qed
  have lt: "unat off < unat ?sz" using False by (simp add: word_le_nat_alt)
  show ?thesis
  proof (cases "?sz < off + ucast len")
    case True
    then have "unat ?sz < unat off + unat len" by (simp add: word_less_nat_alt sum)
    moreover have "unat (?sz - off) = unat ?sz - unat off" using lt by (intro unat_sub_small) simp
    ultimately have "unat (ucast (?sz - off) :: u32) = unat ?sz - unat off"
      using unat_u32_bound [of len] by (subst unat_ucast_small) simp_all
    then have "unat n = unat ?sz - unat off"
      using True clip False assms(2) by (simp add: n clip_read_def split: if_splits)
    then show ?thesis using False lt \<open>unat ?sz < unat off + unat len\<close> by simp
  next
    case nt: False
    then have "n = len" using clip False assms(2) by (simp add: n clip_read_def split: if_splits)
    moreover have "unat off + unat len \<le> unat ?sz" using nt by (simp add: word_less_nat_alt sum)
    ultimately show ?thesis using False by simp
  qed
qed

theorem read_stays_in_file_witness:
  "syscall_read_file 200 (Some [0, 0]) 2 (Some (filesystem_create_stream (file_data (sample_file 0))))
     ([] :: unit virtual_drive list) = Some (Some [0, 0], 0, [])"
proof -
  let ?s = "filesystem_create_stream (file_data (sample_file 0))"
  have f: "file_size (stream_file ?s) = 100" "file_flags (stream_file ?s) AND IS_DIR = 0"
    by (simp_all add: filesystem_create_stream_def sample_file_def)
  then obtain dst n vds' where r: "syscall_read_file 200 (Some [0, 0]) 2 (Some ?s) ([] :: unit virtual_drive list) =
      Some (dst, n, vds')"
    by (auto simp: syscall_read_file_def filesystem_read_file_def clip_read_def)
  from read_stays_in_file [OF r f(2)] f(1) r show ?thesis by auto
qed

end
