(* ===== verification/FatTable.thy ===== *)
theory FatTable
  imports Streams
begin

text \<open>
  \<open>drivers/formats/fat.cpp\<close>, the volume and its file allocation table: the boot block, the entries
  of the three table layouts, and walking, extending and freeing cluster chains.
\<close>

section \<open>The volume\<close>

definition FAT12_EOF :: u32 where "FAT12_EOF = 0xFF8"
definition FAT16_EOF :: u32 where "FAT16_EOF = 0xFFF8"
definition FAT32_EOF :: u32 where "FAT32_EOF = 0x0FFFFFF8"
definition exFAT_EOF :: u32 where "exFAT_EOF = 0xFFFFFFF8"
definition FREE_CLUSTER :: u32 where "FREE_CLUSTER = 0x00"
definition DEFAULT_SECTOR_SIZE :: u32 where "DEFAULT_SECTOR_SIZE = 512"
definition FAT_ROOT_DIR_FLAG :: u32 where "FAT_ROOT_DIR_FLAG = 0x80000000"

datatype fat_type = FAT_UNKNOWN | FAT_12 | FAT_16 | FAT_32 | exFAT

definition fat_entry_mask :: "fat_type \<Rightarrow> u32" where
  "fat_entry_mask t = (case t of FAT_UNKNOWN \<Rightarrow> 0 | FAT_12 \<Rightarrow> 0xFFF | FAT_16 \<Rightarrow> 0xFFFF
     | FAT_32 \<Rightarrow> 0xFFFFFFF | exFAT \<Rightarrow> 0xFFFFFFFF)"

text \<open>\<open>sizeof(fat_entry_type_t<T>)\<close>.\<close>

definition fat_entry_size :: "fat_type \<Rightarrow> u32" where
  "fat_entry_size t = (case t of FAT_UNKNOWN \<Rightarrow> 0 | FAT_12 \<Rightarrow> 2 | FAT_16 \<Rightarrow> 2 | FAT_32 \<Rightarrow> 4 | exFAT \<Rightarrow> 4)"

record cluster_span =
  span_first :: u32
  span_count :: u32

record fat_drive =
  fats_size :: u32
  root_location :: u32
  datasector :: u32
  cluster_size :: u32
  cluster_size_log2 :: u32
  sectors_per_cluster :: u32
  sectors_per_cluster_log2 :: u32
  bytes_per_sector :: u32
  root_entries :: u32
  reserved_sectors :: u32
  num_clusters :: u32
  blocks_per_sector :: u32
  blocks_per_sector_log2 :: u32
  fat_block :: u32
  cached_fat_sector :: u32
  fat_dirty :: bool
  eof_value :: u32
  fs_type :: fat_type
  free_clusters :: "cluster_span list"

type_synonym 'm fat_volume = "('m, fat_drive) filesystem_virtual_drive"

definition fat_cluster_to_block :: "fat_drive \<Rightarrow> u32 \<Rightarrow> u32" where
  "fat_cluster_to_block d cluster =
     push_bit (unat (blocks_per_sector_log2 d))
       (push_bit (unat (sectors_per_cluster_log2 d)) (cluster - 2) + datasector d)"

section \<open>The boot block\<close>

text \<open>Fields of the packed \<open>bpb\<close> by their byte offsets.\<close>

definition get8 :: "bytes \<Rightarrow> nat \<Rightarrow> u32" where
  "get8 b i = ucast (b ! i)"

definition get16 :: "bytes \<Rightarrow> nat \<Rightarrow> u32" where
  "get16 b i = of_nat (le_nat (take 2 (drop i b)))"

definition get32 :: "bytes \<Rightarrow> nat \<Rightarrow> u32" where
  "get32 b i = of_nat (le_nat (take 4 (drop i b)))"

definition empty_fat_drive :: fat_drive where
  "empty_fat_drive = \<lparr>fats_size = 0, root_location = 0, datasector = 0, cluster_size = 0,
     cluster_size_log2 = 0, sectors_per_cluster = 0, sectors_per_cluster_log2 = 0,
     bytes_per_sector = 0, root_entries = 0, reserved_sectors = 0, num_clusters = 0,
     blocks_per_sector = 0, blocks_per_sector_log2 = 0, fat_block = 0, cached_fat_sector = 0,
     fat_dirty = False, eof_value = 0, fs_type = FAT_UNKNOWN, free_clusters = []\<rparr>"

text \<open>
  \<open>bios_block\<close> is the boot sector; a division by zero (a boot block with no sectors per cluster)
  traps and is \<^const>\<open>None\<close>.
\<close>

definition fat_read_bios_block ::
  "bytes \<Rightarrow> fat_drive \<Rightarrow> u32 \<Rightarrow> (mount_status \<times> fat_drive) option" where
  "fat_read_bios_block b d bsize =
     (if get8 b 0 \<noteq> 0xEB \<or> get8 b 2 \<noteq> 0x90 then Some (UNKNOWN_FILESYSTEM, d)
      else if \<not> has_single_bit (get16 b 11) then Some (MOUNT_FAILURE, d)
      else if get16 b 11 < bsize then Some (DRIVE_NOT_SUPPORTED, d)
      else if get8 b 13 = 0 \<or> bsize = 0 then None
      else
        let bps = get16 b 11;
            root_size = (32 * get16 b 17) div bps;
            fats = get8 b 16 * get16 b 22;
            root_loc = fats + get16 b 14;
            data = root_loc + root_size;
            bpsec = bps div bsize;
            total_sectors = (if get16 b 19 = 0 then get32 b 32 else get16 b 19);
            total_clusters = (total_sectors - data) div get8 b 13;
            (t, eof) = (if bps = 0 then (exFAT, exFAT_EOF)
                        else if total_clusters < 0xFF5 then (FAT_12, FAT12_EOF)
                        else if total_clusters < 0xFFF5 then (FAT_16, FAT16_EOF)
                        else (FAT_32, FAT32_EOF))
        in Some (MOUNT_SUCCESS,
             d\<lparr>fats_size := fats,
               root_location := (if t = exFAT \<or> t = FAT_32 then get32 b 44 else root_loc),
               datasector := data,
               cluster_size := get8 b 13 * bps,
               sectors_per_cluster := get8 b 13,
               bytes_per_sector := bps,
               root_entries := get16 b 17,
               reserved_sectors := get16 b 14,
               blocks_per_sector := bpsec,
               blocks_per_sector_log2 := of_nat (countr_zero bpsec),
               sectors_per_cluster_log2 := of_nat (countr_zero (get8 b 13)),
               cluster_size_log2 := of_nat (countr_zero (get8 b 13 * bps)),
               fat_block := get16 b 14 * bpsec,
               num_clusters := total_clusters,
               fs_type := t,
               eof_value := eof\<rparr>))"

definition fat_mount_disk ::
  "'m fat_volume \<Rightarrow> (mount_status \<times> file_handle option \<times> 'm fat_volume) option" where
  "fat_mount_disk d = do {
     (boot_sector, d) \<leftarrow> filesystem_read d 0 0 DEFAULT_SECTOR_SIZE;
     (err, f) \<leftarrow> fat_read_bios_block boot_sector empty_fat_drive (block_size d);
     (if err \<noteq> MOUNT_SUCCESS then Some (err, None, d)
      else
        let loc = (if fs_type f = FAT_12 \<or> fs_type f = FAT_16 then 0 else root_location f)
        in Some (MOUNT_SUCCESS,
             Some \<lparr>dir_path = None, name = root_name d,
                   file_data = \<lparr>location_on_disk = loc, disk_id = fs_id d, file_size = 0,
                     file_flags = IS_DIR OR FAT_ROOT_DIR_FLAG, format_data = replicate 8 0\<rparr>,
                   time_created = 0, time_modified = 0\<rparr>,
             d\<lparr>fs_impl_data := f\<lparr>cached_fat_sector := 0\<rparr>\<rparr>))
   }"

section \<open>Entries of the table\<close>

text \<open>The 12-bit entries share bytes: two clusters in three bytes.\<close>

definition fat_get_next_cluster_12 :: "u32 \<Rightarrow> 'm fat_volume \<Rightarrow> (u32 \<times> 'm fat_volume) option" where
  "fat_get_next_cluster_12 cluster fd =
     (let off = cluster + cluster div 2 in do {
        (xs, fd) \<leftarrow> filesystem_read fd (fat_block (fs_impl_data fd)) off 2;
        let v = (of_nat (le_nat xs) :: u16);
        Some ((if cluster AND 1 \<noteq> 0 then ucast (drop_bit 4 v)
               else ucast v AND fat_entry_mask FAT_12), fd)
      })"

definition fat_get_next_cluster_t ::
  "fat_type \<Rightarrow> u32 \<Rightarrow> 'm fat_volume \<Rightarrow> (u32 \<times> 'm fat_volume) option" where
  "fat_get_next_cluster_t t cluster fd =
     (let off = cluster * fat_entry_size t in do {
        (xs, fd) \<leftarrow> filesystem_read fd (fat_block (fs_impl_data fd)) off (fat_entry_size t);
        Some (of_nat (le_nat xs) AND fat_entry_mask t, fd)
      })"

definition fat_get_next_cluster :: "u32 \<Rightarrow> 'm fat_volume \<Rightarrow> (u32 \<times> 'm fat_volume) option" where
  "fat_get_next_cluster cluster fd =
     (case fs_type (fs_impl_data fd) of
        FAT_12 \<Rightarrow> fat_get_next_cluster_12 cluster fd
      | FAT_16 \<Rightarrow> fat_get_next_cluster_t FAT_16 cluster fd
      | FAT_32 \<Rightarrow> fat_get_next_cluster_t FAT_32 cluster fd
      | exFAT \<Rightarrow> fat_get_next_cluster_t exFAT cluster fd
      | FAT_UNKNOWN \<Rightarrow> None)"

definition fat_set_next_cluster_12 :: "u32 \<Rightarrow> u32 \<Rightarrow> 'm fat_volume \<Rightarrow> 'm fat_volume option" where
  "fat_set_next_cluster_12 cluster nxt fd =
     (let off = cluster + cluster div 2;
          fat_sector = reserved_sectors (fs_impl_data fd)
      in do {
        (xs, fd) \<leftarrow> filesystem_read fd fat_sector off 2;
        let v = (of_nat (le_nat xs) :: u16);
        let v' = (if cluster AND 1 \<noteq> 0 then (v AND 0x000F) OR ucast (push_bit 4 nxt)
                  else ucast ((ucast v AND 0xF000) OR (nxt AND 0x0FFF)));
        filesystem_write fd fat_sector off (le_bytes 2 (unat v')) 2
      })"

definition fat_set_next_cluster_t ::
  "fat_type \<Rightarrow> u32 \<Rightarrow> u32 \<Rightarrow> 'm fat_volume \<Rightarrow> 'm fat_volume option" where
  "fat_set_next_cluster_t t cluster nxt fd =
     (let off = cluster * fat_entry_size t;
          v = nxt AND fat_entry_mask t
      in filesystem_write fd (fat_block (fs_impl_data fd)) off
           (le_bytes (unat (fat_entry_size t)) (unat v)) (fat_entry_size t))"

definition fat_set_next_cluster ::
  "fat_type \<Rightarrow> u32 \<Rightarrow> u32 \<Rightarrow> 'm fat_volume \<Rightarrow> 'm fat_volume option" where
  "fat_set_next_cluster t cluster nxt fd =
     (if t = FAT_12 then fat_set_next_cluster_12 cluster nxt fd
      else fat_set_next_cluster_t t cluster nxt fd)"

section \<open>Chains\<close>

text \<open>\<open>while(num_clusters--)\<close> over the chain, stopping at the end mark.\<close>

fun relative_cluster :: "nat \<Rightarrow> u32 \<Rightarrow> 'm fat_volume \<Rightarrow> (u32 \<times> 'm fat_volume) option" where
  "relative_cluster 0 cluster fd = Some (cluster, fd)"
| "relative_cluster (Suc n) cluster fd = do {
     (cluster, fd) \<leftarrow> fat_get_next_cluster cluster fd;
     (if eof_value (fs_impl_data fd) \<le> cluster then Some (cluster, fd)
      else relative_cluster n cluster fd)
   }"

definition fat_get_relative_cluster :: "u32 \<Rightarrow> u32 \<Rightarrow> 'm fat_volume \<Rightarrow> (u32 \<times> 'm fat_volume) option" where
  "fat_get_relative_cluster cluster n fd = relative_cluster (unat n) cluster fd"

fun link_run :: "fat_type \<Rightarrow> u32 \<Rightarrow> nat \<Rightarrow> 'm fat_volume \<Rightarrow> 'm fat_volume option" where
  "link_run t cluster 0 fd = Some fd"
| "link_run t cluster (Suc n) fd = do {
     fd \<leftarrow> fat_set_next_cluster t cluster (cluster + 1) fd;
     link_run t (cluster + 1) n fd
   }"

definition do_write_to_fat ::
  "fat_type \<Rightarrow> u32 \<Rightarrow> u32 \<Rightarrow> u32 \<Rightarrow> 'm fat_volume \<Rightarrow> (u32 \<times> 'm fat_volume) option" where
  "do_write_to_fat t previous first n fd = do {
     fd \<leftarrow> (if previous \<noteq> 0 then fat_set_next_cluster t previous first fd else Some fd);
     fd \<leftarrow> link_run t first (unat (n - 1)) fd;
     Some (first + n - 1, fd)
   }"

definition write_to_fat ::
  "u32 \<Rightarrow> u32 \<Rightarrow> u32 \<Rightarrow> 'm fat_volume \<Rightarrow> (u32 \<times> 'm fat_volume) option" where
  "write_to_fat previous first n fd =
     (case fs_type (fs_impl_data fd) of
        FAT_UNKNOWN \<Rightarrow> None
      | t \<Rightarrow> do_write_to_fat t previous first n fd)"

definition fat_cluster_is_free :: "u32 \<Rightarrow> 'm fat_volume \<Rightarrow> (bool \<times> 'm fat_volume) option" where
  "fat_cluster_is_free cluster fd =
     map_option (\<lambda>(c, fd). (c = FREE_CLUSTER, fd)) (fat_get_next_cluster cluster fd)"

definition fat_mark_cluster_free :: "u32 \<Rightarrow> 'm fat_volume \<Rightarrow> 'm fat_volume option" where
  "fat_mark_cluster_free cluster fd = do {
     (_, fd) \<leftarrow> write_to_fat cluster FREE_CLUSTER 1 fd;
     let f = fs_impl_data fd;
     Some (fd\<lparr>fs_impl_data := f\<lparr>free_clusters :=
        free_clusters f @ [\<lparr>span_first = cluster, span_count = 1\<rparr>]\<rparr>\<rparr>)
   }"

section \<open>Claiming clusters\<close>

text \<open>
  The clusters freed since the mount are claimed first, the last freed first.
  \<^const>\<open>Inr\<close> is the return of the function, \<^const>\<open>Inl\<close> the state after the loop.
\<close>

fun claim_freed ::
  "nat \<Rightarrow> u32 \<Rightarrow> u32 \<Rightarrow> 'm fat_volume \<Rightarrow> ((u32 \<times> u32 + u32) \<times> 'm fat_volume) option" where
  "claim_freed 0 lst n fd = Some (Inl (lst, n), fd)"
| "claim_freed (Suc k) lst n fd =
     (let f = fs_impl_data fd; span = List.last (free_clusters f);
          fd = fd\<lparr>fs_impl_data := f\<lparr>free_clusters := butlast (free_clusters f)\<rparr>\<rparr>
      in do {
        (lst, fd) \<leftarrow> write_to_fat lst (span_first span) (span_count span) fd;
        let n = n - span_count span;
        (if n = 0
         then do {
           (_, fd) \<leftarrow> write_to_fat lst (eof_value (fs_impl_data fd)) 1 fd;
           Some (Inr lst, fd)
         }
         else claim_freed k lst n fd)
      })"

text \<open>The inner loop of the scan: how far the run of free clusters goes.\<close>

fun free_run ::
  "nat \<Rightarrow> u32 \<Rightarrow> u32 \<Rightarrow> 'm fat_volume \<Rightarrow> (u32 \<times> u32 \<times> 'm fat_volume) option" where
  "free_run 0 cluster cnt fd = Some (cluster, cnt, fd)"
| "free_run (Suc k) cluster cnt fd = do {
     (is_free, fd) \<leftarrow> fat_cluster_is_free (cluster + 1) fd;
     (if \<not> is_free then Some (cluster + 1, cnt, fd)
      else free_run k (cluster + 1) (cnt + 1) fd)
   }"

partial_function (option) claim_scan ::
  "u32 \<Rightarrow> u32 \<Rightarrow> u32 \<Rightarrow> 'm fat_volume \<Rightarrow> (u32 \<times> 'm fat_volume) option" where
  "claim_scan cluster lst n fd =
     (if cluster < num_clusters (fs_impl_data fd)
      then do {
        (is_free, fd) \<leftarrow> fat_cluster_is_free cluster fd;
        (if \<not> is_free then claim_scan (cluster + 1) lst n fd
         else do {
           (cluster', cnt, fd) \<leftarrow> free_run (unat n - 1) cluster 1 fd;
           (lst, fd) \<leftarrow> write_to_fat lst cluster cnt fd;
           (if n - cnt = 0
            then do {
              (_, fd) \<leftarrow> write_to_fat lst (eof_value (fs_impl_data fd)) 1 fd;
              Some (lst, fd)
            }
            else claim_scan (cluster' + 1) lst (n - cnt) fd)
         })
      }
      else do {
        (_, fd) \<leftarrow> write_to_fat lst (eof_value (fs_impl_data fd)) 1 fd;
        Some (0, fd)
      })"

definition fat_claim_clusters ::
  "u32 \<Rightarrow> u32 \<Rightarrow> 'm fat_volume \<Rightarrow> (u32 \<times> 'm fat_volume) option" where
  "fat_claim_clusters lst n fd = do {
     (r, fd) \<leftarrow> claim_freed (length (free_clusters (fs_impl_data fd))) lst n fd;
     (case r of
        Inr c \<Rightarrow> Some (c, fd)
      | Inl (lst, n) \<Rightarrow> claim_scan 0 lst n fd)
   }"

text \<open>Skipping the clusters the file already has.\<close>

fun skip_allocated :: "nat \<Rightarrow> u32 \<Rightarrow> 'm fat_volume \<Rightarrow> (u32 \<times> nat \<times> 'm fat_volume) option" where
  "skip_allocated 0 lst fd = Some (lst, 0, fd)"
| "skip_allocated (Suc n) lst fd = do {
     (cluster, fd) \<leftarrow> fat_get_next_cluster lst fd;
     (if cluster = eof_value (fs_impl_data fd) then Some (lst, Suc n, fd)
      else skip_allocated n cluster fd)
   }"

definition is_fat_root :: "fat_drive \<Rightarrow> file_data_block \<Rightarrow> bool" where
  "is_fat_root f file \<longleftrightarrow>
     (fs_type f = FAT_12 \<or> fs_type f = FAT_16) \<and> file_flags file AND FAT_ROOT_DIR_FLAG \<noteq> 0"

definition fat_allocate_clusters ::
  "u32 \<Rightarrow> u32 \<Rightarrow> file_data_block \<Rightarrow> 'm fat_volume \<Rightarrow> (u64 \<times> 'm fat_volume) option" where
  "fat_allocate_clusters start_cluster size_in_bytes file fd =
     (let f = fs_impl_data fd in
      if is_fat_root f file then Some (ucast (root_entries f * 32), fd)
      else if cluster_size f = 0 then None
      else
        let needed_clusters = (size_in_bytes + (cluster_size f - 1)) div cluster_size f
        in do {
          (lst, k, fd) \<leftarrow> skip_allocated (unat needed_clusters) start_cluster fd;
          (if k = 0 then Some (ucast size_in_bytes, fd)
           else do {
             (n, fd) \<leftarrow> fat_claim_clusters lst (of_nat k) fd;
             (if n = 0 then Some (ucast ((needed_clusters - n) * cluster_size f), fd)
              else Some (ucast size_in_bytes, fd))
           })
        })"

text \<open>The loop of \<open>fat_delete_file\<close> that makes a file's clusters available.\<close>

fun release_chain :: "nat \<Rightarrow> u32 \<Rightarrow> 'm fat_volume \<Rightarrow> 'm fat_volume option" where
  "release_chain 0 cluster fd = Some fd"
| "release_chain (Suc n) cluster fd = do {
     (nxt, fd) \<leftarrow> fat_get_next_cluster cluster fd;
     (if nxt = eof_value (fs_impl_data fd) then Some fd
      else do {
        fd \<leftarrow> fat_mark_cluster_free cluster fd;
        release_chain n nxt fd
      })
   }"

section \<open>Reading and writing the clusters of a file\<close>

fun write_clusters ::
  "nat \<Rightarrow> u32 \<Rightarrow> bytes \<Rightarrow> 'm fat_volume \<Rightarrow> (u32 \<times> bytes \<times> 'm fat_volume) option" where
  "write_clusters 0 cluster buf fd = Some (cluster, buf, fd)"
| "write_clusters (Suc n) cluster buf fd =
     (let f = fs_impl_data fd in
      if eof_value f \<le> cluster then Some (cluster, buf, fd)
      else do {
        fd \<leftarrow> filesystem_write fd (fat_cluster_to_block f cluster) 0 buf (cluster_size f);
        (cluster, fd) \<leftarrow> fat_get_next_cluster cluster fd;
        write_clusters n cluster (drop (unat (cluster_size f)) buf) fd
      })"

definition fat_write ::
  "bytes \<Rightarrow> u32 \<Rightarrow> u64 \<Rightarrow> u32 \<Rightarrow> file_data_block \<Rightarrow> 'm fat_volume \<Rightarrow> (u32 \<times> 'm fat_volume) option" where
  "fat_write buf start_cluster off sz file fd =
     (let f = fs_impl_data fd in
      if is_fat_root f file
      then do {
        fd \<leftarrow> filesystem_write fd (root_location f + start_cluster) (ucast off) buf sz;
        Some (ucast off AND (bytes_per_sector f - 1), fd)
      }
      else if eof_value f \<le> start_cluster then Some (start_cluster, fd)
      else
        let chunks = filesystem_chunkify off sz (cluster_size f - 1) (cluster_size_log2 f)
        in do {
          (cluster, fd) \<leftarrow> fat_get_relative_cluster start_cluster (start_chunk chunks) fd;
          (cluster, buf, fd) \<leftarrow>
            (if start_size chunks \<noteq> 0
             then do {
               fd \<leftarrow> filesystem_write fd (fat_cluster_to_block f cluster) (start_offset chunks) buf
                       (start_size chunks);
               (cluster, fd) \<leftarrow> fat_get_next_cluster cluster fd;
               Some (cluster, drop (unat (start_size chunks)) buf, fd)
             }
             else Some (cluster, buf, fd));
          (cluster, buf, fd) \<leftarrow> write_clusters (unat (num_full_chunks chunks)) cluster buf fd;
          fd \<leftarrow> (if end_size chunks \<noteq> 0 \<and> cluster < eof_value f
                then filesystem_write fd (fat_cluster_to_block f cluster) 0 buf (end_size chunks)
                else Some fd);
          Some (cluster, fd)
        })"

text \<open>
  Reads fill the caller's buffer from the front; \<open>pos\<close> is where the next bytes go. What a chain that
  ends early does not deliver stays as it was.
\<close>

definition fill :: "bytes \<Rightarrow> nat \<Rightarrow> bytes \<Rightarrow> bytes option" where
  "fill dst pos xs = patch pos xs dst"

fun read_clusters ::
  "nat \<Rightarrow> u32 \<Rightarrow> bytes \<Rightarrow> nat \<Rightarrow> 'm fat_volume \<Rightarrow> (u32 \<times> bytes \<times> nat \<times> 'm fat_volume) option" where
  "read_clusters 0 cluster dst pos fd = Some (cluster, dst, pos, fd)"
| "read_clusters (Suc n) cluster dst pos fd =
     (let f = fs_impl_data fd in
      if eof_value f \<le> cluster then Some (cluster, dst, pos, fd)
      else do {
        (xs, fd) \<leftarrow> filesystem_read fd (fat_cluster_to_block f cluster) 0 (cluster_size f);
        dst \<leftarrow> fill dst pos xs;
        (cluster, fd) \<leftarrow> fat_get_next_cluster cluster fd;
        read_clusters n cluster dst (pos + unat (cluster_size f)) fd
      })"

definition fat_read ::
  "bytes \<Rightarrow> u32 \<Rightarrow> u64 \<Rightarrow> u32 \<Rightarrow> file_data_block \<Rightarrow> 'm fat_volume \<Rightarrow>
     (bytes \<times> u32 \<times> 'm fat_volume) option" where
  "fat_read dst start_cluster off sz file fd =
     (let f = fs_impl_data fd in
      if eof_value f \<le> start_cluster then Some (dst, start_cluster, fd)
      else if is_fat_root f file
      then do {
        (xs, fd) \<leftarrow> filesystem_read fd (root_location f + start_cluster) (ucast off) sz;
        dst \<leftarrow> fill dst 0 xs;
        Some (dst, ucast off AND (bytes_per_sector f - 1), fd)
      }
      else
        let chunks = filesystem_chunkify off sz (cluster_size f - 1) (cluster_size_log2 f)
        in do {
          (cluster, fd) \<leftarrow> fat_get_relative_cluster start_cluster (start_chunk chunks) fd;
          (if eof_value f \<le> cluster then Some (dst, cluster, fd)
           else do {
             (cluster, dst, pos, fd) \<leftarrow>
               (if start_size chunks \<noteq> 0
                then do {
                  (xs, fd) \<leftarrow> filesystem_read fd (fat_cluster_to_block f cluster)
                                (start_offset chunks) (start_size chunks);
                  dst \<leftarrow> fill dst 0 xs;
                  (cluster, fd) \<leftarrow> fat_get_next_cluster cluster fd;
                  Some (cluster, dst, unat (start_size chunks), fd)
                }
                else Some (cluster, dst, 0, fd));
             (cluster, dst, pos, fd) \<leftarrow>
               read_clusters (unat (num_full_chunks chunks)) cluster dst pos fd;
             (dst, fd) \<leftarrow>
               (if end_size chunks \<noteq> 0 \<and> cluster < eof_value f
                then do {
                  (xs, fd) \<leftarrow> filesystem_read fd (fat_cluster_to_block f cluster) 0 (end_size chunks);
                  dst \<leftarrow> fill dst pos xs;
                  Some (dst, fd)
                }
                else Some (dst, fd));
             Some (dst, cluster, fd)
           })
        })"

end
