(* ===== verification/CTime.thy ===== *)
theory CTime
  imports Prelude "HOL-Library.Signed_Division"
begin

text \<open>
  \<open>clib/time.cpp\<close>: \<open>mktime\<close> and \<open>gmtime\<close>. \<open>time_t\<close> is a 64-bit and \<open>int\<close> a 32-bit signed integer;
  division truncates. A signed 32-bit overflow has no defined result and is \<^const>\<open>None\<close>.
\<close>

section \<open>The calendar\<close>

record tm =
  tm_sec :: int
  tm_min :: int
  tm_hour :: int
  tm_mday :: int
  tm_mon :: int
  tm_year :: int
  tm_wday :: int
  tm_yday :: int
  tm_isdst :: int

definition is_leap_year :: "int \<Rightarrow> nat" where
  "is_leap_year a = (if a smod 4 = 0 \<and> (a smod 100 \<noteq> 0 \<or> a smod 400 = 0) then 1 else 0)"

definition beginning_of_time :: int where "beginning_of_time = 1970"
definition moment_of_creation :: int where "moment_of_creation = 0"
definition gregorian_cycle_len :: int where "gregorian_cycle_len = 146097"
definition years_per_cycle :: int where "years_per_cycle = 400"
definition leap_days_before_epoch :: int where "leap_days_before_epoch = 477"
definition days_per_year :: int where "days_per_year = 365"
definition days_before_epoch :: int where
  "days_before_epoch = days_per_year * beginning_of_time + leap_days_before_epoch"
definition days_per_4_years :: int where "days_per_4_years = days_per_year * 4 + 1"
definition days_per_100_years :: int where "days_per_100_years = days_per_year * 25 - 1"
definition seconds_per_day :: int where "seconds_per_day = 86400"
definition seconds_per_hour :: int where "seconds_per_hour = 3600"
definition seconds_per_minute :: int where "seconds_per_minute = 60"

lemmas time_constants =
  beginning_of_time_def moment_of_creation_def gregorian_cycle_len_def years_per_cycle_def
  leap_days_before_epoch_def days_per_year_def days_before_epoch_def days_per_4_years_def
  days_per_100_years_def seconds_per_day_def seconds_per_hour_def seconds_per_minute_def

definition days_per_month :: "nat \<Rightarrow> int list" where
  "days_per_month leap =
     (if leap = 0 then [31, 28, 31, 30, 31, 30, 31, 31, 30, 31, 30, 31]
      else [31, 29, 31, 30, 31, 30, 31, 31, 30, 31, 30, 31])"

definition ordinal_date :: "nat \<Rightarrow> int list" where
  "ordinal_date leap =
     (if leap = 0 then [0, 31, 59, 90, 120, 151, 181, 212, 243, 273, 304, 334]
      else [0, 31, 60, 91, 121, 152, 182, 213, 244, 274, 305, 335])"

section \<open>From a broken-down date\<close>

text \<open>The value of an \<open>int\<close> expression, and the conversion to \<open>int\<close>.\<close>

definition i32 :: "int \<Rightarrow> int option" where
  "i32 x = (if - (2 ^ 31) \<le> x \<and> x < 2 ^ 31 then Some x else None)"

definition to_int :: "int \<Rightarrow> int" where
  "to_int x = signed_take_bit 31 x"

lemma to_int_small [simp]:
  assumes "- (2 ^ 31) \<le> x" and "x < 2 ^ 31"
  shows "to_int x = x"
  using assms by (simp add: to_int_def signed_take_bit_int_eq_self)

definition mktime :: "tm \<Rightarrow> int option" where
  "mktime t = do {
     actual_year \<leftarrow> i32 (tm_year t + 1900);
     mins \<leftarrow> i32 (tm_min t * seconds_per_minute);
     hours \<leftarrow> i32 (tm_hour t * seconds_per_hour);
     mday \<leftarrow> i32 ((tm_mday t - 1) * seconds_per_day);
     ord \<leftarrow> (if 0 \<le> tm_mon t \<and> tm_mon t < 12
            then Some (ordinal_date (is_leap_year actual_year) ! nat (tm_mon t)) else None);
     mon \<leftarrow> i32 (ord * 86400);
     let last_year = actual_year - 1;
     days \<leftarrow> i32 ((actual_year - beginning_of_time) * 365 +
               (last_year sdiv 4 - last_year sdiv 100 + last_year sdiv 400 - leap_days_before_epoch));
     years \<leftarrow> i32 (days * 86400);
     Some (moment_of_creation + tm_sec t + mins + hours + mday + mon + years)
   }"

section \<open>To a broken-down date\<close>

text \<open>\<open>while(day_of_year >= dpm)\<close>; running past the last month is an access outside the table.\<close>

fun month_loop :: "int \<Rightarrow> int \<Rightarrow> int list \<Rightarrow> (int \<times> int) option" where
  "month_loop day month [] = None"
| "month_loop day month (dpm # dpms) =
     (if dpm \<le> day then month_loop (day - dpm) (month + 1) dpms else Some (day, month))"

text \<open>The year and the day of the year that a number of days since year zero stands for.\<close>

definition year_of_days :: "int \<Rightarrow> int \<times> int" where
  "year_of_days days_since_1bc =
     (let year_of_last_cycle = years_per_cycle * to_int (days_since_1bc sdiv gregorian_cycle_len);
          days_since_cycle = to_int (days_since_1bc smod gregorian_cycle_len);
          last_centennial = year_of_last_cycle + 100 * (days_since_cycle sdiv days_per_100_years);
          days_since_centennial = days_since_cycle smod days_per_100_years;
          last_leap_year = last_centennial + 4 * (days_since_centennial sdiv days_per_4_years);
          days_since_leap = days_since_centennial smod days_per_4_years
      in (last_leap_year + days_since_leap sdiv days_per_year, days_since_leap smod days_per_year))"

definition gmtime :: "int \<Rightarrow> tm option" where
  "gmtime seconds =
     (let sec = to_int (seconds smod 60);
          minutes = seconds sdiv 60;
          mn = to_int (minutes smod 60);
          (mn, sec) = (if sec < 0 then (mn - 1, sec + 60) else (mn, sec));
          hours = minutes sdiv 60;
          hr = to_int (hours smod 24);
          (hr, mn) = (if mn < 0 then (hr - 1, mn + 60) else (hr, mn));
          days = hours sdiv 24;
          wday = to_int ((days + 4) smod 7);
          (days, hr) = (if hr < 0 then (days - 1, hr + 24) else (days, hr));
          wday = (if wday < 0 then wday + 7 else wday);
          (current_year, day_of_year) = year_of_days (days_before_epoch + days)
      in do {
        (day, month) \<leftarrow> month_loop day_of_year 0 (days_per_month (is_leap_year current_year));
        Some \<lparr>tm_sec = sec, tm_min = mn, tm_hour = hr, tm_mday = day + 1, tm_mon = month,
          tm_year = current_year - 1900, tm_wday = wday, tm_yday = day_of_year, tm_isdst = 0\<rparr>
      })"

section \<open>The days of 2000 to 2024\<close>

lemma sdiv_nonneg [simp]: "0 \<le> (a::int) \<Longrightarrow> 0 < b \<Longrightarrow> a sdiv b = a div b"
  by (cases "a = 0") (simp_all add: signed_divide_int_def)

lemma smod_nonneg [simp]: "0 \<le> (a::int) \<Longrightarrow> 0 < b \<Longrightarrow> a smod b = a mod b"
  by (cases "a = 0") (simp_all add: signed_modulo_int_def minus_div_mult_eq_mod)

lemma year_of_days_2000:
  assumes "0 \<le> D" and "D < 9124"
  shows "year_of_days (730485 + D) = (2000 + 4 * (D div 1461) + D mod 1461 div 365, D mod 1461 mod 365)"
proof -
  have e: "730485 + D = D + 5 * 146097" by simp
  have "(730485 + D) div 146097 = 5" and "(730485 + D) mod 146097 = D"
    unfolding e using assms by (simp_all only: div_mult_self1 mod_mult_self1) simp_all
  moreover have "D div 9124 = 0" "D mod 9124 = D" using assms by simp_all
  ultimately show ?thesis
    using assms by (simp add: year_of_days_def time_constants Let_def)
qed

lemma month_loop_ok:
  assumes "0 \<le> doy" and "doy < 365"
  shows "\<exists>d m. month_loop doy 0 (days_per_month l) = Some (d, m) \<and> 0 \<le> m \<and> m < 12 \<and> 0 \<le> d \<and> d < 31 \<and>
    ordinal_date l ! nat m + d = doy"
  using assms by (cases "l = 0") (simp_all add: days_per_month_def ordinal_date_def)

lemma to_int_mod [simp]: "0 < b \<Longrightarrow> b \<le> 2 ^ 31 \<Longrightarrow> to_int (a mod b) = a mod b"
  using pos_mod_sign [of b a] pos_mod_bound [of b a] by (intro to_int_small) linarith+

lemma gmtime_nonneg:
  assumes "0 \<le> t"
  shows "gmtime t =
    (case year_of_days (days_before_epoch + t div 60 div 60 div 24) of (y, doy) \<Rightarrow> do {
       (day, month) \<leftarrow> month_loop doy 0 (days_per_month (is_leap_year y));
       Some \<lparr>tm_sec = t mod 60, tm_min = t div 60 mod 60, tm_hour = t div 60 div 60 mod 24, tm_mday = day + 1,
         tm_mon = month, tm_year = y - 1900, tm_wday = (t div 60 div 60 div 24 + 4) mod 7, tm_yday = doy,
         tm_isdst = 0\<rparr>
     })"
proof -
  have n: "0 \<le> t div 60" "0 \<le> t div 60 div 60" "0 \<le> t div 60 div 60 div 24 + 4"
    "0 \<le> t div 60 div 60 div 24" using assms by simp_all
  have s: "t smod 60 = t mod 60" "t sdiv 60 = t div 60" "t div 60 smod 60 = t div 60 mod 60"
    "t div 60 sdiv 60 = t div 60 div 60" "t div 60 div 60 smod 24 = t div 60 div 60 mod 24"
    "t div 60 div 60 sdiv 24 = t div 60 div 60 div 24"
    "(t div 60 div 60 div 24 + 4) smod 7 = (t div 60 div 60 div 24 + 4) mod 7"
    using assms n by (simp_all del: add_nonneg_eq_0_iff)
  have p: "\<not> a mod 60 < 0" "\<not> a mod 24 < 0" "\<not> a mod 7 < 0" for a :: int by simp_all
  have i: "to_int (a mod 60) = a mod 60" "to_int (a mod 24) = a mod 24" "to_int (a mod 7) = a mod 7" for a
    by simp_all
  show ?thesis unfolding gmtime_def Let_def s i
    by (simp only: p if_False prod.case)
qed

text \<open>A date within the day \<open>D\<close> that the code counts from 2 January 2000.\<close>

lemma gmtime_2000:
  assumes D: "0 \<le> D" "D < 9124" and s: "0 \<le> s" "s < 86400"
  defines "y \<equiv> 2000 + 4 * (D div 1461) + D mod 1461 div 365"
  obtains d m where
    "gmtime ((10958 + D) * 86400 + s) =
       Some \<lparr>tm_sec = s mod 60, tm_min = s div 60 mod 60, tm_hour = s div 3600, tm_mday = d + 1,
         tm_mon = m, tm_year = y - 1900, tm_wday = (10962 + D) mod 7,
         tm_yday = D mod 1461 mod 365, tm_isdst = 0\<rparr>"
    "0 \<le> m" "m < 12" "0 \<le> d" "d < 31" "ordinal_date (is_leap_year y) ! nat m + d = D mod 1461 mod 365"
proof -
  let ?t = "(10958 + D) * 86400 + s" and ?doy = "D mod 1461 mod 365"
  have t: "0 \<le> ?t" using D s by simp
  have sec: "?t mod 60 = s mod 60" and mn: "?t div 60 mod 60 = s div 60 mod 60"
    and hr: "?t div 60 div 60 mod 24 = s div 3600" and dy: "?t div 60 div 60 div 24 = 10958 + D"
  proof -
    have 1: "?t = s + (10958 + D) * 1440 * 60" by simp
    have 2: "?t div 60 = s div 60 + (10958 + D) * 24 * 60"
      unfolding 1 by (subst div_mult_self1) simp_all
    have 3: "?t div 60 div 60 = s div 3600 + (10958 + D) * 24"
      unfolding 2 by (simp add: div_mult_self1 zdiv_zmult2_eq [of 60 s 60, simplified])
    have h: "0 \<le> s div 3600" "s div 3600 < 24" using s by (simp_all add: div_less_iff_less_mult)
    show "?t mod 60 = s mod 60" unfolding 1 by (rule mod_mult_self1)
    show "?t div 60 mod 60 = s div 60 mod 60" unfolding 2 by (rule mod_mult_self1)
    show "?t div 60 div 60 mod 24 = s div 3600" unfolding 3 using h by (simp only: mod_mult_self1) simp
    show "?t div 60 div 60 div 24 = 10958 + D" unfolding 3 using h by simp
  qed
  have nn: "0 \<le> ?t div 60" "0 \<le> ?t div 60 div 60" using t by simp_all
  obtain d m where ml: "month_loop ?doy 0 (days_per_month (is_leap_year y)) = Some (d, m)"
    and m: "0 \<le> m" "m < 12" "0 \<le> d" "d < 31" "ordinal_date (is_leap_year y) ! nat m + d = ?doy"
    using month_loop_ok [of ?doy "is_leap_year y"] by auto
  have yd: "year_of_days (days_before_epoch + (10958 + D)) = (y, ?doy)"
    using year_of_days_2000 [OF D] by (simp add: time_constants y_def)
  have h: "s div 3600 < 24" "0 \<le> s div 3600" using s by (simp_all add: div_less_iff_less_mult)
  have w: "(10958 + D + 4) mod 7 = (10962 + D) mod 7" by simp
  have "gmtime ?t = Some \<lparr>tm_sec = s mod 60, tm_min = s div 60 mod 60, tm_hour = s div 3600,
      tm_mday = d + 1, tm_mon = m, tm_year = y - 1900, tm_wday = (10962 + D) mod 7,
      tm_yday = ?doy, tm_isdst = 0\<rparr>"
    unfolding gmtime_nonneg [OF t] sec mn hr dy yd w by (simp add: ml)
  then show thesis using m by (rule that)
qed

text \<open>\<open>mktime\<close> on the dates \<open>gmtime\<close> gives: the days before the year \<open>y\<close> since 1970.\<close>

lemma mktime_year:
  assumes y: "2000 < y" "y < 2030" and m: "0 \<le> m" "m < 12" and d: "0 \<le> d" "d < 31"
    and s: "0 \<le> s" "s < 86400"
  shows "mktime \<lparr>tm_sec = s mod 60, tm_min = s div 60 mod 60, tm_hour = s div 3600, tm_mday = d + 1,
      tm_mon = m, tm_year = y - 1900, tm_wday = w, tm_yday = yd, tm_isdst = 0\<rparr> =
    Some (((y - 1970) * 365 + (y - 1) div 4 - 492 + ordinal_date (is_leap_year y) ! nat m + d) * 86400 + s)"
proof -
  have o: "0 \<le> ordinal_date l ! nat m \<and> ordinal_date l ! nat m \<le> 335" for l
  proof -
    have "ordinal_date l ! nat m \<in> set (ordinal_date l)"
      using m by (intro nth_mem) (auto simp: ordinal_date_def)
    then show ?thesis by (auto simp: ordinal_date_def split: if_splits)
  qed
  have ly: "(y - 1) div 100 = 20" "(y - 1) div 400 = 5"
    using y zdiv_mono1 [of 2000 "y - 1" 100] zdiv_mono1 [of "y - 1" 2099 100]
      zdiv_mono1 [of 2000 "y - 1" 400] zdiv_mono1 [of "y - 1" 2399 400] by simp_all
  have q: "500 \<le> (y - 1) div 4" "(y - 1) div 4 < 508" using y by (simp_all add: div_less_iff_less_mult)
  have h: "0 \<le> s div 3600" "s div 3600 < 24" using s by (simp_all add: div_less_iff_less_mult)
  have split: "s mod 60 + s div 60 mod 60 * 60 + s div 3600 * 3600 = s"
  proof -
    have "s div 3600 = s div 60 div 60" by (simp add: zdiv_zmult2_eq [of 60 s 60, simplified])
    then show ?thesis using div_mult_mod_eq [of s 60] div_mult_mod_eq [of "s div 60" 60] by linarith
  qed
  have mm: "0 \<le> s div 60 mod 60" "s div 60 mod 60 < 60" by simp_all
  have lin: "(y - 1970) * 365 + E - 492 \<le> 22000 \<and> 10957 \<le> (y - 1970) * 365 + E - 492"
    if "2000 < y" "y < 2030" "500 \<le> E" "E < 508" for y E :: int
    using that by simp
  have days: "(y - 1970) * 365 + ((y - 1) sdiv 4 - (y - 1) sdiv 100 + (y - 1) sdiv 400 - 477) =
      (y - 1970) * 365 + (y - 1) div 4 - 492"
    using y by (simp add: ly)
  have parts: "sec + mi * 60 + ho * 3600 + d * 86400 + mon * 86400 + ys * 86400 = (ys + mon + d) * 86400 + s"
    if "sec + mi * 60 + ho * 3600 = s" for sec mi ho mon ys :: int
    using that by simp
  have i: "i32 x = Some x" if "0 \<le> x" "x < 2147483648" for x using that by (simp add: i32_def)
  have "i32 (y - 1900 + 1900) = Some y" using y by (simp add: i32_def)
  moreover have "i32 (s div 60 mod 60 * 60) = Some (s div 60 mod 60 * 60)"
    using mm by (intro i) linarith+
  moreover have "i32 (s div 3600 * 3600) = Some (s div 3600 * 3600)" using h by (intro i) linarith+
  moreover have "i32 ((d + 1 - 1) * 86400) = Some (d * 86400)" using d i [of "d * 86400"] by simp
  moreover have "i32 (ordinal_date (is_leap_year y) ! nat m * 86400) = Some (ordinal_date (is_leap_year y) ! nat m * 86400)"
    using o [of "is_leap_year y"] by (intro i) linarith+
  moreover have "i32 E = Some E \<and> i32 (E * 86400) = Some (E * 86400)" if "E \<le> 22000 \<and> 10957 \<le> E" for E
    using that by (intro conjI i) linarith+
  from this [OF lin [OF y q]]
  have "i32 ((y - 1970) * 365 + (y - 1) div 4 - 492) = Some ((y - 1970) * 365 + (y - 1) div 4 - 492)"
    "i32 (((y - 1970) * 365 + (y - 1) div 4 - 492) * 86400) = Some (((y - 1970) * 365 + (y - 1) div 4 - 492) * 86400)"
    by blast+
  ultimately show ?thesis
    unfolding mktime_def Let_def time_constants tm.simps add_0 days
    by (simp only: diff_add_cancel bind.bind_lunit m conj_assoc simp_thms if_True days parts [OF split])
qed

lemma days_before_year:
  fixes a b :: int
  assumes "0 \<le> b" and "b \<le> 4" and "0 < a \<or> 0 < b"
  shows "(2000 + 4 * a + b - 1970) * 365 + (2000 + 4 * a + b - 1) div 4 - 492 =
    10957 + 1461 * a + 365 * b + (if b = 0 then 0 else 1)"
proof (cases "b = 0")
  case True
  have "(2000 + 4 * a + b - 1) div 4 = 499 + a" using True by presburger
  with True show ?thesis by simp
next
  case False
  have "(2000 + 4 * a + b - 1) div 4 = 500 + a" using False assms by presburger
  with False show ?thesis by simp
qed

section \<open>Properties\<close>



text \<open>Outside these years the divisor \<open>days_per_100_years\<close> (9124 days instead of 36524) sends
  \<open>gmtime\<close> to another century: the epoch is given as 8 April 3020 and 25 December 2024 as
  1 January 2100, while \<open>mktime\<close> maps the true dates to these times.\<close>

theorem gmtime_wrong_century:
  "map_option (\<lambda>g. (tm_year g, tm_mon g, tm_mday g)) (gmtime 0) = Some (1120, 3, 8) \<and>
   map_option (\<lambda>g. (tm_year g, tm_mon g, tm_mday g)) (gmtime 1735084800) = Some (200, 0, 1) \<and>
   mktime \<lparr>tm_sec = 0, tm_min = 0, tm_hour = 0, tm_mday = 1, tm_mon = 0, tm_year = 70, tm_wday = 4,
     tm_yday = 0, tm_isdst = 0\<rparr> = Some 0 \<and>
   mktime \<lparr>tm_sec = 0, tm_min = 0, tm_hour = 0, tm_mday = 25, tm_mon = 11, tm_year = 124, tm_wday = 3,
     tm_yday = 359, tm_isdst = 0\<rparr> = Some 1735084800"
  by (intro conjI; simp add: gmtime_def mktime_def year_of_days_def time_constants days_per_month_def
      ordinal_date_def is_leap_year_def i32_def Let_def)

text \<open>\<open>mktime\<close> computes the seconds of the whole years in a 32-bit \<open>int\<close>: every valid date of
  2039 or later overflows it, although \<open>time_t\<close> has 64 bits.\<close>

theorem mktime_2039:
  assumes "139 \<le> tm_year t" and "tm_year t \<le> 1000"
  shows "mktime t = None"
proof -
  let ?y = "tm_year t + 1900" and ?d = "(tm_year t + 1900 - 1970) * 365 +
      ((tm_year t + 1900 - 1) div 4 - (tm_year t + 1900 - 1) div 100 + (tm_year t + 1900 - 1) div 400 - 477)"
  have "24856 * 86400 \<le> ?d * 86400"
  proof -
    have "(?y - 1) div 100 = (?y - 1) div 4 div 25"
      by (simp add: zdiv_zmult2_eq [of 25 "?y - 1" 4, simplified])
    moreover have "25 * ((?y - 1) div 4 div 25) \<le> (?y - 1) div 4" by simp
    moreover have "509 \<le> (?y - 1) div 4" "5 \<le> (?y - 1) div 400"
      using assms zdiv_mono1 [of 2036 "?y - 1" 4] zdiv_mono1 [of 2000 "?y - 1" 400] by simp_all
    ultimately have e: "477 \<le> (?y - 1) div 4 - (?y - 1) div 100 + (?y - 1) div 400" by linarith
    have lin: "24856 \<le> (Y + 1900 - 1970) * 365 + (E - 477)" if "139 \<le> Y" "477 \<le> E" for Y E :: int
      using that by simp
    show ?thesis by (rule mult_right_mono [OF lin [OF assms(1) e]]) simp
  qed
  moreover have "i32 x = None" if "24856 * 86400 \<le> x" for x using that by (simp add: i32_def)
  ultimately have o: "i32 (?d * 86400) = None" by blast
  have n: "0 \<le> ?y - 1" using assms by simp
  have y: "i32 (tm_year t + 1900) = Some ?y" using assms by (simp add: i32_def)
  have s: "(?y - 1) sdiv 4 = (?y - 1) div 4" "(?y - 1) sdiv 100 = (?y - 1) div 100"
    "(?y - 1) sdiv 400 = (?y - 1) div 400"
    by (rule sdiv_nonneg [OF n], rule zero_less_numeral)+
  have "i32 x = None \<or> i32 x = Some x" for x by (simp add: i32_def)
  from this [of ?d] show ?thesis
  proof (elim disjE)
    assume 1: "i32 ?d = None"
    show ?thesis
      unfolding mktime_def Let_def y time_constants bind.bind_lunit s 1 bind.bind_lzero bind_rzero ..
  next
    assume 2: "i32 ?d = Some ?d"
    show ?thesis
      unfolding mktime_def Let_def y time_constants bind.bind_lunit s 2 o bind.bind_lzero bind_rzero ..
  qed
qed

theorem mktime_2039_witness:
  "mktime \<lparr>tm_sec = 0, tm_min = 0, tm_hour = 0, tm_mday = 1, tm_mon = 0, tm_year = 139, tm_wday = 6,
     tm_yday = 0, tm_isdst = 0\<rparr> = None"
  by (rule mktime_2039) simp_all

end
