(* ===== verification/Unicode.thy ===== *)
theory Unicode
  imports Prelude
begin

text \<open>
  \<open>kernel/util/unicode.h\<close>: UTF-8 and UTF-16. An iterator range is the list of the items left; an
  output iterator is the list of the items written. \<open>std::string\<close> is a list of bytes,
  \<open>char32_t\<close> a 32-bit word.
\<close>

section \<open>UTF-8\<close>

definition utf8_encode_char :: "u32 \<Rightarrow> byte list" where
  "utf8_encode_char c =
     (if c \<le> 0x7F then [ucast c]
      else if c \<le> 0x7FF then
        [ucast (0xC0 OR (drop_bit 6 c AND 0x1F)), ucast (0x80 OR (c AND 0x3F))]
      else if c \<le> 0xFFFF then
        [ucast (0xE0 OR (drop_bit 12 c AND 0x0F)), ucast (0x80 OR (drop_bit 6 c AND 0x3F)),
         ucast (0x80 OR (c AND 0x3F))]
      else if c \<le> 0x10FFFF then
        [ucast (0xF0 OR (drop_bit 18 c AND 0x07)), ucast (0x80 OR (drop_bit 12 c AND 0x3F)),
         ucast (0x80 OR (drop_bit 6 c AND 0x3F)), ucast (0x80 OR (c AND 0x3F))]
      else [0xEF, 0xBF, 0xBD])"

definition utf8_encode :: "u32 list \<Rightarrow> byte list" where
  "utf8_encode input = concat (map utf8_encode_char input)"

record 'a decode_result =
  ch :: u32
  pos :: "'a list"

definition countl_one :: "byte \<Rightarrow> nat" where
  "countl_one c = length (takeWhile (bit c) (rev [0..<8]))"

text \<open>The loop of \<open>utf8_decode_char\<close>: \<open>n\<close> continuation bytes are still expected.\<close>

fun utf8_decode_loop :: "nat \<Rightarrow> u32 \<Rightarrow> byte list \<Rightarrow> byte decode_result" where
  "utf8_decode_loop n nxt [] = \<lparr>ch = 0, pos = []\<rparr>"
| "utf8_decode_loop n nxt (c # cs) =
     (if c AND 0x80 = 0 then \<lparr>ch = ucast c, pos = cs\<rparr>
      else if c AND 0xC0 = 0x80 \<and> n \<noteq> 0
      then let nxt = push_bit 6 nxt OR (ucast c AND 0x3F)
           in if n - 1 = 0 then \<lparr>ch = nxt, pos = cs\<rparr> else utf8_decode_loop (n - 1) nxt cs
      else let n = countl_one c
           in utf8_decode_loop (n - 1) (ucast c AND drop_bit (n + 1) 0xFF) cs)"

definition utf8_decode_char :: "byte list \<Rightarrow> byte decode_result" where
  "utf8_decode_char input = utf8_decode_loop 0 0 input"

lemma utf8_decode_loop_shorter:
  "input \<noteq> [] \<Longrightarrow> length (pos (utf8_decode_loop n nxt input)) < length input"
proof (induction n nxt input rule: utf8_decode_loop.induct)
  case (2 n nxt c cs)
  then show ?case by (cases cs) (auto simp: Let_def less_SucI)
qed simp

lemma utf8_decode_char_shorter [termination_simp]:
  "length (pos (utf8_decode_char (c # cs))) < Suc (length cs)"
  using utf8_decode_loop_shorter [of "c # cs"] by (simp add: utf8_decode_char_def)

text \<open>The characters the loop of \<open>utf8_decode\<close> collects.\<close>

fun utf8_decode :: "byte list \<Rightarrow> u32 list" where
  "utf8_decode [] = []"
| "utf8_decode (c # cs) =
     ch (utf8_decode_char (c # cs)) # utf8_decode (pos (utf8_decode_char (c # cs)))"

section \<open>UTF-16\<close>

definition utf16_encode_char :: "u32 \<Rightarrow> u16 list" where
  "utf16_encode_char c =
     (if c \<le> 0xFFFF then [ucast c]
      else let c = c - 0x10000
           in [ucast (0xD800 OR (drop_bit 10 c AND 0x3FF)), ucast (0xDC00 OR (c AND 0x3FF))])"

definition utf16_encode :: "u32 list \<Rightarrow> u16 list" where
  "utf16_encode input = concat (map utf16_encode_char input)"

fun utf16_decode_loop :: "u32 \<Rightarrow> u16 list \<Rightarrow> u16 decode_result" where
  "utf16_decode_loop nxt [] = \<lparr>ch = 0, pos = []\<rparr>"
| "utf16_decode_loop nxt (c # cs) =
     (if c < 0xD800 \<or> 0xDFFF < c then \<lparr>ch = ucast c, pos = cs\<rparr>
      else if c AND 0xFC00 = 0xDC00
      then \<lparr>ch = (push_bit 10 nxt OR (ucast c AND 0x3FF)) + 0x10000, pos = cs\<rparr>
      else if c AND 0xFC00 = 0xD800 then utf16_decode_loop (ucast c AND 0x3FF) cs
      else utf16_decode_loop nxt cs)"

definition utf16_decode_char :: "u16 list \<Rightarrow> u16 decode_result" where
  "utf16_decode_char input = utf16_decode_loop 0 input"

lemma utf16_decode_loop_shorter:
  "input \<noteq> [] \<Longrightarrow> length (pos (utf16_decode_loop nxt input)) < length input"
proof (induction nxt input rule: utf16_decode_loop.induct)
  case (2 nxt c cs)
  then show ?case by (cases cs) (auto simp: less_SucI)
qed simp

lemma utf16_decode_char_shorter [termination_simp]:
  "length (pos (utf16_decode_char (c # cs))) < Suc (length cs)"
  using utf16_decode_loop_shorter [of "c # cs"] by (simp add: utf16_decode_char_def)

fun utf16_decode :: "u16 list \<Rightarrow> u32 list" where
  "utf16_decode [] = []"
| "utf16_decode (c # cs) =
     ch (utf16_decode_char (c # cs)) # utf16_decode (pos (utf16_decode_char (c # cs)))"

section \<open>Conversions\<close>

fun utf16_to_utf8 :: "u16 list \<Rightarrow> byte list" where
  "utf16_to_utf8 [] = []"
| "utf16_to_utf8 (c # cs) =
     utf8_encode_char (ch (utf16_decode_char (c # cs))) @ utf16_to_utf8 (pos (utf16_decode_char (c # cs)))"

fun utf8_to_utf16 :: "byte list \<Rightarrow> u16 list" where
  "utf8_to_utf16 [] = []"
| "utf8_to_utf16 (c # cs) =
     utf16_encode_char (ch (utf8_decode_char (c # cs))) @ utf8_to_utf16 (pos (utf8_decode_char (c # cs)))"

section \<open>Bits of the encodings\<close>

lemma masks:
  "x AND 0x07 = take_bit 3 x" "x AND 0x0F = take_bit 4 x" "x AND 0x1F = take_bit 5 x"
  "x AND 0x3F = take_bit 6 x" "x AND 0x3FF = take_bit 10 x" "x AND 0x7F = take_bit 7 x"
  for x :: "'a::len word"
  by (simp_all add: take_bit_eq_mask mask_eq_exp_minus_1)

lemma less_8_cases: "n < 8 \<Longrightarrow> n = 0 \<or> n = 1 \<or> n = 2 \<or> n = 3 \<or> n = 4 \<or> n = 5 \<or> n = 6 \<or> n = (7::nat)"
  by arith

lemma join_bits:
  "push_bit k (take_bit m (drop_bit k x)) OR take_bit k x = take_bit (k + m) x" for x :: "'a::len word"
  by (rule bit_word_eqI) (auto simp: bit_simps)

lemma cont_byte:
  fixes x :: u32
  defines "b \<equiv> (ucast (0x80 OR take_bit 6 x) :: byte)"
  shows "b AND 0x80 \<noteq> 0" "b AND 0xC0 = 0x80" "take_bit 6 (ucast b) = (take_bit 6 x :: u32)"
proof -
  have bits: "bit b n \<longleftrightarrow> n = 7 \<or> n < 6 \<and> bit x n" if "n < 8" for n
    using less_8_cases [OF that] unfolding b_def by (elim disjE) (simp_all add: bit_simps)
  show "b AND 0x80 \<noteq> 0"
  proof
    assume "b AND 0x80 = 0"
    then have "\<not> bit (b AND 0x80) 7" by simp
    then show False using bits [of 7] by (simp add: bit_simps)
  qed
  show "b AND 0xC0 = 0x80"
  proof (rule bit_word_eqI)
    fix n assume "n < LENGTH(8)"
    then have n: "n < 8" by simp
    show "bit (b AND 0xC0) n \<longleftrightarrow> bit (0x80 :: byte) n"
      using less_8_cases [OF n] bits [OF n] by (elim disjE) (simp_all add: bit_simps)
  qed
  show "take_bit 6 (ucast b) = (take_bit 6 x :: u32)"
    by (rule bit_word_eqI) (auto simp: bit_simps bits)
qed

lemma lead_bytes:
  fixes x :: u32
  shows "ucast (0xC0 OR take_bit 5 x) AND (0x80 :: byte) \<noteq> 0"
    "countl_one (ucast (0xC0 OR take_bit 5 x)) = 2"
    "take_bit 5 (ucast (ucast (0xC0 OR take_bit 5 x) :: byte)) = (take_bit 5 x :: u32)"
    "ucast (0xE0 OR take_bit 4 x) AND (0x80 :: byte) \<noteq> 0"
    "countl_one (ucast (0xE0 OR take_bit 4 x)) = 3"
    "take_bit 4 (ucast (ucast (0xE0 OR take_bit 4 x) :: byte)) = (take_bit 4 x :: u32)"
    "ucast (0xF0 OR take_bit 3 x) AND (0x80 :: byte) \<noteq> 0"
    "countl_one (ucast (0xF0 OR take_bit 3 x)) = 4"
    "take_bit 3 (ucast (ucast (0xF0 OR take_bit 3 x) :: byte)) = (take_bit 3 x :: u32)"
proof -
  have bits: "bit (ucast (0xC0 OR take_bit 5 x) :: byte) n \<longleftrightarrow> n = 7 \<or> n = 6 \<or> n < 5 \<and> bit x n"
    "bit (ucast (0xE0 OR take_bit 4 x) :: byte) n \<longleftrightarrow> n = 7 \<or> n = 6 \<or> n = 5 \<or> n < 4 \<and> bit x n"
    "bit (ucast (0xF0 OR take_bit 3 x) :: byte) n \<longleftrightarrow> n = 7 \<or> n = 6 \<or> n = 5 \<or> n = 4 \<or> n < 3 \<and> bit x n"
    if "n < 8" for n
    using less_8_cases [OF that] by (elim disjE; simp add: bit_simps)+
  have top: "b AND 0x80 \<noteq> 0" if "bit b 7" for b :: byte
  proof
    assume "b AND 0x80 = 0"
    then have "\<not> bit (b AND 0x80) 7" by simp
    then show False using that by (simp add: bit_simps)
  qed
  have idx: "rev [0..<8] = [7, 6, 5, 4, 3, 2, 1, 0 :: nat]" by (simp add: upt_rec)
  show "ucast (0xC0 OR take_bit 5 x) AND (0x80 :: byte) \<noteq> 0"
    "ucast (0xE0 OR take_bit 4 x) AND (0x80 :: byte) \<noteq> 0"
    "ucast (0xF0 OR take_bit 3 x) AND (0x80 :: byte) \<noteq> 0"
    by (rule top; simp add: bits)+
  show "countl_one (ucast (0xC0 OR take_bit 5 x)) = 2" "countl_one (ucast (0xE0 OR take_bit 4 x)) = 3"
    "countl_one (ucast (0xF0 OR take_bit 3 x)) = 4"
    by (simp_all only: countl_one_def idx) (simp_all add: bits)
  have low: "take_bit m (ucast b) = (take_bit m x :: u32)"
    if "\<And>n. n < m \<Longrightarrow> bit b n \<longleftrightarrow> bit x n" and "m \<le> 8" for b :: byte and m
    using that by (intro bit_word_eqI) (auto simp: bit_simps)
  show "take_bit 5 (ucast (ucast (0xC0 OR take_bit 5 x) :: byte)) = (take_bit 5 x :: u32)"
    "take_bit 4 (ucast (ucast (0xE0 OR take_bit 4 x) :: byte)) = (take_bit 4 x :: u32)"
    "take_bit 3 (ucast (ucast (0xF0 OR take_bit 3 x) :: byte)) = (take_bit 3 x :: u32)"
    by (rule low; simp add: bits)+
qed

lemma take_bit_word_self:
  fixes x :: "'a::len word"
  assumes "unat x < 2 ^ n"
  shows "take_bit n x = x"
  using assms by (simp add: word_unat_eq_iff unsigned_take_bit_eq take_bit_nat_eq_self)

text \<open>Decoding what was encoded gives the character and what follows it.\<close>

lemma utf8_decode_encode_char:
  assumes "c \<le> 0x10FFFF"
  shows "utf8_decode_char (utf8_encode_char c @ rest) = \<lparr>ch = c, pos = rest\<rparr>"
proof -
  have d: "drop_bit 12 c = drop_bit 6 (drop_bit 6 c)" "drop_bit 18 c = drop_bit 6 (drop_bit 6 (drop_bit 6 c))"
    by simp_all
  consider "c \<le> 0x7F" | "\<not> c \<le> 0x7F" "c \<le> 0x7FF" | "\<not> c \<le> 0x7FF" "c \<le> 0xFFFF" | "\<not> c \<le> 0xFFFF"
    by blast
  then show ?thesis
  proof cases
    case 1
    then have u: "unat c < 128" by (simp add: word_le_nat_alt)
    then have c: "take_bit 7 c = c" by (intro take_bit_word_self) simp
    have "(ucast c :: byte) AND 0x80 = 0"
    proof (rule bit_word_eqI)
      fix n assume "n < LENGTH(8)"
      then have n: "n < 8" by simp
      have "\<not> bit c 7" by (subst c [symmetric]) (simp add: bit_simps)
      then show "bit ((ucast c :: byte) AND 0x80) n \<longleftrightarrow> bit (0 :: byte) n"
        using less_8_cases [OF n] by (elim disjE) (simp_all add: bit_simps)
    qed
    moreover have "ucast (ucast c :: byte) = c"
      using u by (simp add: word_unat_eq_iff unat_ucast_small)
    ultimately show ?thesis using 1 by (simp add: utf8_encode_char_def utf8_decode_char_def)
  next
    case 2
    then have "take_bit 11 c = c" by (intro take_bit_word_self) (simp add: word_le_nat_alt)
    then show ?thesis using 2 join_bits [of 6 5 c]
      by (simp add: utf8_encode_char_def utf8_decode_char_def masks lead_bytes cont_byte Let_def)
  next
    case 3
    then have "take_bit 16 c = c" by (intro take_bit_word_self) (simp add: word_le_nat_alt)
    moreover have "\<not> c \<le> 0x7F" using 3 by (simp add: word_le_nat_alt)
    ultimately show ?thesis using 3 join_bits [of 6 10 c] join_bits [of 6 4 "drop_bit 6 c"]
      by (simp add: utf8_encode_char_def utf8_decode_char_def masks lead_bytes cont_byte Let_def d(1)
          del: drop_bit_drop_bit)
  next
    case 4
    have "take_bit 21 c = c" using assms by (intro take_bit_word_self) (simp add: word_le_nat_alt)
    moreover have "\<not> c \<le> 0x7F" "\<not> c \<le> 0x7FF" using 4 by (simp_all add: word_le_nat_alt)
    moreover have "push_bit 6 (push_bit 6 (push_bit 6 (take_bit 3 (drop_bit 6 (drop_bit 6 (drop_bit 6 c)))) OR
        take_bit 6 (drop_bit 6 (drop_bit 6 c))) OR take_bit 6 (drop_bit 6 c)) OR take_bit 6 c = take_bit 21 c"
      using join_bits [of 6 15 c] join_bits [of 6 9 "drop_bit 6 c"] join_bits [of 6 3 "drop_bit 6 (drop_bit 6 c)"]
      by simp
    ultimately show ?thesis
      using 4 assms
      by (simp add: utf8_encode_char_def utf8_decode_char_def masks lead_bytes cont_byte Let_def d
          del: drop_bit_drop_bit)
  qed
qed

definition surrogate :: "u32 \<Rightarrow> bool" where
  "surrogate c \<longleftrightarrow> 0xD800 \<le> c \<and> c \<le> 0xDFFF"

lemma surrogate_half:
  fixes x :: u32 and h :: u32
  assumes "h = 0xD800 \<or> h = 0xDC00"
  defines "w \<equiv> (ucast (h OR take_bit 10 x) :: u16)"
  shows "\<not> w < 0xD800" "\<not> 0xDFFF < w" "w AND 0xFC00 = ucast h" "take_bit 10 (ucast w) = (take_bit 10 x :: u32)"
proof -
  have t: "unat (take_bit 10 x) < 1024"
    by (simp add: unsigned_take_bit_eq take_bit_nat_def)
  have h0: "\<not> bit h n" if "n < 10" for n
    using assms(1) that by (auto simp: bit_simps less_Suc_eq numeral_eq_Suc)
  have "h AND take_bit 10 x = 0"
  proof (rule bit_word_eqI)
    fix n
    show "bit (h AND take_bit 10 x) n \<longleftrightarrow> bit (0 :: u32) n" using h0 [of n] by (auto simp: bit_simps)
  qed
  then have "h OR take_bit 10 x = h + take_bit 10 x" using word_plus_and_or [of h "take_bit 10 x"] by simp
  moreover have hn: "unat h = 0xD800 \<or> unat h = 0xDC00" using assms(1) by auto
  ultimately have "unat (h OR take_bit 10 x) = unat h + unat (take_bit 10 x)"
    using t by (auto intro: unat_add_small)
  then have w: "unat w = unat h + unat (take_bit 10 x)"
    unfolding w_def using t hn by (subst unat_ucast_small) auto
  show "\<not> w < 0xD800" "\<not> 0xDFFF < w" using w t hn by (auto simp: word_less_nat_alt)
  have wb: "bit w n \<longleftrightarrow> (if n < 10 then bit x n else bit h n)" if "n < 16" for n
    using that h0 by (auto simp: w_def bit_simps)
  show "w AND 0xFC00 = ucast h"
  proof (rule bit_word_eqI)
    fix n assume "n < LENGTH(16)"
    then have n: "n < 16" by simp
    have k: "(0xFC00 :: u16) = push_bit 10 (mask 6)" by (simp add: mask_eq_exp_minus_1)
    have "bit (w AND 0xFC00) n \<longleftrightarrow> bit w n \<and> 10 \<le> n"
      unfolding k using n by (auto simp: bit_and_iff bit_push_bit_iff bit_mask_iff)
    moreover have "bit (ucast h :: u16) n \<longleftrightarrow> bit h n" using n by (simp add: bit_simps)
    ultimately show "bit (w AND 0xFC00) n \<longleftrightarrow> bit (ucast h :: u16) n"
      using wb [OF n] h0 [of n] by auto
  qed
  show "take_bit 10 (ucast w) = (take_bit 10 x :: u32)"
    by (rule bit_word_eqI) (auto simp: bit_simps wb)
qed

lemma utf16_decode_encode_char:
  assumes "c \<le> 0x10FFFF" and "\<not> surrogate c"
  shows "utf16_decode_char (utf16_encode_char c @ rest) = \<lparr>ch = c, pos = rest\<rparr>"
proof (cases "c \<le> 0xFFFF")
  case True
  then have u: "unat (ucast c :: u16) = unat c" by (intro unat_ucast_small) (simp add: word_le_nat_alt)
  have "(ucast c :: u16) < 0xD800 \<or> 0xDFFF < (ucast c :: u16)"
    using assms(2) by (auto simp: surrogate_def word_le_nat_alt word_less_nat_alt u)
  moreover have "ucast (ucast c :: u16) = take_bit 16 c" by (rule bit_word_eqI) (auto simp: bit_simps)
  moreover have "take_bit 16 c = c" using True by (intro take_bit_word_self) (simp add: word_le_nat_alt)
  ultimately show ?thesis
    using True by (simp add: utf16_encode_char_def utf16_decode_char_def)
next
  case False
  let ?d = "c - 0x10000"
  have "unat ?d = unat c - 0x10000" using False by (subst unat_sub_small) (auto simp: word_le_nat_alt)
  then have "take_bit 20 ?d = ?d"
    using assms(1) by (intro take_bit_word_self) (auto simp: word_le_nat_alt)
  with join_bits [of 10 10 ?d]
  have d: "push_bit 10 (take_bit 10 (drop_bit 10 ?d)) OR take_bit 10 ?d = ?d" by simp
  note hi = surrogate_half [OF disjI1 [OF refl], where x = "drop_bit 10 ?d"]
    and lo = surrogate_half [OF disjI2 [OF refl], where x = ?d]
  show ?thesis
    using False
    by (simp only: utf16_encode_char_def utf16_decode_char_def masks Let_def if_False append.simps
        utf16_decode_loop.simps hi lo d simp_thms) simp
qed

text \<open>Texts of characters that both encodings hold.\<close>

definition encodable :: "u32 list \<Rightarrow> bool" where
  "encodable cs \<longleftrightarrow> (\<forall>c \<in> set cs. c \<le> 0x10FFFF \<and> \<not> surrogate c)"

lemma utf8_encode_char_nonempty: "\<exists>b bs. utf8_encode_char c = b # bs"
  by (simp add: utf8_encode_char_def)

lemma utf16_encode_char_nonempty: "\<exists>b bs. utf16_encode_char c = b # bs"
  by (simp add: utf16_encode_char_def Let_def)

lemma utf8_to_utf16_encode:
  "encodable cs \<Longrightarrow> utf8_to_utf16 (utf8_encode cs) = utf16_encode cs"
proof (induction cs)
  case (Cons c cs)
  from utf8_encode_char_nonempty [of c] obtain b bs where b: "utf8_encode_char c = b # bs" by blast
  with utf8_decode_encode_char [of c "utf8_encode cs"] Cons.prems
  have "utf8_decode_char (b # bs @ utf8_encode cs) = \<lparr>ch = c, pos = utf8_encode cs\<rparr>"
    by (simp add: encodable_def)
  then show ?case using Cons b by (simp add: utf8_encode_def utf16_encode_def encodable_def)
qed (simp add: utf8_encode_def utf16_encode_def)

lemma utf16_to_utf8_encode:
  "encodable cs \<Longrightarrow> utf16_to_utf8 (utf16_encode cs) = utf8_encode cs"
proof (induction cs)
  case (Cons c cs)
  from utf16_encode_char_nonempty [of c] obtain b bs where b: "utf16_encode_char c = b # bs" by blast
  with utf16_decode_encode_char [of c "utf16_encode cs"] Cons.prems
  have "utf16_decode_char (b # bs @ utf16_encode cs) = \<lparr>ch = c, pos = utf16_encode cs\<rparr>"
    by (simp add: encodable_def)
  then show ?case using Cons b by (simp add: utf8_encode_def utf16_encode_def encodable_def)
qed (simp add: utf8_encode_def utf16_encode_def)

lemma utf8_decode_encode:
  "encodable cs \<Longrightarrow> utf8_decode (utf8_encode cs) = cs"
proof (induction cs)
  case (Cons c cs)
  from utf8_encode_char_nonempty [of c] obtain b bs where b: "utf8_encode_char c = b # bs" by blast
  with utf8_decode_encode_char [of c "utf8_encode cs"] Cons.prems
  have "utf8_decode_char (b # bs @ utf8_encode cs) = \<lparr>ch = c, pos = utf8_encode cs\<rparr>"
    by (simp add: encodable_def)
  then show ?case using Cons b by (simp add: utf8_encode_def encodable_def)
qed (simp add: utf8_encode_def)

section \<open>Properties\<close>



end
