(* ===== verification/FatDir.thy ===== *)
theory FatDir
  imports FatTable CTime Unicode
begin

text \<open>
  \<open>drivers/formats/fat.cpp\<close>, directories: time stamps, short names, the 32-byte directory entries,
  long file names, and listing, creating, updating and deleting files. The contents of an
  uninitialised local (an entry a read did not fill, a name a copy did not fill) are the argument
  \<open>junk\<close>; the result of \<open>time(nullptr)\<close> is the argument \<open>now\<close>. The streams a driver opens on its own
  directories are on its own drive.
\<close>

section \<open>Time stamps\<close>

record fat_time =
  ft_date :: u16
  ft_time :: u16

definition fat_time_to_time_t :: "fat_time \<Rightarrow> int option" where
  "fat_time_to_time_t t = mktime
     \<lparr>tm_sec = uint (push_bit 1 (ft_time t AND 0x001F)),
      tm_min = uint (drop_bit 5 (ft_time t AND 0x07E0)),
      tm_hour = uint (drop_bit 11 (ft_time t AND 0xF800)),
      tm_mday = uint (ft_date t AND 0x001F),
      tm_mon = uint (drop_bit 5 (ft_date t AND 0x01E0)) - 1,
      tm_year = uint (drop_bit 9 (ft_date t AND 0xFE00)) + 80,
      tm_wday = 0, tm_yday = 0, tm_isdst = 0\<rparr>"

definition time_t_time_to_fat_time :: "tm \<Rightarrow> fat_time" where
  "time_t_time_to_fat_time t =
     \<lparr>ft_date = word_of_int ((tm_mday t AND 0x001F) OR (push_bit 5 (tm_mon t + 1) AND 0x01E0)
                  OR (push_bit 9 (tm_year t + 80) AND 0xFE00)),
      ft_time = word_of_int ((drop_bit 1 (tm_sec t) AND 0x001F) OR (push_bit 5 (tm_sec t) AND 0x07E0)
                  OR (push_bit 11 (tm_hour t) AND 0x07E0))\<rparr>"

section \<open>Short names\<close>

definition SPACE :: byte where "SPACE = 0x20"
definition DOT :: byte where "DOT = 0x2E"

definition read_field :: "bytes \<Rightarrow> bytes" where
  "read_field f = takeWhile (\<lambda>c. c \<noteq> SPACE) f"

text \<open>The field is the first \<open>size\<close> of the bytes \<open>mem\<close> of the object it is in; a longer source runs on
  into the rest of the object, and past the object has no defined result.\<close>

definition write_field :: "bytes \<Rightarrow> bytes \<Rightarrow> nat \<Rightarrow> bytes option" where
  "write_field mem src sz =
     patch 0 (if length src < sz then src @ replicate (sz - length src) SPACE else src) mem"

text \<open>\<open>fat_short_filename\<close>: the eight bytes of the root and the three of the extension.\<close>

definition find_last_of :: "byte \<Rightarrow> bytes \<Rightarrow> nat option" where
  "find_last_of c s = map_option (\<lambda>i. length s - 1 - i) (find_if (\<lambda>x. x = c) (rev s))"

definition get_short_filename :: "bytes \<Rightarrow> bytes \<Rightarrow> bytes option" where
  "get_short_filename junk src_name = do {
     let dot = find_last_of DOT src_name;
     let root = (case dot of None \<Rightarrow> src_name | Some i \<Rightarrow> take i src_name);
     nm \<leftarrow> write_field (take 11 junk) root 8;
     (case dot of
        None \<Rightarrow> Some nm
      | Some i \<Rightarrow> do {
          ext \<leftarrow> write_field (drop 8 nm) (drop (i + 1) src_name) 3;
          Some (take 8 nm @ ext)
        })
   }"

definition read_fat_short_name :: "bytes \<Rightarrow> bytes" where
  "read_fat_short_name nm =
     (let root = read_field (take 8 nm); ext = read_field (drop 8 nm)
      in if ext \<noteq> [] then root @ [DOT] @ ext else root)"

definition dot_dir :: bytes where "dot_dir = DOT # replicate 10 SPACE"
definition dot_dot_dir :: bytes where "dot_dot_dir = [DOT, DOT] @ replicate 9 SPACE"

section \<open>Directory entries\<close>

definition READ_ONLY :: byte where "READ_ONLY = 0x01"
definition DIRECTORY :: byte where "DIRECTORY = 0x10"
definition LFN :: byte where "LFN = 0x0F"

definition fat_convert_flags :: "byte \<Rightarrow> bool \<Rightarrow> u32" where
  "fat_convert_flags fat_flags is_root =
     (if fat_flags AND DIRECTORY \<noteq> 0
      then IS_DIR OR (if is_root then FAT_ROOT_DIR_FLAG else 0) else 0)
     OR (if fat_flags AND READ_ONLY \<noteq> 0 then IS_READONLY else 0)"

definition to_fat_flags :: "u32 \<Rightarrow> byte" where
  "to_fat_flags flags =
     (if flags AND IS_DIR \<noteq> 0 then DIRECTORY else 0)
     OR (if flags AND IS_READONLY \<noteq> 0 then READ_ONLY else 0)"

record fat_directory_entry =
  de_name :: bytes
  de_attributes :: byte
  de_reserved :: byte
  created_time_ms :: byte
  created_time :: u16
  created_date :: u16
  accessed_date :: u16
  first_cluster_hi :: u16
  modified_time :: u16
  modified_date :: u16
  first_cluster :: u16
  de_file_size :: u32

text \<open>The bytes of the packed structs.\<close>

definition le16 :: "u16 \<Rightarrow> bytes" where "le16 w = le_bytes 2 (unat w)"
definition le32 :: "u32 \<Rightarrow> bytes" where "le32 w = le_bytes 4 (unat w)"
definition word16 :: "bytes \<Rightarrow> u16" where "word16 b = of_nat (le_nat (take 2 b))"
definition word32 :: "bytes \<Rightarrow> u32" where "word32 b = of_nat (le_nat (take 4 b))"

definition entry_bytes :: "fat_directory_entry \<Rightarrow> bytes" where
  "entry_bytes e = de_name e @ [de_attributes e, de_reserved e, created_time_ms e]
     @ le16 (created_time e) @ le16 (created_date e) @ le16 (accessed_date e)
     @ le16 (first_cluster_hi e) @ le16 (modified_time e) @ le16 (modified_date e)
     @ le16 (first_cluster e) @ le32 (de_file_size e)"

definition bytes_entry :: "bytes \<Rightarrow> fat_directory_entry" where
  "bytes_entry b =
     \<lparr>de_name = take 11 b, de_attributes = b ! 11, de_reserved = b ! 12, created_time_ms = b ! 13,
      created_time = word16 (drop 14 b), created_date = word16 (drop 16 b),
      accessed_date = word16 (drop 18 b), first_cluster_hi = word16 (drop 20 b),
      modified_time = word16 (drop 22 b), modified_date = word16 (drop 24 b),
      first_cluster = word16 (drop 26 b), de_file_size = word32 (drop 28 b)\<rparr>"

definition fat_file_location :: "fat_directory_entry \<Rightarrow> u32" where
  "fat_file_location e = ucast (first_cluster e) OR push_bit 16 (ucast (first_cluster_hi e))"

text \<open>\<open>fat_format_data\<close> in the private bytes of a file: the directory the file is in.\<close>

definition format_bytes :: "u32 \<Rightarrow> u32 \<Rightarrow> bytes" where
  "format_bytes parent_dir dir_flags = le32 parent_dir @ le32 dir_flags"

definition parent_block :: "'m fat_volume \<Rightarrow> file_data_block \<Rightarrow> file_data_block" where
  "parent_block fd file =
     \<lparr>location_on_disk = word32 (format_data file), disk_id = fs_id fd, file_size = 0,
      file_flags = word32 (drop 4 (format_data file)), format_data = replicate 8 0\<rparr>"

definition fat_create_dir_entry_named :: "file_data_block \<Rightarrow> bytes \<Rightarrow> tm \<Rightarrow> fat_directory_entry" where
  "fat_create_dir_entry_named data nm created =
     (let create = time_t_time_to_fat_time created in
      \<lparr>de_name = nm, de_attributes = to_fat_flags (file_flags data), de_reserved = 0,
       created_time_ms = 0, created_time = ft_time create, created_date = ft_date create,
       accessed_date = 0, first_cluster_hi = ucast (location_on_disk data AND 0xFFFF0000),
       modified_time = ft_time create, modified_date = ft_date create,
       first_cluster = ucast (location_on_disk data AND 0xFFFF),
       de_file_size = ucast (file_size data)\<rparr>)"

definition fat_create_dir_entry :: "bytes \<Rightarrow> file_handle \<Rightarrow> fat_directory_entry option" where
  "fat_create_dir_entry junk src = do {
     created \<leftarrow> gmtime (sint (time_created src));
     modified \<leftarrow> gmtime (sint (time_modified src));
     nm \<leftarrow> get_short_filename junk (name src);
     let create = time_t_time_to_fat_time created;
     let modify = time_t_time_to_fat_time modified;
     let data = file_data src;
     Some \<lparr>de_name = nm, de_attributes = to_fat_flags (file_flags data), de_reserved = 0,
       created_time_ms = 0, created_time = ft_time create, created_date = ft_date create,
       accessed_date = 0, first_cluster_hi = ucast (location_on_disk data AND 0xFFFF0000),
       modified_time = ft_time modify, modified_date = ft_date modify,
       first_cluster = ucast (location_on_disk data AND 0xFFFF),
       de_file_size = ucast (file_size data)\<rparr>
   }"

definition fat_read_dir_entry ::
  "directory_stream \<Rightarrow> fat_directory_entry \<Rightarrow> u32 \<Rightarrow> file_handle option" where
  "fat_read_dir_entry dir entry drv = do {
     let loc = fat_file_location entry;
     created \<leftarrow> fat_time_to_time_t \<lparr>ft_date = created_date entry, ft_time = created_time entry\<rparr>;
     modified \<leftarrow> fat_time_to_time_t \<lparr>ft_date = modified_date entry, ft_time = modified_time entry\<rparr>;
     Some \<lparr>dir_path = full_path dir, name = read_fat_short_name (de_name entry),
       file_data = \<lparr>location_on_disk = loc, disk_id = drv, file_size = ucast (de_file_size entry),
         file_flags = fat_convert_flags (de_attributes entry) (loc = 0),
         format_data = format_bytes (location_on_disk (dir_data dir)) (file_flags (dir_data dir))\<rparr>,
       time_created = word_of_int created, time_modified = word_of_int modified\<rparr>
   }"

section \<open>Long names\<close>

record fat_lfn_entry =
  lfn_sequence :: byte
  chars0 :: "u16 list"
  lfn_attributes :: byte
  lfn_type :: byte
  short_checksum :: byte
  chars1 :: "u16 list"
  lfn_zero :: u16
  chars2 :: "u16 list"

definition lfn_bytes :: "fat_lfn_entry \<Rightarrow> bytes" where
  "lfn_bytes e = [lfn_sequence e] @ concat (map le16 (chars0 e))
     @ [lfn_attributes e, lfn_type e, short_checksum e] @ concat (map le16 (chars1 e))
     @ le16 (lfn_zero e) @ concat (map le16 (chars2 e))"

fun words16 :: "nat \<Rightarrow> bytes \<Rightarrow> u16 list" where
  "words16 0 b = []"
| "words16 (Suc n) b = word16 b # words16 n (drop 2 b)"

definition bytes_lfn :: "bytes \<Rightarrow> fat_lfn_entry" where
  "bytes_lfn b = \<lparr>lfn_sequence = b ! 0, chars0 = words16 5 (drop 1 b), lfn_attributes = b ! 11,
     lfn_type = b ! 12, short_checksum = b ! 13, chars1 = words16 6 (drop 14 b),
     lfn_zero = word16 (drop 26 b), chars2 = words16 2 (drop 28 b)\<rparr>"

definition fat_lfn_checksum :: "bytes \<Rightarrow> byte" where
  "fat_lfn_checksum nm = foldl (\<lambda>sum c. push_bit 7 (sum AND 1) + drop_bit 1 sum + c) 0 nm"

definition lfn_text :: "fat_lfn_entry \<Rightarrow> bytes" where
  "lfn_text e = utf16_to_utf8 (chars0 e) @ utf16_to_utf8 (chars1 e) @ utf16_to_utf8 (chars2 e)"

definition num_chars :: nat where "num_chars = 13"

text \<open>The UTF-16 text of a name, ended and padded to whole entries.\<close>

definition lfn_units :: "bytes \<Rightarrow> u16 list" where
  "lfn_units long_name =
     (let lfn = utf8_to_utf16 long_name @ [0];
          num_entries = (length lfn + (num_chars - 1)) div num_chars
      in lfn @ replicate (num_entries * num_chars - length lfn) 0xFFFF)"

text \<open>The entries in the order they are written: the end of the name first.\<close>

definition lfn_entries :: "byte \<Rightarrow> bytes \<Rightarrow> fat_lfn_entry list" where
  "lfn_entries checksum long_name =
     (let lfn = lfn_units long_name; num_entries = length lfn div num_chars in
      map (\<lambda>i. let it = drop ((num_entries - 1 - i) * num_chars) lfn in
             \<lparr>lfn_sequence = (if i = 0 then 0x40 OR of_nat (num_entries + 1)
                              else of_nat (num_entries - (i - 1))),
              chars0 = take 5 it, lfn_attributes = LFN, lfn_type = 0, short_checksum = checksum,
              chars1 = take 6 (drop 5 it), lfn_zero = 0, chars2 = take 2 (drop 11 it)\<rparr>)
        [0..<num_entries])"

section \<open>The driver's own streams\<close>

definition fat_io :: "'m fat_volume filesystem_driver" where
  "fat_io = \<lparr>mount_disk = fat_mount_disk, read_chunks = Some fat_read, write_chunks = Some fat_write,
     allocate_chunks = Some fat_allocate_clusters, read_dir = (\<lambda>_ _ _. None), flush_file = None,
     create_file = None, delete_file = None\<rparr>"

text \<open>The next entry of a directory, or the end of what can be read.\<close>

definition read_entry ::
  "bytes \<Rightarrow> u64 \<Rightarrow> file_stream \<Rightarrow> 'm fat_volume \<Rightarrow> (bytes option \<times> 'm fat_volume) option" where
  "read_entry junk off s fd = do {
     (e, n, fd) \<leftarrow> stream_read fat_io off (take 32 junk) 32 s fd;
     Some (if n = 32 then Some e else None, fd)
   }"

fun write_entries ::
  "bytes list \<Rightarrow> u64 \<Rightarrow> file_stream \<Rightarrow> 'm fat_volume \<Rightarrow> (u64 \<times> file_stream \<times> 'm fat_volume) option" where
  "write_entries [] off s fd = Some (off, s, fd)"
| "write_entries (e # es) off s fd = do {
     (n, s, fd) \<leftarrow> stream_write fat_io off e (of_nat (length e)) s fd;
     write_entries es (off + ucast n) s fd
   }"

definition fat_write_lfn_entries ::
  "fat_directory_entry \<Rightarrow> bytes \<Rightarrow> file_stream \<Rightarrow> u64 \<Rightarrow> 'm fat_volume \<Rightarrow>
     (u64 \<times> file_stream \<times> 'm fat_volume) option" where
  "fat_write_lfn_entries entry long_name s off fd =
     write_entries (map lfn_bytes (lfn_entries (fat_lfn_checksum (de_name entry)) long_name)) off s fd"

section \<open>Listing a directory\<close>

text \<open>One entry: \<^const>\<open>None\<close> ends the listing; otherwise the long name collected so far and the file found.\<close>

definition read_dir_step ::
  "directory_stream \<Rightarrow> u32 \<Rightarrow> bytes \<Rightarrow> bytes \<Rightarrow> (bytes \<times> file_handle option) option option" where
  "read_dir_step dest drv e lfn =
     (let entry = bytes_entry e in
      if e ! 0 = 0 \<or> e ! 0 = 0xE5 then Some None
      else if de_attributes entry AND LFN = LFN
      then if lfn_sequence (bytes_lfn e) = 0xE5 then Some (Some (lfn, None))
           else Some (Some (lfn_text (bytes_lfn e) @ lfn, None))
      else do {
        out \<leftarrow> fat_read_dir_entry dest entry drv;
        Some (Some ([], Some (if lfn \<noteq> [] then out\<lparr>name := takeWhile (\<lambda>c. c \<noteq> 0) lfn\<rparr> else out)))
      })"

partial_function (option) fat_read_dir_loop ::
  "bytes \<Rightarrow> file_stream \<Rightarrow> u64 \<Rightarrow> bytes \<Rightarrow> directory_stream \<Rightarrow> 'm fat_volume \<Rightarrow>
     (directory_stream \<times> 'm fat_volume) option" where
  "fat_read_dir_loop junk s off lfn dest fd =
     Option.bind (read_entry junk off s fd) (\<lambda>(r, fd).
       case r of
         None \<Rightarrow> Some (dest, fd)
       | Some e \<Rightarrow>
           Option.bind (read_dir_step dest (fs_id fd) e lfn) (\<lambda>st.
             case st of
               None \<Rightarrow> Some (dest, fd)
             | Some (lfn, out) \<Rightarrow>
                 fat_read_dir_loop junk s (off + 32) lfn
                   (case out of None \<Rightarrow> dest | Some h \<Rightarrow> dest\<lparr>file_list := file_list dest @ [h]\<rparr>) fd))"

definition fat_do_read_dir ::
  "bytes \<Rightarrow> directory_stream \<Rightarrow> file_data_block \<Rightarrow> 'm fat_volume \<Rightarrow>
     (directory_stream \<times> 'm fat_volume) option" where
  "fat_do_read_dir junk dest dir fd =
     fat_read_dir_loop junk (filesystem_create_stream dir) 0 [] dest fd"

section \<open>Updating, deleting and creating files\<close>

text \<open>
  The search of a directory for the entry of the file at \<open>location\<close>, and what is written over it; the
  result is the stream, modified when the entry was found.
\<close>

partial_function (option) rewrite_entry ::
  "bytes \<Rightarrow> u32 \<Rightarrow> (bytes \<Rightarrow> bytes option) \<Rightarrow> u64 \<Rightarrow> file_stream \<Rightarrow> 'm fat_volume \<Rightarrow>
     (file_stream \<times> 'm fat_volume) option" where
  "rewrite_entry junk location change off s fd =
     Option.bind (read_entry junk off s fd) (\<lambda>(r, fd).
       case r of
         None \<Rightarrow> Some (s, fd)
       | Some e \<Rightarrow>
           if e ! 0 = 0 then Some (s, fd)
           else if de_attributes (bytes_entry e) AND LFN \<noteq> 0
           then rewrite_entry junk location change (off + 32) s fd
           else if fat_file_location (bytes_entry e) = location
           then Option.bind (change e) (\<lambda>e'.
                  Option.bind (stream_write fat_io off e' 32 s fd) (\<lambda>(_, s, fd). Some (s, fd)))
           else rewrite_entry junk location change (off + 32) s fd)"

definition updated_entry :: "int \<Rightarrow> file_data_block \<Rightarrow> bytes \<Rightarrow> bytes option" where
  "updated_entry now file e = do {
     g \<leftarrow> gmtime now;
     let md = time_t_time_to_fat_time g;
     Some (entry_bytes ((bytes_entry e)\<lparr>de_file_size := ucast (file_size file),
             modified_date := ft_date md, modified_time := ft_time md\<rparr>))
   }"

text \<open>
  \<open>fat_update_file\<close>, the driver's \<open>flush_file\<close>. The directory stream is closed at the end; closing a
  modified stream calls \<open>flush_file\<close> for the directory itself.
\<close>

partial_function (option) fat_update_file ::
  "bytes \<Rightarrow> int \<Rightarrow> file_data_block \<Rightarrow> 'm fat_volume \<Rightarrow> 'm fat_volume option" where
  "fat_update_file junk now file fd =
     Option.bind (rewrite_entry junk (location_on_disk file) (updated_entry now file) 0
                    (filesystem_create_stream (parent_block fd file)) fd)
       (\<lambda>(s, fd).
          if modified s
          then if file_flags (stream_file s) AND IS_READONLY \<noteq> 0 then None
               else fat_update_file junk now (stream_file s) fd
          else Some fd)"

definition fat_delete_file ::
  "bytes \<Rightarrow> int \<Rightarrow> file_data_block \<Rightarrow> 'm fat_volume \<Rightarrow> (int \<times> 'm fat_volume) option" where
  "fat_delete_file junk now file fd = do {
     (s, fd) \<leftarrow> rewrite_entry junk (location_on_disk file) (\<lambda>e. Some (0xE5 # tl e)) 0
                  (filesystem_create_stream (parent_block fd file)) fd;
     fd \<leftarrow> release_chain (unat (num_clusters (fs_impl_data fd))) (location_on_disk file) fd;
     fd \<leftarrow> stream_close (fat_io\<lparr>flush_file := Some (fat_update_file junk now)\<rparr>) s fd;
     Some (0, fd)
   }"

text \<open>The offset of the entry that ends the directory.\<close>

partial_function (option) find_end ::
  "bytes \<Rightarrow> u64 \<Rightarrow> file_stream \<Rightarrow> 'm fat_volume \<Rightarrow> (u64 option \<times> 'm fat_volume) option" where
  "find_end junk off s fd =
     Option.bind (read_entry junk off s fd) (\<lambda>(r, fd).
       case r of
         None \<Rightarrow> Some (None, fd)
       | Some e \<Rightarrow> if e ! 0 = 0 then Some (Some off, fd) else find_end junk (off + 32) s fd)"

definition fat_create_file ::
  "bytes \<Rightarrow> int \<Rightarrow> bytes \<Rightarrow> u32 \<Rightarrow> directory_stream \<Rightarrow> 'm fat_volume \<Rightarrow>
     (directory_stream \<times> 'm fat_volume) option" where
  "fat_create_file junk now nm flags parent fd =
     (let s = filesystem_create_stream (dir_data parent);
          closing = fat_io\<lparr>flush_file := Some (fat_update_file junk now)\<rparr>
      in do {
       (off, fd) \<leftarrow> find_end junk 0 s fd;
       (case off of
          None \<Rightarrow> map_option (\<lambda>fd. (parent, fd)) (stream_close closing s fd)
        | Some off \<Rightarrow> do {
            (loc, fd) \<leftarrow> fat_claim_clusters 0 1 fd;
            let new_file = \<lparr>dir_path = full_path parent, name = nm,
                  file_data = \<lparr>location_on_disk = loc, disk_id = fs_id fd, file_size = 0,
                    file_flags = flags,
                    format_data = format_bytes (location_on_disk (dir_data parent))
                                    (file_flags (dir_data parent))\<rparr>,
                  time_created = word_of_int now, time_modified = word_of_int now\<rparr>;
            entry \<leftarrow> fat_create_dir_entry junk new_file;
            (off, s, fd) \<leftarrow> fat_write_lfn_entries entry (name new_file) s off fd;
            (off, s, fd) \<leftarrow> write_entries [entry_bytes entry, [0]] off s fd;
            fd \<leftarrow>
              (if flags AND IS_DIR \<noteq> 0
               then do {
                 let f = filesystem_create_stream (file_data new_file);
                 tms \<leftarrow> gmtime now;
                 let ents = entry_bytes (fat_create_dir_entry_named (file_data new_file) dot_dir tms)
                   @ entry_bytes (fat_create_dir_entry_named (dir_data parent) dot_dot_dir tms);
                 (_, f, fd) \<leftarrow> write_entries [ents, [0]] 0 f fd;
                 stream_close closing f fd
               }
               else Some fd);
            fd \<leftarrow> stream_close closing s fd;
            Some (parent\<lparr>file_list := file_list parent @ [new_file]\<rparr>, fd)
          })
     })"

text \<open>The driver, once its arguments for time and uninitialised memory are given.\<close>

definition fat_driver :: "bytes \<Rightarrow> int \<Rightarrow> 'm fat_volume filesystem_driver" where
  "fat_driver junk now = fat_io
     \<lparr>read_dir := fat_do_read_dir junk,
      flush_file := Some (fat_update_file junk now),
      create_file := Some (fat_create_file junk now),
      delete_file := Some (fat_delete_file junk now)\<rparr>"

end
