(* ===== verification/DrivesCorrect.thy ===== *)
theory DrivesCorrect
  imports Drives
begin

text \<open>
  The block cache implements a byte array. \<open>cached_disk\<close> relates a drive to the contents \<open>f\<close> the
  disk has for its users: valid cached blocks hold the bytes of \<open>f\<close>, and the device holds them
  wherever no dirty block does. Reads return \<open>f\<close>, writes overlay it.
\<close>

section \<open>The contract of a disk driver\<close>

locale block_device =
  fixes drv :: "'m disk_driver" and bs nblocks :: nat and img :: "'m \<Rightarrow> nat \<Rightarrow> byte"
  assumes readable: "read_blocks drv \<noteq> None"
    and reads: "read_blocks drv = Some rd \<Longrightarrow> unat lba + unat n \<le> nblocks \<Longrightarrow>
      rd m lba n = map (img m) [unat lba * bs..<(unat lba + unat n) * bs]"
    and writes: "write_blocks drv = Some wr \<Longrightarrow> unat lba + unat n \<le> nblocks \<Longrightarrow>
      unat n * bs \<le> length buf \<Longrightarrow>
      img (wr m lba buf n) = overlay (unat lba * bs) (take (unat n * bs) buf) (img m)"

section \<open>The invariant\<close>

definition blk_base :: "nat \<Rightarrow> cached_block \<Rightarrow> nat" where
  "blk_base k b = unat (blk_index b) * 2 ^ k"

definition slot_ok :: "bool \<Rightarrow> nat \<Rightarrow> nat \<Rightarrow> nat \<Rightarrow> (nat \<Rightarrow> byte) \<Rightarrow> cached_block \<Rightarrow> bool" where
  "slot_ok writable k j N f b \<longleftrightarrow>
     (\<forall>xs. blk_data b = Some xs \<longrightarrow> length xs = 2 ^ (k + j)) \<and>
     (blk_dirty b \<longrightarrow> blk_valid b \<and> writable) \<and>
     (blk_valid b \<longrightarrow> 2 ^ j dvd unat (blk_index b) \<and> unat (blk_index b) + 2 ^ j \<le> N \<and>
        blk_data b = Some (map f [blk_base k b..<blk_base k b + 2 ^ (k + j)]))"

definition held_dirty :: "nat \<Rightarrow> nat \<Rightarrow> cached_block list \<Rightarrow> nat \<Rightarrow> bool" where
  "held_dirty k j bs a \<longleftrightarrow>
     (\<exists>b \<in> set bs. blk_dirty b \<and> blk_base k b \<le> a \<and> a < blk_base k b + 2 ^ (k + j))"

definition distinct_blocks :: "cached_block list \<Rightarrow> bool" where
  "distinct_blocks bs \<longleftrightarrow>
     (\<forall>i < length bs. \<forall>i' < length bs. blk_valid (bs ! i) \<longrightarrow> blk_valid (bs ! i') \<longrightarrow>
        blk_index (bs ! i) = blk_index (bs ! i') \<longrightarrow> i = i')"

definition cache_ok ::
  "bool \<Rightarrow> nat \<Rightarrow> nat \<Rightarrow> nat \<Rightarrow> (nat \<Rightarrow> byte) \<Rightarrow> (nat \<Rightarrow> byte) \<Rightarrow> cached_block list \<Rightarrow> bool" where
  "cache_ok writable k j N g f bs \<longleftrightarrow>
     length bs = 8 \<and> (\<forall>b \<in> set bs. slot_ok writable k j N f b) \<and> distinct_blocks bs \<and>
     (\<forall>a. held_dirty k j bs a \<or> g a = f a)"

definition drive_shape ::
  "'m disk_driver \<Rightarrow> nat \<Rightarrow> nat \<Rightarrow> nat \<Rightarrow> 'm filesystem_drive \<Rightarrow> bool" where
  "drive_shape drv k j N d \<longleftrightarrow>
     m_driver d = drv \<and> m_minimum_block_size d = 2 ^ k \<and> m_blocksz_log2 d = of_nat k \<and>
     m_num_blocks_per_cache d = 2 ^ j \<and> k + j < 32 \<and> N = unat (m_num_blocks d) \<and>
     2 ^ j dvd N \<and> m_size d = 8 \<and>
     (\<forall>n. length (drive_allocate_buffer d n) = unat n)"

definition cached_disk ::
  "'m disk_driver \<Rightarrow> nat \<Rightarrow> nat \<Rightarrow> nat \<Rightarrow> ('m \<Rightarrow> nat \<Rightarrow> byte) \<Rightarrow> 'm filesystem_drive \<Rightarrow>
     (nat \<Rightarrow> byte) \<Rightarrow> bool" where
  "cached_disk drv k j N img d f \<longleftrightarrow>
     block_device drv (2 ^ k) N img \<and> drive_shape drv k j N d \<and>
     cache_ok (write_blocks drv \<noteq> None) k j N (img (m_drv_impl_data d)) f (m_data d)"

section \<open>Slots of the cache\<close>

lemma same_line:
  fixes p q c :: nat
  assumes "c dvd p" and "c dvd q" and "p \<le> a" and "a < p + c" and "q \<le> a" and "a < q + c"
  shows "p = q"
proof -
  from assms(1,2) obtain m n where m: "p = c * m" and n: "q = c * n" by (auto elim!: dvdE)
  have "c * m < c * Suc n" and "c * n < c * Suc m" using assms m n by simp_all
  then have "m = n" by (metis less_Suc_eq_le le_antisym mult_less_cancel1)
  with m n show ?thesis by simp
qed

lemma blk_base_dvd:
  assumes "2 ^ j dvd unat (blk_index b)"
  shows "2 ^ (k + j) dvd blk_base k b"
  using assms by (simp add: blk_base_def power_add mult.commute mult_dvd_mono)

lemma blk_base_inject:
  "blk_base k b = blk_base k c \<longleftrightarrow> blk_index b = blk_index c"
  by (simp add: blk_base_def word_unat_eq_iff)

text \<open>Replacing one slot.\<close>

lemma cache_ok_update:
  assumes ok: "cache_ok w k j N g f bs" and i: "i < 8"
    and f': "\<And>i'. i' < 8 \<Longrightarrow> i' \<noteq> i \<Longrightarrow> blk_valid (bs ! i') \<Longrightarrow>
        map f' [blk_base k (bs ! i')..<blk_base k (bs ! i') + 2 ^ (k + j)] =
        map f [blk_base k (bs ! i')..<blk_base k (bs ! i') + 2 ^ (k + j)]"
    and slot: "slot_ok w k j N f' b"
    and fresh: "\<And>i'. i' < 8 \<Longrightarrow> i' \<noteq> i \<Longrightarrow> blk_valid (bs ! i') \<Longrightarrow> blk_valid b \<Longrightarrow>
        blk_index (bs ! i') \<noteq> blk_index b"
    and dev: "\<And>a. \<not> held_dirty k j (bs[i := b]) a \<Longrightarrow> g' a = f' a"
  shows "cache_ok w k j N g' f' (bs[i := b])"
proof -
  from ok have len: "length bs = 8" and slots: "\<forall>i' < 8. slot_ok w k j N f (bs ! i')"
    and dis: "distinct_blocks bs"
    by (auto simp: cache_ok_def all_set_conv_all_nth)
  have "slot_ok w k j N f' (bs[i := b] ! i')" if "i' < 8" for i'
    using that slots slot f' [of i'] i len
    by (cases "i' = i") (auto simp: slot_ok_def)
  moreover have "distinct_blocks (bs[i := b])"
    using dis fresh i len unfolding distinct_blocks_def
    by (metis length_list_update nth_list_update_eq nth_list_update_neq)
  ultimately show ?thesis
    using dev len by (auto simp: cache_ok_def all_set_conv_all_nth)
qed

lemma held_dirty_update:
  assumes "i < length bs" and "held_dirty k j bs a"
    and "\<not> (blk_dirty (bs ! i) \<and> blk_base k (bs ! i) \<le> a \<and> a < blk_base k (bs ! i) + 2 ^ (k + j))"
  shows "held_dirty k j (bs[i := b]) a"
  using assms unfolding held_dirty_def
  by (metis in_set_conv_nth length_list_update nth_list_update_neq)

lemma held_dirty_new:
  assumes "i < length bs" and "blk_dirty b"
    and "blk_base k b \<le> a" and "a < blk_base k b + 2 ^ (k + j)"
  shows "held_dirty k j (bs[i := b]) a"
  using assms unfolding held_dirty_def by (metis set_update_memI)

lemma cache_ok_slot:
  assumes "cache_ok w k j N g f bs" and "i < 8"
  shows "slot_ok w k j N f (bs ! i)"
  using assms by (auto simp: cache_ok_def all_set_conv_all_nth)

lemma cache_ok_length: "cache_ok w k j N g f bs \<Longrightarrow> length bs = 8"
  by (simp add: cache_ok_def)

lemma drive_shape_simps [simp]:
  "drive_shape drv k j N (d\<lparr>m_drv_impl_data := m\<rparr>) = drive_shape drv k j N d"
  "drive_shape drv k j N (d\<lparr>m_last_index := l\<rparr>) = drive_shape drv k j N d"
  "drive_shape drv k j N (d\<lparr>m_data := bs\<rparr>) = drive_shape drv k j N d"
  by (simp_all add: drive_shape_def drive_allocate_buffer_def split: option.split)

section \<open>\<open>block_rw\<close>\<close>

lemma blocks_to_bytes_line:
  assumes "drive_shape drv k j N d"
  shows "unat (blocks_to_bytes d (m_num_blocks_per_cache d)) = 2 ^ (k + j)"
proof -
  from assms have k: "unat (of_nat k :: u32) = k"
    by (simp add: drive_shape_def unat_of_nat take_bit_eq_mod)
  from assms have kj: "k + j < 32" by (simp add: drive_shape_def)
  then have j: "unat (2 ^ j :: u32) = 2 ^ j" by simp
  have "(2::nat) ^ (k + j) < 2 ^ 32" using kj by (intro power_strict_increasing) simp_all
  then have "unat (push_bit k (2 ^ j :: u32)) = 2 ^ (k + j)"
    by (subst unat_shift_left_small) (simp_all add: j power_add mult.commute)
  then show ?thesis
    using assms by (simp add: drive_shape_def blocks_to_bytes_def k)
qed

lemma prepare_item_ok:
  assumes cd: "cached_disk drv k j N img d f" and i: "i < 8"
  defines "b \<equiv> m_data d ! i"
  obtains m it where
    "prepare_item d (b\<lparr>blk_index := block\<rparr>) (blk_index b) = Some (d\<lparr>m_drv_impl_data := m\<rparr>, it)"
    "blk_index it = block" "\<not> blk_dirty it" "\<exists>xs. blk_data it = Some xs \<and> length xs = 2 ^ (k + j)"
    "cache_ok (write_blocks drv \<noteq> None) k j N (img m) f ((m_data d)[i := it\<lparr>blk_valid := False\<rparr>])"
proof -
  let ?w = "write_blocks drv \<noteq> None" and ?m = "m_drv_impl_data d" and ?bs = "m_data d"
  from cd have dev: "block_device drv (2 ^ k) N img" and shape: "drive_shape drv k j N d"
    and ok: "cache_ok ?w k j N (img ?m) f ?bs"
    by (simp_all add: cached_disk_def)
  have len: "length ?bs = 8" using ok by (rule cache_ok_length)
  have slot: "slot_ok ?w k j N f b" using cache_ok_slot [OF ok i] by (simp add: b_def)
  have drv: "m_driver d = drv" using shape by (simp add: drive_shape_def)
  have install: "cache_ok ?w k j N (img m) f (?bs[i := it\<lparr>blk_valid := False\<rparr>])"
    if "\<not> blk_dirty it" and "\<exists>xs. blk_data it = Some xs \<and> length xs = 2 ^ (k + j)"
      and g: "\<And>a. img m a = f a \<or> \<not> (blk_dirty b \<and> blk_base k b \<le> a \<and> a < blk_base k b + 2 ^ (k + j))
        \<and> img m a = img ?m a" for it m
  proof (rule cache_ok_update [OF ok i])
    show "slot_ok ?w k j N f (it\<lparr>blk_valid := False\<rparr>)"
      using that(1,2) by (auto simp: slot_ok_def)
    fix a assume nh: "\<not> held_dirty k j (?bs[i := it\<lparr>blk_valid := False\<rparr>]) a"
    show "img m a = f a"
    proof (cases "img m a = f a")
      case False
      with g [of a] have n: "\<not> (blk_dirty b \<and> blk_base k b \<le> a \<and> a < blk_base k b + 2 ^ (k + j))"
        and "img m a = img ?m a" by auto
      have "\<not> held_dirty k j ?bs a"
        using held_dirty_update [of i ?bs k j a] nh n i len by (auto simp: b_def)
      with ok \<open>img m a = img ?m a\<close> show ?thesis by (auto simp: cache_ok_def)
    qed
  qed simp_all
  show thesis
  proof (cases "blk_data b")
    case None
    then have "\<not> blk_dirty b" using slot by (auto simp: slot_ok_def)
    have a: "length (drive_allocate_buffer d (blocks_to_bytes d (m_num_blocks_per_cache d))) = 2 ^ (k + j)"
      using shape blocks_to_bytes_line [OF shape] by (simp add: drive_shape_def)
    show ?thesis
      by (rule that [of ?m "b\<lparr>blk_index := block, blk_data := Some (drive_allocate_buffer d
              (blocks_to_bytes d (m_num_blocks_per_cache d)))\<rparr>", OF _ _ _ _ install])
        (use None a \<open>\<not> blk_dirty b\<close> in \<open>auto simp: prepare_item_def\<close>)
  next
    case (Some xs)
    then have lx: "length xs = 2 ^ (k + j)" using slot by (simp add: slot_ok_def)
    show ?thesis
    proof (cases "blk_dirty b")
      case False
      show ?thesis
        by (rule that [of ?m "b\<lparr>blk_index := block\<rparr>", OF _ _ _ _ install])
          (use Some False lx in \<open>auto simp: prepare_item_def\<close>)
    next
      case True
      with slot obtain wr where wr: "write_blocks drv = Some wr" and "blk_valid b"
        by (auto simp: slot_ok_def)
      with slot Some have bound: "unat (blk_index b) + 2 ^ j \<le> N"
        and xs: "xs = map f [blk_base k b..<blk_base k b + 2 ^ (k + j)]"
        by (simp_all add: slot_ok_def)
      let ?m' = "wr ?m (blk_index b) xs (2 ^ j)"
      have j: "unat (2 ^ j :: u32) = 2 ^ j" and nb: "m_num_blocks_per_cache d = 2 ^ j"
        using shape by (simp_all add: drive_shape_def)
      have "img ?m' = overlay (unat (blk_index b) * 2 ^ k) (take (2 ^ j * 2 ^ k) xs) (img ?m)"
        using block_device.writes [OF dev wr, of "blk_index b" "2 ^ j" xs ?m] bound lx
        by (simp only: j power_add mult.commute)
      then have img': "img ?m' = overlay (blk_base k b) xs (img ?m)"
        using lx by (simp add: blk_base_def power_add mult.commute)
      show ?thesis
      proof (rule that [of ?m' "b\<lparr>blk_index := block, blk_dirty := False\<rparr>", OF _ _ _ _ install])
        show "prepare_item d (b\<lparr>blk_index := block\<rparr>) (blk_index b) =
            Some (d\<lparr>m_drv_impl_data := ?m'\<rparr>, b\<lparr>blk_index := block, blk_dirty := False\<rparr>)"
          using Some True wr drv nb by (simp add: prepare_item_def drive_write_blocks_def)
        fix a show "img ?m' a = f a \<or> \<not> (blk_dirty b \<and> blk_base k b \<le> a \<and>
            a < blk_base k b + 2 ^ (k + j)) \<and> img ?m' a = img ?m a"
          unfolding img' using xs by (auto simp: overlay_def)
      qed (use Some lx in auto)
    qed
  qed
qed

lemma lines_disjoint:
  assumes "2 ^ j dvd unat (blk_index b)" and "2 ^ j dvd unat (blk_index c)"
    and "blk_index b \<noteq> blk_index c"
  shows "blk_base k b + 2 ^ (k + j) \<le> blk_base k c \<or> blk_base k c + 2 ^ (k + j) \<le> blk_base k b"
proof (rule ccontr)
  assume n: "\<not> ?thesis"
  have db: "2 ^ (k + j) dvd blk_base k b" and dc: "2 ^ (k + j) dvd blk_base k c"
    using assms(1,2) by (simp_all add: blk_base_dvd)
  have "blk_base k b = blk_base k c"
    by (rule same_line [OF db dc, of "max (blk_base k b) (blk_base k c)"]) (use n in auto)
  with assms(3) show False by (simp add: blk_base_inject)
qed

lemma install_dirty:
  assumes ok: "cache_ok True k j N g f bs" and i: "i < 8"
    and al: "2 ^ j dvd unat (blk_index it)" and bound: "unat (blk_index it) + 2 ^ j \<le> N"
    and fresh: "\<And>i'. i' < 8 \<Longrightarrow> i' \<noteq> i \<Longrightarrow> blk_valid (bs ! i') \<Longrightarrow> blk_index (bs ! i') \<noteq> blk_index it"
    and old: "blk_dirty (bs ! i) \<Longrightarrow> blk_index (bs ! i) = blk_index it"
    and it: "blk_valid it" "blk_dirty it" "blk_data it = Some ys" "length ys = 2 ^ (k + j)"
  shows "cache_ok True k j N g (overlay (blk_base k it) ys f) (bs[i := it])"
proof (rule cache_ok_update [OF ok i])
  fix i' assume i': "i' < 8" "i' \<noteq> i" "blk_valid (bs ! i')"
  with cache_ok_slot [OF ok i'(1)] have "2 ^ j dvd unat (blk_index (bs ! i'))"
    by (simp add: slot_ok_def)
  from lines_disjoint [OF this al fresh [OF i'], of k]
  show "map (overlay (blk_base k it) ys f) [blk_base k (bs ! i')..<blk_base k (bs ! i') + 2 ^ (k + j)] =
      map f [blk_base k (bs ! i')..<blk_base k (bs ! i') + 2 ^ (k + j)]"
    using it(4) by (intro map_overlay_disjoint) auto
next
  show "slot_ok True k j N (overlay (blk_base k it) ys f) it"
    using it al bound map_overlay_same [of "blk_base k it" ys f] by (simp add: slot_ok_def)
next
  fix a assume nh: "\<not> held_dirty k j (bs[i := it]) a"
  have len: "length bs = 8" using ok by (rule cache_ok_length)
  have out: "\<not> (blk_base k it \<le> a \<and> a < blk_base k it + 2 ^ (k + j))"
    using held_dirty_new [of i bs it k a j] nh i len it(2) by auto
  have "\<not> (blk_dirty (bs ! i) \<and> blk_base k (bs ! i) \<le> a \<and> a < blk_base k (bs ! i) + 2 ^ (k + j))"
  proof (cases "blk_dirty (bs ! i)")
    case True
    with out show ?thesis by (simp add: blk_base_def old)
  qed simp
  with held_dirty_update [of i bs k j a it] nh i len have "\<not> held_dirty k j bs a" by auto
  then show "g a = overlay (blk_base k it) ys f a"
    using ok out it(4) by (auto simp: cache_ok_def overlay_def)
qed (use fresh in auto)

lemma install_clean:
  assumes ok: "cache_ok w k j N g f bs" and i: "i < 8"
    and al: "2 ^ j dvd unat (blk_index it)" and bound: "unat (blk_index it) + 2 ^ j \<le> N"
    and fresh: "\<And>i'. i' < 8 \<Longrightarrow> i' \<noteq> i \<Longrightarrow> blk_valid (bs ! i') \<Longrightarrow> blk_index (bs ! i') \<noteq> blk_index it"
    and old: "\<not> blk_dirty (bs ! i)"
    and it: "\<not> blk_dirty it" "blk_data it = Some (map f [blk_base k it..<blk_base k it + 2 ^ (k + j)])"
  shows "cache_ok w k j N g f (bs[i := it])"
proof (rule cache_ok_update [OF ok i])
  show "slot_ok w k j N f it" using it al bound by (simp add: slot_ok_def)
  fix a assume nh: "\<not> held_dirty k j (bs[i := it]) a"
  have "\<not> held_dirty k j bs a"
    using held_dirty_update [of i bs k j a it] nh i cache_ok_length [OF ok] old by auto
  then show "g a = f a" using ok by (auto simp: cache_ok_def)
qed (use fresh in auto)

lemma dvd_line_end:
  fixes x N :: nat
  assumes "x < N" and "c dvd N" and "0 < c"
  shows "c dvd x - x mod c" and "x - x mod c + c \<le> N"
proof -
  show d: "c dvd x - x mod c" by (simp add: dvd_minus_mod)
  from assms(2) obtain n where n: "N = c * n" by (elim dvdE)
  have "x - x mod c = c * (x div c)" by (metis minus_mod_eq_mult_div)
  moreover have "x div c < n" using assms n by (simp add: less_mult_imp_div_less mult.commute)
  then have "c * Suc (x div c) \<le> c * n" by (intro mult_le_mono2) simp
  ultimately show "x - x mod c + c \<le> N" by (simp add: n)
qed

text \<open>
  The block the cache hands out. For a read it holds the bytes of \<open>f\<close>; for a write, whatever
  its new contents \<open>ys\<close> are, marking it dirty overlays them on \<open>f\<close>.
\<close>

definition dirtied :: "'m filesystem_drive \<Rightarrow> nat \<Rightarrow> byte list \<Rightarrow> 'm filesystem_drive" where
  "dirtied d i ys = d\<lparr>m_data := (m_data d)[i := (m_data d ! i)\<lparr>blk_data := Some ys, blk_dirty := True\<rparr>]\<rparr>"

lemma block_rw_ok:
  assumes cd: "cached_disk drv k j N img d f" and x: "unat idx < N"
  obtains d' i xs where
    "block_rw d idx wa = Some (d', i)" "i < 8" "blk_valid (m_data d' ! i)"
    "unat (blk_index (m_data d' ! i)) = unat idx - unat idx mod 2 ^ j"
    "blk_data (m_data d' ! i) = Some xs" "length xs = 2 ^ (k + j)"
    "drive_shape drv k j N d'"
    "\<not> wa \<Longrightarrow> cached_disk drv k j N img d' f"
    "\<And>ys. write_blocks drv \<noteq> None \<Longrightarrow> length ys = 2 ^ (k + j) \<Longrightarrow>
       cached_disk drv k j N img (dirtied d' i ys) (overlay (blk_base k (m_data d' ! i)) ys f)"
    "\<not> wa \<Longrightarrow> xs = map f [blk_base k (m_data d' ! i)..<blk_base k (m_data d' ! i) + 2 ^ (k + j)]"
proof -
  let ?w = "write_blocks drv \<noteq> None" and ?bs = "m_data d"
  from cd have dev: "block_device drv (2 ^ k) N img" and shape: "drive_shape drv k j N d"
    and ok: "cache_ok ?w k j N (img (m_drv_impl_data d)) f ?bs"
    by (simp_all add: cached_disk_def)
  have len: "length ?bs = 8" using ok by (rule cache_ok_length)
  from shape have nb: "m_num_blocks_per_cache d = 2 ^ j" and j: "j < 32" and jN: "2 ^ j dvd N"
    by (auto simp: drive_shape_def)
  define block where "block = idx AND NOT (2 ^ j - 1)"
  have al: "align_power_2 idx (m_num_blocks_per_cache d) = Some block"
    using j by (simp add: align_power_2_def nb block_def has_single_bit_exp)
  have ub: "unat block = unat idx - unat idx mod 2 ^ j" by (simp only: block_def unat_align_down)
  from dvd_line_end [OF x jN] ub have bdvd: "2 ^ j dvd unat block" and bN: "unat block + 2 ^ j \<le> N"
    by simp_all
  show thesis
  proof (cases "find_if (\<lambda>c. block = blk_index c \<and> blk_valid c) ?bs")
    case (Some i)
    from find_if_Some [OF Some] len have i: "i < 8" and v: "blk_valid (?bs ! i)"
      and ix: "blk_index (?bs ! i) = block" by auto
    from cache_ok_slot [OF ok i] v have data: "blk_data (?bs ! i) =
        Some (map f [blk_base k (?bs ! i)..<blk_base k (?bs ! i) + 2 ^ (k + j)])"
      by (simp add: slot_ok_def)
    have others: "\<And>i'. i' < 8 \<Longrightarrow> i' \<noteq> i \<Longrightarrow> blk_valid (?bs ! i') \<Longrightarrow> blk_index (?bs ! i') \<noteq> block"
      using ok v ix i by (auto simp: cache_ok_def distinct_blocks_def)
    show ?thesis
    proof (rule that [of d i])
      show "block_rw d idx wa = Some (d, i)" by (simp add: block_rw_def al Some)
      fix ys :: "byte list" assume "write_blocks drv \<noteq> None" "length ys = 2 ^ (k + j)"
      then show "cached_disk drv k j N img (dirtied d i ys) (overlay (blk_base k (?bs ! i)) ys f)"
        using install_dirty [of k j N "img (m_drv_impl_data d)" f ?bs i
            "(?bs ! i)\<lparr>blk_data := Some ys, blk_dirty := True\<rparr>" ys]
          ok i bdvd bN others v ix dev shape
        by (simp add: cached_disk_def dirtied_def blk_base_def)
    qed (use i v ix ub data shape cd in simp_all)
  next
    case None
    then have none: "\<And>i'. i' < 8 \<Longrightarrow> blk_valid (?bs ! i') \<Longrightarrow> blk_index (?bs ! i') \<noteq> block"
      using len by (auto simp: find_if_None all_set_conv_all_nth)
    define i where "i = unat ((m_last_index d + 1) mod m_size d)"
    define d1 where "d1 = d\<lparr>m_last_index := (m_last_index d + 1) mod m_size d\<rparr>"
    have i: "i < 8" using shape by (simp add: i_def drive_shape_def unat_mod_distrib)
    have cd1: "cached_disk drv k j N img d1 f" using cd by (simp add: d1_def cached_disk_def)
    have bs1: "m_data d1 = ?bs" by (simp add: d1_def)
    obtain m it where p: "prepare_item d1 ((?bs ! i)\<lparr>blk_index := block\<rparr>) (blk_index (?bs ! i)) =
          Some (d1\<lparr>m_drv_impl_data := m\<rparr>, it)"
      and it: "blk_index it = block" "\<not> blk_dirty it" "\<exists>xs. blk_data it = Some xs \<and> length xs = 2 ^ (k + j)"
      and okm: "cache_ok ?w k j N (img m) f (?bs[i := it\<lparr>blk_valid := False\<rparr>])"
      using prepare_item_ok [OF cd1 i, of block] unfolding bs1 by blast
    let ?d2 = "d1\<lparr>m_drv_impl_data := m\<rparr>" and ?bs2 = "?bs[i := it\<lparr>blk_valid := False\<rparr>]"
    have shape2: "drive_shape drv k j N ?d2" using shape by (simp add: d1_def)
    have others: "\<And>i'. i' < 8 \<Longrightarrow> i' \<noteq> i \<Longrightarrow> blk_valid (?bs2 ! i') \<Longrightarrow> blk_index (?bs2 ! i') \<noteq> block"
      using none by simp
    define line where "line = [unat block * 2 ^ k..<unat block * 2 ^ k + 2 ^ (k + j)]"
    text \<open>When the slot is read in, it holds the contents of the disk.\<close>
    obtain rd where rd: "read_blocks drv = Some rd" using block_device.readable [OF dev] by auto
    define it' where "it' = (if wa then it else it\<lparr>blk_data := Some (rd m block (2 ^ j))\<rparr>)\<lparr>blk_valid := True\<rparr>"
    define d' where "d' = ?d2\<lparr>m_data := ?bs[i := it']\<rparr>"
    have run: "block_rw d idx wa = Some (d', i)"
    proof (cases wa)
      case True
      then show ?thesis
        using p by (simp add: block_rw_def al None refresh_oldest_item_def Let_def it'_def d'_def bs1
            flip: i_def d1_def)
    next
      case False
      moreover have "drive_read_blocks ?d2 (blk_index it) (m_num_blocks_per_cache ?d2) =
          Some (rd m block (2 ^ j))"
        using shape2 rd it(1) by (simp add: drive_read_blocks_def drive_shape_def)
      ultimately show ?thesis
        using p by (simp add: block_rw_def al None refresh_oldest_item_def Let_def it'_def d'_def bs1
            flip: i_def d1_def)
    qed
    have rdline: "rd m block (2 ^ j) = map (img m) line"
    proof -
      have u: "unat (2 ^ j :: u32) = 2 ^ j" using j by simp
      have "(unat block + 2 ^ j) * 2 ^ k = unat block * 2 ^ k + 2 ^ (k + j)"
        by (simp add: power_add algebra_simps)
      then show ?thesis
        using block_device.reads [OF dev rd, of block "2 ^ j" m] bN by (simp only: u line_def)
    qed
    have "\<not> held_dirty k j ?bs2 a" if "a \<in> set line" for a
    proof
      assume "held_dirty k j ?bs2 a"
      then obtain i' where i': "i' < 8" "blk_dirty (?bs2 ! i')" "blk_base k (?bs2 ! i') \<le> a"
        "a < blk_base k (?bs2 ! i') + 2 ^ (k + j)"
        using len by (auto simp: held_dirty_def in_set_conv_nth)
      from cache_ok_slot [OF okm i'(1)] i'(2) have v: "blk_valid (?bs2 ! i')"
        and dv: "2 ^ j dvd unat (blk_index (?bs2 ! i'))" by (simp_all add: slot_ok_def)
      have ni: "i' \<noteq> i" using v i len by auto
      have "2 ^ j dvd unat (blk_index it)" by (simp add: it(1) bdvd)
      from lines_disjoint [OF dv this, of k] others [OF i'(1) ni v] that i' show False
        by (auto simp: it(1) line_def blk_base_def)
    qed
    then have mf: "map (img m) line = map f line"
      using okm by (auto simp: cache_ok_def)
    have it': "blk_index it' = block" "blk_valid it'" "\<not> blk_dirty it'"
      using it by (simp_all add: it'_def)
    obtain xs where xs: "blk_data it' = Some xs" "length xs = 2 ^ (k + j)" "\<not> wa \<Longrightarrow> xs = map f line"
    proof (cases wa)
      case True
      with it(3) that show ?thesis by (auto simp: it'_def)
    next
      case False
      with that [of "map f line"] rdline mf show ?thesis by (simp add: it'_def line_def)
    qed
    have base: "blk_base k it' = unat block * 2 ^ k" by (simp add: blk_base_def it')
    have slot: "m_data d' ! i = it'" using i len by (simp add: d'_def)
    show ?thesis
    proof (rule that [OF run i])
      show "drive_shape drv k j N d'" using shape2 by (simp add: d'_def)
      then show "cached_disk drv k j N img d' f" if "\<not> wa"
        using install_clean [OF okm i, of it'] others it' it(2) xs that bdvd bN dev i len
        by (simp add: cached_disk_def d'_def base line_def)
      fix ys :: "byte list" assume "write_blocks drv \<noteq> None" "length ys = 2 ^ (k + j)"
      then show "cached_disk drv k j N img (dirtied d' i ys) (overlay (blk_base k (m_data d' ! i)) ys f)"
        using install_dirty [of k j N "img m" f ?bs2 i
            "it'\<lparr>blk_data := Some ys, blk_dirty := True\<rparr>" ys]
          okm i bdvd bN others it' it(2) dev shape2 len
        unfolding slot
        by (simp add: cached_disk_def dirtied_def blk_base_def d'_def)
    next
      show "xs = map f [blk_base k (m_data d' ! i)..<blk_base k (m_data d' ! i) + 2 ^ (k + j)]"
        if "\<not> wa"
        unfolding slot base using xs(3) [OF that] by (simp only: line_def)
    qed (use slot it' ub xs(1,2) in simp_all)
  qed
qed

text \<open>The same facts as one predicate on the result.\<close>

definition rw_post ::
  "'m disk_driver \<Rightarrow> nat \<Rightarrow> nat \<Rightarrow> nat \<Rightarrow> ('m \<Rightarrow> nat \<Rightarrow> byte) \<Rightarrow> (nat \<Rightarrow> byte) \<Rightarrow> bool \<Rightarrow> u32 \<Rightarrow>
     'm filesystem_drive \<Rightarrow> nat \<Rightarrow> byte list \<Rightarrow> bool" where
  "rw_post drv k j N img f wa idx d i xs \<longleftrightarrow>
     i < 8 \<and> unat (blk_index (m_data d ! i)) = unat idx - unat idx mod 2 ^ j \<and>
     blk_data (m_data d ! i) = Some xs \<and> length xs = 2 ^ (k + j) \<and>
     drive_shape drv k j N d \<and>
     (\<not> wa \<longrightarrow> cached_disk drv k j N img d f \<and>
        xs = map f [blk_base k (m_data d ! i)..<blk_base k (m_data d ! i) + 2 ^ (k + j)]) \<and>
     (write_blocks drv \<noteq> None \<longrightarrow> (\<forall>ys. length ys = 2 ^ (k + j) \<longrightarrow>
        cached_disk drv k j N img (dirtied d i ys) (overlay (blk_base k (m_data d ! i)) ys f)))"

lemma block_rw_post:
  assumes "cached_disk drv k j N img d f" and "unat idx < N"
  shows "\<exists>d' i xs. block_rw d idx wa = Some (d', i) \<and> rw_post drv k j N img f wa idx d' i xs"
  by (rule block_rw_ok [OF assms, of wa], unfold rw_post_def, intro exI conjI impI allI)
    (assumption | simp)+

section \<open>Reads and writes within one block\<close>

lemma block_address:
  assumes shape: "drive_shape drv k j N d" and ub: "unat b = unat block - unat block mod 2 ^ j"
    and off: "unat off < 2 ^ k"
  shows "unat (blocks_to_bytes d (block - b) + off) = unat block mod 2 ^ j * 2 ^ k + unat off"
    and "unat b * 2 ^ k + (unat block mod 2 ^ j * 2 ^ k + unat off) = unat block * 2 ^ k + unat off"
    and "unat block mod 2 ^ j * 2 ^ k + 2 ^ k \<le> 2 ^ (k + j)"
proof -
  let ?r = "unat block mod 2 ^ j"
  from shape have k: "unat (of_nat k :: u32) = k" and kj: "k + j < 32"
    by (simp_all add: drive_shape_def unat_of_nat take_bit_eq_mod)
  have "Suc ?r \<le> 2 ^ j" by (simp add: Suc_leI)
  then have "Suc ?r * 2 ^ k \<le> 2 ^ j * 2 ^ k" by (intro mult_le_mono1)
  then show line: "?r * 2 ^ k + 2 ^ k \<le> 2 ^ (k + j)" by (simp add: power_add mult.commute)
  have le: "unat b \<le> unat block" and r: "unat block - unat b = ?r"
    using ub mod_less_eq_dividend [of "unat block" "2 ^ j"] by linarith+
  have lim: "(2::nat) ^ (k + j) \<le> 2 ^ 31" using kj by (intro power_increasing) simp_all
  have "unat (push_bit k (block - b)) = ?r * 2 ^ k"
    using line lim by (subst unat_shift_left_small) (simp_all add: unat_sub_small le r)
  then have "unat (blocks_to_bytes d (block - b)) = ?r * 2 ^ k"
    using shape k by (simp add: blocks_to_bytes_def drive_shape_def)
  then show "unat (blocks_to_bytes d (block - b) + off) = ?r * 2 ^ k + unat off"
    using line lim off by (subst unat_add_small) simp_all
  have "unat block = unat b + ?r" using le r by simp
  then show "unat b * 2 ^ k + (?r * 2 ^ k + unat off) = unat block * 2 ^ k + unat off"
    by (metis add.assoc add_mult_distrib)
qed

lemma read_from_block_ok:
  assumes cd: "cached_disk drv k j N img d f" and x: "unat block < N"
    and off: "unat off < 2 ^ k" and n: "unat off + unat n \<le> 2 ^ k"
  defines "p \<equiv> unat block * 2 ^ k + unat off"
  obtains d' where "read_from_block d block off n = Some (map f [p..<p + unat n], d')"
    "cached_disk drv k j N img d' f"
proof -
  obtain d' i xs where rw: "block_rw d block False = Some (d', i)"
    and post: "rw_post drv k j N img f False block d' i xs"
    using block_rw_post [OF cd x] by blast
  from post have ub: "unat (blk_index (m_data d' ! i)) = unat block - unat block mod 2 ^ j"
    and data: "blk_data (m_data d' ! i) = Some xs"
    and shape: "drive_shape drv k j N d'" and cd': "cached_disk drv k j N img d' f"
    and xs: "xs = map f [blk_base k (m_data d' ! i)..<blk_base k (m_data d' ! i) + 2 ^ (k + j)]"
    unfolding rw_post_def by simp_all
  let ?b = "blk_index (m_data d' ! i)"
  let ?q = "unat (blocks_to_bytes d' (block - ?b) + off)"
  note addr = block_address [OF shape ub off]
  have "?q + unat n \<le> 2 ^ (k + j)" using addr n by simp
  moreover have "blk_base k (m_data d' ! i) + ?q = p"
    using addr by (simp add: blk_base_def p_def)
  ultimately have "slice ?q (unat n) xs = Some (map f [p..<p + unat n])"
    by (simp only: xs slice_map_upt)
  then have "read_from_block d block off n = Some (map f [p..<p + unat n], d')"
    by (simp only: read_from_block_def rw data Let_def Option.bind.simps case_prod_conv)
  then show thesis using cd' by (rule that)
qed

lemma overlay_patch:
  assumes "patch q src xs = Some ys" and "xs = map f [base..<base + length xs]"
  shows "overlay base ys f = overlay (base + q) src f"
proof
  fix a
  have len: "length ys = length xs" using assms(1) by (rule length_patch)
  have "q + length src \<le> length xs" using assms(1) by (simp add: patch_Some_iff)
  moreover have "xs ! (a - base) = f a" if "base \<le> a" "a < base + length xs"
    using that assms(2) by (metis add_diff_cancel_left' add_diff_inverse_nat diff_less_mono
        le_add_diff_inverse length_map length_upt linorder_not_le nth_map_upt)
  ultimately show "overlay base ys f a = overlay (base + q) src f a"
    using nth_patch [OF assms(1), of "a - base"] len by (auto simp: overlay_def)
qed

lemma write_to_block_ok:
  assumes cd: "cached_disk drv k j N img d f" and x: "unat block < N"
    and w: "write_blocks drv \<noteq> None"
    and off: "unat off < 2 ^ k" and n: "unat off + unat n \<le> 2 ^ k" and buf: "unat n \<le> length buf"
  obtains d' where "write_to_block d block off buf n = Some d'"
    "cached_disk drv k j N img d' (overlay (unat block * 2 ^ k + unat off) (take (unat n) buf) f)"
    "held_dirty k j (m_data d') (unat block * 2 ^ k + unat off)"
proof -
  let ?wa = "n = blocks_to_bytes d (m_num_blocks_per_cache d)"
  have shape0: "drive_shape drv k j N d" using cd by (simp add: cached_disk_def)
  obtain d' i xs where rw: "block_rw d block ?wa = Some (d', i)"
    and post: "rw_post drv k j N img f ?wa block d' i xs"
    using block_rw_post [OF cd x] by blast
  from post w have i: "i < 8" and ub: "unat (blk_index (m_data d' ! i)) = unat block - unat block mod 2 ^ j"
    and data: "blk_data (m_data d' ! i) = Some xs" and lx: "length xs = 2 ^ (k + j)"
    and shape: "drive_shape drv k j N d'"
    and wr: "\<And>ys. length ys = 2 ^ (k + j) \<Longrightarrow>
       cached_disk drv k j N img (dirtied d' i ys) (overlay (blk_base k (m_data d' ! i)) ys f)"
    and xs: "\<not> ?wa \<Longrightarrow> xs = map f [blk_base k (m_data d' ! i)..<blk_base k (m_data d' ! i) + 2 ^ (k + j)]"
    unfolding rw_post_def by blast+
  let ?b = "blk_index (m_data d' ! i)" and ?base = "blk_base k (m_data d' ! i)"
  let ?q = "unat (blocks_to_bytes d' (block - ?b) + off)" and ?src = "take (unat n) buf"
  note addr = block_address [OF shape ub off]
  have q: "?q + unat n \<le> 2 ^ (k + j)" using addr n by simp
  have p: "?base + ?q = unat block * 2 ^ k + unat off" using addr by (simp add: blk_base_def)
  obtain ys where ys: "patch ?q ?src xs = Some ys" using q lx buf by (simp add: patch_def)
  have src: "slice 0 (unat n) buf = Some ?src" using buf by (simp add: slice_def)
  have run: "write_to_block d block off buf n = Some (dirtied d' i ys)"
    by (simp only: write_to_block_def rw data src ys Let_def Option.bind.simps case_prod_conv
        dirtied_def)
  have ly: "length ys = 2 ^ (k + j)" using length_patch [OF ys] lx by simp
  have "overlay ?base ys f = overlay (?base + ?q) ?src f"
  proof (cases ?wa)
    case True
    then have un: "unat n = 2 ^ (k + j)" using blocks_to_bytes_line [OF shape0] by simp
    with q have "?q = 0" by linarith
    moreover from this ys un lx buf have "ys = ?src" by (auto simp: patch_Some_iff)
    ultimately show ?thesis by simp
  next
    case False
    then show ?thesis using overlay_patch [OF ys] xs lx by simp
  qed
  with wr [OF ly] have cd': "cached_disk drv k j N img (dirtied d' i ys)
      (overlay (unat block * 2 ^ k + unat off) ?src f)"
    by (simp only: p)
  have "length (m_data d') = 8"
    using cd' by (simp add: cached_disk_def cache_ok_def dirtied_def)
  moreover have "?q < 2 ^ (k + j)" using addr off by linarith
  ultimately have "held_dirty k j (m_data (dirtied d' i ys)) (unat block * 2 ^ k + unat off)"
    using i p held_dirty_new [of i "m_data d'" "(m_data d' ! i)\<lparr>blk_data := Some ys, blk_dirty := True\<rparr>"
        k "unat block * 2 ^ k + unat off" j]
    by (simp add: dirtied_def blk_base_def)
  with run cd' show thesis by (rule that)
qed

section \<open>Flushing\<close>

definition dirty_ok :: "bool \<Rightarrow> nat \<Rightarrow> nat \<Rightarrow> nat \<Rightarrow> (nat \<Rightarrow> byte) \<Rightarrow> cached_block \<Rightarrow> bool" where
  "dirty_ok writable k j N f b \<longleftrightarrow>
     (blk_dirty b \<longrightarrow> writable \<and> unat (blk_index b) + 2 ^ j \<le> N \<and>
        blk_data b = Some (map f [blk_base k b..<blk_base k b + 2 ^ (k + j)]))"

lemma slot_ok_dirty_ok: "slot_ok w k j N f b \<Longrightarrow> dirty_ok w k j N f b"
  by (simp add: slot_ok_def dirty_ok_def)

lemma flush_blocks_ok:
  assumes dev: "block_device drv (2 ^ k) N img" and shape: "drive_shape drv k j N d"
    and slots: "\<forall>b \<in> set bs. dirty_ok (write_blocks drv \<noteq> None) k j N f b"
  shows "\<exists>m. flush_blocks d idx n bs = Some (d\<lparr>m_drv_impl_data := m\<rparr>,
            map (\<lambda>b. if skips_block d idx n b then b else b\<lparr>blk_dirty := False\<rparr>) bs) \<and>
          (\<forall>a. img m a = img (m_drv_impl_data d) a \<or> img m a = f a) \<and>
          (\<forall>b \<in> set bs. blk_dirty b \<longrightarrow> \<not> skips_block d idx n b \<longrightarrow>
             (\<forall>a. blk_base k b \<le> a \<longrightarrow> a < blk_base k b + 2 ^ (k + j) \<longrightarrow> img m a = f a))"
  using shape slots
proof (induction bs arbitrary: d)
  case Nil
  then show ?case by (intro exI [of _ "m_drv_impl_data d"]) simp
next
  case (Cons b bs)
  have skip: "skips_block (d\<lparr>m_drv_impl_data := m\<rparr>) idx n = skips_block d idx n" for m
    by (rule ext) (simp add: skips_block_def)
  show ?case
  proof (cases "skips_block d idx n b \<or> \<not> blk_dirty b")
    case True
    from Cons.IH [OF Cons.prems(1)] Cons.prems(2) obtain m where
      "flush_blocks d idx n bs = Some (d\<lparr>m_drv_impl_data := m\<rparr>,
            map (\<lambda>b. if skips_block d idx n b then b else b\<lparr>blk_dirty := False\<rparr>) bs)"
      and "\<forall>a. img m a = img (m_drv_impl_data d) a \<or> img m a = f a"
      and "\<forall>b \<in> set bs. blk_dirty b \<longrightarrow> \<not> skips_block d idx n b \<longrightarrow>
             (\<forall>a. blk_base k b \<le> a \<longrightarrow> a < blk_base k b + 2 ^ (k + j) \<longrightarrow> img m a = f a)"
      by auto
    with True show ?thesis by (intro exI [of _ m]) auto
  next
    case False
    then have dirty: "blk_dirty b" and ns: "\<not> skips_block d idx n b" by simp_all
    from Cons.prems(2) dirty obtain wr xs where wr: "write_blocks drv = Some wr"
      and bN: "unat (blk_index b) + 2 ^ j \<le> N" and data: "blk_data b = Some xs"
      and xs: "xs = map f [blk_base k b..<blk_base k b + 2 ^ (k + j)]"
      by (auto simp: dirty_ok_def)
    let ?m = "wr (m_drv_impl_data d) (blk_index b) xs (2 ^ j)"
    let ?d = "d\<lparr>m_drv_impl_data := ?m\<rparr>"
    have j: "unat (2 ^ j :: u32) = 2 ^ j" using Cons.prems(1) by (simp add: drive_shape_def)
    have lx: "length xs = 2 ^ j * 2 ^ k" by (simp add: xs power_add mult.commute)
    have img: "img ?m = overlay (blk_base k b) xs (img (m_drv_impl_data d))"
      using block_device.writes [OF dev wr, of "blk_index b" "2 ^ j" xs "m_drv_impl_data d"] bN lx
      by (simp add: j blk_base_def)
    have wb: "drive_write_blocks d (blk_index b) xs (m_num_blocks_per_cache d) = Some ?d"
      using Cons.prems(1) wr by (simp add: drive_write_blocks_def drive_shape_def)
    have imgf: "img ?m a = (if blk_base k b \<le> a \<and> a < blk_base k b + 2 ^ (k + j) then f a
        else img (m_drv_impl_data d) a)" for a
      unfolding img by (auto simp: overlay_def xs)
    have "drive_shape drv k j N ?d" using Cons.prems(1) by simp
    from Cons.IH [OF this] Cons.prems(2) obtain m where
      run: "flush_blocks ?d idx n bs = Some (d\<lparr>m_drv_impl_data := m\<rparr>,
            map (\<lambda>b. if skips_block d idx n b then b else b\<lparr>blk_dirty := False\<rparr>) bs)"
      and keep: "\<forall>a. img m a = img ?m a \<or> img m a = f a"
      and written: "\<forall>b \<in> set bs. blk_dirty b \<longrightarrow> \<not> skips_block d idx n b \<longrightarrow>
             (\<forall>a. blk_base k b \<le> a \<longrightarrow> a < blk_base k b + 2 ^ (k + j) \<longrightarrow> img m a = f a)"
      by (auto simp: skip)
    show ?thesis
    proof (intro exI [of _ m] conjI)
      show "flush_blocks d idx n (b # bs) = Some (d\<lparr>m_drv_impl_data := m\<rparr>,
            map (\<lambda>b. if skips_block d idx n b then b else b\<lparr>blk_dirty := False\<rparr>) (b # bs))"
        using dirty ns data wb run by simp
      show "\<forall>a. img m a = img (m_drv_impl_data d) a \<or> img m a = f a"
        using keep imgf by metis
      show "\<forall>b \<in> set (b # bs). blk_dirty b \<longrightarrow> \<not> skips_block d idx n b \<longrightarrow>
             (\<forall>a. blk_base k b \<le> a \<longrightarrow> a < blk_base k b + 2 ^ (k + j) \<longrightarrow> img m a = f a)"
        using written keep imgf by (auto simp: set_ConsD) metis
    qed
  qed
qed

lemma drive_shape_bound: "drive_shape drv k j N d \<Longrightarrow> N < 2 ^ 32"
  unfolding drive_shape_def using unat_u32_bound by metis

lemma unskipped_overlap:
  assumes shape: "drive_shape drv k j N d" and range: "unat idx + unat n \<le> N"
    and bN: "unat (blk_index b) + 2 ^ j \<le> N"
    and a: "unat idx * 2 ^ k \<le> a" "a < (unat idx + unat n) * 2 ^ k"
    and hit: "blk_base k b \<le> a" "a < blk_base k b + 2 ^ (k + j)"
  shows "\<not> skips_block d idx n b"
proof -
  note N = drive_shape_bound [OF shape]
  from shape have nb: "m_num_blocks_per_cache d = 2 ^ j" and j: "j < 32"
    by (simp_all add: drive_shape_def)
  have 1: "unat (idx + n) = unat idx + unat n" using range N by (simp add: unat_add_small)
  have 2: "unat (blk_index b + 2 ^ j) = unat (blk_index b) + 2 ^ j"
    using bN N j by (subst unat_add_small) simp_all
  have "unat (blk_index b) * 2 ^ k < (unat idx + unat n) * 2 ^ k"
    using le_less_trans [OF hit(1) a(2)] by (simp only: blk_base_def)
  moreover have "unat idx * 2 ^ k < (unat (blk_index b) + 2 ^ j) * 2 ^ k"
    using le_less_trans [OF a(1) hit(2)]
    unfolding blk_base_def power_add add_mult_distrib by (simp only: mult.commute [of "2 ^ k" "2 ^ j"])
  ultimately show ?thesis
    by (simp add: skips_block_def nb word_less_nat_alt 1 2)
qed

lemma block_flush_ok:
  assumes cd: "cached_disk drv k j N img d f" and range: "unat idx + unat n \<le> N"
  obtains d' where "block_flush d idx n = Some d'" "cached_disk drv k j N img d' f"
    "\<And>a. unat idx * 2 ^ k \<le> a \<Longrightarrow> a < (unat idx + unat n) * 2 ^ k \<Longrightarrow>
       img (m_drv_impl_data d') a = f a"
proof -
  let ?w = "write_blocks drv \<noteq> None" and ?clean = "\<lambda>b. if skips_block d idx n b then b else b\<lparr>blk_dirty := False\<rparr>"
  from cd have dev: "block_device drv (2 ^ k) N img" and shape: "drive_shape drv k j N d"
    and ok: "cache_ok ?w k j N (img (m_drv_impl_data d)) f (m_data d)"
    by (simp_all add: cached_disk_def)
  from ok have slots: "\<forall>b \<in> set (m_data d). slot_ok ?w k j N f b" by (simp add: cache_ok_def)
  then have "\<forall>b \<in> set (m_data d). dirty_ok ?w k j N f b" by (auto intro: slot_ok_dirty_ok)
  from flush_blocks_ok [OF dev shape this] obtain m where
    run: "flush_blocks d idx n (m_data d) = Some (d\<lparr>m_drv_impl_data := m\<rparr>, map ?clean (m_data d))"
    and keep: "\<And>a. img m a = img (m_drv_impl_data d) a \<or> img m a = f a"
    and written: "\<And>b a. b \<in> set (m_data d) \<Longrightarrow> blk_dirty b \<Longrightarrow> \<not> skips_block d idx n b \<Longrightarrow>
      blk_base k b \<le> a \<Longrightarrow> a < blk_base k b + 2 ^ (k + j) \<Longrightarrow> img m a = f a"
    by blast
  let ?d = "d\<lparr>m_drv_impl_data := m, m_data := map ?clean (m_data d)\<rparr>"
  have dev_agrees: "img m a = f a" if "\<not> held_dirty k j (map ?clean (m_data d)) a" for a
  proof (cases "held_dirty k j (m_data d) a")
    case True
    then obtain b where b: "b \<in> set (m_data d)" "blk_dirty b" "blk_base k b \<le> a"
      "a < blk_base k b + 2 ^ (k + j)" by (auto simp: held_dirty_def)
    with that have "\<not> skips_block d idx n b" by (auto simp: held_dirty_def)
    with written b show ?thesis by blast
  next
    case False
    with ok have "img (m_drv_impl_data d) a = f a" by (auto simp: cache_ok_def)
    with keep [of a] show ?thesis by auto
  qed
  have "cached_disk drv k j N img ?d f"
    using ok slots dev shape dev_agrees
    by (auto simp: cached_disk_def cache_ok_def slot_ok_def distinct_blocks_def blk_base_def)
  moreover have "img m a = f a" if a: "unat idx * 2 ^ k \<le> a" "a < (unat idx + unat n) * 2 ^ k" for a
  proof (rule dev_agrees, rule notI)
    assume "held_dirty k j (map ?clean (m_data d)) a"
    then obtain b where b: "b \<in> set (m_data d)" "blk_dirty b" "skips_block d idx n b"
      and hit: "blk_base k b \<le> a" "a < blk_base k b + 2 ^ (k + j)"
      by (auto simp: held_dirty_def split: if_splits)
    from slots b have "unat (blk_index b) + 2 ^ j \<le> N" by (auto simp: slot_ok_def)
    from unskipped_overlap [OF shape range this a hit] b(3) show False by simp
  qed
  ultimately show thesis
    using run by (intro that [of ?d]) (simp_all add: block_flush_def)
qed

section \<open>Runs of whole blocks\<close>

lemma unat_succ_block:
  "unat (block :: u32) + Suc n \<le> N \<Longrightarrow> N < 2 ^ 32 \<Longrightarrow> unat (block + 1) = Suc (unat block)"
  by (subst unat_add_small) simp_all

lemma read_full_chunks_ok:
  assumes "cached_disk drv k j N img d f" and "unat block + n \<le> N"
  shows "\<exists>d'. read_full_chunks d block n =
      Some (map f [unat block * 2 ^ k..<(unat block + n) * 2 ^ k], d', block + of_nat n) \<and>
    cached_disk drv k j N img d' f"
  using assms
proof (induction n arbitrary: d block)
  case (Suc n)
  have shape: "drive_shape drv k j N d" using Suc.prems(1) by (simp add: cached_disk_def)
  then have bs: "unat (m_minimum_block_size d) = 2 ^ k" by (simp add: drive_shape_def)
  have u: "unat (block + 1) = Suc (unat block)"
    using Suc.prems(2) drive_shape_bound [OF shape] by (rule unat_succ_block)
  obtain d1 where r1: "read_from_block d block 0 (m_minimum_block_size d) =
        Some (map f [unat block * 2 ^ k..<unat block * 2 ^ k + 2 ^ k], d1)"
    and cd1: "cached_disk drv k j N img d1 f"
    using read_from_block_ok [OF Suc.prems(1), of block 0 "m_minimum_block_size d"] Suc.prems(2) bs
    by auto
  from Suc.IH [OF cd1, of "block + 1"] Suc.prems(2) u obtain d2 where
    r2: "read_full_chunks d1 (block + 1) n =
      Some (map f [Suc (unat block) * 2 ^ k..<(Suc (unat block) + n) * 2 ^ k], d2, block + 1 + of_nat n)"
    and cd2: "cached_disk drv k j N img d2 f"
    by auto
  have "[unat block * 2 ^ k..<(unat block + Suc n) * 2 ^ k] =
      [unat block * 2 ^ k..<unat block * 2 ^ k + 2 ^ k] @
      [Suc (unat block) * 2 ^ k..<(Suc (unat block) + n) * 2 ^ k]"
    using upt_add_eq_append [of "unat block * 2 ^ k" "unat block * 2 ^ k + 2 ^ k" "n * 2 ^ k"]
    by (simp add: add_mult_distrib algebra_simps)
  then show ?case
    using r1 r2 cd2 by (intro exI [of _ d2]) (simp add: algebra_simps)
qed simp

lemma write_full_chunks_ok:
  assumes "cached_disk drv k j N img d f" and "unat block + n \<le> N"
    and "write_blocks drv \<noteq> None" and "n * 2 ^ k \<le> length buf"
  shows "\<exists>d'. write_full_chunks d block buf n = Some (d', block + of_nat n, drop (n * 2 ^ k) buf) \<and>
    cached_disk drv k j N img d' (overlay (unat block * 2 ^ k) (take (n * 2 ^ k) buf) f)"
  using assms
proof (induction n arbitrary: d block buf f)
  case (Suc n)
  have shape: "drive_shape drv k j N d" using Suc.prems(1) by (simp add: cached_disk_def)
  then have bs: "unat (m_minimum_block_size d) = 2 ^ k" by (simp add: drive_shape_def)
  have u: "unat (block + 1) = Suc (unat block)"
    using Suc.prems(2) drive_shape_bound [OF shape] by (rule unat_succ_block)
  obtain d1 where w1: "write_to_block d block 0 buf (m_minimum_block_size d) = Some d1"
    and cd1: "cached_disk drv k j N img d1 (overlay (unat block * 2 ^ k) (take (2 ^ k) buf) f)"
    using write_to_block_ok [OF Suc.prems(1) _ Suc.prems(3), of block 0 "m_minimum_block_size d" buf]
      Suc.prems(2,4) bs by auto
  have "n * 2 ^ k \<le> length buf - 2 ^ k" using Suc.prems(4) by simp
  with Suc.IH [OF cd1, of "block + 1" "drop (2 ^ k) buf"] Suc.prems(2,3) u obtain d2 where
    w2: "write_full_chunks d1 (block + 1) (drop (2 ^ k) buf) n =
      Some (d2, block + 1 + of_nat n, drop (n * 2 ^ k) (drop (2 ^ k) buf))"
    and cd2: "cached_disk drv k j N img d2 (overlay (Suc (unat block) * 2 ^ k)
        (take (n * 2 ^ k) (drop (2 ^ k) buf)) (overlay (unat block * 2 ^ k) (take (2 ^ k) buf) f))"
    by auto
  have bs1: "unat (m_minimum_block_size d1) = 2 ^ k"
    using cd1 by (simp add: cached_disk_def drive_shape_def)
  have "take (Suc n * 2 ^ k) buf = take (2 ^ k) buf @ take (n * 2 ^ k) (drop (2 ^ k) buf)"
    by (simp add: take_add)
  then have "overlay (unat block * 2 ^ k) (take (Suc n * 2 ^ k) buf) f =
      overlay (Suc (unat block) * 2 ^ k) (take (n * 2 ^ k) (drop (2 ^ k) buf))
        (overlay (unat block * 2 ^ k) (take (2 ^ k) buf) f)"
    using Suc.prems(4) by (simp add: overlay_append algebra_simps)
  then show ?case
    using w1 w2 cd2 bs1 by (intro exI [of _ d2]) (simp add: algebra_simps)
qed simp

section \<open>Byte ranges\<close>

text \<open>
  A drive with byte access never uses its cache; any other drive goes through it.
\<close>

definition disk_holds ::
  "'m disk_driver \<Rightarrow> nat \<Rightarrow> nat \<Rightarrow> nat \<Rightarrow> ('m \<Rightarrow> nat \<Rightarrow> byte) \<Rightarrow> 'm filesystem_drive \<Rightarrow>
     (nat \<Rightarrow> byte) \<Rightarrow> bool" where
  "disk_holds drv k j N img d f \<longleftrightarrow>
     cached_disk drv k j N img d f \<and>
     (supports_byte_access d \<longrightarrow> (\<forall>b \<in> set (m_data d). \<not> blk_valid b))"

lemma supports_byte_access_shape:
  assumes "drive_shape drv k j N d"
  shows "supports_byte_access d \<longleftrightarrow> k = 0 \<and> allocate_buffer drv = None"
proof -
  have k: "k < 32" using assms by (simp add: drive_shape_def)
  have "(2 ^ k :: u32) = 1 \<longleftrightarrow> unat (2 ^ k :: u32) = unat (1 :: u32)"
    by (rule word_unat_eq_iff)
  also have "\<dots> \<longleftrightarrow> (2::nat) ^ k = 1" using k by simp
  finally have "(2 ^ k :: u32) = 1 \<longleftrightarrow> k = 0" by simp
  then show ?thesis using assms by (simp add: supports_byte_access_def needs_buffer_def drive_shape_def)
qed

text \<open>Where the pieces of a byte range lie on the disk.\<close>

lemma chunk_plan:
  fixes bn off n :: u32
  assumes k: "k < 32" and N: "N < 2 ^ 32"
    and range: "unat bn * 2 ^ k + unat off + unat n \<le> N * 2 ^ k"
  defines "C \<equiv> filesystem_chunkify (ucast off) n (2 ^ k - 1) (of_nat k)"
    and "p \<equiv> unat bn * 2 ^ k + unat off"
  defines "B0 \<equiv> bn + start_chunk C"
  defines "B1 \<equiv> if start_size C \<noteq> 0 then B0 + 1 else B0"
  shows "unat B0 * 2 ^ k + unat (start_offset C) = p"
    and "unat (start_offset C) < 2 ^ k"
    and "unat (start_offset C) + unat (start_size C) \<le> 2 ^ k"
    and "start_size C \<noteq> 0 \<Longrightarrow> unat B0 < N"
    and "unat (start_size C) + unat (num_full_chunks C) * 2 ^ k + unat (end_size C) = unat n"
    and "unat (end_size C) < 2 ^ k"
    and "num_full_chunks C \<noteq> 0 \<or> end_size C \<noteq> 0 \<Longrightarrow> unat B1 * 2 ^ k = p + unat (start_size C)"
    and "num_full_chunks C \<noteq> 0 \<or> end_size C \<noteq> 0 \<Longrightarrow> unat B1 + unat (num_full_chunks C) \<le> N"
    and "end_size C \<noteq> 0 \<Longrightarrow> unat B1 + unat (num_full_chunks C) < N"
proof -
  let ?c = "2 ^ k :: nat"
  have c: "0 < ?c" by simp
  have off64: "unat (ucast off :: u64) = unat off"
    by (rule unat_ucast_small) (use unat_u32_bound [of off] in simp)
  have "N * ?c < 2 ^ (32 + k)" using N by (simp add: power_add)
  with range have lim: "unat (ucast off :: u64) + unat n < 2 ^ (32 + k)" by (simp add: off64)
  have abs: "abs_chunks C = split_range (unat off) (unat n) ?c"
    using abs_chunkify [OF k lim] by (simp add: C_def off64)
  have cov: "covers_range (unat off) (unat n) ?c (abs_chunks C)"
    unfolding abs by (rule split_range_covers) simp
  then have o: "unat (start_chunk C) * ?c + unat (start_offset C) = unat off"
    and so: "unat (start_offset C) < ?c" and es: "unat (end_size C) < ?c"
    and sum: "unat (start_size C) + unat (num_full_chunks C) * ?c + unat (end_size C) = unat n"
    and sb: "unat (start_offset C) + unat (start_size C) \<le> ?c"
    and nxt: "0 < unat (num_full_chunks C) \<or> 0 < unat (end_size C) \<Longrightarrow>
        unat (start_size C) = 0 \<and> unat (start_offset C) = 0 \<or>
        unat (start_offset C) + unat (start_size C) = ?c"
    by (auto simp: covers_range_def abs_chunks_def)
  have "(unat bn + unat (start_chunk C)) * ?c \<le> N * ?c"
    using range o by (simp add: add_mult_distrib)
  then have le: "unat bn + unat (start_chunk C) \<le> N" by simp
  then have B0: "unat B0 = unat bn + unat (start_chunk C)"
    using N by (simp add: B0_def unat_add_small)
  show start: "unat B0 * ?c + unat (start_offset C) = p"
    using o by (simp add: B0 p_def add_mult_distrib)
  show B0N: "unat B0 < N" if "start_size C \<noteq> 0"
  proof -
    have "0 < unat (start_size C)" using that by (simp add: unat_gt_0)
    then have "unat B0 * ?c < N * ?c" using start range sum p_def by linarith
    then show ?thesis by simp
  qed
  show pos: "unat B1 * ?c = p + unat (start_size C)" if "num_full_chunks C \<noteq> 0 \<or> end_size C \<noteq> 0"
  proof (cases "start_size C = 0")
    case True
    moreover have "unat (start_offset C) = 0"
      using nxt that True so by (auto simp: unat_gt_0)
    ultimately show ?thesis using start by (simp add: B1_def)
  next
    case False
    then have "unat B1 = Suc (unat B0)"
      using B0N N by (simp add: B1_def, subst unat_add_small) simp_all
    moreover have "unat (start_offset C) + unat (start_size C) = ?c"
      using nxt that False by (auto simp: unat_gt_0 unat_eq_zero)
    ultimately show ?thesis using start by simp
  qed
  show "unat B1 + unat (num_full_chunks C) \<le> N" if "num_full_chunks C \<noteq> 0 \<or> end_size C \<noteq> 0"
  proof -
    have "(unat B1 + unat (num_full_chunks C)) * ?c \<le> N * ?c"
      using pos [OF that] range sum p_def by (simp add: add_mult_distrib)
    then show ?thesis by simp
  qed
  show "unat B1 + unat (num_full_chunks C) < N" if e: "end_size C \<noteq> 0"
  proof -
    have "0 < unat (end_size C)" using e by (simp add: unat_gt_0)
    then have "(unat B1 + unat (num_full_chunks C)) * ?c < N * ?c"
      using pos e range sum p_def by (simp add: add_mult_distrib)
    then show ?thesis by simp
  qed
  show "unat (start_offset C) < ?c" by (rule so)
  show "unat (start_offset C) + unat (start_size C) \<le> ?c" by (rule sb)
  show "unat (start_size C) + unat (num_full_chunks C) * ?c + unat (end_size C) = unat n" by (rule sum)
  show "unat (end_size C) < ?c" by (rule es)
qed

lemma no_dirty_device:
  assumes "cached_disk drv k j N img d f" and "\<forall>b \<in> set (m_data d). \<not> blk_valid b"
  shows "img (m_drv_impl_data d) = f"
proof
  fix a
  have "\<not> held_dirty k j (m_data d) a"
    using assms by (auto simp: held_dirty_def cached_disk_def cache_ok_def slot_ok_def)
  with assms(1) show "img (m_drv_impl_data d) a = f a"
    by (auto simp: cached_disk_def cache_ok_def)
qed

text \<open>A direct run of whole blocks: the cache is flushed first, so the device holds them.\<close>

lemma direct_read_ok:
  assumes cd: "cached_disk drv k j N img d f" and range: "unat block + unat n \<le> N"
  shows "\<exists>d'. (do { d' \<leftarrow> block_flush d block n; ys \<leftarrow> drive_read_blocks d' block n;
              Some (ys, d', block + n) }) =
      Some (map f [unat block * 2 ^ k..<(unat block + unat n) * 2 ^ k], d', block + n) \<and>
    cached_disk drv k j N img d' f"
proof -
  obtain d' where fl: "block_flush d block n = Some d'" and cd': "cached_disk drv k j N img d' f"
    and f: "\<And>a. unat block * 2 ^ k \<le> a \<Longrightarrow> a < (unat block + unat n) * 2 ^ k \<Longrightarrow>
       img (m_drv_impl_data d') a = f a"
    using block_flush_ok [OF cd range] by blast
  from cd' have dev: "block_device drv (2 ^ k) N img" and shape: "drive_shape drv k j N d'"
    by (simp_all add: cached_disk_def)
  from shape have drv: "m_driver d' = drv" by (simp add: drive_shape_def)
  from block_device.readable [OF dev] obtain rd where rd: "read_blocks drv = Some rd" by auto
  have "rd (m_drv_impl_data d') block n =
      map (img (m_drv_impl_data d')) [unat block * 2 ^ k..<(unat block + unat n) * 2 ^ k]"
    by (rule block_device.reads [OF dev rd range])
  also have "\<dots> = map f [unat block * 2 ^ k..<(unat block + unat n) * 2 ^ k]"
    using f by simp
  finally show ?thesis using fl cd' rd drv by (simp add: drive_read_blocks_def)
qed

lemma byte_read_ok:
  assumes dh: "disk_holds drv k j N img d f" and byte: "supports_byte_access d"
    and range: "unat bn * 2 ^ k + unat off + unat n \<le> N * 2 ^ k"
  shows "drive_read_blocks d (bn + off) n =
    Some (map f [unat bn * 2 ^ k + unat off..<unat bn * 2 ^ k + unat off + unat n])"
proof -
  from dh byte have cd: "cached_disk drv k j N img d f"
    and inv: "\<forall>b \<in> set (m_data d). \<not> blk_valid b" by (simp_all add: disk_holds_def)
  from cd have dev: "block_device drv (2 ^ k) N img" and shape: "drive_shape drv k j N d"
    by (simp_all add: cached_disk_def)
  from byte supports_byte_access_shape [OF shape] have k: "k = 0" by simp
  from block_device.readable [OF dev] obtain rd where rd: "read_blocks drv = Some rd" by auto
  have u: "unat (bn + off) = unat bn + unat off"
    using range k drive_shape_bound [OF shape] by (simp add: unat_add_small)
  have "rd (m_drv_impl_data d) (bn + off) n = map f [unat bn + unat off..<unat bn + unat off + unat n]"
    using block_device.reads [OF dev rd, of "bn + off" n] range k u no_dirty_device [OF cd inv]
    by simp
  then show ?thesis using rd shape k by (simp add: drive_read_blocks_def drive_shape_def)
qed

lemma filesystem_read_from_disk_ok:
  assumes dh: "disk_holds drv k j N img d f"
    and range: "unat bn * 2 ^ k + unat off + unat n \<le> N * 2 ^ k"
  defines "p \<equiv> unat bn * 2 ^ k + unat off"
  shows "\<exists>d'. filesystem_read_from_disk d bn off n = Some (map f [p..<p + unat n], d') \<and>
    disk_holds drv k j N img d' f"
proof (cases "supports_byte_access d")
  case True
  then show ?thesis
    using byte_read_ok [OF dh True range] dh
    by (simp add: filesystem_read_from_disk_def p_def)
next
  case nb: False
  from dh have cd: "cached_disk drv k j N img d f" by (simp add: disk_holds_def)
  then have shape: "drive_shape drv k j N d" by (simp add: cached_disk_def)
  then have k: "k < 32" by (simp add: drive_shape_def)
  define C where "C = filesystem_chunkify (ucast off) n (2 ^ k - 1) (of_nat k)"
  define B0 where "B0 = bn + start_chunk C"
  define B1 where "B1 = (if start_size C \<noteq> 0 then B0 + 1 else B0)"
  note plan = chunk_plan [OF k drive_shape_bound [OF shape] range, folded C_def p_def,
      folded B0_def, folded B1_def]
  let ?s = "unat (start_size C)" and ?m = "unat (num_full_chunks C)" and ?e = "unat (end_size C)"
  have C: "filesystem_chunkify (ucast off) n (m_minimum_block_size d - 1) (m_blocksz_log2 d) = C"
    using shape by (simp add: C_def drive_shape_def)
  obtain d1 where s1: "(if start_size C \<noteq> 0
      then do { (xs, d) \<leftarrow> read_from_block d B0 (start_offset C) (start_size C); Some (xs, d, B0 + 1) }
      else Some ([], d, B0)) = Some (map f [p..<p + ?s], d1, B1)"
    and cd1: "cached_disk drv k j N img d1 f"
  proof (cases "start_size C = 0")
    case True
    with that [of d] cd show thesis by (simp add: B1_def)
  next
    case False
    obtain d1 where "read_from_block d B0 (start_offset C) (start_size C) =
        Some (map f [p..<p + ?s], d1)" and "cached_disk drv k j N img d1 f"
      using read_from_block_ok [OF cd plan(4) plan(2) plan(3)] False plan(1) by metis
    with that [of d1] False show thesis by (simp add: B1_def)
  qed
  have shape1: "drive_shape drv k j N d1" using cd1 by (simp add: cached_disk_def)
  obtain d2 where s2: "(if num_full_chunks C \<noteq> 0
      then if \<not> needs_buffer d1 \<and> 1 < num_full_chunks C
           then do { d \<leftarrow> block_flush d1 B1 (num_full_chunks C);
                     ys \<leftarrow> drive_read_blocks d B1 (num_full_chunks C);
                     Some (ys, d, B1 + num_full_chunks C) }
           else read_full_chunks d1 B1 ?m
      else Some ([], d1, B1)) =
      Some (map f [p + ?s..<p + ?s + ?m * 2 ^ k], d2, B1 + num_full_chunks C)"
    and cd2: "cached_disk drv k j N img d2 f"
  proof (cases "num_full_chunks C = 0")
    case True
    with that [of d1] cd1 show thesis by simp
  next
    case False
    then have pos: "unat B1 * 2 ^ k = p + ?s" and le: "unat B1 + ?m \<le> N"
      using plan(7,8) by simp_all
    then have run: "(unat B1 + ?m) * 2 ^ k = p + ?s + ?m * 2 ^ k" by (simp add: add_mult_distrib)
    show thesis
    proof (cases "\<not> needs_buffer d1 \<and> 1 < num_full_chunks C")
      case True
      from direct_read_ok [OF cd1 le] that True False show thesis by (auto simp: pos run)
    next
      case nd: False
      from read_full_chunks_ok [OF cd1 le] that nd False show thesis by (auto simp: pos run)
    qed
  qed
  obtain d3 where s3: "(if end_size C \<noteq> 0 then read_from_block d2 (B1 + num_full_chunks C) 0 (end_size C)
      else Some ([], d2)) = Some (map f [p + ?s + ?m * 2 ^ k..<p + unat n], d3)"
    and cd3: "cached_disk drv k j N img d3 f"
  proof (cases "end_size C = 0")
    case True
    with plan(5) that [of d2] cd2 show thesis by simp
  next
    case False
    have u: "unat (B1 + num_full_chunks C) = unat B1 + ?m"
      using plan(9) [OF False] drive_shape_bound [OF shape] by (simp add: unat_add_small)
    then have "unat (B1 + num_full_chunks C) * 2 ^ k + unat (0::u32) = p + ?s + ?m * 2 ^ k"
      using plan(7) False by (simp add: add_mult_distrib)
    then obtain d3 where "read_from_block d2 (B1 + num_full_chunks C) 0 (end_size C) =
        Some (map f [p + ?s + ?m * 2 ^ k..<p + ?s + ?m * 2 ^ k + ?e], d3)"
      and "cached_disk drv k j N img d3 f"
      using read_from_block_ok [OF cd2, of "B1 + num_full_chunks C" 0 "end_size C"]
        plan(6) plan(9) [OF False] u by (metis add.left_neutral less_imp_le unat_0 zero_less_numeral zero_less_power)
    moreover have "p + ?s + ?m * 2 ^ k + ?e = p + unat n" using plan(5) by simp
    ultimately show thesis using that [of d3] False by simp
  qed
  have nb3: "\<not> supports_byte_access d3"
  proof -
    have "drive_shape drv k j N d3" using cd3 by (simp add: cached_disk_def)
    from supports_byte_access_shape [OF this] supports_byte_access_shape [OF shape] nb
    show ?thesis by simp
  qed
  have "[p..<p + unat n] = [p..<p + ?s] @ [p + ?s..<p + ?s + ?m * 2 ^ k] @ [p + ?s + ?m * 2 ^ k..<p + unat n]"
  proof -
    have n: "p + unat n = p + ?s + ?m * 2 ^ k + ?e" using plan(5) by linarith
    show ?thesis
      unfolding n using upt_add_eq_append [of p "p + ?s" "?m * 2 ^ k"]
        upt_add_eq_append [of p "p + ?s + ?m * 2 ^ k" ?e] by simp
  qed
  then have "filesystem_read_from_disk d bn off n = Some (map f [p..<p + unat n], d3)"
    using nb s1 s2 s3 by (simp only: filesystem_read_from_disk_def C Let_def if_False
        B0_def [symmetric] Option.bind.simps case_prod_conv map_append)
  with cd3 nb3 show ?thesis by (simp add: disk_holds_def)
qed

lemma byte_write_ok:
  assumes dh: "disk_holds drv k j N img d f" and byte: "supports_byte_access d"
    and wr: "write_blocks drv = Some wr" and buf: "unat n \<le> length buf"
    and range: "unat bn * 2 ^ k + unat off + unat n \<le> N * 2 ^ k"
  shows "\<exists>d'. drive_write_blocks d (bn + off) buf n = Some d' \<and>
    disk_holds drv k j N img d' (overlay (unat bn * 2 ^ k + unat off) (take (unat n) buf) f)"
proof -
  from dh byte have cd: "cached_disk drv k j N img d f"
    and inv: "\<forall>b \<in> set (m_data d). \<not> blk_valid b" by (simp_all add: disk_holds_def)
  from cd have dev: "block_device drv (2 ^ k) N img" and shape: "drive_shape drv k j N d"
    by (simp_all add: cached_disk_def)
  from byte supports_byte_access_shape [OF shape] have k: "k = 0" by simp
  have u: "unat (bn + off) = unat bn + unat off"
    using range k drive_shape_bound [OF shape] by (simp add: unat_add_small)
  let ?m = "wr (m_drv_impl_data d) (bn + off) buf n"
  let ?d = "d\<lparr>m_drv_impl_data := ?m\<rparr>" and ?f = "overlay (unat bn + unat off) (take (unat n) buf) f"
  have "img ?m = ?f"
    using block_device.writes [OF dev wr, of "bn + off" n buf "m_drv_impl_data d"] range k u buf
      no_dirty_device [OF cd inv] by simp
  then have "cached_disk drv k j N img ?d ?f"
    using cd inv by (auto simp: cached_disk_def cache_ok_def slot_ok_def)
  moreover have "supports_byte_access ?d" using byte by (simp add: supports_byte_access_def needs_buffer_def)
  ultimately show ?thesis
    using wr shape inv k by (simp add: drive_write_blocks_def drive_shape_def disk_holds_def)
qed

lemma filesystem_write_to_disk_ok:
  assumes dh: "disk_holds drv k j N img d f"
    and w: "write_blocks drv \<noteq> None" and buf: "unat n \<le> length buf"
    and range: "unat bn * 2 ^ k + unat off + unat n \<le> N * 2 ^ k"
    and path: "supports_byte_access d \<or> needs_buffer d \<or> unat n < 2 * 2 ^ k"
  shows "\<exists>d'. filesystem_write_to_disk d bn off buf n = Some d' \<and>
    disk_holds drv k j N img d' (overlay (unat bn * 2 ^ k + unat off) (take (unat n) buf) f)"
proof -
  from dh have cd: "cached_disk drv k j N img d f" by (simp add: disk_holds_def)
  then have shape: "drive_shape drv k j N d" by (simp add: cached_disk_def)
  then have k: "k < 32" and drv: "m_driver d = drv" by (simp_all add: drive_shape_def)
  have ro: "\<not> read_only d" using w drv by (simp add: read_only_def)
  show ?thesis
  proof (cases "supports_byte_access d")
    case True
    from w obtain wr where "write_blocks drv = Some wr" by auto
    from byte_write_ok [OF dh True this buf range] show ?thesis
      using True ro by (simp add: filesystem_write_to_disk_def)
  next
    case nb: False
    define p where "p = unat bn * 2 ^ k + unat off"
    define C where "C = filesystem_chunkify (ucast off) n (2 ^ k - 1) (of_nat k)"
    define B0 where "B0 = bn + start_chunk C"
    define B1 where "B1 = (if start_size C \<noteq> 0 then B0 + 1 else B0)"
    note plan = chunk_plan [OF k drive_shape_bound [OF shape] range, folded C_def p_def,
        folded B0_def, folded B1_def]
    let ?s = "unat (start_size C)" and ?m = "unat (num_full_chunks C)" and ?e = "unat (end_size C)"
    have C: "filesystem_chunkify (ucast off) n (m_minimum_block_size d - 1) (m_blocksz_log2 d) = C"
      using shape by (simp add: C_def drive_shape_def)
    define f1 where "f1 = overlay p (take ?s buf) f"
    have sn: "?s \<le> length buf" using plan(5) buf by linarith
    obtain d1 where s1: "(if start_size C \<noteq> 0
        then do { d \<leftarrow> write_to_block d B0 (start_offset C) buf (start_size C);
                  Some (d, B0 + 1, drop ?s buf) }
        else Some (d, B0, buf)) = Some (d1, B1, drop ?s buf)"
      and cd1: "cached_disk drv k j N img d1 f1"
    proof (cases "start_size C = 0")
      case True
      with that [of d] cd show thesis by (simp add: B1_def f1_def)
    next
      case False
      obtain d1 where "write_to_block d B0 (start_offset C) buf (start_size C) = Some d1"
        and "cached_disk drv k j N img d1 f1"
        using write_to_block_ok [OF cd plan(4) w plan(2) plan(3) sn] False plan(1)
        unfolding f1_def by metis
      with that [of d1] False show thesis by (simp add: B1_def)
    qed
    define f2 where "f2 = overlay (p + ?s) (take (?m * 2 ^ k) (drop ?s buf)) f1"
    have shape1: "drive_shape drv k j N d1" using cd1 by (simp add: cached_disk_def)
    have cached: "needs_buffer d1 \<or> \<not> 1 < num_full_chunks C"
    proof -
      have "needs_buffer d1 = needs_buffer d" using shape shape1 by (simp add: needs_buffer_def drive_shape_def)
      moreover have "?m < 2" if "unat n < 2 * 2 ^ k"
      proof -
        have "?m * 2 ^ k < 2 * 2 ^ k" using that plan(5) by linarith
        then show ?thesis by simp
      qed
      ultimately show ?thesis using path nb by (auto simp: word_less_nat_alt)
    qed
    obtain d2 where s2: "(if num_full_chunks C \<noteq> 0
        then if \<not> needs_buffer d1 \<and> 1 < num_full_chunks C
             then do { d \<leftarrow> drive_write_blocks (block_invalidate d1 B1 (num_full_chunks C))
                             B1 (drop ?s buf) (num_full_chunks C);
                       Some (d, B1 + num_full_chunks C,
                         drop (unat (blocks_to_bytes d (num_full_chunks C))) (drop ?s buf)) }
             else write_full_chunks d1 B1 (drop ?s buf) ?m
        else Some (d1, B1, drop ?s buf)) =
        Some (d2, B1 + num_full_chunks C, drop (?s + ?m * 2 ^ k) buf)"
      and cd2: "cached_disk drv k j N img d2 f2"
    proof (cases "num_full_chunks C = 0")
      case True
      with that [of d1] cd1 show thesis by (simp add: f2_def)
    next
      case False
      then have pos: "unat B1 * 2 ^ k = p + ?s" and le: "unat B1 + ?m \<le> N"
        using plan(7,8) by simp_all
      have len: "?m * 2 ^ k \<le> length (drop ?s buf)" using plan(5) buf by simp
      from write_full_chunks_ok [OF cd1 le w len] that cached False show thesis
        by (auto simp: pos f2_def add.commute)
    qed
    define f3 where "f3 = overlay (p + ?s + ?m * 2 ^ k) (take ?e (drop (?s + ?m * 2 ^ k) buf)) f2"
    obtain d3 where s3: "(if end_size C \<noteq> 0
        then write_to_block d2 (B1 + num_full_chunks C) 0 (drop (?s + ?m * 2 ^ k) buf) (end_size C)
        else Some d2) = Some d3"
      and cd3: "cached_disk drv k j N img d3 f3"
    proof (cases "end_size C = 0")
      case True
      with that [of d2] cd2 show thesis by (simp add: f3_def)
    next
      case False
      have u: "unat (B1 + num_full_chunks C) = unat B1 + ?m"
        using plan(9) [OF False] drive_shape_bound [OF shape] by (simp add: unat_add_small)
      then have pos: "unat (B1 + num_full_chunks C) * 2 ^ k + unat (0::u32) = p + ?s + ?m * 2 ^ k"
        using plan(7) False by (simp add: add_mult_distrib)
      have bN: "unat (B1 + num_full_chunks C) < N" using plan(9) [OF False] u by simp
      have z: "unat (0::u32) < 2 ^ k" and ze: "unat (0::u32) + ?e \<le> 2 ^ k" using plan(6) by simp_all
      have len: "?e \<le> length (drop (?s + ?m * 2 ^ k) buf)" using plan(5) buf by simp
      obtain d3 where "write_to_block d2 (B1 + num_full_chunks C) 0 (drop (?s + ?m * 2 ^ k) buf)
          (end_size C) = Some d3" and "cached_disk drv k j N img d3 f3"
        using write_to_block_ok [OF cd2 bN w z ze len] unfolding pos f3_def by blast
      then show thesis using that [of d3] False by simp
    qed
    have "take (unat n) buf = take ?s buf @ take (?m * 2 ^ k) (drop ?s buf) @
        take ?e (drop (?s + ?m * 2 ^ k) buf)"
      unfolding plan(5) [symmetric] by (simp only: take_add append_assoc)
    then have f3: "overlay p (take (unat n) buf) f = f3"
      using plan(5) buf by (simp add: f3_def f2_def f1_def overlay_append add.assoc)
    have nb3: "\<not> supports_byte_access d3"
    proof -
      have "drive_shape drv k j N d3" using cd3 by (simp add: cached_disk_def)
      from supports_byte_access_shape [OF this] supports_byte_access_shape [OF shape] nb
      show ?thesis by simp
    qed
    have "filesystem_write_to_disk d bn off buf n = Some d3"
      using nb ro s1 s2 s3 by (simp only: filesystem_write_to_disk_def C Let_def if_False
          B0_def [symmetric] Option.bind.simps case_prod_conv)
    with cd3 nb3 f3 show ?thesis by (simp add: disk_holds_def p_def)
  qed
qed

section \<open>Whole blocks written past a dirty cache\<close>

lemma chunkify_whole_blocks:
  fixes n :: u32
  assumes k: "k < 32" and n: "0 < unat n" "unat n * 2 ^ k < 2 ^ 32"
  shows "filesystem_chunkify (ucast (0::u32)) (push_bit k n) (2 ^ k - 1) (of_nat k) =
    \<lparr>start_chunk = 0, start_offset = 0, start_size = 0, num_full_chunks = n, end_size = 0\<rparr>"
proof -
  have u: "unat (push_bit k n) = unat n * 2 ^ k" using n(2) by (simp add: unat_shift_left_small)
  have "(2::nat) ^ 32 \<le> 2 ^ (32 + k)" by (intro power_increasing) simp_all
  with n(2) have "unat (ucast (0::u32) :: u64) + unat (push_bit k n) < 2 ^ (32 + k)" by (simp add: u)
  from abs_chunkify [OF k this] have
    "abs_chunks (filesystem_chunkify (ucast (0::u32)) (push_bit k n) (2 ^ k - 1) (of_nat k)) =
      \<lparr>first_chunk = 0, first_offset = 0, first_size = 0, full_chunks = unat n, last_size = 0\<rparr>"
    using n(1) by (simp add: u split_range_def)
  then show ?thesis by (auto simp: abs_chunks_def word_unat_eq_iff intro!: fs_chunks.equality)
qed

text \<open>
  Whole blocks go straight to the device; the cached copies lose their valid flag and keep their
  dirty flag.
\<close>

lemma direct_write_keeps_dirty:
  assumes cd: "cached_disk drv k j N img d f" and wr: "write_blocks drv = Some wr"
    and nb: "\<not> needs_buffer d" and k: "0 < k"
    and n: "1 < unat n" "unat n * 2 ^ k < 2 ^ 32"
  shows "filesystem_write_to_disk d bn 0 buf (push_bit k n) =
    Some ((block_invalidate d bn n)\<lparr>m_drv_impl_data := wr (m_drv_impl_data d) bn buf n\<rparr>)"
proof -
  from cd have shape: "drive_shape drv k j N d" by (simp add: cached_disk_def)
  then have k32: "k < 32" by (simp add: drive_shape_def)
  have byte: "\<not> supports_byte_access d" using supports_byte_access_shape [OF shape] k by simp
  have "filesystem_chunkify (ucast (0::u32)) (push_bit k n) (m_minimum_block_size d - 1)
      (m_blocksz_log2 d) =
    \<lparr>start_chunk = 0, start_offset = 0, start_size = 0, num_full_chunks = n, end_size = 0\<rparr>"
    using chunkify_whole_blocks [OF k32, of n] n shape by (simp add: drive_shape_def)
  moreover have "1 < n" "n \<noteq> 0" using n(1) by (auto simp: word_less_nat_alt)
  ultimately show ?thesis
    using shape wr nb byte
    by (simp add: filesystem_write_to_disk_def drive_write_blocks_def read_only_def
        block_invalidate_def drive_shape_def Let_def)
qed

lemma direct_read_stale:
  assumes cd: "cached_disk drv k j N img d f" and wr: "write_blocks drv = Some wr"
    and nb: "\<not> needs_buffer d" and k: "0 < k"
    and n: "1 < unat n" "unat n * 2 ^ k < 2 ^ 32" and range: "unat bn + unat n \<le> N"
    and b: "b \<in> set (m_data d)" "blk_dirty b"
    and a: "blk_base k b \<le> a" "a < blk_base k b + 2 ^ (k + j)"
      "unat bn * 2 ^ k \<le> a" "a < (unat bn + unat n) * 2 ^ k"
  shows "\<exists>d' d'' xs. filesystem_write_to_disk d bn 0 buf (push_bit k n) = Some d' \<and>
    filesystem_read_from_disk d' bn 0 (push_bit k n) = Some (xs, d'') \<and>
    xs ! (a - unat bn * 2 ^ k) = f a"
proof -
  let ?d = "(block_invalidate d bn n)\<lparr>m_drv_impl_data := wr (m_drv_impl_data d) bn buf n\<rparr>"
  let ?w = "write_blocks drv \<noteq> None"
  note w = direct_write_keeps_dirty [OF cd wr nb k n, of bn buf]
  from cd have dev: "block_device drv (2 ^ k) N img" and shape: "drive_shape drv k j N d"
    and ok: "cache_ok ?w k j N (img (m_drv_impl_data d)) f (m_data d)"
    by (simp_all add: cached_disk_def)
  have k32: "k < 32" using shape by (simp add: drive_shape_def)
  have shape': "drive_shape drv k j N ?d" using shape by (simp add: block_invalidate_def)
  have "\<forall>b \<in> set (m_data ?d). dirty_ok ?w k j N f b"
    using ok by (auto simp: block_invalidate_def cache_ok_def slot_ok_def dirty_ok_def blk_base_def)
  from flush_blocks_ok [OF dev shape' this] obtain m bs where
    fl: "flush_blocks ?d bn n (m_data ?d) = Some (?d\<lparr>m_drv_impl_data := m\<rparr>, bs)"
    and wb: "\<And>b a. b \<in> set (m_data ?d) \<Longrightarrow> blk_dirty b \<Longrightarrow> \<not> skips_block ?d bn n b \<Longrightarrow>
      blk_base k b \<le> a \<Longrightarrow> a < blk_base k b + 2 ^ (k + j) \<Longrightarrow> img m a = f a"
    by blast
  let ?d' = "?d\<lparr>m_drv_impl_data := m, m_data := bs\<rparr>"
  have "unat (blk_index b) + 2 ^ j \<le> N" using ok b by (auto simp: cache_ok_def slot_ok_def)
  from unskipped_overlap [OF shape range this a(3,4,1,2)] have ns: "\<not> skips_block d bn n b" .
  then have "b\<lparr>blk_valid := False\<rparr> \<in> set (m_data ?d)"
    using b(1) by (auto simp: block_invalidate_def)
  moreover have "\<not> skips_block ?d bn n (b\<lparr>blk_valid := False\<rparr>)"
    using ns by (simp add: skips_block_def block_invalidate_def)
  ultimately have ma: "img m a = f a"
    using wb [of "b\<lparr>blk_valid := False\<rparr>" a] b(2) a(1,2) by (simp add: blk_base_def)
  obtain rd where rd: "read_blocks drv = Some rd" using block_device.readable [OF dev] by auto
  have xs: "rd m bn n = map (img m) [unat bn * 2 ^ k..<(unat bn + unat n) * 2 ^ k]"
    by (rule block_device.reads [OF dev rd range])
  have byte: "\<not> supports_byte_access ?d" using supports_byte_access_shape [OF shape'] k by simp
  have C: "filesystem_chunkify (ucast (0::u32)) (push_bit k n) (m_minimum_block_size ?d - 1)
      (m_blocksz_log2 ?d) =
    \<lparr>start_chunk = 0, start_offset = 0, start_size = 0, num_full_chunks = n, end_size = 0\<rparr>"
    using chunkify_whole_blocks [OF k32, of n] n shape' by (simp add: drive_shape_def)
  have "1 < n" "n \<noteq> 0" "\<not> needs_buffer ?d"
    using n(1) nb by (auto simp: word_less_nat_alt needs_buffer_def block_invalidate_def)
  moreover have "block_flush ?d bn n = Some ?d'" using fl by (simp add: block_flush_def)
  moreover have "drive_read_blocks ?d' bn n = Some (rd m bn n)"
    using rd shape' by (simp add: drive_read_blocks_def drive_shape_def)
  ultimately have "filesystem_read_from_disk ?d bn 0 (push_bit k n) = Some (rd m bn n, ?d')"
    by (simp only: filesystem_read_from_disk_def byte C Let_def fs_chunks.simps if_False if_True
        simp_thms Option.bind.simps case_prod_conv add_0_right append_Nil append_Nil2)
  moreover have "rd m bn n ! (a - unat bn * 2 ^ k) = f a"
    using a(3,4) ma by (simp add: xs)
  ultimately show ?thesis using w by blast
qed

lemma small_write_dirty:
  assumes cd: "cached_disk drv k j N img d f" and w: "write_blocks drv \<noteq> None" and k: "0 < k"
    and off: "unat off < 2 ^ k" and bn: "unat bn < N"
  obtains d' where "filesystem_write_to_disk d bn off [v] 1 = Some d'"
    "cached_disk drv k j N img d' (overlay (unat bn * 2 ^ k + unat off) [v] f)"
    "held_dirty k j (m_data d') (unat bn * 2 ^ k + unat off)"
proof -
  from cd have shape: "drive_shape drv k j N d" by (simp add: cached_disk_def)
  then have k32: "k < 32" and drv: "m_driver d = drv" by (simp_all add: drive_shape_def)
  have byte: "\<not> supports_byte_access d" using supports_byte_access_shape [OF shape] k by simp
  have two: "2 \<le> (2::nat) ^ k" using k by (cases k) simp_all
  have "unat bn * 2 ^ k + unat off + unat (1::u32) \<le> unat bn * 2 ^ k + 2 ^ k" using off by simp
  also have "\<dots> = Suc (unat bn) * 2 ^ k" by simp
  also have "\<dots> \<le> N * 2 ^ k" using bn by (intro mult_le_mono1) simp
  finally have range: "unat bn * 2 ^ k + unat off + unat (1::u32) \<le> N * 2 ^ k" .
  define C where "C = filesystem_chunkify (ucast off) 1 (2 ^ k - 1) (of_nat k)"
  have off64: "unat (ucast off :: u64) = unat off"
    by (rule unat_ucast_small) (use unat_u32_bound [of off] in simp)
  have "(2::nat) ^ k < 2 ^ (32 + k)" by (intro power_strict_increasing) simp_all
  with off have "unat off + 1 < 2 ^ (32 + k)" by linarith
  then have lim: "unat (ucast off :: u64) + unat (1::u32) < 2 ^ (32 + k)" by (simp add: off64)
  have abs: "abs_chunks C = split_range (unat off) 1 (2 ^ k)"
    using abs_chunkify [OF k32 lim] by (simp add: C_def off64)
  show thesis
  proof (cases "Suc (unat off) < 2 ^ k")
    case True
    then have C: "C = \<lparr>start_chunk = 0, start_offset = off, start_size = 1, num_full_chunks = 0, end_size = 0\<rparr>"
      using abs two by (auto simp: abs_chunks_def split_range_def word_unat_eq_iff intro!: fs_chunks.equality)
    show thesis
      by (rule write_to_block_ok [OF cd bn w off, of 1 "[v]"])
        (use off that C byte shape w drv in \<open>simp_all add: filesystem_write_to_disk_def Let_def read_only_def
            drive_shape_def flip: C_def\<close>)
  next
    case False
    then have e: "Suc (unat off) = 2 ^ k" using off by linarith
    then have C: "C = \<lparr>start_chunk = 0, start_offset = off, start_size = 1, num_full_chunks = 0, end_size = 0\<rparr>"
      using abs two off by (auto simp: abs_chunks_def split_range_def word_unat_eq_iff intro!: fs_chunks.equality)
    show thesis
      by (rule write_to_block_ok [OF cd bn w off, of 1 "[v]"])
        (use off that C byte shape w drv in \<open>simp_all add: filesystem_write_to_disk_def Let_def read_only_def
            drive_shape_def flip: C_def\<close>)
  qed
qed

end
