(* ===== verification/Devices.thy ===== *)
theory Devices
  imports DrivesCorrect
begin

text \<open>
  \<open>drivers/ramdisk.cpp\<close>: the boot ramdisk, a read-only driver with byte-sized blocks, and a plain
  memory device. Both satisfy the contract of a disk driver.
\<close>

section \<open>The ramdisk\<close>

text \<open>The memory from \<open>base\<close> on, and the size of the disk in it.\<close>

record ramdisk_drive =
  rd_base :: "nat \<Rightarrow> byte"
  rd_size :: u32

text \<open>
  \<open>buf\<close> is what the caller's buffer holds; a read at or after the end leaves it as it is, a read
  that runs over the end copies what lies behind the disk.
\<close>

definition ramdisk_read_blocks :: "ramdisk_drive \<Rightarrow> u32 \<Rightarrow> byte list \<Rightarrow> u32 \<Rightarrow> byte list" where
  "ramdisk_read_blocks rd off buf num_bytes =
     (if off < rd_size rd
      then map (rd_base rd) [unat off..<unat off + unat num_bytes] @ drop (unat num_bytes) buf
      else buf)"

definition ramdisk_driver :: "ramdisk_drive \<Rightarrow> (u32 \<Rightarrow> byte list) \<Rightarrow> unit disk_driver" where
  "ramdisk_driver rd junk =
     \<lparr>read_blocks = Some (\<lambda>_ off n. ramdisk_read_blocks rd off (take (unat n) (junk n)) n),
      write_blocks = None, allocate_buffer = None, free_buffer = None\<rparr>"

lemma ramdisk_in_range:
  assumes "unat off + unat n \<le> unat (rd_size rd)" and "length buf \<le> unat n"
  shows "ramdisk_read_blocks rd off buf n = map (rd_base rd) [unat off..<unat off + unat n]"
proof (cases "off < rd_size rd")
  case True
  with assms(2) show ?thesis by (simp add: ramdisk_read_blocks_def)
next
  case False
  then have "unat (rd_size rd) \<le> unat off" by (simp add: word_less_nat_alt)
  with assms(1) have "unat n = 0" by linarith
  with assms(2) False show ?thesis by (simp add: ramdisk_read_blocks_def)
qed

interpretation ramdisk: block_device "ramdisk_driver rd junk" 1 "unat (rd_size rd)" "\<lambda>_. rd_base rd"
  for rd junk
  by unfold_locales (auto simp: ramdisk_driver_def ramdisk_in_range)

section \<open>A memory device\<close>

definition memory_driver :: "nat \<Rightarrow> (nat \<Rightarrow> byte) disk_driver" where
  "memory_driver bs =
     \<lparr>read_blocks = Some (\<lambda>m lba n. map m [unat lba * bs..<(unat lba + unat n) * bs]),
      write_blocks = Some (\<lambda>m lba buf n. overlay (unat lba * bs) (take (unat n * bs) buf) m),
      allocate_buffer = None, free_buffer = None\<rparr>"

interpretation memory: block_device "memory_driver bs" bs N "\<lambda>m. m" for bs N
  by unfold_locales (auto simp: memory_driver_def)

text \<open>A freshly made drive holds what its device holds.\<close>

lemma cache_ok_fresh:
  assumes "length bs = 8" and "\<forall>b \<in> set bs. \<not> blk_valid b \<and> \<not> blk_dirty b \<and> blk_data b = None"
  shows "cache_ok w k j N g g bs"
  using assms by (auto simp: cache_ok_def slot_ok_def distinct_blocks_def all_set_conv_all_nth)

lemma calc_block_ratio_exp:
  assumes "k < 32"
  shows "calc_block_ratio (2 ^ k) default_cache_size = Some (2 ^ (10 - k))"
proof -
  have c: "default_cache_size = 2 ^ 10" by (simp add: default_cache_size_def)
  have single: "has_single_bit (2 ^ k :: u32)" "has_single_bit (2 ^ 10 :: u32)"
    using assms by (simp_all only: has_single_bit_exp len_num1 len_bit0)
  have uk: "unat (2 ^ k :: u32) = 2 ^ k" by (rule unat_exp_less) (simp add: assms)
  have ut: "unat (2 ^ 10 :: u32) = 2 ^ 10" by (rule unat_exp_less) simp
  have ud: "unat (2 ^ (10 - k) :: u32) = 2 ^ (10 - k)" by (rule unat_exp_less) simp
  have less: "(2 ^ 10 :: u32) < 2 ^ k \<longleftrightarrow> 10 < k"
    by (simp only: word_less_nat_alt uk ut) (rule power_strict_increasing_iff, simp)
  show ?thesis
  proof (cases "k \<le> 10")
    case True
    have d: "(2 ^ 10 :: nat) div 2 ^ k = 2 ^ (10 - k)"
      using True by (intro power_diff [symmetric]) simp_all
    have "(2 ^ k :: nat) dvd 2 ^ 10" using True by (rule le_imp_power_dvd)
    then have m: "(2 ^ 10 :: u32) mod 2 ^ k = 0"
      by (simp only: word_unat_eq_iff unat_mod_distrib uk ut unat_0 dvd_eq_mod_eq_0)
    have q: "(2 ^ 10 :: u32) div 2 ^ k = 2 ^ (10 - k)"
      by (simp only: word_unat_eq_iff unat_div_distrib uk ut ud d)
    from True less single m q show ?thesis
      by (simp only: calc_block_ratio_def c) simp
  next
    case False
    with less single show ?thesis by (simp only: calc_block_ratio_def c) simp
  qed
qed

lemma new_filesystem_drive_ok:
  assumes dev: "block_device drv (2 ^ k) (unat nb) img" and k: "k < 22"
    and whole: "2 ^ (10 - k) dvd unat nb"
    and pair: "(allocate_buffer drv = None) = (free_buffer drv = None)"
    and alloc: "\<forall>al. allocate_buffer drv = Some al \<longrightarrow> (\<forall>n. length (al n) = unat n)"
    and malloc: "\<forall>n. length (mal n) = unat n"
  shows "\<exists>d. new_filesystem_drive drv m (2 ^ k) nb i mal junk = Some d \<and>
    disk_holds drv k (10 - k) (unat nb) img d (img m)"
proof -
  let ?bs = "map (\<lambda>i. \<lparr>blk_index = junk i, blk_data = None, blk_dirty = False, blk_valid = False\<rparr>) [0..<8]"
  let ?d = "\<lparr>m_drv_impl_data = m, m_driver = drv, m_index = i, m_minimum_block_size = 2 ^ k,
      m_blocksz_log2 = of_nat k, m_num_blocks = nb, m_num_blocks_per_cache = 2 ^ (10 - k),
      m_malloc = mal, m_last_index = 0, m_size = 8, m_data = ?bs\<rparr>"
  have k32: "k < 32" using k by simp
  then have "new_filesystem_drive drv m (2 ^ k) nb i mal junk = Some ?d"
    using pair by (simp add: new_filesystem_drive_def calc_block_ratio_exp)
  moreover have "cache_ok (write_blocks drv \<noteq> None) k (10 - k) (unat nb) (img m) (img m) ?bs"
    by (rule cache_ok_fresh) auto
  moreover have "drive_shape drv k (10 - k) (unat nb) ?d"
    using k whole alloc malloc
    by (auto simp: drive_shape_def drive_allocate_buffer_def split: option.split)
  ultimately show ?thesis
    using dev by (intro exI [of _ ?d]) (simp add: disk_holds_def cached_disk_def)
qed

section \<open>Properties of the disk layer\<close>

text \<open>A 32 KiB memory disk with 512-byte blocks and the contents \<open>g\<close>, as \<open>filesystem_add_drive\<close> makes it.\<close>

definition memory_disk :: "(nat \<Rightarrow> byte) \<Rightarrow> (nat \<Rightarrow> byte) filesystem_drive" where
  "memory_disk g = the (new_filesystem_drive (memory_driver 512) g (2 ^ 9) 64 0
     (\<lambda>n. replicate (unat n) 0) (\<lambda>_. 0))"

lemma memory_disk_holds:
  "disk_holds (memory_driver 512) 9 1 64 (\<lambda>m. m) (memory_disk g) g"
proof -
  have "block_device (memory_driver 512) (2 ^ 9) (unat (64::u32)) (\<lambda>m. m)"
    using memory.block_device_axioms [of 512 "unat (64::u32)"] by simp
  from new_filesystem_drive_ok [OF this, of "\<lambda>n. replicate (unat n) 0" g 0 "\<lambda>_. 0"]
  obtain d where "new_filesystem_drive (memory_driver 512) g (2 ^ 9) 64 0
      (\<lambda>n. replicate (unat n) 0) (\<lambda>_. 0) = Some d"
    and "disk_holds (memory_driver 512) 9 (10 - 9) (unat (64::u32)) (\<lambda>m. m) d g"
    by (auto simp: memory_driver_def)
  then show ?thesis by (simp add: memory_disk_def)
qed

definition memory_drive :: "(nat \<Rightarrow> byte) filesystem_drive" where
  "memory_drive = memory_disk (\<lambda>_. 0)"

lemma memory_drive_holds:
  "disk_holds (memory_driver 512) 9 1 64 (\<lambda>m. m) memory_drive (\<lambda>_. 0)"
  unfolding memory_drive_def by (rule memory_disk_holds)

lemma memory_drive_shape: "drive_shape (memory_driver 512) 9 1 64 memory_drive"
  using memory_drive_holds by (simp add: disk_holds_def cached_disk_def)

text \<open>C1: a write through the block cache is seen by every later read: on a drive that holds the
  bytes \<open>f\<close>, a write in range succeeds, and a read of any range then returns \<open>f\<close> with the
  written bytes laid over it, whatever was cached, evicted or dirty in between; the drive holds
  exactly these bytes afterwards. (Byte access, a driver with its own buffers, or fewer than two
  whole blocks: the cases that do not bypass the cache.)\<close>

theorem disk_read_after_write:
  assumes "disk_holds drv k j N img d f" and "write_blocks drv \<noteq> None"
    and "unat n \<le> length buf" and "unat bn * 2 ^ k + unat off + unat n \<le> N * 2 ^ k"
    and "supports_byte_access d \<or> needs_buffer d \<or> unat n < 2 * 2 ^ k"
    and "unat bn' * 2 ^ k + unat off' + unat n' \<le> N * 2 ^ k"
  defines "g \<equiv> overlay (unat bn * 2 ^ k + unat off) (take (unat n) buf) f"
    and "p \<equiv> unat bn' * 2 ^ k + unat off'"
  shows "\<exists>d' d''. filesystem_write_to_disk d bn off buf n = Some d' \<and>
    filesystem_read_from_disk d' bn' off' n' = Some (map g [p..<p + unat n'], d'') \<and>
    disk_holds drv k j N img d'' g"
proof -
  obtain d' where w: "filesystem_write_to_disk d bn off buf n = Some d'"
    and dh: "disk_holds drv k j N img d' g"
    using filesystem_write_to_disk_ok [OF assms(1-5)] unfolding g_def by blast
  from filesystem_read_from_disk_ok [OF dh assms(6)] w show ?thesis unfolding p_def by blast
qed

theorem disk_read_after_write_witness:
  "\<exists>d' d''. filesystem_write_to_disk memory_drive 3 500 (replicate 30 7) 30 = Some d' \<and>
     filesystem_read_from_disk d' 4 0 10 = Some (replicate 10 7, d'')"
proof -
  have s: "\<not> supports_byte_access memory_drive" "m_driver memory_drive = memory_driver 512"
    using supports_byte_access_shape [OF memory_drive_shape] memory_drive_shape
    by (simp_all add: drive_shape_def)
  have *: "map (overlay (3 * 512 + 500) (replicate 30 7) (\<lambda>_. 0 :: byte)) [4 * 512..<4 * 512 + 10] =
      replicate 10 7"
  proof -
    have r: "replicate 10 (7 :: byte) = [7, 7, 7, 7, 7, 7, 7, 7, 7, 7]"
      by (simp add: numeral_eq_Suc)
    show ?thesis unfolding r by (simp add: overlay_def upt_rec)
  qed
  show ?thesis
    using disk_read_after_write [OF memory_drive_holds, of 30 "replicate 30 7" 3 500 4 0 10] *
    by (simp add: memory_driver_def) blast
qed

text \<open>C2: a bulk write can be lost. On a drive whose driver has no buffers of its own, write one byte
  through the cache and then overwrite that block and its successors with two or more whole
  blocks: reading them back returns the old byte, whatever the bulk write contained, because
  \<open>block_invalidate\<close> drops the valid flag of the cached block but not its dirty flag, and
  \<open>block_flush\<close> writes it back over the new data.\<close>

theorem bulk_write_lost:
  assumes "disk_holds drv k j N img d f" and "write_blocks drv \<noteq> None" and "\<not> needs_buffer d"
    and "0 < k" and "1 < unat n" and "unat n * 2 ^ k < 2 ^ 32" and "unat bn + unat n \<le> N"
    and "unat off < 2 ^ k"
  shows "\<exists>d1 d2 d3 xs. filesystem_write_to_disk d bn off [v] 1 = Some d1 \<and>
    filesystem_write_to_disk d1 bn 0 buf (push_bit k n) = Some d2 \<and>
    filesystem_read_from_disk d2 bn 0 (push_bit k n) = Some (xs, d3) \<and> xs ! unat off = v"
proof -
  let ?p = "unat bn * 2 ^ k + unat off"
  have cd: "cached_disk drv k j N img d f" using assms(1) by (simp add: disk_holds_def)
  obtain wr where wr: "write_blocks drv = Some wr" using assms(2) by auto
  obtain d1 where w1: "filesystem_write_to_disk d bn off [v] 1 = Some d1"
    and cd1: "cached_disk drv k j N img d1 (overlay ?p [v] f)"
    and dirty: "held_dirty k j (m_data d1) ?p"
    using small_write_dirty [OF cd assms(2,4,8), of bn v] assms(5,7) by auto
  from dirty obtain b where b: "b \<in> set (m_data d1)" "blk_dirty b" "blk_base k b \<le> ?p"
    "?p < blk_base k b + 2 ^ (k + j)" by (auto simp: held_dirty_def)
  have nb: "\<not> needs_buffer d1"
    using assms(3) cd cd1 by (simp add: cached_disk_def drive_shape_def needs_buffer_def)
  have "1 * 2 ^ k \<le> unat n * 2 ^ k" using assms(5) by (intro mult_le_mono1) simp
  then have "?p < (unat bn + unat n) * 2 ^ k"
    using assms(8) unfolding add_mult_distrib by linarith
  from direct_read_stale [OF cd1 wr nb assms(4-7) b _ this, of buf] w1
  show ?thesis by (auto simp: overlay_def)
qed

theorem bulk_write_lost_witness:
  "\<exists>d1 d2 d3 xs. filesystem_write_to_disk memory_drive 2 5 [7] 1 = Some d1 \<and>
    filesystem_write_to_disk d1 2 0 (replicate 1024 9) 1024 = Some d2 \<and>
    filesystem_read_from_disk d2 2 0 1024 = Some (xs, d3) \<and> xs ! 5 = 7"
proof -
  have "\<not> needs_buffer memory_drive"
    using memory_drive_shape by (simp add: needs_buffer_def drive_shape_def memory_driver_def)
  moreover have "push_bit 9 (2::u32) = 1024" by (simp add: push_bit_eq_mult)
  ultimately show ?thesis
    using bulk_write_lost [OF memory_drive_holds, of 2 2 5 7 "replicate 1024 9"]
    by (simp add: memory_driver_def)
qed

end
