(* ===== verification/FatTableCorrect.thy ===== *)
theory FatTableCorrect
  imports FatTable Devices
begin

text \<open>
  The file allocation table as a map from clusters to entries. \<open>table_store\<close> is what the table code
  uses of the disk; \<open>fat_view\<close> reads an entry off the bytes of the table; \<open>fat_get_next_cluster\<close>
  returns it and \<open>fat_set_next_cluster\<close> changes it and no other entry, in all layouts. Chains are
  followed, linked and released accordingly.
\<close>

section \<open>Entries as bytes\<close>

definition entry_len :: "fat_type \<Rightarrow> nat" where
  "entry_len t = (if t = FAT_12 then 2 else unat (fat_entry_size t))"

definition entry_off :: "fat_type \<Rightarrow> u32 \<Rightarrow> u32" where
  "entry_off t c = (if t = FAT_12 then c + c div 2 else c * fat_entry_size t)"

definition entry_pos :: "fat_type \<Rightarrow> u32 \<Rightarrow> nat" where
  "entry_pos t c = (if t = FAT_12 then unat c + unat c div 2 else unat c * entry_len t)"

definition w16 :: "bytes \<Rightarrow> u16" where "w16 xs = of_nat (le_nat xs)"

definition fat_entry :: "fat_type \<Rightarrow> bytes \<Rightarrow> u32 \<Rightarrow> u32" where
  "fat_entry t xs c =
     (if t = FAT_12
      then if c AND 1 \<noteq> 0 then ucast (drop_bit 4 (w16 xs))
           else ucast (w16 xs) AND fat_entry_mask FAT_12
      else of_nat (le_nat xs) AND fat_entry_mask t)"

definition fat_view :: "fat_type \<Rightarrow> nat \<Rightarrow> (nat \<Rightarrow> byte) \<Rightarrow> u32 \<Rightarrow> u32" where
  "fat_view t p f c = fat_entry t (map f [p + entry_pos t c..<p + entry_pos t c + entry_len t]) c"

text \<open>The bytes \<open>fat_set_next_cluster\<close> writes.\<close>

definition entry_update :: "fat_type \<Rightarrow> u32 \<Rightarrow> u32 \<Rightarrow> bytes \<Rightarrow> bytes" where
  "entry_update t c v xs =
     (if t = FAT_12
      then le_bytes 2 (unat (if c AND 1 \<noteq> 0
             then (w16 xs AND 0x000F) OR ucast (push_bit 4 v)
             else ucast ((ucast (w16 xs) AND 0xF000) OR (v AND 0x0FFF))))
      else le_bytes (entry_len t) (unat (v AND fat_entry_mask t)))"

lemma length_entry_update [simp]: "length (entry_update t c v xs) = entry_len t"
  by (simp add: entry_update_def entry_len_def)

lemma entry_len_simps [simp]:
  "entry_len FAT_12 = 2" "entry_len FAT_16 = 2" "entry_len FAT_32 = 4" "entry_len exFAT = 4"
  by (simp_all add: entry_len_def fat_entry_size_def)

lemma entry_len_le: "entry_len t \<le> 4"
  by (cases t) (simp_all add: entry_len_def fat_entry_size_def)

text \<open>The clusters whose entries lie in a table of \<open>sz\<close> bytes.\<close>

definition in_table :: "fat_type \<Rightarrow> nat \<Rightarrow> u32 \<Rightarrow> bool" where
  "in_table t sz c \<longleftrightarrow> entry_pos t c + entry_len t \<le> sz"

lemma entry_off_pos:
  assumes "in_table t sz c" and "sz < 2 ^ 32" and "t \<noteq> FAT_UNKNOWN"
  shows "unat (entry_off t c) = entry_pos t c"
proof (cases "t = FAT_12")
  case True
  then have "unat c + unat c div 2 < 2 ^ 32" using assms(1,2) by (simp add: in_table_def entry_pos_def)
  with True show ?thesis by (simp add: entry_off_def entry_pos_def unat_add_small unat_div_distrib)
next
  case False
  then have "unat c * entry_len t < 2 ^ 32" using assms(1,2) by (simp add: in_table_def entry_pos_def)
  moreover have "unat (fat_entry_size t) = entry_len t" using False by (simp add: entry_len_def)
  ultimately show ?thesis using False by (simp add: entry_off_def entry_pos_def unat_word_ariths)
qed

section \<open>Bits of the 12-bit layout\<close>

text \<open>Bit \<open>i\<close> of a byte array.\<close>

definition fbit :: "(nat \<Rightarrow> byte) \<Rightarrow> nat \<Rightarrow> bool" where
  "fbit f i = bit (f (i div 8)) (i mod 8)"

lemma word16_bits:
  "bit (w16 [a, b]) n \<longleftrightarrow> (if n < 8 then bit a n else bit b (n - 8))"
proof -
  have "w16 [a, b] = ucast a + push_bit 8 (ucast b)"
    by (simp add: w16_def push_bit_eq_mult)
  also have "\<dots> = ucast a OR push_bit 8 (ucast b)"
  proof -
    have "(ucast a :: u16) AND push_bit 8 (ucast b) = 0"
      by (rule bit_word_eqI) (auto simp: bit_simps dest: bit_imp_le_length)
    then show ?thesis using word_plus_and_or [of "ucast a :: u16" "push_bit 8 (ucast b)"] by simp
  qed
  finally show ?thesis
    by (auto simp: bit_simps dest: bit_imp_le_length)
qed

lemma word16_fbit:
  assumes "n < 16"
  shows "bit (w16 (map f [q..<q + 2])) n \<longleftrightarrow> fbit f (8 * q + n)"
proof -
  have "[q..<q + 2] = [q, q + 1]" by (simp add: upt_rec)
  then have "bit (w16 (map f [q..<q + 2])) n \<longleftrightarrow>
      (if n < 8 then bit (f q) n else bit (f (q + 1)) (n - 8))"
    by (simp only: list.map word16_bits)
  moreover have "(8 * q + n) div 8 = (if n < 8 then q else q + 1)"
    using assms by (cases "n < 8") (simp_all add: le_div_geq)
  moreover have "(8 * q + n) mod 8 = (if n < 8 then n else n - 8)"
    using assms by (auto simp: mod_if [of n 8])
  ultimately show ?thesis by (simp add: fbit_def)
qed

lemma odd_word: "c AND 1 \<noteq> 0 \<longleftrightarrow> odd (unat c)" for c :: u32
  by (simp add: and_one_eq flip: unat_mod_distrib, simp add: odd_iff_mod_2_eq_one word_unat_eq_iff unat_mod_distrib)

lemma fat12_start: "8 * (p + entry_pos FAT_12 c) = 8 * p + 12 * unat c - (if odd (unat c) then 4 else 0)"
  by (auto simp: entry_pos_def elim!: evenE oddE)

lemma fat_view_12_bit:
  "bit (fat_view FAT_12 p f c) n \<longleftrightarrow> n < 12 \<and> fbit f (8 * p + 12 * unat c + n)"
proof -
  let ?q = "p + entry_pos FAT_12 c"
  let ?w = "w16 (map f [?q..<?q + 2])"
  have w: "bit ?w m \<longleftrightarrow> m < 16 \<and> fbit f (8 * ?q + m)" for m
  proof -
    have "bit ?w m \<Longrightarrow> m < 16" using bit_imp_le_length [of ?w m] by simp
    with word16_fbit [of m f ?q] show ?thesis by blast
  qed
  show ?thesis
  proof (cases "odd (unat c)")
    case True
    then have q: "8 * ?q + (n + 4) = 8 * p + 12 * unat c + n"
      using fat12_start [of p c] by (auto elim!: oddE)
    have "fat_view FAT_12 p f c = ucast (drop_bit 4 ?w)"
      using True by (simp add: fat_view_def fat_entry_def odd_word)
    then have "bit (fat_view FAT_12 p f c) n \<longleftrightarrow> bit ?w (n + 4)"
      by (auto simp: bit_simps add.commute dest: bit_imp_le_length)
    then show ?thesis using w [of "n + 4"] unfolding q by simp
  next
    case False
    have "fat_view FAT_12 p f c = ucast ?w AND mask 12"
      using False by (simp add: fat_view_def fat_entry_def odd_word fat_entry_mask_def mask_eq_exp_minus_1)
    then have "bit (fat_view FAT_12 p f c) n \<longleftrightarrow> n < 12 \<and> bit ?w n"
      by (auto simp: bit_simps dest: bit_imp_le_length)
    then show ?thesis using w [of n] fat12_start [of p c] False by auto
  qed
qed

lemma le_bytes_word16:
  "le_bytes 2 (unat (w :: u16)) = [ucast w, ucast (drop_bit 8 w)]"
proof -
  have "unat w div 256 = unat (drop_bit 8 w)" by (simp add: unat_drop_bit_eq drop_bit_eq_div unat_div_distrib)
  then show ?thesis by (simp add: numeral_2_eq_2)
qed

lemma fbit_overlay_word16:
  "fbit (overlay q (le_bytes 2 (unat (w :: u16))) f) i =
     (if 8 * q \<le> i \<and> i < 8 * q + 16 then bit w (i - 8 * q) else fbit f i)"
proof -
  have d: "q \<le> i div 8 \<longleftrightarrow> 8 * q \<le> i" "i div 8 < q + 2 \<longleftrightarrow> i < 8 * q + 16" by auto
  show ?thesis
  proof (cases "8 * q \<le> i \<and> i < 8 * q + 16")
    case True
    define m where "m = i - 8 * q"
    from True have "8 * q \<le> i" "i < 8 * q + 16" by simp_all
    then have i: "i = 8 * q + m" and m: "m < 16" unfolding m_def by linarith+
    have "(8 * q + m) div 8 - q = (if m < 8 then 0 else 1)" "m mod 8 = (if m < 8 then m else m - 8)"
      using m by (auto simp: mod_if [of m 8] le_div_geq)
    then show ?thesis
      using d m by (auto simp: fbit_def overlay_def le_bytes_word16 i bit_simps)
  next
    case False
    then show ?thesis using d by (auto simp: fbit_def overlay_def)
  qed
qed

lemma in_window: "\<not> (q \<le> i \<and> i < q + n) \<or> (\<exists>m. i = q + m \<and> m < n)" for q i n :: nat
  by presburger

text \<open>Storing a 12-bit entry changes the bits of that entry and no others.\<close>

lemma fbit_update_12:
  assumes "f' = overlay (p + entry_pos FAT_12 c)
      (entry_update FAT_12 c v (map f [p + entry_pos FAT_12 c..<p + entry_pos FAT_12 c + 2])) f"
  shows "fbit f' i = (if 8 * p + 12 * unat c \<le> i \<and> i < 8 * p + 12 * unat c + 12
    then bit v (i - (8 * p + 12 * unat c)) else fbit f i)"
proof -
  let ?q = "p + entry_pos FAT_12 c"
  define w where "w = (w16 (map f [?q..<?q + 2]))"
  have w: "bit w m \<longleftrightarrow> fbit f (8 * ?q + m)" if "m < 16" for m
    unfolding w_def using that by (rule word16_fbit)
  show ?thesis
  proof (cases "odd (unat c)")
    case True
    let ?w = "(w AND 0x000F) OR ucast (push_bit 4 v)"
    have f': "f' = overlay ?q (le_bytes 2 (unat ?w)) f"
      unfolding assms entry_update_def w_def using True by (simp only: odd_word if_True simp_thms)
    have "bit ?w m \<longleftrightarrow> (if m < 4 then bit w m else bit v (m - 4))" if "m < 16" for m
    proof -
      have k: "(0x000F :: u16) = mask 4" by (simp add: mask_eq_exp_minus_1)
      show ?thesis unfolding k using that
        by (auto simp: bit_and_iff bit_or_iff bit_mask_iff bit_push_bit_iff bit_unsigned_iff)
    qed
    with w have b: "bit ?w m \<longleftrightarrow> (if 4 \<le> m then bit v (m - 4) else fbit f (8 * ?q + m))" if "m < 16" for m
      using that by simp
    have s: "8 * p + 12 * unat c = 8 * ?q + 4"
      using fat12_start [of p c] True odd_pos [of "unat c"] by simp
    show ?thesis unfolding s using in_window [of "8 * ?q" i 16] b by (auto simp: f' fbit_overlay_word16)
  next
    case False
    let ?w = "ucast ((ucast w AND 0xF000) OR (v AND 0x0FFF)) :: u16"
    have f': "f' = overlay ?q (le_bytes 2 (unat ?w)) f"
      unfolding assms entry_update_def w_def using False by (simp only: odd_word if_True if_False simp_thms)
    have "bit ?w m \<longleftrightarrow> (if m < 12 then bit v m else bit w m)" if "m < 16" for m
    proof -
      have k: "(0xF000 :: u32) = push_bit 12 (mask 4)" "(0x0FFF :: u32) = mask 12"
        by (simp_all add: mask_eq_exp_minus_1)
      show ?thesis unfolding k using that
        by (auto simp: bit_and_iff bit_or_iff bit_mask_iff bit_push_bit_iff bit_unsigned_iff)
    qed
    with w have b: "bit ?w m \<longleftrightarrow> (if m < 12 then bit v m else fbit f (8 * ?q + m))" if "m < 16" for m
      using that by simp
    have s: "8 * p + 12 * unat c = 8 * ?q" using fat12_start [of p c] False by simp
    show ?thesis unfolding s using in_window [of "8 * ?q" i 16] b by (auto simp: f' fbit_overlay_word16)
  qed
qed

section \<open>Setting an entry\<close>

lemma fat_entry_mask_bound:
  assumes "t \<noteq> FAT_12" and "t \<noteq> FAT_UNKNOWN"
  shows "unat (v AND fat_entry_mask t) < 256 ^ entry_len t"
proof -
  have "v AND fat_entry_mask t = take_bit (if t = FAT_16 then 16 else if t = FAT_32 then 28 else 32) v"
    using assms by (cases t) (simp_all add: fat_entry_mask_def take_bit_eq_mask mask_eq_exp_minus_1)
  then have "unat (v AND fat_entry_mask t) < 2 ^ (if t = FAT_16 then 16 else if t = FAT_32 then 28 else 32)"
    by (simp add: unsigned_take_bit_eq take_bit_nat_def)
  then show ?thesis using assms by (cases t) simp_all
qed

lemma entry_pos_disjoint:
  assumes "t \<noteq> FAT_12" and "c' \<noteq> c"
  shows "entry_pos t c' + entry_len t \<le> entry_pos t c \<or> entry_pos t c + entry_len t \<le> entry_pos t c'"
proof -
  have "unat c' \<noteq> unat c" using assms(2) by (simp add: word_unat_eq_iff)
  then have "Suc (unat c') \<le> unat c \<or> Suc (unat c) \<le> unat c'" by linarith
  then have "Suc (unat c') * entry_len t \<le> unat c * entry_len t \<or> Suc (unat c) * entry_len t \<le> unat c' * entry_len t"
    by (metis mult_le_mono1)
  then show ?thesis using assms(1) by (simp add: entry_pos_def add.commute)
qed

text \<open>The value of the entry and of all others after the write.\<close>

lemma fat_view_update:
  assumes "t \<noteq> FAT_UNKNOWN"
    and f': "f' = overlay (p + entry_pos t c)
      (entry_update t c v (map f [p + entry_pos t c..<p + entry_pos t c + entry_len t])) f"
  shows "fat_view t p f' c' = (if c' = c then v AND fat_entry_mask t else fat_view t p f c')"
proof (cases "t = FAT_12")
  case True
  have upd: "fbit f' i = (if 8 * p + 12 * unat c \<le> i \<and> i < 8 * p + 12 * unat c + 12
      then bit v (i - (8 * p + 12 * unat c)) else fbit f i)" for i
    by (rule fbit_update_12) (use f' True in simp)
  have ne: "unat c' \<noteq> unat c" if "c' \<noteq> c" using that by (simp add: word_unat_eq_iff)
  have "bit (fat_view t p f' c') n \<longleftrightarrow> bit (if c' = c then v AND mask 12 else fat_view t p f c') n" for n
  proof (cases "c' = c")
    case True
    then show ?thesis using \<open>t = FAT_12\<close> by (auto simp: fat_view_12_bit upd bit_simps)
  next
    case False
    from ne [OF this] have "\<not> (8 * p + 12 * unat c \<le> 8 * p + 12 * unat c' + n \<and>
        8 * p + 12 * unat c' + n < 8 * p + 12 * unat c + 12)" if "n < 12"
      using that by linarith
    then show ?thesis using False \<open>t = FAT_12\<close> by (auto simp: fat_view_12_bit upd)
  qed
  then have "fat_view t p f' c' = (if c' = c then v AND mask 12 else fat_view t p f c')"
    by (intro bit_word_eqI) blast
  then show ?thesis using True by (simp add: fat_entry_mask_def mask_eq_exp_minus_1)
next
  case False
  show ?thesis
  proof (cases "c' = c")
    case True
    have "map f' [p + entry_pos t c..<p + entry_pos t c + entry_len t] =
        le_bytes (entry_len t) (unat (v AND fat_entry_mask t))"
      using map_overlay_same [of "p + entry_pos t c" "le_bytes (entry_len t) (unat (v AND fat_entry_mask t))" f] False
      by (simp add: f' entry_update_def)
    then show ?thesis
      using True False fat_entry_mask_bound [OF False assms(1), of v]
      by (simp add: fat_view_def fat_entry_def and.assoc)
  next
    case False
    have "map f' [p + entry_pos t c'..<p + entry_pos t c' + entry_len t] =
        map f [p + entry_pos t c'..<p + entry_pos t c' + entry_len t]"
      unfolding f' by (rule map_overlay_disjoint) (use entry_pos_disjoint [OF \<open>t \<noteq> FAT_12\<close> False] in auto)
    then show ?thesis using False by (simp only: fat_view_def if_False)
  qed
qed

section \<open>The contract of the table's storage\<close>

text \<open>
  \<open>holds fd f\<close>: the volume \<open>fd\<close> has the bytes \<open>f\<close>, and its table, of layout \<open>t\<close>, is the \<open>sz\<close> bytes from \<open>p\<close>.
\<close>

locale table_store =
  fixes holds :: "fat_type \<Rightarrow> nat \<Rightarrow> nat \<Rightarrow> 'm fat_volume \<Rightarrow> (nat \<Rightarrow> byte) \<Rightarrow> bool"
  assumes kind: "holds t p sz fd f \<Longrightarrow> fs_type (fs_impl_data fd) = t \<and> t \<noteq> FAT_UNKNOWN \<and> sz < 2 ^ 32"
    and table_start: "holds t p sz fd f \<Longrightarrow> t = FAT_12 \<Longrightarrow>
      reserved_sectors (fs_impl_data fd) = fat_block (fs_impl_data fd)"
    and reads_table: "holds t p sz fd f \<Longrightarrow> unat off + unat n \<le> sz \<Longrightarrow>
      \<exists>fd'. filesystem_read fd (fat_block (fs_impl_data fd)) off n =
          Some (map f [p + unat off..<p + unat off + unat n], fd') \<and>
        holds t p sz fd' f \<and> fs_impl_data fd' = fs_impl_data fd"
    and writes_table: "holds t p sz fd f \<Longrightarrow> unat off + unat n \<le> sz \<Longrightarrow> unat n \<le> 4 \<Longrightarrow> length buf = unat n \<Longrightarrow>
      \<exists>fd'. filesystem_write fd (fat_block (fs_impl_data fd)) off buf n = Some fd' \<and>
        holds t p sz fd' (overlay (p + unat off) buf f) \<and> fs_impl_data fd' = fs_impl_data fd"
    and free_list: "holds t p sz fd f \<Longrightarrow>
      holds t p sz (fd\<lparr>fs_impl_data := (fs_impl_data fd)\<lparr>free_clusters := l\<rparr>\<rparr>) f"
begin

lemma get_entry:
  assumes h: "holds t p sz fd f" and c: "in_table t sz c"
  shows "\<exists>fd'. fat_get_next_cluster c fd = Some (fat_view t p f c, fd') \<and> holds t p sz fd' f \<and>
    fs_impl_data fd' = fs_impl_data fd"
proof -
  from kind [OF h] have t: "fs_type (fs_impl_data fd) = t" "t \<noteq> FAT_UNKNOWN" and sz: "sz < 2 ^ 32" by simp_all
  have off: "unat (entry_off t c) = entry_pos t c" by (rule entry_off_pos [OF c sz t(2)])
  let ?n = "of_nat (entry_len t) :: u32"
  have n: "unat ?n = entry_len t" by (cases t) (simp_all add: entry_len_def fat_entry_size_def)
  from c have r: "unat (entry_off t c) + unat ?n \<le> sz" by (simp add: in_table_def off n)
  from reads_table [OF h r] obtain fd' where
    rd: "filesystem_read fd (fat_block (fs_impl_data fd)) (entry_off t c) ?n =
      Some (map f [p + entry_pos t c..<p + entry_pos t c + entry_len t], fd')"
    and "holds t p sz fd' f" "fs_impl_data fd' = fs_impl_data fd" by (auto simp: off n)
  moreover have "fat_get_next_cluster c fd = Some (fat_view t p f c, fd')"
    using rd t
    by (cases t) (simp_all add: fat_get_next_cluster_def fat_get_next_cluster_12_def fat_get_next_cluster_t_def
        entry_off_def fat_view_def fat_entry_def w16_def fat_entry_size_def del: of_nat_add)
  ultimately show ?thesis by blast
qed

lemma set_entry:
  assumes h: "holds t p sz fd f" and c: "in_table t sz c"
  shows "\<exists>fd' f'. fat_set_next_cluster t c v fd = Some fd' \<and> holds t p sz fd' f' \<and>
    fs_impl_data fd' = fs_impl_data fd \<and>
    (\<forall>c'. fat_view t p f' c' = (if c' = c then v AND fat_entry_mask t else fat_view t p f c'))"
proof -
  from kind [OF h] have t: "t \<noteq> FAT_UNKNOWN" and sz: "sz < 2 ^ 32" by simp_all
  have off: "unat (entry_off t c) = entry_pos t c" by (rule entry_off_pos [OF c sz t])
  let ?n = "of_nat (entry_len t) :: u32" and ?q = "p + entry_pos t c"
  have n: "unat ?n = entry_len t" by (cases t) (simp_all add: entry_len_def fat_entry_size_def)
  from c have r: "unat (entry_off t c) + unat ?n \<le> sz" by (simp add: in_table_def off n)
  define xs where "xs = map f [?q..<?q + entry_len t]"
  define f' where "f' = overlay ?q (entry_update t c v xs) f"
  have upd: "fat_view t p f' c' = (if c' = c then v AND fat_entry_mask t else fat_view t p f c')" for c'
    by (rule fat_view_update [OF t]) (simp add: f'_def xs_def)
  have len: "unat ?n \<le> 4" using entry_len_le [of t] n by simp
  show ?thesis
  proof (cases "t = FAT_12")
    case True
    with table_start [OF h] have blk: "reserved_sectors (fs_impl_data fd) = fat_block (fs_impl_data fd)" by simp
    from reads_table [OF h r] obtain fd1 where rd: "filesystem_read fd (fat_block (fs_impl_data fd)) (entry_off t c) ?n =
        Some (xs, fd1)" and h1: "holds t p sz fd1 f" and i1: "fs_impl_data fd1 = fs_impl_data fd"
      by (auto simp: off n xs_def)
    from writes_table [OF h1 r len, of "entry_update t c v xs"] i1 obtain fd2 where
      "filesystem_write fd1 (fat_block (fs_impl_data fd)) (entry_off t c) (entry_update t c v xs) ?n = Some fd2"
      and "holds t p sz fd2 f'" "fs_impl_data fd2 = fs_impl_data fd" by (auto simp: off n f'_def)
    with rd upd True blk show ?thesis
      by (intro exI [of _ fd2] exI [of _ f'])
        (auto simp: fat_set_next_cluster_def fat_set_next_cluster_12_def entry_off_def entry_update_def w16_def Let_def)
  next
    case False
    from writes_table [OF h r len, of "entry_update t c v xs"] obtain fd2 where
      "filesystem_write fd (fat_block (fs_impl_data fd)) (entry_off t c) (entry_update t c v xs) ?n = Some fd2"
      and "holds t p sz fd2 f'" "fs_impl_data fd2 = fs_impl_data fd" by (auto simp: off n f'_def)
    with upd False show ?thesis
      by (intro exI [of _ fd2] exI [of _ f'])
        (auto simp: fat_set_next_cluster_def fat_set_next_cluster_t_def entry_off_def entry_update_def entry_len_def Let_def)
  qed
qed

end

section \<open>Chains\<close>

text \<open>\<open>links m c xs\<close>: following the entries from \<open>c\<close> visits the clusters \<open>xs\<close>.\<close>

fun links :: "(u32 \<Rightarrow> u32) \<Rightarrow> u32 \<Rightarrow> u32 list \<Rightarrow> bool" where
  "links m c [] \<longleftrightarrow> True"
| "links m c (x # xs) \<longleftrightarrow> m c = x \<and> links m x xs"

lemma links_cong: "(\<And>c'. c' \<in> set (butlast (c # xs)) \<Longrightarrow> m' c' = m c') \<Longrightarrow> links m' c xs = links m c xs"
  by (induction xs arbitrary: c) auto

text \<open>The table after linking a run of \<open>n\<close> clusters behind \<open>previous\<close>.\<close>

fun run_linked :: "(u32 \<Rightarrow> u32) \<Rightarrow> u32 \<Rightarrow> nat \<Rightarrow> u32 \<Rightarrow> u32" where
  "run_linked m c 0 = m"
| "run_linked m c (Suc n) = run_linked (m(c := c + 1)) (c + 1) n"

lemma run_linked_outside:
  "(\<And>i. i < n \<Longrightarrow> c' \<noteq> c + of_nat i) \<Longrightarrow> run_linked m c n c' = m c'"
proof (induction n arbitrary: m c)
  case (Suc n)
  have "c' \<noteq> c + 1 + of_nat i" if "i < n" for i
    using Suc.prems [of "Suc i"] that by (simp add: ac_simps)
  then have "run_linked (m(c := c + 1)) (c + 1) n c' = (m(c := c + 1)) c'" by (rule Suc.IH)
  moreover have "c' \<noteq> c" using Suc.prems [of 0] by simp
  ultimately show ?case by simp
qed simp

context table_store
begin

lemma relative_ok:
  "holds t p sz fd f \<Longrightarrow> links (fat_view t p f) c xs \<Longrightarrow>
   (\<And>x. x \<in> set xs \<Longrightarrow> x < eof_value (fs_impl_data fd)) \<Longrightarrow>
   (\<And>x. x \<in> set (butlast (c # xs)) \<Longrightarrow> in_table t sz x) \<Longrightarrow>
   \<exists>fd'. relative_cluster (length xs) c fd = Some (List.last (c # xs), fd') \<and> holds t p sz fd' f \<and>
     fs_impl_data fd' = fs_impl_data fd"
proof (induction xs arbitrary: c fd)
  case (Cons x xs)
  have c: "in_table t sz c" using Cons.prems(4) by simp
  from get_entry [OF Cons.prems(1) c] Cons.prems(2) obtain fd1 where
    g: "fat_get_next_cluster c fd = Some (x, fd1)" and h1: "holds t p sz fd1 f"
    and i1: "fs_impl_data fd1 = fs_impl_data fd" by auto
  have "x < eof_value (fs_impl_data fd)" using Cons.prems(3) by simp
  moreover have "\<exists>fd'. relative_cluster (length xs) x fd1 = Some (List.last (x # xs), fd') \<and> holds t p sz fd' f \<and>
     fs_impl_data fd' = fs_impl_data fd1"
    using Cons.prems by (intro Cons.IH [OF h1]) (auto simp: i1 split: if_splits)
  ultimately show ?case using g i1 by auto
qed auto

lemma link_run_ok:
  "holds t p sz fd f \<Longrightarrow> (\<And>i. i < n \<Longrightarrow> in_table t sz (c + of_nat i)) \<Longrightarrow>
   (\<And>i. i < n \<Longrightarrow> (c + of_nat i + 1) AND fat_entry_mask t = c + of_nat i + 1) \<Longrightarrow>
   \<exists>fd' f'. link_run t c n fd = Some fd' \<and> holds t p sz fd' f' \<and> fs_impl_data fd' = fs_impl_data fd \<and>
     fat_view t p f' = run_linked (fat_view t p f) c n"
proof (induction n arbitrary: c fd f)
  case (Suc n)
  have c: "in_table t sz c" using Suc.prems(2) [of 0] by simp
  from set_entry [OF Suc.prems(1) c, of "c + 1"] obtain fd1 f1 where
    s: "fat_set_next_cluster t c (c + 1) fd = Some fd1" and h1: "holds t p sz fd1 f1"
    and i1: "fs_impl_data fd1 = fs_impl_data fd"
    and v1: "\<forall>c'. fat_view t p f1 c' = (if c' = c then (c + 1) AND fat_entry_mask t else fat_view t p f c')" by blast
  have v: "fat_view t p f1 = (fat_view t p f)(c := c + 1)"
    using v1 Suc.prems(3) [of 0] by auto
  have "\<exists>fd' f'. link_run t (c + 1) n fd1 = Some fd' \<and> holds t p sz fd' f' \<and> fs_impl_data fd' = fs_impl_data fd1 \<and>
     fat_view t p f' = run_linked (fat_view t p f1) (c + 1) n"
  proof (rule Suc.IH [OF h1])
    fix i assume "i < n"
    then show "in_table t sz (c + 1 + of_nat i)" "c + 1 + of_nat i + 1 AND fat_entry_mask t = c + 1 + of_nat i + 1"
      using Suc.prems(2,3) [of "Suc i"] by (simp_all add: ac_simps)
  qed
  then show ?case using s i1 v by auto
qed auto

lemma write_to_fat_ok:
  assumes h: "holds t p sz fd f" and n: "n \<noteq> 0"
    and prev: "prev \<noteq> 0 \<Longrightarrow> in_table t sz prev"
    and run: "\<And>i. i < unat n - 1 \<Longrightarrow> in_table t sz (c + of_nat i)"
    and mask: "\<And>i. i < unat n - 1 \<Longrightarrow> (c + of_nat i + 1) AND fat_entry_mask t = c + of_nat i + 1"
  shows "\<exists>fd' f'. write_to_fat prev c n fd = Some (c + n - 1, fd') \<and> holds t p sz fd' f' \<and>
    fs_impl_data fd' = fs_impl_data fd \<and>
    fat_view t p f' = run_linked (if prev = 0 then fat_view t p f
        else (fat_view t p f)(prev := c AND fat_entry_mask t)) c (unat n - 1)"
proof -
  from kind [OF h] have t: "fs_type (fs_impl_data fd) = t" "t \<noteq> FAT_UNKNOWN" by simp_all
  have "\<exists>fd1 f1. (if prev \<noteq> 0 then fat_set_next_cluster t prev c fd else Some fd) = Some fd1 \<and>
      holds t p sz fd1 f1 \<and> fs_impl_data fd1 = fs_impl_data fd \<and>
      fat_view t p f1 = (if prev = 0 then fat_view t p f else (fat_view t p f)(prev := c AND fat_entry_mask t))"
  proof (cases "prev = 0")
    case False
    from set_entry [OF h prev [OF this], of c] False show ?thesis by (auto simp: fun_eq_iff)
  qed (use h in auto)
  then obtain fd1 f1 where s: "(if prev \<noteq> 0 then fat_set_next_cluster t prev c fd else Some fd) = Some fd1"
    and h1: "holds t p sz fd1 f1" and i1: "fs_impl_data fd1 = fs_impl_data fd"
    and v1: "fat_view t p f1 = (if prev = 0 then fat_view t p f else (fat_view t p f)(prev := c AND fat_entry_mask t))"
    by blast
  have "unat (n - 1) = unat n - 1" using n by (metis unat_minus_one)
  with link_run_ok [OF h1, of "unat n - 1" c] run mask obtain fd2 f2 where "link_run t c (unat (n - 1)) fd1 = Some fd2"
    and "holds t p sz fd2 f2" "fs_impl_data fd2 = fs_impl_data fd1"
    and "fat_view t p f2 = run_linked (fat_view t p f1) c (unat n - 1)" by auto
  moreover have "write_to_fat prev c n fd = do_write_to_fat t prev c n fd"
    using t by (cases t) (simp_all add: write_to_fat_def)
  ultimately show ?thesis
    by (intro exI [of _ fd2] exI [of _ f2]) (simp only: do_write_to_fat_def s bind.bind_lunit i1 v1 simp_thms)
qed

lemma mark_free_ok:
  assumes h: "holds t p sz fd f" and c: "in_table t sz c" "c \<noteq> 0"
  shows "\<exists>fd' f'. fat_mark_cluster_free c fd = Some fd' \<and> holds t p sz fd' f' \<and>
    fat_view t p f' = (fat_view t p f)(c := FREE_CLUSTER) \<and>
    fs_impl_data fd' = (fs_impl_data fd)\<lparr>free_clusters :=
      free_clusters (fs_impl_data fd) @ [\<lparr>span_first = c, span_count = 1\<rparr>]\<rparr>"
proof -
  from write_to_fat_ok [OF h, of 1 c FREE_CLUSTER] c obtain fd1 f1 where
    w: "write_to_fat c FREE_CLUSTER 1 fd = Some (FREE_CLUSTER + 1 - 1, fd1)" and h1: "holds t p sz fd1 f1"
    and i1: "fs_impl_data fd1 = fs_impl_data fd"
    and v1: "fat_view t p f1 = (fat_view t p f)(c := FREE_CLUSTER)"
    by (auto simp: FREE_CLUSTER_def)
  then show ?thesis
    using free_list [OF h1]
    by (auto simp: fat_mark_cluster_free_def Let_def intro!: exI [of _ f1])
qed

text \<open>Releasing a chain: every cluster but the last is freed.\<close>

lemma release_ok:
  "holds t p sz fd f \<Longrightarrow> links (fat_view t p f) c xs \<Longrightarrow> distinct (c # xs) \<Longrightarrow>
   fat_view t p f (List.last (c # xs)) = eof_value (fs_impl_data fd) \<Longrightarrow>
   eof_value (fs_impl_data fd) \<notin> set xs \<Longrightarrow>
   (\<And>x. x \<in> set (c # xs) \<Longrightarrow> in_table t sz x \<and> x \<noteq> 0) \<Longrightarrow> length xs < n \<Longrightarrow>
   \<exists>fd' f'. release_chain n c fd = Some fd' \<and> holds t p sz fd' f' \<and>
     fat_view t p f' = (\<lambda>x. if x \<in> set (butlast (c # xs)) then FREE_CLUSTER else fat_view t p f x) \<and>
     fs_impl_data fd' = (fs_impl_data fd)\<lparr>free_clusters := free_clusters (fs_impl_data fd) @
       map (\<lambda>x. \<lparr>span_first = x, span_count = 1\<rparr>) (butlast (c # xs))\<rparr>"
proof (induction xs arbitrary: c fd f n)
  case Nil
  then obtain m where n: "n = Suc m" by (cases n) auto
  from Nil get_entry [OF Nil.prems(1), of c] show ?case by (auto simp: n)
next
  case (Cons x xs)
  then obtain m where n: "n = Suc m" by (cases n) auto
  from Cons.prems(2) have x: "fat_view t p f c = x" and l: "links (fat_view t p f) x xs" by simp_all
  from get_entry [OF Cons.prems(1), of c] Cons.prems(6) obtain fd1 where
    g: "fat_get_next_cluster c fd = Some (x, fd1)" and h1: "holds t p sz fd1 f"
    and i1: "fs_impl_data fd1 = fs_impl_data fd" unfolding x by auto
  from mark_free_ok [OF h1, of c] Cons.prems(6) obtain fd2 f2 where
    m: "fat_mark_cluster_free c fd1 = Some fd2" and h2: "holds t p sz fd2 f2"
    and v2: "fat_view t p f2 = (fat_view t p f)(c := FREE_CLUSTER)"
    and i2: "fs_impl_data fd2 = (fs_impl_data fd)\<lparr>free_clusters :=
      free_clusters (fs_impl_data fd) @ [\<lparr>span_first = c, span_count = 1\<rparr>]\<rparr>" by (auto simp: i1)
  have c: "c \<notin> set (x # xs)" using Cons.prems(3) by simp
  then have cb: "c \<notin> set (butlast (x # xs))" "c \<noteq> List.last (x # xs)"
    by (auto dest: in_set_butlastD)
  obtain fd3 f3 where "release_chain m x fd2 = Some fd3 \<and> holds t p sz fd3 f3 \<and>
     fat_view t p f3 = (\<lambda>y. if y \<in> set (butlast (x # xs)) then FREE_CLUSTER else fat_view t p f2 y) \<and>
     fs_impl_data fd3 = (fs_impl_data fd2)\<lparr>free_clusters := free_clusters (fs_impl_data fd2) @
       map (\<lambda>x. \<lparr>span_first = x, span_count = 1\<rparr>) (butlast (x # xs))\<rparr>"
  proof (atomize_elim, rule Cons.IH [OF h2])
    show "links (fat_view t p f2) x xs"
    proof (rule links_cong [THEN iffD2, OF _ l])
      fix c' assume "c' \<in> set (butlast (x # xs))"
      with cb(1) show "fat_view t p f2 c' = fat_view t p f c'" unfolding v2 by (metis fun_upd_other)
    qed
    show "fat_view t p f2 (List.last (x # xs)) = eof_value (fs_impl_data fd2)"
      using Cons.prems(4) cb(2) by (simp add: v2 i2)
  qed (use Cons.prems n i2 in auto)
  moreover have "x \<noteq> eof_value (fs_impl_data fd1)" using Cons.prems(5) i1 by auto
  ultimately show ?case
    using g m v2 i2 cb(1) by (intro exI [of _ fd3] exI [of _ f3]) (auto simp: n fun_eq_iff)
qed

text \<open>Claiming one cluster with nothing freed since the mount: the first free one, or none.\<close>

lemma claim_scan_skip:
  "holds t p sz fd f \<Longrightarrow> unat c + k \<le> unat (num_clusters (fs_impl_data fd)) \<Longrightarrow>
   (\<And>i. i < k \<Longrightarrow> in_table t sz (c + of_nat i) \<and> fat_view t p f (c + of_nat i) \<noteq> FREE_CLUSTER) \<Longrightarrow>
   \<exists>fd'. claim_scan c lst n fd = claim_scan (c + of_nat k) lst n fd' \<and> holds t p sz fd' f \<and>
     fs_impl_data fd' = fs_impl_data fd"
proof (induction k arbitrary: c fd)
  case (Suc k)
  have c: "in_table t sz c" "fat_view t p f c \<noteq> FREE_CLUSTER" using Suc.prems(3) [of 0] by simp_all
  have lt: "c < num_clusters (fs_impl_data fd)" using Suc.prems(2) by (simp add: word_less_nat_alt)
  have u: "unat (c + 1) = unat c + 1"
    using Suc.prems(2) unat_u32_bound [of "num_clusters (fs_impl_data fd)"] by (simp add: unat_add_small)
  from get_entry [OF Suc.prems(1) c(1)] obtain fd1 where
    g: "fat_get_next_cluster c fd = Some (fat_view t p f c, fd1)" and h1: "holds t p sz fd1 f"
    and i1: "fs_impl_data fd1 = fs_impl_data fd" by blast
  have "claim_scan c lst n fd = claim_scan (c + 1) lst n fd1"
    using lt g c(2) by (subst claim_scan.simps) (simp add: fat_cluster_is_free_def)
  moreover have "\<exists>fd'. claim_scan (c + 1) lst n fd1 = claim_scan (c + 1 + of_nat k) lst n fd' \<and> holds t p sz fd' f \<and>
      fs_impl_data fd' = fs_impl_data fd1"
  proof (rule Suc.IH [OF h1])
    show "unat (c + 1) + k \<le> unat (num_clusters (fs_impl_data fd1))" using Suc.prems(2) u i1 by simp
    fix i assume "i < k"
    then show "in_table t sz (c + 1 + of_nat i) \<and> fat_view t p f (c + 1 + of_nat i) \<noteq> FREE_CLUSTER"
      using Suc.prems(3) [of "Suc i"] by (simp add: ac_simps)
  qed
  ultimately show ?case using i1 by (auto simp: ac_simps)
qed auto

lemma write_eof_ok:
  assumes h: "holds t p sz fd f" and c: "c \<noteq> 0 \<Longrightarrow> in_table t sz c"
  shows "\<exists>l fd' f'. write_to_fat c v 1 fd = Some (l, fd') \<and> holds t p sz fd' f' \<and>
    fs_impl_data fd' = fs_impl_data fd \<and>
    fat_view t p f' = (if c = 0 then fat_view t p f else (fat_view t p f)(c := v AND fat_entry_mask t))"
  using write_to_fat_ok [OF h, of 1 c v] c by auto

lemma claim_one_ok:
  assumes h: "holds t p sz fd f" and l: "free_clusters (fs_impl_data fd) = []"
    and tab: "\<And>c. c < num_clusters (fs_impl_data fd) \<Longrightarrow> in_table t sz c"
    and zero: "fat_view t p f 0 \<noteq> FREE_CLUSTER"
  shows "(\<exists>c fd' f'. fat_claim_clusters 0 1 fd = Some (c, fd') \<and> c < num_clusters (fs_impl_data fd) \<and> c \<noteq> 0 \<and>
      fat_view t p f c = FREE_CLUSTER \<and> holds t p sz fd' f' \<and> fs_impl_data fd' = fs_impl_data fd \<and>
      fat_view t p f' = (fat_view t p f)(c := eof_value (fs_impl_data fd) AND fat_entry_mask t)) \<or>
    (\<exists>fd' f'. fat_claim_clusters 0 1 fd = Some (0, fd') \<and>
      (\<forall>c < num_clusters (fs_impl_data fd). fat_view t p f c \<noteq> FREE_CLUSTER) \<and>
      holds t p sz fd' f' \<and> fat_view t p f' = fat_view t p f)"
proof -
  let ?N = "num_clusters (fs_impl_data fd)"
  have claim: "fat_claim_clusters 0 1 fd = claim_scan 0 0 1 fd" by (simp add: fat_claim_clusters_def l)
  have of: "unat (of_nat i :: u32) = i" if "i \<le> unat ?N" for i
    using that unat_u32_bound [of ?N] by (simp add: unat_of_nat take_bit_nat_eq_self)
  have lt: "(of_nat i :: u32) < ?N" if "i < unat ?N" for i
    using of [of i] that by (simp add: word_less_nat_alt)
  show ?thesis
  proof (cases "\<exists>i < unat ?N. fat_view t p f (of_nat i) = FREE_CLUSTER")
    case True
    define k where "k = (LEAST i. i < unat ?N \<and> fat_view t p f (of_nat i) = FREE_CLUSTER)"
    from True have k: "k < unat ?N" "fat_view t p f (of_nat k) = FREE_CLUSTER"
      unfolding k_def by (metis (mono_tags, lifting) LeastI_ex)+
    have before: "fat_view t p f (of_nat i) \<noteq> FREE_CLUSTER" if "i < k" for i
      using not_less_Least [of i "\<lambda>i. i < unat ?N \<and> fat_view t p f (of_nat i) = FREE_CLUSTER"] that k(1)
      unfolding k_def by auto
    let ?c = "of_nat k :: u32"
    have c: "?c < ?N" "in_table t sz ?c" using lt [OF k(1)] tab by auto
    have c0: "?c \<noteq> 0" using k(2) zero by auto
    from claim_scan_skip [OF h, of 0 k 0 1] before k(1) lt tab obtain fd1 where
      s: "claim_scan 0 0 1 fd = claim_scan ?c 0 1 fd1" and h1: "holds t p sz fd1 f"
      and i1: "fs_impl_data fd1 = fs_impl_data fd" by auto
    from get_entry [OF h1 c(2)] k(2) obtain fd2 where
      g: "fat_get_next_cluster ?c fd1 = Some (FREE_CLUSTER, fd2)" and h2: "holds t p sz fd2 f"
      and i2: "fs_impl_data fd2 = fs_impl_data fd" using i1 by auto
    from write_to_fat_ok [OF h2, of 1 0 ?c] obtain fd3 f3 where
      w3: "write_to_fat 0 ?c 1 fd2 = Some (?c, fd3)" and h3: "holds t p sz fd3 f3"
      and i3: "fs_impl_data fd3 = fs_impl_data fd" and v3: "fat_view t p f3 = fat_view t p f" using i2 by auto
    from write_eof_ok [OF h3, of ?c "eof_value (fs_impl_data fd)"] c(2) c0 obtain lc fd4 f4 where
      w4: "write_to_fat ?c (eof_value (fs_impl_data fd)) 1 fd3 = Some (lc, fd4)"
      and h4: "holds t p sz fd4 f4" and i4: "fs_impl_data fd4 = fs_impl_data fd"
      and v4: "fat_view t p f4 = (fat_view t p f)(?c := eof_value (fs_impl_data fd) AND fat_entry_mask t)"
      using i3 v3 by auto
    have "claim_scan ?c 0 1 fd1 = Some (?c, fd4)"
      using c(1) i1 g w3 w4 i3 by (subst claim_scan.simps) (simp add: fat_cluster_is_free_def)
    with claim s c c0 k(2) h4 i4 v4 show ?thesis
      by (intro disjI1 exI [of _ ?c] exI [of _ fd4] exI [of _ f4]) simp
  next
    case False
    from claim_scan_skip [OF h, of 0 "unat ?N" 0 1] False lt tab obtain fd1 where
      s: "claim_scan 0 0 1 fd = claim_scan ?N 0 1 fd1" and h1: "holds t p sz fd1 f"
      and i1: "fs_impl_data fd1 = fs_impl_data fd" by auto
    from write_eof_ok [OF h1, of 0 "eof_value (fs_impl_data fd)"] obtain lc fd2 f2 where
      w: "write_to_fat 0 (eof_value (fs_impl_data fd)) 1 fd1 = Some (lc, fd2)" and h2: "holds t p sz fd2 f2"
      and v2: "fat_view t p f2 = fat_view t p f" by auto
    have "claim_scan ?N 0 1 fd1 = Some (0, fd2)"
      using i1 w by (subst claim_scan.simps) simp
    moreover have "fat_view t p f c \<noteq> FREE_CLUSTER" if "c < ?N" for c
    proof -
      have "(of_nat (unat c) :: u32) = c" by simp
      with False that show ?thesis by (metis word_less_nat_alt)
    qed
    ultimately show ?thesis using claim s h2 v2 by auto
  qed
qed

text \<open>No cluster is free: the end mark is written again, and zero returned.\<close>

lemma claim_none_ok:
  assumes h: "holds t p sz fd f" and l: "free_clusters (fs_impl_data fd) = []"
    and none: "\<And>c. c < num_clusters (fs_impl_data fd) \<Longrightarrow> in_table t sz c \<and> fat_view t p f c \<noteq> FREE_CLUSTER"
    and lst: "in_table t sz lst" "lst \<noteq> 0"
  shows "\<exists>fd' f'. fat_claim_clusters lst n fd = Some (0, fd') \<and> holds t p sz fd' f' \<and>
    fat_view t p f' = (fat_view t p f)(lst := eof_value (fs_impl_data fd) AND fat_entry_mask t)"
proof -
  let ?N = "num_clusters (fs_impl_data fd)"
  have "(of_nat i :: u32) < ?N" if "i < unat ?N" for i
    using that unat_u32_bound [of ?N]
    by (simp add: word_less_nat_alt unat_of_nat take_bit_nat_eq_self)
  with claim_scan_skip [OF h, of 0 "unat ?N" lst n] none obtain fd1 where
    s: "claim_scan 0 lst n fd = claim_scan ?N lst n fd1" and h1: "holds t p sz fd1 f"
    and i1: "fs_impl_data fd1 = fs_impl_data fd" by auto
  from write_eof_ok [OF h1, of lst "eof_value (fs_impl_data fd)"] lst obtain lc fd2 f2 where
    w: "write_to_fat lst (eof_value (fs_impl_data fd)) 1 fd1 = Some (lc, fd2)" and h2: "holds t p sz fd2 f2"
    and v2: "fat_view t p f2 = (fat_view t p f)(lst := eof_value (fs_impl_data fd) AND fat_entry_mask t)" by auto
  have "claim_scan ?N lst n fd1 = Some (0, fd2)"
    using i1 w by (subst claim_scan.simps) simp
  with s h2 v2 l show ?thesis
    by (intro exI [of _ fd2] exI [of _ f2]) (simp add: fat_claim_clusters_def)
qed

end

section \<open>Tables on a cached disk\<close>

text \<open>
  A volume on a drive that holds the bytes \<open>f\<close>, its table in a writable part of the disk. The 12-bit
  layout has its table at \<open>reserved_sectors\<close> for writes and at \<open>fat_block\<close> for reads: these agree
  when a sector is one block.
\<close>

definition disk_table ::
  "'m disk_driver \<Rightarrow> nat \<Rightarrow> nat \<Rightarrow> nat \<Rightarrow> ('m \<Rightarrow> nat \<Rightarrow> byte) \<Rightarrow> fat_type \<Rightarrow> nat \<Rightarrow> nat \<Rightarrow>
     'm fat_volume \<Rightarrow> (nat \<Rightarrow> byte) \<Rightarrow> bool" where
  "disk_table drv k j N img t p sz fd f \<longleftrightarrow>
     disk_holds drv k j N img (disk fd) f \<and> write_blocks drv \<noteq> None \<and> 2 \<le> k \<and>
     fs_type (fs_impl_data fd) = t \<and> t \<noteq> FAT_UNKNOWN \<and> sz < 2 ^ 32 \<and>
     (t = FAT_12 \<longrightarrow> reserved_sectors (fs_impl_data fd) = fat_block (fs_impl_data fd)) \<and>
     p = unat (fat_block (fs_impl_data fd) + first_block fd) * 2 ^ k \<and> p + sz \<le> N * 2 ^ k"

lemma disk_table_read:
  assumes "disk_table drv k j N img t p sz fd f" and "unat off + unat n \<le> sz"
  shows "\<exists>fd'. filesystem_read fd (fat_block (fs_impl_data fd)) off n =
      Some (map f [p + unat off..<p + unat off + unat n], fd') \<and>
    disk_table drv k j N img t p sz fd' f \<and> fs_impl_data fd' = fs_impl_data fd"
proof -
  let ?b = "fat_block (fs_impl_data fd) + first_block fd"
  from assms have dh: "disk_holds drv k j N img (disk fd) f" and p: "p = unat ?b * 2 ^ k"
    and r: "unat ?b * 2 ^ k + unat off + unat n \<le> N * 2 ^ k" by (auto simp: disk_table_def)
  from filesystem_read_from_disk_ok [OF dh r] obtain d' where
    "filesystem_read_from_disk (disk fd) ?b off n = Some (map f [p + unat off..<p + unat off + unat n], d')"
    and "disk_holds drv k j N img d' f" unfolding p by blast
  with assms(1) show ?thesis by (auto simp: disk_table_def filesystem_read_def)
qed

lemma disk_table_write:
  assumes "disk_table drv k j N img t p sz fd f" and "unat off + unat n \<le> sz" and "unat n \<le> 4"
    and "length buf = unat n"
  shows "\<exists>fd'. filesystem_write fd (fat_block (fs_impl_data fd)) off buf n = Some fd' \<and>
    disk_table drv k j N img t p sz fd' (overlay (p + unat off) buf f) \<and> fs_impl_data fd' = fs_impl_data fd"
proof -
  let ?b = "fat_block (fs_impl_data fd) + first_block fd"
  from assms have dh: "disk_holds drv k j N img (disk fd) f" and w: "write_blocks drv \<noteq> None"
    and p: "p = unat ?b * 2 ^ k" and k: "2 \<le> k"
    and r: "unat ?b * 2 ^ k + unat off + unat n \<le> N * 2 ^ k" by (auto simp: disk_table_def)
  have "(2::nat) ^ 2 \<le> 2 ^ k" using k by (intro power_increasing) simp_all
  then have small: "unat n < 2 * 2 ^ k" using assms(3) by simp
  from filesystem_write_to_disk_ok [OF dh w, of n buf ?b off] assms(4) r small obtain d' where
    "filesystem_write_to_disk (disk fd) ?b off buf n = Some d'"
    and "disk_holds drv k j N img d' (overlay (p + unat off) buf f)" unfolding p by auto
  with assms(1) show ?thesis by (auto simp: disk_table_def filesystem_write_def)
qed

interpretation disk_table: table_store "disk_table drv k j N img" for drv k j N img
proof unfold_locales
  fix t p sz fd f off n buf l
  assume h: "disk_table drv k j N img t p sz fd f"
  show "fs_type (fs_impl_data fd) = t \<and> t \<noteq> FAT_UNKNOWN \<and> sz < 2 ^ 32"
    and "t = FAT_12 \<Longrightarrow> reserved_sectors (fs_impl_data fd) = fat_block (fs_impl_data fd)"
    and "disk_table drv k j N img t p sz (fd\<lparr>fs_impl_data := (fs_impl_data fd)\<lparr>free_clusters := l\<rparr>\<rparr>) f"
    using h by (auto simp: disk_table_def)
qed (auto dest: disk_table_read disk_table_write)

text \<open>A 16-bit table in the second block of the memory disk, with the entries \<open>es\<close>.\<close>

definition sample_bytes :: "nat list \<Rightarrow> nat \<Rightarrow> byte" where
  "sample_bytes es = overlay 512 (concat (map (le_bytes 2) es)) (\<lambda>_. 0)"

definition sample_volume :: "nat list \<Rightarrow> (nat \<Rightarrow> byte) fat_volume" where
  "sample_volume es =
     \<lparr>disk = memory_disk (sample_bytes es),
      fs_impl_data = empty_fat_drive\<lparr>fat_block := 1, reserved_sectors := 1, num_clusters := 6,
        fs_type := FAT_16, eof_value := FAT16_EOF, cluster_size := 512, cluster_size_log2 := 9\<rparr>,
      fs_id = 0, first_block = 0, num_blocks = 64, block_size = 512, root_name = []\<rparr>"

lemma sample_volume_table:
  "disk_table (memory_driver 512) 9 1 64 (\<lambda>m. m) FAT_16 512 512 (sample_volume es)
     (sample_bytes es)"
  using memory_disk_holds by (simp add: disk_table_def sample_volume_def memory_driver_def)

lemma sample_in_table: "c < 256 \<Longrightarrow> in_table FAT_16 512 c"
  by (simp add: in_table_def entry_pos_def word_less_nat_alt)

lemma sample_view:
  assumes "unat c < length es"
  shows "fat_view FAT_16 512 (sample_bytes es) c =
    of_nat (es ! unat c mod 65536)"
proof -
  have len: "length (concat (map (le_bytes 2) es)) = 2 * length es" for es
    by (induction es) auto
  have nth: "i < length es \<Longrightarrow> concat (map (le_bytes 2) es) ! (2 * i) = le_bytes 2 (es ! i) ! 0 \<and>
      concat (map (le_bytes 2) es) ! (2 * i + 1) = le_bytes 2 (es ! i) ! 1" for i
  proof (induction es arbitrary: i)
    case (Cons e es)
    then show ?case by (cases i) (auto simp: nth_append)
  qed simp
  let ?f = "sample_bytes es" and ?i = "2 * unat c"
  have "[512 + ?i..<512 + ?i + 2] = [512 + ?i, 512 + (?i + 1)]" by (simp add: upt_rec)
  moreover have "map ?f [512 + ?i, 512 + (?i + 1)] = [le_bytes 2 (es ! unat c) ! 0, le_bytes 2 (es ! unat c) ! 1]"
    using nth [OF assms] assms len [of es] by (simp add: overlay_def sample_bytes_def)
  moreover have "[le_bytes 2 v ! 0, le_bytes 2 v ! 1] = le_bytes 2 v" for v
    by (simp add: numeral_2_eq_2)
  ultimately have "le_nat (map ?f [512 + ?i..<512 + ?i + 2]) = es ! unat c mod 65536" by simp
  moreover have "(of_nat (x mod 65536) :: u32) AND 65535 = of_nat (x mod 65536)" for x :: nat
  proof -
    have m: "(65535 :: u32) = mask 16" by (simp add: mask_eq_exp_minus_1)
    show ?thesis unfolding m take_bit_eq_mask [symmetric]
      by (simp add: word_unat_eq_iff unsigned_take_bit_eq unat_of_nat take_bit_nat_eq_self)
  qed
  ultimately show ?thesis
    by (simp add: fat_view_def fat_entry_def entry_pos_def fat_entry_mask_def mult.commute)
qed

section \<open>Properties\<close>



text \<open>C4: \<open>fat_get_relative_cluster\<close> walks a chain: from the first cluster of a file it reaches, in as
  many steps as asked for, the cluster the entries lead to, and changes no entry.\<close>

theorem fat_relative_cluster:
  assumes "disk_table drv k j N img t p sz fd f" and "links (fat_view t p f) c xs"
    and "\<forall>x \<in> set xs. x < eof_value (fs_impl_data fd)" and "\<forall>x \<in> set (butlast (c # xs)). in_table t sz x"
    and "length xs < 2 ^ 32"
  shows "\<exists>fd'. fat_get_relative_cluster c (of_nat (length xs)) fd = Some (List.last (c # xs), fd') \<and>
    disk_table drv k j N img t p sz fd' f"
proof -
  have "unat (of_nat (length xs) :: u32) = length xs"
    using assms(5) by (simp add: unat_of_nat take_bit_nat_eq_self)
  with disk_table.relative_ok [OF assms(1,2)] assms(3,4) show ?thesis
    by (auto simp: fat_get_relative_cluster_def)
qed

theorem fat_relative_cluster_witness:
  "\<exists>fd'. fat_get_relative_cluster 2 (of_nat (length [4, 3 :: u32])) (sample_volume [0xFFF8, 0xFFFF, 4, 0xFFF8, 3]) =
     Some (3, fd')"
proof -
  let ?es = "[0xFFF8, 0xFFFF, 4, 0xFFF8, 3]"
  let ?m = "fat_view FAT_16 512 (sample_bytes ?es)"
  have "?m 2 = 4" "?m 4 = 3" by (subst sample_view; simp)+
  then have "links ?m 2 [4, 3]" by simp
  moreover have "\<forall>x \<in> set [4, 3]. x < eof_value (fs_impl_data (sample_volume ?es))"
    by (simp add: sample_volume_def FAT16_EOF_def)
  moreover have "\<forall>x \<in> set (butlast [2, 4, 3]). in_table FAT_16 512 x" by (simp add: sample_in_table)
  ultimately show ?thesis
    using fat_relative_cluster [OF sample_volume_table [of ?es], of 2 "[4, 3]"] by auto
qed

text \<open>What \<open>fat_delete_file\<close> does to the table: along the chain of a file that ends in the end mark,
  the entry of every cluster but the last is made free and put on the free list; the last
  cluster keeps its end mark and is never given back (a file of one cluster frees nothing).\<close>

theorem fat_release_keeps_last:
  assumes "disk_table drv k j N img t p sz fd f" and "links (fat_view t p f) c xs"
    and "fat_view t p f (List.last (c # xs)) = eof_value (fs_impl_data fd)"
    and "distinct (c # xs)" and "eof_value (fs_impl_data fd) \<notin> set xs"
    and "\<forall>x \<in> set (c # xs). in_table t sz x \<and> x \<noteq> 0" and "length xs < n"
  shows "\<exists>fd' f'. release_chain n c fd = Some fd' \<and> disk_table drv k j N img t p sz fd' f' \<and>
    (\<forall>x \<in> set (butlast (c # xs)). fat_view t p f' x = FREE_CLUSTER) \<and>
    (\<forall>x. x \<notin> set (butlast (c # xs)) \<longrightarrow> fat_view t p f' x = fat_view t p f x) \<and>
    free_clusters (fs_impl_data fd') = free_clusters (fs_impl_data fd) @
      map (\<lambda>x. \<lparr>span_first = x, span_count = 1\<rparr>) (butlast (c # xs))"
proof -
  from disk_table.release_ok [OF assms(1,2,4,3,5)] assms(6,7) obtain fd' f' where
    "release_chain n c fd = Some fd'" and "disk_table drv k j N img t p sz fd' f'"
    and "fat_view t p f' = (\<lambda>x. if x \<in> set (butlast (c # xs)) then FREE_CLUSTER else fat_view t p f x)"
    and "fs_impl_data fd' = (fs_impl_data fd)\<lparr>free_clusters := free_clusters (fs_impl_data fd) @
       map (\<lambda>x. \<lparr>span_first = x, span_count = 1\<rparr>) (butlast (c # xs))\<rparr>" by blast
  then show ?thesis by (intro exI [of _ fd'] exI [of _ f']) simp
qed

theorem fat_release_keeps_last_witness:
  "\<exists>fd'. release_chain 6 2 (sample_volume [0xFFF8, 0xFFFF, 4, 0xFFF8, 3]) = Some fd' \<and>
     free_clusters (fs_impl_data fd') =
       [\<lparr>span_first = 2, span_count = 1\<rparr>, \<lparr>span_first = 4, span_count = 1\<rparr>]"
proof -
  let ?es = "[0xFFF8, 0xFFFF, 4, 0xFFF8, 3]"
  let ?m = "fat_view FAT_16 512 (sample_bytes ?es)"
  have v: "?m 2 = 4" "?m 4 = 3" "?m 3 = 0xFFF8" by (subst sample_view; simp)+
  then have "links ?m 2 [4, 3]" by simp
  moreover have eof: "eof_value (fs_impl_data (sample_volume ?es)) = 0xFFF8"
    "free_clusters (fs_impl_data (sample_volume ?es)) = []"
    by (simp_all add: sample_volume_def FAT16_EOF_def empty_fat_drive_def)
  moreover have "\<forall>x \<in> set [2, 4, 3]. in_table FAT_16 512 x \<and> x \<noteq> 0" by (simp add: sample_in_table)
  ultimately show ?thesis
    using fat_release_keeps_last [OF sample_volume_table [of ?es], of 2 "[4, 3]" 6] v by auto
qed

text \<open>Claiming one cluster for a new file, when none was freed since the mount: if some cluster of
  the volume has a free entry, a free cluster is returned and its entry becomes the end mark; if
  none has, zero is returned and the table is as before.\<close>

theorem fat_claim_one:
  assumes "disk_table drv k j N img t p sz fd f" and "free_clusters (fs_impl_data fd) = []"
    and "\<forall>c < num_clusters (fs_impl_data fd). in_table t sz c" and "fat_view t p f 0 \<noteq> FREE_CLUSTER"
  shows "\<exists>c fd' f'. fat_claim_clusters 0 1 fd = Some (c, fd') \<and> disk_table drv k j N img t p sz fd' f' \<and>
    (if \<exists>x < num_clusters (fs_impl_data fd). fat_view t p f x = FREE_CLUSTER
     then c < num_clusters (fs_impl_data fd) \<and> fat_view t p f c = FREE_CLUSTER \<and>
       fat_view t p f' = (fat_view t p f)(c := eof_value (fs_impl_data fd) AND fat_entry_mask t)
     else c = 0 \<and> fat_view t p f' = fat_view t p f)"
  using disk_table.claim_one_ok [OF assms(1,2) _ assms(4)] assms(3) by fastforce

theorem fat_claim_one_witness:
  "\<exists>fd'. fat_claim_clusters 0 1 (sample_volume [0xFFF8, 0xFFFF, 0xFFF8, 0xFFF8, 0, 3]) = Some (4, fd')"
proof -
  let ?es = "[0xFFF8, 0xFFFF, 0xFFF8, 0xFFF8, 0, 3]"
  let ?m = "fat_view FAT_16 512 (sample_bytes ?es)"
  have v: "?m 0 = 0xFFF8" "?m 1 = 0xFFFF" "?m 2 = 0xFFF8" "?m 3 = 0xFFF8" "?m 4 = 0" "?m 5 = 3"
    by (subst sample_view; simp)+
  have n: "num_clusters (fs_impl_data (sample_volume ?es)) = 6" "free_clusters (fs_impl_data (sample_volume ?es)) = []"
    by (simp_all add: sample_volume_def empty_fat_drive_def)
  have six: "x = 0 \<or> x = 1 \<or> x = 2 \<or> x = 3 \<or> x = 4 \<or> x = 5" if "x < 6" for x :: u32
  proof -
    have "unat x < 6" using that by (simp add: word_less_nat_alt)
    then have "unat x = 0 \<or> unat x = 1 \<or> unat x = 2 \<or> unat x = 3 \<or> unat x = 4 \<or> unat x = 5" by arith
    then show ?thesis by (auto simp: word_unat_eq_iff)
  qed
  have "?m x = FREE_CLUSTER \<longleftrightarrow> x = 4" if "x < 6" for x
    using six [OF that] v by (elim disjE) (simp_all add: FREE_CLUSTER_def)
  moreover have "\<forall>c < 6. in_table FAT_16 512 c"
    by (auto intro!: sample_in_table simp: word_less_nat_alt)
  moreover have "\<exists>x < 6. ?m x = FREE_CLUSTER" using v(5) by (intro exI [of _ 4]) (simp add: FREE_CLUSTER_def)
  ultimately show ?thesis
    using fat_claim_one [OF sample_volume_table [of ?es]] v(1) n
    by (auto simp: FREE_CLUSTER_def)
qed

end
