(* ===== verification/FatDirCorrect.thy ===== *)
theory FatDirCorrect
  imports FatDir FatTableCorrect
begin

text \<open>
  Directories of \<open>drivers/formats/fat.cpp\<close>: the entries and long names read back what was written,
  and what the driver does at a deleted entry and when the volume is full.
\<close>

section \<open>Entries as bytes\<close>

lemma le16_word16 [simp]: "word16 (le16 w @ b) = w"
proof -
  have "length (le16 w) = 2" by (simp add: le16_def)
  then have "take 2 (le16 w @ b) = le16 w" by simp
  moreover have "unat w < 65536" using unsigned_less [of w] by simp
  ultimately show ?thesis by (simp add: word16_def le16_def)
qed

lemma le32_word32 [simp]: "word32 (le32 w) = w"
proof -
  have "take 4 (le32 w) = le32 w" by (simp add: le32_def)
  moreover have "unat w < 4294967296" using unsigned_less [of w] by simp
  ultimately show ?thesis by (simp add: word32_def le32_def)
qed

lemma le16_word16' [simp]: "word16 (le16 w) = w"
  using le16_word16 [of w "[]"] by simp

lemma length_le16 [simp]: "length (le16 w) = 2" by (simp add: le16_def)
lemma length_le32 [simp]: "length (le32 w) = 4" by (simp add: le32_def)

lemma word16_le16: "length b = 2 \<Longrightarrow> le16 (word16 b) = b"
proof -
  assume l: "length b = 2"
  then have "le_nat b < 65536" using le_nat_bound [of b] by simp
  then have "unat (word16 b) = le_nat b" using l
    by (simp add: word16_def unat_of_nat take_bit_nat_eq_self)
  then show ?thesis using le_bytes_le_nat [of b] l by (simp add: le16_def)
qed

lemma word32_le32: "length b = 4 \<Longrightarrow> le32 (word32 b) = b"
proof -
  assume l: "length b = 4"
  then have "le_nat b < 2 ^ 32" using le_nat_bound [of b] by simp
  then have "unat (word32 b) = le_nat b" using l
    by (simp add: word32_def unat_of_nat take_bit_nat_eq_self)
  then show ?thesis using le_bytes_le_nat [of b] l by (simp add: le32_def)
qed

lemma drop_append_length: "n = length xs + m \<Longrightarrow> drop n (xs @ ys) = drop m ys"
  by simp

lemma bytes_entry_bytes:
  assumes "length (de_name e) = 11"
  shows "bytes_entry (entry_bytes e) = e"
  using assms
  by (intro fat_directory_entry.equality)
    (simp_all add: bytes_entry_def entry_bytes_def nth_append drop_append_length)

lemma entry_bytes_bytes:
  assumes "length b = 32"
  shows "entry_bytes (bytes_entry b) = b"
proof -
  have two: "le16 (word16 (drop i b)) = take 2 (drop i b)" if "i + 2 \<le> 32" for i
  proof -
    have "word16 (drop i b) = word16 (take 2 (drop i b))" by (simp add: word16_def)
    then show ?thesis using that assms word16_le16 [of "take 2 (drop i b)"] by simp
  qed
  have four: "le32 (word32 (drop 28 b)) = drop 28 b" using assms by (simp add: word32_le32)
  have one: "b ! i # drop (Suc i) b = drop i b" if "i < 32" for i
    using that assms by (simp add: Cons_nth_drop_Suc)
  have step: "take 2 (drop i b) @ drop (i + 2) b = drop i b" for i
    by (metis add.commute append_take_drop_id drop_drop)
  have "entry_bytes (bytes_entry b) = take 11 b @ b ! 11 # b ! 12 # b ! 13 # drop 14 b"
    using two four step [of 14] step [of 16] step [of 18] step [of 20] step [of 22] step [of 24] step [of 26]
    by (simp add: entry_bytes_def bytes_entry_def)
  also have "\<dots> = b" using one [of 11] one [of 12] one [of 13] by simp
  finally show ?thesis .
qed

lemma length_entry_bytes: "length (entry_bytes e) = length (de_name e) + 21"
  by (simp add: entry_bytes_def)

section \<open>Long names\<close>

lemma length_concat_le16 [simp]: "length (concat (map le16 ws)) = 2 * length ws"
  by (induction ws) simp_all

lemma words16_le16: "length ws = n \<Longrightarrow> words16 n (concat (map le16 ws) @ b) = ws"
proof (induction n arbitrary: ws)
  case (Suc n)
  then obtain w ws' where "ws = w # ws'" by (cases ws) auto
  with Suc show ?case by simp
qed simp

definition lfn_ok :: "fat_lfn_entry \<Rightarrow> bool" where
  "lfn_ok e \<longleftrightarrow> length (chars0 e) = 5 \<and> length (chars1 e) = 6 \<and> length (chars2 e) = 2"

lemma bytes_lfn_bytes:
  assumes "lfn_ok e"
  shows "bytes_lfn (lfn_bytes e) = e"
proof -
  have l: "length (chars0 e) = 5" "length (chars1 e) = 6" "length (chars2 e) = 2"
    using assms by (simp_all add: lfn_ok_def)
  have c2: "words16 2 (concat (map le16 (chars2 e))) = chars2 e"
    using words16_le16 [OF l(3), of "[]"] by simp
  show ?thesis
    using l c2 words16_le16 [OF l(1)] words16_le16 [OF l(2)]
    by (intro fat_lfn_entry.equality)
      (simp_all add: bytes_lfn_def lfn_bytes_def nth_append drop_append_length)
qed

text \<open>Units outside the surrogates are converted one by one.\<close>

definition plain :: "u16 list \<Rightarrow> bool" where
  "plain us \<longleftrightarrow> (\<forall>u \<in> set us. u < 0xD800 \<or> 0xDFFF < u)"

lemma plain_utf8: "plain us \<Longrightarrow> utf16_to_utf8 us = concat (map (\<lambda>u. utf8_encode_char (ucast u)) us)"
  by (induction us) (auto simp: plain_def utf16_decode_char_def)

lemma plain_append [simp]: "plain (xs @ ys) \<longleftrightarrow> plain xs \<and> plain ys"
  by (auto simp: plain_def)

lemma plain_utf8_append:
  "plain xs \<Longrightarrow> plain ys \<Longrightarrow> utf16_to_utf8 (xs @ ys) = utf16_to_utf8 xs @ utf16_to_utf8 ys"
  by (simp add: plain_utf8)

lemma plain_take_drop: "plain us \<Longrightarrow> plain (take n us)" "plain us \<Longrightarrow> plain (drop n us)"
  by (auto simp: plain_def dest: in_set_takeD in_set_dropD)

lemma lfn_units_length: "length (lfn_units nm) mod num_chars = 0 \<and> 0 < length (lfn_units nm)"
proof -
  define l where "l = Suc (length (utf8_to_utf16 nm))"
  have "l \<le> (l + 12) div 13 * 13" by (simp add: l_def)
  then have "length (lfn_units nm) = (l + 12) div 13 * 13"
    by (simp add: lfn_units_def num_chars_def Let_def l_def)
  moreover have "0 < (l + 12) div 13" by (simp add: l_def div_greater_zero_iff)
  ultimately show ?thesis by (simp add: num_chars_def)
qed

text \<open>The bytes of the 13 units in an entry.\<close>

lemma lfn_text_chunk:
  assumes "plain it"
  shows "lfn_text \<lparr>lfn_sequence = sq, chars0 = take 5 it, lfn_attributes = LFN, lfn_type = 0, short_checksum = ck,
     chars1 = take 6 (drop 5 it), lfn_zero = 0, chars2 = take 2 (drop 11 it)\<rparr> = utf16_to_utf8 (take 13 it)"
proof -
  have "take 13 it = take 5 it @ take 6 (drop 5 it) @ take 2 (drop 11 it)"
    using take_add [of 5 8 it] take_add [of 6 2 "drop 5 it"] by simp
  then show ?thesis
    using assms by (simp add: lfn_text_def plain_utf8 plain_take_drop)
qed

text \<open>Reading a run of long-name entries, as the listing does.\<close>

fun collect :: "directory_stream \<Rightarrow> u32 \<Rightarrow> bytes list \<Rightarrow> bytes \<Rightarrow> bytes option" where
  "collect dest drv [] lfn = Some lfn"
| "collect dest drv (e # es) lfn =
     (case read_dir_step dest drv e lfn of
        Some (Some (lfn', None)) \<Rightarrow> collect dest drv es lfn'
      | _ \<Rightarrow> None)"

definition seq_ok :: "fat_lfn_entry \<Rightarrow> bool" where
  "seq_ok e \<longleftrightarrow> lfn_ok e \<and> lfn_sequence e \<noteq> 0 \<and> lfn_sequence e \<noteq> 0xE5 \<and> lfn_attributes e = LFN"

lemma collect_lfn:
  "\<forall>e \<in> set es. seq_ok e \<Longrightarrow>
   collect dest drv (map lfn_bytes es) lfn = Some (concat (map lfn_text (rev es)) @ lfn)"
proof (induction es arbitrary: lfn)
  case (Cons e es)
  then have e: "seq_ok e" by simp
  then have "bytes_lfn (lfn_bytes e) = e" by (simp add: seq_ok_def bytes_lfn_bytes)
  moreover have "lfn_bytes e ! 0 = lfn_sequence e" by (simp add: lfn_bytes_def)
  moreover have "de_attributes (bytes_entry (lfn_bytes e)) = LFN"
    using e by (simp add: bytes_entry_def lfn_bytes_def nth_append seq_ok_def lfn_ok_def)
  ultimately have "read_dir_step dest drv (lfn_bytes e) lfn = Some (Some (lfn_text e @ lfn, None))"
    using e by (simp add: read_dir_step_def seq_ok_def)
  with Cons show ?case by simp
qed simp

lemma concat_chunks: "concat (map (\<lambda>j. take m (drop (j * m) xs)) [0..<n]) = take (n * m) xs"
proof (induction n)
  case (Suc n)
  then show ?case using take_add [of "n * m" m xs] by (simp add: add.commute [of m])
qed simp

lemma concat_map_concat: "concat (map f (concat (map g xs))) = concat (map (\<lambda>x. concat (map f (g x))) xs)"
  by (induction xs) simp_all

lemma rev_indices: "rev (map (\<lambda>i. g (n - 1 - i)) [0..<n]) = map g [0..<n]"
  by (rule nth_equalityI) (simp_all add: rev_nth)

lemma lfn_entries_text:
  assumes "plain (lfn_units nm)"
  shows "concat (map lfn_text (rev (lfn_entries ck nm))) = utf16_to_utf8 (lfn_units nm)"
proof -
  let ?u = "lfn_units nm" and ?n = "length (lfn_units nm) div num_chars"
  have "map lfn_text (lfn_entries ck nm) = map (\<lambda>i. utf16_to_utf8 (take 13 (drop ((?n - 1 - i) * 13) ?u))) [0..<?n]"
    by (simp only: lfn_entries_def Let_def map_map o_def num_chars_def
        lfn_text_chunk [OF plain_take_drop(2) [OF assms]])
  then have "rev (map lfn_text (lfn_entries ck nm)) = map (\<lambda>j. utf16_to_utf8 (take 13 (drop (j * 13) ?u))) [0..<?n]"
    using rev_indices [of "\<lambda>j. utf16_to_utf8 (take 13 (drop (j * 13) ?u))" ?n] by simp
  then have "concat (map lfn_text (rev (lfn_entries ck nm))) =
      concat (map (\<lambda>j. utf16_to_utf8 (take 13 (drop (j * 13) ?u))) [0..<?n])"
    by (simp add: rev_map)
  also have "\<dots> = concat (map (\<lambda>u. utf8_encode_char (ucast u)) (concat (map (\<lambda>j. take 13 (drop (j * 13) ?u)) [0..<?n])))"
    using assms by (simp add: plain_utf8 plain_take_drop concat_map_concat)
  also have "concat (map (\<lambda>j. take 13 (drop (j * 13) ?u)) [0..<?n]) = ?u"
    using lfn_units_length [of nm] by (simp add: concat_chunks num_chars_def mod_eq_0_iff_dvd)
  finally show ?thesis using assms by (simp add: plain_utf8)
qed

lemma nonzero_utf8:
  assumes "c \<noteq> 0"
  shows "0 \<notin> set (utf8_encode_char c)"
proof -
  have hi: "b \<noteq> 0" if "b AND 0x80 \<noteq> 0" for b :: byte using that by auto
  have "(ucast c :: byte) \<noteq> 0" if "c \<le> 0x7F"
  proof -
    have "unat c \<noteq> 0" using assms by (simp add: unat_eq_0)
    moreover have "unat (ucast c :: byte) = unat c"
      using that by (intro unat_ucast_small) (simp add: word_le_nat_alt)
    ultimately show ?thesis by (metis unat_0)
  qed
  then show ?thesis
    using hi [OF lead_bytes(1)] hi [OF lead_bytes(4)] hi [OF lead_bytes(7)] hi [OF cont_byte(1)]
    by (simp add: utf8_encode_char_def masks)
qed

lemma seq_first:
  assumes "n \<le> 20"
  shows "(0x40 OR of_nat (n + 1) :: byte) \<noteq> 0" and "(0x40 OR of_nat (n + 1) :: byte) \<noteq> 0xE5"
proof -
  have "unat (of_nat m :: byte) < 2 ^ 7" if "m \<le> 21" for m
    using that by (simp add: unat_of_nat take_bit_nat_eq_self)
  from this [of "n + 1"] assms have "unat (of_nat (n + 1) :: byte) < 2 ^ 7" by simp
  then have "take_bit 7 (of_nat (n + 1) :: byte) = of_nat (n + 1)" by (rule take_bit_word_self)
  then have "\<not> bit (of_nat (n + 1) :: byte) 7" by (metis bit_take_bit_iff less_irrefl)
  then have b: "\<not> bit (0x40 OR of_nat (n + 1) :: byte) 7" "bit (0x40 OR of_nat (n + 1) :: byte) 6"
    by (simp_all add: bit_or_iff del: of_nat_add of_nat_Suc)
  show "(0x40 OR of_nat (n + 1) :: byte) \<noteq> 0" using b(2) bit_0_eq by force
  have "bit (0xE5 :: byte) 7" by simp
  then show "(0x40 OR of_nat (n + 1) :: byte) \<noteq> 0xE5" using b(1) by metis
qed

lemma lfn_entries_ok:
  assumes "length (utf8_to_utf16 nm) \<le> 255"
  shows "\<forall>e \<in> set (lfn_entries ck nm). seq_ok e"
proof
  let ?u = "lfn_units nm" and ?n = "length (lfn_units nm) div num_chars"
  define l where "l = Suc (length (utf8_to_utf16 nm))"
  have "length ?u = (l + 12) div 13 * 13"
    by (simp add: lfn_units_def num_chars_def Let_def l_def)
  then have n: "length ?u = ?n * 13" "?n \<le> 20"
    using assms by (simp_all add: num_chars_def l_def)
  have seq: "(of_nat m :: byte) \<noteq> 0 \<and> (of_nat m :: byte) \<noteq> 0xE5" if "0 < m" "m \<le> 20" for m
  proof -
    have "unat (of_nat m :: byte) = m" using that by (simp add: unat_of_nat take_bit_nat_eq_self)
    then show ?thesis using that by (auto simp: word_unat_eq_iff)
  qed
  fix e assume "e \<in> set (lfn_entries ck nm)"
  then obtain i where i: "i < ?n" and e: "e = \<lparr>lfn_sequence = (if i = 0 then 0x40 OR of_nat (?n + 1)
        else of_nat (?n - (i - 1))), chars0 = take 5 (drop ((?n - 1 - i) * 13) ?u), lfn_attributes = LFN,
      lfn_type = 0, short_checksum = ck, chars1 = take 6 (drop 5 (drop ((?n - 1 - i) * 13) ?u)), lfn_zero = 0,
      chars2 = take 2 (drop 11 (drop ((?n - 1 - i) * 13) ?u))\<rparr>"
    by (auto simp: lfn_entries_def Let_def num_chars_def)
  have "(?n - 1 - i) * 13 + 13 \<le> ?n * 13"
  proof -
    have "(?n - 1 - i) * 13 + 13 = Suc (?n - 1 - i) * 13" by simp
    also have "\<dots> \<le> ?n * 13" using i by (intro mult_le_mono1) simp
    finally show ?thesis .
  qed
  then have len: "13 \<le> length (drop ((?n - 1 - i) * 13) ?u)" using n(1) by simp
  have "lfn_sequence e \<noteq> 0 \<and> lfn_sequence e \<noteq> 0xE5"
  proof (cases "i = 0")
    case True
    then show ?thesis using seq_first [OF n(2)] unfolding e by simp
  next
    case False
    then have "0 < ?n - (i - 1)" "?n - (i - 1) \<le> 20" using i n(2) by simp_all
    from seq [OF this] False show ?thesis unfolding e by (simp only: fat_lfn_entry.simps if_False simp_thms)
  qed
  then show "seq_ok e" using len unfolding e by (simp add: seq_ok_def lfn_ok_def)
qed

text \<open>The units of a name of characters from the basic plane.\<close>

definition lfn_name :: "u32 list \<Rightarrow> bool" where
  "lfn_name cs \<longleftrightarrow> length cs \<le> 255 \<and> (\<forall>c \<in> set cs. c \<noteq> 0 \<and> c \<le> 0xFFFF \<and> \<not> surrogate c)"

lemma lfn_name_units:
  assumes "lfn_name cs"
  shows "utf8_to_utf16 (utf8_encode cs) = map ucast cs" and "plain (map ucast cs)"
    and "utf16_to_utf8 (map ucast cs) = utf8_encode cs"
proof -
  have bmp: "c \<le> 0xFFFF \<Longrightarrow> c \<le> 0x10FFFF" for c :: u32 by (simp add: word_le_nat_alt)
  have enc: "encodable cs" using assms bmp by (auto simp: encodable_def lfn_name_def)
  have "\<forall>c \<in> set cs. c \<le> 0xFFFF \<Longrightarrow> utf16_encode cs = map ucast cs"
    by (induction cs) (simp_all add: utf16_encode_def utf16_encode_char_def)
  then have "utf16_encode cs = map ucast cs" using assms by (simp add: lfn_name_def)
  with utf8_to_utf16_encode [OF enc] utf16_to_utf8_encode [OF enc]
  show "utf8_to_utf16 (utf8_encode cs) = map ucast cs" "utf16_to_utf8 (map ucast cs) = utf8_encode cs"
    by simp_all
  show "plain (map ucast cs)"
    unfolding plain_def
  proof
    fix u :: u16 assume "u \<in> set (map ucast cs)"
    then obtain c where c: "c \<in> set cs" "u = ucast c" by auto
    with assms have b: "c \<le> 0xFFFF" "\<not> surrogate c" by (simp_all add: lfn_name_def)
    have "unat u = unat c" unfolding c(2) using b(1) by (intro unat_ucast_small) (simp add: word_le_nat_alt)
    then show "u < 0xD800 \<or> 0xDFFF < u"
      using b(2) by (auto simp: surrogate_def word_le_nat_alt word_less_nat_alt)
  qed
qed

section \<open>Properties\<close>

text \<open>The 32-byte directory entry: encoding a file's entry and decoding it gives the entry back, and
  decoding any 32 bytes and encoding them gives these bytes, so an entry rewritten with one field
  changed keeps all others.\<close>

theorem dir_entry_roundtrip:
  assumes "length (de_name e) = 11" and "length b = 32"
  shows "length (entry_bytes e) = 32 \<and> bytes_entry (entry_bytes e) = e \<and> entry_bytes (bytes_entry b) = b"
  using assms by (simp add: bytes_entry_bytes entry_bytes_bytes length_entry_bytes)

theorem dir_entry_roundtrip_witness:
  "bytes_entry (entry_bytes (bytes_entry (replicate 32 7))) = bytes_entry (replicate 32 7)"
  using dir_entry_roundtrip [of "bytes_entry (replicate 32 7)" "replicate 32 7"]
  by (simp add: bytes_entry_def)


definition sample_dir :: directory_stream where
  "sample_dir = \<lparr>full_path = None, dir_data = \<lparr>location_on_disk = 2, disk_id = 0, file_size = 0, file_flags = IS_DIR,
     format_data = replicate 8 0\<rparr>, file_list = []\<rparr>"

definition sample_entry :: fat_directory_entry where
  "sample_entry = \<lparr>de_name = ascii ''FILE    TXT'', de_attributes = 0x20, de_reserved = 0, created_time_ms = 0,
     created_time = 0, created_date = 0x5221, accessed_date = 0, first_cluster_hi = 0, modified_time = 0,
     modified_date = 0x5221, first_cluster = 3, de_file_size = 100\<rparr>"

lemma sample_entry_read: "fat_read_dir_entry sample_dir sample_entry 0 \<noteq> None"
proof -
  have "fat_time_to_time_t \<lparr>ft_date = 0x5221, ft_time = 0\<rparr> \<noteq> None"
    by (simp add: fat_time_to_time_t_def mktime_def i32_def time_constants ordinal_date_def is_leap_year_def Let_def)
  then show ?thesis by (auto simp: fat_read_dir_entry_def sample_entry_def Let_def)
qed


text \<open>A full volume is not reported. When no cluster is free, a write that must extend a file of one
  cluster is given its full size by \<open>fat_allocate_clusters\<close> (whose failure test computes the whole
  request), so the stream takes the new length although no cluster was added: the table is
  unchanged.\<close>

theorem out_of_space_unreported:
  assumes tab: "disk_table drv k j N img t p sz fd f" and l: "free_clusters (fs_impl_data fd) = []"
    and full: "\<forall>x < num_clusters (fs_impl_data fd). in_table t sz x \<and> fat_view t p f x \<noteq> FREE_CLUSTER"
    and c: "in_table t sz c" "c \<noteq> 0" "fat_view t p f c = eof_value (fs_impl_data fd)"
    and eof: "eof_value (fs_impl_data fd) AND fat_entry_mask t = eof_value (fs_impl_data fd)"
    and nr: "\<not> is_fat_root (fs_impl_data fd) (stream_file s)"
    and req: "0 < unat req" "unat req + unat (cluster_size (fs_impl_data fd)) \<le> 2 ^ 32"
    and cs: "cluster_size (fs_impl_data fd) \<noteq> 0"
  shows "\<exists>fd' f'. stream_allocate_space fat_io c req s fd =
      Some (s\<lparr>stream_file := (stream_file s)\<lparr>file_size := req\<rparr>\<rparr>, fd') \<and>
    disk_table drv k j N img t p sz fd' f' \<and> fat_view t p f' = fat_view t p f"
proof -
  let ?cs = "cluster_size (fs_impl_data fd)" and ?r = "ucast req :: u32"
  have cs0: "0 < unat ?cs" using cs by (simp add: unat_gt_0)
  have r: "unat ?r = unat req" using req cs0 by (intro unat_ucast_small) simp
  define needed where "needed = (?r + (?cs - 1)) div ?cs"
  have c1: "unat (?cs - 1) = unat ?cs - 1" using cs by (metis unat_minus_one)
  have "unat (?r + (?cs - 1)) = unat req + (unat ?cs - 1)"
    using req cs0 by (subst unat_add_small) (simp_all add: r c1)
  then have n: "unat needed = (unat req + (unat ?cs - 1)) div unat ?cs"
    by (simp add: needed_def unat_div_distrib)
  have up: "unat req \<le> unat needed * unat ?cs" and lim: "unat needed * unat ?cs < 2 ^ 32"
  proof -
    have "unat needed * unat ?cs + (unat req + (unat ?cs - 1)) mod unat ?cs = unat req + (unat ?cs - 1)"
      unfolding n by simp
    moreover have "(unat req + (unat ?cs - 1)) mod unat ?cs < unat ?cs" using cs0 by simp
    ultimately show "unat req \<le> unat needed * unat ?cs" "unat needed * unat ?cs < 2 ^ 32"
      using req cs0 by linarith+
  qed
  then have "unat needed \<noteq> 0" using req by (intro notI) simp
  then obtain m where m: "unat needed = Suc m" by (cases "unat needed") auto
  have "unat needed < 2 ^ 32" by (rule unat_u32_bound)
  then have mw: "(of_nat (Suc m) :: u32) = needed" unfolding m [symmetric] by simp
  from disk_table.get_entry [OF tab c(1)] c(3) obtain fd1 where
    g: "fat_get_next_cluster c fd = Some (eof_value (fs_impl_data fd), fd1)"
    and tab1: "disk_table drv k j N img t p sz fd1 f" and i1: "fs_impl_data fd1 = fs_impl_data fd" by auto
  from disk_table.claim_none_ok [OF tab1 _ _ c(1,2), of needed] l full i1 obtain fd2 f2 where
    cl: "fat_claim_clusters c needed fd1 = Some (0, fd2)" and tab2: "disk_table drv k j N img t p sz fd2 f2"
    and v2: "fat_view t p f2 = (fat_view t p f)(c := eof_value (fs_impl_data fd) AND fat_entry_mask t)" by auto
  have same: "fat_view t p f2 = fat_view t p f" unfolding v2 eof using c(3) by (simp add: fun_eq_iff)
  have "fat_allocate_clusters c ?r (stream_file s) fd = Some (ucast (needed * ?cs), fd2)"
    using nr cs g i1 cl mw
    by (simp add: fat_allocate_clusters_def Let_def m flip: needed_def)
  moreover have "min (ucast (needed * ?cs) :: u64) req = req"
  proof -
    have "unat (needed * ?cs) = unat needed * unat ?cs" using lim by (simp add: unat_word_ariths)
    then have "unat (ucast (needed * ?cs) :: u64) = unat needed * unat ?cs" using lim by (simp add: unat_ucast_small)
    with up show ?thesis by (auto simp: min_def word_le_nat_alt word_unat_eq_iff)
  qed
  ultimately show ?thesis
    using tab2 same by (intro exI [of _ fd2] exI [of _ f2]) (simp add: stream_allocate_space_def fat_io_def)
qed

theorem out_of_space_unreported_witness:
  "\<exists>fd'. stream_allocate_space fat_io 3 1000000
      (filesystem_create_stream \<lparr>location_on_disk = 3, disk_id = 0, file_size = 10, file_flags = 0,
         format_data = replicate 8 0\<rparr>)
      (sample_volume [0xFFF8, 0xFFFF, 4, 0xFFF8, 0xFFF8, 0xFFF8]) =
    Some (filesystem_create_stream \<lparr>location_on_disk = 3, disk_id = 0, file_size = 1000000, file_flags = 0,
         format_data = replicate 8 0\<rparr>, fd')"
proof -
  let ?es = "[0xFFF8, 0xFFFF, 4, 0xFFF8, 0xFFF8, 0xFFF8]"
  let ?s = "filesystem_create_stream \<lparr>location_on_disk = 3, disk_id = 0, file_size = 10, file_flags = 0,
         format_data = replicate 8 0\<rparr>"
  let ?m = "fat_view FAT_16 512 (sample_bytes ?es)" and ?i = "fs_impl_data (sample_volume ?es)"
  have v: "?m 0 = 0xFFF8" "?m 1 = 0xFFFF" "?m 2 = 4" "?m 3 = 0xFFF8" "?m 4 = 0xFFF8" "?m 5 = 0xFFF8"
    by (subst sample_view; simp)+
  have n: "num_clusters ?i = 6" "free_clusters ?i = []" "eof_value ?i = 0xFFF8" "cluster_size ?i = 512"
    by (simp_all add: sample_volume_def empty_fat_drive_def FAT16_EOF_def)
  have root: "\<not> is_fat_root ?i (stream_file ?s)" by (simp add: is_fat_root_def filesystem_create_stream_def)
  have six: "x = 0 \<or> x = 1 \<or> x = 2 \<or> x = 3 \<or> x = 4 \<or> x = 5" if "x < 6" for x :: u32
  proof -
    have "unat x < 6" using that by (simp add: word_less_nat_alt)
    then have "unat x = 0 \<or> unat x = 1 \<or> unat x = 2 \<or> unat x = 3 \<or> unat x = 4 \<or> unat x = 5" by arith
    then show ?thesis by (auto simp: word_unat_eq_iff)
  qed
  have "?m x \<noteq> FREE_CLUSTER" if "x < 6" for x
    using six [OF that] v by (elim disjE) (simp_all add: FREE_CLUSTER_def)
  moreover have "in_table FAT_16 512 x" if "x < 6" for x
    using that by (intro sample_in_table) (simp add: word_less_nat_alt)
  ultimately show ?thesis
    using out_of_space_unreported [OF sample_volume_table [of ?es], of 3 ?s 1000000] v n root
    by (auto simp: fat_entry_mask_def filesystem_create_stream_def)
qed

section \<open>Time stamps\<close>

lemma bit_small_int: "0 \<le> (x::int) \<Longrightarrow> x < 2 ^ m \<Longrightarrow> bit x n \<Longrightarrow> n < m"
  by (metis bit_take_bit_iff take_bit_int_eq_self)

lemma uint_field:
  fixes w :: u16
  assumes "k + m \<le> 16"
  shows "uint (drop_bit k (w AND push_bit k (mask m))) = take_bit m (drop_bit k (uint w))"
  by (rule bit_eqI) (use assms in \<open>auto simp: bit_simps\<close>)

lemma field_masks:
  "(0x001F :: u16) = push_bit 0 (mask 5)" "(0x07E0 :: u16) = push_bit 5 (mask 6)"
  "(0xF800 :: u16) = push_bit 11 (mask 5)" "(0x01E0 :: u16) = push_bit 5 (mask 4)"
  "(0xFE00 :: u16) = push_bit 9 (mask 7)"
  by (simp_all add: mask_eq_exp_minus_1)

lemma int_field_masks:
  "(0x001F :: int) = push_bit 0 (mask 5)" "(0x07E0 :: int) = push_bit 5 (mask 6)"
  "(0x01E0 :: int) = push_bit 5 (mask 4)" "(0xFE00 :: int) = push_bit 9 (mask 7)"
  by (simp_all add: mask_eq_exp_minus_1)

lemma time_fields:
  assumes "0 \<le> sec" "sec < 60" and "0 \<le> hour" "hour < 24"
  defines "W \<equiv> (drop_bit 1 sec AND 0x001F) OR (push_bit 5 sec AND 0x07E0) OR (push_bit 11 hour AND 0x07E0 :: int)"
  shows "uint ((word_of_int W :: u16) AND 0x001F) = sec div 2"
    and "uint (drop_bit 5 ((word_of_int W :: u16) AND 0x07E0)) = sec"
    and "uint (drop_bit 11 ((word_of_int W :: u16) AND 0xF800)) = 0"
proof -
  have s: "bit sec n \<Longrightarrow> n < 6" for n using bit_small_int [of sec 6 n] assms by simp
  have u: "uint (word_of_int W :: u16) = take_bit 16 W" by (simp add: unsigned_of_int)
  have "uint (drop_bit 0 ((word_of_int W :: u16) AND 0x001F)) = drop_bit 1 sec"
    unfolding field_masks
    by (subst uint_field, simp, subst u, unfold W_def int_field_masks, rule bit_eqI)
      (use s in \<open>force simp: bit_simps\<close>)
  then show "uint ((word_of_int W :: u16) AND 0x001F) = sec div 2" by (simp add: drop_bit_eq_div)
  show "uint (drop_bit 5 ((word_of_int W :: u16) AND 0x07E0)) = sec"
    unfolding field_masks
    by (subst uint_field, simp, subst u, unfold W_def int_field_masks, rule bit_eqI)
      (use s in \<open>force simp: bit_simps\<close>)
  show "uint (drop_bit 11 ((word_of_int W :: u16) AND 0xF800)) = 0"
    unfolding field_masks
    by (subst uint_field, simp, subst u, unfold W_def int_field_masks, rule bit_eqI)
      (use s in \<open>force simp: bit_simps\<close>)
qed

lemma date_fields:
  assumes "0 \<le> day" "day < 32" and "0 \<le> mon" "mon < 16" and "160 \<le> year" "year < 256"
  defines "W \<equiv> (day AND 0x001F) OR (push_bit 5 mon AND 0x01E0) OR (push_bit 9 year AND 0xFE00 :: int)"
  shows "uint ((word_of_int W :: u16) AND 0x001F) = day"
    and "uint (drop_bit 5 ((word_of_int W :: u16) AND 0x01E0)) = mon"
    and "uint (drop_bit 9 ((word_of_int W :: u16) AND 0xFE00)) = year - 128"
proof -
  have d: "bit day n \<Longrightarrow> n < 5" and m: "bit mon n \<Longrightarrow> n < 4" for n
    using bit_small_int [of day 5 n] bit_small_int [of mon 4 n] assms by simp_all
  have u: "uint (word_of_int W :: u16) = take_bit 16 W" by (simp add: unsigned_of_int)
  have "uint (drop_bit 0 ((word_of_int W :: u16) AND 0x001F)) = day"
    unfolding field_masks
    by (subst uint_field, simp, subst u, unfold W_def int_field_masks, rule bit_eqI)
      (use d m in \<open>force simp: bit_simps\<close>)
  then show "uint ((word_of_int W :: u16) AND 0x001F) = day" by simp
  show "uint (drop_bit 5 ((word_of_int W :: u16) AND 0x01E0)) = mon"
    unfolding field_masks
    by (subst uint_field, simp, subst u, unfold W_def int_field_masks, rule bit_eqI)
      (use d m in \<open>force simp: bit_simps\<close>)
  have "uint (drop_bit 9 ((word_of_int W :: u16) AND 0xFE00)) = take_bit 7 year"
    unfolding field_masks
    by (subst uint_field, simp, subst u, unfold W_def int_field_masks, rule bit_eqI)
      (use d m in \<open>force simp: bit_simps\<close>)
  also have "\<dots> = year - 128"
  proof -
    have "year mod 128 = (year - 128) mod 128" by simp
    also have "\<dots> = year - 128" using assms by (intro mod_pos_pos_trivial) simp_all
    finally show ?thesis by (simp add: take_bit_eq_mod)
  qed
  finally show "uint (drop_bit 9 ((word_of_int W :: u16) AND 0xFE00)) = year - 128" .
qed

text \<open>What survives of a time stamp the driver writes: reading it back gives the day and the month,
  but the minutes are the seconds, the hour is zero, and the year is 32 years too late (the year
  field is taken 80 years after instead of before).\<close>

theorem fat_time_stamps:
  assumes "0 \<le> tm_sec t" "tm_sec t < 60" and "0 \<le> tm_hour t" "tm_hour t < 24"
    and "0 \<le> tm_mday t" "tm_mday t < 32" and "0 \<le> tm_mon t" "tm_mon t < 12"
    and "80 \<le> tm_year t" "tm_year t < 176"
  shows "fat_time_to_time_t (time_t_time_to_fat_time t) =
    mktime \<lparr>tm_sec = 2 * (tm_sec t div 2), tm_min = tm_sec t, tm_hour = 0, tm_mday = tm_mday t,
      tm_mon = tm_mon t, tm_year = tm_year t + 32, tm_wday = 0, tm_yday = 0, tm_isdst = 0\<rparr>"
proof -
  note tf = time_fields [OF assms(1-4)]
  have m: "0 \<le> tm_mon t + 1" "tm_mon t + 1 < 16" "160 \<le> tm_year t + 80" "tm_year t + 80 < 256" using assms by simp_all
  note df = date_fields [OF assms(5,6) m]
  have two: "uint (push_bit 1 (w AND 0x001F)) = 2 * uint (w AND 0x001F)" for w :: u16
  proof -
    have "unat (w AND 0x001F) = unat w mod 2 ^ 5" using unat_bit_mask [of w 5] by simp
    also have "\<dots> < 2 ^ 5" by simp
    finally have "unat (w AND 0x001F) * 2 ^ 1 < 2 ^ LENGTH(16)" by simp
    then have "unat (push_bit 1 (w AND 0x001F)) = unat (w AND 0x001F) * 2 ^ 1" by (rule unat_shift_left_small)
    then show ?thesis unfolding uint_nat by (simp only: of_nat_mult) simp
  qed
  show ?thesis
    unfolding fat_time_to_time_t_def time_t_time_to_fat_time_def fat_time.simps two tf df by (simp add: add.commute)
qed

theorem fat_time_stamps_witness:
  "fat_time_to_time_t (time_t_time_to_fat_time \<lparr>tm_sec = 30, tm_min = 15, tm_hour = 12, tm_mday = 5, tm_mon = 2,
      tm_year = 121, tm_wday = 0, tm_yday = 0, tm_isdst = 0\<rparr>) =
    mktime \<lparr>tm_sec = 30, tm_min = 30, tm_hour = 0, tm_mday = 5, tm_mon = 2, tm_year = 153, tm_wday = 0,
      tm_yday = 0, tm_isdst = 0\<rparr>"
  by (subst fat_time_stamps) simp_all

end
