(* ===== verification/Directory.thy ===== *)
theory Directory
  imports Streams FatDir
begin

text \<open>
  Mounting (\<open>kernel/filesystem/drives.cpp\<close>) and directories and paths
  (\<open>kernel/filesystem/directory.cpp\<close>, \<open>filesystem_open_file\<close> of \<open>streams.cpp\<close>). The kernel's state is the list of virtual drives and
  the list of filesystem drivers; \<open>'v\<close> is the state of a virtual drive that its driver works on.
  Two things are asked of it: whether its disk is read-only, and to forget the private data of a
  driver that did not recognise it. \<open>islower_outside\<close> is what lies in front of the character table.
\<close>

section \<open>Mounting\<close>

record 'v fs_state =
  virtual_drives :: "'v virtual_drive list"
  fs_drivers :: "'v filesystem_driver list"
  disk_read_only :: "'v \<Rightarrow> bool"
  clear_impl_data :: "'v \<Rightarrow> 'v"
  islower_outside :: "byte \<Rightarrow> bool"

text \<open>The loop over the drivers: the first that does not decline decides.\<close>

fun try_drivers ::
  "('v \<Rightarrow> bool) \<Rightarrow> ('v \<Rightarrow> 'v) \<Rightarrow> 'v filesystem_driver list \<Rightarrow> 'v virtual_drive \<Rightarrow> 'v virtual_drive option" where
  "try_drivers ro clear [] d = Some d"
| "try_drivers ro clear (drv # drvs) d = do {
     (status, root, v) \<leftarrow> mount_disk drv (drive_state d);
     let d = d\<lparr>fs_driver := Some drv, drive_state := v,
                root_dir := (case root of None \<Rightarrow> root_dir d | Some r \<Rightarrow> Some r)\<rparr>;
     (if status \<noteq> UNKNOWN_FILESYSTEM \<and> status \<noteq> DRIVE_NOT_SUPPORTED
      then Some (if status = MOUNT_SUCCESS
                 then d\<lparr>mounted := True, vd_read_only := write_chunks drv = None \<or> ro (drive_state d)\<rparr>
                 else d)
      else try_drivers ro clear drvs (d\<lparr>fs_driver := None, drive_state := clear (drive_state d)\<rparr>))
   }"

text \<open>The status is an \<open>enum\<close>: its conversion to \<open>bool\<close> is whether it is not zero.\<close>

definition status_bool :: "mount_status \<Rightarrow> bool" where
  "status_bool s \<longleftrightarrow> s \<noteq> MOUNT_SUCCESS"

definition filesystem_mount_drive ::
  "('v \<Rightarrow> bool) \<Rightarrow> ('v \<Rightarrow> 'v) \<Rightarrow> 'v filesystem_driver list \<Rightarrow> 'v virtual_drive \<Rightarrow>
     (bool \<times> 'v virtual_drive) option" where
  "filesystem_mount_drive ro clear drvs d = do {
     d \<leftarrow> (if mounted d then Some d
          else case fs_driver d of
                 None \<Rightarrow> try_drivers ro clear drvs d
               | Some drv \<Rightarrow> do {
                   (status, root, v) \<leftarrow> mount_disk drv (drive_state d);
                   Some (d\<lparr>drive_state := v, mounted := status_bool status,
                           root_dir := (case root of None \<Rightarrow> root_dir d | Some r \<Rightarrow> Some r)\<rparr>)
                 });
     Some (mounted d, d)
   }"

definition filesystem_get_root_directory ::
  "u32 \<Rightarrow> 'v fs_state \<Rightarrow> (file_handle option \<times> 'v fs_state) option" where
  "filesystem_get_root_directory i st =
     (if unat i < length (virtual_drives st)
      then do {
        (ok, d) \<leftarrow> filesystem_mount_drive (disk_read_only st) (clear_impl_data st) (fs_drivers st)
                     (virtual_drives st ! unat i);
        Some (if ok then root_dir d else None, st\<lparr>virtual_drives := (virtual_drives st)[unat i := d]\<rparr>)
      }
      else None)"

definition syscall_get_root_directory ::
  "u32 \<Rightarrow> 'v fs_state \<Rightarrow> (file_handle option \<times> 'v fs_state) option" where
  "syscall_get_root_directory i st =
     (if length (virtual_drives st) \<le> unat i then Some (None, st)
      else filesystem_get_root_directory i st)"

section \<open>Paths\<close>

definition SLASH :: byte where "SLASH = 0x2F"
definition COLON :: byte where "COLON = 0x3A"

definition filesystem_create_path :: "bytes \<Rightarrow> bytes \<Rightarrow> bytes" where
  "filesystem_create_path dir nm =
     (if nm = ascii ''.'' then dir
      else if nm = ascii ''..''
      then (case find_last_of SLASH dir of None \<Rightarrow> dir | Some slash \<Rightarrow> take slash dir)
      else dir @ [SLASH] @ nm)"

text \<open>\<open>isspace\<close> and \<open>isdigit\<close> of \<open>clib/include/ctype.h\<close>, \<open>from_chars\<close> of \<open>cpplib/include/charconv\<close>.\<close>

definition isdigit :: "byte \<Rightarrow> bool" where
  "isdigit c \<longleftrightarrow> 48 \<le> c \<and> c \<le> 57"

definition isspace :: "byte \<Rightarrow> bool" where
  "isspace c \<longleftrightarrow> c = 0x20 \<or> c = 0x09 \<or> c = 0x0A \<or> c = 0x0B \<or> c = 0x0C \<or> c = 0x0D"

definition digits_value :: "bytes \<Rightarrow> u32" where
  "digits_value s = foldl (\<lambda>n c. n * 10 + ucast (c - 48)) 0 (takeWhile isdigit s)"

definition from_chars :: "bytes \<Rightarrow> u32 option" where
  "from_chars s =
     (let str = dropWhile isspace s
      in if str = [] then None else Some (digits_value str))"

section \<open>Directories\<close>

definition filesystem_open_directory_handle ::
  "file_handle \<Rightarrow> 'v fs_state \<Rightarrow> (directory_stream option \<times> 'v fs_state) option" where
  "filesystem_open_directory_handle f st =
     (if file_flags (file_data f) AND IS_DIR = 0 then Some (None, st)
      else
        let path = (case dir_path f of Some p \<Rightarrow> filesystem_create_path p (name f) | None \<Rightarrow> name f);
            d = \<lparr>full_path = Some path, dir_data = file_data f, file_list = []\<rparr>
        in do {
          (drive, drv) \<leftarrow> filesystem_get_drive (virtual_drives st) (disk_id (file_data f));
          (d, v) \<leftarrow> read_dir drv d (dir_data d) (drive_state drive);
          Some (Some d, st\<lparr>virtual_drives := put_state (virtual_drives st) (disk_id (file_data f)) v\<rparr>)
        })"

text \<open>
  Deleting: a directory is opened to see that it holds only \<open>.\<close> and \<open>..\<close>; the handle that opened it is
  the file's.
\<close>

definition filesystem_delete_file ::
  "file_handle \<Rightarrow> 'v fs_state \<Rightarrow> (int \<times> 'v fs_state) option" where
  "filesystem_delete_file f st = do {
     (drive, drv) \<leftarrow> filesystem_get_drive (virtual_drives st) (disk_id (file_data f));
     (if vd_read_only drive then Some (-1, st)
      else do {
        (empty, st) \<leftarrow>
          (if file_flags (file_data f) AND IS_DIR \<noteq> 0
           then do {
             (dir, st) \<leftarrow> filesystem_open_directory_handle f st;
             d \<leftarrow> dir;
             Some (length (file_list d) \<le> 2 \<and>
                   list_all (\<lambda>f. name f = ascii ''.'' \<or> name f = ascii ''..'') (file_list d), st)
           }
           else Some (True, st));
        (if \<not> empty then Some (-1, st)
         else do {
           (drive, drv) \<leftarrow> filesystem_get_drive (virtual_drives st) (disk_id (file_data f));
           del \<leftarrow> delete_file drv;
           (r, v) \<leftarrow> del (file_data f) (drive_state drive);
           Some (r, st\<lparr>virtual_drives := put_state (virtual_drives st) (disk_id (file_data f)) v\<rparr>)
         })
      })
   }"

definition find_file :: "(byte \<Rightarrow> bool) \<Rightarrow> file_handle list \<Rightarrow> bytes \<Rightarrow> file_handle option" where
  "find_file low fs fname =
     map_option (\<lambda>i. fs ! i) (find_if (\<lambda>a. filesystem_names_identical low (name a) fname) fs)"

text \<open>The new file is the last of the list the driver leaves; an empty list has no last.\<close>

definition filesystem_create_file ::
  "directory_stream \<Rightarrow> bytes \<Rightarrow> u32 \<Rightarrow> 'v fs_state \<Rightarrow>
     (file_handle option \<times> directory_stream \<times> 'v fs_state) option" where
  "filesystem_create_file d fname flags st = do {
     (drive, drv) \<leftarrow> filesystem_get_drive (virtual_drives st) (disk_id (dir_data d));
     (if file_flags (dir_data d) AND IS_READONLY \<noteq> 0 \<or> vd_read_only drive then Some (None, d, st)
      else do {
        cr \<leftarrow> create_file drv;
        (d, v) \<leftarrow> cr fname flags d (drive_state drive);
        (if file_list d = [] then None
         else Some (Some (List.last (file_list d)), d,
           st\<lparr>virtual_drives := put_state (virtual_drives st) (disk_id (dir_data d)) v\<rparr>))
      })
   }"

text \<open>The part of a path behind its leading slashes.\<close>

definition skip_slashes :: "bytes \<Rightarrow> bytes" where
  "skip_slashes path = dropWhile (\<lambda>c. c = SLASH) path"

definition drive_number :: "bytes \<Rightarrow> nat \<Rightarrow> u32 option" where
  "drive_number path num_drives =
     (case from_chars path of
        None \<Rightarrow> None
      | Some drive \<Rightarrow> if num_drives \<le> unat drive then None else Some drive)"

lemma skip_slashes_length: "length (skip_slashes path) \<le> length path"
  by (simp add: skip_slashes_def length_dropWhile_le)

lemma rest_shorter:
  "skip_slashes path \<noteq> [] \<Longrightarrow> Suc (2 * (length (skip_slashes path) - Suc n)) < 2 * length path"
  using skip_slashes_length [of path] by (cases "skip_slashes path") auto

text \<open>
  \<open>find_file_by_path\<close> and \<open>do_find_file_by_path\<close>, which call each other. The directory searched is
  returned as the search leaves it; directories opened on the way are closed again.
\<close>

function (sequential)
  find_file_by_path ::
    "directory_stream option \<Rightarrow> bytes \<Rightarrow> u32 \<Rightarrow> u32 \<Rightarrow> 'v fs_state \<Rightarrow>
       (file_handle option \<times> directory_stream option \<times> 'v fs_state) option"
  and do_find_file_by_path ::
    "directory_stream \<Rightarrow> bytes \<Rightarrow> u32 \<Rightarrow> u32 \<Rightarrow> 'v fs_state \<Rightarrow>
       (file_handle option \<times> directory_stream \<times> 'v fs_state) option" where
  "find_file_by_path d path mode flags st =
     (let relative = (\<lambda>st.
            case d of
              None \<Rightarrow> Some (None, None, st)
            | Some d \<Rightarrow> Option.bind (do_find_file_by_path d path mode flags st)
                          (\<lambda>(r, d, st). Some (r, Some d, st)))
      in case find_if (\<lambda>c. c = COLON) path of
           None \<Rightarrow> relative st
         | Some colon \<Rightarrow>
             (case drive_number path (length (virtual_drives st)) of
                None \<Rightarrow> Some (None, d, st)
              | Some drive \<Rightarrow>
                  Option.bind (filesystem_get_root_directory drive st) (\<lambda>(r_dir, st).
                    case r_dir of
                      None \<Rightarrow> relative st
                    | Some r \<Rightarrow>
                        if list_all (\<lambda>c. c = SLASH) (drop (colon + 1) path) then Some (Some r, d, st)
                        else Option.bind (filesystem_open_directory_handle r st) (\<lambda>(ds, st).
                               case ds of
                                 None \<Rightarrow> None
                               | Some ds \<Rightarrow>
                                   Option.bind (do_find_file_by_path ds (drop (colon + 1) path) mode flags st)
                                     (\<lambda>(f, _, st). Some (f, d, st))))))"
| "do_find_file_by_path d path mode flags st =
     (let path' = skip_slashes path in
      if path' = [] then Some (None, d, st)
      else case find_if (\<lambda>c. c = SLASH) path' of
             Some dir_end \<Rightarrow>
               (case find_file (islower_outside st) (file_list d) (take dir_end path') of
                  None \<Rightarrow> Some (None, d, st)
                | Some it \<Rightarrow>
                    if file_flags (file_data it) AND IS_DIR = 0 then Some (None, d, st)
                    else if drop (dir_end + 1) path' = [] then Some (Some it, d, st)
                    else Option.bind (filesystem_open_directory_handle it st) (\<lambda>(dir, st).
                           case dir of
                             None \<Rightarrow> Some (None, d, st)
                           | Some dir \<Rightarrow>
                               Option.bind (find_file_by_path (Some dir) (drop (dir_end + 1) path') mode flags st)
                                 (\<lambda>(f, _, st). Some (f, d, st))))
           | None \<Rightarrow>
               (case find_file (islower_outside st) (file_list d) path' of
                  Some it \<Rightarrow> Some (Some it, d, st)
                | None \<Rightarrow> if mode AND FILE_CREATE \<noteq> 0 then filesystem_create_file d path' flags st
                          else Some (None, d, st)))"
  by pat_completeness auto

termination
  by (relation "measure (\<lambda>x. case x of Inl (_, path, _) \<Rightarrow> 2 * length path + 1 | Inr (_, path, _) \<Rightarrow> 2 * length path)")
    (auto simp: rest_shorter)

section \<open>Information about files and the system calls\<close>

record file_info =
  info_size :: u64
  info_flags :: u32
  info_created :: "64 word"
  info_modified :: "64 word"
  full_path_len :: nat
  info_path :: bytes

text \<open>\<open>dst\<close> is the caller's object; its path is an array of \<open>MAX_PATH\<close> bytes.\<close>

definition filesystem_get_file_info :: "file_info \<Rightarrow> file_handle \<Rightarrow> (int \<times> file_info) option" where
  "filesystem_get_file_info dst src =
     (if MAX_PATH \<le> length (name src) then None
      else do {
        (buf, len) \<leftarrow>
          (case dir_path src of
             Some p \<Rightarrow> do {
               buf \<leftarrow> patch 0 p (info_path dst);
               buf \<leftarrow> patch (length p) [SLASH] buf;
               Some (buf, length p + 1)
             }
           | None \<Rightarrow> Some (info_path dst, 0));
        buf \<leftarrow> patch len (name src @ [0]) buf;
        Some (0, dst\<lparr>info_path := buf, full_path_len := len + length (name src),
                info_size := file_size (file_data src), info_flags := file_flags (file_data src),
                info_created := time_created src, info_modified := time_modified src\<rparr>)
      })"

definition syscall_get_file_info ::
  "file_info option \<Rightarrow> file_handle option \<Rightarrow> (int \<times> file_info option) option" where
  "syscall_get_file_info dst src =
     (case (dst, src) of
        (Some d, Some s) \<Rightarrow> map_option (\<lambda>(r, d). (r, Some d)) (filesystem_get_file_info d s)
      | _ \<Rightarrow> Some (-1, dst))"

definition filesystem_open_directory ::
  "directory_stream option \<Rightarrow> bytes \<Rightarrow> u32 \<Rightarrow> 'v fs_state \<Rightarrow>
     (directory_stream option \<times> directory_stream option \<times> 'v fs_state) option" where
  "filesystem_open_directory rel path mode st =
     Option.bind (find_file_by_path rel path mode IS_DIR st) (\<lambda>(f, rel, st).
       case f of
         None \<Rightarrow> Some (None, rel, st)
       | Some f \<Rightarrow> Option.bind (filesystem_open_directory_handle f st) (\<lambda>(d, st). Some (d, rel, st)))"

definition syscall_open_directory_handle ::
  "file_handle option \<Rightarrow> 'v fs_state \<Rightarrow> (directory_stream option \<times> 'v fs_state) option" where
  "syscall_open_directory_handle f st =
     (case f of None \<Rightarrow> Some (None, st) | Some f \<Rightarrow> filesystem_open_directory_handle f st)"

definition syscall_get_file_in_dir :: "directory_stream option \<Rightarrow> nat \<Rightarrow> file_handle option" where
  "syscall_get_file_in_dir d i =
     (case d of None \<Rightarrow> None | Some d \<Rightarrow> if i < length (file_list d) then Some (file_list d ! i) else None)"

definition syscall_find_file_by_path ::
  "directory_stream option \<Rightarrow> bytes option \<Rightarrow> u32 \<Rightarrow> u32 \<Rightarrow> 'v fs_state \<Rightarrow>
     (file_handle option \<times> directory_stream option \<times> 'v fs_state) option" where
  "syscall_find_file_by_path d nm mode flags st =
     (case nm of None \<Rightarrow> Some (None, d, st) | Some path \<Rightarrow> find_file_by_path d path mode flags st)"

definition syscall_delete_file :: "file_handle option \<Rightarrow> 'v fs_state \<Rightarrow> (int \<times> 'v fs_state) option" where
  "syscall_delete_file f st =
     (case f of None \<Rightarrow> Some (-1, st) | Some f \<Rightarrow> filesystem_delete_file f st)"

definition filesystem_open_file ::
  "directory_stream option \<Rightarrow> bytes \<Rightarrow> u32 \<Rightarrow> 'v fs_state \<Rightarrow>
     (file_stream option \<times> directory_stream option \<times> 'v fs_state) option" where
  "filesystem_open_file rel path mode st =
     Option.bind (find_file_by_path rel path mode 0 st) (\<lambda>(f, rel, st).
       case f of
         None \<Rightarrow> Some (None, rel, st)
       | Some f \<Rightarrow> Option.bind (filesystem_open_file_handle (virtual_drives st) f mode)
                     (\<lambda>s. Some (s, rel, st)))"

definition syscall_open_file ::
  "directory_stream option \<Rightarrow> bytes option \<Rightarrow> u32 \<Rightarrow> 'v fs_state \<Rightarrow>
     (file_stream option \<times> directory_stream option \<times> 'v fs_state) option" where
  "syscall_open_file rel path mode st =
     (case path of None \<Rightarrow> Some (None, rel, st) | Some path \<Rightarrow> filesystem_open_file rel path mode st)"

section \<open>Resolving a path in a tree\<close>

text \<open>
  The contract of directories that stay as they are: \<open>ls\<close> lists a directory, and opening one gives
  that list, whatever the operation does to the state behind it.
\<close>

locale directory_tree =
  fixes inv :: "'v fs_state \<Rightarrow> bool" and known :: "file_handle \<Rightarrow> bool"
    and ls :: "file_handle \<Rightarrow> file_handle list" and low :: "byte \<Rightarrow> bool"
  assumes table: "inv st \<Longrightarrow> islower_outside st = low"
    and listed: "inv st \<Longrightarrow> known it \<Longrightarrow> f \<in> set (ls it) \<Longrightarrow> known f"
    and opened: "inv st \<Longrightarrow> known it \<Longrightarrow> file_flags (file_data it) AND IS_DIR \<noteq> 0 \<Longrightarrow>
      \<exists>d st'. filesystem_open_directory_handle it st = Some (Some d, st') \<and> file_list d = ls it \<and> inv st'"

text \<open>The names of a path and the walk along them.\<close>

fun walk :: "(byte \<Rightarrow> bool) \<Rightarrow> (file_handle \<Rightarrow> file_handle list) \<Rightarrow> file_handle list \<Rightarrow> bytes list \<Rightarrow> file_handle option" where
  "walk low ls fs [] = None"
| "walk low ls fs [n] = find_file low fs n"
| "walk low ls fs (n # m # ns) =
     (case find_file low fs n of
        None \<Rightarrow> None
      | Some it \<Rightarrow> if file_flags (file_data it) AND IS_DIR = 0 then None else walk low ls (ls it) (m # ns))"

definition is_name :: "bytes \<Rightarrow> bool" where
  "is_name n \<longleftrightarrow> n \<noteq> [] \<and> SLASH \<notin> set n \<and> COLON \<notin> set n"

fun joined :: "bytes list \<Rightarrow> bytes" where
  "joined [] = []"
| "joined [n] = n"
| "joined (n # m # ns) = n @ SLASH # joined (m # ns)"

lemma find_file_in: "find_file low fs n = Some it \<Longrightarrow> it \<in> set fs"
  by (auto simp: find_file_def dest!: find_if_Some)

lemma joined_colon: "\<forall>n \<in> set ns. is_name n \<Longrightarrow> COLON \<notin> set (joined ns)"
  by (induction ns rule: joined.induct) (auto simp: is_name_def SLASH_def COLON_def)

lemma skip_name: "is_name n \<Longrightarrow> skip_slashes (n @ xs) = n @ xs"
  by (cases n) (auto simp: is_name_def skip_slashes_def)

lemma joined_nonempty: "\<forall>n \<in> set (m # ns). is_name n \<Longrightarrow> joined (m # ns) \<noteq> []"
  by (cases ns) (auto simp: is_name_def)

context directory_tree
begin

lemma find_walk:
  "inv st \<Longrightarrow> \<forall>f \<in> set (file_list d). known f \<Longrightarrow> \<forall>n \<in> set ns. is_name n \<Longrightarrow> ns \<noteq> [] \<Longrightarrow> mode AND FILE_CREATE = 0 \<Longrightarrow>
   \<exists>st'. do_find_file_by_path d (joined ns) mode flags st = Some (walk low ls (file_list d) ns, d, st') \<and> inv st'"
proof (induction ns arbitrary: d st rule: joined.induct)
  case (2 n)
  then have n: "is_name n" by simp
  then have "find_if (\<lambda>c. c = SLASH) n = None" by (auto simp: find_if_None is_name_def)
  with 2 n skip_name [OF n, of "[]"] show ?case
    by (auto simp: Let_def table is_name_def split: option.split)
next
  case (3 n m ns)
  then have n: "is_name n" by simp
  have pos: "find_if (\<lambda>c. c = SLASH) (n @ SLASH # joined (m # ns)) = Some (length n)"
    using n by (intro find_if_append) (auto simp: is_name_def)
  have rest: "joined (m # ns) \<noteq> []" using 3(4) by (intro joined_nonempty) simp
  have colon: "find_if (\<lambda>c. c = COLON) (joined (m # ns)) = None"
    using joined_colon [of "m # ns"] 3(4) by (auto simp: find_if_None)
  have path: "skip_slashes (joined (n # m # ns)) = n @ SLASH # joined (m # ns)"
    using skip_name [OF n] by simp
  show ?case
  proof (cases "find_file low (file_list d) n")
    case None
    then show ?thesis using pos path 3(2) table by (simp add: Let_def)
  next
    case (Some it)
    show ?thesis
    proof (cases "file_flags (file_data it) AND IS_DIR = 0")
      case True
      then show ?thesis using Some pos path 3(2) table by (simp add: Let_def)
    next
      case False
      have k: "known it" using find_file_in [OF Some] 3(3) by blast
      from opened [OF 3(2) k False] obtain d1 st1 where
        o: "filesystem_open_directory_handle it st = Some (Some d1, st1)" and l: "file_list d1 = ls it"
        and i1: "inv st1" by blast
      have "\<forall>f \<in> set (file_list d1). known f" using listed [OF 3(2) k] l by simp
      from 3(1) [OF i1 this] 3(4,6) obtain st2 where
        "do_find_file_by_path d1 (joined (m # ns)) mode flags st1 = Some (walk low ls (ls it) (m # ns), d1, st2)"
        and "inv st2" by (auto simp: l)
      then show ?thesis
        using Some False pos path rest colon o 3(2) table by (simp add: Let_def)
    qed
  qed
qed simp

end

text \<open>
  States whose \<open>n\<close> drives are mounted, with drivers that list the directories of \<open>ls\<close> in any state
  of the drive; the files of a directory are on its drive.
\<close>

definition opened_dir :: "file_handle \<Rightarrow> directory_stream" where
  "opened_dir it = \<lparr>full_path = Some (case dir_path it of Some p \<Rightarrow> filesystem_create_path p (name it) | None \<Rightarrow> name it),
     dir_data = file_data it, file_list = []\<rparr>"

definition lists :: "(file_handle \<Rightarrow> file_handle list) \<Rightarrow> nat \<Rightarrow> 'v filesystem_driver \<Rightarrow> bool" where
  "lists ls i drv \<longleftrightarrow> read_chunks drv \<noteq> None \<and>
     (\<forall>it v. unat (disk_id (file_data it)) = i \<longrightarrow> file_flags (file_data it) AND IS_DIR \<noteq> 0 \<longrightarrow>
        (\<exists>v'. read_dir drv (opened_dir it) (file_data it) v = Some ((opened_dir it)\<lparr>file_list := ls it\<rparr>, v')))"

definition static_fs ::
  "nat \<Rightarrow> (file_handle \<Rightarrow> file_handle list) \<Rightarrow> (byte \<Rightarrow> bool) \<Rightarrow> 'v fs_state \<Rightarrow> bool" where
  "static_fs n ls low st \<longleftrightarrow> islower_outside st = low \<and> length (virtual_drives st) = n \<and>
     (\<forall>it. unat (disk_id (file_data it)) < n \<longrightarrow>
        (\<forall>f \<in> set (ls it). disk_id (file_data f) = disk_id (file_data it))) \<and>
     (\<forall>i < n. mounted (virtual_drives st ! i) \<and>
        (\<exists>drv. fs_driver (virtual_drives st ! i) = Some drv \<and> lists ls i drv))"

definition on_drive :: "nat \<Rightarrow> file_handle \<Rightarrow> bool" where
  "on_drive n f \<longleftrightarrow> unat (disk_id (file_data f)) < n"

lemma static_fs_open:
  assumes st: "static_fs n ls low st" and it: "on_drive n it" "file_flags (file_data it) AND IS_DIR \<noteq> 0"
  shows "\<exists>d st'. filesystem_open_directory_handle it st = Some (Some d, st') \<and> file_list d = ls it \<and>
    static_fs n ls low st'"
proof -
  let ?i = "unat (disk_id (file_data it))"
  have i: "?i < n" using it(1) by (simp add: on_drive_def)
  from st i obtain drv where m: "mounted (virtual_drives st ! ?i)" and dr: "fs_driver (virtual_drives st ! ?i) = Some drv"
    and l: "lists ls ?i drv" and len: "length (virtual_drives st) = n"
    unfolding static_fs_def by blast
  from l it(2) obtain v' where rd: "read_dir drv (opened_dir it) (file_data it) (drive_state (virtual_drives st ! ?i)) =
      Some ((opened_dir it)\<lparr>file_list := ls it\<rparr>, v')" unfolding lists_def by blast
  from l have rc: "read_chunks drv \<noteq> None" by (simp add: lists_def)
  let ?st = "st\<lparr>virtual_drives := put_state (virtual_drives st) (disk_id (file_data it)) v'\<rparr>"
  have "filesystem_open_directory_handle it st = Some (Some ((opened_dir it)\<lparr>file_list := ls it\<rparr>), ?st)"
    using i len m dr rc rd it(2)
    by (simp add: filesystem_open_directory_handle_def filesystem_get_drive_def opened_dir_def Let_def)
  moreover have "static_fs n ls low ?st"
    using st i by (auto simp: static_fs_def put_state_def nth_list_update)
  ultimately show ?thesis by simp
qed

interpretation static: directory_tree "static_fs n ls low" "on_drive n" ls low for n ls low
proof unfold_locales
  fix st it f
  assume st: "static_fs n ls low st"
  then show "islower_outside st = low" by (simp add: static_fs_def)
  assume it: "on_drive n it"
  show "f \<in> set (ls it) \<Longrightarrow> on_drive n f"
    using st it by (simp add: static_fs_def on_drive_def)
  assume "file_flags (file_data it) AND IS_DIR \<noteq> 0"
  with st it show "\<exists>d st'. filesystem_open_directory_handle it st = Some (Some d, st') \<and> file_list d = ls it \<and>
      static_fs n ls low st'" by (rule static_fs_open)
qed

section \<open>Properties\<close>

text \<open>C5: looking up a path refines the walk in the directory tree: for any sequence of names, on drives whose
  directories stay as they are, \<open>find_file_by_path\<close> with the names joined by slashes returns exactly
  what following them from the open directory gives (nothing, if a name is missing or an inner one
  is not a directory), and leaves the directory it started from as it was.\<close>

theorem path_lookup:
  assumes "static_fs n ls low st" and "\<forall>f \<in> set (file_list d). on_drive n f"
    and "\<forall>x \<in> set ns. is_name x" and "ns \<noteq> []" and "mode AND FILE_CREATE = 0"
  shows "\<exists>st'. find_file_by_path (Some d) (joined ns) mode flags st = Some (walk low ls (file_list d) ns, Some d, st') \<and>
    static_fs n ls low st'"
proof -
  have "find_if (\<lambda>c. c = COLON) (joined ns) = None"
    using joined_colon assms(3) by (auto simp: find_if_None)
  moreover from static.find_walk [OF assms, of flags] obtain st' where
    "do_find_file_by_path d (joined ns) mode flags st = Some (walk low ls (file_list d) ns, d, st')"
    and "static_fs n ls low st'" by blast
  ultimately show ?thesis by (simp add: Let_def del: do_find_file_by_path.simps)
qed

definition sample_handle :: "string \<Rightarrow> u32 \<Rightarrow> u32 \<Rightarrow> file_handle" where
  "sample_handle nm loc flags = \<lparr>dir_path = None, name = ascii nm,
     file_data = \<lparr>location_on_disk = loc, disk_id = 0, file_size = 0, file_flags = flags, format_data = []\<rparr>,
     time_created = 0, time_modified = 0\<rparr>"

definition sample_ls :: "file_handle \<Rightarrow> file_handle list" where
  "sample_ls it = (if location_on_disk (file_data it) = 2 \<and> disk_id (file_data it) = 0 then [sample_handle ''sh'' 3 0] else [])"

definition listing_driver :: "unit filesystem_driver" where
  "listing_driver = \<lparr>mount_disk = (\<lambda>v. Some (MOUNT_SUCCESS, Some (sample_handle ''0:'' 1 IS_DIR), v)),
     read_chunks = Some (\<lambda>dst _ _ _ _ v. Some (dst, 0, v)), write_chunks = None, allocate_chunks = None,
     read_dir = (\<lambda>d data v. Some (d\<lparr>file_list := if location_on_disk data = 2 \<and> disk_id data = 0
        then [sample_handle ''sh'' 3 0] else []\<rparr>, v)),
     flush_file = None, create_file = None, delete_file = None\<rparr>"

definition sample_fs :: "unit fs_state" where
  "sample_fs = \<lparr>virtual_drives = [\<lparr>fs_driver = Some listing_driver, drive_state = (),
       root_dir = Some (sample_handle ''0:'' 1 IS_DIR), mounted = True, vd_read_only = True\<rparr>],
     fs_drivers = [listing_driver], disk_read_only = (\<lambda>_. True), clear_impl_data = (\<lambda>v. v),
     islower_outside = (\<lambda>_. False)\<rparr>"

lemma sample_fs_static: "static_fs 1 sample_ls (\<lambda>_. False) sample_fs"
  by (auto simp: static_fs_def sample_fs_def lists_def listing_driver_def sample_ls_def sample_handle_def opened_dir_def)

theorem path_lookup_witness:
  "\<exists>st'. find_file_by_path (Some \<lparr>full_path = None, dir_data = file_data (sample_handle ''0:'' 1 IS_DIR),
       file_list = [sample_handle ''x'' 4 0, sample_handle ''bin'' 2 IS_DIR]\<rparr>)
     (ascii ''BIN/sh'') 0 0 sample_fs =
   Some (Some (sample_handle ''sh'' 3 0), Some \<lparr>full_path = None, dir_data = file_data (sample_handle ''0:'' 1 IS_DIR),
       file_list = [sample_handle ''x'' 4 0, sample_handle ''bin'' 2 IS_DIR]\<rparr>, st')"
proof -
  let ?d = "\<lparr>full_path = None, dir_data = file_data (sample_handle ''0:'' 1 IS_DIR),
       file_list = [sample_handle ''x'' 4 0, sample_handle ''bin'' 2 IS_DIR]\<rparr>"
  have j: "joined [ascii ''BIN'', ascii ''sh''] = ascii ''BIN/sh''"
    by (simp add: ascii_def of_char_def SLASH_def)
  have w: "walk (\<lambda>_. False) sample_ls (file_list ?d) [ascii ''BIN'', ascii ''sh''] = Some (sample_handle ''sh'' 3 0)"
    by (simp add: find_file_def filesystem_names_identical_def toupper_def islower_def sample_handle_def ascii_def
        of_char_def sample_ls_def IS_DIR_def)
  have "\<forall>x \<in> set [ascii ''BIN'', ascii ''sh'']. is_name x"
    by (simp add: is_name_def ascii_def of_char_def SLASH_def COLON_def)
  moreover have "\<forall>f \<in> set (file_list ?d). on_drive 1 f" by (simp add: on_drive_def sample_handle_def)
  ultimately show ?thesis
    using path_lookup [OF sample_fs_static, of ?d "[ascii ''BIN'', ascii ''sh'']" 0 0] unfolding j w by auto
qed

text \<open>What precedes the colon of a path is not checked: when it does not begin with a digit or white space,
  \<open>from_chars\<close> reports success with the value zero, so any such drive name (\<open>foo:\<close>) names drive 0.\<close>

theorem drive_name_unchecked:
  assumes "COLON \<notin> set nm" and "nm = [] \<or> \<not> isdigit (hd nm) \<and> \<not> isspace (hd nm)"
    and "filesystem_get_root_directory 0 st = Some (Some r, st')" and "virtual_drives st \<noteq> []"
  shows "find_file_by_path d (nm @ [COLON]) mode flags st = Some (Some r, d, st')"
proof -
  have "find_if (\<lambda>c. c = COLON) (nm @ COLON # []) = Some (length nm)"
    using assms(1) by (intro find_if_append) auto
  moreover have "from_chars (nm @ [COLON]) = Some 0"
  proof (cases nm)
    case Nil
    then show ?thesis by (simp add: from_chars_def digits_value_def isspace_def isdigit_def COLON_def)
  next
    case (Cons c cs)
    then show ?thesis using assms(2) by (simp add: from_chars_def digits_value_def Let_def)
  qed
  ultimately show ?thesis
    using assms(3,4) by (simp add: Let_def drive_number_def)
qed

theorem drive_name_unchecked_witness:
  "find_file_by_path None (ascii ''foo'' @ [COLON]) 0 0 sample_fs =
     Some (Some (sample_handle ''0:'' 1 IS_DIR), None, sample_fs)"
  by (rule drive_name_unchecked)
    (simp_all add: ascii_def of_char_def COLON_def isdigit_def isspace_def sample_fs_def
      filesystem_get_root_directory_def filesystem_mount_drive_def)

text \<open>Retrying a failed mount records the opposite of what happened: after a first attempt ended in
  \<open>MOUNT_FAILURE\<close>, the driver is kept and the next attempt stores its status as a truth value, so a mount
  that succeeds leaves the drive not mounted and one that fails leaves it mounted.\<close>

theorem remount_inverted:
  assumes "\<not> mounted d" and "fs_driver d = None"
    and "mount_disk drv (drive_state d) = Some (MOUNT_FAILURE, r, v)"
    and "mount_disk drv v = Some (status, r', v')"
  shows "\<exists>d1 d2. filesystem_mount_drive ro clear (drv # drvs) d = Some (False, d1) \<and>
    filesystem_mount_drive ro clear (drv # drvs) d1 = Some (status \<noteq> MOUNT_SUCCESS, d2) \<and>
    mounted d2 = (status \<noteq> MOUNT_SUCCESS)"
  using assms by (simp add: filesystem_mount_drive_def status_bool_def)

theorem remount_inverted_witness:
  "\<exists>d1 d2. filesystem_mount_drive (\<lambda>_. True) (\<lambda>v. v)
      [listing_driver\<lparr>mount_disk := \<lambda>v. Some (MOUNT_FAILURE, None, v)\<rparr>]
      \<lparr>fs_driver = None, drive_state = (), root_dir = None, mounted = False, vd_read_only = False\<rparr> = Some (False, d1) \<and>
    filesystem_mount_drive (\<lambda>_. True) (\<lambda>v. v)
      [listing_driver\<lparr>mount_disk := \<lambda>v. Some (MOUNT_FAILURE, None, v)\<rparr>] d1 = Some (True, d2)"
  using remount_inverted [of "\<lparr>fs_driver = None, drive_state = (), root_dir = None, mounted = False, vd_read_only = False\<rparr>"
      "listing_driver\<lparr>mount_disk := \<lambda>v. Some (MOUNT_FAILURE, None, v)\<rparr>" None "()" MOUNT_FAILURE None "()" "\<lambda>_. True" "\<lambda>v. v" "[]"]
  by auto

text \<open>The full path of a file and the 255 bytes it is given: if directory, slash, name and the final zero
  fit, \<open>filesystem_get_file_info\<close> stores exactly that path; if they do not, it writes past the array
  although the name alone passed the check.\<close>

theorem file_info_path:
  assumes "length (info_path dst) = MAX_PATH" and "length (name f) < MAX_PATH" and "dir_path f = Some p"
  shows "if length p + length (name f) + 2 \<le> MAX_PATH
    then \<exists>dst'. filesystem_get_file_info dst f = Some (0, dst') \<and>
      take (full_path_len dst' + 1) (info_path dst') = p @ [SLASH] @ name f @ [0] \<and>
      length (info_path dst') = MAX_PATH
    else filesystem_get_file_info dst f = None"
  using assms by (auto simp: filesystem_get_file_info_def patch_def)

theorem file_info_path_witness:
  "\<exists>dst'. filesystem_get_file_info \<lparr>info_size = 0, info_flags = 0, info_created = 0, info_modified = 0,
      full_path_len = 0, info_path = replicate MAX_PATH 0\<rparr>
      ((sample_handle ''sh'' 3 0)\<lparr>dir_path := Some (ascii ''0:/bin'')\<rparr>) = Some (0, dst') \<and>
    take (full_path_len dst' + 1) (info_path dst') = ascii ''0:/bin'' @ [SLASH] @ ascii ''sh'' @ [0]"
  using file_info_path [of "\<lparr>info_size = 0, info_flags = 0, info_created = 0, info_modified = 0,
      full_path_len = 0, info_path = replicate MAX_PATH 0\<rparr>"
      "(sample_handle ''sh'' 3 0)\<lparr>dir_path := Some (ascii ''0:/bin'')\<rparr>" "ascii ''0:/bin''"]
  by (auto simp: sample_handle_def ascii_def MAX_PATH_def)

text \<open>\<open>filesystem_create_path\<close> undoes a step: going into a subdirectory and then to \<open>..\<close> gives the path
  one started from, and \<open>.\<close> stays.\<close>

theorem create_path_parent:
  assumes "SLASH \<notin> set n" and "n \<noteq> ascii ''.''" and "n \<noteq> ascii ''..''"
  shows "filesystem_create_path (filesystem_create_path dir n) (ascii ''..'') = dir \<and>
    filesystem_create_path dir (ascii ''.'') = dir"
proof -
  have ne: "ascii ''..'' \<noteq> ascii ''.''" by (simp add: ascii_def)
  have "find_if (\<lambda>x. x = SLASH) (rev n @ SLASH # rev dir) = Some (length n)"
    using assms(1) find_if_append [of "rev n" "\<lambda>x. x = SLASH" SLASH "rev dir"] by auto
  then have "find_last_of SLASH (dir @ SLASH # n) = Some (length dir)"
    by (simp add: find_last_of_def)
  then show ?thesis using assms ne by (simp add: filesystem_create_path_def)
qed

theorem create_path_parent_witness:
  "filesystem_create_path (filesystem_create_path (ascii ''0:/bin'') (ascii ''x'')) (ascii ''..'') = ascii ''0:/bin''"
  using create_path_parent [of "ascii ''x''" "ascii ''0:/bin''"]
  by (simp add: ascii_def of_char_def SLASH_def)

end
