(* ===== verification/Partitions.thy ===== *)
theory Partitions
  imports Devices
begin

text \<open>
  Drives and their partitions: the lists of \<open>kernel/filesystem/drives.cpp\<close>
  (\<open>filesystem_add_drive\<close>, \<open>filesystem_add_virtual_drive\<close>, \<open>filesystem_add_partitioner\<close>) and the
  partitioner of \<open>drivers/formats/mbr.cpp\<close>. A pointer to a drive or a virtual drive is its position
  in the list that keeps it; both lists only grow.
\<close>

section \<open>The lists\<close>

text \<open>
  A virtual drive as the functions of this theory see it; the driver mounted on it and its private
  data are the record of \<open>FsTypes\<close>, the root directory belongs to \<open>Directory\<close>.
\<close>

record volume =
  vol_disk :: nat
  vol_id :: nat
  vol_first_block :: u32
  vol_num_blocks :: u32
  vol_block_size :: u32
  vol_mounted :: bool

record 'm disk_list =
  drives :: "'m filesystem_drive list"
  volumes :: "volume list"
  partition_map :: "nat list list"

type_synonym 'm partition_func =
  "nat \<Rightarrow> nat option \<Rightarrow> u32 \<Rightarrow> 'm disk_list \<Rightarrow> (int \<times> 'm disk_list) option"

definition drive_index :: "'m disk_list \<Rightarrow> nat \<Rightarrow> nat" where
  "drive_index s d = unat (m_index (drives s ! d))"

definition new_volume :: "nat \<Rightarrow> u32 \<Rightarrow> u32 \<Rightarrow> 'm disk_list \<Rightarrow> volume" where
  "new_volume d first sz s =
     \<lparr>vol_disk = d, vol_id = length (volumes s), vol_first_block = first, vol_num_blocks = sz,
      vol_block_size = m_minimum_block_size (drives s ! d), vol_mounted = False\<rparr>"

definition filesystem_add_virtual_drive ::
  "nat \<Rightarrow> u32 \<Rightarrow> u32 \<Rightarrow> 'm disk_list \<Rightarrow> 'm disk_list option" where
  "filesystem_add_virtual_drive d first sz s =
     (let i = drive_index s d in
      if i < length (partition_map s)
      then Some (s\<lparr>volumes := volumes s @ [new_volume d first sz s],
                   partition_map := (partition_map s)[i := partition_map s ! i @ [length (volumes s)]]\<rparr>)
      else None)"

text \<open>The loop over the partitioners: the first that recognises the drive ends it.\<close>

fun try_partitioners ::
  "'m partition_func list \<Rightarrow> nat \<Rightarrow> nat option \<Rightarrow> 'm disk_list \<Rightarrow> 'm disk_list option" where
  "try_partitioners [] d base s =
     (case base of
        None \<Rightarrow> filesystem_add_virtual_drive d 0 (m_num_blocks (drives s ! d)) s
      | Some b \<Rightarrow> Some s)"
| "try_partitioners (p # ps) d base s = do {
     (r, s) \<leftarrow> p d base (m_minimum_block_size (drives s ! d)) s;
     (if r = 0 then Some s else try_partitioners ps d base s)
   }"

definition filesystem_read_drive_partitions ::
  "'m partition_func list \<Rightarrow> nat \<Rightarrow> nat option \<Rightarrow> 'm disk_list \<Rightarrow> 'm disk_list option" where
  "filesystem_read_drive_partitions ps d base s =
     (if (case base of None \<Rightarrow> True
          | Some b \<Rightarrow> vol_disk (volumes s ! b) = d \<and> \<not> vol_mounted (volumes s ! b))
      then try_partitioners ps d base s else None)"

fun rescan_drives :: "'m partition_func list \<Rightarrow> nat list \<Rightarrow> 'm disk_list \<Rightarrow> 'm disk_list option" where
  "rescan_drives ps [] s = Some s"
| "rescan_drives ps (d # ds) s =
     (case partition_map s ! drive_index s d of
        [] \<Rightarrow> do {
          s \<leftarrow> filesystem_read_drive_partitions ps d None s;
          rescan_drives ps ds s
        }
      | [v] \<Rightarrow>
          if vol_mounted (volumes s ! v) then rescan_drives ps ds s
          else do {
            s \<leftarrow> filesystem_read_drive_partitions ps d (Some v) s;
            rescan_drives ps ds s
          }
      | _ \<Rightarrow> rescan_drives ps ds s)"

definition filesystem_add_partitioner ::
  "'m partition_func \<Rightarrow> 'm partition_func list \<Rightarrow> 'm disk_list \<Rightarrow>
     ('m partition_func list \<times> 'm disk_list) option" where
  "filesystem_add_partitioner p ps s =
     map_option (\<lambda>s. (ps @ [p], s)) (rescan_drives (ps @ [p]) [0..<length (drives s)] s)"

definition filesystem_add_drive ::
  "'m partition_func list \<Rightarrow> 'm disk_driver \<Rightarrow> 'm \<Rightarrow> u32 \<Rightarrow> u32 \<Rightarrow> (u32 \<Rightarrow> byte list) \<Rightarrow>
     (nat \<Rightarrow> u32) \<Rightarrow> 'm disk_list \<Rightarrow> 'm disk_list option" where
  "filesystem_add_drive ps disk_drv driver_data block_size num_blocks malloc junk s = do {
     d \<leftarrow> new_filesystem_drive disk_drv driver_data block_size num_blocks
            (of_nat (length (drives s))) malloc junk;
     filesystem_read_drive_partitions ps (length (drives s)) None
       (s\<lparr>drives := drives s @ [d], partition_map := partition_map s @ [[]]\<rparr>)
   }"

section \<open>The partitioner for master boot records\<close>

record mbr_partition =
  mbr_status :: byte
  chs_first_sector :: "byte list"
  mbr_type :: byte
  chs_last_sector :: "byte list"
  lba_first_sector :: u32
  sector_count :: u32

definition bytes_mbr_partition :: "byte list \<Rightarrow> mbr_partition" where
  "bytes_mbr_partition b =
     \<lparr>mbr_status = b ! 0, chs_first_sector = take 3 (drop 1 b), mbr_type = b ! 4,
      chs_last_sector = take 3 (drop 5 b),
      lba_first_sector = of_nat (le_nat (take 4 (drop 8 b))),
      sector_count = of_nat (le_nat (take 4 (drop 12 b)))\<rparr>"

text \<open>\<open>mbr_info\<close>: four entries of 16 bytes and the two bytes of the signature.\<close>

definition mbr_entries :: "byte list \<Rightarrow> mbr_partition list" where
  "mbr_entries b = map (\<lambda>i. bytes_mbr_partition (take 16 (drop (16 * i) b))) [0..<4]"

fun add_mbr_partitions ::
  "nat \<Rightarrow> nat option \<Rightarrow> mbr_partition list \<Rightarrow> 'm disk_list \<Rightarrow> 'm disk_list option" where
  "add_mbr_partitions d base [] s = Some s"
| "add_mbr_partitions d base (p # ps) s =
     (if sector_count p \<noteq> 0
      then case base of
             Some b \<Rightarrow> add_mbr_partitions d None ps
               (s\<lparr>volumes := (volumes s)[b := (volumes s ! b)\<lparr>vol_first_block := lba_first_sector p,
                                                            vol_num_blocks := sector_count p\<rparr>]\<rparr>)
           | None \<Rightarrow> do {
               s \<leftarrow> filesystem_add_virtual_drive d (lba_first_sector p) (sector_count p) s;
               add_mbr_partitions d None ps s
             }
      else add_mbr_partitions d base ps s)"

definition read_drive ::
  "nat \<Rightarrow> u32 \<Rightarrow> u32 \<Rightarrow> u32 \<Rightarrow> 'm disk_list \<Rightarrow> (byte list \<times> 'm disk_list) option" where
  "read_drive d block off n s =
     map_option (\<lambda>(xs, dr). (xs, s\<lparr>drives := (drives s)[d := dr]\<rparr>))
       (filesystem_read_from_disk (drives s ! d) block off n)"

definition mbr_read_partitions :: "'m partition_func" where
  "mbr_read_partitions d base block_size s = do {
     (boot, s) \<leftarrow> read_drive d 0 446 66 s;
     (if boot ! 64 = 0x55 \<or> boot ! 65 = 0xAA
      then do {
        (boot_code, s) \<leftarrow> read_drive d 0 0 3 s;
        (if boot_code ! 0 = 0xEB \<or> boot_code ! 2 = 0x90 then Some (0, s)
         else map_option (\<lambda>s. (0, s)) (add_mbr_partitions d base (mbr_entries boot) s))
      }
      else Some (-1, s))
   }"

section \<open>Reading leaves a drive the drive it was\<close>

definition drive_ident :: "'m filesystem_drive \<Rightarrow> 'm disk_driver \<times> u32 \<times> u32 \<times> u32" where
  "drive_ident d = (m_driver d, m_index d, m_minimum_block_size d, m_num_blocks d)"

lemma drive_ident_simps [simp]:
  "drive_ident (d\<lparr>m_drv_impl_data := m\<rparr>) = drive_ident d"
  "drive_ident (d\<lparr>m_last_index := l\<rparr>) = drive_ident d"
  "drive_ident (d\<lparr>m_data := bs\<rparr>) = drive_ident d"
  by (simp_all add: drive_ident_def)

lemma drive_write_blocks_ident:
  "drive_write_blocks d lba buf n = Some d' \<Longrightarrow> drive_ident d' = drive_ident d"
  by (auto simp: drive_write_blocks_def split: option.splits)

lemma prepare_item_ident:
  "prepare_item d it old = Some (d', it') \<Longrightarrow> drive_ident d' = drive_ident d"
  by (auto simp: prepare_item_def bind_eq_Some_conv dest: drive_write_blocks_ident
      split: option.splits if_splits)

lemma block_rw_ident: "block_rw d idx w = Some (d', i) \<Longrightarrow> drive_ident d' = drive_ident d"
  by (auto simp: block_rw_def refresh_oldest_item_def bind_eq_Some_conv Let_def
      dest!: prepare_item_ident split: option.splits if_splits)

lemma read_from_block_ident:
  "read_from_block d b off n = Some (xs, d') \<Longrightarrow> drive_ident d' = drive_ident d"
  by (auto simp: read_from_block_def bind_eq_Some_conv Let_def dest: block_rw_ident)

lemma read_full_chunks_ident:
  "read_full_chunks d b n = Some (xs, d', b') \<Longrightarrow> drive_ident d' = drive_ident d"
  by (induction d b n arbitrary: xs rule: read_full_chunks.induct)
    (auto simp: bind_eq_Some_conv dest: read_from_block_ident)

lemma flush_blocks_ident:
  "flush_blocks d idx n bs = Some (d', bs') \<Longrightarrow> drive_ident d' = drive_ident d"
  by (induction d idx n bs arbitrary: bs' rule: flush_blocks.induct)
    (fastforce simp: bind_eq_Some_conv split: if_splits dest: drive_write_blocks_ident)+

lemma block_flush_ident: "block_flush d idx n = Some d' \<Longrightarrow> drive_ident d' = drive_ident d"
  by (auto simp: block_flush_def bind_eq_Some_conv dest: flush_blocks_ident)

lemma filesystem_read_from_disk_ident:
  "filesystem_read_from_disk d b off n = Some (xs, d') \<Longrightarrow> drive_ident d' = drive_ident d"
  by (auto simp: filesystem_read_from_disk_def bind_eq_Some_conv Let_def split: if_splits
      dest!: read_from_block_ident read_full_chunks_ident block_flush_ident)

end
