(* ===== verification/PartitionsCorrect.thy ===== *)
theory PartitionsCorrect
  imports Partitions
begin

text \<open>
  What holds of the lists of drives and partitions: the partition map is exact after every
  operation, mounted virtual drives are never touched (the contract \<open>partitioner\<close>, which the partitioner for
  master boot records satisfies), and what reading a partition table does.
\<close>

lemma new_drive_ident:
  "new_filesystem_drive drv m bs n i mal junk = Some d \<Longrightarrow> drive_ident d = (drv, i, bs, n)"
  by (auto simp: new_filesystem_drive_def drive_ident_def split: option.splits if_splits)

section \<open>Well-formed lists\<close>

text \<open>
  The partition map lists for every drive exactly the virtual drives on it, in the order of their
  creation; drives and virtual drives know their positions.
\<close>

definition wf_disks :: "'m disk_list \<Rightarrow> bool" where
  "wf_disks s \<longleftrightarrow>
     length (partition_map s) = length (drives s) \<and>
     (\<forall>d < length (drives s). drive_index s d = d \<and>
        partition_map s ! d = filter (\<lambda>v. vol_disk (volumes s ! v) = d) [0..<length (volumes s)]) \<and>
     (\<forall>v < length (volumes s). vol_disk (volumes s ! v) < length (drives s) \<and> vol_id (volumes s ! v) = v)"

definition base_ok :: "nat \<Rightarrow> nat option \<Rightarrow> 'm disk_list \<Rightarrow> bool" where
  "base_ok d base s \<longleftrightarrow>
     (\<forall>b. base = Some b \<longrightarrow> b < length (volumes s) \<and> vol_disk (volumes s ! b) = d \<and>
        \<not> vol_mounted (volumes s ! b))"

text \<open>What a partitioner may do: add virtual drives, and change the place of the one it was given.\<close>

definition grows :: "nat option \<Rightarrow> 'm disk_list \<Rightarrow> 'm disk_list \<Rightarrow> bool" where
  "grows base s s' \<longleftrightarrow>
     length (drives s') = length (drives s) \<and> length (volumes s) \<le> length (volumes s') \<and>
     (\<forall>v < length (volumes s). vol_mounted (volumes s' ! v) = vol_mounted (volumes s ! v) \<and>
        vol_disk (volumes s' ! v) = vol_disk (volumes s ! v) \<and>
        (Some v \<noteq> base \<longrightarrow> volumes s' ! v = volumes s ! v))"

lemma grows_refl [intro]: "grows base s s"
  by (simp add: grows_def)

lemma grows_trans: "grows base s s' \<Longrightarrow> grows base s' s'' \<Longrightarrow> grows base s s''"
  by (auto simp: grows_def)

lemma grows_None: "grows None s s' \<Longrightarrow> grows base s s'"
  by (auto simp: grows_def)

lemma base_ok_grows: "base_ok d base s \<Longrightarrow> grows base s s' \<Longrightarrow> base_ok d base s'"
  by (auto simp: base_ok_def grows_def)

lemma wf_index: "wf_disks s \<Longrightarrow> d < length (drives s) \<Longrightarrow> drive_index s d = d"
  by (simp add: wf_disks_def)

lemma add_virtual_drive_ok:
  assumes "wf_disks s" and "d < length (drives s)"
    and "filesystem_add_virtual_drive d first n s = Some s'"
  shows "wf_disks s' \<and> grows base s s'"
  using assms
  by (auto simp: wf_disks_def grows_def filesystem_add_virtual_drive_def drive_index_def Let_def
      new_volume_def nth_append nth_list_update less_Suc_eq intro!: filter_cong split: if_splits)

lemma read_drive_ok:
  assumes "wf_disks s" and "d < length (drives s)" and "read_drive d b off n s = Some (xs, s')"
  shows "wf_disks s' \<and> grows base s s'"
proof -
  from assms(3) obtain dr where dr: "filesystem_read_from_disk (drives s ! d) b off n = Some (xs, dr)"
    and s': "s' = s\<lparr>drives := (drives s)[d := dr]\<rparr>" by (auto simp: read_drive_def)
  from filesystem_read_from_disk_ident [OF dr] have "m_index dr = m_index (drives s ! d)"
    by (simp add: drive_ident_def)
  then have "drive_index s' i = drive_index s i" if "i < length (drives s)" for i
    using that s' by (cases "i = d") (simp_all add: drive_index_def)
  with assms(1) s' show ?thesis by (simp add: wf_disks_def grows_def)
qed

lemma nth_update_same: "f y = f (xs ! b) \<Longrightarrow> f (xs[b := y] ! v) = f (xs ! v)"
  by (cases "b < length xs"; cases "v = b") (simp_all add: list_update_beyond)

lemma set_volume_ok:
  assumes "wf_disks s" and "base_ok d (Some b) s"
  shows "wf_disks (s\<lparr>volumes := (volumes s)[b := (volumes s ! b)\<lparr>vol_first_block := x, vol_num_blocks := y\<rparr>]\<rparr>) \<and>
    grows (Some b) s (s\<lparr>volumes := (volumes s)[b := (volumes s ! b)\<lparr>vol_first_block := x, vol_num_blocks := y\<rparr>]\<rparr>)"
proof -
  let ?vs = "(volumes s)[b := (volumes s ! b)\<lparr>vol_first_block := x, vol_num_blocks := y\<rparr>]"
  have same: "vol_disk (?vs ! v) = vol_disk (volumes s ! v)" "vol_id (?vs ! v) = vol_id (volumes s ! v)"
    "vol_mounted (?vs ! v) = vol_mounted (volumes s ! v)" for v
    by (rule nth_update_same; simp)+
  have "wf_disks (s\<lparr>volumes := ?vs\<rparr>)"
    using assms(1) by (simp add: wf_disks_def drive_index_def same)
  moreover have "grows (Some b) s (s\<lparr>volumes := ?vs\<rparr>)"
    by (simp add: grows_def same)
  ultimately show ?thesis by blast
qed

lemma add_mbr_partitions_ok:
  assumes "wf_disks s" and "d < length (drives s)" and "base_ok d base s"
    and "add_mbr_partitions d base ps s = Some s'"
  shows "wf_disks s' \<and> grows base s s'"
  using assms
proof (induction d base ps s rule: add_mbr_partitions.induct)
  case (2 d base p ps s)
  show ?case
  proof (cases "sector_count p = 0")
    case True
    with 2 show ?thesis by simp
  next
    case False
    show ?thesis
    proof (cases base)
      case None
      with "2.prems"(4) False obtain s1 where
        s1: "filesystem_add_virtual_drive d (lba_first_sector p) (sector_count p) s = Some s1"
          "add_mbr_partitions d None ps s1 = Some s'" by (auto simp: bind_eq_Some_conv)
      from "2.prems"(1,2) s1(1) have ok: "wf_disks s1 \<and> grows None s s1" by (rule add_virtual_drive_ok)
      have len: "length (drives s1) = length (drives s)" using ok by (simp add: grows_def)
      have "wf_disks s' \<and> grows None s1 s'"
        by (rule "2.IH"(1) [OF False None s1(1)]) (simp_all add: ok len s1(2) "2.prems"(2) base_ok_def)
      with ok None show ?thesis by (blast intro: grows_trans)
    next
      case (Some b)
      let ?s1 = "s\<lparr>volumes := (volumes s)[b := (volumes s ! b)\<lparr>vol_first_block := lba_first_sector p,
          vol_num_blocks := sector_count p\<rparr>]\<rparr>"
      have ok: "wf_disks ?s1 \<and> grows (Some b) s ?s1"
        using set_volume_ok "2.prems"(1,3) Some by blast
      then have "wf_disks s' \<and> grows None ?s1 s'"
        using "2.IH"(2) [OF False Some] "2.prems"(2,4) False Some by (simp add: base_ok_def)
      with ok Some show ?thesis by (blast intro: grows_trans grows_None)
    qed
  qed
qed auto


section \<open>The contract of partitioners\<close>

locale partitioner =
  fixes p :: "'m partition_func"
  assumes keeps: "wf_disks s \<Longrightarrow> d < length (drives s) \<Longrightarrow> base_ok d base s \<Longrightarrow>
    p d base bs s = Some (r, s') \<Longrightarrow> wf_disks s' \<and> grows base s s'"

interpretation mbr: partitioner mbr_read_partitions
proof
  fix s s' :: "'a disk_list" and d base bs r
  assume ok: "wf_disks s" "d < length (drives s)" "base_ok d base s"
    and run: "mbr_read_partitions d base bs s = Some (r, s')"
  from run obtain boot s1 where boot: "read_drive d 0 446 66 s = Some (boot, s1)"
    by (auto simp: mbr_read_partitions_def bind_eq_Some_conv)
  from read_drive_ok [OF ok(1,2) boot, of base] have ok1: "wf_disks s1" "grows base s s1" by simp_all
  then have d1: "d < length (drives s1)" using ok(2) by (simp add: grows_def)
  show "wf_disks s' \<and> grows base s s'"
  proof (cases "boot ! 64 = 0x55 \<or> boot ! 65 = 0xAA")
    case True
    with run boot obtain code s2 where code: "read_drive d 0 0 3 s1 = Some (code, s2)"
      by (auto simp: mbr_read_partitions_def bind_eq_Some_conv)
    from read_drive_ok [OF ok1(1) d1 code, of base] have ok2: "wf_disks s2" "grows base s1 s2" by simp_all
    then have d2: "d < length (drives s2)" using d1 by (simp add: grows_def)
    have b2: "base_ok d base s2" using ok(3) ok1(2) ok2(2) by (blast intro: base_ok_grows)
    have "s' = s2 \<or> add_mbr_partitions d base (mbr_entries boot) s2 = Some s'"
      using run boot code True by (auto simp: mbr_read_partitions_def split: if_splits)
    with add_mbr_partitions_ok [OF ok2(1) d2 b2] ok2
    have "wf_disks s' \<and> grows base s2 s'" by blast
    with ok1(2) ok2(2) show ?thesis by (blast intro: grows_trans)
  next
    case False
    with run boot ok1 show ?thesis by (auto simp: mbr_read_partitions_def)
  qed
qed

context partitioner
begin

lemma base_still_ok:
  assumes "wf_disks s" and "d < length (drives s)" and "base_ok d base s"
    and "p d base bs s = Some (r, s')"
  shows "d < length (drives s') \<and> base_ok d base s'"
  using keeps [OF assms] assms(2,3) base_ok_grows by (auto simp: grows_def)

end

lemma try_partitioners_ok:
  assumes "\<forall>p \<in> set ps. partitioner p" and "wf_disks s" and "d < length (drives s)"
    and "base_ok d base s" and "try_partitioners ps d base s = Some s'"
  shows "wf_disks s' \<and> grows base s s'"
  using assms
proof (induction ps d base s rule: try_partitioners.induct)
  case (1 d base s)
  then show ?case
    using add_virtual_drive_ok [OF 1(2,3), of 0 "m_num_blocks (drives s ! d)" s' base]
    by (auto split: option.splits)
next
  case (2 p ps d base s)
  from "2.prems"(5) obtain r s1 where run: "p d base (m_minimum_block_size (drives s ! d)) s = Some (r, s1)"
    and rest: "(if r = 0 then Some s1 else try_partitioners ps d base s1) = Some s'"
    by (auto simp: bind_eq_Some_conv)
  have p: "partitioner p" using "2.prems"(1) by simp
  have ok: "wf_disks s1 \<and> grows base s s1"
    using partitioner.keeps [OF p "2.prems"(2-4) run] .
  have d1: "d < length (drives s1)" "base_ok d base s1"
    using partitioner.base_still_ok [OF p "2.prems"(2-4) run] by simp_all
  show ?case
  proof (cases "r = 0")
    case True
    with rest ok show ?thesis by simp
  next
    case False
    then have "wf_disks s' \<and> grows base s1 s'"
      using "2.IH" [OF run refl False _ _ d1] "2.prems"(1) ok rest by simp
    with ok show ?thesis by (blast intro: grows_trans)
  qed
qed

text \<open>Between two states of the lists: nothing is said of virtual drives that are not mounted.\<close>

definition keeps_mounted :: "'m disk_list \<Rightarrow> 'm disk_list \<Rightarrow> bool" where
  "keeps_mounted s s' \<longleftrightarrow>
     length (drives s) \<le> length (drives s') \<and> length (volumes s) \<le> length (volumes s') \<and>
     (\<forall>v < length (volumes s). vol_mounted (volumes s' ! v) = vol_mounted (volumes s ! v) \<and>
        vol_disk (volumes s' ! v) = vol_disk (volumes s ! v) \<and>
        (vol_mounted (volumes s ! v) \<longrightarrow> volumes s' ! v = volumes s ! v))"

lemma keeps_mounted_trans: "keeps_mounted s s' \<Longrightarrow> keeps_mounted s' s'' \<Longrightarrow> keeps_mounted s s''"
  by (auto simp: keeps_mounted_def)

lemma grows_keeps_mounted: "grows base s s' \<Longrightarrow> base_ok d base s \<Longrightarrow> keeps_mounted s s'"
  by (auto simp: grows_def keeps_mounted_def base_ok_def)

lemma read_drive_partitions_ok:
  assumes "\<forall>p \<in> set ps. partitioner p" and "wf_disks s" and "d < length (drives s)"
    and "\<forall>b. base = Some b \<longrightarrow> b < length (volumes s)"
    and "filesystem_read_drive_partitions ps d base s = Some s'"
  shows "wf_disks s' \<and> keeps_mounted s s' \<and> length (drives s') = length (drives s)"
proof -
  from assms(4,5) have base: "base_ok d base s" and "try_partitioners ps d base s = Some s'"
    by (auto simp: filesystem_read_drive_partitions_def base_ok_def split: option.splits if_splits)
  with try_partitioners_ok [OF assms(1-3)] have "wf_disks s'" and g: "grows base s s'" by blast+
  with grows_keeps_mounted [OF g base] show ?thesis by (simp add: grows_def)
qed

lemma rescan_drives_ok:
  assumes "\<forall>p \<in> set ps. partitioner p" and "wf_disks s" and "\<forall>d \<in> set ds. d < length (drives s)"
    and "rescan_drives ps ds s = Some s'"
  shows "wf_disks s' \<and> keeps_mounted s s'"
  using assms(2-)
proof (induction ds arbitrary: s)
  case (Cons d ds)
  have d: "d < length (drives s)" using Cons.prems(2) by simp
  have idx: "drive_index s d = d" using Cons.prems(1) d by (rule wf_index)
  show ?case
  proof (cases "rescan_drives ps ds s = Some s'")
    case True
    with Cons show ?thesis by simp
  next
    case False
    then obtain base s1 where
      run: "filesystem_read_drive_partitions ps d base s = Some s1" "rescan_drives ps ds s1 = Some s'"
      and base: "\<forall>b. base = Some b \<longrightarrow> b \<in> set (partition_map s ! d)"
      using Cons.prems(3) idx by (auto simp: bind_eq_Some_conv split: list.splits if_splits)
    have "set (partition_map s ! d) \<subseteq> {v. v < length (volumes s)}"
      using Cons.prems(1) d by (auto simp: wf_disks_def)
    with base have "\<forall>b. base = Some b \<longrightarrow> b < length (volumes s)" by auto
    from read_drive_partitions_ok [OF assms(1) Cons.prems(1) d this run(1)]
    have ok: "wf_disks s1" "keeps_mounted s s1" "length (drives s1) = length (drives s)" by simp_all
    with Cons.IH [OF ok(1) _ run(2)] Cons.prems(2) keeps_mounted_trans show ?thesis by auto
  qed
qed (simp add: keeps_mounted_def)


section \<open>Reading a partition table\<close>

text \<open>The places of the four partitions in the first sector of a disk that holds \<open>f\<close>.\<close>

definition table_word :: "(nat \<Rightarrow> byte) \<Rightarrow> nat \<Rightarrow> u32" where
  "table_word f p = of_nat (le_nat (map f [p..<p + 4]))"

definition partition_table :: "(nat \<Rightarrow> byte) \<Rightarrow> (u32 \<times> u32) list" where
  "partition_table f =
     filter (\<lambda>(first, n). n \<noteq> 0)
       (map (\<lambda>i. (table_word f (446 + 16 * i + 8), table_word f (446 + 16 * i + 12))) [0, 1, 2, 3])"

fun table_volumes :: "nat \<Rightarrow> nat \<Rightarrow> u32 \<Rightarrow> (u32 \<times> u32) list \<Rightarrow> volume list" where
  "table_volumes d i bs [] = []"
| "table_volumes d i bs ((first, n) # ts) =
     \<lparr>vol_disk = d, vol_id = i, vol_first_block = first, vol_num_blocks = n, vol_block_size = bs,
      vol_mounted = False\<rparr> # table_volumes d (Suc i) bs ts"

lemma length_table_volumes [simp]: "length (table_volumes d i bs ts) = length ts"
  by (induction d i bs ts rule: table_volumes.induct) auto

lemma mbr_entries_table:
  "map (\<lambda>p. (lba_first_sector p, sector_count p)) (mbr_entries (map f [446..<512])) =
     map (\<lambda>i. (table_word f (446 + 16 * i + 8), table_word f (446 + 16 * i + 12))) [0, 1, 2, 3]"
  by (simp add: mbr_entries_def bytes_mbr_partition_def table_word_def drop_map take_map upt_rec)

abbreviation entry_place :: "mbr_partition \<Rightarrow> u32 \<times> u32" where
  "entry_place p \<equiv> (lba_first_sector p, sector_count p)"

lemma add_all_partitions:
  assumes "drive_index s d = d" and "d < length (partition_map s)"
  shows "add_mbr_partitions d None ps s =
    (let ts = filter (\<lambda>(first, n). n \<noteq> 0) (map entry_place ps);
         k = length (volumes s)
     in Some (s\<lparr>volumes := volumes s @ table_volumes d k (m_minimum_block_size (drives s ! d)) ts,
                partition_map := (partition_map s)[d := partition_map s ! d @ [k..<k + length ts]]\<rparr>))"
  using assms
proof (induction ps arbitrary: s)
  case (Cons p ps)
  show ?case
  proof (cases "sector_count p = 0")
    case True
    with Cons show ?thesis by (simp add: Let_def)
  next
    case False
    let ?s1 = "s\<lparr>volumes := volumes s @ [new_volume d (lba_first_sector p) (sector_count p) s],
        partition_map := (partition_map s)[d := partition_map s ! d @ [length (volumes s)]]\<rparr>"
    have "add_mbr_partitions d None (p # ps) s = add_mbr_partitions d None ps ?s1"
      using False Cons.prems by (simp add: filesystem_add_virtual_drive_def Let_def)
    also have "\<dots> = (let ts = filter (\<lambda>(first, n). n \<noteq> 0) (map entry_place ps); k = length (volumes ?s1)
     in Some (?s1\<lparr>volumes := volumes ?s1 @ table_volumes d k (m_minimum_block_size (drives ?s1 ! d)) ts,
                partition_map := (partition_map ?s1)[d := partition_map ?s1 ! d @ [k..<k + length ts]]\<rparr>))"
      by (rule Cons.IH) (use Cons.prems in \<open>simp_all add: drive_index_def\<close>)
    finally show ?thesis
      using False Cons.prems by (simp add: Let_def new_volume_def upt_rec [of "length (volumes s)"])
  qed
qed (simp add: Let_def)


lemma add_partitions_base:
  assumes "drive_index s d = d" and "d < length (partition_map s)"
  shows "add_mbr_partitions d (Some b) ps s =
    (case filter (\<lambda>(first, n). n \<noteq> 0) (map entry_place ps) of
       [] \<Rightarrow> Some s
     | (x, n) # ts \<Rightarrow>
         (let k = length (volumes s) in
          Some (s\<lparr>volumes := (volumes s)[b := (volumes s ! b)\<lparr>vol_first_block := x, vol_num_blocks := n\<rparr>] @
                   table_volumes d k (m_minimum_block_size (drives s ! d)) ts,
                  partition_map := (partition_map s)[d := partition_map s ! d @ [k..<k + length ts]]\<rparr>)))"
  using assms
proof (induction ps arbitrary: s)
  case (Cons p ps)
  show ?case
  proof (cases "sector_count p = 0")
    case True
    with Cons show ?thesis by (simp add: Let_def)
  next
    case False
    let ?s1 = "s\<lparr>volumes := (volumes s)[b := (volumes s ! b)\<lparr>vol_first_block := lba_first_sector p,
        vol_num_blocks := sector_count p\<rparr>]\<rparr>"
    have "drive_index ?s1 d = d" and "d < length (partition_map ?s1)"
      using Cons.prems by (simp_all add: drive_index_def)
    from add_all_partitions [OF this, of ps] False show ?thesis by (simp add: Let_def)
  qed
qed simp

text \<open>The virtual drives after a table was read: the one given is moved to the first partition, the other
  partitions get new ones.\<close>

definition placed :: "nat \<Rightarrow> nat option \<Rightarrow> u32 \<Rightarrow> (u32 \<times> u32) list \<Rightarrow> volume list \<Rightarrow> volume list" where
  "placed d base bs ts vs =
     (case base of
        None \<Rightarrow> vs @ table_volumes d (length vs) bs ts
      | Some b \<Rightarrow>
          (case ts of
             [] \<Rightarrow> vs
           | (x, n) # ts \<Rightarrow> vs[b := (vs ! b)\<lparr>vol_first_block := x, vol_num_blocks := n\<rparr>] @
               table_volumes d (length vs) bs ts))"

lemma add_mbr_partitions_placed:
  assumes "drive_index s d = d" and "d < length (partition_map s)"
  shows "\<exists>s'. add_mbr_partitions d base ps s = Some s' \<and> drives s' = drives s \<and>
    volumes s' = placed d base (m_minimum_block_size (drives s ! d))
      (filter (\<lambda>(first, n). n \<noteq> 0) (map entry_place ps)) (volumes s) \<and>
    partition_map s' ! d = partition_map s ! d @ [length (volumes s)..<length (volumes s')]"
proof (cases base)
  case None
  with assms show ?thesis by (simp add: add_all_partitions Let_def placed_def)
next
  case (Some b)
  with assms show ?thesis
    by (cases "filter (\<lambda>(first, n). n \<noteq> 0) (map entry_place ps)")
      (auto simp: add_partitions_base Let_def placed_def)
qed

lemma read_drive_holds:
  assumes "disk_holds drv k j N img (drives s ! d) f" and "d < length (drives s)"
    and "unat b * 2 ^ k + unat off + unat n \<le> N * 2 ^ k"
  shows "\<exists>dr. read_drive d b off n s =
      Some (map f [unat b * 2 ^ k + unat off..<unat b * 2 ^ k + unat off + unat n], s\<lparr>drives := (drives s)[d := dr]\<rparr>) \<and>
    disk_holds drv k j N img dr f \<and> drive_ident dr = drive_ident (drives s ! d)"
proof -
  from filesystem_read_from_disk_ok [OF assms(1,3)] obtain dr where
    "filesystem_read_from_disk (drives s ! d) b off n =
      Some (map f [unat b * 2 ^ k + unat off..<unat b * 2 ^ k + unat off + unat n], dr)"
    "disk_holds drv k j N img dr f" by blast
  with filesystem_read_from_disk_ident show ?thesis by (fastforce simp: read_drive_def)
qed

lemma mbr_sector_read:
  assumes "disk_holds drv k j N img (drives s ! d) f" and "d < length (drives s)" and "512 \<le> N * 2 ^ k"
    and "f 510 = 0x55 \<or> f 511 = 0xAA"
  shows "\<exists>dr. mbr_read_partitions d base bs s =
      (if f 0 = 0xEB \<or> f 2 = 0x90 then Some (0, s\<lparr>drives := (drives s)[d := dr]\<rparr>)
       else map_option (\<lambda>s. (0, s)) (add_mbr_partitions d base (mbr_entries (map f [446..<512]))
              (s\<lparr>drives := (drives s)[d := dr]\<rparr>))) \<and>
    disk_holds drv k j N img dr f \<and> drive_ident dr = drive_ident (drives s ! d)"
proof -
  from read_drive_holds [OF assms(1,2), of 0 446 66] assms(3) obtain dr where
    dr: "read_drive d 0 446 66 s = Some (map f [446..<512], s\<lparr>drives := (drives s)[d := dr]\<rparr>)"
      "disk_holds drv k j N img dr f" "drive_ident dr = drive_ident (drives s ! d)" by auto
  let ?s = "s\<lparr>drives := (drives s)[d := dr]\<rparr>"
  have d1: "drives ?s ! d = dr" "d < length (drives ?s)" using assms(2) by simp_all
  from read_drive_holds [of drv k j N img ?s d f 0 0 3] dr(2) d1 assms(3) obtain dr' where
    dr': "read_drive d 0 0 3 ?s = Some (map f [0..<3], s\<lparr>drives := (drives s)[d := dr']\<rparr>)"
      "disk_holds drv k j N img dr' f" "drive_ident dr' = drive_ident dr" by auto
  have sig: "map f [446..<512] ! 64 = f 510" "map f [446..<512] ! 65 = f 511" by simp_all
  have code: "map f [0..<3] ! 0 = f 0" "map f [0..<3] ! 2 = f 2" by (simp_all add: numeral_2_eq_2)
  show ?thesis
    by (rule exI [of _ dr'])
      (use dr dr' assms(4) in \<open>simp add: mbr_read_partitions_def sig code\<close>)
qed

section \<open>Example disks\<close>

text \<open>A disk with one partition of 1000 sectors from sector 63 on, and one with a FAT boot sector.\<close>

definition mbr_image :: "nat \<Rightarrow> byte" where
  "mbr_image = overlay 446 ([0x80, 1, 1, 0, 0x0C, 0, 0, 0, 63, 0, 0, 0, 0xE8, 3, 0, 0] @ replicate 48 0 @
     [0x55, 0xAA]) (\<lambda>_. 0)"

definition fat_image :: "nat \<Rightarrow> byte" where
  "fat_image = overlay 510 [0x55, 0xAA] (overlay 0 [0xEB, 0x3C, 0x90] (\<lambda>_. 0))"

lemma image_bytes:
  "mbr_image 0 \<noteq> 0xEB" "mbr_image 2 \<noteq> 0x90" "mbr_image 510 = 0x55" "mbr_image 511 = 0xAA"
  "fat_image 0 = 0xEB" "fat_image 510 = 0x55" "fat_image 511 = 0xAA"
  by (simp_all add: mbr_image_def fat_image_def overlay_def nth_append)

lemma memory_disk_new:
  "new_filesystem_drive (memory_driver 512) g 512 64 0 (\<lambda>n. replicate (unat n) 0) (\<lambda>_. 0) = Some (memory_disk g)"
proof -
  have "new_filesystem_drive (memory_driver 512) g (2 ^ 9) 64 0 (\<lambda>n. replicate (unat n) 0) (\<lambda>_. 0) \<noteq> None"
    using calc_block_ratio_exp [of 9] by (simp add: new_filesystem_drive_def memory_driver_def)
  then show ?thesis by (auto simp: memory_disk_def)
qed

lemma memory_disk_ident [simp]:
  "m_index (memory_disk g) = 0" "m_minimum_block_size (memory_disk g) = 512" "m_num_blocks (memory_disk g) = 64"
  using new_drive_ident [OF memory_disk_new [of g]] by (simp_all add: drive_ident_def)

definition one_disk :: "(nat \<Rightarrow> byte) \<Rightarrow> (nat \<Rightarrow> byte) disk_list" where
  "one_disk g = \<lparr>drives = [memory_disk g], volumes = [], partition_map = [[]]\<rparr>"

lemma one_disk_wf: "wf_disks (one_disk g)"
  by (simp add: wf_disks_def one_disk_def drive_index_def)

section \<open>Properties of drives and partitions\<close>

text \<open>C23: the partition map stays exact. If it lists for every drive precisely the virtual drives on it, it
  still does after a drive was added and after the partitioner for master boot records was added and
  all drives were looked at again; and no mounted virtual drive is moved or changed by either.\<close>

theorem partition_map_exact:
  assumes "wf_disks s" and "set ps \<subseteq> {mbr_read_partitions}" and "length (drives s) < 2 ^ 32"
    and "filesystem_add_drive ps drv m bs n mal junk s = Some s1"
    and "filesystem_add_partitioner mbr_read_partitions ps s1 = Some (ps', s2)"
  shows "wf_disks s1 \<and> keeps_mounted s s1 \<and> wf_disks s2 \<and> keeps_mounted s1 s2"
proof -
  have ps: "\<forall>p \<in> set ps. partitioner p" using assms(2) mbr.partitioner_axioms by blast
  from assms(4) obtain d where
    new: "new_filesystem_drive drv m bs n (of_nat (length (drives s))) mal junk = Some d"
    and read: "filesystem_read_drive_partitions ps (length (drives s)) None
      (s\<lparr>drives := drives s @ [d], partition_map := partition_map s @ [[]]\<rparr>) = Some s1"
    by (auto simp: filesystem_add_drive_def bind_eq_Some_conv)
  let ?s = "s\<lparr>drives := drives s @ [d], partition_map := partition_map s @ [[]]\<rparr>"
  from new_drive_ident [OF new] have "m_index d = of_nat (length (drives s))"
    by (simp add: drive_ident_def)
  then have "unat (m_index d) = length (drives s)"
    using assms(3) by (simp add: unat_of_nat take_bit_nat_eq_self)
  moreover have "filter (\<lambda>v. vol_disk (volumes s ! v) = length (drives s)) [0..<length (volumes s)] = []"
    using assms(1) by (auto simp: wf_disks_def filter_empty_conv)
  ultimately have wf: "wf_disks ?s"
    using assms(1) by (auto simp: wf_disks_def drive_index_def nth_append less_Suc_eq)
  have "keeps_mounted s ?s" by (simp add: keeps_mounted_def)
  moreover have "wf_disks s1 \<and> keeps_mounted ?s s1"
    using read_drive_partitions_ok [OF ps wf _ _ read] by simp
  moreover have "wf_disks s2 \<and> keeps_mounted s1 s2"
    using rescan_drives_ok [of "ps @ [mbr_read_partitions]" s1 "[0..<length (drives s1)]" s2]
      ps mbr.partitioner_axioms assms(5) \<open>wf_disks s1 \<and> keeps_mounted ?s s1\<close>
    by (auto simp: filesystem_add_partitioner_def)
  ultimately show ?thesis using keeps_mounted_trans by blast
qed

theorem partition_map_exact_witness:
  "\<exists>s1 ps s2. filesystem_add_drive [] (memory_driver 512) fat_image 512 64 (\<lambda>n. replicate (unat n) 0) (\<lambda>_. 0)
      \<lparr>drives = [], volumes = [], partition_map = []\<rparr> = Some s1 \<and>
    filesystem_add_partitioner mbr_read_partitions [] s1 = Some (ps, s2) \<and>
    wf_disks s1 \<and> wf_disks s2 \<and> keeps_mounted s1 s2"
proof -
  let ?s0 = "\<lparr>drives = [], volumes = [], partition_map = []\<rparr> :: (nat \<Rightarrow> byte) disk_list"
  let ?s1 = "\<lparr>drives = [memory_disk fat_image], volumes = [\<lparr>vol_disk = 0, vol_id = 0, vol_first_block = 0,
      vol_num_blocks = 64, vol_block_size = 512, vol_mounted = False\<rparr>], partition_map = [[0]]\<rparr>"
  have add: "filesystem_add_drive [] (memory_driver 512) fat_image 512 64 (\<lambda>n. replicate (unat n) 0) (\<lambda>_. 0) ?s0 =
      Some ?s1"
    using memory_disk_new [of fat_image]
    by (simp add: filesystem_add_drive_def filesystem_read_drive_partitions_def new_volume_def
        filesystem_add_virtual_drive_def drive_index_def)
  from mbr_sector_read [of "memory_driver 512" 9 1 64 "\<lambda>m. m" ?s1 0 fat_image "Some 0" 512]
  obtain dr where "mbr_read_partitions 0 (Some 0) 512 ?s1 = Some (0, ?s1\<lparr>drives := [dr]\<rparr>)"
    using memory_disk_holds [of fat_image] by (auto simp: image_bytes)
  then have rescan: "filesystem_add_partitioner mbr_read_partitions [] ?s1 =
      Some ([mbr_read_partitions], ?s1\<lparr>drives := [dr]\<rparr>)"
    by (simp add: filesystem_add_partitioner_def filesystem_read_drive_partitions_def drive_index_def)
  have "wf_disks ?s0" by (simp add: wf_disks_def)
  from partition_map_exact [OF this _ _ add rescan] add rescan show ?thesis by auto
qed

text \<open>C22: the partitioner reads the table of a master boot record: with the signature in place and no FAT boot
  code, every partition of the first sector with a length becomes a virtual drive at its place, the
  first one in the virtual drive that stood for the whole disk if there was one, and the partition
  map of the drive lists the new ones behind the old.\<close>

theorem mbr_partitions:
  assumes "disk_holds drv k j N img (drives s ! d) f" and "d < length (drives s)" and "wf_disks s"
    and "512 \<le> N * 2 ^ k" and "f 510 = 0x55 \<or> f 511 = 0xAA" and "f 0 \<noteq> 0xEB" and "f 2 \<noteq> 0x90"
  shows "\<exists>s'. mbr_read_partitions d base bs s = Some (0, s') \<and>
    volumes s' = placed d base (m_minimum_block_size (drives s ! d)) (partition_table f) (volumes s) \<and>
    partition_map s' ! d = partition_map s ! d @ [length (volumes s)..<length (volumes s')] \<and>
    disk_holds drv k j N img (drives s' ! d) f"
proof -
  from mbr_sector_read [OF assms(1,2,4,5)] assms(6,7) obtain dr where
    run: "mbr_read_partitions d base bs s = map_option (\<lambda>s. (0, s))
      (add_mbr_partitions d base (mbr_entries (map f [446..<512])) (s\<lparr>drives := (drives s)[d := dr]\<rparr>))"
    and dr: "disk_holds drv k j N img dr f" "drive_ident dr = drive_ident (drives s ! d)" by auto
  let ?s = "s\<lparr>drives := (drives s)[d := dr]\<rparr>"
  have idx: "drive_index ?s d = d" and len: "d < length (partition_map ?s)"
    using assms(2,3) dr(2) wf_index [OF assms(3,2)] by (simp_all add: wf_disks_def drive_index_def drive_ident_def)
  have bs: "m_minimum_block_size (drives ?s ! d) = m_minimum_block_size (drives s ! d)"
    using assms(2) dr(2) by (simp add: drive_ident_def)
  from add_mbr_partitions_placed [OF idx len, of base "mbr_entries (map f [446..<512])"]
  show ?thesis using run dr(1) assms(2) unfolding bs mbr_entries_table partition_table_def by auto
qed

theorem mbr_partitions_witness:
  "\<exists>s'. mbr_read_partitions 0 None 512 (one_disk mbr_image) = Some (0, s') \<and>
    volumes s' = [\<lparr>vol_disk = 0, vol_id = 0, vol_first_block = 63, vol_num_blocks = 1000,
      vol_block_size = 512, vol_mounted = False\<rparr>] \<and> partition_map s' ! 0 = [0]"
proof -
  have t: "partition_table mbr_image = [(63, 1000)]"
    by (simp add: partition_table_def table_word_def mbr_image_def overlay_def nth_append upt_rec)
  have d: "drives (one_disk mbr_image) ! 0 = memory_disk mbr_image" "drives (one_disk mbr_image) \<noteq> []"
    "volumes (one_disk mbr_image) = []" "partition_map (one_disk mbr_image) ! 0 = []"
    by (simp_all add: one_disk_def)
  show ?thesis
    using mbr_partitions [of "memory_driver 512" 9 1 64 "\<lambda>m. m" "one_disk mbr_image" 0 mbr_image None 512]
      memory_disk_holds [of mbr_image] one_disk_wf [of mbr_image]
    by (auto simp: image_bytes d t placed_def)
qed

text \<open>A disk that a FAT boot sector begins is lost to the partitioner. Its jump instruction makes
  \<open>mbr_read_partitions\<close> report the disk as partitioned without adding a partition, so a disk with a
  FAT filesystem and no partition table that is added after the partitioner gets no virtual drive.\<close>

theorem fat_disk_hidden:
  assumes "new_filesystem_drive drv m bs n (of_nat (length (drives s))) mal junk = Some d"
    and "disk_holds drv k j N img d f" and "512 \<le> N * 2 ^ k"
    and "f 0 = 0xEB" and "f 510 = 0x55" and "f 511 = 0xAA"
  shows "\<exists>s'. filesystem_add_drive (mbr_read_partitions # ps) drv m bs n mal junk s = Some s' \<and>
    length (drives s') = Suc (length (drives s)) \<and> volumes s' = volumes s"
proof -
  let ?s = "s\<lparr>drives := drives s @ [d], partition_map := partition_map s @ [[]]\<rparr>"
  from mbr_sector_read [of drv k j N img ?s "length (drives s)" f None bs] assms(2-5) obtain dr where
    "mbr_read_partitions (length (drives s)) None bs ?s =
      Some (0, ?s\<lparr>drives := (drives ?s)[length (drives s) := dr]\<rparr>)" by auto
  moreover have "m_minimum_block_size d = bs"
    using new_drive_ident [OF assms(1)] by (simp add: drive_ident_def)
  ultimately show ?thesis
    by (simp add: filesystem_add_drive_def filesystem_read_drive_partitions_def assms(1))
qed

theorem fat_disk_hidden_witness:
  "\<exists>s'. filesystem_add_drive [mbr_read_partitions] (memory_driver 512) fat_image 512 64 (\<lambda>n. replicate (unat n) 0)
      (\<lambda>_. 0) \<lparr>drives = [], volumes = [], partition_map = []\<rparr> = Some s' \<and>
    length (drives s') = 1 \<and> volumes s' = []"
  using fat_disk_hidden [of "memory_driver 512" fat_image 512 64 "\<lparr>drives = [], volumes = [], partition_map = []\<rparr>"
      "\<lambda>n. replicate (unat n) 0" "\<lambda>_. 0" "memory_disk fat_image" 9 1 64 "\<lambda>m. m" fat_image "[]"]
    memory_disk_new [of fat_image] memory_disk_holds [of fat_image]
  by (simp add: image_bytes)

end
