(* ===== verification/PhysMem.thy ===== *)
theory PhysMem
  imports Prelude
begin

text \<open>
  The physical memory manager (\<open>kernel/physical_manager.cpp\<close>): a fixed array of free blocks in the order
  of their addresses, and \<open>align_addr\<close> of \<open>common/util.h\<close>. An iterator is the index it points to.
\<close>

section \<open>The list of blocks\<close>

record memory_block =
  mb_offset :: u32
  mb_length :: u32

type_synonym block_list = "memory_block list"

definition MAX_NUM_MEMORY_BLOCKS :: nat where
  "MAX_NUM_MEMORY_BLOCKS = 128"

text \<open>The array has no room for a block behind its last: writing there is \<^const>\<open>None\<close>.\<close>

definition erase_block :: "block_list \<Rightarrow> nat \<Rightarrow> block_list option" where
  "erase_block m it =
     (if it < MAX_NUM_MEMORY_BLOCKS
      then Some (if it < length m - 1 then take it m @ drop (it + 1) m else butlast m)
      else None)"

definition emplace_back :: "block_list \<Rightarrow> memory_block \<Rightarrow> block_list option" where
  "emplace_back m b = (if length m < MAX_NUM_MEMORY_BLOCKS then Some (m @ [b]) else None)"

definition emplace_block :: "block_list \<Rightarrow> nat \<Rightarrow> memory_block \<Rightarrow> block_list option" where
  "emplace_block m it b =
     (if it < MAX_NUM_MEMORY_BLOCKS \<and> length m < MAX_NUM_MEMORY_BLOCKS
      then Some (take it m @ b # drop it m) else None)"

text \<open>
  \<open>claim_from_block\<close> moves the iterator of its caller, who goes on with the next position: it is the
  second result. (When a block disappears the iterator steps back first.)
\<close>

definition claim_from_block :: "block_list \<Rightarrow> nat \<Rightarrow> u32 \<Rightarrow> u32 \<Rightarrow> (block_list \<times> nat) option" where
  "claim_from_block m it offset sz =
     (let b = m ! it;
          len = mb_length b - (sz + offset)
      in if len = 0
         then if 0 < offset then Some (m[it := b\<lparr>mb_length := offset\<rparr>], it + 1)
              else map_option (\<lambda>m. (m, it)) (erase_block m it)
         else if 0 < offset
         then do {
           m \<leftarrow> emplace_block m it \<lparr>mb_offset = mb_offset b, mb_length = offset\<rparr>;
           let it = it + 1;
           Some (m[it := \<lparr>mb_offset = mb_offset (m ! it) + (sz + offset), mb_length = len\<rparr>], it + 1)
         }
         else Some (m[it := \<lparr>mb_offset = mb_offset b + (sz + offset), mb_length = len\<rparr>], it + 1))"

lemma claim_from_block_shrinks:
  assumes "claim_from_block m it offset sz = Some (m', nxt)" and "it < length m"
  shows "length m' - nxt < length m - it"
  using assms
  by (auto simp: claim_from_block_def erase_block_def emplace_block_def Let_def split: if_splits)

section \<open>Reserving, allocating and freeing\<close>

definition align_addr :: "u32 \<Rightarrow> u32 \<Rightarrow> u32 option" where
  "align_addr addr align =
     (if has_single_bit align then Some ((addr + (align - 1)) AND NOT (align - 1)) else None)"

function reserve_from :: "block_list \<Rightarrow> nat \<Rightarrow> u32 \<Rightarrow> u32 \<Rightarrow> block_list option" where
  "reserve_from m it address sz =
     (if it < length m
      then let b = m ! it in
        if address + sz < mb_offset b then Some m
        else
          let sz = (if address < mb_offset b then sz - (mb_offset b - address) else sz);
              address = (if address < mb_offset b then mb_offset b else address);
              available = mb_length b - (address - mb_offset b);
              claimed = (if available < sz then available else sz);
              padding = address - mb_offset b
          in if claimed + padding \<le> mb_length b
             then (case claim_from_block m it padding claimed of
                     None \<Rightarrow> None
                   | Some (m', nxt) \<Rightarrow>
                       if sz - claimed = 0 then Some m'
                       else reserve_from m' nxt (address + claimed) (sz - claimed))
             else if sz = 0 then Some m
             else reserve_from m (it + 1) address sz
      else Some m)"
  by pat_completeness auto
termination
  by (relation "measure (\<lambda>(m, it, _). length m - it)") (auto dest: claim_from_block_shrinks)

definition physical_memory_reserve :: "block_list \<Rightarrow> u32 \<Rightarrow> u32 \<Rightarrow> block_list option" where
  "physical_memory_reserve m address sz = reserve_from m 0 address sz"

function free_from :: "block_list \<Rightarrow> nat \<Rightarrow> u32 \<Rightarrow> u32 \<Rightarrow> block_list option" where
  "free_from m it addr sz =
     (if it < length m
      then let b = m ! it in
        if mb_offset b + mb_length b < addr then free_from m (it + 1) addr sz
        else if mb_offset b + mb_length b = addr
        then let m = m[it := b\<lparr>mb_length := mb_length b + sz\<rparr>] in
          if it + 1 < length m \<and> mb_offset (m ! (it + 1)) = addr + sz
          then erase_block (m[it := (m ! it)\<lparr>mb_length := mb_length (m ! it) + mb_length (m ! (it + 1))\<rparr>]) (it + 1)
          else Some m
        else if mb_offset b = addr + sz
        then Some (m[it := \<lparr>mb_offset = addr, mb_length = mb_length b + sz\<rparr>])
        else emplace_block m it \<lparr>mb_offset = addr, mb_length = sz\<rparr>
      else emplace_back m \<lparr>mb_offset = addr, mb_length = sz\<rparr>)"
  by pat_completeness auto
termination
  by (relation "measure (\<lambda>(m, it, _). length m - it)") auto

definition physical_memory_free :: "block_list \<Rightarrow> u32 \<Rightarrow> u32 \<Rightarrow> block_list option" where
  "physical_memory_free m addr sz = free_from m 0 addr sz"

function allocate_from :: "block_list \<Rightarrow> nat \<Rightarrow> u32 \<Rightarrow> u32 \<Rightarrow> (u32 \<times> block_list) option" where
  "allocate_from m it sz align =
     (if it < length m
      then case align_addr (mb_offset (m ! it)) align of
        None \<Rightarrow> None
      | Some aligned_addr \<Rightarrow>
          let padding = aligned_addr - mb_offset (m ! it) in
          if sz + padding \<le> mb_length (m ! it)
          then map_option (\<lambda>(m, _). (aligned_addr, m)) (claim_from_block m it padding sz)
          else allocate_from m (it + 1) sz align
      else Some (0, m))"
  by pat_completeness auto
termination
  by (relation "measure (\<lambda>(m, it, _). length m - it)") auto

definition physical_memory_allocate :: "block_list \<Rightarrow> u32 \<Rightarrow> u32 \<Rightarrow> (u32 \<times> block_list) option" where
  "physical_memory_allocate m sz align = allocate_from m 0 sz align"

function allocate_in_range_from ::
  "block_list \<Rightarrow> nat \<Rightarrow> u32 \<Rightarrow> u32 \<Rightarrow> u32 \<Rightarrow> u32 \<Rightarrow> (u32 \<times> block_list) option" where
  "allocate_in_range_from m it start stop sz align =
     (if it < length m
      then let b = m ! it in
        case align_addr (mb_offset b) align of
          None \<Rightarrow> None
        | Some aligned_addr \<Rightarrow>
            if aligned_addr < start \<and> mb_offset b + mb_length b < start
            then allocate_in_range_from m (it + 1) start stop sz align
            else case (if aligned_addr < start then align_addr start align else Some aligned_addr) of
              None \<Rightarrow> None
            | Some aligned_addr \<Rightarrow>
                if stop < aligned_addr + sz then Some (0, m)
                else let padding = aligned_addr - mb_offset b in
                  if sz + padding \<le> mb_length b
                  then map_option (\<lambda>(m, _). (aligned_addr, m)) (claim_from_block m it padding sz)
                  else allocate_in_range_from m (it + 1) start stop sz align
      else Some (0, m))"
  by pat_completeness auto
termination
  by (relation "measure (\<lambda>(m, it, _). length m - it)") auto

definition physical_memory_allocate_in_range ::
  "block_list \<Rightarrow> u32 \<Rightarrow> u32 \<Rightarrow> u32 \<Rightarrow> u32 \<Rightarrow> (u32 \<times> block_list) option" where
  "physical_memory_allocate_in_range m start stop sz align =
     allocate_in_range_from m 0 start stop sz align"

definition physical_num_bytes_free :: "block_list \<Rightarrow> u32" where
  "physical_num_bytes_free m = sum_list (map mb_length m)"

record boot_info =
  kernel_location :: u32
  kernel_size :: u32
  ramdisk_location :: u32
  ramdisk_size :: u32
  memmap_location :: u32
  memmap_size :: u32
  high_memory :: u32
  low_memory :: u32

definition physical_memory_init :: "boot_info \<Rightarrow> block_list \<Rightarrow> block_list option" where
  "physical_memory_init info m = do {
     m \<leftarrow> physical_memory_reserve m 0 0x500;
     m \<leftarrow> physical_memory_reserve m 0x7000 0x200;
     m \<leftarrow> physical_memory_reserve m (kernel_location info) (kernel_size info);
     physical_memory_reserve m (ramdisk_location info) (ramdisk_size info)
   }"

end
