(* ===== verification/Paging.thy ===== *)
theory Paging
  imports PhysMem
begin

text \<open>
  The virtual memory manager (\<open>kernel/memorymanager.cpp\<close>) on the processor's two-level paging. The state
  is the words of physical memory, the page directory register and the list of free physical
  blocks. The code reaches its page tables through the last directory entry, which maps the directory
  as a table: every such access goes through \<open>page_walk\<close>, the translation of the processor, and an
  access to a page that is not present is \<^const>\<open>None\<close>, like a failed \<open>k_assert\<close>. The translation
  cache is flushed after every change and is not modelled; the mutex makes the operations sequential.
\<close>

section \<open>Constants\<close>

definition PAGE_PRESENT :: u32 where "PAGE_PRESENT = 0x01"
definition PAGE_RW :: u32 where "PAGE_RW = 0x02"
definition PAGE_USER :: u32 where "PAGE_USER = 0x04"
definition PAGE_RESERVED :: u32 where "PAGE_RESERVED = 0x800"
definition PAGE_MAP_ON_ACCESS :: u32 where "PAGE_MAP_ON_ACCESS = 0x400"
definition PAGE_ALLOCATED :: u32 where "PAGE_ALLOCATED = PAGE_RESERVED OR PAGE_PRESENT"
definition PAGE_SIZE :: u32 where "PAGE_SIZE = 0x1000"
definition PAGE_TABLE_SIZE :: u32 where "PAGE_TABLE_SIZE = 0x400"
definition PT_INDEX_MASK :: u32 where "PT_INDEX_MASK = PAGE_TABLE_SIZE - 1"
definition PAGE_FLAGS_MASK :: u32 where "PAGE_FLAGS_MASK = PAGE_SIZE - 1"
definition PAGE_ADDRESS_MASK :: u32 where "PAGE_ADDRESS_MASK = NOT PAGE_FLAGS_MASK"
definition MAXIMUM_ADDRESS :: u32 where "MAXIMUM_ADDRESS = NOT 0"
definition KERNEL_SPLIT :: u32 where "KERNEL_SPLIT = MAXIMUM_ADDRESS - MAXIMUM_ADDRESS div 8"

definition memmanager_minimum_pages :: "u32 \<Rightarrow> u32" where
  "memmanager_minimum_pages num_bytes = (num_bytes + (PAGE_SIZE - 1)) div PAGE_SIZE"

definition get_page_dir_index :: "u32 \<Rightarrow> u32" where
  "get_page_dir_index virtual_address = drop_bit 22 virtual_address"

definition get_page_tbl_index :: "u32 \<Rightarrow> u32" where
  "get_page_tbl_index virtual_address = drop_bit 12 virtual_address AND PT_INDEX_MASK"

section \<open>The machine\<close>

record mm_state =
  phys_word :: "u32 \<Rightarrow> u32"
  page_dir_base :: u32
  memory_map :: block_list
  kernel_page_directory :: u32

definition page_walk :: "mm_state \<Rightarrow> u32 \<Rightarrow> u32 option" where
  "page_walk s v =
     (let pde = phys_word s ((page_dir_base s AND PAGE_ADDRESS_MASK) + 4 * get_page_dir_index v)
      in if pde AND PAGE_PRESENT = 0 then None
      else
        let pte = phys_word s ((pde AND PAGE_ADDRESS_MASK) + 4 * get_page_tbl_index v)
        in if pte AND PAGE_PRESENT = 0 then None
        else Some ((pte AND PAGE_ADDRESS_MASK) + (v AND PAGE_FLAGS_MASK)))"

definition read_virt :: "mm_state \<Rightarrow> u32 \<Rightarrow> u32 option" where
  "read_virt s v = map_option (phys_word s) (page_walk s v)"

definition write_virt :: "mm_state \<Rightarrow> u32 \<Rightarrow> u32 \<Rightarrow> mm_state option" where
  "write_virt s v x = map_option (\<lambda>p. s\<lparr>phys_word := (phys_word s)(p := x)\<rparr>) (page_walk s v)"

text \<open>\<open>memset\<close> with zeros, word by word.\<close>

fun zero_words :: "mm_state \<Rightarrow> u32 \<Rightarrow> nat \<Rightarrow> mm_state option" where
  "zero_words s v 0 = Some s"
| "zero_words s v (Suc n) = do {
     s \<leftarrow> write_virt s v 0;
     zero_words s (v + 4) n
   }"

definition zero_page :: "mm_state \<Rightarrow> u32 \<Rightarrow> mm_state option" where
  "zero_page s v = zero_words s v (unat (PAGE_SIZE div 4))"

section \<open>Entries of the directory and the tables\<close>

definition last_pde_address :: u32 where
  "last_pde_address = (PAGE_TABLE_SIZE - 1) * PAGE_TABLE_SIZE * PAGE_SIZE"

definition current_page_directory :: u32 where
  "current_page_directory = MAXIMUM_ADDRESS - NOT PAGE_ADDRESS_MASK"

definition dir_entry_address :: "u32 \<Rightarrow> u32" where
  "dir_entry_address pd_index = current_page_directory + 4 * pd_index"

definition page_table_address :: "u32 \<Rightarrow> u32" where
  "page_table_address pd_index = last_pde_address + 4 * (PAGE_TABLE_SIZE * pd_index)"

definition pt_entry_address :: "u32 \<Rightarrow> u32 \<Rightarrow> u32" where
  "pt_entry_address v pd_index = page_table_address pd_index + 4 * get_page_tbl_index v"

definition memmanager_allocate_physical_page :: "mm_state \<Rightarrow> (u32 \<times> mm_state) option" where
  "memmanager_allocate_physical_page s =
     map_option (\<lambda>(p, m). (p, s\<lparr>memory_map := m\<rparr>))
       (physical_memory_allocate (memory_map s) PAGE_SIZE PAGE_SIZE)"

definition memmanager_get_pt_entry :: "mm_state \<Rightarrow> u32 \<Rightarrow> u32 option" where
  "memmanager_get_pt_entry s v = do {
     pd_entry \<leftarrow> read_virt s (dir_entry_address (get_page_dir_index v));
     (if pd_entry AND PAGE_PRESENT = 0 then Some pd_entry
      else read_virt s (pt_entry_address v (get_page_dir_index v)))
   }"

definition memmanager_get_physical :: "mm_state \<Rightarrow> u32 \<Rightarrow> u32 option" where
  "memmanager_get_physical s v =
     map_option (\<lambda>e. (e AND PAGE_ADDRESS_MASK) + (v AND NOT PAGE_ADDRESS_MASK)) (memmanager_get_pt_entry s v)"

definition memmanager_create_new_page_table :: "mm_state \<Rightarrow> u32 \<Rightarrow> u32 \<Rightarrow> mm_state option" where
  "memmanager_create_new_page_table s pd_index flags =
     (let flags = flags AND NOT (PAGE_RESERVED OR PAGE_MAP_ON_ACCESS) in do {
        (p, s) \<leftarrow> memmanager_allocate_physical_page s;
        s \<leftarrow> write_virt s (dir_entry_address pd_index) (p OR PAGE_PRESENT OR PAGE_RW OR flags);
        zero_page s (page_table_address pd_index)
      })"

section \<open>Finding unmapped pages\<close>

text \<open>
  The loop over one table: the address when enough pages in a row are found, else how many free
  pages its end has. The counter of pages is an unsigned integer.
\<close>

fun scan_page_table ::
  "mm_state \<Rightarrow> u32 \<Rightarrow> u32 \<Rightarrow> u32 \<Rightarrow> u32 \<Rightarrow> nat \<Rightarrow> (u32 + u32) option" where
  "scan_page_table s num_pages pd_index pages_found i 0 = Some (Inr pages_found)"
| "scan_page_table s num_pages pd_index pages_found i (Suc k) = do {
     e \<leftarrow> read_virt s (page_table_address pd_index + 4 * i);
     (if e AND PAGE_ALLOCATED \<noteq> 0 then scan_page_table s num_pages pd_index 0 (i + 1) k
      else if pages_found + 1 = num_pages
      then Some (Inl (push_bit 22 pd_index + (i - (num_pages - 1)) * PAGE_SIZE))
      else scan_page_table s num_pages pd_index (pages_found + 1) (i + 1) k)
   }"

fun unmapped_pages_from ::
  "mm_state \<Rightarrow> u32 \<Rightarrow> u32 \<Rightarrow> u32 \<Rightarrow> u32 \<Rightarrow> nat \<Rightarrow> (u32 \<times> mm_state) option" where
  "unmapped_pages_from s num_pages flags pages_found pd_index 0 = None"
| "unmapped_pages_from s num_pages flags pages_found pd_index (Suc k) = do {
     pd_entry \<leftarrow> read_virt s (dir_entry_address pd_index);
     s \<leftarrow> (if pd_entry AND PAGE_PRESENT = 0 then memmanager_create_new_page_table s pd_index flags
          else Some s);
     (if pd_entry AND PAGE_PRESENT = 0 \<and> num_pages \<le> PAGE_TABLE_SIZE then Some (push_bit 22 pd_index, s)
      else do {
        pd_entry \<leftarrow> read_virt s (dir_entry_address pd_index);
        (if (flags AND PAGE_USER \<noteq> 0) \<noteq> (pd_entry AND PAGE_USER \<noteq> 0)
         then unmapped_pages_from s num_pages flags 0 (pd_index + 1) k
         else do {
           r \<leftarrow> scan_page_table s num_pages pd_index pages_found 0 (unat PAGE_TABLE_SIZE);
           (case r of
              Inl addr \<Rightarrow> Some (addr, s)
            | Inr found \<Rightarrow> unmapped_pages_from s num_pages flags found (pd_index + 1) k)
         })
      })
   }"

definition memmanager_get_unmapped_pages :: "mm_state \<Rightarrow> u32 \<Rightarrow> u32 \<Rightarrow> (u32 \<times> mm_state) option" where
  "memmanager_get_unmapped_pages s num_pages flags =
     (let first_pt = (if flags AND PAGE_USER \<noteq> 0 then 0 else get_page_dir_index KERNEL_SPLIT);
          last_pt = get_page_dir_index MAXIMUM_ADDRESS
      in unmapped_pages_from s num_pages flags 0 first_pt (unat (last_pt - first_pt)))"

section \<open>Mapping and unmapping\<close>

definition memmanager_unmap_page_with_flags :: "mm_state \<Rightarrow> u32 \<Rightarrow> u32 \<Rightarrow> mm_state option" where
  "memmanager_unmap_page_with_flags s v flags = do {
     let pd_index = get_page_dir_index v;
     pd_entry \<leftarrow> read_virt s (dir_entry_address pd_index);
     (if pd_entry AND PAGE_PRESENT = 0 then None
      else do {
        pt_entry \<leftarrow> read_virt s (pt_entry_address v pd_index);
        (if pt_entry AND flags \<noteq> 0 then write_virt s (pt_entry_address v pd_index) 0 else Some s)
      })
   }"

definition memmanager_map_page :: "mm_state \<Rightarrow> u32 \<Rightarrow> u32 \<Rightarrow> u32 \<Rightarrow> (bool \<times> mm_state) option" where
  "memmanager_map_page s v physical_address flags = do {
     let pd_index = get_page_dir_index v;
     pd_entry \<leftarrow> read_virt s (dir_entry_address pd_index);
     (if pd_entry AND PAGE_PRESENT \<noteq> 0 \<and> flags AND PAGE_USER \<noteq> 0 \<and> pd_entry AND PAGE_USER = 0
      then Some (False, s)
      else do {
        s \<leftarrow> (if pd_entry AND PAGE_PRESENT = 0 then memmanager_create_new_page_table s pd_index flags
             else Some s);
        pt_entry \<leftarrow> read_virt s (pt_entry_address v pd_index);
        (if pt_entry AND PAGE_ALLOCATED \<noteq> 0 then Some (False, s)
         else map_option (\<lambda>s. (True, s))
           (write_virt s (pt_entry_address v pd_index) ((physical_address AND PAGE_ADDRESS_MASK) OR flags)))
      })
   }"

fun map_run :: "mm_state \<Rightarrow> u32 \<Rightarrow> u32 \<Rightarrow> u32 \<Rightarrow> nat \<Rightarrow> (bool \<times> mm_state) option" where
  "map_run s v p flags 0 = Some (True, s)"
| "map_run s v p flags (Suc n) = do {
     (ok, s) \<leftarrow> memmanager_map_page s v p flags;
     (if ok then map_run s (v + PAGE_SIZE) (p + PAGE_SIZE) flags n else Some (False, s))
   }"

text \<open>The address of the pages, or 0.\<close>

definition memmanager_map_to_new_pages :: "mm_state \<Rightarrow> u32 \<Rightarrow> u32 \<Rightarrow> u32 \<Rightarrow> (u32 \<times> mm_state) option" where
  "memmanager_map_to_new_pages s physical_address n flags = do {
     (v, s) \<leftarrow> memmanager_get_unmapped_pages s n flags;
     (ok, s) \<leftarrow> map_run s v physical_address flags (unat n);
     Some (if ok then v else 0, s)
   }"

definition memmanager_get_page_flags :: "mm_state \<Rightarrow> u32 \<Rightarrow> u32 option" where
  "memmanager_get_page_flags s v = map_option (\<lambda>e. e AND PAGE_FLAGS_MASK) (memmanager_get_pt_entry s v)"

fun memmanager_set_page_flags :: "mm_state \<Rightarrow> u32 \<Rightarrow> nat \<Rightarrow> u32 \<Rightarrow> mm_state option" where
  "memmanager_set_page_flags s v 0 flags = Some s"
| "memmanager_set_page_flags s v (Suc n) flags = do {
     let preserved = PAGE_PRESENT OR PAGE_RESERVED OR PAGE_MAP_ON_ACCESS;
     pd_entry \<leftarrow> read_virt s (dir_entry_address (get_page_dir_index v));
     (if pd_entry AND PAGE_PRESENT = 0 then Some s
      else do {
        e \<leftarrow> read_virt s (pt_entry_address v (get_page_dir_index v));
        s \<leftarrow> write_virt s (pt_entry_address v (get_page_dir_index v))
               ((e AND (PAGE_ADDRESS_MASK OR preserved)) OR flags);
        memmanager_set_page_flags s (v + PAGE_SIZE) n flags
      })
   }"

definition memmanager_alloc_page :: "mm_state \<Rightarrow> u32 \<Rightarrow> (u32 \<times> mm_state) option" where
  "memmanager_alloc_page s flags = do {
     (p, s) \<leftarrow> memmanager_allocate_physical_page s;
     (v, s) \<leftarrow> memmanager_get_unmapped_pages s 1 flags;
     (ok, s) \<leftarrow> memmanager_map_page s v p (flags OR PAGE_PRESENT);
     Some (if ok then v else 0, s)
   }"

text \<open>
  The two loops of \<open>memmanager_virtual_alloc\<close>. The first maps every physical page at the same virtual
  address, as the code has it; only the second moves on.
\<close>

fun alloc_present :: "mm_state \<Rightarrow> u32 \<Rightarrow> u32 \<Rightarrow> nat \<Rightarrow> mm_state option" where
  "alloc_present s v pf 0 = Some s"
| "alloc_present s v pf (Suc n) = do {
     (p, s) \<leftarrow> memmanager_allocate_physical_page s;
     (r, s) \<leftarrow> memmanager_map_page s v p pf;
     (if r then alloc_present s v pf n else None)
   }"

fun alloc_reserved :: "mm_state \<Rightarrow> u32 \<Rightarrow> u32 \<Rightarrow> nat \<Rightarrow> mm_state option" where
  "alloc_reserved s v pf 0 = Some s"
| "alloc_reserved s v pf (Suc n) = do {
     (r, s) \<leftarrow> memmanager_map_page s v 0 pf;
     f \<leftarrow> memmanager_get_page_flags s v;
     (if r \<and> f AND PAGE_RESERVED \<noteq> 0 \<and> f AND PAGE_PRESENT = 0
      then alloc_reserved s (v + PAGE_SIZE) pf n else None)
   }"

definition memmanager_virtual_alloc :: "mm_state \<Rightarrow> u32 \<Rightarrow> u32 \<Rightarrow> u32 \<Rightarrow> (u32 \<times> mm_state) option" where
  "memmanager_virtual_alloc s v_address n flags =
     (let flags = flags AND (PAGE_FLAGS_MASK AND NOT (PAGE_RESERVED OR PAGE_MAP_ON_ACCESS)) in do {
        (v, s) \<leftarrow> (if v_address = 0 then memmanager_get_unmapped_pages s n flags else Some (v_address, s));
        (if v = 0 then Some (0, s)
         else if v_address \<noteq> 0 \<and> v AND PAGE_FLAGS_MASK \<noteq> 0 then Some (0, s)
         else if flags AND PAGE_PRESENT \<noteq> 0
         then map_option (\<lambda>s. (v, s)) (alloc_present s v (flags OR PAGE_PRESENT) (unat n))
         else map_option (\<lambda>s. (v, s))
           (alloc_reserved s v (flags OR PAGE_RESERVED OR PAGE_MAP_ON_ACCESS) (unat n)))
      })"

definition syscall_virtual_alloc :: "mm_state \<Rightarrow> u32 \<Rightarrow> u32 \<Rightarrow> u32 \<Rightarrow> (u32 \<times> mm_state) option" where
  "syscall_virtual_alloc s v_address n flags = memmanager_virtual_alloc s v_address n flags"

fun memmanager_unmap_pages_with_flags :: "mm_state \<Rightarrow> u32 \<Rightarrow> nat \<Rightarrow> u32 \<Rightarrow> (int \<times> mm_state) option" where
  "memmanager_unmap_pages_with_flags s v 0 flags = Some (0, s)"
| "memmanager_unmap_pages_with_flags s v (Suc n) flags = do {
     s \<leftarrow> memmanager_unmap_page_with_flags s v flags;
     memmanager_unmap_pages_with_flags s (v + PAGE_SIZE) n flags
   }"

definition syscall_unmap_user_pages :: "mm_state \<Rightarrow> u32 \<Rightarrow> u32 \<Rightarrow> (int \<times> mm_state) option" where
  "syscall_unmap_user_pages s addr num_pages =
     memmanager_unmap_pages_with_flags s addr (unat num_pages) PAGE_USER"

definition memmanager_unmap_pages :: "mm_state \<Rightarrow> u32 \<Rightarrow> u32 \<Rightarrow> (int \<times> mm_state) option" where
  "memmanager_unmap_pages s addr num_pages =
     memmanager_unmap_pages_with_flags s addr (unat num_pages) PAGE_ALLOCATED"

fun memmanager_free_pages_with_flags :: "mm_state \<Rightarrow> u32 \<Rightarrow> nat \<Rightarrow> u32 \<Rightarrow> (int \<times> mm_state) option" where
  "memmanager_free_pages_with_flags s v 0 flags = Some (0, s)"
| "memmanager_free_pages_with_flags s v (Suc n) flags = do {
     physical_address \<leftarrow> memmanager_get_pt_entry s v;
     s \<leftarrow> memmanager_unmap_page_with_flags s v flags;
     (if physical_address AND PAGE_ALLOCATED = 0 then Some (-1, s)
      else do {
        s \<leftarrow> (if physical_address AND PAGE_PRESENT \<noteq> 0
             then map_option (\<lambda>m. s\<lparr>memory_map := m\<rparr>)
               (physical_memory_free (memory_map s) (physical_address AND PAGE_ADDRESS_MASK) PAGE_SIZE)
             else Some s);
        memmanager_free_pages_with_flags s (v + PAGE_SIZE) n flags
      })
   }"

definition memmanager_free_pages :: "mm_state \<Rightarrow> u32 \<Rightarrow> u32 \<Rightarrow> (int \<times> mm_state) option" where
  "memmanager_free_pages s page num_pages =
     memmanager_free_pages_with_flags s page (unat num_pages) PAGE_ALLOCATED"

definition syscall_free_pages :: "mm_state \<Rightarrow> u32 \<Rightarrow> u32 \<Rightarrow> (int \<times> mm_state) option" where
  "syscall_free_pages s page num_pages =
     (if page = 0 then Some (-1, s)
      else memmanager_free_pages_with_flags s page (unat num_pages) PAGE_USER)"

section \<open>Address spaces and page faults\<close>

definition memmanager_init_page_dir :: "mm_state \<Rightarrow> u32 \<Rightarrow> u32 \<Rightarrow> mm_state option" where
  "memmanager_init_page_dir s page_dir physaddr = do {
     s \<leftarrow> zero_page s page_dir;
     write_virt s (page_dir + 4 * (PAGE_TABLE_SIZE - 1)) (physaddr OR PAGE_PRESENT OR PAGE_RW)
   }"

fun copy_kernel_entries :: "mm_state \<Rightarrow> u32 \<Rightarrow> u32 \<Rightarrow> nat \<Rightarrow> mm_state option" where
  "copy_kernel_entries s dir i 0 = Some s"
| "copy_kernel_entries s dir i (Suc k) = do {
     e \<leftarrow> read_virt s (dir_entry_address i);
     s \<leftarrow> (if e AND PAGE_USER = 0 then write_virt s (dir + 4 * i) e else Some s);
     copy_kernel_entries s dir (i + 1) k
   }"

definition memmanager_new_memory_space :: "mm_state \<Rightarrow> (u32 \<times> mm_state) option" where
  "memmanager_new_memory_space s = do {
     (dir, s) \<leftarrow> memmanager_alloc_page s PAGE_RW;
     (if dir = 0 then Some (0, s)
      else do {
        p \<leftarrow> memmanager_get_physical s dir;
        s \<leftarrow> memmanager_init_page_dir s dir p;
        s \<leftarrow> copy_kernel_entries s dir 0 (unat (PAGE_TABLE_SIZE - 1));
        Some (dir, s)
      })
   }"

definition memmanager_enter_memory_space :: "mm_state \<Rightarrow> u32 \<Rightarrow> mm_state option" where
  "memmanager_enter_memory_space s memspace =
     map_option (\<lambda>p. s\<lparr>page_dir_base := p\<rparr>) (memmanager_get_physical s memspace)"

fun free_user_tables :: "mm_state \<Rightarrow> u32 \<Rightarrow> nat \<Rightarrow> mm_state option" where
  "free_user_tables s i 0 = Some s"
| "free_user_tables s i (Suc k) = do {
     e \<leftarrow> read_virt s (dir_entry_address i);
     s \<leftarrow> (if e AND PAGE_USER \<noteq> 0
          then map_option (\<lambda>m. s\<lparr>memory_map := m\<rparr>)
            (physical_memory_free (memory_map s) (e AND PAGE_ADDRESS_MASK) PAGE_SIZE)
          else Some s);
     free_user_tables s (i + 1) k
   }"

definition memmanager_destroy_memory_space :: "mm_state \<Rightarrow> u32 \<Rightarrow> (bool \<times> mm_state) option" where
  "memmanager_destroy_memory_space s pdir = do {
     s \<leftarrow> free_user_tables s 0 (unat PAGE_TABLE_SIZE);
     let s = s\<lparr>page_dir_base := kernel_page_directory s\<rparr>;
     (_, s) \<leftarrow> memmanager_free_pages s pdir 1;
     Some (True, s)
   }"

definition memmanager_handle_page_fault :: "mm_state \<Rightarrow> u32 \<Rightarrow> u32 \<Rightarrow> (bool \<times> mm_state) option" where
  "memmanager_handle_page_fault s err v =
     (if err AND PAGE_PRESENT \<noteq> 0 then Some (False, s)
      else do {
        let pd_index = get_page_dir_index v;
        pd_entry \<leftarrow> read_virt s (dir_entry_address pd_index);
        (if pd_entry AND PAGE_PRESENT = 0 then Some (False, s)
         else do {
           pt_entry \<leftarrow> read_virt s (pt_entry_address v pd_index);
           (if pt_entry AND PAGE_MAP_ON_ACCESS = 0 then Some (False, s)
            else if pt_entry AND PAGE_RESERVED = 0 \<or> pt_entry AND PAGE_PRESENT \<noteq> 0 then None
            else do {
              (physical, s) \<leftarrow> memmanager_allocate_physical_page s;
              (if physical = 0 then Some (False, s)
               else do {
                 let page = v AND PAGE_ADDRESS_MASK;
                 let flags = pt_entry AND (PAGE_FLAGS_MASK AND NOT (PAGE_RESERVED OR PAGE_MAP_ON_ACCESS));
                 let page_value = physical OR flags OR PAGE_PRESENT;
                 s \<leftarrow> write_virt s (pt_entry_address v pd_index) (page_value OR PAGE_RW);
                 s \<leftarrow> zero_page s page;
                 s \<leftarrow> (if flags AND PAGE_RW = 0 then write_virt s (pt_entry_address v pd_index) page_value
                      else Some s);
                 Some (True, s)
               })
            })
         })
      })"

end
