(* ===== verification/PhysMemCorrect.thy ===== *)
theory PhysMemCorrect
  imports PhysMem
begin

text \<open>
  The memory manager as a set of free bytes: reserving and allocating take ranges out of it, freeing
  puts them back, the list of blocks stays in order. \<open>byte_manager\<close> is the contract its clients rely on.
\<close>

section \<open>Well-formed maps and the bytes they hold\<close>

definition mb_lo :: "memory_block \<Rightarrow> nat" where
  "mb_lo b = unat (mb_offset b)"

definition mb_hi :: "memory_block \<Rightarrow> nat" where
  "mb_hi b = unat (mb_offset b) + unat (mb_length b)"

definition mb_bytes :: "memory_block \<Rightarrow> nat set" where
  "mb_bytes b = {mb_lo b..<mb_hi b}"

definition free_bytes :: "block_list \<Rightarrow> nat set" where
  "free_bytes m = (\<Union>b \<in> set m. mb_bytes b)"

definition wf_blocks :: "block_list \<Rightarrow> bool" where
  "wf_blocks m \<longleftrightarrow>
     length m \<le> MAX_NUM_MEMORY_BLOCKS \<and> sorted_wrt (\<lambda>b c. mb_hi b \<le> mb_lo c) m \<and>
     (\<forall>b \<in> set m. mb_length b \<noteq> 0 \<and> mb_hi b < 2 ^ 32)"

lemma free_bytes_simps [simp]:
  "free_bytes [] = {}" "free_bytes (b # m) = mb_bytes b \<union> free_bytes m"
  "free_bytes (m @ m') = free_bytes m \<union> free_bytes m'"
  by (auto simp: free_bytes_def)

lemma mb_lo_le_hi: "mb_lo b \<le> mb_hi b"
  by (simp add: mb_lo_def mb_hi_def)

text \<open>What is left of a block when \<open>sz\<close> bytes at \<open>pad\<close> are taken out of it.\<close>

definition pieces :: "memory_block \<Rightarrow> u32 \<Rightarrow> u32 \<Rightarrow> block_list" where
  "pieces b pad sz =
     (if 0 < pad then [\<lparr>mb_offset = mb_offset b, mb_length = pad\<rparr>] else []) @
     (if mb_length b - (sz + pad) \<noteq> 0
      then [\<lparr>mb_offset = mb_offset b + (sz + pad), mb_length = mb_length b - (sz + pad)\<rparr>] else [])"

lemma claim_from_block_pieces:
  assumes "length (xs @ b # ys) \<le> MAX_NUM_MEMORY_BLOCKS"
    and "length (xs @ b # ys) < MAX_NUM_MEMORY_BLOCKS \<or> length (pieces b pad sz) \<le> 1"
    and "mb_length b \<noteq> 0" and "unat sz + unat pad \<le> unat (mb_length b)"
  shows "claim_from_block (xs @ b # ys) (length xs) pad sz =
    Some (xs @ pieces b pad sz @ ys, length xs + length (pieces b pad sz))"
proof (cases "mb_length b - (sz + pad) = 0")
  case True
  show ?thesis
  proof (cases "0 < pad")
    case True
    with \<open>mb_length b - (sz + pad) = 0\<close> show ?thesis
      by (simp add: claim_from_block_def pieces_def)
  next
    case False
    with True assms(1) show ?thesis
      by (auto simp: claim_from_block_def pieces_def erase_block_def butlast_append)
  qed
next
  case False
  with assms(1,2) show ?thesis
    by (auto simp: claim_from_block_def pieces_def emplace_block_def Let_def nth_append list_update_append)
qed

lemma pieces_ok:
  assumes "mb_length b \<noteq> 0" and "mb_hi b < 2 ^ 32" and "unat sz + unat pad \<le> unat (mb_length b)"
    and c: "c \<in> set (pieces b pad sz)"
  shows "mb_length c \<noteq> 0 \<and> mb_lo b \<le> mb_lo c \<and> mb_hi c \<le> mb_hi b"
proof -
  have sp: "unat (sz + pad) = unat sz + unat pad"
    using assms(2,3) by (intro u32_add) (simp add: mb_hi_def)
  then have d: "unat (mb_length b - (sz + pad)) = unat (mb_length b) - (unat sz + unat pad)"
    using assms(3) by (simp add: u32_sub word_le_nat_alt)
  have o: "unat (mb_offset b + (sz + pad)) = unat (mb_offset b) + (unat sz + unat pad)"
    using assms(2,3) sp by (subst u32_add) (simp_all add: mb_hi_def)
  from c consider "0 < pad" "c = \<lparr>mb_offset = mb_offset b, mb_length = pad\<rparr>"
    | "mb_length b - (sz + pad) \<noteq> 0"
      "c = \<lparr>mb_offset = mb_offset b + (sz + pad), mb_length = mb_length b - (sz + pad)\<rparr>"
    by (auto simp: pieces_def split: if_splits)
  then show ?thesis
  proof cases
    case 1
    with assms(3) show ?thesis by (auto simp: mb_lo_def mb_hi_def)
  next
    case 2
    then show ?thesis using assms(3) o d by (simp add: mb_lo_def mb_hi_def)
  qed
qed

lemma pieces_bytes:
  assumes "mb_hi b < 2 ^ 32" and "unat sz + unat pad \<le> unat (mb_length b)"
  shows "free_bytes (pieces b pad sz) = mb_bytes b - {mb_lo b + unat pad..<mb_lo b + unat pad + unat sz}"
    and "sorted_wrt (\<lambda>b c. mb_hi b \<le> mb_lo c) (pieces b pad sz)"
proof -
  have sp: "unat (sz + pad) = unat sz + unat pad"
    using assms by (intro u32_add) (simp add: mb_hi_def)
  then have d: "unat (mb_length b - (sz + pad)) = unat (mb_length b) - (unat sz + unat pad)"
    using assms(2) by (simp add: u32_sub word_le_nat_alt)
  have o: "unat (mb_offset b + (sz + pad)) = unat (mb_offset b) + (unat sz + unat pad)"
    using assms sp by (subst u32_add) (simp_all add: mb_hi_def)
  have z: "(mb_length b - (sz + pad) \<noteq> 0) = (unat sz + unat pad < unat (mb_length b))"
    unfolding word_zero_iff d by auto
  have p: "(0 < pad) = (0 < unat pad)" by (simp add: word_less_nat_alt)
  show "free_bytes (pieces b pad sz) = mb_bytes b - {mb_lo b + unat pad..<mb_lo b + unat pad + unat sz}"
    unfolding pieces_def z p using assms(2)
    by (auto simp: mb_bytes_def mb_lo_def mb_hi_def o d)
  show "sorted_wrt (\<lambda>b c. mb_hi b \<le> mb_lo c) (pieces b pad sz)"
    by (simp add: pieces_def mb_hi_def mb_lo_def o)
qed

lemma wf_pieces:
  assumes "wf_blocks (xs @ b # ys)" and "unat sz + unat pad \<le> unat (mb_length b)"
    and "length (xs @ b # ys) < MAX_NUM_MEMORY_BLOCKS \<or> length (pieces b pad sz) \<le> 1"
  shows "wf_blocks (xs @ pieces b pad sz @ ys)"
proof -
  have b: "mb_length b \<noteq> 0" "mb_hi b < 2 ^ 32" using assms(1) by (simp_all add: wf_blocks_def)
  have "length (pieces b pad sz) \<le> 2" by (simp add: pieces_def)
  moreover have "mb_length c \<noteq> 0 \<and> mb_lo b \<le> mb_lo c \<and> mb_hi c \<le> mb_hi b" if "c \<in> set (pieces b pad sz)" for c
    using pieces_ok [OF b assms(2) that] .
  ultimately show ?thesis
    using assms(1,3) pieces_bytes(2) [OF b(2) assms(2)]
    by (fastforce simp: wf_blocks_def sorted_wrt_append)
qed


lemma wf_bytes_apart:
  assumes "wf_blocks (xs @ b # ys)"
  shows "free_bytes xs \<subseteq> {..<mb_lo b}" and "free_bytes ys \<subseteq> {mb_hi b..}"
  using assms by (fastforce simp: wf_blocks_def sorted_wrt_append free_bytes_def mb_bytes_def)+

lemma claim_ok:
  assumes "wf_blocks (xs @ b # ys)" and "unat sz + unat pad \<le> unat (mb_length b)"
    and "length (xs @ b # ys) < MAX_NUM_MEMORY_BLOCKS \<or> length (pieces b pad sz) \<le> 1"
  shows "claim_from_block (xs @ b # ys) (length xs) pad sz =
      Some (xs @ pieces b pad sz @ ys, length xs + length (pieces b pad sz))"
    and "wf_blocks (xs @ pieces b pad sz @ ys)"
    and "free_bytes (xs @ pieces b pad sz @ ys) =
      free_bytes (xs @ b # ys) - {mb_lo b + unat pad..<mb_lo b + unat pad + unat sz}"
proof -
  have b: "mb_length b \<noteq> 0" "mb_hi b < 2 ^ 32" "length (xs @ b # ys) \<le> MAX_NUM_MEMORY_BLOCKS"
    using assms(1) by (simp_all add: wf_blocks_def)
  show "claim_from_block (xs @ b # ys) (length xs) pad sz =
      Some (xs @ pieces b pad sz @ ys, length xs + length (pieces b pad sz))"
    by (rule claim_from_block_pieces) (use b assms in auto)
  show "wf_blocks (xs @ pieces b pad sz @ ys)" by (rule wf_pieces [OF assms])
  have "{mb_lo b + unat pad..<mb_lo b + unat pad + unat sz} \<subseteq> {mb_lo b..<mb_hi b}"
    using assms(2) by (auto simp: mb_lo_def mb_hi_def)
  then show "free_bytes (xs @ pieces b pad sz @ ys) =
      free_bytes (xs @ b # ys) - {mb_lo b + unat pad..<mb_lo b + unat pad + unat sz}"
    using wf_bytes_apart [OF assms(1)] pieces_bytes(1) [OF b(2) assms(2)] by fastforce
qed

declare reserve_from.simps [simp del] allocate_from.simps [simp del]
  allocate_in_range_from.simps [simp del] free_from.simps [simp del]

lemma reserve_from_end: "reserve_from m (length m) a n = Some m"
  by (simp add: reserve_from.simps)

text \<open>One round of the loop, with the range cut down to what does not lie in front of the block.\<close>

lemma reserve_from_step:
  fixes a n :: u32
  assumes wf: "wf_blocks (xs @ b # ys)" and room: "length (xs @ b # ys) < MAX_NUM_MEMORY_BLOCKS"
    and a: "unat a + unat n < 2 ^ 32" and lo: "mb_lo b \<le> unat a"
    and m: "m = xs @ b # ys"
  defines "avail \<equiv> mb_length b - (a - mb_offset b)"
  defines "claimed \<equiv> (if avail < n then avail else n)"
  shows "unat a \<le> mb_hi b \<Longrightarrow> unat claimed = min (unat n) (mb_hi b - unat a) \<and>
      unat claimed + unat (a - mb_offset b) \<le> unat (mb_length b) \<and> claimed + (a - mb_offset b) \<le> mb_length b"
    and "mb_hi b < unat a \<Longrightarrow> \<not> claimed + (a - mb_offset b) \<le> mb_length b"
proof -
  have b: "mb_length b \<noteq> 0" "mb_hi b < 2 ^ 32" using wf by (simp_all add: wf_blocks_def)
  have off: "unat (a - mb_offset b) = unat a - mb_lo b"
    using lo by (simp add: u32_sub word_le_nat_alt mb_lo_def)
  {
    assume h: "unat a \<le> mb_hi b"
    then have av: "unat avail = mb_hi b - unat a"
      using lo off unfolding avail_def
      by (subst u32_sub) (auto simp: word_le_nat_alt mb_lo_def mb_hi_def)
    have c: "unat claimed = min (unat n) (mb_hi b - unat a)"
      unfolding claimed_def using av by (auto simp: word_less_nat_alt min_def)
    then have le: "unat claimed + unat (a - mb_offset b) \<le> unat (mb_length b)"
      using off lo h by (auto simp: mb_lo_def mb_hi_def)
    then have "claimed + (a - mb_offset b) \<le> mb_length b"
      using b(2) by (simp add: word_le_nat_alt u32_add mb_hi_def)
    with c le show "unat claimed = min (unat n) (mb_hi b - unat a) \<and>
      unat claimed + unat (a - mb_offset b) \<le> unat (mb_length b) \<and> claimed + (a - mb_offset b) \<le> mb_length b"
      by blast
  next
    assume h: "mb_hi b < unat a"
    then have gt: "mb_length b < a - mb_offset b"
      using off lo by (simp add: word_less_nat_alt mb_lo_def mb_hi_def)
    have "unat (a - mb_offset b - mb_length b) = unat a - mb_hi b"
      using gt off h lo by (subst u32_sub) (auto simp: mb_hi_def mb_lo_def)
    moreover have "avail = - (a - mb_offset b - mb_length b)" by (simp add: avail_def)
    moreover have "a - mb_offset b - mb_length b \<noteq> 0" using gt by auto
    ultimately have "unat avail = 2 ^ 32 - (unat a - mb_hi b)"
      using u32_neg by metis
    then have "\<not> unat avail < unat n" using a h by linarith
    then have "claimed = n" by (simp add: claimed_def word_less_nat_alt)
    moreover have "unat (n + (a - mb_offset b)) = unat n + (unat a - mb_lo b)"
      using a off lo by (subst u32_add) simp_all
    ultimately show "\<not> claimed + (a - mb_offset b) \<le> mb_length b"
      using h lo by (simp add: word_le_nat_alt mb_lo_def mb_hi_def)
  }
qed


lemma reserve_from_ok:
  assumes "wf_blocks (xs @ ys)" and "length (xs @ ys) < MAX_NUM_MEMORY_BLOCKS"
    and "unat a + unat n < 2 ^ 32" and "free_bytes xs \<inter> {unat a..<unat a + unat n} = {}"
  shows "\<exists>m'. reserve_from (xs @ ys) (length xs) a n = Some m' \<and> wf_blocks m' \<and>
    length m' \<le> Suc (length (xs @ ys)) \<and>
    free_bytes m' = free_bytes (xs @ ys) - {unat a..<unat a + unat n}"
  using assms
proof (induction ys arbitrary: xs a n)
  case Nil
  then show ?case using reserve_from_end [of xs] by auto
next
  case (Cons b ys)
  let ?m = "xs @ b # ys"
  let ?R = "{unat a..<unat a + unat n}"
  have b: "mb_length b \<noteq> 0" "mb_hi b < 2 ^ 32" using Cons.prems(1) by (simp_all add: wf_blocks_def)
  note apart = wf_bytes_apart [OF Cons.prems(1)]
  have sum: "unat (a + n) = unat a + unat n" using Cons.prems(3) by (rule u32_add)
  have nth: "?m ! length xs = b" "length xs < length ?m" by simp_all
  show ?case
  proof (cases "a + n < mb_offset b")
    case True
    then have "reserve_from ?m (length xs) a n = Some ?m" by (simp add: reserve_from.simps)
    moreover have "free_bytes ?m \<inter> ?R = {}"
      using True Cons.prems(4) apart(2) mb_lo_le_hi [of b]
      by (fastforce simp: mb_bytes_def word_less_nat_alt sum mb_lo_def)
    ultimately show ?thesis using Cons.prems(1) by auto
  next
    case False
    define n' where "n' = (if a < mb_offset b then n - (mb_offset b - a) else n)"
    define a' where "a' = (if a < mb_offset b then mb_offset b else a)"
    have lo: "mb_lo b \<le> unat a'" "unat a \<le> unat a'"
      by (auto simp: a'_def mb_lo_def word_less_nat_alt word_le_nat_alt)
    have n': "unat a' + unat n' = unat a + unat n"
    proof (cases "a < mb_offset b")
      case True
      then have "unat (mb_offset b - a) = unat (mb_offset b) - unat a" "unat a < unat (mb_offset b)"
        by (simp_all add: u32_sub word_less_nat_alt word_le_nat_alt)
      moreover have "unat (mb_offset b) \<le> unat a + unat n" using False by (simp add: word_less_nat_alt sum)
      ultimately show ?thesis using True by (simp add: n'_def a'_def u32_sub word_le_nat_alt)
    qed (simp add: n'_def a'_def)
    have before: "free_bytes ?m \<inter> {unat a..<unat a'} = {}"
    proof (cases "a < mb_offset b")
      case True
      then show ?thesis using Cons.prems(4) apart(2) n' lo mb_lo_le_hi [of b]
        by (fastforce simp: a'_def mb_bytes_def mb_lo_def)
    qed (simp add: a'_def)
    have split: "?R = {unat a..<unat a'} \<union> {unat a'..<unat a' + unat n'}" using n' lo by auto
    have cut: "free_bytes ?m - ?R = free_bytes ?m - {unat a'..<unat a' + unat n'}"
      using split before by blast
    define claimed where
      "claimed = (if mb_length b - (a' - mb_offset b) < n' then mb_length b - (a' - mb_offset b) else n')"
    note step = reserve_from_step [OF Cons.prems(1,2) _ lo(1) refl, of n', folded claimed_def]
    have bound: "unat a' + unat n' < 2 ^ 32" using n' Cons.prems(3) by simp
    have unfold: "reserve_from ?m (length xs) a n =
      (if claimed + (a' - mb_offset b) \<le> mb_length b
       then (case claim_from_block ?m (length xs) (a' - mb_offset b) claimed of
               None \<Rightarrow> None
             | Some (m', nxt) \<Rightarrow>
                 if n' - claimed = 0 then Some m' else reserve_from m' nxt (a' + claimed) (n' - claimed))
       else if n' = 0 then Some ?m else reserve_from ?m (length xs + 1) a' n')"
      using False by (subst reserve_from.simps) (simp only: nth if_True if_False Let_def n'_def a'_def claimed_def)
    show ?thesis
    proof (cases "unat a' \<le> mb_hi b")
      case True
      from step(1) [OF bound True]
      have c: "unat claimed = min (unat n') (mb_hi b - unat a')"
        "unat claimed + unat (a' - mb_offset b) \<le> unat (mb_length b)"
        "claimed + (a' - mb_offset b) \<le> mb_length b" by simp_all
      define pad where "pad = a' - mb_offset b"
      have pad: "mb_lo b + unat pad = unat a'"
        using lo(1) by (simp add: pad_def u32_sub word_le_nat_alt mb_lo_def)
      let ?P = "pieces b pad claimed"
      have room: "length ?m < MAX_NUM_MEMORY_BLOCKS \<or> length ?P \<le> 1" using Cons.prems(2) by simp
      note claim = claim_ok [OF Cons.prems(1) c(2) [folded pad_def] room, unfolded pad]
      have le: "unat claimed \<le> unat n'" using c(1) by simp
      then have diff: "unat (n' - claimed) = unat n' - unat claimed" by (simp add: u32_sub word_le_nat_alt)
      have run: "reserve_from ?m (length xs) a n =
        (if n' - claimed = 0 then Some (xs @ ?P @ ys)
         else reserve_from (xs @ ?P @ ys) (length xs + length ?P) (a' + claimed) (n' - claimed))"
        using unfold c(3) claim(1) by (simp add: pad_def [symmetric])
      show ?thesis
      proof (cases "n' - claimed = 0")
        case True
        then have "unat claimed = unat n'" using diff le by simp
        moreover have "length ?P \<le> 2" by (simp add: pieces_def)
        ultimately show ?thesis using claim(2,3) run True unfolding cut by simp
      next
        case False
        then have "unat claimed \<noteq> unat n'" using diff word_zero_iff by simp
        then have hi: "unat a' + unat claimed = mb_hi b" using c(1) True by auto
        then have "unat (claimed + pad) = unat (mb_length b)"
          using pad b(2) by (subst u32_add) (simp_all add: mb_hi_def mb_lo_def)
        then have "claimed + pad = mb_length b" by (simp only: word_unat_eq_iff)
        then have "length ?P \<le> 1" by (simp add: pieces_def)
        then have len: "length ((xs @ ?P) @ ys) < MAX_NUM_MEMORY_BLOCKS" using Cons.prems(2) by simp
        have add: "unat (a' + claimed) = mb_hi b" using hi b(2) by (subst u32_add) simp_all
        have rest: "mb_hi b + unat (n' - claimed) = unat a' + unat n'" using hi diff le by simp
        have "free_bytes (xs @ ?P) \<inter> {mb_hi b..<unat a' + unat n'} = {}"
          using pieces_bytes(1) [OF b(2) c(2) [folded pad_def]] Cons.prems(4) split True
          by (fastforce simp: mb_bytes_def)
        with Cons.IH [of "xs @ ?P" "a' + claimed" "n' - claimed"] claim(2) len add rest bound
        obtain m' where "reserve_from (xs @ ?P @ ys) (length xs + length ?P) (a' + claimed) (n' - claimed) = Some m'"
          "wf_blocks m'" "length m' \<le> Suc (length (xs @ ?P @ ys))" "free_bytes m' = free_bytes (xs @ ?P @ ys) - {mb_hi b..<unat a' + unat n'}" by auto
        moreover have "free_bytes ?m - {unat a'..<mb_hi b} - {mb_hi b..<unat a' + unat n'} =
            free_bytes ?m - {unat a'..<unat a' + unat n'}"
          using rest True by auto
        ultimately show ?thesis using run False claim(3) hi \<open>length ?P \<le> 1\<close> unfolding cut by simp
      qed
    next
      case False
      then have nc: "\<not> claimed + (a' - mb_offset b) \<le> mb_length b" using step(2) [OF bound] by simp
      have "free_bytes (xs @ [b]) \<inter> {unat a'..<unat a' + unat n'} = {}"
        using Cons.prems(4) split False by (auto simp: mb_bytes_def)
      with Cons.IH [of "xs @ [b]" a' n'] Cons.prems(1,2) bound
      obtain m' where "reserve_from ?m (length xs + 1) a' n' = Some m'" "wf_blocks m'"
        "length m' \<le> Suc (length ?m)"
        "free_bytes m' = free_bytes ?m - {unat a'..<unat a' + unat n'}" by auto
      with unfold nc Cons.prems(1) show ?thesis unfolding cut
        by (cases "n' = 0") simp_all
    qed
  qed
qed


lemma align_addr_ok:
  fixes a :: u32
  assumes "k < 32"
  obtains r where "align_addr a (2 ^ k) = Some r" and "2 ^ k dvd unat r"
    and "unat (r - a) < 2 ^ k" and "2 ^ k dvd unat a + unat (r - a)"
proof -
  let ?r = "(a + (2 ^ k - 1)) AND NOT (2 ^ k - 1)"
  have "has_single_bit (2 ^ k :: u32)" using assms by (simp add: has_single_bit_exp)
  then have "align_addr a (2 ^ k) = Some ?r" by (simp add: align_addr_def)
  moreover have d: "2 ^ k dvd unat ?r"
    unfolding unat_align_down by (rule dvd_minus_mod)
  moreover have "unat (?r - a) < 2 ^ k"
  proof -
    have m: "unat (2 ^ k - 1 :: u32) = 2 ^ k - 1"
      using assms by (subst u32_sub) (simp_all add: word_le_nat_alt)
    have "?r - a = (2 ^ k - 1) - ((a + (2 ^ k - 1)) AND (2 ^ k - 1))"
      by (simp add: and_not_mask_eq)
    moreover have le: "(a + (2 ^ k - 1)) AND (2 ^ k - 1) \<le> (2 ^ k - 1 :: u32)"
      by (rule word_and_le1)
    ultimately have "unat (?r - a) \<le> 2 ^ k - 1"
      using m by (simp only: u32_sub [OF le])
    then show ?thesis by (simp add: less_eq_iff_succ_less Suc_le_eq le_less_trans)
  qed
  moreover have "2 ^ k dvd unat a + unat (?r - a)"
  proof -
    have "unat ?r = (unat a + unat (?r - a)) mod 2 ^ 32"
      using unat_word_ariths(1) [of a "?r - a"] by simp
    moreover have "(2 ^ k :: nat) dvd 2 ^ 32" using assms by (intro le_imp_power_dvd) simp
    ultimately show ?thesis using d by (metis dvd_mod_iff)
  qed
  ultimately show thesis by (rule that)
qed

text \<open>A block has room for \<open>sz\<close> bytes at a multiple of the alignment.\<close>

definition fits :: "nat \<Rightarrow> nat \<Rightarrow> memory_block \<Rightarrow> bool" where
  "fits al sz b \<longleftrightarrow> (\<exists>p. al dvd p \<and> mb_lo b \<le> p \<and> p + sz \<le> mb_hi b)"

lemma fits_padding:
  assumes "2 ^ k dvd mb_lo b + pad" and "pad < 2 ^ k"
  shows "fits (2 ^ k) sz b \<longleftrightarrow> sz + pad \<le> unat (mb_length b)"
proof
  assume "fits (2 ^ k) sz b"
  then obtain p where p: "2 ^ k dvd p" "mb_lo b \<le> p" "p + sz \<le> mb_hi b" by (auto simp: fits_def)
  have "mb_lo b + pad \<le> p"
  proof (rule ccontr)
    assume "\<not> mb_lo b + pad \<le> p"
    then have "0 < mb_lo b + pad - p" and "mb_lo b + pad - p < 2 ^ k" using p(2) assms(2) by linarith+
    moreover have "2 ^ k dvd mb_lo b + pad - p" using assms(1) p(1) by (rule dvd_diff_nat)
    ultimately show False using dvd_imp_le by fastforce
  qed
  with p(3) show "sz + pad \<le> unat (mb_length b)" by (simp add: mb_lo_def mb_hi_def)
next
  assume "sz + pad \<le> unat (mb_length b)"
  then show "fits (2 ^ k) sz b"
    unfolding fits_def using assms(1) by (intro exI [of _ "mb_lo b + pad"]) (auto simp: mb_lo_def mb_hi_def)
qed

definition allocated :: "nat \<Rightarrow> u32 \<Rightarrow> block_list \<Rightarrow> (u32 \<times> block_list) option \<Rightarrow> bool" where
  "allocated al sz m res \<longleftrightarrow>
     (\<exists>r m'. res = Some (r, m') \<and> wf_blocks m' \<and> length m' \<le> Suc (length m) \<and> al dvd unat r \<and>
        {unat r..<unat r + unat sz} \<subseteq> free_bytes m \<and> unat r + unat sz < 2 ^ 32 \<and>
        free_bytes m' = free_bytes m - {unat r..<unat r + unat sz})"

lemma allocate_from_ok:
  assumes "wf_blocks (xs @ ys)" and "length (xs @ ys) < MAX_NUM_MEMORY_BLOCKS"
    and "k < 32" and "unat sz + 2 ^ k \<le> 2 ^ 32"
  shows "if \<exists>b \<in> set ys. fits (2 ^ k) (unat sz) b
    then allocated (2 ^ k) sz (xs @ ys) (allocate_from (xs @ ys) (length xs) sz (2 ^ k))
    else allocate_from (xs @ ys) (length xs) sz (2 ^ k) = Some (0, xs @ ys)"
  using assms(1,2)
proof (induction ys arbitrary: xs)
  case Nil
  then show ?case by (simp add: allocate_from.simps)
next
  case (Cons b ys)
  let ?m = "xs @ b # ys"
  have b: "mb_hi b < 2 ^ 32" using Cons.prems(1) by (simp add: wf_blocks_def)
  obtain r where r: "align_addr (mb_offset b) (2 ^ k) = Some r" "2 ^ k dvd unat r"
    "unat (r - mb_offset b) < 2 ^ k" "2 ^ k dvd unat (mb_offset b) + unat (r - mb_offset b)"
    using align_addr_ok [OF assms(3)] by blast
  let ?pad = "r - mb_offset b"
  have sum: "unat (sz + ?pad) = unat sz + unat ?pad"
    using r(3) assms(4) by (intro u32_add) linarith
  have fit: "fits (2 ^ k) (unat sz) b \<longleftrightarrow> sz + ?pad \<le> mb_length b"
    using fits_padding [of k b "unat ?pad" "unat sz"] r(3,4) sum by (simp add: mb_lo_def word_le_nat_alt)
  show ?case
  proof (cases "sz + ?pad \<le> mb_length b")
    case True
    then have le: "unat sz + unat ?pad \<le> unat (mb_length b)" by (simp add: word_le_nat_alt sum)
    have room: "length ?m < MAX_NUM_MEMORY_BLOCKS \<or> length (pieces b ?pad sz) \<le> 1" using Cons.prems(2) by simp
    note claim = claim_ok [OF Cons.prems(1) le room]
    have "unat (mb_offset b + ?pad) = unat (mb_offset b) + unat ?pad"
      using b le by (intro u32_add) (simp add: mb_hi_def)
    then have ur: "unat r = mb_lo b + unat ?pad" by (simp add: mb_lo_def)
    have "allocate_from ?m (length xs) sz (2 ^ k) = Some (r, xs @ pieces b ?pad sz @ ys)"
      using r(1) True claim(1) by (subst allocate_from.simps) (simp add: Let_def)
    moreover have "length (pieces b ?pad sz) \<le> 2" by (simp add: pieces_def)
    moreover have "{unat r..<unat r + unat sz} \<subseteq> mb_bytes b" and "unat r + unat sz < 2 ^ 32"
      using le b ur by (auto simp: mb_bytes_def mb_hi_def mb_lo_def)
    ultimately have "allocated (2 ^ k) sz ?m (allocate_from ?m (length xs) sz (2 ^ k))"
      unfolding allocated_def using claim(2,3) r(2) ur
      by (intro exI [of _ r] exI [of _ "xs @ pieces b ?pad sz @ ys"]) auto
    with fit True show ?thesis by auto
  next
    case False
    then have "allocate_from ?m (length xs) sz (2 ^ k) = allocate_from ((xs @ [b]) @ ys) (length (xs @ [b])) sz (2 ^ k)"
      using r(1) by (subst allocate_from.simps) (simp add: Let_def)
    with Cons.IH [of "xs @ [b]"] Cons.prems fit False show ?thesis
      by (auto split: if_split_asm)
  qed
qed

lemma free_from_ok:
  assumes "wf_blocks (xs @ ys)" and "length (xs @ ys) < MAX_NUM_MEMORY_BLOCKS"
    and "0 < unat n" and "unat a + unat n < 2 ^ 32"
    and "free_bytes (xs @ ys) \<inter> {unat a..<unat a + unat n} = {}" and "\<forall>b \<in> set xs. mb_hi b < unat a"
  shows "\<exists>m'. free_from (xs @ ys) (length xs) a n = Some m' \<and> wf_blocks m' \<and>
    length m' \<le> Suc (length (xs @ ys)) \<and>
    free_bytes m' = free_bytes (xs @ ys) \<union> {unat a..<unat a + unat n}"
  using assms
proof (induction ys arbitrary: xs)
  case Nil
  let ?b = "\<lparr>mb_offset = a, mb_length = n\<rparr>"
  have "free_from xs (length xs) a n = Some (xs @ [?b])"
    using Nil.prems(2) by (simp add: free_from.simps emplace_back_def)
  moreover have "wf_blocks (xs @ [?b])" and "free_bytes [?b] = {unat a..<unat a + unat n}"
    using Nil.prems by (auto simp: wf_blocks_def sorted_wrt_append mb_lo_def mb_hi_def mb_bytes_def less_imp_le)
  ultimately show ?case by auto
next
  case (Cons b ys)
  let ?m = "xs @ b # ys"
  have b: "mb_length b \<noteq> 0" "mb_hi b < 2 ^ 32" using Cons.prems(1) by (simp_all add: wf_blocks_def)
  have hi: "unat (mb_offset b + mb_length b) = mb_hi b"
    using b(2) by (subst u32_add) (simp_all add: mb_hi_def)
  have sum: "unat (a + n) = unat a + unat n" using Cons.prems(4) by (rule u32_add)
  have nth: "?m ! length xs = b" "length xs < length ?m" by simp_all
  have pos: "mb_lo b < mb_hi b" using b(1) by (simp add: mb_lo_def mb_hi_def word_zero_iff)
  have apart: "mb_hi b \<le> unat a \<or> unat a + unat n \<le> mb_lo b"
  proof (rule ccontr)
    assume "\<not> ?thesis"
    then have "max (mb_lo b) (unat a) \<in> mb_bytes b \<inter> {unat a..<unat a + unat n}"
      using Cons.prems(3) pos by (auto simp: mb_bytes_def)
    with Cons.prems(5) show False by auto
  qed
  have order: "\<forall>c \<in> set xs. mb_hi c \<le> mb_lo b" "\<forall>c \<in> set ys. mb_hi b \<le> mb_lo c"
    "sorted_wrt (\<lambda>b c. mb_hi b \<le> mb_lo c) xs" "sorted_wrt (\<lambda>b c. mb_hi b \<le> mb_lo c) ys"
    "\<forall>x \<in> set xs. \<forall>y \<in> set ys. mb_hi x \<le> mb_lo y"
    "\<forall>c \<in> set xs \<union> set ys. mb_length c \<noteq> 0 \<and> mb_hi c < 2 ^ 32"
    using Cons.prems(1) by (auto simp: wf_blocks_def sorted_wrt_append)
  consider (before) "mb_hi b < unat a" | (joins) "mb_hi b = unat a" | (joined) "unat a + unat n = mb_lo b"
    | (after) "unat a + unat n < mb_lo b" using apart by linarith
  then show ?case
  proof cases
    case before
    then have "free_from ?m (length xs) a n = free_from ((xs @ [b]) @ ys) (length (xs @ [b])) a n"
      by (subst free_from.simps) (simp add: Let_def word_less_nat_alt hi)
    with Cons.IH [of "xs @ [b]"] Cons.prems before show ?thesis by auto
  next
    case joins
    then have eq: "mb_offset b + mb_length b = a" using hi by (simp add: word_unat_eq_iff)
    let ?b = "b\<lparr>mb_length := mb_length b + n\<rparr>"
    have ln: "unat (mb_length b + n) = unat (mb_length b) + unat n"
      using joins Cons.prems(4) by (subst u32_add) (simp_all add: mb_hi_def)
    then have b': "mb_lo ?b = mb_lo b" "mb_hi ?b = unat a + unat n" "mb_length ?b \<noteq> 0"
      using joins Cons.prems(3) by (simp_all add: mb_lo_def mb_hi_def word_zero_iff)
    have far: "unat a + unat n \<le> mb_lo c" if "c \<in> set ys" for c
    proof (rule ccontr)
      assume "\<not> ?thesis"
      then have "mb_lo c \<in> free_bytes ?m \<inter> {unat a..<unat a + unat n}"
        using that order(2,6) joins by (fastforce simp: free_bytes_def mb_bytes_def mb_lo_def mb_hi_def word_zero_iff)
      with Cons.prems(5) show False by auto
    qed
    show ?thesis
    proof (cases "\<exists>c zs. ys = c # zs \<and> mb_offset c = a + n")
      case True
      then obtain c zs where ys: "ys = c # zs" "mb_offset c = a + n" by auto
      have lo: "mb_lo c = unat a + unat n" using ys(2) sum by (simp add: mb_lo_def)
      let ?c = "b\<lparr>mb_length := mb_length b + n + mb_length c\<rparr>"
      have hc: "mb_hi c < 2 ^ 32" using order(6) ys(1) by simp
      have "unat (mb_length b + n + mb_length c) = unat (mb_length b) + unat n + unat (mb_length c)"
        using hc lo joins ln by (subst u32_add) (simp_all add: mb_hi_def mb_lo_def)
      then have c': "mb_lo ?c = mb_lo b" "mb_hi ?c = mb_hi c" "mb_length ?c \<noteq> 0"
        using lo joins Cons.prems(3) by (simp_all add: mb_lo_def mb_hi_def word_zero_iff)
      have "free_from ?m (length xs) a n = Some (xs @ ?c # zs)"
        using ys eq Cons.prems(2)
        by (subst free_from.simps) (simp add: Let_def nth_append erase_block_def butlast_append)
      moreover have "wf_blocks (xs @ ?c # zs)"
        using order Cons.prems(2) ys c' hc by (auto simp: wf_blocks_def sorted_wrt_append)
      moreover have "mb_bytes ?c = mb_bytes b \<union> mb_bytes c \<union> {unat a..<unat a + unat n}"
        unfolding mb_bytes_def c' using lo joins pos mb_lo_le_hi [of c] by auto
      ultimately show ?thesis using ys(1) by auto
    next
      case False
      then have "free_from ?m (length xs) a n = Some (xs @ ?b # ys)"
        using eq by (subst free_from.simps) (cases ys; auto simp: Let_def nth_append)
      moreover have "wf_blocks (xs @ ?b # ys)"
        using order Cons.prems(2,4) b' far by (auto simp: wf_blocks_def sorted_wrt_append)
      moreover have "mb_bytes ?b = mb_bytes b \<union> {unat a..<unat a + unat n}"
        unfolding mb_bytes_def b' using joins pos by auto
      ultimately show ?thesis by auto
    qed
  next
    case joined
    let ?b = "\<lparr>mb_offset = a, mb_length = mb_length b + n\<rparr>"
    have ln: "unat (mb_length b + n) = unat (mb_length b) + unat n"
      using joined b(2) by (subst u32_add) (simp_all add: mb_hi_def mb_lo_def)
    then have b': "mb_lo ?b = unat a" "mb_hi ?b = mb_hi b" "mb_length ?b \<noteq> 0"
      using joined Cons.prems(3) by (simp_all add: mb_lo_def mb_hi_def word_zero_iff)
    have ne: "\<not> mb_offset b + mb_length b < a" "mb_offset b + mb_length b \<noteq> a" "mb_offset b = a + n"
      using joined pos hi sum by (auto simp: word_less_nat_alt mb_lo_def word_unat_eq_iff)
    have "free_from ?m (length xs) a n = Some (xs @ ?b # ys)"
      using ne by (subst free_from.simps) (simp add: Let_def)
    moreover have "wf_blocks (xs @ ?b # ys)"
      using order Cons.prems(2,6) b b' by (auto simp: wf_blocks_def sorted_wrt_append less_imp_le)
    moreover have "mb_bytes ?b = mb_bytes b \<union> {unat a..<unat a + unat n}"
      unfolding mb_bytes_def b' using joined pos by auto
    ultimately show ?thesis by auto
  next
    case after
    let ?b = "\<lparr>mb_offset = a, mb_length = n\<rparr>"
    have b': "mb_lo ?b = unat a" "mb_hi ?b = unat a + unat n" "mb_length ?b \<noteq> 0"
      using Cons.prems(3) by (simp_all add: mb_lo_def mb_hi_def word_zero_iff)
    have ne: "\<not> mb_offset b + mb_length b < a" "mb_offset b + mb_length b \<noteq> a" "mb_offset b \<noteq> a + n"
      using after pos hi sum by (auto simp: word_less_nat_alt mb_lo_def word_unat_eq_iff)
    have "free_from ?m (length xs) a n = Some (xs @ ?b # b # ys)"
      using ne Cons.prems(2) by (subst free_from.simps) (simp add: Let_def emplace_block_def)
    moreover have "wf_blocks (xs @ ?b # b # ys)"
      using order Cons.prems(2,4,6) b b' after pos
      by (auto simp: wf_blocks_def sorted_wrt_append less_imp_le intro: order_trans)
    moreover have "mb_bytes ?b = {unat a..<unat a + unat n}"
      unfolding mb_bytes_def b' ..
    ultimately show ?thesis by auto
  qed
qed


section \<open>The bytes that are free\<close>

lemma finite_free_bytes: "finite (free_bytes m)"
  by (simp add: free_bytes_def mb_bytes_def)

lemma num_bytes_free:
  assumes "wf_blocks m"
  shows "unat (physical_num_bytes_free m) = card (free_bytes m)"
  using assms
proof (induction m)
  case (Cons b m)
  then have wf: "wf_blocks m" and b: "mb_hi b < 2 ^ 32" by (simp_all add: wf_blocks_def)
  have "mb_bytes b \<inter> free_bytes m = {}"
    using wf_bytes_apart(2) [of "[]" b m] Cons.prems by (auto simp: mb_bytes_def)
  then have card: "card (free_bytes (b # m)) = unat (mb_length b) + card (free_bytes m)"
    by (subst free_bytes_simps) (subst card_Un_disjoint; simp add: finite_free_bytes mb_bytes_def mb_hi_def mb_lo_def)
  have "mb_hi c \<le> 2 ^ 32 - 1" if "c \<in> set (b # m)" for c
    using Cons.prems that by (fastforce simp: wf_blocks_def)
  then have "free_bytes (b # m) \<subseteq> {..<2 ^ 32 - 1}"
    unfolding free_bytes_def mb_bytes_def by fastforce
  then have "card (free_bytes (b # m)) \<le> 2 ^ 32 - 1"
    using card_mono [of "{..<2 ^ 32 - 1 :: nat}"] by fastforce
  with card Cons.IH [OF wf] show ?case
    by (simp add: physical_num_bytes_free_def u32_add)
qed (simp add: physical_num_bytes_free_def)

section \<open>The contract of the memory manager\<close>

locale byte_manager =
  fixes wf :: "'m \<Rightarrow> bool" and room :: "'m \<Rightarrow> nat" and avail :: "'m \<Rightarrow> nat set"
    and alloc :: "'m \<Rightarrow> u32 \<Rightarrow> nat \<Rightarrow> (u32 \<times> 'm) option"
    and release :: "'m \<Rightarrow> u32 \<Rightarrow> u32 \<Rightarrow> 'm option"
    and can :: "'m \<Rightarrow> u32 \<Rightarrow> nat \<Rightarrow> bool"
  assumes alloc: "wf m \<Longrightarrow> 0 < room m \<Longrightarrow> can m sz k \<Longrightarrow>
      \<exists>r m'. alloc m sz k = Some (r, m') \<and> wf m' \<and> room m \<le> Suc (room m') \<and>
        {unat r..<unat r + unat sz} \<subseteq> avail m \<and> unat r + unat sz < 2 ^ 32 \<and>
        avail m' = avail m - {unat r..<unat r + unat sz}"
    and release: "wf m \<Longrightarrow> 0 < room m \<Longrightarrow> 0 < unat n \<Longrightarrow> unat a + unat n < 2 ^ 32 \<Longrightarrow>
      avail m \<inter> {unat a..<unat a + unat n} = {} \<Longrightarrow>
      \<exists>m'. release m a n = Some m' \<and> wf m' \<and> avail m' = avail m \<union> {unat a..<unat a + unat n}"
begin

lemma alloc_release:
  assumes "wf m" and "1 < room m" and "can m sz k" and "0 < unat sz"
  shows "\<exists>r m1 m2. alloc m sz k = Some (r, m1) \<and> {unat r..<unat r + unat sz} \<subseteq> avail m \<and>
    avail m1 = avail m - {unat r..<unat r + unat sz} \<and>
    release m1 r sz = Some m2 \<and> wf m2 \<and> avail m2 = avail m"
proof -
  from alloc [OF assms(1) _ assms(3)] assms(2) obtain r m1 where
    a: "alloc m sz k = Some (r, m1)" "wf m1" "room m \<le> Suc (room m1)"
    "{unat r..<unat r + unat sz} \<subseteq> avail m" "unat r + unat sz < 2 ^ 32"
    "avail m1 = avail m - {unat r..<unat r + unat sz}" by auto
  have "avail m1 \<inter> {unat r..<unat r + unat sz} = {}" using a(6) by auto
  moreover have "0 < room m1" using a(3) assms(2) by simp
  ultimately obtain m2 where
    "release m1 r sz = Some m2" "wf m2" "avail m2 = avail m1 \<union> {unat r..<unat r + unat sz}"
    using release [OF a(2) _ assms(4) a(5)] by auto
  with a show ?thesis by auto
qed

lemma alloc_twice:
  assumes "wf m" and "0 < room m" and "can m sz k" and "alloc m sz k = Some (r, m1)"
    and "0 < room m1" and "can m1 sz' k'" and "alloc m1 sz' k' = Some (r', m2)"
  shows "{unat r..<unat r + unat sz} \<inter> {unat r'..<unat r' + unat sz'} = {}"
  using alloc [OF assms(1-3)] alloc [OF _ assms(5,6)] assms(4,7) by fastforce

end

interpretation phys: byte_manager wf_blocks "\<lambda>m. MAX_NUM_MEMORY_BLOCKS - length m" free_bytes
  "\<lambda>m sz k. physical_memory_allocate m sz (2 ^ k)" physical_memory_free
  "\<lambda>m sz k. k < 32 \<and> unat sz + 2 ^ k \<le> 2 ^ 32 \<and> (\<exists>b \<in> set m. fits (2 ^ k) (unat sz) b)"
proof
  fix m :: block_list and sz :: u32 and k
  assume "wf_blocks m" "0 < MAX_NUM_MEMORY_BLOCKS - length m"
    "k < 32 \<and> unat sz + 2 ^ k \<le> 2 ^ 32 \<and> (\<exists>b \<in> set m. fits (2 ^ k) (unat sz) b)"
  with allocate_from_ok [of "[]" m k sz] show "\<exists>r m'. physical_memory_allocate m sz (2 ^ k) = Some (r, m') \<and>
      wf_blocks m' \<and> MAX_NUM_MEMORY_BLOCKS - length m \<le> Suc (MAX_NUM_MEMORY_BLOCKS - length m') \<and>
      {unat r..<unat r + unat sz} \<subseteq> free_bytes m \<and> unat r + unat sz < 2 ^ 32 \<and>
      free_bytes m' = free_bytes m - {unat r..<unat r + unat sz}"
    by (auto simp: allocated_def physical_memory_allocate_def)
next
  fix m :: block_list and n a :: u32
  assume "wf_blocks m" "0 < MAX_NUM_MEMORY_BLOCKS - length m" "0 < unat n" "unat a + unat n < 2 ^ 32"
    "free_bytes m \<inter> {unat a..<unat a + unat n} = {}"
  with free_from_ok [of "[]" m n a] show "\<exists>m'. physical_memory_free m a n = Some m' \<and> wf_blocks m' \<and>
      free_bytes m' = free_bytes m \<union> {unat a..<unat a + unat n}"
    by (auto simp: physical_memory_free_def)
qed

lemma reserve_ok:
  assumes "wf_blocks m" and "length m < MAX_NUM_MEMORY_BLOCKS" and "unat a + unat n < 2 ^ 32"
  shows "\<exists>m'. physical_memory_reserve m a n = Some m' \<and> wf_blocks m' \<and> length m' \<le> Suc (length m) \<and>
    free_bytes m' = free_bytes m - {unat a..<unat a + unat n}"
  using reserve_from_ok [of "[]" m a n] assms by (simp add: physical_memory_reserve_def)

section \<open>Properties of physical memory\<close>

text \<open>C8: allocation is exact: on a well-formed map with a slot to spare, a request succeeds just when some
  free block holds a range of that length at a multiple of the alignment; the range it returns is
  aligned, was free, and is all that stops being free. Otherwise the result is 0 and the map is unchanged.\<close>

theorem physical_allocate_exact:
  assumes "wf_blocks m" and "length m < MAX_NUM_MEMORY_BLOCKS" and "k < 32" and "unat sz + 2 ^ k \<le> 2 ^ 32"
  shows "if \<exists>b \<in> set m. fits (2 ^ k) (unat sz) b
    then \<exists>r m'. physical_memory_allocate m sz (2 ^ k) = Some (r, m') \<and> wf_blocks m' \<and> 2 ^ k dvd unat r \<and>
      {unat r..<unat r + unat sz} \<subseteq> free_bytes m \<and> free_bytes m' = free_bytes m - {unat r..<unat r + unat sz}
    else physical_memory_allocate m sz (2 ^ k) = Some (0, m)"
  using allocate_from_ok [of "[]" m k sz] assms
  by (auto simp: allocated_def physical_memory_allocate_def split: if_split_asm)

definition sample_map :: block_list where
  "sample_map = [\<lparr>mb_offset = 0x500, mb_length = 0x800\<rparr>, \<lparr>mb_offset = 0x100000, mb_length = 0x8000\<rparr>]"

lemma sample_map_wf: "wf_blocks sample_map"
  by (simp add: sample_map_def wf_blocks_def mb_lo_def mb_hi_def MAX_NUM_MEMORY_BLOCKS_def)

lemma sample_map_fits: "\<exists>b \<in> set sample_map. fits 4096 0x2000 b"
  unfolding fits_def sample_map_def
  by (intro bexI [of _ "\<lparr>mb_offset = 0x100000, mb_length = 0x8000\<rparr>"] exI [of _ "0x100000"])
    (simp_all add: mb_lo_def mb_hi_def)

lemma sample_map_small: "length sample_map < MAX_NUM_MEMORY_BLOCKS - 1" "length sample_map < MAX_NUM_MEMORY_BLOCKS"
  by (simp_all add: sample_map_def MAX_NUM_MEMORY_BLOCKS_def)

theorem physical_allocate_exact_witness:
  "\<exists>r m'. physical_memory_allocate sample_map 0x2000 4096 = Some (r, m') \<and> wf_blocks m' \<and> 4096 dvd unat r \<and>
    free_bytes m' = free_bytes sample_map - {unat r..<unat r + 0x2000}"
  using physical_allocate_exact [of sample_map 12 "0x2000"] sample_map_wf sample_map_fits sample_map_small
  by auto

text \<open>Memory that is allocated and freed again is free as before, byte for byte and in the count the
  system call reports; while it is allocated it is not free.\<close>

theorem physical_allocate_free:
  assumes "wf_blocks m" and "length m < MAX_NUM_MEMORY_BLOCKS - 1" and "k < 32"
    and "0 < unat sz" and "unat sz + 2 ^ k \<le> 2 ^ 32" and "\<exists>b \<in> set m. fits (2 ^ k) (unat sz) b"
  shows "\<exists>r m1 m2. physical_memory_allocate m sz (2 ^ k) = Some (r, m1) \<and>
    free_bytes m1 \<inter> {unat r..<unat r + unat sz} = {} \<and>
    physical_memory_free m1 r sz = Some m2 \<and> free_bytes m2 = free_bytes m \<and>
    physical_num_bytes_free m2 = physical_num_bytes_free m"
proof -
  have room: "1 < MAX_NUM_MEMORY_BLOCKS - length m" using assms(2) by linarith
  have "k < 32 \<and> unat sz + 2 ^ k \<le> 2 ^ 32 \<and> (\<exists>b \<in> set m. fits (2 ^ k) (unat sz) b)" using assms by blast
  from phys.alloc_release [OF assms(1) room this assms(4)] obtain r m1 m2 where
    "physical_memory_allocate m sz (2 ^ k) = Some (r, m1)"
    and taken: "free_bytes m1 = free_bytes m - {unat r..<unat r + unat sz}"
    and "physical_memory_free m1 r sz = Some m2" "wf_blocks m2" "free_bytes m2 = free_bytes m"
    by blast
  moreover from this have "physical_num_bytes_free m2 = physical_num_bytes_free m"
    using num_bytes_free [of m2] num_bytes_free [OF assms(1)] by (simp add: word_unat_eq_iff)
  moreover from taken have "free_bytes m1 \<inter> {unat r..<unat r + unat sz} = {}" by auto
  ultimately show ?thesis by blast
qed

theorem physical_allocate_free_witness:
  "\<exists>r m1 m2. physical_memory_allocate sample_map 0x2000 4096 = Some (r, m1) \<and>
    physical_memory_free m1 r 0x2000 = Some m2 \<and> free_bytes m2 = free_bytes sample_map"
  using physical_allocate_free [of sample_map 12 "0x2000"] sample_map_wf sample_map_fits sample_map_small
  by auto

text \<open>After \<open>physical_memory_init\<close> nothing of the first 1280 bytes, the low area at 7000h, the kernel
  and the ramdisk is free, and everything else that was free still is.\<close>

theorem physical_init_reserves:
  assumes "wf_blocks m" and "length m + 4 \<le> MAX_NUM_MEMORY_BLOCKS"
    and "unat (kernel_location info) + unat (kernel_size info) < 2 ^ 32"
    and "unat (ramdisk_location info) + unat (ramdisk_size info) < 2 ^ 32"
  shows "\<exists>m'. physical_memory_init info m = Some m' \<and> wf_blocks m' \<and>
    free_bytes m' = free_bytes m - ({0..<0x500} \<union> {0x7000..<0x7200} \<union>
      {unat (kernel_location info)..<unat (kernel_location info) + unat (kernel_size info)} \<union>
      {unat (ramdisk_location info)..<unat (ramdisk_location info) + unat (ramdisk_size info)})"
proof -
  from reserve_ok [of m 0 "0x500"] assms obtain m1 where
    m1: "physical_memory_reserve m 0 0x500 = Some m1" "wf_blocks m1" "length m1 \<le> Suc (length m)"
      "free_bytes m1 = free_bytes m - {0..<0x500}" by auto
  from reserve_ok [of m1 "0x7000" "0x200"] m1 assms obtain m2 where
    m2: "physical_memory_reserve m1 0x7000 0x200 = Some m2" "wf_blocks m2" "length m2 \<le> Suc (length m1)"
      "free_bytes m2 = free_bytes m1 - {0x7000..<0x7200}" by auto
  from reserve_ok [of m2 "kernel_location info" "kernel_size info"] m1(3) m2 assms obtain m3 where
    m3: "physical_memory_reserve m2 (kernel_location info) (kernel_size info) = Some m3" "wf_blocks m3"
      "length m3 \<le> Suc (length m2)"
      "free_bytes m3 = free_bytes m2 -
        {unat (kernel_location info)..<unat (kernel_location info) + unat (kernel_size info)}" by auto
  from reserve_ok [of m3 "ramdisk_location info" "ramdisk_size info"] m1(3) m2(3) m3 assms obtain m4 where
    "physical_memory_reserve m3 (ramdisk_location info) (ramdisk_size info) = Some m4" "wf_blocks m4"
      "free_bytes m4 = free_bytes m3 -
        {unat (ramdisk_location info)..<unat (ramdisk_location info) + unat (ramdisk_size info)}" by auto
  with m1 m2 m3 show ?thesis by (auto simp: physical_memory_init_def)
qed

theorem physical_init_reserves_witness:
  "\<exists>m'. physical_memory_init \<lparr>kernel_location = 0x100000, kernel_size = 0x3000, ramdisk_location = 0x200000,
      ramdisk_size = 0, memmap_location = 0, memmap_size = 0, high_memory = 0, low_memory = 0\<rparr> sample_map = Some m' \<and> 0x102FFF \<notin> free_bytes m' \<and> 0x103000 \<in> free_bytes m'"
proof -
  have "0x103000 \<in> free_bytes sample_map"
    by (simp add: sample_map_def mb_bytes_def mb_lo_def mb_hi_def)
  then show ?thesis
    using physical_init_reserves [of sample_map "\<lparr>kernel_location = 0x100000, kernel_size = 0x3000,
        ramdisk_location = 0x200000, ramdisk_size = 0, memmap_location = 0, memmap_size = 0, high_memory = 0,
        low_memory = 0\<rparr>"] sample_map_wf
    by (auto simp: sample_map_def MAX_NUM_MEMORY_BLOCKS_def)
qed

end
