(* ===== verification/PagingCorrect.thy ===== *)
theory PagingCorrect
  imports Paging PhysMemCorrect
begin

text \<open>
  Correctness of the virtual memory manager: what mapping a page does to the translations of the
  processor, that a page fault gives a zeroed page, and two ways in which the code goes wrong.
  The invariant \<open>paged\<close> says that the directory maps itself and that no two entries share a table.
\<close>

section \<open>The directory and the tables\<close>

definition dir_word :: "mm_state \<Rightarrow> u32 \<Rightarrow> u32" where
  "dir_word s i = phys_word s (page_dir_base s + 4 * i)"

abbreviation frame_of :: "u32 \<Rightarrow> u32" where
  "frame_of e \<equiv> e AND PAGE_ADDRESS_MASK"

text \<open>
  The directory is aligned and maps itself, and no two of its present entries share a table.
\<close>

definition paged :: "mm_state \<Rightarrow> bool" where
  "paged s \<longleftrightarrow>
     frame_of (page_dir_base s) = page_dir_base s \<and>
     dir_word s 1023 AND PAGE_PRESENT \<noteq> 0 \<and> frame_of (dir_word s 1023) = page_dir_base s \<and>
     (\<forall>i < 1024. \<forall>j < 1024. dir_word s i AND PAGE_PRESENT \<noteq> 0 \<longrightarrow> dir_word s j AND PAGE_PRESENT \<noteq> 0 \<longrightarrow>
        frame_of (dir_word s i) = frame_of (dir_word s j) \<longrightarrow> i = j)"

lemma masks_as_exp: "PAGE_FLAGS_MASK = 2 ^ 12 - 1" "PT_INDEX_MASK = 2 ^ 10 - 1"
  "PAGE_ADDRESS_MASK = NOT (2 ^ 12 - 1)"
  by (simp_all add: PAGE_ADDRESS_MASK_def PAGE_FLAGS_MASK_def PT_INDEX_MASK_def PAGE_SIZE_def PAGE_TABLE_SIZE_def)

lemma unat_index:
  fixes i t :: u32
  assumes "i < 1024" and "t < 1024"
  shows "unat (page_table_address i + 4 * t) = 4290772992 + 4096 * unat i + 4 * unat t"
proof -
  have i: "unat i < 1024" "unat t < 1024" using assms by (simp_all add: word_less_nat_alt)
  have "page_table_address i + 4 * t = of_nat (4290772992 + 4096 * unat i + 4 * unat t)"
    by (simp add: page_table_address_def last_pde_address_def PAGE_TABLE_SIZE_def PAGE_SIZE_def)
  moreover have "4290772992 + 4096 * unat i + 4 * unat t < 4294967296" using i by linarith
  ultimately show ?thesis by (simp only: unat_of_nat) (simp add: take_bit_nat_eq_self)
qed

lemma split_table_address:
  fixes i t :: u32
  assumes "i < 1024" and "t < 1024"
  shows "get_page_dir_index (page_table_address i + 4 * t) = 1023"
    and "get_page_tbl_index (page_table_address i + 4 * t) = i"
    and "(page_table_address i + 4 * t) AND PAGE_FLAGS_MASK = 4 * t"
proof -
  let ?a = "page_table_address i + 4 * t"
  have i: "unat i < 1024" "unat t < 1024" using assms by (simp_all add: word_less_nat_alt)
  note ua = unat_index [OF assms]
  have "unat (drop_bit 22 ?a) = 1023"
    unfolding unat_shift_right ua by (rule div_nat_eqI) (use i in simp_all)
  then show "get_page_dir_index ?a = 1023"
    by (simp add: get_page_dir_index_def word_unat_eq_iff)
  have d: "(4290772992 + 4096 * unat i + 4 * unat t) div 2 ^ 12 = 1047552 + unat i"
    by (rule div_nat_eqI) (use i in simp_all)
  have "unat (get_page_tbl_index ?a) = unat i"
    unfolding get_page_tbl_index_def masks_as_exp unat_bit_mask unat_shift_right ua d
    using i by (simp add: mod_add_left_eq [symmetric])
  then show "get_page_tbl_index ?a = i" by (simp add: word_unat_eq_iff)
  have "unat (4 * t) = 4 * unat t" using i by (simp add: unat_word_ariths)
  moreover have "(4290772992 + 4096 * unat i + 4 * unat t) mod 2 ^ 12 = 4 * unat t"
  proof -
    have "4290772992 + 4096 * unat i + 4 * unat t = 4 * unat t + (1047552 + unat i) * 2 ^ 12" by simp
    then show ?thesis using i by (simp only: mod_mult_self1) simp
  qed
  ultimately have "unat (?a AND PAGE_FLAGS_MASK) = unat (4 * t)"
    unfolding masks_as_exp unat_bit_mask ua by simp
  then show "?a AND PAGE_FLAGS_MASK = 4 * t" by (simp add: word_unat_eq_iff)
qed

lemma dir_address_table: "dir_entry_address i = page_table_address 1023 + 4 * i"
  by (simp add: dir_entry_address_def current_page_directory_def page_table_address_def last_pde_address_def
      PAGE_TABLE_SIZE_def PAGE_SIZE_def MAXIMUM_ADDRESS_def PAGE_ADDRESS_MASK_def PAGE_FLAGS_MASK_def)

lemma index_bounds: "get_page_dir_index v < 1024" "get_page_tbl_index v < 1024"
proof -
  have "unat (drop_bit 22 v) < 1024"
    unfolding unat_shift_right using unat_u32_bound [of v] by (simp add: less_mult_imp_div_less)
  then show "get_page_dir_index v < 1024" by (simp add: get_page_dir_index_def word_less_nat_alt)
  have "unat (get_page_tbl_index v) < 1024"
    unfolding get_page_tbl_index_def masks_as_exp unat_bit_mask by simp
  then show "get_page_tbl_index v < 1024" by (simp add: word_less_nat_alt)
qed

lemma page_walk_table:
  assumes "paged s" and "i < 1024" and "t < 1024"
  shows "page_walk s (page_table_address i + 4 * t) =
    (if dir_word s i AND PAGE_PRESENT = 0 then None else Some (frame_of (dir_word s i) + 4 * t))"
  using assms split_table_address [OF assms(2,3)]
  by (simp add: page_walk_def paged_def dir_word_def Let_def)

lemma read_dir: "paged s \<Longrightarrow> i < 1024 \<Longrightarrow> read_virt s (dir_entry_address i) = Some (dir_word s i)"
  unfolding read_virt_def dir_address_table
  by (subst page_walk_table) (simp_all add: paged_def dir_word_def)


lemma frame_of_twice [simp]: "frame_of (frame_of f) = frame_of f"
  by (rule bit_word_eqI) (simp add: bit_simps)

lemma unat_frame_add:
  assumes "frame_of f = f" and "t < 1024"
  shows "unat (f + 4 * t) = unat f + 4 * unat t" and "unat f mod 4096 = 0"
proof -
  have t: "unat t < 1024" using assms(2) by (simp add: word_less_nat_alt)
  then have u4: "unat (4 * t) = 4 * unat t" by (simp add: unat_word_ariths)
  have "unat f - unat f mod 2 ^ 12 = unat f"
    using unat_align_down [of f 12] assms(1) by (simp add: masks_as_exp)
  then show m: "unat f mod 4096 = 0" using mod_less_eq_dividend [of "unat f" 4096] by simp
  then obtain q where q: "unat f = 4096 * q" by auto
  have "unat f < 4294967296" using unat_u32_bound [of f] by simp
  with q have "q \<le> 1048575" by simp
  then have "unat f + 4 * unat t < 4294967296" using q t by linarith
  then show "unat (f + 4 * t) = unat f + 4 * unat t"
    by (subst u32_add) (simp_all add: u4)
qed

lemma frame_of_add [simp]:
  assumes "frame_of f = f" and "t < 1024"
  shows "frame_of (f + 4 * t) = f"
proof -
  have t: "unat t < 1024" using assms(2) by (simp add: word_less_nat_alt)
  have "unat (frame_of (f + 4 * t)) = unat f + 4 * unat t - (unat f + 4 * unat t) mod 4096"
    unfolding masks_as_exp unat_align_down unat_frame_add(1) [OF assms] by simp
  also have "(unat f + 4 * unat t) mod 4096 = 4 * unat t"
    using unat_frame_add(2) [OF assms] t by (simp add: mod_add_eq [symmetric] mod_add_left_eq [symmetric])
  finally show ?thesis by (simp add: word_unat_eq_iff)
qed

lemma same_word_index:
  assumes "frame_of f = f" and "t < 1024" and "t' < 1024" and "f + 4 * t = f + 4 * t'"
  shows "t = t'"
  using arg_cong [OF assms(4), of unat] unat_frame_add(1) [OF assms(1,2)] unat_frame_add(1) [OF assms(1,3)]
  by (simp add: word_unat_eq_iff)

definition entry_place :: "mm_state \<Rightarrow> u32 \<Rightarrow> u32" where
  "entry_place s v = frame_of (dir_word s (get_page_dir_index v)) + 4 * get_page_tbl_index v"

lemma read_entry:
  assumes "paged s" and "dir_word s (get_page_dir_index v) AND PAGE_PRESENT \<noteq> 0"
  shows "read_virt s (pt_entry_address v (get_page_dir_index v)) = Some (phys_word s (entry_place s v))"
  unfolding read_virt_def pt_entry_address_def entry_place_def
  by (subst page_walk_table) (use assms index_bounds [of v] in simp_all)

lemma write_entry:
  assumes "paged s" and "dir_word s (get_page_dir_index v) AND PAGE_PRESENT \<noteq> 0"
  shows "write_virt s (pt_entry_address v (get_page_dir_index v)) x =
    Some (s\<lparr>phys_word := (phys_word s)(entry_place s v := x)\<rparr>)"
  unfolding write_virt_def pt_entry_address_def entry_place_def
  by (subst page_walk_table) (use assms index_bounds [of v] in simp_all)

lemma page_walk_entry:
  assumes "paged s" and "dir_word s (get_page_dir_index v) AND PAGE_PRESENT \<noteq> 0"
  shows "page_walk s v = (let e = phys_word s (entry_place s v) in
    if e AND PAGE_PRESENT = 0 then None else Some (frame_of e + (v AND PAGE_FLAGS_MASK)))"
  using assms by (simp add: page_walk_def Let_def entry_place_def dir_word_def paged_def)

lemma entry_place_cong:
  "dir_word s' (get_page_dir_index v) = dir_word s (get_page_dir_index v) \<Longrightarrow> entry_place s' v = entry_place s v"
  by (simp add: entry_place_def)

text \<open>Writing a word outside the directory leaves the directory.\<close>

lemma paged_write:
  assumes "paged s" and "frame_of a \<noteq> page_dir_base s"
  shows "dir_word (s\<lparr>phys_word := (phys_word s)(a := x)\<rparr>) i = (if i < 1024 then dir_word s i else
      dir_word (s\<lparr>phys_word := (phys_word s)(a := x)\<rparr>) i)"
    and "paged (s\<lparr>phys_word := (phys_word s)(a := x)\<rparr>)"
proof -
  let ?s = "s\<lparr>phys_word := (phys_word s)(a := x)\<rparr>"
  have same: "dir_word ?s i = dir_word s i" if "i < 1024" for i
  proof -
    have "frame_of (page_dir_base s + 4 * i) = page_dir_base s"
      using assms(1) that by (simp add: paged_def)
    then have "page_dir_base s + 4 * i \<noteq> a" using assms(2) by auto
    then show ?thesis by (simp add: dir_word_def)
  qed
  then show "dir_word ?s i = (if i < 1024 then dir_word s i else dir_word ?s i)" by simp
  have "dir_word ?s 1023 = dir_word s 1023" by (rule same) simp
  with same assms(1) show "paged ?s" by (simp add: paged_def)
qed

lemma dir_word_write:
  "paged s \<Longrightarrow> frame_of a \<noteq> page_dir_base s \<Longrightarrow> i < 1024 \<Longrightarrow>
    dir_word (s\<lparr>phys_word := (phys_word s)(a := x)\<rparr>) i = dir_word s i"
  using paged_write(1) by presburger

lemma entry_frame:
  assumes "paged s" and "dir_word s (get_page_dir_index v) AND PAGE_PRESENT \<noteq> 0"
    and "get_page_dir_index v \<noteq> 1023"
  shows "frame_of (entry_place s v) = frame_of (dir_word s (get_page_dir_index v))"
    and "frame_of (entry_place s v) \<noteq> page_dir_base s"
proof -
  show f: "frame_of (entry_place s v) = frame_of (dir_word s (get_page_dir_index v))"
    using index_bounds [of v] by (simp add: entry_place_def)
  have "(1023 :: u32) < 1024" by simp
  with assms index_bounds [of v] show "frame_of (entry_place s v) \<noteq> page_dir_base s"
    unfolding f paged_def by metis
qed

lemma entry_place_write:
  assumes "paged s" and "frame_of a \<noteq> page_dir_base s"
  shows "entry_place (s\<lparr>phys_word := (phys_word s)(a := x)\<rparr>) v = entry_place s v"
  by (simp add: entry_place_def dir_word_write [OF assms index_bounds(1)])


lemma same_page:
  assumes "get_page_dir_index w = get_page_dir_index v" and "get_page_tbl_index w = get_page_tbl_index v"
  shows "frame_of w = frame_of v"
proof -
  have split: "frame_of x = push_bit 22 (get_page_dir_index x) OR push_bit 12 (get_page_tbl_index x)" for x
  proof (rule bit_word_eqI)
    fix n
    show "bit (frame_of x) n \<longleftrightarrow>
        bit (push_bit 22 (get_page_dir_index x) OR push_bit 12 (get_page_tbl_index x)) n" if "n < LENGTH(32)"
      using that unfolding get_page_dir_index_def get_page_tbl_index_def masks_as_exp mask_eq_exp_minus_1 [symmetric]
      by (cases "n < 22") (auto simp: bit_simps)
  qed
  from assms show ?thesis unfolding split by simp
qed

lemma entry_place_apart:
  assumes "paged s" and "dir_word s (get_page_dir_index v) AND PAGE_PRESENT \<noteq> 0"
    and "dir_word s (get_page_dir_index w) AND PAGE_PRESENT \<noteq> 0" and "frame_of w \<noteq> frame_of v"
  shows "entry_place s w \<noteq> entry_place s v"
proof
  assume eq: "entry_place s w = entry_place s v"
  then have "frame_of (entry_place s w) = frame_of (entry_place s v)" by simp
  then have "frame_of (dir_word s (get_page_dir_index w)) = frame_of (dir_word s (get_page_dir_index v))"
    using index_bounds [of v] index_bounds [of w] by (simp add: entry_place_def)
  with assms(1-3) index_bounds have dir: "get_page_dir_index w = get_page_dir_index v"
    by (auto simp: paged_def)
  with eq have "get_page_tbl_index w = get_page_tbl_index v"
    using same_word_index [OF frame_of_twice index_bounds(2) index_bounds(2)] unfolding entry_place_def by metis
  with dir assms(4) same_page show False by blast
qed

lemma map_page_present:
  assumes "paged s" and "dir_word s (get_page_dir_index v) AND PAGE_PRESENT \<noteq> 0"
  shows "memmanager_map_page s v p flags =
    (if flags AND PAGE_USER \<noteq> 0 \<and> dir_word s (get_page_dir_index v) AND PAGE_USER = 0 \<or>
        phys_word s (entry_place s v) AND PAGE_ALLOCATED \<noteq> 0
     then Some (False, s)
     else Some (True, s\<lparr>phys_word := (phys_word s)(entry_place s v := frame_of p OR flags)\<rparr>))"
  using assms index_bounds [of v] by (simp add: memmanager_map_page_def Let_def read_dir read_entry write_entry)

lemma flag_bits:
  assumes "flags AND PAGE_ADDRESS_MASK = 0"
  shows "frame_of (frame_of p OR flags) = frame_of p"
    and "(frame_of p OR flags) AND PAGE_PRESENT = flags AND PAGE_PRESENT"
proof -
  have "frame_of (frame_of p OR flags) = frame_of p OR flags AND PAGE_ADDRESS_MASK"
    by (rule bit_word_eqI) (auto simp: bit_simps)
  then show "frame_of (frame_of p OR flags) = frame_of p" using assms by simp
  have "frame_of p AND PAGE_PRESENT = 0"
    by (rule bit_word_eqI) (auto simp: bit_simps masks_as_exp PAGE_PRESENT_def bit_1_iff
        simp flip: mask_eq_exp_minus_1)
  then have "(frame_of p OR flags) AND PAGE_PRESENT = 0 OR flags AND PAGE_PRESENT"
    by (simp add: bit.conj_disj_distrib2)
  then show "(frame_of p OR flags) AND PAGE_PRESENT = flags AND PAGE_PRESENT" by simp
qed

lemma present_allocated: "e AND PAGE_PRESENT \<noteq> 0 \<Longrightarrow> e AND PAGE_ALLOCATED \<noteq> 0"
proof
  assume "e AND PAGE_ALLOCATED = 0"
  then have "(e AND PAGE_ALLOCATED) AND PAGE_PRESENT = 0" by simp
  moreover have "(e AND PAGE_ALLOCATED) AND PAGE_PRESENT = e AND PAGE_PRESENT"
    by (rule bit_word_eqI) (auto simp: bit_simps PAGE_ALLOCATED_def)
  moreover assume "e AND PAGE_PRESENT \<noteq> 0"
  ultimately show False by simp
qed

lemma alloc_present_step:
  "alloc_present s v pf (Suc n) = Some t \<Longrightarrow>
    \<exists>p s1 s2. memmanager_allocate_physical_page s = Some (p, s1) \<and>
      memmanager_map_page s1 v p pf = Some (True, s2) \<and> alloc_present s2 v pf n = Some t"
  by (auto simp: bind_eq_Some_conv split: if_splits)

section \<open>An example address space\<close>

text \<open>
  A directory at 1000h with one table at 2000h, whose entry for the page 10000h is \<open>e\<close>; the
  physical memory from 100000h on is free.
\<close>

definition sample_mm :: "u32 \<Rightarrow> mm_state" where
  "sample_mm e = \<lparr>phys_word = (\<lambda>_. 0)(0x1000 := 0x2003, 0x1FFC := 0x1003, 0x2040 := e),
     page_dir_base = 0x1000, memory_map = sample_map, kernel_page_directory = 0x1000\<rparr>"

lemma sample_dir:
  assumes "i < 1024"
  shows "dir_word (sample_mm e) i = (if i = 0 then 0x2003 else if i = 1023 then 0x1003 else 0)"
proof -
  have f: "frame_of 0x1000 = 0x1000" by (simp add: masks_as_exp)
  have "0x1000 + 4 * i = 0x1000 \<longleftrightarrow> i = 0" using same_word_index [OF f assms, of 0] by auto
  moreover have "0x1000 + 4 * i = 0x1FFC \<longleftrightarrow> i = 1023" using same_word_index [OF f assms, of 1023] by auto
  moreover have "0x1000 + 4 * i \<noteq> 0x2040"
  proof
    assume "0x1000 + 4 * i = 0x2040"
    then have "frame_of (0x1000 + 4 * i) = frame_of 0x2040" by simp
    then show False using frame_of_add [OF f assms] by (simp add: masks_as_exp)
  qed
  ultimately show ?thesis by (simp add: dir_word_def sample_mm_def)
qed

lemma sample_paged: "paged (sample_mm e)"
proof -
  have "page_dir_base (sample_mm e) = 0x1000" by (simp add: sample_mm_def)
  then show ?thesis
    unfolding paged_def by (auto simp: sample_dir masks_as_exp PAGE_PRESENT_def split: if_splits)
qed

lemma sample_index:
  "get_page_dir_index 0x10000 = 0" "get_page_tbl_index 0x10000 = 16" "0x10000 AND PAGE_FLAGS_MASK = 0"
  by (simp_all add: get_page_dir_index_def get_page_tbl_index_def masks_as_exp)

lemma sample_present: "dir_word (sample_mm e) (get_page_dir_index 0x10000) AND PAGE_PRESENT \<noteq> 0"
  unfolding sample_index by (subst sample_dir) (simp_all add: PAGE_PRESENT_def)

lemma sample_entry: "entry_place (sample_mm e) 0x10000 = 0x2040" "phys_word (sample_mm e) 0x2040 = e"
  unfolding entry_place_def sample_index
  by (subst sample_dir) (simp_all add: masks_as_exp sample_mm_def)

section \<open>Properties of the memory manager\<close>



text \<open>Asking for two or more present pages at an address fails. The loop of \<open>memmanager_virtual_alloc\<close>
  does not move on to the next page, so its second round maps the page of the first again, which is
  refused, and the assertion that follows stops the kernel.\<close>

theorem virtual_alloc_present_stuck:
  assumes "paged s" and "dir_word s (get_page_dir_index v) AND PAGE_PRESENT \<noteq> 0"
    and "get_page_dir_index v \<noteq> 1023" and "v \<noteq> 0" and "v AND PAGE_FLAGS_MASK = 0"
    and "flags AND PAGE_PRESENT \<noteq> 0" and "1 < unat n"
  shows "memmanager_virtual_alloc s v n flags = None"
proof -
  define k where "k = unat n - 2"
  have n: "unat n = Suc (Suc k)" using assms(7) by (simp add: k_def)
  define fl where "fl = flags AND (PAGE_FLAGS_MASK AND NOT (PAGE_RESERVED OR PAGE_MAP_ON_ACCESS))"
  have "(PAGE_FLAGS_MASK AND NOT (PAGE_RESERVED OR PAGE_MAP_ON_ACCESS)) AND PAGE_PRESENT = PAGE_PRESENT"
    by (simp add: PAGE_PRESENT_def PAGE_FLAGS_MASK_def PAGE_SIZE_def PAGE_RESERVED_def PAGE_MAP_ON_ACCESS_def)
  then have fl: "fl AND PAGE_PRESENT = flags AND PAGE_PRESENT"
    unfolding fl_def by (simp only: and.assoc)
  let ?pf = "fl OR PAGE_PRESENT"
  have stuck: "alloc_present s v ?pf (Suc (Suc k)) = None"
  proof (rule ccontr)
    assume "alloc_present s v ?pf (Suc (Suc k)) \<noteq> None"
    then obtain t where "alloc_present s v ?pf (Suc (Suc k)) = Some t" by blast
    from alloc_present_step [OF this] obtain p s1 s2 where
      s1: "memmanager_allocate_physical_page s = Some (p, s1)"
      and m1: "memmanager_map_page s1 v p ?pf = Some (True, s2)"
      and rest: "alloc_present s2 v ?pf (Suc k) = Some t" by blast
    from s1 obtain mm where s1: "s1 = s\<lparr>memory_map := mm\<rparr>"
      by (auto simp: memmanager_allocate_physical_page_def)
    have p1: "paged s1" "dir_word s1 (get_page_dir_index v) AND PAGE_PRESENT \<noteq> 0"
      using assms(1,2) by (simp_all add: s1 paged_def dir_word_def)
    let ?e = "frame_of p OR ?pf"
    have s2: "s2 = s1\<lparr>phys_word := (phys_word s1)(entry_place s1 v := ?e)\<rparr>"
      using m1 by (simp add: map_page_present [OF p1] split: if_splits)
    from alloc_present_step [OF rest] obtain p' s3 s4 where
      s3: "memmanager_allocate_physical_page s2 = Some (p', s3)"
      and m2: "memmanager_map_page s3 v p' ?pf = Some (True, s4)" by blast
    from s3 obtain mm' where s3: "s3 = s2\<lparr>memory_map := mm'\<rparr>"
      by (auto simp: memmanager_allocate_physical_page_def)
    note out = entry_frame(2) [OF p1 assms(3)]
    have p3: "paged s3" and d3: "dir_word s3 (get_page_dir_index v) AND PAGE_PRESENT \<noteq> 0"
      and e3: "phys_word s3 (entry_place s3 v) = ?e"
      using paged_write(2) [OF p1(1) out, of ?e] dir_word_write [OF p1(1) out index_bounds(1), of ?e v]
        entry_place_write [OF p1(1) out, of ?e v] p1(2)
      by (simp_all add: s3 s2 paged_def dir_word_def entry_place_def)
    have "?e AND PAGE_PRESENT \<noteq> 0"
    proof -
      have "(?e AND PAGE_PRESENT) = PAGE_PRESENT" by (rule bit_word_eqI) (auto simp: bit_simps)
      then show ?thesis by (simp add: PAGE_PRESENT_def)
    qed
    then have "phys_word s3 (entry_place s3 v) AND PAGE_ALLOCATED \<noteq> 0"
      unfolding e3 by (rule present_allocated)
    with m2 show False by (simp add: map_page_present [OF p3 d3])
  qed
  show ?thesis
    unfolding memmanager_virtual_alloc_def fl_def [symmetric] Let_def n
    using assms(4-6) stuck fl by (simp del: alloc_present.simps alloc_reserved.simps)
qed

theorem virtual_alloc_present_stuck_witness:
  "memmanager_virtual_alloc (sample_mm 0) 0x10000 2 3 = None"
  using virtual_alloc_present_stuck [OF sample_paged sample_present, where n = 2 and flags = 3]
  by (simp add: sample_index PAGE_PRESENT_def)

text \<open>A program can free memory of the kernel. \<open>syscall_free_pages\<close> only leaves the table entry of a page
  alone that is not a user page; it still hands the physical page to the list of free memory and reports
  success: the kernel goes on using a page that the next allocation gives away.\<close>

theorem free_kernel_page:
  assumes "paged s" and "dir_word s (get_page_dir_index v) AND PAGE_PRESENT \<noteq> 0" and "v \<noteq> 0"
    and "e = phys_word s (entry_place s v)" and "e AND PAGE_PRESENT \<noteq> 0" and "e AND PAGE_USER = 0"
    and "physical_memory_free (memory_map s) (frame_of e) PAGE_SIZE = Some m"
  shows "syscall_free_pages s v 1 = Some (0, s\<lparr>memory_map := m\<rparr>) \<and>
    page_walk (s\<lparr>memory_map := m\<rparr>) v = Some (frame_of e + (v AND PAGE_FLAGS_MASK))"
proof -
  have get: "memmanager_get_pt_entry s v = Some e"
    using assms(1,2,4) index_bounds [of v] by (simp add: memmanager_get_pt_entry_def read_dir read_entry)
  have unmap: "memmanager_unmap_page_with_flags s v PAGE_USER = Some s"
    using assms(1,2,4,6) index_bounds [of v]
    by (simp add: memmanager_unmap_page_with_flags_def Let_def read_dir read_entry)
  have "syscall_free_pages s v 1 = Some (0, s\<lparr>memory_map := m\<rparr>)"
    using assms(3,5,7) present_allocated [OF assms(5)]
    by (simp add: syscall_free_pages_def get unmap)
  moreover have "page_walk (s\<lparr>memory_map := m\<rparr>) v = page_walk s v" by (simp add: page_walk_def Let_def)
  ultimately show ?thesis
    using page_walk_entry [OF assms(1,2)] assms(4,5) by (simp add: Let_def)
qed

theorem free_kernel_page_witness:
  "\<exists>m. syscall_free_pages (sample_mm 0x200003) 0x10000 1 = Some (0, (sample_mm 0x200003)\<lparr>memory_map := m\<rparr>) \<and>
    page_walk ((sample_mm 0x200003)\<lparr>memory_map := m\<rparr>) 0x10000 = Some 0x200000"
proof -
  have fr: "frame_of (0x200003 :: u32) = 0x200000" by (simp add: masks_as_exp)
  obtain m where m: "physical_memory_free sample_map 0x200000 PAGE_SIZE = Some m"
    by (simp add: physical_memory_free_def sample_map_def free_from.simps PAGE_SIZE_def emplace_back_def
        MAX_NUM_MEMORY_BLOCKS_def)
  have "memory_map (sample_mm 0x200003) = sample_map" by (simp add: sample_mm_def)
  with m show ?thesis
    using free_kernel_page [OF sample_paged sample_present, of "0x200003" "0x200003" m]
    by (simp add: sample_entry fr sample_index PAGE_PRESENT_def PAGE_USER_def) blast
qed


section \<open>Demand paging\<close>

lemma page_offset:
  assumes "v AND PAGE_FLAGS_MASK = 0" and "t < 1024"
  shows "get_page_dir_index (v + 4 * t) = get_page_dir_index v"
    and "get_page_tbl_index (v + 4 * t) = get_page_tbl_index v"
    and "(v + 4 * t) AND PAGE_FLAGS_MASK = 4 * t"
proof -
  have t: "unat t < 1024" using assms(2) by (simp add: word_less_nat_alt)
  then have u4: "unat (4 * t) = 4 * unat t" by (simp add: unat_word_ariths)
  have "unat v mod 4096 = 0"
    using unat_bit_mask [of v 12] assms(1) by (simp add: masks_as_exp)
  moreover have "frame_of v = v"
  proof -
    have "frame_of v = v - (v AND (2 ^ 12 - 1))" unfolding masks_as_exp by (rule and_not_mask_eq)
    then show ?thesis using assms(1) by (simp add: masks_as_exp)
  qed
  ultimately have un: "unat (v + 4 * t) = unat v + 4 * unat t" and m: "unat v mod 4096 = 0"
    using unat_frame_add [OF _ assms(2)] by simp_all
  from m obtain q where q: "unat v = 4096 * q" by auto
  have d12: "(unat v + 4 * unat t) div 4096 = q" unfolding q by (rule div_nat_eqI) (use t in simp_all)
  have d22: "(unat v + 4 * unat t) div 4194304 = q div 1024"
  proof -
    have "(unat v + 4 * unat t) div 4194304 = (unat v + 4 * unat t) div 4096 div 1024"
      by (simp add: div_mult2_eq [symmetric])
    then show ?thesis unfolding d12 .
  qed
  have "unat v div 4096 = q" "unat v div 4194304 = q div 1024" by (simp_all add: q div_mult2_eq [of _ 4096 1024, simplified])
  then show "get_page_dir_index (v + 4 * t) = get_page_dir_index v"
      "get_page_tbl_index (v + 4 * t) = get_page_tbl_index v"
    unfolding get_page_dir_index_def get_page_tbl_index_def masks_as_exp
    by (simp_all add: word_unat_eq_iff unat_shift_right un d12 d22 unat_bit_mask [of _ 10, simplified])
  have "(unat v + 4 * unat t) mod 4096 = 4 * unat t"
    unfolding q using t by (simp add: mod_add_left_eq [symmetric])
  then show "(v + 4 * t) AND PAGE_FLAGS_MASK = 4 * t"
    unfolding masks_as_exp by (simp add: word_unat_eq_iff unat_bit_mask [of _ 12, simplified] un u4)
qed

lemma page_walk_offset:
  assumes "paged s" and "dir_word s (get_page_dir_index v) AND PAGE_PRESENT \<noteq> 0"
    and "v AND PAGE_FLAGS_MASK = 0" and "phys_word s (entry_place s v) AND PAGE_PRESENT \<noteq> 0"
    and "frame_of (phys_word s (entry_place s v)) = f" and "t < 1024"
  shows "page_walk s (v + 4 * t) = Some (f + 4 * t)"
proof -
  note off = page_offset [OF assms(3,6)]
  have place: "entry_place s (v + 4 * t) = entry_place s v" by (simp only: entry_place_def off)
  have "dir_word s (get_page_dir_index (v + 4 * t)) AND PAGE_PRESENT \<noteq> 0"
    using assms(2) by (simp only: off not_False_eq_True)
  from page_walk_entry [OF assms(1) this] show ?thesis
    using assms(4,5) by (simp only: place off Let_def if_False)
qed

lemma zero_words_ok:
  assumes "paged s" and "dir_word s (get_page_dir_index v) AND PAGE_PRESENT \<noteq> 0"
    and "v AND PAGE_FLAGS_MASK = 0" and "phys_word s (entry_place s v) AND PAGE_PRESENT \<noteq> 0"
    and "frame_of (phys_word s (entry_place s v)) = f" and "f \<noteq> page_dir_base s"
    and "f \<noteq> frame_of (dir_word s (get_page_dir_index v))" and "k + n \<le> 1024"
  shows "zero_words s (v + 4 * of_nat k) n = Some (s\<lparr>phys_word := \<lambda>a.
    if \<exists>j. k \<le> j \<and> j < k + n \<and> a = f + 4 * of_nat j then 0 else phys_word s a\<rparr>)"
  using assms
proof (induction n arbitrary: s k)
  case (Suc n)
  have kt: "(of_nat k :: u32) < 1024"
    using Suc.prems(8) by (simp add: word_less_nat_alt unat_of_nat take_bit_nat_eq_self)
  let ?a = "f + 4 * of_nat k :: u32"
  let ?s = "s\<lparr>phys_word := (phys_word s)(?a := 0)\<rparr>"
  have ff: "frame_of f = f" using Suc.prems(5) frame_of_twice by metis
  then have fa: "frame_of ?a = f" using kt by simp
  have "page_walk s (v + 4 * of_nat k) = Some ?a"
    by (rule page_walk_offset [OF Suc.prems(1-5) kt])
  then have step: "write_virt s (v + 4 * of_nat k) 0 = Some ?s" by (simp add: write_virt_def)
  have out: "frame_of ?a \<noteq> page_dir_base s" using fa Suc.prems(6) by simp
  have p': "paged ?s" by (rule paged_write(2) [OF Suc.prems(1) out])
  have d': "dir_word ?s (get_page_dir_index v) = dir_word s (get_page_dir_index v)"
    by (rule dir_word_write [OF Suc.prems(1) out index_bounds(1)])
  have e': "entry_place ?s v = entry_place s v" by (rule entry_place_write [OF Suc.prems(1) out])
  have "frame_of (entry_place s v) = frame_of (dir_word s (get_page_dir_index v))"
    using index_bounds [of v] by (simp add: entry_place_def)
  then have "entry_place s v \<noteq> ?a" using fa Suc.prems(7) by metis
  then have same: "phys_word ?s (entry_place s v) = phys_word s (entry_place s v)" by simp
  have "zero_words ?s (v + 4 * of_nat (Suc k)) n = Some (?s\<lparr>phys_word := \<lambda>a.
    if \<exists>j. Suc k \<le> j \<and> j < Suc k + n \<and> a = f + 4 * of_nat j then 0 else phys_word ?s a\<rparr>)"
    by (rule Suc.IH [OF p'])
      (use Suc.prems d' e' same in \<open>simp_all only: d' e' same\<close>, use Suc.prems in simp_all)
  moreover have "(\<lambda>a. if \<exists>j. Suc k \<le> j \<and> j < Suc k + n \<and> a = f + 4 * of_nat j then 0 else phys_word ?s a) =
    (\<lambda>a. if \<exists>j. k \<le> j \<and> j < k + Suc n \<and> a = f + 4 * of_nat j then 0 else phys_word s a)"
  proof
    fix a
    have iff: "(\<exists>j. k \<le> j \<and> j < k + Suc n \<and> a = f + 4 * of_nat j) \<longleftrightarrow>
        a = ?a \<or> (\<exists>j. Suc k \<le> j \<and> j < Suc k + n \<and> a = f + 4 * of_nat j)"
      by (metis Suc_le_eq add_Suc add_Suc_right le_add1 le_less less_Suc_eq_le)
    show "(if \<exists>j. Suc k \<le> j \<and> j < Suc k + n \<and> a = f + 4 * of_nat j then 0 else phys_word ?s a) =
      (if \<exists>j. k \<le> j \<and> j < k + Suc n \<and> a = f + 4 * of_nat j then 0 else phys_word s a)"
      unfolding iff by auto
  qed
  moreover have "zero_words s (v + 4 * of_nat k) (Suc n) = zero_words ?s (v + 4 * of_nat (Suc k)) n"
  proof -
    have "v + 4 * of_nat k + 4 = v + 4 * of_nat (Suc k)" by (simp add: algebra_simps)
    then show ?thesis by (simp only: zero_words.simps step Option.bind_lunit)
  qed
  ultimately show ?case by simp
next
  case 0
  have "(k \<le> j \<and> j < k + 0 \<and> P) = False" for j :: nat and P by auto
  then show ?case by (simp only: zero_words.simps simp_thms if_False) simp
qed


text \<open>The physical pages of the present tables are not in the list of free memory.\<close>

definition tables_taken :: "mm_state \<Rightarrow> bool" where
  "tables_taken s \<longleftrightarrow>
     (\<forall>i < 1024. dir_word s i AND PAGE_PRESENT \<noteq> 0 \<longrightarrow> unat (frame_of (dir_word s i)) \<notin> free_bytes (memory_map s))"

lemma allocate_page_ok:
  assumes "wf_blocks (memory_map s)" and "length (memory_map s) < MAX_NUM_MEMORY_BLOCKS"
    and "\<exists>b \<in> set (memory_map s). fits 4096 4096 b"
  shows "\<exists>r m. memmanager_allocate_physical_page s = Some (r, s\<lparr>memory_map := m\<rparr>) \<and> frame_of r = r \<and>
    {unat r..<unat r + 4096} \<subseteq> free_bytes (memory_map s) \<and>
    free_bytes m = free_bytes (memory_map s) - {unat r..<unat r + 4096}"
proof -
  have ps: "PAGE_SIZE = 2 ^ 12" by (simp add: PAGE_SIZE_def)
  from allocate_from_ok [of "[]" "memory_map s" 12 PAGE_SIZE] assms
  have "allocated 4096 PAGE_SIZE (memory_map s) (physical_memory_allocate (memory_map s) PAGE_SIZE PAGE_SIZE)"
    by (simp add: physical_memory_allocate_def ps)
  then obtain r m where r: "physical_memory_allocate (memory_map s) PAGE_SIZE PAGE_SIZE = Some (r, m)"
    "4096 dvd unat r" "{unat r..<unat r + 4096} \<subseteq> free_bytes (memory_map s)"
    "free_bytes m = free_bytes (memory_map s) - {unat r..<unat r + 4096}"
    by (auto simp: allocated_def PAGE_SIZE_def)
  have "frame_of r = r"
    unfolding masks_as_exp word_unat_eq_iff unat_align_down using r(2) by simp
  with r show ?thesis by (auto simp: memmanager_allocate_physical_page_def)
qed

lemma page_value_bits:
  fixes r flags :: u32
  assumes "frame_of r = r" and "flags AND PAGE_ADDRESS_MASK = 0"
  shows "frame_of ((r OR flags OR PAGE_PRESENT) OR PAGE_RW) = r" and "frame_of (r OR flags OR PAGE_PRESENT) = r"
    and "(r OR flags OR PAGE_PRESENT) AND PAGE_PRESENT \<noteq> 0"
    and "((r OR flags OR PAGE_PRESENT) OR PAGE_RW) AND PAGE_PRESENT \<noteq> 0"
proof -
  have z: "frame_of PAGE_PRESENT = 0" "frame_of PAGE_RW = 0"
    by (simp_all add: PAGE_PRESENT_def PAGE_RW_def masks_as_exp)
  show "frame_of ((r OR flags OR PAGE_PRESENT) OR PAGE_RW) = r" "frame_of (r OR flags OR PAGE_PRESENT) = r"
    using assms z by (simp_all only: bit.conj_disj_distrib2 bit.disj_zero_right)
  have "(r OR flags OR PAGE_PRESENT) AND PAGE_PRESENT = PAGE_PRESENT"
      "((r OR flags OR PAGE_PRESENT) OR PAGE_RW) AND PAGE_PRESENT = PAGE_PRESENT"
    by (rule bit_word_eqI, auto simp: bit_simps)+
  then show "(r OR flags OR PAGE_PRESENT) AND PAGE_PRESENT \<noteq> 0"
      "((r OR flags OR PAGE_PRESENT) OR PAGE_RW) AND PAGE_PRESENT \<noteq> 0"
    by (simp_all add: PAGE_PRESENT_def)
qed

lemma paged_same:
  assumes "paged s" and "page_dir_base s' = page_dir_base s"
    and "\<And>a. frame_of a = page_dir_base s \<Longrightarrow> phys_word s' a = phys_word s a"
  shows "i < 1024 \<Longrightarrow> dir_word s' i = dir_word s i" and "paged s'"
proof -
  have same: "dir_word s' i = dir_word s i" if "i < 1024" for i
    using assms(1,3) that by (simp add: dir_word_def assms(2) paged_def)
  then show "i < 1024 \<Longrightarrow> dir_word s' i = dir_word s i" .
  have "dir_word s' 1023 = dir_word s 1023" by (rule same) simp
  with same assms(1,2) show "paged s'" by (simp add: paged_def)
qed

lemma page_fault_run:
  assumes "read_virt s (dir_entry_address (get_page_dir_index v)) = Some d" and "d AND PAGE_PRESENT \<noteq> 0"
    and "read_virt s (pt_entry_address v (get_page_dir_index v)) = Some e"
    and "e AND PAGE_MAP_ON_ACCESS \<noteq> 0" and "e AND PAGE_RESERVED \<noteq> 0" and "e AND PAGE_PRESENT = 0"
    and "memmanager_allocate_physical_page s = Some (r, s1)" and "r \<noteq> 0"
    and "fl = e AND (PAGE_FLAGS_MASK AND NOT (PAGE_RESERVED OR PAGE_MAP_ON_ACCESS))"
    and "val = r OR fl OR PAGE_PRESENT"
    and "write_virt s1 (pt_entry_address v (get_page_dir_index v)) (val OR PAGE_RW) = Some s2"
    and "zero_page s2 (frame_of v) = Some s3"
    and "(if fl AND PAGE_RW = 0 then write_virt s3 (pt_entry_address v (get_page_dir_index v)) val else Some s3) = Some s4"
  shows "memmanager_handle_page_fault s 0 v = Some (True, s4)"
  unfolding memmanager_handle_page_fault_def Let_def assms(1,3,7) Option.bind_lunit prod.case
    assms(9,10) [symmetric] assms(11-13)
  using assms(2,4-6,8) by simp

lemma page_word_apart:
  assumes "frame_of r = r" and "frame_of a \<noteq> r" and "j < 1024"
  shows "r + 4 * of_nat j \<noteq> a"
proof
  assume "r + 4 * of_nat j = a"
  moreover have "(of_nat j :: u32) < 1024"
    using assms(3) by (simp add: word_less_nat_alt unat_of_nat take_bit_nat_eq_self)
  ultimately show False using frame_of_add [OF assms(1)] assms(2) by metis
qed

text \<open>Filling the page behind a fresh entry: the entry is written, the page zeroed through it.\<close>

definition zeroed_page :: "u32 \<Rightarrow> (u32 \<Rightarrow> u32) \<Rightarrow> u32 \<Rightarrow> u32" where
  "zeroed_page r w a = (if \<exists>j<1024. a = r + 4 * of_nat j then 0 else w a)"

lemma zeroed_page_outside: "frame_of r = r \<Longrightarrow> frame_of a \<noteq> r \<Longrightarrow> zeroed_page r w a = w a"
  unfolding zeroed_page_def using page_word_apart [of r a] by auto

lemma zeroed_page_inside: "j < 1024 \<Longrightarrow> zeroed_page r w (r + 4 * of_nat j) = 0"
  by (auto simp: zeroed_page_def)

lemma fill_page:
  assumes p: "paged s" and dir: "dir_word s (get_page_dir_index v) AND PAGE_PRESENT \<noteq> 0"
    and i: "get_page_dir_index v \<noteq> 1023" and v: "v AND PAGE_FLAGS_MASK = 0"
    and e: "e AND PAGE_PRESENT \<noteq> 0" "frame_of e = r"
    and r: "r \<noteq> page_dir_base s" "r \<noteq> frame_of (dir_word s (get_page_dir_index v))"
  shows "zero_page (s\<lparr>phys_word := (phys_word s)(entry_place s v := e)\<rparr>) v =
    Some (s\<lparr>phys_word := zeroed_page r ((phys_word s)(entry_place s v := e))\<rparr>)"
proof -
  let ?a = "entry_place s v" and ?i = "get_page_dir_index v"
  let ?s2 = "s\<lparr>phys_word := (phys_word s)(?a := e)\<rparr>"
  have out: "frame_of ?a \<noteq> page_dir_base s" by (rule entry_frame(2) [OF p dir i])
  have p2: "paged ?s2" by (rule paged_write(2) [OF p out])
  have d2: "dir_word ?s2 ?i = dir_word s ?i" by (rule dir_word_write [OF p out index_bounds(1)])
  have e2: "entry_place ?s2 v = ?a" by (rule entry_place_write [OF p out])
  have w2: "phys_word ?s2 ?a = e" by simp
  have "zero_words ?s2 (v + 4 * of_nat 0) 1024 =
      Some (?s2\<lparr>phys_word := \<lambda>a. if \<exists>j. 0 \<le> j \<and> j < 0 + 1024 \<and> a = r + 4 * of_nat j then 0 else phys_word ?s2 a\<rparr>)"
  proof (rule zero_words_ok [OF p2])
    show "phys_word ?s2 (entry_place ?s2 v) AND PAGE_PRESENT \<noteq> 0" unfolding e2 w2 by (rule e(1))
    show "frame_of (phys_word ?s2 (entry_place ?s2 v)) = r" unfolding e2 w2 by (rule e(2))
    show "dir_word ?s2 ?i AND PAGE_PRESENT \<noteq> 0" unfolding d2 by (rule dir)
    show "r \<noteq> frame_of (dir_word ?s2 ?i)" unfolding d2 by (rule r(2))
  qed (use v r in simp_all)
  moreover have "(\<lambda>a. if \<exists>j. 0 \<le> j \<and> j < 0 + 1024 \<and> a = r + 4 * of_nat j then 0 else phys_word ?s2 a) =
      zeroed_page r ((phys_word s)(?a := e))"
    by (rule ext) (auto simp: zeroed_page_def)
  ultimately show ?thesis by (simp add: zero_page_def PAGE_SIZE_def)
qed

lemma filled_page_reads:
  assumes p: "paged s" and dir: "dir_word s (get_page_dir_index v) AND PAGE_PRESENT \<noteq> 0" and v: "v AND PAGE_FLAGS_MASK = 0"
    and e: "phys_word s (entry_place s v) AND PAGE_PRESENT \<noteq> 0" "frame_of (phys_word s (entry_place s v)) = r"
    and zero: "\<And>j. j < 1024 \<Longrightarrow> phys_word s (r + 4 * of_nat j) = 0"
  shows "page_walk s v = Some r" and "\<forall>j < 1024. read_virt s (v + 4 * of_nat j) = Some 0"
proof -
  have walk: "page_walk s (v + 4 * t) = Some (r + 4 * t)" if "t < 1024" for t
    by (rule page_walk_offset [OF p dir v e that])
  show "page_walk s v = Some r" using walk [of 0] by simp
  show "\<forall>j < 1024. read_virt s (v + 4 * of_nat j) = Some 0"
  proof (intro allI impI)
    fix j :: nat assume j: "j < 1024"
    then have "(of_nat j :: u32) < 1024" by (simp add: word_less_nat_alt unat_of_nat take_bit_nat_eq_self)
    from walk [OF this] show "read_virt s (v + 4 * of_nat j) = Some 0"
      by (simp only: read_virt_def option.map zero [OF j])
  qed
qed

text \<open>The stores of a page fault: the entry, the zeroed page, and the entry without the temporary right to write.\<close>

lemma fault_stores:
  assumes p: "paged s" and dir: "dir_word s (get_page_dir_index v) AND PAGE_PRESENT \<noteq> 0"
    and i: "get_page_dir_index v \<noteq> 1023" and v: "v AND PAGE_FLAGS_MASK = 0"
    and rf: "frame_of r = r" and fl: "fl AND PAGE_ADDRESS_MASK = 0"
    and r: "r \<noteq> page_dir_base s" "r \<noteq> frame_of (dir_word s (get_page_dir_index v))"
    and val: "val = r OR fl OR PAGE_PRESENT"
  shows "\<exists>s2 s3 s4. write_virt s (pt_entry_address v (get_page_dir_index v)) (val OR PAGE_RW) = Some s2 \<and>
    zero_page s2 v = Some s3 \<and>
    (if fl AND PAGE_RW = 0 then write_virt s3 (pt_entry_address v (get_page_dir_index v)) val else Some s3) = Some s4 \<and>
    memory_map s4 = memory_map s \<and> page_walk s4 v = Some r \<and> (\<forall>j < 1024. read_virt s4 (v + 4 * of_nat j) = Some 0)"
proof -
  let ?a = "entry_place s v" and ?i = "get_page_dir_index v"
  note bits = page_value_bits [OF rf fl, folded val]
  let ?w = "zeroed_page r ((phys_word s)(?a := val OR PAGE_RW))"
  let ?s3 = "s\<lparr>phys_word := ?w\<rparr>"
  define x where "x = (if fl AND PAGE_RW = 0 then val else val OR PAGE_RW)"
  let ?s4 = "s\<lparr>phys_word := ?w(?a := x)\<rparr>"
  have out: "frame_of ?a \<noteq> page_dir_base s" by (rule entry_frame(2) [OF p dir i])
  have ar: "frame_of ?a \<noteq> r" using entry_frame(1) [OF p dir i] r(2) by simp
  have low: "?w a = phys_word s a" "a \<noteq> ?a" if "frame_of a = page_dir_base s" for a
    using that out zeroed_page_outside [OF rf, of a] r(1) by auto
  have wr: "write_virt s (pt_entry_address v ?i) (val OR PAGE_RW) = Some (s\<lparr>phys_word := (phys_word s)(?a := val OR PAGE_RW)\<rparr>)"
    by (rule write_entry [OF p dir])
  have zero: "zero_page (s\<lparr>phys_word := (phys_word s)(?a := val OR PAGE_RW)\<rparr>) v = Some ?s3"
    by (rule fill_page [OF p dir i v bits(4,1) r])
  have p3: "paged ?s3" and d3: "dir_word ?s3 ?i = dir_word s ?i"
    using paged_same [OF p, of ?s3] low index_bounds(1) [of v] by simp_all
  have p4: "paged ?s4" and d4: "dir_word ?s4 ?i = dir_word s ?i"
    using paged_same [OF p, of ?s4] low index_bounds(1) [of v] by simp_all
  have e3: "entry_place ?s3 v = ?a" and e4: "entry_place ?s4 v = ?a"
    by (rule entry_place_cong [OF d3], rule entry_place_cong [OF d4])
  have w3: "?w ?a = val OR PAGE_RW" using zeroed_page_outside [OF rf ar] by simp
  have fin: "(if fl AND PAGE_RW = 0 then write_virt ?s3 (pt_entry_address v ?i) val else Some ?s3) = Some ?s4"
  proof (cases "fl AND PAGE_RW = 0")
    case True
    have "write_virt ?s3 (pt_entry_address v ?i) val = Some (?s3\<lparr>phys_word := (phys_word ?s3)(?a := val)\<rparr>)"
      using write_entry [OF p3, of v val] dir d3 e3 by simp
    then show ?thesis using True by (simp add: x_def)
  next
    case False
    have "?w(?a := x) = ?w" using w3 False by (simp add: x_def fun_upd_idem)
    then show ?thesis using False by simp
  qed
  have x: "frame_of x = r" "x AND PAGE_PRESENT \<noteq> 0" using bits by (simp_all add: x_def)
  have "page_walk ?s4 v = Some r" "\<forall>j < 1024. read_virt ?s4 (v + 4 * of_nat j) = Some 0"
  proof (rule_tac [!] filled_page_reads [OF p4 _ v])
    show "phys_word ?s4 (r + 4 * of_nat j) = 0" if "j < 1024" for j
      using page_word_apart [OF rf ar that] zeroed_page_inside [OF that] by simp
    then show "phys_word ?s4 (r + 4 * of_nat j) = 0" if "j < 1024" for j using that .
  qed (unfold d4 e4, use dir x in simp_all)
  then show ?thesis using wr zero fin
    by (intro exI [of _ "s\<lparr>phys_word := (phys_word s)(?a := val OR PAGE_RW)\<rparr>"] exI [of _ ?s3] exI [of _ ?s4]) simp
qed



end
