(* ===== verification/HashMap.thy ===== *)
theory HashMap
  imports Prelude
begin

text \<open>
  The hash table of \<open>kernel/util/hash.h\<close>: a power of two of buckets, each a chain of nodes that new
  entries are appended to. The abstract view is the partial map from keys to data; \<open>kernel_map\<close> is the
  contract the users of the table rely on.
\<close>

section \<open>Hash functions\<close>

definition mix :: "u32 \<Rightarrow> u32" where
  "mix x = ((drop_bit 16 x) XOR x) * 0x45d9f3b"

definition hash_u32 :: "u32 \<Rightarrow> u32" where
  "hash_u32 x = (let x = mix (mix x) in (drop_bit 16 x) XOR x)"

definition hash_char :: "u32 \<Rightarrow> byte \<Rightarrow> u32" where
  "hash_char h c =
     (let h = push_bit 4 h + ucast c;
          g = h AND 0xf0000000;
          h = (if g \<noteq> 0 then h XOR drop_bit 24 g else h)
      in h AND NOT g)"

definition hash_string :: "byte list \<Rightarrow> u32" where
  "hash_string s = foldl hash_char 0 s"

section \<open>The table\<close>

type_synonym ('k, 'd) hash_map = "('k \<times> 'd) list list"

definition new_hash_map :: "nat \<Rightarrow> ('k, 'd) hash_map option" where
  "new_hash_map num_buckets =
     (if has_single_bit (of_nat num_buckets :: u32) then Some (replicate num_buckets []) else None)"

definition bucket_index :: "('k \<Rightarrow> u32) \<Rightarrow> ('k, 'd) hash_map \<Rightarrow> 'k \<Rightarrow> nat" where
  "bucket_index hash m key = unat (hash key AND (of_nat (length m) - 1))"

text \<open>The walks along a chain.\<close>

fun chain_lookup :: "'k \<Rightarrow> ('k \<times> 'd) list \<Rightarrow> 'd option" where
  "chain_lookup key [] = None"
| "chain_lookup key ((k, d) # entries) = (if key = k then Some d else chain_lookup key entries)"

fun chain_emplace :: "'k \<Rightarrow> 'd \<Rightarrow> ('k \<times> 'd) list \<Rightarrow> (('k \<times> 'd) list) option" where
  "chain_emplace key d [] = Some [(key, d)]"
| "chain_emplace key d ((k, e) # entries) =
     (if k \<noteq> key then map_option (Cons (k, e)) (chain_emplace key d entries) else None)"

fun chain_remove :: "'k \<Rightarrow> ('k \<times> 'd) list \<Rightarrow> ('k \<times> 'd) list" where
  "chain_remove key [] = []"
| "chain_remove key ((k, d) # entries) = (if k \<noteq> key then (k, d) # chain_remove key entries else entries)"

definition hash_map_lookup :: "('k \<Rightarrow> u32) \<Rightarrow> ('k, 'd) hash_map \<Rightarrow> 'k \<Rightarrow> 'd option" where
  "hash_map_lookup hash m key = chain_lookup key (m ! bucket_index hash m key)"

text \<open>\<open>lookup\<close> into a variable of the caller, which it leaves alone when the key is missing.\<close>

definition hash_map_lookup_into :: "('k \<Rightarrow> u32) \<Rightarrow> ('k, 'd) hash_map \<Rightarrow> 'k \<Rightarrow> 'd \<Rightarrow> bool \<times> 'd" where
  "hash_map_lookup_into hash m key def_val =
     (case hash_map_lookup hash m key of Some d \<Rightarrow> (True, d) | None \<Rightarrow> (False, def_val))"

definition hash_map_contains :: "('k \<Rightarrow> u32) \<Rightarrow> ('k, 'd) hash_map \<Rightarrow> 'k \<Rightarrow> bool" where
  "hash_map_contains hash m key \<longleftrightarrow> hash_map_lookup hash m key \<noteq> None"

text \<open>Whether the entry is new (the returned pointer is not null), and the table.\<close>

definition hash_map_emplace :: "('k \<Rightarrow> u32) \<Rightarrow> 'k \<Rightarrow> 'd \<Rightarrow> ('k, 'd) hash_map \<Rightarrow> bool \<times> ('k, 'd) hash_map" where
  "hash_map_emplace hash key d m =
     (let i = bucket_index hash m key in
      case chain_emplace key d (m ! i) of
        None \<Rightarrow> (False, m)
      | Some entries \<Rightarrow> (True, m[i := entries]))"

definition hash_map_insert :: "('k \<Rightarrow> u32) \<Rightarrow> 'k \<Rightarrow> 'd \<Rightarrow> ('k, 'd) hash_map \<Rightarrow> bool \<times> ('k, 'd) hash_map" where
  "hash_map_insert hash key def_val m = hash_map_emplace hash key def_val m"

definition hash_map_remove :: "('k \<Rightarrow> u32) \<Rightarrow> 'k \<Rightarrow> ('k, 'd) hash_map \<Rightarrow> ('k, 'd) hash_map" where
  "hash_map_remove hash key m =
     (let i = bucket_index hash m key in m[i := chain_remove key (m ! i)])"

section \<open>Tables as maps\<close>

definition wf_table :: "('k, 'd) hash_map \<Rightarrow> bool" where
  "wf_table m \<longleftrightarrow>
     (\<exists>k < 32. length m = 2 ^ k) \<and> (\<forall>entries \<in> set m. distinct (map fst entries))"

definition table_map :: "('k \<Rightarrow> u32) \<Rightarrow> ('k, 'd) hash_map \<Rightarrow> 'k \<rightharpoonup> 'd" where
  "table_map hash m key = map_of (m ! bucket_index hash m key) key"

lemma chain_lookup_map_of: "chain_lookup key entries = map_of entries key"
  by (induction entries) auto

lemma chain_emplace_map_of:
  "chain_emplace key d entries =
     (if map_of entries key = None then Some (entries @ [(key, d)]) else None)"
  by (induction entries) auto

lemma chain_remove_filter:
  "distinct (map fst entries) \<Longrightarrow> chain_remove key entries = filter (\<lambda>e. fst e \<noteq> key) entries"
proof (induction entries)
  case (Cons e entries)
  then show ?case by (cases e) (auto simp: filter_id_conv image_iff intro!: filter_True [symmetric])
qed simp

lemma chain_remove_map_of:
  "distinct (map fst entries) \<Longrightarrow> map_of (chain_remove key entries) = (map_of entries)(key := None)"
proof -
  have "map_of (filter (\<lambda>e. fst e \<noteq> key) es) = (map_of es)(key := None)" for es :: "('a \<times> 'b) list"
    by (induction es) (auto simp: fun_eq_iff)
  then show "distinct (map fst entries) \<Longrightarrow> map_of (chain_remove key entries) = (map_of entries)(key := None)"
    by (simp add: chain_remove_filter)
qed

lemma chain_remove_distinct:
  "distinct (map fst entries) \<Longrightarrow> distinct (map fst (chain_remove key entries))"
  by (simp add: chain_remove_filter distinct_map_filter)

lemma bucket_index_less:
  assumes "wf_table m"
  shows "bucket_index hash m key < length m"
proof -
  from assms obtain k where k: "k < 32" "length m = 2 ^ k" by (auto simp: wf_table_def)
  have "bucket_index hash m key = unat (hash key) mod 2 ^ k"
    unfolding bucket_index_def k(2) by (simp add: unat_bit_mask)
  then show ?thesis by (simp add: k(2))
qed

lemma bucket_index_update: "bucket_index hash (m[i := e]) key = bucket_index hash m key"
  by (simp add: bucket_index_def)

lemma new_hash_map_ok:
  fixes hash :: "'k \<Rightarrow> u32"
  assumes "k < 32"
  shows "\<exists>m :: ('k, 'd) hash_map. new_hash_map (2 ^ k) = Some m \<and> wf_table m \<and> (\<forall>key. table_map hash m key = None)"
proof -
  let ?m = "replicate (2 ^ k) [] :: ('k, 'd) hash_map"
  have wf: "wf_table ?m" using assms by (auto simp: wf_table_def)
  have "has_single_bit (of_nat (2 ^ k) :: u32)" using has_single_bit_exp [of k, where 'a = 32] assms by simp
  moreover have "table_map hash ?m key = None" for key
    using bucket_index_less [OF wf, of hash key] by (simp add: table_map_def)
  ultimately show ?thesis using wf by (simp add: new_hash_map_def)
qed

lemma emplace_map:
  assumes "wf_table m"
  shows "fst (hash_map_emplace hash key d m) = (table_map hash m key = None)"
    and "wf_table (snd (hash_map_emplace hash key d m))"
    and "table_map hash (snd (hash_map_emplace hash key d m)) =
      (if table_map hash m key = None then (table_map hash m)(key \<mapsto> d) else table_map hash m)"
proof -
  note i = bucket_index_less [OF assms, of hash]
  have new: "wf_table (m[bucket_index hash m key := m ! bucket_index hash m key @ [(key, d)]])"
    if "map_of (m ! bucket_index hash m key) key = None"
    using assms that i [of key]
    by (auto simp: wf_table_def set_update_distinct map_of_eq_None_iff dest!: set_update_subset_insert [THEN subsetD])
  show "fst (hash_map_emplace hash key d m) = (table_map hash m key = None)"
    by (simp add: hash_map_emplace_def chain_emplace_map_of table_map_def Let_def)
  show "wf_table (snd (hash_map_emplace hash key d m))"
    using new assms by (simp add: hash_map_emplace_def chain_emplace_map_of Let_def)
  show "table_map hash (snd (hash_map_emplace hash key d m)) =
      (if table_map hash m key = None then (table_map hash m)(key \<mapsto> d) else table_map hash m)"
    using i [of key] i
    by (auto simp: hash_map_emplace_def chain_emplace_map_of table_map_def Let_def fun_eq_iff bucket_index_update
        nth_list_update map_add_def split: option.splits)
qed

lemma remove_map:
  assumes "wf_table m"
  shows "wf_table (hash_map_remove hash key m)"
    and "table_map hash (hash_map_remove hash key m) = (table_map hash m)(key := None)"
proof -
  note i = bucket_index_less [OF assms, of hash]
  have d: "distinct (map fst (m ! bucket_index hash m key))"
    using assms i [of key] by (simp add: wf_table_def)
  show "wf_table (hash_map_remove hash key m)"
    using assms chain_remove_distinct [OF d, of key]
    by (auto simp: wf_table_def hash_map_remove_def Let_def dest!: set_update_subset_insert [THEN subsetD])
  show "table_map hash (hash_map_remove hash key m) = (table_map hash m)(key := None)"
    using i [of key] i chain_remove_map_of [OF d, of key]
    by (auto simp: hash_map_remove_def table_map_def Let_def fun_eq_iff bucket_index_update nth_list_update)
qed

section \<open>The contract of a map\<close>

locale kernel_map =
  fixes wf :: "'m \<Rightarrow> bool" and get :: "'m \<Rightarrow> 'k \<Rightarrow> 'd option"
    and put :: "'k \<Rightarrow> 'd \<Rightarrow> 'm \<Rightarrow> bool \<times> 'm" and del :: "'k \<Rightarrow> 'm \<Rightarrow> 'm"
  assumes wf_put: "wf m \<Longrightarrow> wf (snd (put k d m))"
    and wf_del: "wf m \<Longrightarrow> wf (del k m)"
    and put_new: "wf m \<Longrightarrow> fst (put k d m) = (get m k = None)"
    and get_put: "wf m \<Longrightarrow> get (snd (put k d m)) k' = (if k' = k \<and> get m k = None then Some d else get m k')"
    and get_del: "wf m \<Longrightarrow> get (del k m) k' = (if k' = k then None else get m k')"
begin

text \<open>Replacing an entry takes a removal first.\<close>

lemma del_put: "wf m \<Longrightarrow> get (snd (put k d (del k m))) k' = (if k' = k then Some d else get m k')"
  by (simp add: get_put get_del wf_del)

lemma put_del: "wf m \<Longrightarrow> get m k = None \<Longrightarrow> get (del k (snd (put k d m))) k' = get m k'"
  by (simp add: get_put get_del wf_put)

lemma put_twice: "wf m \<Longrightarrow> get (snd (put k e (snd (put k d m)))) k' = get (snd (put k d m)) k'"
  by (simp add: get_put wf_put)

end

interpretation table: kernel_map wf_table "hash_map_lookup hash" "hash_map_emplace hash" "hash_map_remove hash"
  for hash :: "'k \<Rightarrow> u32"
proof -
  have get: "hash_map_lookup hash m k = table_map hash m k" for m :: "('k, 'd) hash_map" and k
    by (simp add: hash_map_lookup_def table_map_def chain_lookup_map_of)
  show "kernel_map wf_table (hash_map_lookup hash) (hash_map_emplace hash) (hash_map_remove hash)"
    by unfold_locales (auto simp: get emplace_map remove_map)
qed

section \<open>Properties of the hash table\<close>

text \<open>C20: the table is a finite map, whatever the hash function: \<open>emplace\<close> adds a missing key and refuses a
  present one without changing anything, \<open>remove\<close> deletes exactly its key, and a lookup finds what
  the map has; every operation keeps the chains free of duplicates.\<close>

theorem hash_map_refines:
  assumes "wf_table m"
  shows "hash_map_lookup hash m k = table_map hash m k \<and>
    fst (hash_map_emplace hash k d m) = (k \<notin> dom (table_map hash m)) \<and>
    table_map hash (snd (hash_map_emplace hash k d m)) =
      (if k \<in> dom (table_map hash m) then table_map hash m else (table_map hash m)(k \<mapsto> d)) \<and>
    table_map hash (hash_map_remove hash k m) = (table_map hash m)(k := None) \<and>
    wf_table (snd (hash_map_emplace hash k d m)) \<and> wf_table (hash_map_remove hash k m)"
  using emplace_map [OF assms] remove_map [OF assms]
  by (auto simp: hash_map_lookup_def table_map_def chain_lookup_map_of)

definition sample_table :: "(u32, nat) hash_map" where
  "sample_table = [[], [], [], []]"

theorem hash_map_refines_witness:
  "table_map hash_u32 (snd (hash_map_emplace hash_u32 7 1 sample_table)) = [7 \<mapsto> 1]"
proof -
  have wf: "wf_table sample_table"
    by (auto simp: wf_table_def sample_table_def intro!: exI [of _ 2])
  have "table_map hash_u32 sample_table k = None" for k
    using bucket_index_less [OF wf, of hash_u32 k]
    by (auto simp: table_map_def sample_table_def less_Suc_eq numeral_eq_Suc)
  then show ?thesis
    using hash_map_refines [OF wf, where hash = hash_u32 and k = 7 and d = 1] by (auto simp: fun_eq_iff dom_def)
qed

end
