(* ===== verification/Heap.thy ===== *)
theory Heap
  imports Prelude
begin

text \<open>
  The heap allocator (\<open>clib/liballoc.cpp\<close>), used by the kernel and by every program: blocks of pages from
  the system (majors), each holding the allocated blocks (minors) in the order of their addresses with
  gaps between them. The linked lists are lists; a header keeps its address. What the allocator reads
  back through a pointer of its caller, the magic number of a header and the offset in front of an
  aligned block, is memory. The two functions that get pages from the system are the record
  \<open>page_calls\<close>, as they are arguments of the class's constructor. A null result is 0; following a
  pointer that is not one of the heap's, or writing through null, is \<^const>\<open>None\<close>.
\<close>

section \<open>State\<close>

record minor_block =
  mn_addr :: u32
  mn_size :: u32
  mn_req_size :: u32

record major_block =
  mj_addr :: u32
  mj_pages :: u32
  mj_size :: u32
  mj_usage :: u32
  mj_minors :: "minor_block list"

record 's heap_allocator =
  majors :: "major_block list"
  best_bet :: "u32 option"
  l_allocated :: u64
  l_inuse :: u64
  warnings :: u64
  errors :: u64
  overruns :: u64
  magics :: "u32 \<Rightarrow> u32"
  align_words :: "u32 \<Rightarrow> u32"
  heap_bytes :: "u32 \<Rightarrow> byte"
  heap_sys :: 's

record 's page_calls =
  sys_alloc_pages :: "'s \<Rightarrow> u32 \<Rightarrow> u32 \<times> 's"
  sys_free_pages :: "'s \<Rightarrow> u32 \<Rightarrow> u32 \<Rightarrow> 's"

definition MAJOR_SIZE :: u32 where "MAJOR_SIZE = 24"
definition MINOR_SIZE :: u32 where "MINOR_SIZE = 24"
definition ALIGN_SIZE :: u32 where "ALIGN_SIZE = 4"
definition LIBALLOC_MAGIC :: u32 where "LIBALLOC_MAGIC = 0xc001c0de"
definition LIBALLOC_DEAD :: u32 where "LIBALLOC_DEAD = 0xdeaddead"
definition l_pageSize :: u32 where "l_pageSize = 4096"
definition l_pageCount :: u32 where "l_pageCount = 16"

text \<open>\<open>ALIGN\<close>: the aligned address and the offset stored in front of it.\<close>

definition align_up :: "u32 \<Rightarrow> u32 \<Rightarrow> u32 \<times> u32" where
  "align_up ptr alignment =
     (let nptr = ptr + ALIGN_SIZE;
          diff = nptr AND (alignment - 1);
          offset = (if diff \<noteq> 0 then alignment - diff else 0)
      in (nptr + offset, offset))"

definition unalign :: "'s heap_allocator \<Rightarrow> u32 \<Rightarrow> u32" where
  "unalign h ptr = ptr - (align_words h (ptr - ALIGN_SIZE) + ALIGN_SIZE)"

section \<open>Majors\<close>

definition pages_for :: "u32 \<Rightarrow> u32" where
  "pages_for sz =
     (let st = sz + MAJOR_SIZE + MINOR_SIZE;
          st = (if st mod l_pageSize = 0 then st div l_pageSize else st div l_pageSize + 1)
      in if st < l_pageCount then l_pageCount else st)"

definition allocate_new_page ::
  "'s page_calls \<Rightarrow> u32 \<Rightarrow> 's heap_allocator \<Rightarrow> major_block option \<times> 's heap_allocator" where
  "allocate_new_page ops sz h =
     (let st = pages_for sz;
          (a, s) = sys_alloc_pages ops (heap_sys h) st
      in if a = 0 then (None, h\<lparr>heap_sys := s, warnings := warnings h + 1\<rparr>)
         else (Some \<lparr>mj_addr = a, mj_pages = st, mj_size = st * l_pageSize, mj_usage = MAJOR_SIZE,
                     mj_minors = []\<rparr>,
               h\<lparr>heap_sys := s, l_allocated := l_allocated h + ucast (st * l_pageSize)\<rparr>))"

text \<open>Where the search goes when the major at \<open>i\<close> does not do: on, back to the root if it started at the
  best bet, or to a new major behind the last.\<close>

datatype 's next_major = Hop nat bool | New "'s heap_allocator" | Full "'s heap_allocator"

definition next_major ::
  "'s page_calls \<Rightarrow> u32 \<Rightarrow> nat \<Rightarrow> bool \<Rightarrow> 's heap_allocator \<Rightarrow> 's next_major" where
  "next_major ops sz i started h =
     (if i + 1 < length (majors h) then Hop (i + 1) started
      else if started then Hop 0 False
      else case allocate_new_page ops sz h of
             (None, h) \<Rightarrow> Full h
           | (Some m, h) \<Rightarrow> New (h\<lparr>majors := majors h @ [m]\<rparr>))"

section \<open>Minors\<close>

text \<open>A new header at address \<open>a\<close> of major \<open>i\<close>, between the minors \<open>pre\<close> and \<open>post\<close>.\<close>

definition add_minor ::
  "nat \<Rightarrow> minor_block list \<Rightarrow> u32 \<Rightarrow> minor_block list \<Rightarrow> u32 \<Rightarrow> u32 \<Rightarrow> u32 \<Rightarrow>
   's heap_allocator \<Rightarrow> u32 \<times> 's heap_allocator" where
  "add_minor i pre a post req sz align h =
     (let maj = majors h ! i;
          new = \<lparr>mn_addr = a, mn_size = sz, mn_req_size = req\<rparr>;
          (p, offset) = align_up (a + MINOR_SIZE) align
      in (p, h\<lparr>majors := (majors h)[i := maj\<lparr>mj_minors := pre @ new # post,
                                             mj_usage := mj_usage maj + (sz + MINOR_SIZE)\<rparr>],
               magics := (magics h)(a := LIBALLOC_MAGIC),
               l_inuse := l_inuse h + ucast sz,
               align_words := (align_words h)(p - ALIGN_SIZE := offset)\<rparr>))"

text \<open>The first gap behind a minor (cases 4.1 and 4.2), up to the next one or the end of the major.\<close>

fun find_gap :: "u32 \<Rightarrow> u32 \<Rightarrow> minor_block list \<Rightarrow> (minor_block list \<times> u32 \<times> minor_block list) option" where
  "find_gap stop sz [] = None"
| "find_gap stop sz (m # ms) =
     (let limit = (case ms of [] \<Rightarrow> stop | n # _ \<Rightarrow> mn_addr n);
          diff = limit - mn_addr m - MINOR_SIZE - mn_size m
      in if sz + MINOR_SIZE \<le> diff then Some ([m], mn_addr m + MINOR_SIZE + mn_size m, ms)
         else map_option (\<lambda>(pre, r). (m # pre, r)) (find_gap stop sz ms))"

text \<open>Cases 2 to 4.\<close>

definition place_block ::
  "nat \<Rightarrow> u32 \<Rightarrow> u32 \<Rightarrow> u32 \<Rightarrow> 's heap_allocator \<Rightarrow> (u32 \<times> 's heap_allocator) option" where
  "place_block i req sz align h =
     (let maj = majors h ! i; front = mj_addr maj + MAJOR_SIZE in
      case mj_minors maj of
        [] \<Rightarrow> Some (add_minor i [] front [] req sz align h)
      | m # ms \<Rightarrow>
          if sz + MINOR_SIZE \<le> mn_addr m - mj_addr maj - MAJOR_SIZE
          then Some (add_minor i [] front (m # ms) req sz align h)
          else case find_gap (mj_addr maj + mj_size maj) sz (m # ms) of
                 Some (pre, a, post) \<Rightarrow> Some (add_minor i pre a post req sz align h)
               | None \<Rightarrow> None)"

section \<open>malloc\<close>

text \<open>
  The walk over the majors from index \<open>i\<close>. A new major is empty, so that case 2 applies to it right away
  when case 1 adds it; case 5 adds it and goes round once more.
\<close>

partial_function (option) malloc_search ::
  "'s page_calls \<Rightarrow> u32 \<Rightarrow> u32 \<Rightarrow> u32 \<Rightarrow> nat \<Rightarrow> bool \<Rightarrow> u32 \<Rightarrow> 's heap_allocator \<Rightarrow>
   (u32 \<times> 's heap_allocator) option" where
  "malloc_search ops req sz align i started best h =
     (let maj = majors h ! i;
          diff = mj_size maj - mj_usage maj;
          h = (if best < diff then h\<lparr>best_bet := Some (mj_addr maj)\<rparr> else h);
          best = (if best < diff then diff else best)
      in if diff < sz + MINOR_SIZE
         then case next_major ops sz i started h of
                Hop j started \<Rightarrow> malloc_search ops req sz align j started best h
              | Full h \<Rightarrow> Some (0, h)
              | New h \<Rightarrow> place_block (i + 1) req sz align h
         else case place_block i req sz align h of
                Some r \<Rightarrow> Some r
              | None \<Rightarrow>
                  (case next_major ops sz i started h of
                     Hop j started \<Rightarrow> malloc_search ops req sz align j started best h
                   | Full h \<Rightarrow> Some (0, h)
                   | New h \<Rightarrow> malloc_search ops req sz align (i + 1) started best h))"

fun major_index :: "u32 \<Rightarrow> major_block list \<Rightarrow> nat option" where
  "major_index a [] = None"
| "major_index a (m # ms) = (if mj_addr m = a then Some 0 else map_option Suc (major_index a ms))"

text \<open>Where the walk starts: at the best bet, if that has room for the block, with the flag set.\<close>

definition start_at :: "u32 \<Rightarrow> 's heap_allocator \<Rightarrow> (nat \<times> bool \<times> u32) option" where
  "start_at sz h =
     (case best_bet h of
        None \<Rightarrow> Some (0, False, 0)
      | Some b \<Rightarrow> do {
          i \<leftarrow> major_index b (majors h);
          let best = mj_size (majors h ! i) - mj_usage (majors h ! i);
          Some (if sz + MINOR_SIZE < best then (i, True, best) else (0, False, best))
        })"

partial_function (option) malloc_bytes ::
  "'s page_calls \<Rightarrow> u32 \<Rightarrow> u32 \<Rightarrow> 's heap_allocator \<Rightarrow> (u32 \<times> 's heap_allocator) option" where
  "malloc_bytes ops req_size align h =
     (let sz = req_size + (ALIGN_SIZE + (align - 1)) in
      if sz = 0 then malloc_bytes ops 1 align (h\<lparr>warnings := warnings h + 1\<rparr>)
      else case (if majors h = [] then allocate_new_page ops sz h else (None, h)) of
             (m, h') \<Rightarrow>
               if majors h = [] \<and> m = None then Some (0, h')
               else do {
                 let h = (case m of Some m \<Rightarrow> h'\<lparr>majors := [m]\<rparr> | None \<Rightarrow> h');
                 (i, started, best) \<leftarrow> start_at sz h;
                 malloc_search ops req_size sz align i started best h
               })"

section \<open>free\<close>

text \<open>The minor with its header at \<open>a\<close>: its major's index and its own.\<close>

fun minor_index :: "u32 \<Rightarrow> minor_block list \<Rightarrow> nat option" where
  "minor_index a [] = None"
| "minor_index a (m # ms) = (if mn_addr m = a then Some 0 else map_option Suc (minor_index a ms))"

fun find_minor :: "u32 \<Rightarrow> major_block list \<Rightarrow> (nat \<times> nat) option" where
  "find_minor a [] = None"
| "find_minor a (m # ms) =
     (case minor_index a (mj_minors m) of
        Some j \<Rightarrow> Some (0, j)
      | None \<Rightarrow> map_option (\<lambda>(i, j). (Suc i, j)) (find_minor a ms))"

definition remove_at :: "nat \<Rightarrow> 'a list \<Rightarrow> 'a list" where
  "remove_at i xs = take i xs @ drop (i + 1) xs"

text \<open>The counters when a header does not have its magic number.\<close>

definition bad_magic :: "u32 \<Rightarrow> 's heap_allocator \<Rightarrow> 's heap_allocator" where
  "bad_magic magic h =
     h\<lparr>errors := errors h + 1,
       overruns := (if magic AND 0xFFFFFF = LIBALLOC_MAGIC AND 0xFFFFFF
                      \<or> magic AND 0xFFFF = LIBALLOC_MAGIC AND 0xFFFF
                      \<or> magic AND 0xFF = LIBALLOC_MAGIC AND 0xFF
                    then overruns h + 1 else overruns h)\<rparr>"

definition release_major :: "'s page_calls \<Rightarrow> nat \<Rightarrow> 's heap_allocator \<Rightarrow> 's heap_allocator" where
  "release_major ops i h =
     (let maj = majors h ! i in
      h\<lparr>majors := remove_at i (majors h),
        best_bet := (if best_bet h = Some (mj_addr maj) then None else best_bet h),
        l_allocated := l_allocated h - ucast (mj_size maj),
        heap_sys := sys_free_pages ops (heap_sys h) (mj_addr maj) (mj_pages maj)\<rparr>)"

definition update_best_bet :: "nat \<Rightarrow> 's heap_allocator \<Rightarrow> 's heap_allocator option" where
  "update_best_bet i h =
     (case best_bet h of
        None \<Rightarrow> Some h
      | Some b \<Rightarrow> do {
          k \<leftarrow> major_index b (majors h);
          let best = majors h ! k;
          let maj = majors h ! i;
          Some (if mj_size best - mj_usage best < mj_size maj - mj_usage maj
                then h\<lparr>best_bet := Some (mj_addr maj)\<rparr> else h)
        })"

definition heap_free_bytes :: "'s page_calls \<Rightarrow> u32 \<Rightarrow> 's heap_allocator \<Rightarrow> 's heap_allocator option" where
  "heap_free_bytes ops to_free h =
     (if to_free = 0 then Some (h\<lparr>warnings := warnings h + 1\<rparr>)
      else let a = unalign h to_free - MINOR_SIZE in
        if magics h a \<noteq> LIBALLOC_MAGIC then Some (bad_magic (magics h a) h)
        else do {
          (i, j) \<leftarrow> find_minor a (majors h);
          let maj = majors h ! i;
          let mn = mj_minors maj ! j;
          let maj = maj\<lparr>mj_usage := mj_usage maj - (mn_size mn + MINOR_SIZE),
                         mj_minors := remove_at j (mj_minors maj)\<rparr>;
          let h = h\<lparr>l_inuse := l_inuse h - ucast (mn_size mn), majors := (majors h)[i := maj],
                    magics := (magics h)(a := LIBALLOC_DEAD)\<rparr>;
          (if mj_minors maj = [] then Some (release_major ops i h) else update_best_bet i h)
        })"

section \<open>calloc and realloc\<close>

definition mem_set :: "u32 \<Rightarrow> u32 \<Rightarrow> 's heap_allocator \<Rightarrow> 's heap_allocator option" where
  "mem_set p n h =
     (if p = 0 \<and> n \<noteq> 0 then None
      else Some (h\<lparr>heap_bytes := \<lambda>a. if a - p < n then 0 else heap_bytes h a\<rparr>))"

definition mem_copy :: "u32 \<Rightarrow> u32 \<Rightarrow> u32 \<Rightarrow> 's heap_allocator \<Rightarrow> 's heap_allocator option" where
  "mem_copy dst src n h =
     (if dst = 0 \<and> n \<noteq> 0 then None
      else Some (h\<lparr>heap_bytes := \<lambda>a. if a - dst < n then heap_bytes h (src + (a - dst)) else heap_bytes h a\<rparr>))"

definition calloc_bytes ::
  "'s page_calls \<Rightarrow> u32 \<Rightarrow> u32 \<Rightarrow> u32 \<Rightarrow> 's heap_allocator \<Rightarrow> (u32 \<times> 's heap_allocator) option" where
  "calloc_bytes ops nobj sz align h = do {
     let real_size = nobj * sz;
     (p, h) \<leftarrow> malloc_bytes ops real_size align h;
     h \<leftarrow> mem_set p real_size h;
     Some (p, h)
   }"

definition realloc_bytes ::
  "'s page_calls \<Rightarrow> u32 \<Rightarrow> u32 \<Rightarrow> u32 \<Rightarrow> 's heap_allocator \<Rightarrow> (u32 \<times> 's heap_allocator) option" where
  "realloc_bytes ops p sz align h =
     (if sz = 0 then map_option (\<lambda>h. (0, h)) (heap_free_bytes ops p h)
      else if p = 0 then malloc_bytes ops sz align h
      else let a = unalign h p - MINOR_SIZE in
        if magics h a \<noteq> LIBALLOC_MAGIC then Some (0, bad_magic (magics h a) h)
        else do {
          (i, j) \<leftarrow> find_minor a (majors h);
          let maj = majors h ! i;
          let real_size = mn_req_size (mj_minors maj ! j);
          (if sz \<le> real_size
           then Some (p, h\<lparr>majors := (majors h)[i := maj\<lparr>mj_minors :=
                    (mj_minors maj)[j := (mj_minors maj ! j)\<lparr>mn_req_size := sz\<rparr>]\<rparr>]\<rparr>)
           else do {
             (new_block, h) \<leftarrow> malloc_bytes ops sz align h;
             h \<leftarrow> mem_copy new_block p real_size h;
             h \<leftarrow> heap_free_bytes ops p h;
             Some (new_block, h)
           })
        })"

section \<open>The C interface\<close>

definition clib_default_align :: u32 where "clib_default_align = 4"

definition aligned_alloc where "aligned_alloc ops alignment sz h = malloc_bytes ops sz alignment h"
definition malloc where "malloc ops n h = malloc_bytes ops n clib_default_align h"
definition realloc where "realloc ops p sz h = realloc_bytes ops p sz clib_default_align h"
definition calloc where "calloc ops num sz h = calloc_bytes ops num sz clib_default_align h"
definition free where "free ops p h = heap_free_bytes ops p h"

end
