(* ===== verification/HeapCorrect.thy ===== *)
theory HeapCorrect
  imports Heap
begin

text \<open>
  The heap allocator keeps its blocks apart: the invariant of the heap, the blocks its pointers own, and
  what malloc, free and realloc do to them.
\<close>

section \<open>The invariant\<close>

definition mn_lo :: "minor_block \<Rightarrow> nat" where "mn_lo m = unat (mn_addr m)"
definition mn_hi :: "minor_block \<Rightarrow> nat" where "mn_hi m = unat (mn_addr m) + 24 + unat (mn_size m)"

lemma mn_hi_lo: "mn_lo m + 24 \<le> mn_hi m"
  by (simp add: mn_lo_def mn_hi_def)

fun packed :: "nat \<Rightarrow> minor_block list \<Rightarrow> nat \<Rightarrow> bool" where
  "packed lo [] hi \<longleftrightarrow> lo \<le> hi"
| "packed lo (m # ms) hi \<longleftrightarrow> lo \<le> mn_lo m \<and> packed (mn_hi m) ms hi"

lemma packed_le: "packed lo ms hi \<Longrightarrow> lo \<le> hi"
proof (induction ms arbitrary: lo)
  case (Cons m ms)
  from Cons.prems have "lo \<le> mn_lo m" "mn_hi m \<le> hi" using Cons.IH by auto
  then show ?case using mn_hi_lo [of m] by linarith
qed simp

lemma packed_insert: "packed lo (pre @ m # post) hi \<longleftrightarrow> packed lo pre (mn_lo m) \<and> packed (mn_hi m) post hi"
  by (induction pre arbitrary: lo) auto

lemma packed_mono_lo: "packed lo ms hi \<Longrightarrow> lo' \<le> lo \<Longrightarrow> packed lo' ms hi"
  by (cases ms) auto

lemma packed_mono_hi: "packed lo ms hi \<Longrightarrow> hi \<le> hi' \<Longrightarrow> packed lo ms hi'"
  by (induction ms arbitrary: lo) auto

lemma packed_append: "packed lo pre mid \<Longrightarrow> packed mid post hi \<Longrightarrow> packed lo (pre @ post) hi"
proof (induction pre arbitrary: lo)
  case Nil
  then show ?case by (auto intro: packed_mono_lo)
qed simp

lemma packed_remove:
  assumes "packed lo (pre @ m # post) hi"
  shows "packed lo (pre @ post) hi"
proof -
  from assms have pre: "packed lo pre (mn_lo m)" and post: "packed (mn_hi m) post hi"
    by (auto simp: packed_insert)
  from pre have "packed lo pre (mn_hi m)" by (rule packed_mono_hi) (use mn_hi_lo [of m] in linarith)
  then show ?thesis using post by (rule packed_append)
qed

lemma packed_member:
  assumes "packed lo ms hi" and "m \<in> set ms"
  shows "lo \<le> mn_lo m \<and> mn_hi m \<le> hi"
proof -
  from assms(2) obtain pre post where "ms = pre @ m # post" by (auto simp: in_set_conv_decomp)
  then show ?thesis using assms(1) packed_le by (auto simp: packed_insert)
qed

definition extent :: "minor_block \<Rightarrow> nat set" where
  "extent m = {mn_lo m..<mn_hi m}"

lemma extent_apart: "packed lo (pre @ m # post) hi \<Longrightarrow> k \<in> set (pre @ post) \<Longrightarrow> extent k \<inter> extent m = {}"
  by (fastforce simp: packed_insert extent_def dest: packed_member)

definition occupied :: "minor_block list \<Rightarrow> nat" where
  "occupied ms = sum_list (map (\<lambda>m. mn_hi m - mn_lo m) ms)"

lemma occupied_simps [simp]:
  "occupied [] = 0" "occupied (m # ms) = mn_hi m - mn_lo m + occupied ms"
  "occupied (xs @ ys) = occupied xs + occupied ys"
  by (simp_all add: occupied_def)

lemma packed_occupied: "packed lo ms hi \<Longrightarrow> occupied ms \<le> hi - lo"
proof (induction ms arbitrary: lo)
  case (Cons m ms)
  from Cons.prems have "packed (mn_hi m) ms hi" "lo \<le> mn_lo m" by auto
  moreover from calculation have "mn_hi m \<le> hi" by (auto dest: packed_le)
  ultimately show ?case using Cons.IH [of "mn_hi m"] mn_hi_lo [of m] by auto
qed simp

definition mj_lo :: "major_block \<Rightarrow> nat" where "mj_lo m = unat (mj_addr m)"
definition mj_hi :: "major_block \<Rightarrow> nat" where "mj_hi m = unat (mj_addr m) + unat (mj_size m)"

definition major_ok :: "major_block \<Rightarrow> bool" where
  "major_ok m \<longleftrightarrow> mj_addr m \<noteq> 0 \<and> mj_hi m < 2 ^ 32 \<and> packed (mj_lo m + 24) (mj_minors m) (mj_hi m) \<and>
     unat (mj_usage m) = 24 + occupied (mj_minors m)"

definition majors_apart :: "major_block list \<Rightarrow> bool" where
  "majors_apart ms \<longleftrightarrow> sorted_wrt (\<lambda>(lo, hi) (lo', hi'). hi \<le> lo' \<or> hi' \<le> lo) (map (\<lambda>m. (mj_lo m, mj_hi m)) ms)"

definition all_minors :: "'s heap_allocator \<Rightarrow> minor_block list" where
  "all_minors h = concat (map mj_minors (majors h))"

text \<open>The pointer \<open>p\<close> owns the block \<open>m\<close>: the allocator finds its header, and the bytes asked for lie in it.\<close>

definition points_to :: "'s heap_allocator \<Rightarrow> u32 \<Rightarrow> minor_block \<Rightarrow> bool" where
  "points_to h p m \<longleftrightarrow> unalign h p = mn_addr m + 24 \<and> mn_lo m + 28 \<le> unat p \<and>
     unat p + unat (mn_req_size m) \<le> mn_hi m"

definition owns :: "'s heap_allocator \<Rightarrow> u32 \<Rightarrow> minor_block \<Rightarrow> bool" where
  "owns h p m \<longleftrightarrow> m \<in> set (all_minors h) \<and> points_to h p m"

text \<open>The heap during a search may hold one empty major, its new last one.\<close>

definition heap_inv :: "'s heap_allocator \<Rightarrow> bool" where
  "heap_inv h \<longleftrightarrow> (\<forall>m \<in> set (majors h). major_ok m) \<and> majors_apart (majors h) \<and>
     (\<forall>b. best_bet h = Some b \<longrightarrow> b \<in> mj_addr ` set (majors h)) \<and>
     (\<forall>m \<in> set (all_minors h). magics h (mn_addr m) = LIBALLOC_MAGIC \<and> (\<exists>p. points_to h p m))"

definition heap_ok :: "'s heap_allocator \<Rightarrow> bool" where
  "heap_ok h \<longleftrightarrow> heap_inv h \<and> (\<forall>m \<in> set (majors h). mj_minors m \<noteq> [])"

section \<open>Gaps\<close>

lemma unat_sizes [simp]: "unat MINOR_SIZE = 24" "unat MAJOR_SIZE = 24" "unat ALIGN_SIZE = 4"
  by (simp_all add: MINOR_SIZE_def MAJOR_SIZE_def ALIGN_SIZE_def)

lemma find_gap_ok:
  assumes "find_gap stop sz ms = Some (pre, a, post)" and "packed lo ms (unat stop)" and "unat sz + 24 < 2 ^ 32"
  shows "ms = pre @ post \<and> packed lo (pre @ \<lparr>mn_addr = a, mn_size = sz, mn_req_size = req\<rparr> # post) (unat stop)"
  using assms
proof (induction ms arbitrary: lo pre)
  case (Cons m ms)
  define limit where "limit = (case ms of [] \<Rightarrow> stop | n # _ \<Rightarrow> mn_addr n)"
  from Cons.prems(2) have lo: "lo \<le> mn_lo m" and ps: "packed (mn_hi m) ms (unat stop)" by auto
  have hl: "mn_hi m \<le> unat limit" using ps by (cases ms) (auto simp: limit_def mn_lo_def)
  then have 1: "unat (limit - mn_addr m) = unat limit - mn_lo m"
    by (subst u32_sub) (auto simp: word_le_nat_alt mn_hi_def mn_lo_def)
  then have 2: "unat (limit - mn_addr m - MINOR_SIZE) = unat limit - mn_lo m - 24"
    using hl by (subst u32_sub) (auto simp: word_le_nat_alt mn_hi_def mn_lo_def)
  then have 3: "unat (limit - mn_addr m - MINOR_SIZE - mn_size m) = unat limit - mn_hi m"
    using hl by (subst u32_sub) (auto simp: word_le_nat_alt mn_hi_def mn_lo_def)
  have 4: "unat (sz + MINOR_SIZE) = unat sz + 24" using Cons.prems(3) by (subst u32_add) auto
  have lb: "unat limit < 2 ^ 32" by (rule unat_u32_bound)
  show ?case
  proof (cases "sz + MINOR_SIZE \<le> limit - mn_addr m - MINOR_SIZE - mn_size m")
    case True
    then have fit: "mn_hi m + unat sz + 24 \<le> unat limit" using hl by (simp add: word_le_nat_alt 3 4)
    with True Cons.prems(1) have r: "pre = [m]" "a = mn_addr m + MINOR_SIZE + mn_size m" "post = ms"
      by (auto simp: limit_def Let_def)
    have ua: "unat a = mn_hi m"
      unfolding r(2) using fit lb by (subst u32_add; subst u32_add) (auto simp: mn_hi_def)
    have "packed (mn_hi m + unat sz + 24) ms (unat stop)"
      using fit ps by (cases ms) (auto simp: limit_def mn_lo_def)
    then show ?thesis using lo by (auto simp: r(1,3) ua mn_lo_def mn_hi_def [of "\<lparr>mn_addr = a, mn_size = sz, mn_req_size = req\<rparr>"] add_ac)
  next
    case False
    with Cons.prems(1) obtain pre' where "find_gap stop sz ms = Some (pre', a, post)" and "pre = m # pre'"
      by (auto simp: limit_def Let_def)
    with Cons.IH [OF this(1) ps Cons.prems(3)] lo show ?thesis by auto
  qed
qed simp

text \<open>What a successful search returns: a heap that differs at most by a new major, the best bet and the
  counters, and a gap in it for the block.\<close>

definition gap :: "'s heap_allocator \<Rightarrow> nat \<Rightarrow> minor_block list \<Rightarrow> u32 \<Rightarrow> minor_block list \<Rightarrow> u32 \<Rightarrow> u32 \<Rightarrow> bool" where
  "gap h i pre a post req sz \<longleftrightarrow> i < length (majors h) \<and> mj_minors (majors h ! i) = pre @ post \<and>
     packed (mj_lo (majors h ! i) + 24) (pre @ \<lparr>mn_addr = a, mn_size = sz, mn_req_size = req\<rparr> # post) (mj_hi (majors h ! i))"

lemma place_block_ok:
  assumes "major_ok (majors h ! i)" and "i < length (majors h)" and sz: "unat sz + 48 < 2 ^ 32"
    and "mj_minors (majors h ! i) = [] \<Longrightarrow> unat sz + 48 \<le> unat (mj_size (majors h ! i))"
    and r: "place_block i req sz align h = Some r"
  shows "\<exists>pre a post. r = add_minor i pre a post req sz align h \<and> gap h i pre a post req sz"
proof -
  define maj where "maj = majors h ! i"
  define front where "front = mj_addr maj + MAJOR_SIZE"
  have ok: "mj_hi maj < 2 ^ 32" "packed (mj_lo maj + 24) (mj_minors maj) (mj_hi maj)"
    using assms(1) by (auto simp: major_ok_def maj_def)
  from ok(2) have "mj_lo maj + 24 \<le> mj_hi maj" by (rule packed_le)
  with ok(1) have uf: "unat front = mj_lo maj + 24"
    by (simp add: front_def mj_lo_def mj_hi_def u32_add)
  have us: "unat (mj_addr maj + mj_size maj) = mj_hi maj"
    using ok(1) by (simp add: mj_hi_def u32_add)
  have us24: "unat (sz + MINOR_SIZE) = unat sz + 24" using sz by (subst u32_add) auto
  show ?thesis
  proof (cases "mj_minors maj")
    case Nil
    with r have "r = add_minor i [] front [] req sz align h"
      by (simp add: place_block_def maj_def front_def Let_def)
    moreover have "gap h i [] front [] req sz"
      using Nil assms(2,4) uf by (simp add: gap_def maj_def mn_lo_def mn_hi_def mj_hi_def mj_lo_def)
    ultimately show ?thesis by blast
  next
    case (Cons m ms)
    have m: "mj_lo maj + 24 \<le> mn_lo m" using ok(2) Cons by simp
    show ?thesis
    proof (cases "sz + MINOR_SIZE \<le> mn_addr m - mj_addr maj - MAJOR_SIZE")
      case True
      have "unat (mn_addr m - mj_addr maj) = mn_lo m - mj_lo maj"
        using m by (subst u32_sub) (auto simp: word_le_nat_alt mn_lo_def mj_lo_def)
      then have "unat (mn_addr m - mj_addr maj - MAJOR_SIZE) = mn_lo m - mj_lo maj - 24"
        using m by (subst u32_sub) (auto simp: word_le_nat_alt)
      with True have "unat sz + 24 \<le> mn_lo m - mj_lo maj - 24" by (simp add: word_le_nat_alt us24)
      moreover from True Cons r have "r = add_minor i [] front (m # ms) req sz align h"
        by (simp add: place_block_def maj_def front_def Let_def)
      moreover have "packed (mn_hi m) ms (mj_hi maj)" using ok(2) Cons by simp
      ultimately show ?thesis using Cons assms(2) uf m
        by (intro exI [of _ "[]"] exI [of _ front] exI [of _ "m # ms"])
          (auto simp: gap_def maj_def mn_lo_def [of "\<lparr>mn_addr = front, mn_size = sz, mn_req_size = req\<rparr>"]
            mn_hi_def [of "\<lparr>mn_addr = front, mn_size = sz, mn_req_size = req\<rparr>"])
    next
      case False
      with Cons r obtain pre a post where g: "find_gap (mj_addr maj + mj_size maj) sz (m # ms) = Some (pre, a, post)"
        and "r = add_minor i pre a post req sz align h"
        by (auto simp: place_block_def maj_def Let_def split: option.splits simp del: find_gap.simps)
      moreover have "m # ms = pre @ post \<and>
          packed (mj_lo maj + 24) (pre @ \<lparr>mn_addr = a, mn_size = sz, mn_req_size = req\<rparr> # post) (mj_hi maj)"
        using find_gap_ok [OF g, of "mj_lo maj + 24" req] ok(2) Cons sz us by simp
      ultimately show ?thesis using assms(2) Cons by (auto simp: gap_def maj_def)
    qed
  qed
qed

lemma ceil_pages:
  fixes x :: nat
  shows "x \<le> (if x mod 4096 = 0 then x div 4096 else x div 4096 + 1) * 4096"
    and "(if x mod 4096 = 0 then x div 4096 else x div 4096 + 1) * 4096 < x + 4096"
proof -
  have "x mod 4096 < 4096" by simp
  then show "x \<le> (if x mod 4096 = 0 then x div 4096 else x div 4096 + 1) * 4096"
    and "(if x mod 4096 = 0 then x div 4096 else x div 4096 + 1) * 4096 < x + 4096"
    using div_mult_mod_eq [of x 4096] by (cases "x mod 4096 = 0"; simp; linarith)+
qed

lemma pages_for_ok:
  assumes "unat sz + 4144 \<le> 2 ^ 32"
  shows "unat sz + 48 \<le> unat (pages_for sz * l_pageSize) \<and>
    unat (pages_for sz * l_pageSize) = unat (pages_for sz) * 4096"
proof -
  define st where "st = sz + MAJOR_SIZE + MINOR_SIZE"
  have st: "unat st = unat sz + 48"
    unfolding st_def using assms by (subst u32_add; subst u32_add) auto
  define n where "n = (if st mod l_pageSize = 0 then st div l_pageSize else st div l_pageSize + 1)"
  have d: "unat (st div l_pageSize) = unat st div 4096"
    by (simp add: unat_div_distrib l_pageSize_def)
  have z: "(st mod l_pageSize = 0) = (unat st mod 4096 = 0)"
    by (simp add: word_zero_iff unat_mod_distrib l_pageSize_def)
  have "unat (st div l_pageSize + 1) = unat st div 4096 + 1"
    using d st assms by (subst u32_add) auto
  with d z have un: "unat n = (if unat st mod 4096 = 0 then unat st div 4096 else unat st div 4096 + 1)"
    by (simp add: n_def)
  have n1: "unat st \<le> unat n * 4096" and "unat n * 4096 < unat st + 4096"
    unfolding un by (rule ceil_pages)+
  then have n2: "unat n * 4096 < 4294967296" using st assms by simp
  have p: "pages_for sz = (if n < l_pageCount then l_pageCount else n)"
    by (simp add: pages_for_def st_def n_def Let_def)
  have "unat (pages_for sz) * 4096 < 4294967296 \<and> unat sz + 48 \<le> unat (pages_for sz) * 4096"
  proof (cases "n < l_pageCount")
    case True
    then have "unat n < 16" by (simp add: word_less_nat_alt l_pageCount_def)
    with True n1 st show ?thesis by (simp add: p l_pageCount_def)
  qed (use n1 n2 st in \<open>simp add: p\<close>)
  then show ?thesis by (simp add: unat_word_ariths l_pageSize_def)
qed

text \<open>What the allocator needs of the system: the pages it gets are a range of addresses, and not in use.\<close>

definition fresh_pages :: "'s page_calls \<Rightarrow> 's heap_allocator \<Rightarrow> bool" where
  "fresh_pages ops h \<longleftrightarrow> (\<forall>n a s. sys_alloc_pages ops (heap_sys h) n = (a, s) \<and> a \<noteq> 0 \<longrightarrow>
     unat a + unat n * 4096 < 2 ^ 32 \<and>
     (\<forall>m \<in> set (majors h). mj_hi m \<le> unat a \<or> unat a + unat n * 4096 \<le> mj_lo m))"

lemma points_to_cong:
  "align_words h' = align_words h \<Longrightarrow> points_to h' p m = points_to h p m"
  by (simp add: points_to_def unalign_def)

lemma heap_inv_best_bet:
  "heap_inv h \<Longrightarrow> b \<in> mj_addr ` set (majors h) \<Longrightarrow> heap_inv (h\<lparr>best_bet := Some b\<rparr>)"
  by (auto simp: heap_inv_def all_minors_def points_to_def unalign_def)

section \<open>The search\<close>

definition searched :: "'s heap_allocator \<Rightarrow> 's heap_allocator \<Rightarrow> bool" where
  "searched h h1 \<longleftrightarrow> align_words h1 = align_words h \<and> magics h1 = magics h \<and> heap_bytes h1 = heap_bytes h \<and>
     l_inuse h1 = l_inuse h \<and>
     (majors h1 = majors h \<and> l_allocated h1 = l_allocated h \<or>
      (\<exists>m. majors h1 = majors h @ [m] \<and> mj_minors m = [] \<and> l_allocated h1 = l_allocated h + ucast (mj_size m)))"

lemma searched_refl: "searched h h"
  by (simp add: searched_def)

lemma searched_best_bet: "searched (h\<lparr>best_bet := b\<rparr>) h1 \<longleftrightarrow> searched h h1"
  by (simp add: searched_def)

definition fresh_major :: "major_block \<Rightarrow> u32 \<Rightarrow> bool" where
  "fresh_major m sz \<longleftrightarrow> major_ok m \<and> mj_minors m = [] \<and> unat sz + 48 \<le> unat (mj_size m)"

text \<open>The result of a search: nothing and no new major, or a gap.\<close>

definition found :: "'s heap_allocator \<Rightarrow> u32 \<Rightarrow> u32 \<Rightarrow> u32 \<Rightarrow> u32 \<times> 's heap_allocator \<Rightarrow> bool" where
  "found h req sz align r \<longleftrightarrow> (\<exists>h1. searched h h1 \<and> heap_inv h1 \<and>
     (r = (0, h1) \<and> majors h1 = majors h \<or>
      (\<exists>i pre a post. r = add_minor i pre a post req sz align h1 \<and> gap h1 i pre a post req sz \<and>
         (\<forall>k < length (majors h1). k \<noteq> i \<longrightarrow> mj_minors (majors h1 ! k) \<noteq> []))))"

lemma foundI:
  "searched h h1 \<Longrightarrow> heap_inv h1 \<Longrightarrow> r = add_minor i pre a post req sz align h1 \<Longrightarrow> gap h1 i pre a post req sz \<Longrightarrow>
   (\<And>k. k < length (majors h1) \<Longrightarrow> k \<noteq> i \<Longrightarrow> mj_minors (majors h1 ! k) \<noteq> []) \<Longrightarrow> found h req sz align r"
  unfolding found_def by blast

lemma heap_inv_nth: "heap_inv h \<Longrightarrow> i < length (majors h) \<Longrightarrow> major_ok (majors h ! i)"
  by (simp add: heap_inv_def)

lemma allocate_new_page_ok:
  assumes "heap_inv h" and "fresh_pages ops h" and sz: "unat sz + 4144 \<le> 2 ^ 32"
    and r: "allocate_new_page ops sz h = (m, h1)"
  shows "(\<forall>x. m = Some x \<longrightarrow> fresh_major x sz \<and> heap_inv (h1\<lparr>majors := majors h @ [x]\<rparr>) \<and>
      searched h (h1\<lparr>majors := majors h @ [x]\<rparr>)) \<and>
    (m = None \<longrightarrow> heap_inv h1 \<and> searched h h1 \<and> majors h1 = majors h)"
proof -
  obtain a s where as: "sys_alloc_pages ops (heap_sys h) (pages_for sz) = (a, s)" by fastforce
  from pages_for_ok [OF sz] have size: "unat sz + 48 \<le> unat (pages_for sz * l_pageSize)"
    "unat (pages_for sz * l_pageSize) = unat (pages_for sz) * 4096" by auto
  show ?thesis
  proof (cases "a = 0")
    case True
    with as r have "m = None" "h1 = h\<lparr>heap_sys := s, warnings := warnings h + 1\<rparr>"
      by (auto simp: allocate_new_page_def Let_def)
    with assms(1) show ?thesis
      by (auto simp: heap_inv_def all_minors_def points_to_def unalign_def searched_def)
  next
    case False
    define x where "x = \<lparr>mj_addr = a, mj_pages = pages_for sz, mj_size = pages_for sz * l_pageSize,
      mj_usage = MAJOR_SIZE, mj_minors = []\<rparr>"
    from False as r have m: "m = Some x"
      and h1: "h1 = h\<lparr>heap_sys := s, l_allocated := l_allocated h + ucast (pages_for sz * l_pageSize)\<rparr>"
      by (auto simp: allocate_new_page_def x_def Let_def)
    from False as assms(2) have f: "unat a + unat (pages_for sz) * 4096 < 2 ^ 32"
      "\<forall>m \<in> set (majors h). mj_hi m \<le> unat a \<or> unat a + unat (pages_for sz) * 4096 \<le> mj_lo m"
      unfolding fresh_pages_def by blast+
    then have x: "fresh_major x sz"
      using False size by (simp add: fresh_major_def major_ok_def x_def mj_lo_def mj_hi_def)
    moreover have "majors_apart (majors h @ [x])"
      using assms(1) f(2) size(2)
      by (auto simp: heap_inv_def majors_apart_def sorted_wrt_append x_def mj_lo_def mj_hi_def)
    then have "heap_inv (h1\<lparr>majors := majors h @ [x]\<rparr>)"
      using assms(1) x unfolding heap_inv_def h1
      by (auto simp: all_minors_def points_to_def unalign_def fresh_major_def x_def)
    moreover have "searched h (h1\<lparr>majors := majors h @ [x]\<rparr>)"
      by (auto simp: searched_def h1 x_def)
    ultimately show ?thesis using m by simp
  qed
qed

lemma next_major_ok:
  assumes "heap_inv h" and "fresh_pages ops h" and sz: "unat sz + 4144 \<le> 2 ^ 32"
  shows "next_major ops sz i started h = Full h1 \<Longrightarrow> heap_inv h1 \<and> searched h h1 \<and> majors h1 = majors h"
    and "next_major ops sz i started h = New h1 \<Longrightarrow> i < length (majors h) \<Longrightarrow> length (majors h) = i + 1 \<and>
      heap_inv h1 \<and> searched h h1 \<and> (\<exists>x. majors h1 = majors h @ [x] \<and> fresh_major x sz)"
    and "next_major ops sz i started h = Hop j started' \<Longrightarrow>
      j = i + 1 \<and> j < length (majors h) \<and> started' = started \<or> started \<and> \<not> started' \<and> j = 0"
proof -
  obtain m h' where n: "allocate_new_page ops sz h = (m, h')" by fastforce
  note ok = allocate_new_page_ok [OF assms n]
  have keep: "majors h' = majors h"
    using n by (auto simp: allocate_new_page_def Let_def split: prod.splits if_splits)
  show "next_major ops sz i started h = Full h1 \<Longrightarrow> heap_inv h1 \<and> searched h h1 \<and> majors h1 = majors h"
    using n ok by (auto simp: next_major_def split: option.splits if_splits)
  show "next_major ops sz i started h = New h1 \<Longrightarrow> i < length (majors h) \<Longrightarrow> length (majors h) = i + 1 \<and>
      heap_inv h1 \<and> searched h h1 \<and> (\<exists>x. majors h1 = majors h @ [x] \<and> fresh_major x sz)"
    using n ok keep by (auto simp: next_major_def split: option.splits if_splits)
  show "next_major ops sz i started h = Hop j started' \<Longrightarrow>
      j = i + 1 \<and> j < length (majors h) \<and> started' = started \<or> started \<and> \<not> started' \<and> j = 0"
    using n by (auto simp: next_major_def split: option.splits if_splits)
qed

text \<open>The first lines of the loop body: the heap with the better bet.\<close>

definition bet :: "nat \<Rightarrow> u32 \<Rightarrow> 's heap_allocator \<Rightarrow> 's heap_allocator" where
  "bet i best h = (if best < mj_size (majors h ! i) - mj_usage (majors h ! i)
     then h\<lparr>best_bet := Some (mj_addr (majors h ! i))\<rparr> else h)"

lemma bet_simps [simp]: "majors (bet i best h) = majors h" "heap_sys (bet i best h) = heap_sys h"
  by (simp_all add: bet_def)

lemma searched_bet: "searched (bet i best h) h1 = searched h h1"
  by (simp add: bet_def searched_best_bet)

lemma heap_inv_bet: "heap_inv h \<Longrightarrow> i < length (majors h) \<Longrightarrow> heap_inv (bet i best h)"
  by (simp add: bet_def heap_inv_best_bet)

lemma fresh_pages_bet: "fresh_pages ops (bet i best h) = fresh_pages ops h"
  by (simp add: fresh_pages_def)

lemma found_bet: "found (bet i best h) req sz align r = found h req sz align r"
  by (simp add: found_def searched_bet)

lemma malloc_search_step:
  "\<exists>best'. malloc_search ops req sz align i started best h =
     (if mj_size (majors h ! i) - mj_usage (majors h ! i) < sz + MINOR_SIZE
      then case next_major ops sz i started (bet i best h) of
             Hop j started \<Rightarrow> malloc_search ops req sz align j started best' (bet i best h)
           | Full h \<Rightarrow> Some (0, h)
           | New h \<Rightarrow> place_block (i + 1) req sz align h
      else case place_block i req sz align (bet i best h) of
             Some r \<Rightarrow> Some r
           | None \<Rightarrow>
               (case next_major ops sz i started (bet i best h) of
                  Hop j started \<Rightarrow> malloc_search ops req sz align j started best' (bet i best h)
                | Full h \<Rightarrow> Some (0, h)
                | New h \<Rightarrow> malloc_search ops req sz align (i + 1) started best' h))"
  by (subst malloc_search.simps)
    (rule exI [of _ "if best < mj_size (majors h ! i) - mj_usage (majors h ! i)
       then mj_size (majors h ! i) - mj_usage (majors h ! i) else best"],
     simp add: bet_def Let_def cong: next_major.case_cong option.case_cong)

text \<open>An empty major takes the block at once.\<close>

lemma fresh_place:
  assumes "heap_inv h" and "i < length (majors h)" and "fresh_major (majors h ! i) sz"
    and "unat sz + 4144 \<le> 2 ^ 32"
    and full: "\<And>k. k < length (majors h) \<Longrightarrow> k \<noteq> i \<Longrightarrow> mj_minors (majors h ! k) \<noteq> []"
  shows "\<exists>r. place_block i req sz align h = Some r \<and> (\<forall>h0. searched h0 h \<longrightarrow> found h0 req sz align r)"
proof -
  from assms(3) obtain r where r: "place_block i req sz align h = Some r"
    by (auto simp: place_block_def fresh_major_def Let_def)
  have "\<exists>pre a post. r = add_minor i pre a post req sz align h \<and> gap h i pre a post req sz"
    by (rule place_block_ok [OF _ assms(2) _ _ r]) (use assms(3,4) in \<open>auto simp: fresh_major_def\<close>)
  then show ?thesis using r assms(1) full foundI by blast
qed

lemma fresh_search:
  assumes "heap_inv h" and "i < length (majors h)" and "fresh_major (majors h ! i) sz"
    and sz: "unat sz + 4144 \<le> 2 ^ 32"
    and full: "\<And>k. k < length (majors h) \<Longrightarrow> k \<noteq> i \<Longrightarrow> mj_minors (majors h ! k) \<noteq> []"
  shows "\<exists>r. malloc_search ops req sz align i started best h = Some r \<and> (\<forall>h0. searched h0 h \<longrightarrow> found h0 req sz align r)"
proof -
  have "unat (mj_usage (majors h ! i)) = 24" and size: "unat sz + 48 \<le> unat (mj_size (majors h ! i))"
    using assms(3) by (auto simp: fresh_major_def major_ok_def)
  then have "unat (mj_size (majors h ! i) - mj_usage (majors h ! i)) = unat (mj_size (majors h ! i)) - 24"
    by (subst u32_sub) (auto simp: word_le_nat_alt)
  moreover have "unat (sz + MINOR_SIZE) = unat sz + 24" using sz by (subst u32_add) auto
  ultimately have room: "\<not> mj_size (majors h ! i) - mj_usage (majors h ! i) < sz + MINOR_SIZE"
    using size by (simp add: word_less_nat_alt)
  have "\<exists>r. place_block i req sz align (bet i best h) = Some r \<and>
      (\<forall>h0. searched h0 (bet i best h) \<longrightarrow> found h0 req sz align r)"
    by (rule fresh_place) (use assms in \<open>auto intro: heap_inv_bet\<close>)
  moreover have "searched h0 (bet i best h)" if "searched h0 h" for h0
    using that by (simp add: searched_def bet_def)
  moreover from malloc_search_step [of ops req sz align i started best h] room obtain best' where
    "malloc_search ops req sz align i started best h = (case place_block i req sz align (bet i best h) of
             Some r \<Rightarrow> Some r
           | None \<Rightarrow>
               (case next_major ops sz i started (bet i best h) of
                  Hop j started \<Rightarrow> malloc_search ops req sz align j started best' (bet i best h)
                | Full h \<Rightarrow> Some (0, h)
                | New h \<Rightarrow> malloc_search ops req sz align (i + 1) started best' h))" by auto
  ultimately show ?thesis by auto
qed

lemma malloc_search_ok:
  assumes "heap_inv h" and "fresh_pages ops h" and sz: "unat sz + 4144 \<le> 2 ^ 32" and "i < length (majors h)"
    and "\<forall>m \<in> set (majors h). mj_minors m \<noteq> []"
  shows "\<exists>r. malloc_search ops req sz align i started best h = Some r \<and> found h req sz align r"
  using assms
proof (induction "(if started then length (majors h) + 1 else 0) + (length (majors h) - i)"
    arbitrary: i started best h rule: less_induct)
  case less
  define h' where "h' = bet i best h"
  have h': "majors h' = majors h" "heap_inv h'" "fresh_pages ops h'"
    using less.prems by (simp_all add: h'_def heap_inv_bet fresh_pages_bet)
  have full: "mj_minors (majors h ! k) \<noteq> []" if "k < length (majors h)" for k
    using less.prems(5) that by simp
  obtain best' where step: "malloc_search ops req sz align i started best h =
     (if mj_size (majors h ! i) - mj_usage (majors h ! i) < sz + MINOR_SIZE
      then case next_major ops sz i started h' of
             Hop j started \<Rightarrow> malloc_search ops req sz align j started best' h'
           | Full h \<Rightarrow> Some (0, h)
           | New h \<Rightarrow> place_block (i + 1) req sz align h
      else case place_block i req sz align h' of
             Some r \<Rightarrow> Some r
           | None \<Rightarrow>
               (case next_major ops sz i started h' of
                  Hop j started \<Rightarrow> malloc_search ops req sz align j started best' h'
                | Full h \<Rightarrow> Some (0, h)
                | New h \<Rightarrow> malloc_search ops req sz align (i + 1) started best' h))"
    unfolding h'_def using malloc_search_step by blast
  have hop: "\<exists>r. malloc_search ops req sz align j st' best' h' = Some r \<and> found h req sz align r"
    if "next_major ops sz i started h' = Hop j st'" for j st'
  proof -
    have j: "j = i + 1 \<and> j < length (majors h) \<and> st' = started \<or> started \<and> \<not> st' \<and> j = 0"
      using next_major_ok(3) [OF h'(2,3) sz that] h'(1) by simp
    have "\<exists>r. malloc_search ops req sz align j st' best' h' = Some r \<and> found h' req sz align r"
      by (rule less.hyps) (use j h' less.prems in auto)
    then show ?thesis by (simp add: h'_def found_bet)
  qed
  have stop: "found h req sz align (0, h1)" if "next_major ops sz i started h' = Full h1" for h1
    using next_major_ok(1) [OF h'(2,3) sz that] h'(1) unfolding found_def by (auto simp: h'_def searched_bet)
  have new: "majors h1 = majors h @ [x] \<Longrightarrow> fresh_major x sz \<Longrightarrow> heap_inv h1 \<Longrightarrow> searched h h1 \<Longrightarrow>
      length (majors h) = i + 1 \<Longrightarrow>
      (\<exists>r. place_block (i + 1) req sz align h1 = Some r \<and> found h req sz align r) \<and>
      (\<exists>r. malloc_search ops req sz align (i + 1) started best' h1 = Some r \<and> found h req sz align r)"
    for h1 x
    using fresh_place [of h1 "i + 1" sz req align] fresh_search [of h1 "i + 1" sz ops req align started best'] sz full
    by (fastforce simp: nth_append)
  have grow: "(\<exists>r. place_block (i + 1) req sz align h1 = Some r \<and> found h req sz align r) \<and>
      (\<exists>r. malloc_search ops req sz align (i + 1) started best' h1 = Some r \<and> found h req sz align r)"
    if "next_major ops sz i started h' = New h1" for h1
    using next_major_ok(2) [OF h'(2,3) sz that] h'(1) less.prems(4) new by (auto simp: h'_def searched_bet)
  have placed: "found h req sz align r" if "place_block i req sz align h' = Some r" for r
  proof -
    have "\<exists>pre a post. r = add_minor i pre a post req sz align h' \<and> gap h' i pre a post req sz"
      by (rule place_block_ok [OF _ _ _ _ that]) (use h' less.prems full sz in \<open>auto simp: heap_inv_nth\<close>)
    then show ?thesis using h' full searched_refl [of h] by (metis (no_types) foundI h'_def searched_bet searched_refl)
  qed
  show ?case
    unfolding step using hop stop grow placed by (auto split: next_major.split option.split)
qed

section \<open>Blocks stay apart\<close>

lemma sorted_wrt_sym_nth:
  assumes "sorted_wrt P xs" and "\<And>x y. P x y \<Longrightarrow> P y x" and "i < length xs" and "j < length xs" and "i \<noteq> j"
  shows "P (xs ! i) (xs ! j)"
  using assms by (cases "i < j") (auto simp: sorted_wrt_iff_nth_less dest: le_neq_implies_less)

lemma majors_apart_nth:
  assumes "majors_apart ms" and "i < length ms" and "j < length ms" and "i \<noteq> j"
  shows "mj_hi (ms ! i) \<le> mj_lo (ms ! j) \<or> mj_hi (ms ! j) \<le> mj_lo (ms ! i)"
  using sorted_wrt_sym_nth [OF assms(1) [unfolded majors_apart_def], of i j] assms(2-4) by auto

lemma majors_apart_update:
  "mj_addr m = mj_addr (ms ! i) \<Longrightarrow> mj_size m = mj_size (ms ! i) \<Longrightarrow> majors_apart (ms[i := m]) = majors_apart ms"
  unfolding majors_apart_def
  by (rule arg_cong [where f = "sorted_wrt _"], rule nth_equalityI, simp, cases "i < length ms")
    (auto simp: nth_list_update mj_lo_def mj_hi_def)

lemma map_addr_update: "mj_addr m = mj_addr (ms ! i) \<Longrightarrow> map mj_addr (ms[i := m]) = map mj_addr ms"
  by (rule nth_equalityI, simp, cases "i < length ms") (auto simp: nth_list_update)

lemma extent_bounds:
  "major_ok x \<Longrightarrow> m \<in> set (mj_minors x) \<Longrightarrow> extent m \<subseteq> {mj_lo x + 24..<mj_hi x}"
  by (auto simp: major_ok_def extent_def dest!: packed_member)

lemma extents_of_majors:
  assumes "majors_apart ms" and "\<forall>x \<in> set ms. major_ok x" and "i < length ms" and "j < length ms" and "i \<noteq> j"
    and "k \<in> set (mj_minors (ms ! i))" and "m \<in> set (mj_minors (ms ! j))"
  shows "extent k \<inter> extent m = {}"
proof -
  have "extent k \<subseteq> {mj_lo (ms ! i) + 24..<mj_hi (ms ! i)}" "extent m \<subseteq> {mj_lo (ms ! j) + 24..<mj_hi (ms ! j)}"
    using assms extent_bounds nth_mem by blast+
  then show ?thesis using majors_apart_nth [OF assms(1,3,4,5)] by fastforce
qed

lemma extent_nonempty: "mn_lo m \<in> extent m"
  using mn_hi_lo [of m] by (simp add: extent_def)

lemma points_to_extent:
  assumes "points_to h p m"
  shows "unat (p - 4) \<in> extent m"
proof -
  have "unat p < 2 ^ 32" by (rule unat_u32_bound)
  with assms have "unat (p - 4) = unat p - 4"
    by (subst u32_sub) (auto simp: word_le_nat_alt points_to_def)
  then show ?thesis using assms by (auto simp: points_to_def extent_def)
qed

section \<open>Adding a block\<close>

lemma align_up_ok:
  fixes ptr :: u32
  assumes "align_up ptr (2 ^ k) = (p, off)" and "k < 32" and fit: "unat ptr + 4 + 2 ^ k \<le> 2 ^ 32"
  shows "unat p = unat ptr + 4 + unat off \<and> unat off < 2 ^ k \<and> 2 ^ k dvd unat p \<and> p - (off + 4) = ptr"
proof -
  define nptr where "nptr = ptr + ALIGN_SIZE"
  have "(1 :: nat) \<le> 2 ^ k" by simp
  moreover from fit have "unat ptr + 4 + 2 ^ k \<le> 4294967296" by simp
  ultimately have "unat ptr + 4 < 4294967296" by linarith
  then have un: "unat nptr = unat ptr + 4" unfolding nptr_def by (subst u32_add) auto
  have ua: "unat (2 ^ k :: u32) = 2 ^ k" using assms(2) by simp
  have ud: "unat (nptr AND (2 ^ k - 1)) = unat nptr mod 2 ^ k" by (rule unat_bit_mask)
  have off: "off = (if nptr AND (2 ^ k - 1) \<noteq> 0 then 2 ^ k - (nptr AND (2 ^ k - 1)) else 0)" and p: "p = nptr + off"
    using assms(1) by (auto simp: align_up_def nptr_def Let_def)
  have "unat nptr mod 2 ^ k < 2 ^ k" by simp
  then have uo: "unat off = (if unat nptr mod 2 ^ k \<noteq> 0 then 2 ^ k - unat nptr mod 2 ^ k else 0)"
    unfolding off using ud ua by (auto simp: word_zero_iff u32_sub word_le_nat_alt)
  have lt: "unat off < 2 ^ k" unfolding uo by simp
  with fit un have up: "unat p = unat nptr + unat off" unfolding p by (intro u32_add) simp
  have "2 ^ k dvd unat nptr + unat off"
  proof (cases "unat nptr mod 2 ^ k = 0")
    case False
    then have "unat nptr + unat off = unat nptr div 2 ^ k * 2 ^ k + 2 ^ k"
      using div_mult_mod_eq [of "unat nptr" "2 ^ k"] \<open>unat nptr mod 2 ^ k < 2 ^ k\<close> unfolding uo by simp
    then show ?thesis by simp
  qed (use uo in auto)
  moreover have "p - (off + 4) = ptr" by (simp add: p nptr_def ALIGN_SIZE_def)
  ultimately show ?thesis using up un lt by simp
qed

lemma gap_major_ok:
  assumes "heap_inv h" and "gap h i pre a post req sz" and "unat sz + 4144 \<le> 2 ^ 32"
  shows "major_ok ((majors h ! i)\<lparr>mj_minors := pre @ \<lparr>mn_addr = a, mn_size = sz, mn_req_size = req\<rparr> # post,
           mj_usage := mj_usage (majors h ! i) + (sz + MINOR_SIZE)\<rparr>)"
proof -
  define x where "x = majors h ! i"
  let ?new = "\<lparr>mn_addr = a, mn_size = sz, mn_req_size = req\<rparr>"
  have ok: "major_ok x" and min: "mj_minors x = pre @ post"
    and pk: "packed (mj_lo x + 24) (pre @ ?new # post) (mj_hi x)"
    using assms(1,2) by (auto simp: gap_def x_def heap_inv_nth)
  have "24 + occupied (pre @ ?new # post) \<le> mj_hi x - mj_lo x"
    using packed_occupied [OF pk] packed_le [OF pk] by simp
  moreover have "mn_hi ?new - mn_lo ?new = 24 + unat sz" by (simp add: mn_hi_def mn_lo_def)
  moreover have "mj_hi x < 4294967296" using ok by (simp add: major_ok_def)
  ultimately have "24 + occupied (pre @ post) + (24 + unat sz) < 2 ^ 32" by simp
  moreover have "unat (sz + MINOR_SIZE) = unat sz + 24" using assms(3) by (subst u32_add) auto
  ultimately have "unat (mj_usage x + (sz + MINOR_SIZE)) = 24 + occupied (pre @ post) + (24 + unat sz)"
    using ok min by (subst u32_add) (auto simp: major_ok_def)
  then show ?thesis
    using ok pk min by (simp add: major_ok_def x_def [symmetric] mj_lo_def mj_hi_def mn_lo_def mn_hi_def)
qed

lemma gap_extents:
  assumes "heap_inv h" and g: "gap h i pre a post req sz" and k: "k \<in> set (all_minors h)"
  shows "extent k \<inter> extent \<lparr>mn_addr = a, mn_size = sz, mn_req_size = req\<rparr> = {}"
proof -
  let ?new = "\<lparr>mn_addr = a, mn_size = sz, mn_req_size = req\<rparr>"
  let ?x = "majors h ! i"
  have i: "i < length (majors h)" "mj_minors ?x = pre @ post"
    and pk: "packed (mj_lo ?x + 24) (pre @ ?new # post) (mj_hi ?x)"
    using g by (auto simp: gap_def)
  from k obtain x where "x \<in> set (majors h)" and kx: "k \<in> set (mj_minors x)" by (auto simp: all_minors_def)
  then obtain j where j: "j < length (majors h)" "k \<in> set (mj_minors (majors h ! j))"
    by (auto simp: in_set_conv_nth [of x])
  show ?thesis
  proof (cases "j = i")
    case True
    with j(2) i(2) show ?thesis using extent_apart [OF pk, of k] by simp
  next
    case False
    have "extent ?new \<subseteq> {mj_lo ?x + 24..<mj_hi ?x}"
      using packed_member [OF pk, of ?new] by (auto simp: extent_def)
    moreover have "extent k \<subseteq> {mj_lo (majors h ! j) + 24..<mj_hi (majors h ! j)}"
      using assms(1) j by (intro extent_bounds) (auto simp: heap_inv_nth)
    moreover have "mj_hi (majors h ! i) \<le> mj_lo (majors h ! j) \<or> mj_hi (majors h ! j) \<le> mj_lo (majors h ! i)"
      using majors_apart_nth [of "majors h" i j] assms(1) i(1) j(1) False by (simp add: heap_inv_def)
    ultimately show ?thesis by fastforce
  qed
qed

lemma all_minors_gap:
  assumes "gap h i pre a post req sz"
  shows "set (all_minors (h\<lparr>majors := (majors h)[i := (majors h ! i)\<lparr>mj_minors := pre @ m # post, mj_usage := u\<rparr>]\<rparr>)) =
    insert m (set (all_minors h))"
proof -
  have i: "i < length (majors h)" "mj_minors (majors h ! i) = pre @ post" using assms by (auto simp: gap_def)
  have "set (concat (map mj_minors (majors h))) =
      set (concat (map mj_minors (take i (majors h) @ majors h ! i # drop (Suc i) (majors h))))"
    using id_take_nth_drop [OF i(1)] by simp
  then show ?thesis
    unfolding all_minors_def using i by (auto simp: upd_conv_take_nth_drop)
qed

lemma heap_ok_nonempty: "heap_ok h \<Longrightarrow> i < length (majors h) \<Longrightarrow> mj_minors (majors h ! i) \<noteq> []"
  by (simp add: heap_ok_def)

lemma add_minor_ok:
  assumes inv: "heap_inv h" and g: "gap h i pre a post req sz"
    and sz: "unat sz = unat req + 3 + 2 ^ k" "unat sz + 4144 \<le> 2 ^ 32" and k: "k < 32"
    and full: "\<And>j. j < length (majors h) \<Longrightarrow> j \<noteq> i \<Longrightarrow> mj_minors (majors h ! j) \<noteq> []"
    and r: "add_minor i pre a post req sz (2 ^ k) h = (p, h')"
  defines "m \<equiv> \<lparr>mn_addr = a, mn_size = sz, mn_req_size = req\<rparr>"
  shows "heap_ok h' \<and> 2 ^ k dvd unat p \<and> p \<noteq> 0 \<and> owns h' p m \<and> magics h' a = LIBALLOC_MAGIC \<and>
    set (all_minors h') = insert m (set (all_minors h)) \<and> heap_bytes h' = heap_bytes h \<and>
    (\<forall>q n. owns h q n \<longrightarrow> owns h' q n)"
proof -
  define x where "x = (majors h ! i)\<lparr>mj_minors := pre @ m # post, mj_usage := mj_usage (majors h ! i) + (sz + MINOR_SIZE)\<rparr>"
  obtain off where al: "align_up (a + MINOR_SIZE) (2 ^ k) = (p, off)"
    using r by (auto simp: add_minor_def Let_def split: prod.splits)
  have h': "h' = h\<lparr>majors := (majors h)[i := x], magics := (magics h)(a := LIBALLOC_MAGIC),
      l_inuse := l_inuse h + ucast sz, align_words := (align_words h)(p - ALIGN_SIZE := off)\<rparr>"
    using r al by (simp add: add_minor_def x_def m_def Let_def)
  have i: "i < length (majors h)" using g by (simp add: gap_def)
  have pk: "packed (mj_lo (majors h ! i) + 24) (pre @ m # post) (mj_hi (majors h ! i))"
    using g by (simp add: gap_def m_def)
  have "mj_hi (majors h ! i) < 2 ^ 32" using inv i by (auto dest!: heap_inv_nth simp: major_ok_def)
  with packed_member [OF pk, of m] have bound: "mn_hi m < 2 ^ 32" by simp
  then have fit: "unat a + 24 + unat sz < 2 ^ 32" by (simp add: mn_hi_def m_def)
  then have a24: "unat (a + MINOR_SIZE) = unat a + 24" by (subst u32_add) auto
  have "unat (a + MINOR_SIZE) + 4 + 2 ^ k \<le> 2 ^ 32" using fit sz(1) a24 by simp
  from align_up_ok [OF al k this] have p: "unat p = unat a + 28 + unat off" "unat off < 2 ^ k" "2 ^ k dvd unat p"
    "p - (off + 4) = a + MINOR_SIZE" using a24 by auto
  have same: "all_minors h' = all_minors (h\<lparr>majors := (majors h)[i := x]\<rparr>)" by (simp add: h' all_minors_def)
  have minors: "set (all_minors h') = insert m (set (all_minors h))"
    unfolding same x_def by (rule all_minors_gap [OF g])
  have pm: "points_to h' p m"
    using p sz by (simp add: points_to_def unalign_def h' ALIGN_SIZE_def m_def MINOR_SIZE_def mn_lo_def mn_hi_def)
  have pn: "points_to h' q n" if "points_to h q n" "n \<in> set (all_minors h)" for q n
  proof -
    have "unat (q - 4) \<in> extent n" "unat (p - 4) \<in> extent m" using that(1) pm by (blast intro: points_to_extent)+
    then have "q - ALIGN_SIZE \<noteq> p - ALIGN_SIZE"
      using gap_extents [OF inv g that(2)] by (auto simp: m_def ALIGN_SIZE_def)
    with that(1) show ?thesis by (simp add: points_to_def unalign_def h')
  qed
  have "heap_ok h'"
    unfolding heap_ok_def heap_inv_def
  proof (intro conjI ballI allI impI)
    fix y assume "y \<in> set (majors h')"
    then have "y = x \<or> y \<in> set (majors h)" using set_update_subset_insert [of "majors h" i x] by (auto simp: h')
    then show "major_ok y"
      using gap_major_ok [OF inv g sz(2)] inv by (auto simp: x_def m_def heap_inv_def)
  next
    show "majors_apart (majors h')" using inv by (simp add: h' x_def majors_apart_update heap_inv_def)
  next
    fix b assume b: "best_bet h' = Some b"
    have "mj_addr ` set (majors h') = mj_addr ` set (majors h)"
      by (simp add: h' x_def map_addr_update flip: set_map)
    with b inv show "b \<in> mj_addr ` set (majors h')" by (simp add: heap_inv_def h')
  next
    fix n assume n: "n \<in> set (all_minors h')"
    then show "magics h' (mn_addr n) = LIBALLOC_MAGIC"
      using inv minors by (auto simp: h' heap_inv_def m_def)
    show "\<exists>q. points_to h' q n"
    proof (cases "n = m")
      case False
      with n minors have old: "n \<in> set (all_minors h)" by simp
      with inv obtain q where "points_to h q n" unfolding heap_inv_def by blast
      then have "points_to h' q n" by (rule pn) (rule old)
      then show ?thesis ..
    qed (use pm in blast)
  next
    fix y assume "y \<in> set (majors h')"
    then obtain j where "j < length (majors h)" "y = (majors h)[i := x] ! j" by (auto simp: h' in_set_conv_nth)
    then show "mj_minors y \<noteq> []" using full [of j] i by (cases "j = i") (auto simp: x_def)
  qed
  moreover have "p \<noteq> 0" using p(1) by (auto simp: word_zero_iff)
  ultimately show ?thesis using p(3) minors pm pn by (auto simp: owns_def h')
qed

lemma major_index_ok: "b \<in> mj_addr ` set ms \<Longrightarrow> \<exists>i. major_index b ms = Some i \<and> i < length ms"
  by (induction ms) auto

lemma start_at_ok:
  assumes "heap_inv h" and "majors h \<noteq> []"
  shows "\<exists>i started best. start_at sz h = Some (i, started, best) \<and> i < length (majors h)"
proof (cases "best_bet h")
  case (Some b)
  with assms(1) obtain i where "major_index b (majors h) = Some i" "i < length (majors h)"
    using major_index_ok [of b "majors h"] by (auto simp: heap_inv_def)
  with Some assms(2) show ?thesis by (auto simp: start_at_def Let_def)
next
  case None
  then have "start_at sz h = Some (0, False, 0)" by (simp add: start_at_def)
  then show ?thesis using assms(2) by auto
qed

lemma malloc_found:
  assumes "heap_ok h" and "fresh_pages ops h" and sz: "sz = req + (ALIGN_SIZE + (align - 1))" "sz \<noteq> 0"
    "unat sz + 4144 \<le> 2 ^ 32"
  shows "\<exists>r. malloc_bytes ops req align h = Some r \<and> found h req sz align r"
proof -
  have inv: "heap_inv h" using assms(1) by (simp add: heap_ok_def)
  show ?thesis
  proof (cases "majors h = []")
    case False
    then obtain i started best where st: "start_at sz h = Some (i, started, best)" "i < length (majors h)"
      using start_at_ok [OF inv, of sz] by blast
    have "\<exists>r. malloc_search ops req sz align i started best h = Some r \<and> found h req sz align r"
      by (rule malloc_search_ok) (use assms inv st in \<open>auto simp: heap_ok_def\<close>)
    with st False sz(2) show ?thesis by (subst malloc_bytes.simps) (simp add: sz(1) [symmetric])
  next
    case True
    obtain m h1 where al: "allocate_new_page ops sz h = (m, h1)" by fastforce
    note ok = allocate_new_page_ok [OF inv assms(2) sz(3) al]
    show ?thesis
    proof (cases m)
      case None
      with ok True have "found h req sz align (0, h1)" unfolding found_def by auto
      with None al True sz(2) show ?thesis by (subst malloc_bytes.simps) (simp add: sz(1) [symmetric])
    next
      case (Some x)
      define h2 where "h2 = h1\<lparr>majors := [x]\<rparr>"
      from ok Some True have h2: "fresh_major x sz" "heap_inv h2" "searched h h2" by (auto simp: h2_def)
      have "best_bet h = None" using inv True by (cases "best_bet h") (auto simp: heap_inv_def)
      then have "best_bet h2 = None" using al Some by (auto simp: allocate_new_page_def h2_def Let_def split: prod.splits if_splits)
      then have "start_at sz h2 = Some (0, False, 0)" by (simp add: start_at_def)
      moreover have "\<exists>r. malloc_search ops req sz align 0 False 0 h2 = Some r \<and>
          (\<forall>h0. searched h0 h2 \<longrightarrow> found h0 req sz align r)"
        by (rule fresh_search) (use h2 sz(3) in \<open>auto simp: h2_def\<close>)
      ultimately show ?thesis using al True Some sz(2) h2(3)
        by (subst malloc_bytes.simps) (auto simp: sz(1) [symmetric] h2_def)
    qed
  qed
qed

section \<open>Freeing a block\<close>

lemma same_address:
  assumes "heap_inv h" and "k \<in> set (all_minors h)" and "m \<in> set (all_minors h)" and "mn_addr k = mn_addr m"
  shows "k = m"
proof (rule ccontr)
  assume ne: "k \<noteq> m"
  from assms(2,3) obtain x y where x: "x \<in> set (majors h)" "k \<in> set (mj_minors x)"
    and y: "y \<in> set (majors h)" "m \<in> set (mj_minors y)" by (auto simp: all_minors_def)
  from x(1) y(1) obtain i j where i: "i < length (majors h)" "x = majors h ! i"
    and j: "j < length (majors h)" "y = majors h ! j" by (metis in_set_conv_nth)
  have "extent k \<inter> extent m = {}"
  proof (cases "i = j")
    case True
    from y(2) obtain pre post where s: "mj_minors y = pre @ m # post" by (auto simp: in_set_conv_decomp)
    have "packed (mj_lo y + 24) (pre @ m # post) (mj_hi y)"
      using assms(1) y(1) s by (auto simp: heap_inv_def major_ok_def)
    then show ?thesis by (rule extent_apart) (use x y i j s ne True in auto)
  next
    case False
    show ?thesis
      by (rule extents_of_majors [of "majors h" i j]) (use assms(1) x y i j False in \<open>auto simp: heap_inv_def\<close>)
  qed
  then show False using extent_nonempty [of k] extent_nonempty [of m] assms(4) by (simp add: mn_lo_def disjoint_iff)
qed

lemma minor_index_Some: "minor_index a ms = Some j \<Longrightarrow> j < length ms \<and> mn_addr (ms ! j) = a"
  by (induction ms arbitrary: j) (auto split: if_splits)

lemma minor_index_mem: "minor_index a ms = Some j \<Longrightarrow> a \<in> mn_addr ` set ms"
  by (metis image_eqI minor_index_Some nth_mem)

lemma minor_index_None: "minor_index a ms = None \<longleftrightarrow> a \<notin> mn_addr ` set ms"
  by (induction ms) auto

lemma find_minor_Some:
  "find_minor a ms = Some (i, j) \<Longrightarrow> i < length ms \<and> j < length (mj_minors (ms ! i)) \<and> mn_addr (mj_minors (ms ! i) ! j) = a"
  by (induction ms arbitrary: i) (auto split: option.splits dest: minor_index_Some)

lemma find_minor_None: "find_minor a ms = None \<longleftrightarrow> a \<notin> mn_addr ` (\<Union>x \<in> set ms. set (mj_minors x))"
  by (induction ms) (auto simp: minor_index_None image_Un split: option.splits dest: minor_index_mem)

lemma find_minor_ok:
  assumes "heap_inv h" and "m \<in> set (all_minors h)"
  obtains i j where "find_minor (mn_addr m) (majors h) = Some (i, j)" and "i < length (majors h)"
    and "j < length (mj_minors (majors h ! i))" and "mj_minors (majors h ! i) ! j = m"
proof (cases "find_minor (mn_addr m) (majors h)")
  case None
  then show ?thesis using assms(2) by (auto simp: find_minor_None all_minors_def)
next
  case (Some ij)
  then obtain i j where f: "find_minor (mn_addr m) (majors h) = Some (i, j)" by (cases ij) auto
  note r = find_minor_Some [OF f]
  then have "mj_minors (majors h ! i) ! j \<in> set (all_minors h)" by (auto simp: all_minors_def intro!: bexI [of _ "majors h ! i"])
  with r same_address [OF assms(1) this assms(2)] f that show ?thesis by auto
qed

lemma remove_at_append [simp]: "remove_at (length pre) (pre @ m # post) = pre @ post"
  by (simp add: remove_at_def)

lemma majors_apart_remove: "majors_apart (xs @ x # ys) \<Longrightarrow> majors_apart (xs @ ys)"
  by (auto simp: majors_apart_def sorted_wrt_append)

text \<open>The heap after the header is gone from its list, before the cleaning up.\<close>

definition cut_minor :: "nat \<Rightarrow> nat \<Rightarrow> 's heap_allocator \<Rightarrow> 's heap_allocator" where
  "cut_minor i j h = (let maj = majors h ! i; m = mj_minors maj ! j in
     h\<lparr>l_inuse := l_inuse h - ucast (mn_size m),
       majors := (majors h)[i := maj\<lparr>mj_usage := mj_usage maj - (mn_size m + MINOR_SIZE),
                                     mj_minors := remove_at j (mj_minors maj)\<rparr>],
       magics := (magics h)(mn_addr m := LIBALLOC_DEAD)\<rparr>)"

lemma cut_minor_ok:
  assumes inv: "heap_inv h" and i: "i < length (majors h)" and j: "j < length (mj_minors (majors h ! i))"
    and m: "mj_minors (majors h ! i) ! j = m"
  shows "heap_inv (cut_minor i j h) \<and> set (all_minors (cut_minor i j h)) = set (all_minors h) - {m}"
proof -
  define x where "x = majors h ! i"
  define x' where "x' = x\<lparr>mj_usage := mj_usage x - (mn_size m + MINOR_SIZE), mj_minors := remove_at j (mj_minors x)\<rparr>"
  define h1 where "h1 = cut_minor i j h"
  have h1: "majors h1 = (majors h)[i := x']" "magics h1 = (magics h)(mn_addr m := LIBALLOC_DEAD)"
    "best_bet h1 = best_bet h" "align_words h1 = align_words h"
    by (simp_all add: h1_def cut_minor_def x'_def x_def m Let_def)
  obtain pre post where s: "mj_minors x = pre @ m # post" and lp: "j = length pre"
    using id_take_nth_drop [OF j] m j by (metis length_take min.absorb4 x_def)
  have x': "mj_minors x' = pre @ post" by (simp add: x'_def s lp)
  have okx: "major_ok x" using inv i by (simp add: x_def heap_inv_nth)
  then have pk: "packed (mj_lo x + 24) (pre @ m # post) (mj_hi x)" by (simp add: major_ok_def s)
  have uu: "unat (mj_usage x) = 24 + occupied pre + (mn_hi m - mn_lo m) + occupied post"
    using okx by (simp add: major_ok_def s)
  have mm: "mn_hi m - mn_lo m = unat (mn_size m) + 24" by (simp add: mn_hi_def mn_lo_def)
  with uu unat_u32_bound [of "mj_usage x"] have "unat (mn_size m + MINOR_SIZE) = unat (mn_size m) + 24"
    by (subst u32_add) auto
  with uu mm have "unat (mj_usage x - (mn_size m + MINOR_SIZE)) = 24 + occupied pre + occupied post"
    by (subst u32_sub) (auto simp: word_le_nat_alt)
  then have okx': "major_ok x'"
    using okx packed_remove [OF pk] x' by (simp add: major_ok_def mj_lo_def mj_hi_def x'_def)
  have sp: "majors h = take i (majors h) @ x # drop (Suc i) (majors h)"
    unfolding x_def using i by (rule id_take_nth_drop)
  have old: "set (all_minors h) = insert m (set (mj_minors x') \<union> (\<Union>y \<in> set (take i (majors h) @ drop (Suc i) (majors h)). set (mj_minors y)))"
    unfolding all_minors_def by (subst sp) (auto simp: x' s)
  have new: "set (all_minors h1) = set (mj_minors x') \<union> (\<Union>y \<in> set (take i (majors h) @ drop (Suc i) (majors h)). set (mj_minors y))"
    unfolding all_minors_def h1 using i by (auto simp: upd_conv_take_nth_drop)
  have "m \<notin> set (mj_minors x')"
    using extent_apart [OF pk, of m] extent_nonempty [of m] x' by auto
  moreover have "m \<notin> set (mj_minors y)" if y: "y \<in> set (take i (majors h) @ drop (Suc i) (majors h))" for y
  proof
    assume my: "m \<in> set (mj_minors y)"
    from y obtain k where "k < length (majors h)" "k \<noteq> i" "y = majors h ! k"
      by (auto simp: in_set_conv_nth) (metis Suc_le_lessD add_Suc less_add_Suc1 less_diff_conv nat_neq_iff nth_drop add.commute)
    then have "extent m \<inter> extent m = {}"
      using extents_of_majors [of "majors h" k i m m] inv i my s by (auto simp: heap_inv_def x_def)
    then show False using extent_nonempty [of m] by auto
  qed
  ultimately have minors: "set (all_minors h1) = set (all_minors h) - {m}" unfolding old new by auto
  have "heap_inv h1"
    unfolding heap_inv_def
  proof (intro conjI ballI allI impI)
    fix y assume "y \<in> set (majors h1)"
    then show "major_ok y" using inv okx' set_update_subset_insert [of "majors h" i x'] by (auto simp: h1 heap_inv_def)
  next
    show "majors_apart (majors h1)" using inv by (simp add: h1 x'_def x_def majors_apart_update heap_inv_def)
  next
    fix b assume "best_bet h1 = Some b"
    then show "b \<in> mj_addr ` set (majors h1)"
      using inv by (simp add: heap_inv_def h1 x'_def x_def map_addr_update flip: set_map)
  next
    fix n assume n: "n \<in> set (all_minors h1)"
    then have "n \<in> set (all_minors h)" "n \<noteq> m" using minors by auto
    moreover have "m \<in> set (all_minors h)" using old by auto
    ultimately have "mn_addr n \<noteq> mn_addr m" using same_address [OF inv] by blast
    with \<open>n \<in> set (all_minors h)\<close> inv show "magics h1 (mn_addr n) = LIBALLOC_MAGIC" by (auto simp: h1 heap_inv_def)
    show "\<exists>q. points_to h1 q n"
      using \<open>n \<in> set (all_minors h)\<close> inv by (auto simp: heap_inv_def points_to_def unalign_def h1)
  qed
  with minors show ?thesis by (simp add: h1_def)
qed

lemma majors_cut_minor [simp]:
  "majors (cut_minor i j h) = (majors h)[i := (majors h ! i)\<lparr>
     mj_usage := mj_usage (majors h ! i) - (mn_size (mj_minors (majors h ! i) ! j) + MINOR_SIZE),
     mj_minors := remove_at j (mj_minors (majors h ! i))\<rparr>]"
  by (simp add: cut_minor_def Let_def)

lemma cut_minor_keeps [simp]:
  "align_words (cut_minor i j h) = align_words h" "heap_bytes (cut_minor i j h) = heap_bytes h"
  "best_bet (cut_minor i j h) = best_bet h" "l_allocated (cut_minor i j h) = l_allocated h"
  by (simp_all add: cut_minor_def Let_def)

lemma free_unfold:
  assumes "heap_inv h" and "owns h p m" and f: "find_minor (mn_addr m) (majors h) = Some (i, j)"
  shows "heap_free_bytes ops p h =
    (if remove_at j (mj_minors (majors h ! i)) = [] then Some (release_major ops i (cut_minor i j h))
     else update_best_bet i (cut_minor i j h))"
proof -
  have "unat p \<noteq> 0" and a: "unalign h p - MINOR_SIZE = mn_addr m"
    using assms(2) by (auto simp: owns_def points_to_def MINOR_SIZE_def)
  then have "p \<noteq> 0" by auto
  moreover have "magics h (mn_addr m) = LIBALLOC_MAGIC"
    using assms(1,2) by (auto simp: heap_inv_def owns_def)
  moreover from find_minor_Some [OF f] have "mn_addr (mj_minors (majors h ! i) ! j) = mn_addr m" by simp
  ultimately show ?thesis
    by (simp add: heap_free_bytes_def a f cut_minor_def Let_def)
qed

lemma update_best_bet_ok:
  assumes "heap_inv h" and "i < length (majors h)"
  shows "\<exists>b. update_best_bet i h = Some (h\<lparr>best_bet := b\<rparr>) \<and> heap_inv (h\<lparr>best_bet := b\<rparr>)"
proof (cases "best_bet h")
  case None
  then have "update_best_bet i h = Some (h\<lparr>best_bet := None\<rparr>)" "h\<lparr>best_bet := None\<rparr> = h" by (simp_all add: update_best_bet_def)
  then show ?thesis using assms(1) by metis
next
  case (Some b)
  with assms(1) obtain k where "major_index b (majors h) = Some k"
    using major_index_ok [of b "majors h"] by (auto simp: heap_inv_def)
  then have "update_best_bet i h = Some (h\<lparr>best_bet := Some (mj_addr (majors h ! i))\<rparr>) \<or>
      update_best_bet i h = Some (h\<lparr>best_bet := Some b\<rparr>)"
    using Some by (auto simp: update_best_bet_def Let_def)
  moreover have "heap_inv (h\<lparr>best_bet := Some (mj_addr (majors h ! i))\<rparr>)" "heap_inv (h\<lparr>best_bet := Some b\<rparr>)"
    using assms Some by (auto intro!: heap_inv_best_bet) (simp add: heap_inv_def)
  ultimately show ?thesis by blast
qed

lemma release_major_ok:
  assumes inv: "heap_inv h" and i: "i < length (majors h)" and e: "mj_minors (majors h ! i) = []"
  shows "heap_inv (release_major ops i h) \<and> set (all_minors (release_major ops i h)) = set (all_minors h)"
proof -
  let ?A = "take i (majors h)" and ?x = "majors h ! i" and ?B = "drop (Suc i) (majors h)"
  have sp: "majors h = ?A @ ?x # ?B" using i by (rule id_take_nth_drop)
  have m: "majors (release_major ops i h) = ?A @ ?B" by (simp add: release_major_def remove_at_def Let_def)
  have sub: "set (?A @ ?B) \<subseteq> set (majors h)" by (auto dest: in_set_takeD in_set_dropD)
  have minors: "set (all_minors (release_major ops i h)) = set (all_minors h)"
    unfolding all_minors_def m using e by (subst (3) sp) auto
  have "\<forall>b. best_bet (release_major ops i h) = Some b \<longrightarrow> b \<in> mj_addr ` set (?A @ ?B)"
  proof (intro allI impI)
    fix b assume "best_bet (release_major ops i h) = Some b"
    then have "best_bet h = Some b" "b \<noteq> mj_addr ?x" by (auto simp: release_major_def Let_def split: if_splits)
    with inv have "b \<in> mj_addr ` set (?A @ ?x # ?B)" using sp by (auto simp: heap_inv_def)
    with \<open>b \<noteq> mj_addr ?x\<close> show "b \<in> mj_addr ` set (?A @ ?B)" by auto
  qed
  moreover have "majors_apart (?A @ ?B)"
    by (rule majors_apart_remove [of _ ?x]) (use inv sp in \<open>auto simp: heap_inv_def\<close>)
  moreover have "magics (release_major ops i h) = magics h" "align_words (release_major ops i h) = align_words h"
    by (simp_all add: release_major_def Let_def)
  ultimately show ?thesis
    using inv minors sub unfolding heap_inv_def m points_to_def unalign_def by auto
qed

lemma free_ok:
  assumes "heap_ok h" and o: "owns h p m"
  shows "\<exists>h'. heap_free_bytes ops p h = Some h' \<and> heap_ok h' \<and> set (all_minors h') = set (all_minors h) - {m} \<and>
    heap_bytes h' = heap_bytes h \<and> (\<forall>q n. owns h q n \<and> n \<noteq> m \<longrightarrow> owns h' q n)"
proof -
  have inv: "heap_inv h" and full: "\<forall>x \<in> set (majors h). mj_minors x \<noteq> []" using assms(1) by (auto simp: heap_ok_def)
  have "m \<in> set (all_minors h)" using o by (simp add: owns_def)
  from find_minor_ok [OF inv this] obtain i j where f: "find_minor (mn_addr m) (majors h) = Some (i, j)"
    and i: "i < length (majors h)" and j: "j < length (mj_minors (majors h ! i))" "mj_minors (majors h ! i) ! j = m" .
  define h1 where "h1 = cut_minor i j h"
  from cut_minor_ok [OF inv i j] have h1: "heap_inv h1" "set (all_minors h1) = set (all_minors h) - {m}"
    by (auto simp: h1_def)
  have len: "length (majors h1) = length (majors h)" by (simp add: h1_def)
  have mi: "mj_minors (majors h1 ! i) = remove_at j (mj_minors (majors h ! i))" using i by (simp add: h1_def)
  have others: "mj_minors (majors h1 ! k) \<noteq> []" if "k < length (majors h)" "k \<noteq> i" for k
    using that full by (simp add: h1_def)
  show ?thesis
  proof (cases "remove_at j (mj_minors (majors h ! i)) = []")
    case True
    let ?h2 = "release_major ops i h1"
    have r: "heap_free_bytes ops p h = Some ?h2" using free_unfold [OF inv o f, of ops] True by (simp add: h1_def)
    have "heap_inv ?h2 \<and> set (all_minors ?h2) = set (all_minors h1)"
      by (rule release_major_ok) (use h1 i len mi True in auto)
    moreover have "mj_minors x \<noteq> []" if "x \<in> set (majors ?h2)" for x
    proof -
      from that have "x \<in> set (take i (majors h)) \<or> x \<in> set (drop (Suc i) (majors h))"
        by (simp add: release_major_def remove_at_def Let_def h1_def)
      then show ?thesis using full by (auto dest: in_set_takeD in_set_dropD)
    qed
    moreover have "align_words ?h2 = align_words h" "heap_bytes ?h2 = heap_bytes h"
      by (simp_all add: release_major_def Let_def h1_def)
    ultimately show ?thesis using r h1 by (auto simp: heap_ok_def owns_def points_to_def unalign_def)
  next
    case False
    from update_best_bet_ok [OF h1(1), of i] i len obtain b where
      b: "update_best_bet i h1 = Some (h1\<lparr>best_bet := b\<rparr>)" "heap_inv (h1\<lparr>best_bet := b\<rparr>)" by auto
    have r: "heap_free_bytes ops p h = Some (h1\<lparr>best_bet := b\<rparr>)" using free_unfold [OF inv o f, of ops] False b by (simp add: h1_def)
    have "mj_minors x \<noteq> []" if "x \<in> set (majors h1)" for x
    proof -
      from that obtain k where "k < length (majors h1)" "x = majors h1 ! k" by (auto simp: in_set_conv_nth)
      then show ?thesis using others [of k] False mi len by (cases "k = i") auto
    qed
    moreover have "align_words (h1\<lparr>best_bet := b\<rparr>) = align_words h" "heap_bytes (h1\<lparr>best_bet := b\<rparr>) = heap_bytes h"
      by (simp_all add: h1_def)
    ultimately show ?thesis using r b(2) h1
      by (auto simp: heap_ok_def owns_def points_to_def unalign_def all_minors_def)
  qed
qed

section \<open>Properties\<close>

lemma malloc_result:
  assumes "heap_ok h" and "fresh_pages ops h" and "k < 32" and "unat req + 2 ^ k + 4147 \<le> 2 ^ 32"
  shows "\<exists>r sz. malloc_bytes ops req (2 ^ k) h = Some r \<and> found h req sz (2 ^ k) r \<and>
    unat sz = unat req + 3 + 2 ^ k \<and> unat sz + 4144 \<le> 2 ^ 32"
proof -
  define sz :: u32 where "sz = req + (ALIGN_SIZE + (2 ^ k - 1))"
  have "(1 :: nat) \<le> 2 ^ k" by simp
  moreover have b: "unat req + 2 ^ k + 4147 \<le> 4294967296" using assms(4) by simp
  moreover have "unat (2 ^ k - 1 :: u32) = 2 ^ k - 1"
    using assms(3) by (subst u32_sub) (simp_all add: word_le_nat_alt)
  moreover from calculation have "unat (ALIGN_SIZE + (2 ^ k - 1)) = 4 + (2 ^ k - 1)"
    by (subst u32_add; simp; linarith)
  ultimately have "unat sz = unat req + (4 + (2 ^ k - 1))"
    unfolding sz_def by (subst u32_add; simp; linarith)
  then have us: "unat sz = unat req + 3 + 2 ^ k" using \<open>(1 :: nat) \<le> 2 ^ k\<close> by linarith
  then have "unat sz + 4144 \<le> 2 ^ 32" and "sz \<noteq> 0" using b by auto
  then show ?thesis using malloc_found [OF assms(1,2) _ \<open>sz \<noteq> 0\<close>, of req "2 ^ k"] us sz_def by blast
qed

definition fresh_block :: "'s heap_allocator \<Rightarrow> u32 \<Rightarrow> nat \<Rightarrow> u32 \<Rightarrow> 's heap_allocator \<Rightarrow> bool" where
  "fresh_block h req k p h' \<longleftrightarrow> 2 ^ k dvd unat p \<and>
     (\<exists>m. owns h' p m \<and> mn_req_size m = req \<and> set (all_minors h') = insert m (set (all_minors h)) \<and>
        (\<forall>n \<in> set (all_minors h). extent n \<inter> extent m = {})) \<and>
     (\<forall>q n. owns h q n \<longrightarrow> owns h' q n)"

lemma malloc_cases:
  assumes "heap_ok h" and "fresh_pages ops h" and "k < 32" and "unat req + 2 ^ k + 4147 \<le> 2 ^ 32"
  obtains (null) h' where "malloc_bytes ops req (2 ^ k) h = Some (0, h')" "searched h h'" "majors h' = majors h" "heap_ok h'"
  | (block) p h' sz h1 i pre a post where "malloc_bytes ops req (2 ^ k) h = Some (p, h')" "searched h h1" "heap_inv h1"
      "gap h1 i pre a post req sz" "add_minor i pre a post req sz (2 ^ k) h1 = (p, h')"
      "unat sz = unat req + 3 + 2 ^ k" "unat sz + 4144 \<le> 2 ^ 32"
      "\<And>j. j < length (majors h1) \<Longrightarrow> j \<noteq> i \<Longrightarrow> mj_minors (majors h1 ! j) \<noteq> []" "p \<noteq> 0" "heap_ok h'"
proof -
  from malloc_result [OF assms] obtain p h' sz where r: "malloc_bytes ops req (2 ^ k) h = Some (p, h')"
    and f: "found h req sz (2 ^ k) (p, h')" and sz: "unat sz = unat req + 3 + 2 ^ k" "unat sz + 4144 \<le> 2 ^ 32" by fast
  from f consider "searched h h'" "p = 0" "majors h' = majors h" "heap_inv h'"
    | h1 i pre a post where "searched h h1" "heap_inv h1" "gap h1 i pre a post req sz"
      "add_minor i pre a post req sz (2 ^ k) h1 = (p, h')"
      "\<forall>j < length (majors h1). j \<noteq> i \<longrightarrow> mj_minors (majors h1 ! j) \<noteq> []"
    unfolding found_def by fastforce
  then show ?thesis
  proof cases
    case 1
    then show ?thesis using null [of h'] r assms(1) by (simp add: heap_ok_def)
  next
    case 2
    with add_minor_ok [OF 2(2,3) sz assms(3) _ 2(4)] show ?thesis using block [OF r 2(1-4) sz] by blast
  qed
qed

lemma malloc_ok:
  assumes "heap_ok h" and "fresh_pages ops h" and "k < 32" and "unat req + 2 ^ k + 4147 \<le> 2 ^ 32"
  shows "\<exists>p h'. malloc_bytes ops req (2 ^ k) h = Some (p, h') \<and> heap_ok h' \<and> heap_bytes h' = heap_bytes h \<and>
    (p = 0 \<longrightarrow> majors h' = majors h) \<and> (p \<noteq> 0 \<longrightarrow> fresh_block h req k p h')"
  using assms
proof (cases rule: malloc_cases)
  case (null h')
  then show ?thesis by (simp add: searched_def)
next
  case (block p h' sz h1 i pre a post)
  have same: "set (all_minors h1) = set (all_minors h)" "heap_bytes h1 = heap_bytes h"
    and own: "owns h q n \<longleftrightarrow> owns h1 q n" for q n
    using block(2) by (auto simp: searched_def all_minors_def owns_def points_to_def unalign_def)
  have "fresh_block h req k p h'" and "heap_bytes h' = heap_bytes h"
    using add_minor_ok [OF block(3,4,6,7) assms(3) block(8) block(5)] gap_extents [OF block(3,4)] same own
    unfolding fresh_block_def by (auto intro!: exI [of _ "\<lparr>mn_addr = a, mn_size = sz, mn_req_size = req\<rparr>"])
  with block show ?thesis by simp
qed

text \<open>C9: malloc never overlaps blocks. On any heap whose blocks are apart, with pages of the system that are
  not in use, the call returns: either null, with the blocks as they were, or an aligned pointer that
  owns a new block of the size asked for, which shares no byte with any other block; the other pointers
  keep their blocks, and no byte of memory changes.\<close>

theorem malloc_block:
  assumes "heap_ok h" and "fresh_pages ops h" and "k < 32" and "unat req + 2 ^ k + 4147 \<le> 2 ^ 32"
  shows "\<exists>p h'. malloc_bytes ops req (2 ^ k) h = Some (p, h') \<and> heap_ok h' \<and> heap_bytes h' = heap_bytes h \<and>
    (p = 0 \<longrightarrow> majors h' = majors h) \<and>
    (p \<noteq> 0 \<longrightarrow> 2 ^ k dvd unat p \<and>
      (\<exists>m. owns h' p m \<and> mn_req_size m = req \<and> set (all_minors h') = insert m (set (all_minors h)) \<and>
         (\<forall>n \<in> set (all_minors h). extent n \<inter> extent m = {})) \<and>
      (\<forall>q n. owns h q n \<longrightarrow> owns h' q n))"
  using malloc_ok [OF assms] unfolding fresh_block_def .

text \<open>C10: freeing a block keeps the heap sound: a pointer that owns a block is found, exactly this block goes
  (and its major with its last one), and every other pointer keeps its block and its bytes.\<close>

theorem free_block:
  assumes "heap_ok h" and "owns h p m"
  shows "\<exists>h'. heap_free_bytes ops p h = Some h' \<and> heap_ok h' \<and> set (all_minors h') = set (all_minors h) - {m} \<and>
    heap_bytes h' = heap_bytes h \<and> (\<forall>q n. owns h q n \<and> n \<noteq> m \<longrightarrow> owns h' q n)"
  using assms by (rule free_ok)

lemma packed_distinct: "packed lo ms hi \<Longrightarrow> distinct ms"
proof (induction ms arbitrary: lo)
  case (Cons m ms)
  have "m \<notin> set ms"
    using packed_member [of "mn_hi m" ms hi m] Cons.prems mn_hi_lo [of m] by auto
  with Cons show ?case by auto
qed simp

lemma find_minor_at:
  assumes "heap_inv h" and "i < length (majors h)" and "j < length (mj_minors (majors h ! i))"
  shows "find_minor (mn_addr (mj_minors (majors h ! i) ! j)) (majors h) = Some (i, j)"
proof -
  define m where "m = mj_minors (majors h ! i) ! j"
  have m: "m \<in> set (mj_minors (majors h ! i))" using assms(3) by (simp add: m_def)
  then have "m \<in> set (all_minors h)" using assms(2) by (auto simp: all_minors_def intro!: bexI [of _ "majors h ! i"])
  from find_minor_ok [OF assms(1) this] obtain i' j' where f: "find_minor (mn_addr m) (majors h) = Some (i', j')"
    and i': "i' < length (majors h)" and j': "j' < length (mj_minors (majors h ! i'))" "mj_minors (majors h ! i') ! j' = m" .
  have "i' = i"
  proof (rule ccontr)
    assume "i' \<noteq> i"
    then have "extent m \<inter> extent m = {}"
      by (intro extents_of_majors [of "majors h" i' i]) (use assms i' j' m in \<open>auto simp: heap_inv_def\<close>)
    then show False using extent_nonempty [of m] by auto
  qed
  moreover have "distinct (mj_minors (majors h ! i))"
    using heap_inv_nth [OF assms(1,2)] packed_distinct by (auto simp: major_ok_def)
  then have "j' = j" using \<open>i' = i\<close> j' assms(3) by (simp add: m_def nth_eq_iff_index_eq)
  ultimately show ?thesis using f by (simp add: m_def)
qed

text \<open>A block malloc hands out is freed without a trace: the majors, their minors and the counters of bytes
  are what they were.\<close>

theorem malloc_free:
  assumes "heap_ok h" and "fresh_pages ops h" and "k < 32" and "unat req + 2 ^ k + 4147 \<le> 2 ^ 32"
    and run: "malloc_bytes ops req (2 ^ k) h = Some (p, h')" and "p \<noteq> 0"
  shows "\<exists>h''. heap_free_bytes ops p h' = Some h'' \<and> majors h'' = majors h \<and>
    l_inuse h'' = l_inuse h \<and> l_allocated h'' = l_allocated h"
  using assms(1-4)
proof (cases rule: malloc_cases)
  case (null h1)
  then show ?thesis using run assms(6) by simp
next
  case (block p2 h2 sz h1 i pre a post)
  then have same: "p2 = p" "h2 = h'" using run by auto
  let ?m = "\<lparr>mn_addr = a, mn_size = sz, mn_req_size = req\<rparr>"
  have h': "heap_inv h'" "owns h' p ?m"
    using add_minor_ok [OF block(3,4,6,7) assms(3) block(8) block(5)] same by (auto simp: heap_ok_def)
  have i: "i < length (majors h1)" "mj_minors (majors h1 ! i) = pre @ post" using block(4) by (auto simp: gap_def)
  have maj: "majors h' = (majors h1)[i := (majors h1 ! i)\<lparr>mj_minors := pre @ ?m # post,
      mj_usage := mj_usage (majors h1 ! i) + (sz + MINOR_SIZE)\<rparr>]" "l_inuse h' = l_inuse h1 + ucast sz"
    "l_allocated h' = l_allocated h1"
    using block(5) same by (auto simp: add_minor_def Let_def split: prod.splits)
  have "find_minor (mn_addr ?m) (majors h') = Some (i, length pre)"
    using find_minor_at [OF h'(1), of i "length pre"] i maj(1) by simp
  note free = free_unfold [OF h' this, of ops]
  have same_minors: "(majors h1 ! i)\<lparr>mj_minors := pre @ post\<rparr> = majors h1 ! i"
    using i(2) by (cases "majors h1 ! i") simp
  have upd: "(majors h1)[i := (majors h1 ! i)\<lparr>mj_minors := pre @ post\<rparr>] = majors h1"
    by (simp only: same_minors list_update_id)
  have cut: "majors (cut_minor i (length pre) h') = majors h1" "l_inuse (cut_minor i (length pre) h') = l_inuse h1"
    "l_allocated (cut_minor i (length pre) h') = l_allocated h1"
    using i maj by (simp_all add: cut_minor_def Let_def upd)
  have rest: "remove_at (length pre) (mj_minors (majors h' ! i)) = pre @ post" using i maj(1) by simp
  have hinv: "heap_inv (cut_minor i (length pre) h')"
    using cut_minor_ok [OF h'(1), of i "length pre"] i maj(1) by simp
  show ?thesis
  proof (cases "pre @ post = []")
    case False
    have "majors h1 \<noteq> majors h @ [x]" if "mj_minors x = []" for x
      using that False i block(8) [of "length (majors h)"] by (cases "i = length (majors h)") auto
    then have "majors h1 = majors h" "l_allocated h1 = l_allocated h"
      using block(2) unfolding searched_def by blast+
    moreover have "l_inuse h1 = l_inuse h" using block(2) by (simp add: searched_def)
    moreover obtain b where "update_best_bet i (cut_minor i (length pre) h') = Some ((cut_minor i (length pre) h')\<lparr>best_bet := b\<rparr>)"
      using update_best_bet_ok [OF hinv, of i] i(1) maj(1) by auto
    ultimately show ?thesis using free False rest cut by auto
  next
    case True
    have new: "\<exists>x. majors h1 = majors h @ [x] \<and> l_allocated h1 = l_allocated h + ucast (mj_size x)" and "l_inuse h1 = l_inuse h"
      using block(2) True i assms(1) heap_ok_nonempty [OF assms(1), of i] by (auto simp: searched_def)
    then obtain x where x: "majors h1 = majors h @ [x]" "l_allocated h1 = l_allocated h + ucast (mj_size x)" by blast
    have "i = length (majors h)"
      using i x True heap_ok_nonempty [OF assms(1), of i] by (auto simp: nth_append split: if_splits)
    then show ?thesis using free True rest cut x \<open>l_inuse h1 = l_inuse h\<close>
      by (simp add: release_major_def Let_def remove_at_def)
  qed
qed

section \<open>Resizing a block\<close>

lemma packed_same: "map (\<lambda>m. (mn_lo m, mn_hi m)) ms = map (\<lambda>m. (mn_lo m, mn_hi m)) ms' \<Longrightarrow> packed lo ms hi = packed lo ms' hi"
proof (induction ms arbitrary: lo ms')
  case (Cons m ms)
  from Cons.prems obtain n ns where "ms' = n # ns" "mn_lo n = mn_lo m" "mn_hi n = mn_hi m"
    "map (\<lambda>m. (mn_lo m, mn_hi m)) ms = map (\<lambda>m. (mn_lo m, mn_hi m)) ns" by (cases ms') auto
  with Cons.IH [of ns "mn_hi m"] show ?case by simp
qed simp

lemma occupied_same: "map (\<lambda>m. (mn_lo m, mn_hi m)) ms = map (\<lambda>m. (mn_lo m, mn_hi m)) ms' \<Longrightarrow> occupied ms = occupied ms'"
proof (induction ms arbitrary: ms')
  case (Cons m ms)
  from Cons.prems obtain n ns where "ms' = n # ns" "mn_lo n = mn_lo m" "mn_hi n = mn_hi m"
    "map (\<lambda>m. (mn_lo m, mn_hi m)) ms = map (\<lambda>m. (mn_lo m, mn_hi m)) ns" by (cases ms') auto
  with Cons.IH [of ns] show ?case by simp
qed simp

lemma shrink_ok:
  assumes ok: "heap_ok h" and i: "i < length (majors h)" and j: "j < length (mj_minors (majors h ! i))"
    and m: "mj_minors (majors h ! i) ! j = m" and o: "owns h p m" and le: "sz \<le> mn_req_size m"
  defines "m' \<equiv> m\<lparr>mn_req_size := sz\<rparr>"
  defines "h' \<equiv> h\<lparr>majors := (majors h)[i := (majors h ! i)\<lparr>mj_minors := (mj_minors (majors h ! i))[j := m']\<rparr>]\<rparr>"
  shows "heap_ok h' \<and> owns h' p m' \<and> set (all_minors h') = insert m' (set (all_minors h) - {m}) \<and>
    (\<forall>q n. owns h q n \<and> n \<noteq> m \<longrightarrow> owns h' q n)"
proof -
  define x where "x = majors h ! i"
  define x' where "x' = x\<lparr>mj_minors := (mj_minors x)[j := m']\<rparr>"
  have inv: "heap_inv h" using ok by (simp add: heap_ok_def)
  have h': "majors h' = (majors h)[i := x']" "magics h' = magics h" "best_bet h' = best_bet h" "align_words h' = align_words h"
    by (simp_all add: h'_def x'_def x_def)
  have pts: "points_to h' q n = points_to h q n" for q n by (simp add: points_to_def unalign_def h')
  have pm': "points_to h q m \<Longrightarrow> points_to h q m'" for q
    using le by (simp add: points_to_def m'_def mn_lo_def mn_hi_def word_le_nat_alt)
  obtain pre post where s: "mj_minors x = pre @ m # post" and lp: "j = length pre"
    using id_take_nth_drop [OF j] m j by (metis length_take min.absorb4 x_def)
  have mx': "mj_minors x' = pre @ m' # post" by (simp add: x'_def s lp)
  have same: "map (\<lambda>m. (mn_lo m, mn_hi m)) (mj_minors x') = map (\<lambda>m. (mn_lo m, mn_hi m)) (mj_minors x)"
    by (simp add: mx' s m'_def mn_lo_def mn_hi_def)
  have okx': "major_ok x'"
    using heap_inv_nth [OF inv i] packed_same [OF same] occupied_same [OF same]
    by (simp add: major_ok_def mj_lo_def mj_hi_def x_def [symmetric]) (simp add: x'_def)
  have rest: "{n \<in> set (all_minors h). n \<noteq> m} = set (all_minors (cut_minor i j h))"
    using cut_minor_ok [OF inv i j m] by auto
  have "set (all_minors h') = insert m' (set (all_minors (cut_minor i j h)))"
    unfolding all_minors_def h'(1) using i by (auto simp: upd_conv_take_nth_drop mx' x_def [symmetric] s lp)
  then have minors: "set (all_minors h') = insert m' (set (all_minors h) - {m})" using rest by auto
  have mall: "m \<in> set (all_minors h)" using o by (simp add: owns_def)
  have "heap_ok h'"
    unfolding heap_ok_def heap_inv_def
  proof (intro conjI ballI allI impI)
    fix y assume "y \<in> set (majors h')"
    then show "major_ok y" using inv okx' set_update_subset_insert [of "majors h" i x'] by (auto simp: h' heap_inv_def)
  next
    show "majors_apart (majors h')" using inv by (simp add: h' x'_def x_def majors_apart_update heap_inv_def)
  next
    fix b assume "best_bet h' = Some b"
    then show "b \<in> mj_addr ` set (majors h')"
      using inv by (simp add: heap_inv_def h' x'_def x_def map_addr_update flip: set_map)
  next
    fix n assume n: "n \<in> set (all_minors h')"
    then show "magics h' (mn_addr n) = LIBALLOC_MAGIC"
      using inv minors mall by (auto simp: h' heap_inv_def m'_def)
    show "\<exists>q. points_to h' q n"
    proof (cases "n = m'")
      case True
      then show ?thesis using pm' [of p] o by (auto simp: pts owns_def)
    next
      case False
      then show ?thesis using n minors inv by (auto simp: pts heap_inv_def)
    qed
  next
    fix y assume "y \<in> set (majors h')"
    then have "y = x' \<or> y \<in> set (majors h)" using set_update_subset_insert [of "majors h" i x'] by (auto simp: h')
    then show "mj_minors y \<noteq> []" using ok mx' by (auto simp: heap_ok_def)
  qed
  then show ?thesis using minors o pm' by (auto simp: owns_def pts)
qed


text \<open>The size of a request is not checked: the last six sizes below \<open>2 ^ 32\<close> wrap around when the room for
  the alignment is added, and malloc hands out a block of at most six bytes for them.\<close>

theorem malloc_size_wraps:
  assumes "heap_ok h" and "fresh_pages ops h" and "0xFFFFFFF9 < n"
  shows "\<exists>p h'. malloc ops n h = Some (p, h') \<and>
    (p \<noteq> 0 \<longrightarrow> (\<exists>m \<in> set (all_minors h'). unalign h' p = mn_addr m + 24 \<and> mn_req_size m = n \<and> unat (mn_size m) \<le> 6))"
proof -
  define sz :: u32 where "sz = n + 7"
  have "unat n < 2 ^ 32" "4294967289 < unat n" using assms(3) unat_u32_bound [of n] by (simp_all add: word_less_nat_alt)
  then have sz: "unat sz = unat n - 4294967289" unfolding sz_def by (simp add: unat_word_ariths mod_if)
  then have b: "unat sz \<le> 6" "sz \<noteq> 0" "unat sz + 4144 \<le> 2 ^ 32" using \<open>unat n < 2 ^ 32\<close> \<open>4294967289 < unat n\<close> by auto
  from malloc_found [OF assms(1,2) _ b(2,3), of n 4] obtain p h' where r: "malloc ops n h = Some (p, h')"
    and f: "found h n sz 4 (p, h')" by (auto simp: malloc_def clib_default_align_def sz_def ALIGN_SIZE_def)
  have "\<exists>m \<in> set (all_minors h'). unalign h' p = mn_addr m + 24 \<and> mn_req_size m = n \<and> unat (mn_size m) \<le> 6" if "p \<noteq> 0"
  proof -
    from f that obtain h1 i pre a post where g: "gap h1 i pre a post n sz" "add_minor i pre a post n sz 4 h1 = (p, h')"
      unfolding found_def by auto
    let ?m = "\<lparr>mn_addr = a, mn_size = sz, mn_req_size = n\<rparr>"
    obtain off where al: "align_up (a + MINOR_SIZE) 4 = (p, off)" and
      "h' = h1\<lparr>majors := (majors h1)[i := (majors h1 ! i)\<lparr>mj_minors := pre @ ?m # post, mj_usage := mj_usage (majors h1 ! i) + (sz + MINOR_SIZE)\<rparr>],
        magics := (magics h1)(a := LIBALLOC_MAGIC), l_inuse := l_inuse h1 + ucast sz, align_words := (align_words h1)(p - ALIGN_SIZE := off)\<rparr>"
      using g(2) by (auto simp: add_minor_def Let_def split: prod.splits)
    then have "?m \<in> set (all_minors h')" and "align_words h' (p - 4) = off"
      using all_minors_gap [OF g(1), where m = ?m] by (auto simp: all_minors_def ALIGN_SIZE_def)
    moreover have "p - (off + 4) = a + 24"
      using al by (auto simp: align_up_def Let_def MINOR_SIZE_def ALIGN_SIZE_def)
    ultimately show ?thesis using b(1) by (auto simp: unalign_def ALIGN_SIZE_def intro!: bexI [of _ ?m])
  qed
  with r show ?thesis by blast
qed

section \<open>A small heap\<close>

definition sample_pages :: "u32 page_calls" where
  "sample_pages = \<lparr>sys_alloc_pages = (\<lambda>s n. if n \<le> 16 \<and> s \<le> 0x100000 then (s, s + 0x10000) else (0, s)),
     sys_free_pages = (\<lambda>s a n. s)\<rparr>"

definition empty_heap :: "u32 heap_allocator" where
  "empty_heap = \<lparr>majors = [], best_bet = None, l_allocated = 0, l_inuse = 0, warnings = 0, errors = 0, overruns = 0,
     magics = (\<lambda>a. 0), align_words = (\<lambda>a. 0), heap_bytes = (\<lambda>a. 7), heap_sys = 0x100000\<rparr>"

lemma empty_heap_ok: "heap_ok empty_heap" and empty_heap_fresh: "fresh_pages sample_pages empty_heap"
proof -
  show "heap_ok empty_heap"
    by (simp add: heap_ok_def heap_inv_def empty_heap_def all_minors_def majors_apart_def)
  have "unat n * 4096 \<le> 65536" if "n \<le> 16" for n :: u32
    using that by (simp add: word_le_nat_alt)
  then show "fresh_pages sample_pages empty_heap"
    by (fastforce simp: fresh_pages_def sample_pages_def empty_heap_def split: if_splits)
qed

lemma sample_malloc:
  "\<exists>h. malloc_bytes sample_pages 100 16 empty_heap = Some (0x100040, h) \<and>
     all_minors h = [\<lparr>mn_addr = 0x100018, mn_size = 119, mn_req_size = 100\<rparr>] \<and> heap_sys h = 0x110000"
  by (subst malloc_bytes.simps, subst malloc_search.simps)
    (simp add: ALIGN_SIZE_def empty_heap_def allocate_new_page_def pages_for_def MAJOR_SIZE_def MINOR_SIZE_def l_pageSize_def
      l_pageCount_def sample_pages_def start_at_def Let_def place_block_def add_minor_def align_up_def all_minors_def)

lemma sample_heap:
  obtains h where "malloc_bytes sample_pages 100 16 empty_heap = Some (0x100040, h)" and "heap_ok h"
    and "fresh_pages sample_pages h" and "owns h 0x100040 \<lparr>mn_addr = 0x100018, mn_size = 119, mn_req_size = 100\<rparr>"
    and "set (all_minors h) = {\<lparr>mn_addr = 0x100018, mn_size = 119, mn_req_size = 100\<rparr>}"
proof -
  from sample_malloc obtain h where h: "malloc_bytes sample_pages 100 16 empty_heap = Some (0x100040, h)"
    "all_minors h = [\<lparr>mn_addr = 0x100018, mn_size = 119, mn_req_size = 100\<rparr>]" "heap_sys h = 0x110000" by blast
  have "heap_ok h" and f: "fresh_block empty_heap 100 4 0x100040 h"
    using malloc_ok [OF empty_heap_ok empty_heap_fresh, of 4 100] h(1) by auto
  moreover have "owns h 0x100040 \<lparr>mn_addr = 0x100018, mn_size = 119, mn_req_size = 100\<rparr>"
    using f h(2) by (auto simp: fresh_block_def owns_def)
  moreover have "fresh_pages sample_pages h" by (auto simp: fresh_pages_def sample_pages_def h(3))
  ultimately show ?thesis using that h by auto
qed

lemma sample_malloc_huge:
  "\<exists>h. malloc sample_pages 0xFFFFFFFF empty_heap = Some (0x100034, h)"
  unfolding malloc_def
  by (subst malloc_bytes.simps, subst malloc_search.simps)
    (simp add: ALIGN_SIZE_def empty_heap_def allocate_new_page_def pages_for_def MAJOR_SIZE_def MINOR_SIZE_def l_pageSize_def
      l_pageCount_def sample_pages_def start_at_def Let_def place_block_def add_minor_def align_up_def clib_default_align_def)

section \<open>Witnesses\<close>

theorem malloc_block_witness:
  "\<exists>h. malloc_bytes sample_pages 100 16 empty_heap = Some (0x100040, h) \<and> heap_ok h \<and>
     (\<exists>m. owns h 0x100040 m \<and> mn_req_size m = 100)"
proof -
  obtain h where "malloc_bytes sample_pages 100 16 empty_heap = Some (0x100040, h)" by (rule sample_heap)
  then show ?thesis using malloc_block [OF empty_heap_ok empty_heap_fresh, of 4 100] by auto
qed

theorem free_block_witness:
  "\<exists>h h'. malloc_bytes sample_pages 100 16 empty_heap = Some (0x100040, h) \<and>
     heap_free_bytes sample_pages 0x100040 h = Some h' \<and> heap_ok h' \<and> all_minors h' = []"
proof -
  obtain h where h: "malloc_bytes sample_pages 100 16 empty_heap = Some (0x100040, h)" "heap_ok h"
    "owns h 0x100040 \<lparr>mn_addr = 0x100018, mn_size = 119, mn_req_size = 100\<rparr>"
    "set (all_minors h) = {\<lparr>mn_addr = 0x100018, mn_size = 119, mn_req_size = 100\<rparr>}" by (rule sample_heap)
  from free_block [OF h(2,3), of sample_pages] h(1,4) show ?thesis by auto
qed

theorem malloc_free_witness:
  "\<exists>h h'. malloc_bytes sample_pages 100 16 empty_heap = Some (0x100040, h) \<and>
     heap_free_bytes sample_pages 0x100040 h = Some h' \<and> majors h' = []"
proof -
  obtain h where h: "malloc_bytes sample_pages 100 16 empty_heap = Some (0x100040, h)" by (rule sample_heap)
  then have "\<exists>h'. heap_free_bytes sample_pages 0x100040 h = Some h' \<and> majors h' = majors empty_heap \<and>
      l_inuse h' = l_inuse empty_heap \<and> l_allocated h' = l_allocated empty_heap"
    by (intro malloc_free [OF empty_heap_ok empty_heap_fresh, where k = 4 and req = 100]) simp_all
  with h show ?thesis by (auto simp: empty_heap_def)
qed


theorem malloc_size_wraps_witness:
  "\<exists>h m. malloc sample_pages 0xFFFFFFFF empty_heap = Some (0x100034, h) \<and> m \<in> set (all_minors h) \<and>
     mn_req_size m = 0xFFFFFFFF \<and> unat (mn_size m) \<le> 6"
proof -
  from sample_malloc_huge obtain h where "malloc sample_pages 0xFFFFFFFF empty_heap = Some (0x100034, h)" by blast
  then show ?thesis using malloc_size_wraps [OF empty_heap_ok empty_heap_fresh, of "0xFFFFFFFF"] by auto
qed

end
