(* ===== verification/Locks.thy ===== *)
theory Locks
  imports Prelude
begin

text \<open>
  The locks of the kernel (\<open>kernel/locks.h\<close>, \<open>kernel/locks.cpp\<close>): the compare-and-swap mutex, and the two
  readers-writer locks built from mutexes. A method of a lock is the list of its atomic actions, as the
  code composes them; tasks interleave action by action. A task that finds a mutex taken tries again (it
  switches to the owner meanwhile), which is a step that is not taken.
\<close>

section \<open>Mutexes\<close>

type_synonym task_id = u32
type_synonym kernel_mutex = task_id

definition INVALID_TASK_ID :: task_id where "INVALID_TASK_ID = NOT 0"

definition init_mutex :: kernel_mutex where "init_mutex = -1"

text \<open>The value found, and the value left.\<close>

definition cas_func :: "u32 \<Rightarrow> u32 \<Rightarrow> u32 \<Rightarrow> u32 \<times> u32" where
  "cas_func val oldval newval = (val, if val = oldval then newval else val)"

definition do_try_lock_mutex :: "kernel_mutex \<Rightarrow> task_id \<Rightarrow> task_id \<times> kernel_mutex" where
  "do_try_lock_mutex m my_pid = cas_func m INVALID_TASK_ID my_pid"

definition kernel_try_lock_mutex :: "kernel_mutex \<Rightarrow> task_id \<Rightarrow> bool \<times> kernel_mutex" where
  "kernel_try_lock_mutex m my_pid = (case do_try_lock_mutex m my_pid of (pid, m) \<Rightarrow> (pid = INVALID_TASK_ID, m))"

text \<open>The owner is not checked.\<close>

definition kernel_unlock_mutex :: "kernel_mutex \<Rightarrow> kernel_mutex" where
  "kernel_unlock_mutex m = INVALID_TASK_ID"

lemma try_lock_free: "kernel_try_lock_mutex INVALID_TASK_ID t = (True, t)"
  by (simp add: kernel_try_lock_mutex_def do_try_lock_mutex_def cas_func_def)

lemma try_lock_taken: "m \<noteq> INVALID_TASK_ID \<Longrightarrow> kernel_try_lock_mutex m t = (False, m)"
  by (simp add: kernel_try_lock_mutex_def do_try_lock_mutex_def cas_func_def)

lemma init_mutex_free: "init_mutex = INVALID_TASK_ID"
  by (simp add: init_mutex_def INVALID_TASK_ID_def)

text \<open>Test and set: what was there, and what is there now.\<close>

definition tas_aquire :: "byte \<Rightarrow> bool \<times> byte" where
  "tas_aquire l = (l \<noteq> 0, if l = 0 then 1 else l)"

definition tas_release :: "byte \<Rightarrow> byte" where
  "tas_release l = 0"

type_synonym kernel_cv = byte

definition init_cv :: kernel_cv where "init_cv = 1"

definition kernel_signal_cv :: "kernel_cv \<Rightarrow> kernel_cv" where
  "kernel_signal_cv m = tas_release m"

text \<open>
  One turn of the loop of \<open>kernel_wait_cv\<close>, on the mutex the caller holds and the variable: it returns with
  the mutex given back when the variable has been signalled, and otherwise lets other tasks run and
  tries again, still with the mutex.
\<close>

definition kernel_wait_cv :: "kernel_mutex \<Rightarrow> kernel_cv \<Rightarrow> bool \<times> kernel_mutex \<times> kernel_cv" where
  "kernel_wait_cv locked_mutex m =
     (case tas_aquire m of
        (False, m) \<Rightarrow> (True, kernel_unlock_mutex locked_mutex, m)
      | (True, m) \<Rightarrow> (False, locked_mutex, m))"

section \<open>Readers-writer locks\<close>

datatype mtx = Exclusive_mtx | Shared_mtx | Meta_mtx

text \<open>
  The actions on the mutexes and the counter. Counting up to one is followed by taking the exclusive mutex
  for all readers, counting down to zero by giving it back.
\<close>

datatype action = Acquire mtx | Release mtx | Count_up | Count_down | Acquire_first | Release_last

definition guarded :: "mtx \<Rightarrow> action list \<Rightarrow> action list" where
  "guarded m as = Acquire m # as @ [Release m]"

definition shared_mutex_lock :: "action list" where "shared_mutex_lock = [Acquire Exclusive_mtx]"
definition shared_mutex_unlock :: "action list" where "shared_mutex_unlock = [Release Exclusive_mtx]"
definition shared_mutex_lock_shared :: "action list" where "shared_mutex_lock_shared = guarded Shared_mtx [Count_up]"
definition shared_mutex_unlock_shared :: "action list" where "shared_mutex_unlock_shared = guarded Shared_mtx [Count_down]"

definition upgradable_lock :: "action list" where "upgradable_lock = guarded Meta_mtx shared_mutex_lock"
definition upgradable_unlock :: "action list" where "upgradable_unlock = shared_mutex_unlock"
definition upgradable_lock_shared :: "action list" where "upgradable_lock_shared = guarded Meta_mtx shared_mutex_lock_shared"
definition upgradable_unlock_shared :: "action list" where "upgradable_unlock_shared = shared_mutex_unlock_shared"
definition upgradable_upgrade :: "action list" where
  "upgradable_upgrade = guarded Meta_mtx (shared_mutex_unlock_shared @ shared_mutex_lock)"
definition upgradable_downgrade :: "action list" where
  "upgradable_downgrade = guarded Meta_mtx (shared_mutex_unlock @ shared_mutex_lock_shared)"

text \<open>What a task holds between two calls, and the calls it may make then.\<close>

datatype mode = Nothing | Reading | Writing

type_synonym methods = "(mode \<times> mode \<times> action list) list"

definition shared_methods :: methods where
  "shared_methods =
     [(Nothing, Writing, shared_mutex_lock), (Writing, Nothing, shared_mutex_unlock),
      (Nothing, Reading, shared_mutex_lock_shared), (Reading, Nothing, shared_mutex_unlock_shared)]"

definition upgradable_methods :: methods where
  "upgradable_methods =
     [(Nothing, Writing, upgradable_lock), (Writing, Nothing, upgradable_unlock),
      (Nothing, Reading, upgradable_lock_shared), (Reading, Nothing, upgradable_unlock_shared),
      (Reading, Writing, upgradable_upgrade), (Writing, Reading, upgradable_downgrade)]"

text \<open>A lock, with what each task holds (or will hold) and the actions its call has left.\<close>

record lock_state =
  mutexes :: "mtx \<Rightarrow> kernel_mutex"
  num_shared :: nat
  callers :: "task_id \<Rightarrow> mode \<times> action list"

definition new_lock :: lock_state where
  "new_lock = \<lparr>mutexes = (\<lambda>_. init_mutex), num_shared = 0, callers = (\<lambda>_. (Nothing, []))\<rparr>"

definition set_caller :: "task_id \<Rightarrow> mode \<times> action list \<Rightarrow> lock_state \<Rightarrow> lock_state" where
  "set_caller t l s = s\<lparr>callers := (callers s)(t := l)\<rparr>"

text \<open>The next action of a task; nothing if it has to wait.\<close>

fun run_action :: "task_id \<Rightarrow> action \<Rightarrow> lock_state \<Rightarrow> (action list \<times> lock_state) option" where
  "run_action t (Acquire m) s =
     (case kernel_try_lock_mutex (mutexes s m) t of
        (True, o') \<Rightarrow> Some ([], s\<lparr>mutexes := (mutexes s)(m := o')\<rparr>)
      | (False, _) \<Rightarrow> None)"
| "run_action t (Release m) s = Some ([], s\<lparr>mutexes := (mutexes s)(m := kernel_unlock_mutex (mutexes s m))\<rparr>)"
| "run_action t Count_up s =
     Some (if num_shared s + 1 = 1 then [Acquire_first] else [], s\<lparr>num_shared := num_shared s + 1\<rparr>)"
| "run_action t Count_down s =
     Some (if num_shared s - 1 = 0 then [Release_last] else [], s\<lparr>num_shared := num_shared s - 1\<rparr>)"
| "run_action t Acquire_first s =
     (case kernel_try_lock_mutex (mutexes s Exclusive_mtx) t of
        (True, o') \<Rightarrow> Some ([], s\<lparr>mutexes := (mutexes s)(Exclusive_mtx := o')\<rparr>)
      | (False, _) \<Rightarrow> None)"
| "run_action t Release_last s =
     Some ([], s\<lparr>mutexes := (mutexes s)(Exclusive_mtx := kernel_unlock_mutex (mutexes s Exclusive_mtx))\<rparr>)"

inductive lock_step :: "methods \<Rightarrow> lock_state \<Rightarrow> lock_state \<Rightarrow> bool" for ms where
  call: "callers s t = (g, []) \<Longrightarrow> (g, h, as) \<in> set ms \<Longrightarrow> t \<noteq> INVALID_TASK_ID \<Longrightarrow>
    lock_step ms s (set_caller t (h, as) s)"
| act: "callers s t = (h, a # as) \<Longrightarrow> run_action t a s = Some (bs, s') \<Longrightarrow>
    lock_step ms s (set_caller t (h, bs @ as) s')"

inductive lock_reachable :: "methods \<Rightarrow> lock_state \<Rightarrow> bool" for ms where
  start: "lock_reachable ms new_lock"
| step: "lock_reachable ms s \<Longrightarrow> lock_step ms s s' \<Longrightarrow> lock_reachable ms s'"

inductive_cases lock_stepE: "lock_step ms s s'"

section \<open>Phases of a call\<close>

fun count_action :: "action \<Rightarrow> action list \<Rightarrow> int" where
  "count_action a [] = 0"
| "count_action a (b # bs) = (if a = b then 1 else 0) + count_action a bs"

text \<open>From the actions a task has left follows what it holds now.\<close>

definition writes :: "mode \<times> action list \<Rightarrow> bool" where
  "writes l \<longleftrightarrow> (if fst l = Writing then 1 else 0) - count_action (Acquire Exclusive_mtx) (snd l)
     + count_action (Release Exclusive_mtx) (snd l) = 1"

definition counted :: "mode \<times> action list \<Rightarrow> bool" where
  "counted l \<longleftrightarrow> (if fst l = Reading then 1 else 0) - count_action Count_up (snd l) + count_action Count_down (snd l) = 1"

definition holds :: "mtx \<Rightarrow> mode \<times> action list \<Rightarrow> bool" where
  "holds m l \<longleftrightarrow> count_action (Release m) (snd l) - count_action (Acquire m) (snd l) = 1"

definition first :: "mode \<times> action list \<Rightarrow> bool" where "first l \<longleftrightarrow> Acquire_first \<in> set (snd l)"
definition final :: "mode \<times> action list \<Rightarrow> bool" where "final l \<longleftrightarrow> Release_last \<in> set (snd l)"

fun tails :: "'a list \<Rightarrow> 'a list list" where
  "tails [] = [[]]"
| "tails (x # xs) = (x # xs) # tails xs"

fun detour :: "action list \<Rightarrow> action list list" where
  "detour (Count_up # as) = [Acquire_first # as]"
| "detour (Count_down # as) = [Release_last # as]"
| "detour as = []"

definition phases_of :: "methods \<Rightarrow> (mode \<times> action list) list" where
  "phases_of ms = [(Nothing, []), (Reading, []), (Writing, [])] @
     concat (map (\<lambda>(g, h, as). concat (map (\<lambda>bs. map (Pair h) (bs # detour bs)) (tails as))) ms)"

definition phases :: "(mode \<times> action list) list" where
  "phases = phases_of (shared_methods @ upgradable_methods)"

lemmas method_defs = shared_methods_def upgradable_methods_def shared_mutex_lock_def shared_mutex_unlock_def
  shared_mutex_lock_shared_def shared_mutex_unlock_shared_def upgradable_lock_def upgradable_unlock_def
  upgradable_lock_shared_def upgradable_unlock_shared_def upgradable_upgrade_def upgradable_downgrade_def guarded_def

lemmas phase_defs = writes_def counted_def holds_def first_def final_def

text \<open>What an action changes of it.\<close>

definition view :: "mode \<times> action list \<Rightarrow> bool \<times> bool \<times> bool \<times> bool \<times> bool \<times> bool" where
  "view l = (writes l, counted l, first l, final l, holds Shared_mtx l, holds Meta_mtx l)"

lemma phase_rest:
  assumes "(h, a # as) \<in> set phases"
  shows "(h, as) \<in> set phases"
proof -
  have "list_all (\<lambda>(h, as). case as of [] \<Rightarrow> True | a # as \<Rightarrow> (h, as) \<in> set phases) phases"
    by (simp add: phases_def phases_of_def method_defs)
  with assms show ?thesis by (auto simp: list_all_iff)
qed

lemma phase_detour:
  "(h, Count_up # as) \<in> set phases \<Longrightarrow> (h, Acquire_first # as) \<in> set phases"
  "(h, Count_down # as) \<in> set phases \<Longrightarrow> (h, Release_last # as) \<in> set phases"
  by (auto simp: phases_def phases_of_def method_defs)

lemma phase_call:
  "(g, h, as) \<in> set (shared_methods @ upgradable_methods) \<Longrightarrow> (h, as) \<in> set phases \<and> view (h, as) = view (g, [])"
  by (auto simp: phases_def phases_of_def method_defs view_def phase_defs)

lemma phase_idle: "view (h, []) = (h = Writing, h = Reading, False, False, False, False)"
  by (simp add: view_def phase_defs)

lemma phase_acquire_exclusive:
  "(h, Acquire Exclusive_mtx # as) \<in> set phases \<Longrightarrow>
     \<exists>gm. view (h, Acquire Exclusive_mtx # as) = (False, False, False, False, False, gm) \<and>
          view (h, as) = (True, False, False, False, False, gm)"
  by (auto simp: phases_def phases_of_def method_defs view_def phase_defs)

lemma phase_release_exclusive:
  "(h, Release Exclusive_mtx # as) \<in> set phases \<Longrightarrow>
     \<exists>gm. view (h, Release Exclusive_mtx # as) = (True, False, False, False, False, gm) \<and>
          view (h, as) = (False, False, False, False, False, gm)"
  by (auto simp: phases_def phases_of_def method_defs view_def phase_defs)

lemma phase_acquire_shared:
  "(h, Acquire Shared_mtx # as) \<in> set phases \<Longrightarrow>
     \<exists>w c gm. view (h, Acquire Shared_mtx # as) = (w, c, False, False, False, gm) \<and>
          view (h, as) = (w, c, False, False, True, gm)"
  by (auto simp: phases_def phases_of_def method_defs view_def phase_defs)

lemma phase_release_shared:
  "(h, Release Shared_mtx # as) \<in> set phases \<Longrightarrow>
     \<exists>w c gm. view (h, Release Shared_mtx # as) = (w, c, False, False, True, gm) \<and>
          view (h, as) = (w, c, False, False, False, gm)"
  by (auto simp: phases_def phases_of_def method_defs view_def phase_defs)

lemma phase_acquire_meta:
  "(h, Acquire Meta_mtx # as) \<in> set phases \<Longrightarrow>
     \<exists>w c. view (h, Acquire Meta_mtx # as) = (w, c, False, False, False, False) \<and>
          view (h, as) = (w, c, False, False, False, True)"
  by (auto simp: phases_def phases_of_def method_defs view_def phase_defs)

lemma phase_release_meta:
  "(h, Release Meta_mtx # as) \<in> set phases \<Longrightarrow>
     \<exists>w c. view (h, Release Meta_mtx # as) = (w, c, False, False, False, True) \<and>
          view (h, as) = (w, c, False, False, False, False)"
  by (auto simp: phases_def phases_of_def method_defs view_def phase_defs)

lemma phase_count_up:
  "(h, Count_up # as) \<in> set phases \<Longrightarrow>
     \<exists>gm. view (h, Count_up # as) = (False, False, False, False, True, gm) \<and>
          view (h, Acquire_first # as) = (False, True, True, False, True, gm) \<and>
          view (h, as) = (False, True, False, False, True, gm)"
  by (auto simp: phases_def phases_of_def method_defs view_def phase_defs)

lemma phase_count_down:
  "(h, Count_down # as) \<in> set phases \<Longrightarrow>
     \<exists>gm. view (h, Count_down # as) = (False, True, False, False, True, gm) \<and>
          view (h, Release_last # as) = (False, False, False, True, True, gm) \<and>
          view (h, as) = (False, False, False, False, True, gm)"
  by (auto simp: phases_def phases_of_def method_defs view_def phase_defs)

lemma phase_first:
  "(h, Acquire_first # as) \<in> set phases \<Longrightarrow>
     \<exists>gm. view (h, Acquire_first # as) = (False, True, True, False, True, gm) \<and>
          view (h, as) = (False, True, False, False, True, gm)"
  by (auto simp: phases_def phases_of_def method_defs view_def phase_defs)

lemma phase_last:
  "(h, Release_last # as) \<in> set phases \<Longrightarrow>
     \<exists>gm. view (h, Release_last # as) = (False, False, False, True, True, gm) \<and>
          view (h, as) = (False, False, False, False, True, gm)"
  by (auto simp: phases_def phases_of_def method_defs view_def phase_defs)

section \<open>The invariant\<close>

text \<open>
  Over what the tasks hold: \<open>W\<close> the writers, \<open>C\<close> the readers counted, \<open>F\<close> the first reader before it has the
  exclusive mutex, \<open>L\<close> the last one before it has given it back, \<open>S\<close> and \<open>M\<close> the holders of the other mutexes.
\<close>

definition held_by :: "kernel_mutex \<Rightarrow> task_id set \<Rightarrow> bool" where
  "held_by m S \<longleftrightarrow> S = (if m = INVALID_TASK_ID then {} else {m})"

definition holders_inv ::
  "task_id set \<Rightarrow> task_id set \<Rightarrow> task_id set \<Rightarrow> task_id set \<Rightarrow> task_id set \<Rightarrow> task_id set \<Rightarrow>
   (mtx \<Rightarrow> kernel_mutex) \<Rightarrow> nat \<Rightarrow> bool" where
  "holders_inv W C F L S M m n \<longleftrightarrow>
     finite C \<and> n = card C \<and> held_by (m Meta_mtx) M \<and> held_by (m Shared_mtx) S \<and> F \<subseteq> S \<and> L \<subseteq> S \<and>
     (F \<noteq> {} \<longrightarrow> C = F) \<and> (L \<noteq> {} \<longrightarrow> C = {}) \<and>
     (W \<noteq> {} \<longrightarrow> L = {} \<and> C = F \<and> is_singleton W) \<and>
     (m Exclusive_mtx = INVALID_TASK_ID \<longleftrightarrow> W = {} \<and> L = {} \<and> C = F)"

lemma held_by_acquire: "held_by m S \<Longrightarrow> m = INVALID_TASK_ID \<Longrightarrow> t \<noteq> INVALID_TASK_ID \<Longrightarrow> held_by t (insert t S)"
  by (simp add: held_by_def)

lemma held_by_release: "held_by m S \<Longrightarrow> t \<in> S \<Longrightarrow> held_by INVALID_TASK_ID (S - {t})"
  by (auto simp: held_by_def split: if_splits)

lemma held_by_one: "held_by m S \<Longrightarrow> t \<in> S \<Longrightarrow> S = {t}"
  by (auto simp: held_by_def split: if_splits)

lemma inv_acquire_guard:
  assumes "holders_inv W C F L S M m n" and "m g = INVALID_TASK_ID" and "t \<noteq> INVALID_TASK_ID"
  shows "g = Meta_mtx \<Longrightarrow> holders_inv W C F L S (insert t M) (m(g := t)) n"
    and "g = Shared_mtx \<Longrightarrow> holders_inv W C F L (insert t S) M (m(g := t)) n"
  using assms by (auto simp: holders_inv_def held_by_def)

lemma inv_release_guard:
  assumes "holders_inv W C F L S M m n"
  shows "t \<in> M \<Longrightarrow> holders_inv W C F L S (M - {t}) (m(Meta_mtx := INVALID_TASK_ID)) n"
    and "t \<in> S \<Longrightarrow> t \<notin> F \<Longrightarrow> t \<notin> L \<Longrightarrow> holders_inv W C F L (S - {t}) M (m(Shared_mtx := INVALID_TASK_ID)) n"
  using assms held_by_release unfolding holders_inv_def by fastforce+

lemma inv_acquire_exclusive:
  assumes "holders_inv W C F L S M m n" and "m Exclusive_mtx = INVALID_TASK_ID" and "t \<noteq> INVALID_TASK_ID"
  shows "holders_inv (insert t W) C F L S M (m(Exclusive_mtx := t)) n"
  using assms by (auto simp: holders_inv_def)

lemma inv_release_exclusive:
  assumes "holders_inv W C F L S M m n" and "t \<in> W"
  shows "holders_inv (W - {t}) C F L S M (m(Exclusive_mtx := INVALID_TASK_ID)) n"
  using assms by (auto simp: holders_inv_def is_singleton_def)

lemma inv_count_up:
  assumes "holders_inv W C F L S M m n" and "t \<in> S" and "t \<notin> C" and "t \<notin> F" and "t \<notin> L"
  shows "n + 1 = 1 \<Longrightarrow> holders_inv W (insert t C) (insert t F) L S M m (n + 1)"
    and "n + 1 \<noteq> 1 \<Longrightarrow> holders_inv W (insert t C) F L S M m (n + 1)"
proof -
  have S: "S = {t}" and "finite C" "n = card C" using assms(1,2) held_by_one by (auto simp: holders_inv_def)
  then have F: "F = {}" "L = {}" using assms by (auto simp: holders_inv_def)
  show "n + 1 = 1 \<Longrightarrow> holders_inv W (insert t C) (insert t F) L S M m (n + 1)"
    using assms S F \<open>finite C\<close> \<open>n = card C\<close> by (auto simp: holders_inv_def)
  show "n + 1 \<noteq> 1 \<Longrightarrow> holders_inv W (insert t C) F L S M m (n + 1)"
    using assms S F \<open>finite C\<close> \<open>n = card C\<close> by (auto simp: holders_inv_def)
qed

lemma inv_count_down:
  assumes "holders_inv W C F L S M m n" and "t \<in> S" and "t \<in> C" and "t \<notin> F" and "t \<notin> L"
  shows "n - 1 = 0 \<Longrightarrow> holders_inv W (C - {t}) F (insert t L) S M m (n - 1)"
    and "n - 1 \<noteq> 0 \<Longrightarrow> holders_inv W (C - {t}) F L S M m (n - 1)"
proof -
  have S: "S = {t}" and C: "finite C" "n = card C" using assms(1,2) held_by_one by (auto simp: holders_inv_def)
  then have F: "F = {}" "L = {}" "W = {}" using assms by (auto simp: holders_inv_def)
  have n: "n - 1 = card (C - {t})" using C assms(3) by simp
  have "n - 1 = 0 \<Longrightarrow> C - {t} = {}" using n C(1) by simp
  then show "n - 1 = 0 \<Longrightarrow> holders_inv W (C - {t}) F (insert t L) S M m (n - 1)"
    using assms(1,2,3) S F C n by (auto simp: holders_inv_def)
  have "n - 1 \<noteq> 0 \<Longrightarrow> C - {t} \<noteq> {}" using n by (metis card.empty)
  then show "n - 1 \<noteq> 0 \<Longrightarrow> holders_inv W (C - {t}) F L S M m (n - 1)"
    using assms(1,2,3) S F C n by (auto simp: holders_inv_def)
qed

lemma inv_acquire_first:
  assumes "holders_inv W C F L S M m n" and "m Exclusive_mtx = INVALID_TASK_ID" and "t \<noteq> INVALID_TASK_ID" and "t \<in> F"
  shows "holders_inv W C (F - {t}) L S M (m(Exclusive_mtx := t)) n"
proof -
  have "S = {t}" using assms(1,4) held_by_one [of "m Shared_mtx" S t] by (auto simp: holders_inv_def)
  then have "F = {t}" using assms(1,4) by (auto simp: holders_inv_def)
  then show ?thesis using assms by (auto simp: holders_inv_def)
qed

lemma inv_release_last:
  assumes "holders_inv W C F L S M m n" and "t \<in> L"
  shows "holders_inv W C F (L - {t}) S M (m(Exclusive_mtx := INVALID_TASK_ID)) n"
proof -
  have "S = {t}" using assms held_by_one [of "m Shared_mtx" S t] by (auto simp: holders_inv_def)
  then have "L = {t}" "F = {}" using assms by (auto simp: holders_inv_def)
  then show ?thesis using assms by (auto simp: holders_inv_def)
qed

definition those :: "(mode \<times> action list \<Rightarrow> bool) \<Rightarrow> lock_state \<Rightarrow> task_id set" where
  "those P s = {t. P (callers s t)}"

definition lock_inv :: "lock_state \<Rightarrow> bool" where
  "lock_inv s \<longleftrightarrow> (\<forall>t. callers s t \<in> set phases) \<and> callers s INVALID_TASK_ID = (Nothing, []) \<and>
     holders_inv (those writes s) (those counted s) (those first s) (those final s)
       (those (holds Shared_mtx) s) (those (holds Meta_mtx) s) (mutexes s) (num_shared s)"

lemma set_caller_simps [simp]:
  "mutexes (set_caller t l s) = mutexes s" "num_shared (set_caller t l s) = num_shared s"
  "callers (set_caller t l s) u = (if u = t then l else callers s u)"
  by (simp_all add: set_caller_def)

lemma those_set_caller: "those P (set_caller t l s) = (if P l then insert t (those P s) else those P s - {t})"
  by (auto simp: those_def)

lemma those_update [simp]:
  "those P (s\<lparr>mutexes := m\<rparr>) = those P s" "those P (s\<lparr>num_shared := n\<rparr>) = those P s"
  by (simp_all add: those_def)

lemma try_lock_True: "kernel_try_lock_mutex m t = (True, o') \<longleftrightarrow> m = INVALID_TASK_ID \<and> o' = t"
  by (auto simp: kernel_try_lock_mutex_def do_try_lock_mutex_def cas_func_def)

lemma view_eq:
  "view l = (w, c, fi, la, gs, gm) \<longleftrightarrow>
   writes l = w \<and> counted l = c \<and> first l = fi \<and> final l = la \<and> holds Shared_mtx l = gs \<and> holds Meta_mtx l = gm"
  by (auto simp: view_def)

lemma those_same: "P l = P (callers s t) \<Longrightarrow> those P (set_caller t l s) = those P s"
  by (auto simp: those_def)

lemma those_add: "P l \<Longrightarrow> those P (set_caller t l s) = insert t (those P s)"
  by (auto simp: those_def)

lemma those_remove: "\<not> P l \<Longrightarrow> those P (set_caller t l s) = those P s - {t}"
  by (auto simp: those_def)

lemma lock_inv_call:
  assumes "lock_inv s" and "callers s t = (g, [])" and "(g, h, as) \<in> set (shared_methods @ upgradable_methods)"
    and "t \<noteq> INVALID_TASK_ID"
  shows "lock_inv (set_caller t (h, as) s)"
proof -
  from phase_call [OF assms(3)] have p: "(h, as) \<in> set phases" "view (h, as) = view (callers s t)"
    using assms(2) by auto
  then have "those P (set_caller t (h, as) s) = those P s"
    if "P \<in> {writes, counted, first, final, holds Shared_mtx, holds Meta_mtx}" for P
    using that by (intro those_same) (auto simp: view_def)
  then show ?thesis using assms p(1) by (auto simp: lock_inv_def)
qed

lemma lock_inv_act:
  assumes "lock_inv s" and c: "callers s t = (h, a # as)" and r: "run_action t a s = Some (bs, s')"
  shows "lock_inv (set_caller t (h, bs @ as) s')"
proof -
  have inv: "holders_inv (those writes s) (those counted s) (those first s) (those final s)
       (those (holds Shared_mtx) s) (those (holds Meta_mtx) s) (mutexes s) (num_shared s)"
    and ph: "(h, a # as) \<in> set phases" and t: "t \<noteq> INVALID_TASK_ID"
    using assms(1) c unfolding lock_inv_def by (metis, metis, auto)
  have mem: "t \<in> those P s \<longleftrightarrow> P (h, a # as)" for P by (simp add: those_def c)
  have s': "callers s' = callers s" using r by (auto split: prod.splits bool.splits elim!: run_action.elims)
  have ph': "(h, bs @ as) \<in> set phases"
    using r phase_rest [OF ph] phase_detour ph by (cases a) (auto split: prod.splits bool.splits if_splits)
  have goal: "lock_inv (set_caller t (h, bs @ as) s')" if "holders_inv (those writes (set_caller t (h, bs @ as) s))
      (those counted (set_caller t (h, bs @ as) s)) (those first (set_caller t (h, bs @ as) s))
      (those final (set_caller t (h, bs @ as) s)) (those (holds Shared_mtx) (set_caller t (h, bs @ as) s))
      (those (holds Meta_mtx) (set_caller t (h, bs @ as) s)) (mutexes s') (num_shared s')"
  proof -
    have "those P (set_caller t l s') = those P (set_caller t l s)" for P l
      by (simp add: those_def set_caller_def s')
    then show ?thesis using that assms(1) ph' t s' unfolding lock_inv_def by auto
  qed
  show ?thesis
  proof (cases a)
    case (Acquire m)
    with r have m: "mutexes s m = INVALID_TASK_ID" "bs = []" "s' = s\<lparr>mutexes := (mutexes s)(m := t)\<rparr>"
      by (auto simp: try_lock_True split: prod.splits bool.splits)
    show ?thesis
    proof (cases m)
      case Exclusive_mtx
      show ?thesis
        using phase_acquire_exclusive [of h as] ph m inv_acquire_exclusive [OF inv _ t] Acquire Exclusive_mtx c
        by (intro goal) (auto simp: view_eq those_same those_add)
    next
      case Shared_mtx
      show ?thesis
        using phase_acquire_shared [of h as] ph m inv_acquire_guard(2) [OF inv _ t] Acquire Shared_mtx c
        by (intro goal) (auto simp: view_eq those_same those_add)
    next
      case Meta_mtx
      show ?thesis
        using phase_acquire_meta [of h as] ph m inv_acquire_guard(1) [OF inv _ t] Acquire Meta_mtx c
        by (intro goal) (auto simp: view_eq those_same those_add)
    qed
  next
    case (Release m)
    with r have m: "bs = []" "s' = s\<lparr>mutexes := (mutexes s)(m := INVALID_TASK_ID)\<rparr>"
      by (auto simp: kernel_unlock_mutex_def)
    show ?thesis
    proof (cases m)
      case Exclusive_mtx
      show ?thesis
        using phase_release_exclusive [of h as] ph m inv_release_exclusive [OF inv, of t] Release Exclusive_mtx c
        by (intro goal) (auto simp: view_eq those_same those_remove mem)
    next
      case Shared_mtx
      show ?thesis
        using phase_release_shared [of h as] ph m inv_release_guard(2) [OF inv, of t] Release Shared_mtx c
        by (intro goal) (auto simp: view_eq those_same those_remove mem)
    next
      case Meta_mtx
      show ?thesis
        using phase_release_meta [of h as] ph m inv_release_guard(1) [OF inv, of t] Release Meta_mtx c
        by (intro goal) (auto simp: view_eq those_same those_remove mem)
    qed
  next
    case Count_up
    show ?thesis
      using phase_count_up [of h as] ph r inv_count_up [OF inv, of t] Count_up c
      by (intro goal) (auto simp: view_eq those_same those_add mem)
  next
    case Count_down
    show ?thesis
      using phase_count_down [of h as] ph r inv_count_down [OF inv, of t] Count_down c
      by (intro goal) (auto simp: view_eq those_same those_add those_remove mem)
  next
    case Acquire_first
    with r have m: "mutexes s Exclusive_mtx = INVALID_TASK_ID" "bs = []"
        "s' = s\<lparr>mutexes := (mutexes s)(Exclusive_mtx := t)\<rparr>"
      by (auto simp: try_lock_True split: prod.splits bool.splits)
    show ?thesis
      using phase_first [of h as] ph m inv_acquire_first [OF inv _ t] Acquire_first c
      by (intro goal) (auto simp: view_eq those_same those_remove mem)
  next
    case Release_last
    with r have m: "bs = []" "s' = s\<lparr>mutexes := (mutexes s)(Exclusive_mtx := INVALID_TASK_ID)\<rparr>"
      by (auto simp: kernel_unlock_mutex_def)
    show ?thesis
      using phase_last [of h as] ph m inv_release_last [OF inv, of t] Release_last c
      by (intro goal) (auto simp: view_eq those_same those_remove mem)
  qed
qed

lemma lock_inv_new: "lock_inv new_lock"
  by (auto simp: lock_inv_def new_lock_def phases_def phases_of_def those_def phase_defs holders_inv_def held_by_def
      init_mutex_def INVALID_TASK_ID_def)

lemma lock_inv_reachable:
  assumes "lock_reachable ms s" and "set ms \<subseteq> set (shared_methods @ upgradable_methods)"
  shows "lock_inv s"
  using assms(1)
proof induction
  case start
  show ?case by (rule lock_inv_new)
next
  case (step s s')
  from step(2) show ?case
    by (cases rule: lock_stepE) (use step.IH assms(2) lock_inv_call lock_inv_act in blast)+
qed

section \<open>Runs\<close>

datatype move = Call task_id mode "action list" | Act task_id

fun play :: "methods \<Rightarrow> move list \<Rightarrow> lock_state \<Rightarrow> lock_state option" where
  "play ms [] s = Some s"
| "play ms (Call t h as # mvs) s =
     (case callers s t of
        (g, []) \<Rightarrow> if (g, h, as) \<in> set ms \<and> t \<noteq> INVALID_TASK_ID then play ms mvs (set_caller t (h, as) s) else None
      | _ \<Rightarrow> None)"
| "play ms (Act t # mvs) s =
     (case callers s t of
        (h, a # as) \<Rightarrow> (case run_action t a s of
            Some (bs, s') \<Rightarrow> play ms mvs (set_caller t (h, bs @ as) s')
          | None \<Rightarrow> None)
      | _ \<Rightarrow> None)"

lemma play_reachable: "play ms mvs s = Some s' \<Longrightarrow> lock_reachable ms s \<Longrightarrow> lock_reachable ms s'"
proof (induction ms mvs s rule: play.induct)
  case (2 ms t h as mvs s)
  obtain g l where c: "callers s t = (g, l)" by fastforce
  with "2.prems"(1) have l: "l = []" and ok: "(g, h, as) \<in> set ms" "t \<noteq> INVALID_TASK_ID"
    and p: "play ms mvs (set_caller t (h, as) s) = Some s'" by (cases l; simp split: if_splits)+
  have "lock_step ms s (set_caller t (h, as) s)" using c l ok by (auto intro: lock_step.call)
  then show ?case using "2.IH" [OF c [symmetric] l] "2.prems"(2) ok p by (auto intro: lock_reachable.step)
next
  case (3 ms t mvs s)
  obtain h l where c: "callers s t = (h, l)" by fastforce
  with "3.prems"(1) obtain a as where l: "l = a # as" by (cases l) auto
  with "3.prems"(1) c obtain bs s1 where r: "run_action t a s = Some (bs, s1)"
    and p: "play ms mvs (set_caller t (h, bs @ as) s1) = Some s'" by (cases "run_action t a s") auto
  have "lock_step ms s (set_caller t (h, bs @ as) s1)" using c l r by (auto intro: lock_step.act)
  then show ?case using "3.IH" [OF c [symmetric] l r] "3.prems"(2) p by (auto intro: lock_reachable.step)
qed simp

section \<open>Properties\<close>

text \<open>C12: both readers-writer locks exclude: while a task has the lock for writing, no other task has it for
  writing or reading, in every interleaving of any number of tasks, upgrades and downgrades included.\<close>

theorem lock_excludes:
  assumes "lock_reachable ms s" and "ms = shared_methods \<or> ms = upgradable_methods"
    and "callers s t = (Writing, [])" and "u \<noteq> t"
  shows "callers s u \<noteq> (Writing, []) \<and> callers s u \<noteq> (Reading, [])"
proof -
  have "lock_inv s" by (rule lock_inv_reachable [OF assms(1)]) (use assms(2) in auto)
  then have inv: "holders_inv (those writes s) (those counted s) (those first s) (those final s)
       (those (holds Shared_mtx) s) (those (holds Meta_mtx) s) (mutexes s) (num_shared s)" by (simp add: lock_inv_def)
  have "t \<in> those writes s" using assms(3) by (simp add: those_def phase_defs)
  with inv have "those counted s = those first s" and "those writes s = {t}"
    by (auto simp: holders_inv_def is_singleton_def)
  then have "counted (callers s u) = first (callers s u)" and "\<not> writes (callers s u)"
    using assms(4) by (auto simp: those_def)
  then show ?thesis by (auto simp: phase_defs)
qed

text \<open>A state in which the writer \<open>t\<close> downgrades while the reader \<open>u\<close> waits.\<close>

definition stuck_pair :: "task_id \<Rightarrow> task_id \<Rightarrow> lock_state \<Rightarrow> bool" where
  "stuck_pair t u s \<longleftrightarrow> callers s t = (Reading, upgradable_downgrade) \<and>
     callers s u = (Reading, [Acquire_first, Release Shared_mtx, Release Meta_mtx]) \<and>
     mutexes s Meta_mtx = u \<and> mutexes s Exclusive_mtx = t \<and>
     (\<forall>v. v \<noteq> t \<and> v \<noteq> u \<longrightarrow>
        callers s v \<in> {(Nothing, []), (Writing, upgradable_lock), (Reading, upgradable_lock_shared)})"

lemma stuck_callers:
  "stuck_pair t u s \<Longrightarrow> callers s t = (Reading, upgradable_downgrade) \<and>
     callers s u = (Reading, [Acquire_first, Release Shared_mtx, Release Meta_mtx])"
  by (simp add: stuck_pair_def)

lemma stuck_step:
  assumes st: "stuck_pair t u s" and "lock_step upgradable_methods s s'"
    and "t \<noteq> INVALID_TASK_ID" "u \<noteq> INVALID_TASK_ID"
  shows "stuck_pair t u s'"
  using assms(2)
proof (cases rule: lock_step.cases)
  case (call v g h as)
  have "v \<noteq> t" "v \<noteq> u" using call st by (auto simp: stuck_pair_def method_defs)
  then have "g = Nothing" using st call by (auto simp: stuck_pair_def method_defs)
  then show ?thesis using call st \<open>v \<noteq> t\<close> \<open>v \<noteq> u\<close> by (auto simp: stuck_pair_def method_defs)
next
  case (act v h a as bs s1)
  from st have m: "mutexes s Meta_mtx = u" "mutexes s Exclusive_mtx = t"
    and o: "v \<noteq> t \<Longrightarrow> v \<noteq> u \<Longrightarrow> callers s v \<in> {(Nothing, []), (Writing, upgradable_lock), (Reading, upgradable_lock_shared)}"
    by (auto simp: stuck_pair_def)
  have "a = Acquire Meta_mtx \<or> a = Acquire_first"
  proof (cases "v = t \<or> v = u")
    case True
    then show ?thesis using act(2) st by (auto simp: stuck_pair_def method_defs)
  next
    case False
    then show ?thesis using act(2) o by (auto simp: method_defs)
  qed
  then have "run_action v a s = None" using m assms(3,4) by (auto simp: try_lock_taken)
  then show ?thesis using act by simp
qed

lemma stuck_for_ever:
  assumes "(lock_step upgradable_methods)\<^sup>*\<^sup>* s s'" and "stuck_pair t u s" and "t \<noteq> INVALID_TASK_ID" "u \<noteq> INVALID_TASK_ID"
  shows "stuck_pair t u s'"
  using assms(1,2) by induction (auto intro: stuck_step [OF _ _ assms(3,4)])

text \<open>C13: downgrading deadlocks. A task that takes an \<open>upgradable_shared_mutex\<close> for writing and then downgrades
  it (as the block cache does when it reads a block in) can meet a second task that asks for reading in
  between: there is a run after which neither ever returns from its call, whatever any task does.\<close>

theorem downgrade_deadlocks:
  assumes "t \<noteq> u" and "t \<noteq> INVALID_TASK_ID" and "u \<noteq> INVALID_TASK_ID"
  shows "\<exists>s. lock_reachable upgradable_methods s \<and>
    callers s t = (Reading, upgradable_downgrade) \<and> snd (callers s u) \<noteq> [] \<and>
    (\<forall>s'. (lock_step upgradable_methods)\<^sup>*\<^sup>* s s' \<longrightarrow> callers s' t = callers s t \<and> callers s' u = callers s u)"
proof -
  obtain s where s: "play upgradable_methods
     [Call t Writing upgradable_lock, Act t, Act t, Act t, Call u Reading upgradable_lock_shared, Act u, Act u, Act u,
      Call t Reading upgradable_downgrade] new_lock = Some s" and st: "stuck_pair t u s"
    using assms by (simp add: new_lock_def method_defs try_lock_free init_mutex_free kernel_unlock_mutex_def
        set_caller_def stuck_pair_def)
  have "lock_reachable upgradable_methods s" by (rule play_reachable [OF s start])
  moreover have "callers s' t = callers s t \<and> callers s' u = callers s u"
    if "(lock_step upgradable_methods)\<^sup>*\<^sup>* s s'" for s'
    using stuck_callers [OF stuck_for_ever [OF that st assms(2,3)]] stuck_callers [OF st] by metis
  moreover have "snd (callers s u) \<noteq> []" using stuck_callers [OF st] by simp
  ultimately show ?thesis using stuck_callers [OF st] by blast
qed

section \<open>The plain lock makes progress\<close>

lemma shared_phase_rest: "(h, a # as) \<in> set (phases_of shared_methods) \<Longrightarrow> (h, as) \<in> set (phases_of shared_methods)"
  by (auto simp: phases_of_def method_defs)

lemma shared_phases:
  assumes "lock_reachable shared_methods s"
  shows "callers s t \<in> set (phases_of shared_methods)"
  using assms
proof (induction arbitrary: t)
  case start
  show ?case by (simp add: new_lock_def phases_of_def)
next
  case (step s s')
  from step(2) show ?case
  proof (cases rule: lock_step.cases)
    case (call v g h as)
    then have "(h, as) \<in> set (phases_of shared_methods)" by (auto simp: phases_of_def method_defs)
    then show ?thesis using call step.IH [of t] by simp
  next
    case (act v h a as bs s1)
    have p: "(h, a # as) \<in> set (phases_of shared_methods)" using step.IH [of v] act(2) by simp
    have "(h, bs @ as) \<in> set (phases_of shared_methods)"
      using act(3) shared_phase_rest [OF p] p
      by (cases a) (auto simp: phases_of_def method_defs split: prod.splits bool.splits if_splits)
    moreover have "callers s1 = callers s" using act(3) by (auto split: prod.splits bool.splits elim!: run_action.elims)
    ultimately show ?thesis using act step.IH [of t] by simp
  qed
qed

text \<open>A task that can move, or that holds the lock between two calls.\<close>

definition active :: "lock_state \<Rightarrow> task_id \<Rightarrow> bool" where
  "active s u \<longleftrightarrow> (case callers s u of
     (h, []) \<Rightarrow> h \<noteq> Nothing
   | (h, a # as) \<Rightarrow> run_action u a s \<noteq> None)"

text \<open>C14: the plain \<open>shared_mutex\<close> cannot deadlock: whenever a task waits in one of its calls, some task can take
  its next action or holds the lock and has yet to give it back.\<close>

theorem shared_mutex_progress:
  assumes "lock_reachable shared_methods s" and "callers s t = (h, a # as)"
  shows "\<exists>u. active s u"
proof -
  have inv: "lock_inv s" by (rule lock_inv_reachable [OF assms(1)]) auto
  then have hi: "holders_inv (those writes s) (those counted s) (those first s) (those final s)
       (those (holds Shared_mtx) s) (those (holds Meta_mtx) s) (mutexes s) (num_shared s)" by (simp add: lock_inv_def)
  note ph = shared_phases [OF assms(1)]
  have w: "active s u" if "u \<in> those writes s" for u
    using ph [of u] that by (auto simp: active_def those_def phases_of_def method_defs phase_defs)
  have l: "active s u" if "u \<in> those final s" for u
    using ph [of u] that by (auto simp: active_def those_def phases_of_def method_defs phase_defs)
  have sh: "active s u" if "u \<in> those (holds Shared_mtx) s" "u \<notin> those first s" for u
    using ph [of u] that by (auto simp: active_def those_def phases_of_def method_defs phase_defs)
  have c: "active s u" if "u \<in> those counted s" "u \<notin> those first s" "mutexes s Shared_mtx = INVALID_TASK_ID" for u
    using ph [of u] that by (auto simp: active_def those_def phases_of_def method_defs phase_defs try_lock_free)
  show ?thesis
  proof (cases "mutexes s Exclusive_mtx = INVALID_TASK_ID")
    case True
    then have "active s u" if "u \<in> those first s" for u
      using ph [of u] that by (auto simp: active_def those_def phases_of_def method_defs phase_defs try_lock_free)
    then have "active s (mutexes s Shared_mtx)" if "mutexes s Shared_mtx \<noteq> INVALID_TASK_ID"
      using sh hi that by (auto simp: holders_inv_def held_by_def)
    moreover have "active s t" if "mutexes s Shared_mtx = INVALID_TASK_ID"
      using ph [of t] assms(2) that True by (auto simp: active_def phases_of_def method_defs try_lock_free)
    ultimately show ?thesis by blast
  next
    case False
    then consider "those writes s \<noteq> {}" | "those final s \<noteq> {}" | u where "u \<in> those counted s" "those first s = {}"
      using hi by (auto simp: holders_inv_def)
    then show ?thesis
    proof cases
      case 3
      then show ?thesis using sh [of "mutexes s Shared_mtx"] c [of u] hi
        by (cases "mutexes s Shared_mtx = INVALID_TASK_ID") (auto simp: holders_inv_def held_by_def)
    qed (use w l in blast)+
  qed
qed

section \<open>Witnesses\<close>

lemmas play_simps = new_lock_def method_defs try_lock_free init_mutex_free kernel_unlock_mutex_def set_caller_def

lemma one_two_valid: "(1 :: task_id) \<noteq> INVALID_TASK_ID" "(2 :: task_id) \<noteq> INVALID_TASK_ID"
  by (simp_all add: INVALID_TASK_ID_def)

theorem lock_excludes_witness:
  "\<exists>s. lock_reachable upgradable_methods s \<and> callers s 1 = (Writing, []) \<and> callers s 2 \<noteq> (Reading, [])"
proof -
  obtain s where p: "play upgradable_methods [Call 1 Writing upgradable_lock, Act 1, Act 1, Act 1] new_lock = Some s"
    and s: "callers s 1 = (Writing, [])"
    using one_two_valid by (simp add: play_simps)
  then have "lock_reachable upgradable_methods s" by (intro play_reachable [OF p start])
  then show ?thesis using lock_excludes [of upgradable_methods s 1 2] s by auto
qed

theorem downgrade_deadlocks_witness:
  "\<exists>s. lock_reachable upgradable_methods s \<and> callers s 1 = (Reading, upgradable_downgrade) \<and> snd (callers s 2) \<noteq> []"
  using downgrade_deadlocks [of 1 2] one_two_valid by auto

theorem shared_mutex_progress_witness:
  "\<exists>s. lock_reachable shared_methods s \<and> callers s 2 = (Reading, [Acquire_first, Release Shared_mtx]) \<and> (\<exists>u. active s u)"
proof -
  obtain s where p: "play shared_methods [Call 1 Writing shared_mutex_lock, Act 1,
      Call 2 Reading shared_mutex_lock_shared, Act 2, Act 2] new_lock = Some s"
    and s: "callers s 2 = (Reading, [Acquire_first, Release Shared_mtx])"
    using one_two_valid by (simp add: play_simps)
  then have "lock_reachable shared_methods s" by (intro play_reachable [OF p start])
  then show ?thesis using shared_mutex_progress [of s 2] s by auto
qed

end
