(* ===== verification/Iso9660.thy ===== *)
theory Iso9660
  imports Streams CTime FatTable
begin

text \<open>
  The ISO 9660 driver (\<open>drivers/formats/iso9660.cpp\<close>): finding the volume descriptor, directory records and
  reading. Structs on the disk are byte lists, read at the offsets of their packed fields; numbers stored
  in both byte orders are read in the first, little-endian, form.
\<close>

record iso9660_drive =
  iso_sector_size :: u32
  iso_sector_size_log2 :: u32
  iso_blocks_per_sector :: u32
  iso_blocks_per_sector_log2 :: u32

type_synonym 'm iso_volume = "('m, iso9660_drive) filesystem_virtual_drive"

definition ISO_DIRECTORY :: byte where "ISO_DIRECTORY = 0x02"

section \<open>Directory records\<close>

text \<open>The time of a record: seven bytes at offset 18, the time zone is not used.\<close>

definition iso9660_time_to_time_t :: "bytes \<Rightarrow> int option" where
  "iso9660_time_to_time_t t =
     mktime \<lparr>tm_sec = uint (t ! 5), tm_min = uint (t ! 4), tm_hour = uint (t ! 3), tm_mday = uint (t ! 2),
       tm_mon = uint (t ! 1) - 1, tm_year = uint (t ! 0), tm_wday = 0, tm_yday = 0, tm_isdst = 0\<rparr>"

definition SEMICOLON :: byte where "SEMICOLON = 0x3B"

definition iso9660_read_entry_name :: "bytes \<Rightarrow> bytes" where
  "iso9660_read_entry_name full_name =
     (let full_name = (case find_if (\<lambda>c. c = SEMICOLON) full_name of Some pos \<Rightarrow> take pos full_name | None \<Rightarrow> full_name)
      in if full_name = [] \<or> full_name ! 0 = 0 then ascii ''.''
         else if full_name = [1] then ascii ''..''
         else full_name)"

definition iso9660_read_dir_entry :: "bytes option \<Rightarrow> bytes \<Rightarrow> u32 \<Rightarrow> file_handle option" where
  "iso9660_read_dir_entry parent_dir entry drv =
     (if length entry < 33 then None
      else do {
        nm \<leftarrow> slice 33 (unat (entry ! 32)) entry;
        time \<leftarrow> iso9660_time_to_time_t (take 7 (drop 18 entry));
        Some \<lparr>dir_path = parent_dir, name = iso9660_read_entry_name nm,
          file_data = \<lparr>location_on_disk = get32 entry 2, disk_id = drv, file_size = ucast (get32 entry 10),
            file_flags = (if entry ! 25 AND ISO_DIRECTORY \<noteq> 0 then IS_DIR else 0), format_data = replicate 8 0\<rparr>,
          time_created = word_of_int time, time_modified = word_of_int time\<rparr>
      })"

section \<open>Reading\<close>

definition iso9660_read_chunks ::
  "bytes \<Rightarrow> u32 \<Rightarrow> u64 \<Rightarrow> u32 \<Rightarrow> file_data_block \<Rightarrow> 'm iso_volume \<Rightarrow> (bytes \<times> u32 \<times> 'm iso_volume) option" where
  "iso9660_read_chunks dst location off num_bytes file_block fd =
     (let f = fs_impl_data fd; f_offset = ucast off in do {
        (xs, fd) \<leftarrow> filesystem_read fd (push_bit (unat (iso_blocks_per_sector_log2 f)) location) f_offset num_bytes;
        dst \<leftarrow> patch 0 xs dst;
        Some (dst, location + drop_bit (unat (iso_sector_size_log2 f)) (f_offset + num_bytes), fd)
      })"

text \<open>The records of a directory; zero bytes between them are skipped.\<close>

function iso9660_scan :: "bytes option \<Rightarrow> u32 \<Rightarrow> nat \<Rightarrow> bytes \<Rightarrow> nat \<Rightarrow> file_handle list option" where
  "iso9660_scan parent drv dir_size buf pos =
     (if pos < dir_size
      then case drop pos buf of
             [] \<Rightarrow> None
           | len # rest \<Rightarrow>
               if len = 0 then iso9660_scan parent drv dir_size buf (pos + 1)
               else do {
                 h \<leftarrow> iso9660_read_dir_entry parent (len # rest) drv;
                 hs \<leftarrow> iso9660_scan parent drv dir_size buf (pos + unat len);
                 Some (h # hs)
               }
      else Some [])"
  by pat_completeness auto
termination
  by (relation "measure (\<lambda>(parent, drv, dir_size, buf, pos). dir_size - pos)") (auto intro!: diff_less_mono2 simp: unat_gt_0)

declare iso9660_scan.simps [simp del]

definition iso9660_read_dir ::
  "directory_stream \<Rightarrow> file_data_block \<Rightarrow> 'm iso_volume \<Rightarrow> (directory_stream \<times> 'm iso_volume) option" where
  "iso9660_read_dir dest file_block fd =
     (let f = fs_impl_data fd;
          dir_size = (ucast (file_size file_block) :: u32);
          num_sectors = drop_bit (unat (iso_sector_size_log2 f)) (dir_size + (iso_sector_size f - 1));
          buffer_size = push_bit (unat (iso_sector_size_log2 f)) num_sectors
      in do {
        (buf, _, fd) \<leftarrow>
          iso9660_read_chunks (replicate (unat buffer_size) 0) (location_on_disk file_block) 0 buffer_size file_block fd;
        hs \<leftarrow> iso9660_scan (full_path dest) (fs_id fd) (unat dir_size) buf 0;
        Some (dest\<lparr>file_list := file_list dest @ hs\<rparr>, fd)
      })"

section \<open>Mounting\<close>

definition ISO_DEFAULT_SECTOR_SIZE :: u32 where "ISO_DEFAULT_SECTOR_SIZE = 0x800"

text \<open>The size of a volume descriptor, and the offsets of two of its fields.\<close>

definition VOLUME_DESCRIPTOR_SIZE :: u32 where "VOLUME_DESCRIPTOR_SIZE = 883"
definition LOGICAL_BLOCK_SIZE_AT :: nat where "LOGICAL_BLOCK_SIZE_AT = 128"
definition ROOT_AT :: nat where "ROOT_AT = 156"

text \<open>The descriptors from \<open>sector\<close> on up to the primary one, or nothing when one is none.\<close>

partial_function (option) find_descriptor ::
  "u32 \<Rightarrow> u32 \<Rightarrow> 'm iso_volume \<Rightarrow> (bytes option \<times> 'm iso_volume) option" where
  "find_descriptor bps sector fd =
     Option.bind (filesystem_read fd (sector * bps) 0 VOLUME_DESCRIPTOR_SIZE) (\<lambda>(descriptor, fd).
       if take 5 (drop 1 descriptor) \<noteq> ascii ''CD001'' then Some (None, fd)
       else if descriptor ! 0 \<noteq> 1 then find_descriptor bps (sector + 1) fd
       else Some (Some descriptor, fd))"

definition empty_iso_drive :: iso9660_drive where
  "empty_iso_drive = \<lparr>iso_sector_size = 0, iso_sector_size_log2 = 0, iso_blocks_per_sector = 0,
     iso_blocks_per_sector_log2 = 0\<rparr>"

definition iso9660_mount_disk ::
  "'m iso_volume \<Rightarrow> (mount_status \<times> file_handle option \<times> 'm iso_volume) option" where
  "iso9660_mount_disk fd =
     (let fd = fd\<lparr>fs_impl_data := empty_iso_drive\<rparr> in
      if block_size fd = 0 then None
      else do {
        (found, fd) \<leftarrow> find_descriptor (ISO_DEFAULT_SECTOR_SIZE div block_size fd) 0x10 fd;
        (case found of
           None \<Rightarrow> Some (UNKNOWN_FILESYSTEM, None, fd)
         | Some descriptor \<Rightarrow>
             let lbs = get16 descriptor LOGICAL_BLOCK_SIZE_AT in
             if \<not> has_single_bit lbs then Some (MOUNT_FAILURE, None, fd)
             else let bps = lbs div block_size fd;
                      f = \<lparr>iso_sector_size = lbs, iso_sector_size_log2 = of_nat (countr_zero lbs),
                           iso_blocks_per_sector = bps, iso_blocks_per_sector_log2 = of_nat (countr_zero bps)\<rparr>;
                      fd = fd\<lparr>fs_impl_data := f\<rparr>
                  in if lbs < block_size fd then Some (DRIVE_NOT_SUPPORTED, None, fd)
                     else do {
                       h \<leftarrow> iso9660_read_dir_entry None (drop ROOT_AT descriptor) (fs_id fd);
                       Some (MOUNT_SUCCESS, Some (h\<lparr>name := root_name fd\<rparr>), fd)
                     })
      })"

definition iso9660_driver :: "'m iso_volume filesystem_driver" where
  "iso9660_driver = \<lparr>mount_disk = iso9660_mount_disk, read_chunks = Some iso9660_read_chunks, write_chunks = None,
     allocate_chunks = None, read_dir = iso9660_read_dir, flush_file = None, create_file = None, delete_file = None\<rparr>"

end
