(* ===== verification/Extents.thy ===== *)
theory Extents
  imports FsTypes DrivesCorrect
begin

text \<open>
  Volumes whose filesystem has blocks of its own, of \<open>2 ^ q\<close> bytes, on a disk with blocks of \<open>2 ^ k\<close> bytes: what a
  read and a write at an offset in such a block do to the bytes of the disk.
\<close>

text \<open>The place of a block on the disk.\<close>

definition extent_at :: "nat \<Rightarrow> nat \<Rightarrow> ('m, 'i) filesystem_virtual_drive \<Rightarrow> u32 \<Rightarrow> nat" where
  "extent_at k q fd loc = unat (first_block fd) * 2 ^ k + unat loc * 2 ^ q"

lemma extent_at_disk [simp]: "extent_at k q (fd\<lparr>disk := d\<rparr>) = extent_at k q fd"
  by (rule ext) (simp add: extent_at_def)

lemma small_exponent: "n < 32 \<Longrightarrow> unat (of_nat n :: u32) = n"
  by (simp add: unat_of_nat)

lemma disk_holds_bound: "disk_holds drv k j N img d f \<Longrightarrow> N < 2 ^ 32"
  using unat_u32_bound by (auto simp: disk_holds_def cached_disk_def drive_shape_def)

lemma extent_address:
  assumes "k \<le> q" and "N < 2 ^ 32" and "extent_at k q fd loc \<le> N * 2 ^ k"
  shows "unat (push_bit (q - k) loc + first_block fd) * 2 ^ k = extent_at k q fd loc"
proof -
  have e: "unat loc * 2 ^ (q - k) * 2 ^ k = unat loc * 2 ^ q"
    using assms(1) by (simp flip: power_add)
  have "(unat loc * 2 ^ (q - k) + unat (first_block fd)) * 2 ^ k \<le> N * 2 ^ k"
    using assms(3) by (simp add: extent_at_def distrib_right e)
  then have "unat loc * 2 ^ (q - k) + unat (first_block fd) \<le> N" by simp
  with assms(2) have b: "unat loc * 2 ^ (q - k) + unat (first_block fd) < 2 ^ 32" by linarith
  then have "unat (push_bit (q - k) loc) = unat loc * 2 ^ (q - k)" by (intro unat_shift_left_small) simp
  with b have "unat (push_bit (q - k) loc + first_block fd) = unat loc * 2 ^ (q - k) + unat (first_block fd)"
    by (subst u32_add) simp_all
  then show ?thesis unfolding extent_at_def by (simp add: distrib_right e)
qed

lemma extent_read:
  assumes dh: "disk_holds drv k j N img (disk fd) f" and kq: "k \<le> q"
    and fit: "extent_at k q fd loc + unat off + unat n \<le> N * 2 ^ k"
  shows "\<exists>d. filesystem_read fd (push_bit (q - k) loc) off n =
      Some (map f [extent_at k q fd loc + unat off..<extent_at k q fd loc + unat off + unat n], fd\<lparr>disk := d\<rparr>) \<and>
    disk_holds drv k j N img d f"
proof -
  let ?b = "push_bit (q - k) loc + first_block fd"
  have p: "unat ?b * 2 ^ k = extent_at k q fd loc"
    by (rule extent_address [OF kq disk_holds_bound [OF dh]]) (use fit in simp)
  then have "unat ?b * 2 ^ k + unat off + unat n \<le> N * 2 ^ k" using fit by simp
  from filesystem_read_from_disk_ok [OF dh this] p show ?thesis by (auto simp: filesystem_read_def)
qed

text \<open>A drive whose blocks need no bulk transfer: the transfers of at most \<open>m\<close> bytes go through the cache.\<close>

definition cached_writes :: "'m disk_driver \<Rightarrow> nat \<Rightarrow> nat \<Rightarrow> bool" where
  "cached_writes drv k m \<longleftrightarrow> write_blocks drv \<noteq> None \<and> (allocate_buffer drv \<noteq> None \<or> k = 0 \<or> m < 2 * 2 ^ k)"

lemma disk_holds_write_path:
  assumes "disk_holds drv k j N img d f" and "cached_writes drv k m" and "n \<le> m"
  shows "supports_byte_access d \<or> needs_buffer d \<or> n < 2 * 2 ^ k"
proof -
  have s: "drive_shape drv k j N d" using assms(1) by (simp add: disk_holds_def cached_disk_def)
  then have "needs_buffer d \<longleftrightarrow> allocate_buffer drv \<noteq> None" by (simp add: needs_buffer_def drive_shape_def)
  then show ?thesis using supports_byte_access_shape [OF s] assms(2,3) by (auto simp: cached_writes_def)
qed

lemma extent_write:
  assumes dh: "disk_holds drv k j N img (disk fd) f" and kq: "k \<le> q"
    and fit: "extent_at k q fd loc + unat off + unat n \<le> N * 2 ^ k"
    and w: "cached_writes drv k m" "unat n \<le> m" and buf: "unat n \<le> length buf"
  shows "\<exists>d. filesystem_write fd (push_bit (q - k) loc) off buf n = Some (fd\<lparr>disk := d\<rparr>) \<and>
    disk_holds drv k j N img d (overlay (extent_at k q fd loc + unat off) (take (unat n) buf) f)"
proof -
  let ?b = "push_bit (q - k) loc + first_block fd"
  have p: "unat ?b * 2 ^ k = extent_at k q fd loc"
    by (rule extent_address [OF kq disk_holds_bound [OF dh]]) (use fit in simp)
  then have r: "unat ?b * 2 ^ k + unat off + unat n \<le> N * 2 ^ k" using fit by simp
  have "write_blocks drv \<noteq> None" using w(1) by (simp add: cached_writes_def)
  from filesystem_write_to_disk_ok [OF dh this buf r disk_holds_write_path [OF dh w]] p show ?thesis
    by (auto simp: filesystem_write_def)
qed

end
