(* ===== verification/Iso9660Correct.thy ===== *)
theory Iso9660Correct
  imports Iso9660 Extents Devices
begin

text \<open>
  What the ISO 9660 driver reads of a volume: the bytes of an extent, and the records of a directory.
\<close>

section \<open>Extents\<close>

text \<open>A mounted volume with sectors of \<open>2 ^ q\<close> bytes on a disk with the contents \<open>f\<close>.\<close>

definition iso_volume_on ::
  "'m disk_driver \<Rightarrow> nat \<Rightarrow> nat \<Rightarrow> nat \<Rightarrow> ('m \<Rightarrow> nat \<Rightarrow> byte) \<Rightarrow> (nat \<Rightarrow> byte) \<Rightarrow> nat \<Rightarrow> 'm iso_volume \<Rightarrow> bool" where
  "iso_volume_on drv k j N img f q fd \<longleftrightarrow>
     disk_holds drv k j N img (disk fd) f \<and> k \<le> q \<and> q < 32 \<and>
     fs_impl_data fd = \<lparr>iso_sector_size = 2 ^ q, iso_sector_size_log2 = of_nat q,
       iso_blocks_per_sector = 2 ^ (q - k), iso_blocks_per_sector_log2 = of_nat (q - k)\<rparr>"

lemma iso_filesystem_read:
  assumes v: "iso_volume_on drv k j N img f q fd"
    and fit: "extent_at k q fd loc + unat off + unat n \<le> N * 2 ^ k"
  defines "p \<equiv> extent_at k q fd loc + unat off"
  shows "\<exists>d'. filesystem_read fd (push_bit (unat (iso_blocks_per_sector_log2 (fs_impl_data fd))) loc) off n =
      Some (map f [p..<p + unat n], fd\<lparr>disk := d'\<rparr>) \<and> iso_volume_on drv k j N img f q (fd\<lparr>disk := d'\<rparr>)"
proof -
  have dh: "disk_holds drv k j N img (disk fd) f" and kq: "k \<le> q" "q < 32"
    and lg0: "iso_blocks_per_sector_log2 (fs_impl_data fd) = of_nat (q - k)"
    using v unfolding iso_volume_on_def by simp_all
  have lg: "unat (iso_blocks_per_sector_log2 (fs_impl_data fd)) = q - k"
    unfolding lg0 by (rule small_exponent) (use kq in simp)
  from extent_read [OF dh kq(1) fit] obtain d where
    "filesystem_read fd (push_bit (q - k) loc) off n = Some (map f [p..<p + unat n], fd\<lparr>disk := d\<rparr>)"
    and "disk_holds drv k j N img d f" unfolding p_def by blast
  then show ?thesis unfolding lg using v by (auto simp: iso_volume_on_def)
qed

lemma iso_read_chunks_ok:
  assumes "iso_volume_on drv k j N img f q fd" and "length dst = unat n"
    and "extent_at k q fd loc + unat (ucast off :: u32) + unat n \<le> N * 2 ^ k"
  shows "\<exists>loc' d'. iso9660_read_chunks dst loc off n file_block fd =
    Some (map f [extent_at k q fd loc + unat (ucast off :: u32)..<extent_at k q fd loc + unat (ucast off :: u32) + unat n],
          loc', fd\<lparr>disk := d'\<rparr>)"
  using iso_filesystem_read [OF assms(1,3)] assms(2) by (auto simp: iso9660_read_chunks_def Let_def patch_def)

section \<open>Directories\<close>

text \<open>A record says its own length and that of its name.\<close>

definition iso_record :: "bytes \<Rightarrow> bool" where
  "iso_record r \<longleftrightarrow> 33 \<le> length r \<and> unat (r ! 0) = length r \<and> 33 + unat (r ! 32) \<le> length r"

definition iso_directory :: "(bytes \<times> nat) list \<Rightarrow> bytes" where
  "iso_directory rs = concat (map (\<lambda>(r, pad). r @ replicate pad 0) rs)"

lemma get32_append: "i + 4 \<le> length r \<Longrightarrow> get32 (r @ rest) i = get32 r i"
  by (simp add: get32_def)

lemma read_dir_entry_append:
  "iso_record r \<Longrightarrow> iso9660_read_dir_entry parent (r @ rest) drv = iso9660_read_dir_entry parent r drv"
  by (simp add: iso9660_read_dir_entry_def iso_record_def get32_append nth_append slice_def Option.bind_lunit)

lemma bind_Some_map: "Option.bind x (\<lambda>y. Some (g y)) = map_option g x"
  by (cases x) auto

lemma map_upt_shift: "map f [p..<p + n] = map (\<lambda>i. f (p + i)) [0..<n]"
  by (rule nth_equalityI) auto

lemma scan_end: "iso9660_scan parent drv n buf n = Some []"
  by (subst iso9660_scan.simps) simp

lemma scan_zeros:
  assumes "drop pos buf = replicate pad 0 @ rest" and "pos + pad \<le> n"
  shows "iso9660_scan parent drv n buf pos = iso9660_scan parent drv n buf (pos + pad)"
  using assms
proof (induction pad arbitrary: pos)
  case (Suc pad)
  then have d: "drop pos buf = 0 # replicate pad 0 @ rest" "drop (pos + 1) buf = replicate pad 0 @ rest" "pos < n"
    by (auto simp: drop_Suc drop_tl)
  then have "iso9660_scan parent drv n buf pos = iso9660_scan parent drv n buf (pos + 1)"
    by (subst iso9660_scan.simps) simp
  also have "\<dots> = iso9660_scan parent drv n buf (pos + 1 + pad)"
    using d Suc.prems by (intro Suc.IH) auto
  finally show ?case by simp
qed simp

lemma scan_directory:
  assumes "drop pos buf = iso_directory rs @ rest" and "n = pos + length (iso_directory rs)"
    and "\<forall>(r, pad) \<in> set rs. iso_record r"
  shows "iso9660_scan parent drv n buf pos = those (map (\<lambda>(r, pad). iso9660_read_dir_entry parent r drv) rs)"
  using assms
proof (induction rs arbitrary: pos)
  case Nil
  then show ?case by (simp add: iso_directory_def scan_end)
next
  case (Cons x rs)
  obtain r pad where x: "x = (r, pad)" by fastforce
  have r: "iso_record r" and rs: "\<forall>(r, pad) \<in> set rs. iso_record r" using Cons.prems(3) x by auto
  have d: "drop pos buf = r @ replicate pad 0 @ iso_directory rs @ rest"
    using Cons.prems(1) by (simp add: x iso_directory_def)
  have n: "n = pos + (length r + pad + length (iso_directory rs))" using Cons.prems(2) by (simp add: x iso_directory_def)
  from r obtain l r' where l: "r = l # r'" "unat l = length r" and "pos < n" using n
    by (cases r) (auto simp: iso_record_def)
  then have l0: "l \<noteq> 0" "pos < n" by auto
  have d1: "drop (pos + length r) buf = replicate pad 0 @ iso_directory rs @ rest"
    using d by (metis add.commute append_eq_conv_conj drop_drop)
  have d2: "drop (pos + length r + pad) buf = iso_directory rs @ rest"
    using d1 by (metis add.commute append_eq_conv_conj drop_drop length_replicate)
  have "iso9660_scan parent drv n buf (pos + length r) = iso9660_scan parent drv n buf (pos + length r + pad)"
    using d1 n by (intro scan_zeros) auto
  also have "\<dots> = those (map (\<lambda>(r, pad). iso9660_read_dir_entry parent r drv) rs)"
    using d2 n rs by (intro Cons.IH) auto
  finally have step: "iso9660_scan parent drv n buf (pos + unat l) = those (map (\<lambda>(r, pad). iso9660_read_dir_entry parent r drv) rs)"
    by (simp add: l(2))
  have e: "iso9660_read_dir_entry parent (l # r' @ replicate pad 0 @ iso_directory rs @ rest) drv = iso9660_read_dir_entry parent r drv"
    using read_dir_entry_append [OF r, of parent "replicate pad 0 @ iso_directory rs @ rest" drv] by (simp add: l(1))
  show ?case
    using l0 d step
    by (subst iso9660_scan.simps) (simp add: x l(1) e [unfolded l(1)] bind_Some_map split: option.split)
qed

text \<open>C16: an ISO 9660 directory is read whole: whatever records lie in its extent, with any padding of zeros
  between them, the driver lists exactly the files of the records, in their order.\<close>

theorem iso_directory_listed:
  assumes "iso_volume_on drv k j N img f q fd"
    and "\<forall>(r, pad) \<in> set rs. iso_record r"
    and "unat (file_size dir) = length (iso_directory rs)"
    and "length (iso_directory rs) + 2 ^ q \<le> 2 ^ 32"
    and "extent_at k q fd (location_on_disk dir) + length (iso_directory rs) + 2 ^ q \<le> N * 2 ^ k"
    and "map (\<lambda>i. f (extent_at k q fd (location_on_disk dir) + i)) [0..<length (iso_directory rs)] = iso_directory rs"
    and "those (map (\<lambda>(r, pad). iso9660_read_dir_entry (full_path dest) r (fs_id fd)) rs) = Some hs"
  shows "\<exists>fd'. iso9660_read_dir dest dir fd = Some (dest\<lparr>file_list := file_list dest @ hs\<rparr>, fd')"
proof -
  define L where "L = length (iso_directory rs)"
  define ds :: u32 where "ds = ucast (file_size dir)"
  have q: "q < 32" and f: "iso_sector_size (fs_impl_data fd) = 2 ^ q" "unat (iso_sector_size_log2 (fs_impl_data fd)) = q"
    using assms(1) by (auto simp: iso_volume_on_def small_exponent)
  have "L + 2 ^ q \<le> 4294967296" using assms(4) by (simp add: L_def)
  moreover have "(0 :: nat) < 2 ^ q" by simp
  ultimately have "L < 4294967296" by linarith
  then have ds: "unat ds = L" using assms(3) by (simp add: ds_def L_def unat_ucast_small)
  define ns where "ns = drop_bit q (ds + (2 ^ q - 1))"
  define bs where "bs = push_bit q ns"
  have uq: "unat (2 ^ q - 1 :: u32) = 2 ^ q - 1" using q by (subst u32_sub) (simp_all add: word_le_nat_alt)
  have "unat (ds + (2 ^ q - 1)) = L + (2 ^ q - 1)"
    using assms(4) uq ds unfolding L_def by (subst u32_add) (simp_all add: L_def)
  then have uns: "unat ns = (L + (2 ^ q - 1)) div 2 ^ q" by (simp add: ns_def unat_shift_right)
  have B: "L \<le> unat ns * 2 ^ q" "unat ns * 2 ^ q < L + 2 ^ q"
  proof -
    have "(L + (2 ^ q - 1)) mod 2 ^ q < 2 ^ q" by simp
    moreover have "unat ns * 2 ^ q + (L + (2 ^ q - 1)) mod 2 ^ q = L + (2 ^ q - 1)"
      unfolding uns by (rule div_mult_mod_eq)
    moreover have "(1 :: nat) \<le> 2 ^ q" by simp
    ultimately show "L \<le> unat ns * 2 ^ q" "unat ns * 2 ^ q < L + 2 ^ q" by linarith+
  qed
  have ub: "unat bs = unat ns * 2 ^ q"
    unfolding bs_def using B(2) assms(4) by (intro unat_shift_left_small) (simp add: L_def)
  define P where "P = extent_at k q fd (location_on_disk dir)"
  have fit: "extent_at k q fd (location_on_disk dir) + unat (ucast (0 :: u64) :: u32) + unat bs \<le> N * 2 ^ k"
    using assms(5) B(2) ub by (simp add: L_def)
  obtain loc' d' where rd: "iso9660_read_chunks (replicate (unat bs) 0) (location_on_disk dir) 0 bs dir fd =
      Some (map f [P..<P + unat bs], loc', fd\<lparr>disk := d'\<rparr>)"
    using iso_read_chunks_ok [OF assms(1) _ fit, of "replicate (unat bs) 0" dir] by (auto simp: P_def)
  have "map f [P..<P + unat bs] = map f [P..<P + L] @ map f [P + L..<P + unat bs]"
    using upt_add_eq_append [of P "P + L" "unat bs - L"] B(1) ub by (simp flip: map_append)
  moreover have "map f [P..<P + L] = iso_directory rs"
    using assms(6) by (simp only: map_upt_shift P_def L_def)
  ultimately have "drop 0 (map f [P..<P + unat bs]) = iso_directory rs @ map f [P + L..<P + unat bs]" by simp
  from scan_directory [OF this _ assms(2)] assms(7)
  have "iso9660_scan (full_path dest) (fs_id fd) (unat ds) (map f [P..<P + unat bs]) 0 = Some hs"
    by (simp add: ds L_def)
  then show ?thesis
    using rd f by (simp add: iso9660_read_dir_def Let_def ds_def [symmetric] ns_def [symmetric] bs_def [symmetric])
qed

definition sample_record :: bytes where
  "sample_record = [34, 0, 5, 0, 0, 0, 0, 0, 0, 0, 100, 0, 0, 0, 0, 0, 0, 0, 100, 1, 1, 0, 0, 0, 0, 0, 0, 0, 1, 0, 0, 1,
     1, 65]"

definition sample_iso :: "(nat \<Rightarrow> byte) iso_volume" where
  "sample_iso =
     \<lparr>disk = memory_disk (\<lambda>a. if 2048 \<le> a \<and> a < 2082 then sample_record ! (a - 2048) else 0),
      fs_impl_data = \<lparr>iso_sector_size = 2 ^ 11, iso_sector_size_log2 = of_nat 11,
        iso_blocks_per_sector = 2 ^ (11 - 9), iso_blocks_per_sector_log2 = of_nat (11 - 9)\<rparr>,
      fs_id = 3, first_block = 0, num_blocks = 64, block_size = 512, root_name = ascii ''0:''\<rparr>"

definition sample_extent :: file_data_block where
  "sample_extent = \<lparr>location_on_disk = 1, disk_id = 3, file_size = 34, file_flags = IS_DIR, format_data = []\<rparr>"

lemma sample_iso_on:
  "iso_volume_on (memory_driver 512) 9 1 64 (\<lambda>m. m)
     (\<lambda>a. if 2048 \<le> a \<and> a < 2082 then sample_record ! (a - 2048) else 0) 11 sample_iso"
  unfolding iso_volume_on_def sample_iso_def using memory_disk_holds by simp

theorem iso_directory_listed_witness:
  "\<exists>fd'. iso9660_read_dir \<lparr>full_path = None, dir_data = sample_extent, file_list = []\<rparr> sample_extent sample_iso =
     Some (\<lparr>full_path = None, dir_data = sample_extent, file_list =
       [\<lparr>dir_path = None, name = ascii ''A'',
          file_data = \<lparr>location_on_disk = 5, disk_id = 3, file_size = 100, file_flags = 0, format_data = replicate 8 0\<rparr>,
          time_created = 946684800, time_modified = 946684800\<rparr>]\<rparr>, fd')"
proof -
  let ?h = "\<lparr>dir_path = None, name = ascii ''A'',
     file_data = \<lparr>location_on_disk = 5, disk_id = 3, file_size = 100, file_flags = 0, format_data = replicate 8 0\<rparr>,
     time_created = 946684800, time_modified = 946684800\<rparr>"
  have len: "length (iso_directory [(sample_record, 0)]) = 34" by (simp add: iso_directory_def sample_record_def)
  have rec: "\<forall>(r, pad) \<in> set [(sample_record, 0 :: nat)]. iso_record r" by (simp add: iso_record_def sample_record_def)
  have entry: "iso9660_read_dir_entry None sample_record 3 = Some ?h"
    by (simp add: iso9660_read_dir_entry_def sample_record_def slice_def iso9660_time_to_time_t_def mktime_def i32_def
        ordinal_date_def is_leap_year_def time_constants iso9660_read_entry_name_def SEMICOLON_def get32_def ISO_DIRECTORY_def
        ascii_def of_char_def)
  have place: "extent_at 9 11 sample_iso (location_on_disk sample_extent) = 2048"
    by (simp add: extent_at_def sample_iso_def sample_extent_def)
  have data: "map (\<lambda>i. (\<lambda>a. if 2048 \<le> a \<and> a < 2082 then sample_record ! (a - 2048) else 0)
      (extent_at 9 11 sample_iso (location_on_disk sample_extent) + i)) [0..<length (iso_directory [(sample_record, 0)])] =
    iso_directory [(sample_record, 0)]"
    unfolding place len by (simp add: iso_directory_def sample_record_def upt_rec)
  show ?thesis
    using iso_directory_listed [OF sample_iso_on rec, where dir = sample_extent and hs = "[?h]" and
        dest = "\<lparr>full_path = None, dir_data = sample_extent, file_list = []\<rparr>"]
      data place len entry by (simp add: sample_extent_def sample_iso_def)
qed

end
