(* ===== verification/Rdfs.thy ===== *)
theory Rdfs
  imports Streams Devices FatTable
begin

text \<open>
  The filesystem of the ramdisk: the driver (\<open>drivers/formats/rdfs.cpp\<close>) and the tool that builds the image
  from the files of the build (\<open>tools/rdfs.cpp\<close>). A directory entry has 36 packed bytes: name, extension,
  attributes, offset, size and two times.
\<close>

definition RDFS_ENTRY_SIZE :: u32 where "RDFS_ENTRY_SIZE = 36"

section \<open>The driver\<close>

definition rdfs_mount_disk ::
  "('m, 'i) filesystem_virtual_drive \<Rightarrow>
     (mount_status \<times> file_handle option \<times> ('m, 'i) filesystem_virtual_drive) option" where
  "rdfs_mount_disk fd =
     (if 1 < block_size fd then Some (DRIVE_NOT_SUPPORTED, None, fd)
      else do {
        (magic, fd) \<leftarrow> filesystem_read fd 0 0 4;
        Some (if magic = ascii ''RDSK''
              then (MOUNT_SUCCESS,
                Some \<lparr>dir_path = None, name = root_name fd,
                  file_data = \<lparr>location_on_disk = 4, disk_id = fs_id fd, file_size = 0, file_flags = IS_DIR,
                    format_data = replicate 8 0\<rparr>,
                  time_created = 0, time_modified = 0\<rparr>, fd)
              else (UNKNOWN_FILESYSTEM, None, fd))
      })"

definition rdfs_read ::
  "bytes \<Rightarrow> u32 \<Rightarrow> u64 \<Rightarrow> u32 \<Rightarrow> file_data_block \<Rightarrow> ('m, 'i) filesystem_virtual_drive \<Rightarrow>
     (bytes \<times> u32 \<times> ('m, 'i) filesystem_virtual_drive) option" where
  "rdfs_read dst location off num_bytes file_block fd =
     (let f_offset = ucast off in do {
        (xs, fd) \<leftarrow> filesystem_read fd location f_offset num_bytes;
        dst \<leftarrow> patch 0 xs dst;
        Some (dst, location + f_offset + num_bytes, fd)
      })"

definition rdfs_read_field :: "bytes \<Rightarrow> bytes" where
  "rdfs_read_field field = (case find_if (\<lambda>c. c = 0) field of Some pos \<Rightarrow> take pos field | None \<Rightarrow> field)"

definition DOT_CHAR :: byte where "DOT_CHAR = 0x2E"

definition get64 :: "bytes \<Rightarrow> nat \<Rightarrow> u64" where
  "get64 b i = of_nat (le_nat (take 8 (drop i b)))"

definition rdfs_file :: "bytes option \<Rightarrow> u32 \<Rightarrow> bytes \<Rightarrow> file_handle" where
  "rdfs_file parent drv entry =
     (let nm = rdfs_read_field (take 8 entry); ext = rdfs_read_field (take 3 (drop 8 entry)) in
      \<lparr>dir_path = parent, name = (if ext \<noteq> [] then nm @ [DOT_CHAR] @ ext else nm),
        file_data = \<lparr>location_on_disk = get32 entry 12, disk_id = drv, file_size = ucast (get32 entry 16),
          file_flags = (if ucast (entry ! 11) AND IS_DIR \<noteq> 0 then IS_DIR else 0), format_data = replicate 8 0\<rparr>,
        time_created = get64 entry 28, time_modified = get64 entry 20\<rparr>)"

fun rdfs_read_entries ::
  "nat \<Rightarrow> u32 \<Rightarrow> bytes option \<Rightarrow> ('m, 'i) filesystem_virtual_drive \<Rightarrow>
     (file_handle list \<times> ('m, 'i) filesystem_virtual_drive) option" where
  "rdfs_read_entries 0 disk_location parent fd = Some ([], fd)"
| "rdfs_read_entries (Suc n) disk_location parent fd = do {
     (entry, fd) \<leftarrow> filesystem_read fd disk_location 0 RDFS_ENTRY_SIZE;
     let h = rdfs_file parent (fs_id fd) entry;
     (hs, fd) \<leftarrow> rdfs_read_entries n (disk_location + RDFS_ENTRY_SIZE) parent fd;
     Some (h # hs, fd)
   }"

definition rdfs_read_dir ::
  "directory_stream \<Rightarrow> file_data_block \<Rightarrow> ('m, 'i) filesystem_virtual_drive \<Rightarrow>
     (directory_stream \<times> ('m, 'i) filesystem_virtual_drive) option" where
  "rdfs_read_dir dest f fd = do {
     let location = location_on_disk f;
     (num_files, fd) \<leftarrow> filesystem_read fd location 0 4;
     (hs, fd) \<leftarrow> rdfs_read_entries (le_nat num_files) (location + 4) (full_path dest) fd;
     Some (dest\<lparr>file_list := file_list dest @ hs\<rparr>, fd)
   }"

definition rdfs_driver :: "('m, 'i) filesystem_virtual_drive filesystem_driver" where
  "rdfs_driver = \<lparr>mount_disk = rdfs_mount_disk, read_chunks = Some rdfs_read, write_chunks = None, allocate_chunks = None,
     read_dir = rdfs_read_dir, flush_file = None, create_file = None, delete_file = None\<rparr>"

section \<open>The tool\<close>

text \<open>
  \<open>stem\<close> and \<open>extension\<close> of a \<open>std::filesystem::path\<close>: the last component, split at its last dot; a dot in
  front does not count.
\<close>

definition path_filename :: "bytes \<Rightarrow> bytes" where
  "path_filename p = rev (takeWhile (\<lambda>c. c \<noteq> 0x2F) (rev p))"

definition path_stem :: "bytes \<Rightarrow> bytes" where
  "path_stem p =
     (let f = path_filename p; before = dropWhile (\<lambda>c. c \<noteq> DOT_CHAR) (rev f) in
      if f = ascii ''.'' \<or> f = ascii ''..'' \<or> length before \<le> 1 then f else rev (tl before))"

definition path_extension :: "bytes \<Rightarrow> bytes" where
  "path_extension p = drop (length (path_stem p)) (path_filename p)"

text \<open>A field of a struct that was set to zero, with as much of the text as fits.\<close>

definition fixed_field :: "nat \<Rightarrow> bytes \<Rightarrow> bytes" where
  "fixed_field n xs = take n xs @ replicate (n - length xs) 0"

definition rdfs_entry_bytes :: "u64 \<Rightarrow> u32 \<Rightarrow> bytes \<times> bytes \<Rightarrow> bytes" where
  "rdfs_entry_bytes now offset fd =
     fixed_field 8 (path_stem (fst fd)) @ fixed_field 3 (filter (\<lambda>c. c \<noteq> DOT_CHAR) (path_extension (fst fd))) @ [0] @
     le_bytes 4 (unat offset) @ le_bytes 4 (length (snd fd)) @ le_bytes 8 (unat now) @ le_bytes 8 (unat now)"

fun rdfs_table :: "u64 \<Rightarrow> u32 \<Rightarrow> (bytes \<times> bytes) list \<Rightarrow> bytes" where
  "rdfs_table now offset [] = []"
| "rdfs_table now offset (fd # fds) =
     rdfs_entry_bytes now offset fd @ rdfs_table now (offset + of_nat (length (snd fd))) fds"

definition rdfs_image :: "u64 \<Rightarrow> (bytes \<times> bytes) list \<Rightarrow> bytes" where
  "rdfs_image now fds =
     ascii ''RDSK'' @ le_bytes 4 (length fds) @
     rdfs_table now (4 + 4 + RDFS_ENTRY_SIZE * of_nat (length fds)) fds @ concat (map snd fds)"

end
