(* ===== verification/RdfsCorrect.thy ===== *)
theory RdfsCorrect
  imports Rdfs
begin

text \<open>
  The driver of the ramdisk's filesystem reads back what the build tool packed.
\<close>

section \<open>Entries\<close>

text \<open>The name a file has in the image: stem and extension cut to eight and three bytes.\<close>

definition name_8_3 :: "bytes \<Rightarrow> bytes" where
  "name_8_3 p =
     (let ext = take 3 (filter (\<lambda>c. c \<noteq> DOT_CHAR) (path_extension p)) in
      take 8 (path_stem p) @ (if ext = [] then [] else DOT_CHAR # ext))"

lemma length_fixed_field [simp]: "length (fixed_field n xs) = n"
  by (simp add: fixed_field_def)

lemma find_if_append_None: "find_if P xs = None \<Longrightarrow> find_if P (xs @ ys) = map_option (\<lambda>i. length xs + i) (find_if P ys)"
  by (cases "find_if P ys") (induction xs, auto split: if_splits)+

lemma rdfs_read_field_fixed:
  assumes "0 \<notin> set xs"
  shows "rdfs_read_field (fixed_field n xs) = take n xs"
proof -
  have "find_if (\<lambda>c. c = 0) (take n xs) = None" using assms by (auto simp: find_if_None dest: in_set_takeD)
  from find_if_append_None [OF this, of "replicate (n - length xs) 0"] show ?thesis
    by (cases "n - length xs") (auto simp: rdfs_read_field_def fixed_field_def min_def)
qed

lemma length_rdfs_entry_bytes [simp]: "length (rdfs_entry_bytes now off fd) = 36"
  by (simp add: rdfs_entry_bytes_def)

lemma path_stem_filename: "set (path_stem p) \<subseteq> set p"
proof -
  have "set (path_filename p) \<subseteq> set p" by (auto simp: path_filename_def dest: set_takeWhileD)
  moreover have "set (path_stem p) \<subseteq> set (path_filename p)"
    by (auto simp: path_stem_def Let_def dest!: list.set_sel(2) [rotated] set_dropWhileD)
  ultimately show ?thesis by blast
qed

lemma path_extension_filename: "set (path_extension p) \<subseteq> set p"
  unfolding path_extension_def path_filename_def by (auto dest!: in_set_dropD set_takeWhileD)

lemma rdfs_file_entry:
  assumes "0 \<notin> set (fst fd)"
  shows "name (rdfs_file parent drv (rdfs_entry_bytes now off fd)) = name_8_3 (fst fd)"
    and "location_on_disk (file_data (rdfs_file parent drv (rdfs_entry_bytes now off fd))) = off"
    and "length (snd fd) < 2 ^ 32 \<Longrightarrow>
      unat (file_size (file_data (rdfs_file parent drv (rdfs_entry_bytes now off fd)))) = length (snd fd)"
proof -
  let ?e = "rdfs_entry_bytes now off fd"
  let ?ext = "filter (\<lambda>c. c \<noteq> DOT_CHAR) (path_extension (fst fd))"
  have f: "take 8 ?e = fixed_field 8 (path_stem (fst fd))" "take 3 (drop 8 ?e) = fixed_field 3 ?ext"
    "take 4 (drop 12 ?e) = le_bytes 4 (unat off)" "take 4 (drop 16 ?e) = le_bytes 4 (length (snd fd))"
    by (simp_all add: rdfs_entry_bytes_def)
  have "0 \<notin> set (path_stem (fst fd))" "0 \<notin> set ?ext" using assms path_stem_filename path_extension_filename by auto
  then show "name (rdfs_file parent drv ?e) = name_8_3 (fst fd)"
    by (simp add: rdfs_file_def f rdfs_read_field_fixed name_8_3_def Let_def)
  have "unat off mod 4294967296 = unat off" using unat_u32_bound [of off] by simp
  then show "location_on_disk (file_data (rdfs_file parent drv ?e)) = off"
    by (simp add: rdfs_file_def get32_def f Let_def)
  show "unat (file_size (file_data (rdfs_file parent drv ?e))) = length (snd fd)" if "length (snd fd) < 2 ^ 32"
  proof -
    have "unat (of_nat (length (snd fd)) :: u32) = length (snd fd)" using that by (simp add: unat_of_nat)
    moreover from this that have "unat (ucast (of_nat (length (snd fd)) :: u32) :: u64) = length (snd fd)"
      by (subst unat_ucast_small) simp_all
    ultimately show ?thesis using that by (simp add: rdfs_file_def get32_def f Let_def)
  qed
qed

section \<open>The image\<close>

text \<open>The handles the driver makes of the table, in order.\<close>

fun rdfs_listing :: "bytes option \<Rightarrow> u32 \<Rightarrow> u64 \<Rightarrow> u32 \<Rightarrow> (bytes \<times> bytes) list \<Rightarrow> file_handle list" where
  "rdfs_listing parent drv now off [] = []"
| "rdfs_listing parent drv now off (fd # fds) =
     rdfs_file parent drv (rdfs_entry_bytes now off fd) # rdfs_listing parent drv now (off + of_nat (length (snd fd))) fds"

lemma length_rdfs_listing [simp]: "length (rdfs_listing parent drv now off fds) = length fds"
  by (induction fds arbitrary: off) auto

lemma nth_rdfs_listing:
  "i < length fds \<Longrightarrow> rdfs_listing parent drv now off fds ! i =
     rdfs_file parent drv (rdfs_entry_bytes now (off + of_nat (length (concat (map snd (take i fds))))) (fds ! i))"
proof (induction fds arbitrary: off i)
  case (Cons fd fds)
  then show ?case by (cases i) (simp_all add: add_ac)
qed simp

lemma length_rdfs_table [simp]: "length (rdfs_table now off fds) = 36 * length fds"
  by (induction fds arbitrary: off) auto

text \<open>A volume on a disk of single bytes.\<close>

definition byte_volume ::
  "'m disk_driver \<Rightarrow> nat \<Rightarrow> nat \<Rightarrow> ('m \<Rightarrow> nat \<Rightarrow> byte) \<Rightarrow> (nat \<Rightarrow> byte) \<Rightarrow> ('m, 'i) filesystem_virtual_drive \<Rightarrow> bool" where
  "byte_volume drv j N img f fd \<longleftrightarrow> disk_holds drv 0 j N img (disk fd) f \<and> first_block fd = 0"

lemma byte_volume_bound: "byte_volume drv j N img f fd \<Longrightarrow> N < 2 ^ 32"
  using unat_u32_bound by (auto simp: byte_volume_def disk_holds_def cached_disk_def drive_shape_def)

lemma byte_volume_read:
  assumes "byte_volume drv j N img f fd" and "unat loc + unat off + unat n \<le> N"
  shows "\<exists>d'. filesystem_read fd loc off n = Some (map f [unat loc + unat off..<unat loc + unat off + unat n], fd\<lparr>disk := d'\<rparr>) \<and>
    byte_volume drv j N img f (fd\<lparr>disk := d'\<rparr>)"
  using filesystem_read_from_disk_ok [of drv 0 j N img "disk fd" f loc off n] assms
  by (auto simp: byte_volume_def filesystem_read_def)

lemma map_image:
  assumes "map f [0..<length xs] = xs" and "a + n \<le> length xs"
  shows "map f [a..<a + n] = take n (drop a xs)"
proof -
  have "take n (drop a (map f [0..<length xs])) = map f [a..<a + n]"
    using assms(2) by (simp add: take_map drop_map)
  then show ?thesis using assms(1) by simp
qed

lemma read_entries_ok:
  assumes "byte_volume drv j N img f fd" and "map f [0..<length xs] = xs" and "length xs \<le> N"
    and "drop (unat pos) xs = rdfs_table now off fds @ rest" and "unat pos \<le> length xs"
  shows "\<exists>d'. rdfs_read_entries (length fds) pos parent fd = Some (rdfs_listing parent (fs_id fd) now off fds, fd\<lparr>disk := d'\<rparr>) \<and>
    byte_volume drv j N img f (fd\<lparr>disk := d'\<rparr>)"
  using assms
proof (induction fds arbitrary: fd pos off)
  case Nil
  then show ?case by (auto intro!: exI [of _ "disk fd"])
next
  case (Cons x fds)
  have len: "unat pos + 36 + length (rdfs_table now (off + of_nat (length (snd x))) fds @ rest) = length xs"
    using arg_cong [OF Cons.prems(4), of length] Cons.prems(5) by simp
  have N: "N < 4294967296" using byte_volume_bound [OF Cons.prems(1)] by simp
  have u36: "unat RDFS_ENTRY_SIZE = 36" by (simp add: RDFS_ENTRY_SIZE_def)
  have "unat pos + unat (0 :: u32) + unat RDFS_ENTRY_SIZE \<le> N" using len Cons.prems(3) u36 by simp
  from byte_volume_read [OF Cons.prems(1) this] obtain d1 where
    rd: "filesystem_read fd pos 0 RDFS_ENTRY_SIZE = Some (map f [unat pos..<unat pos + 36], fd\<lparr>disk := d1\<rparr>)"
    and v1: "byte_volume drv j N img f (fd\<lparr>disk := d1\<rparr>)" by (auto simp: u36)
  have "map f [unat pos..<unat pos + 36] = take 36 (drop (unat pos) xs)"
    using len by (intro map_image [OF Cons.prems(2)]) simp
  then have e: "map f [unat pos..<unat pos + 36] = rdfs_entry_bytes now off x" using Cons.prems(4) by simp
  have up: "unat (pos + RDFS_ENTRY_SIZE) = unat pos + 36"
    using len Cons.prems(3) N u36 by (subst u32_add) auto
  have "drop (unat pos + 36) xs = drop 36 (drop (unat pos) xs)" by (simp add: add.commute)
  then have "drop (unat (pos + RDFS_ENTRY_SIZE)) xs = rdfs_table now (off + of_nat (length (snd x))) fds @ rest"
    using Cons.prems(4) up by simp
  from Cons.IH [OF v1 Cons.prems(2,3) this] up len obtain d2 where
    "rdfs_read_entries (length fds) (pos + RDFS_ENTRY_SIZE) parent (fd\<lparr>disk := d1\<rparr>) =
       Some (rdfs_listing parent (fs_id fd) now (off + of_nat (length (snd x))) fds, fd\<lparr>disk := d2\<rparr>)"
    and "byte_volume drv j N img f (fd\<lparr>disk := d2\<rparr>)" by auto
  then show ?case using rd e by auto
qed

lemma concat_split:
  "i < length fds \<Longrightarrow> concat (map snd fds) =
     concat (map snd (take i fds)) @ snd (fds ! i) @ concat (map snd (drop (Suc i) fds))"
  using arg_cong [OF id_take_nth_drop [of i fds], of "\<lambda>l. concat (map snd l)"] by simp

lemma concat_slice:
  "i < length fds \<Longrightarrow> take (length (snd (fds ! i))) (drop (length (concat (map snd (take i fds)))) (concat (map snd fds))) = snd (fds ! i)"
proof -
  assume "i < length fds"
  from concat_split [OF this] show ?thesis by simp
qed

lemma concat_bound:
  "i < length fds \<Longrightarrow> length (concat (map snd (take i fds))) + length (snd (fds ! i)) \<le> length (concat (map snd fds))"
  using arg_cong [OF concat_split [of i fds], of length] by simp

text \<open>The layout of the image, and the contents of one file behind the table.\<close>

definition data_offset :: "(bytes \<times> bytes) list \<Rightarrow> u32" where
  "data_offset fds = 4 + 4 + RDFS_ENTRY_SIZE * of_nat (length fds)"

lemma rdfs_image_layout:
  "rdfs_image now fds = ascii ''RDSK'' @ le_bytes 4 (length fds) @ rdfs_table now (data_offset fds) fds @ concat (map snd fds)"
  "length (rdfs_image now fds) = 8 + 36 * length fds + length (concat (map snd fds))"
  "drop (8 + 36 * length fds) (rdfs_image now fds) = concat (map snd fds)"
proof -
  define H where "H = ascii ''RDSK'' @ le_bytes 4 (length fds) @ rdfs_table now (data_offset fds) fds"
  have eq: "rdfs_image now fds = H @ concat (map snd fds)" by (simp add: rdfs_image_def data_offset_def H_def)
  have len: "length H = 8 + 36 * length fds" by (simp add: H_def ascii_def)
  show "rdfs_image now fds = ascii ''RDSK'' @ le_bytes 4 (length fds) @ rdfs_table now (data_offset fds) fds @ concat (map snd fds)"
    using eq by (simp add: H_def)
  show "length (rdfs_image now fds) = 8 + 36 * length fds + length (concat (map snd fds))"
    and "drop (8 + 36 * length fds) (rdfs_image now fds) = concat (map snd fds)" using eq len by simp_all
qed

lemma unat_data_offset:
  assumes "8 + 36 * length fds < 4294967296"
  shows "unat (data_offset fds) = 8 + 36 * length fds"
proof -
  have "unat (of_nat (length fds) :: u32) = length fds" using assms by (simp add: unat_of_nat)
  then have "unat (RDFS_ENTRY_SIZE * of_nat (length fds)) = 36 * length fds"
    using assms by (simp add: unat_word_ariths RDFS_ENTRY_SIZE_def)
  then show ?thesis unfolding data_offset_def using assms by (subst u32_add) auto
qed

lemma read_listed_file:
  assumes v: "byte_volume drv j N img f fd" and N: "length (rdfs_image now fds) \<le> N"
    and image: "map f [0..<length (rdfs_image now fds)] = rdfs_image now fds"
    and i: "i < length fds" and z: "0 \<notin> set (fst (fds ! i))"
    and b: "b = file_data (rdfs_listing parent dev now (data_offset fds) fds ! i)"
  shows "\<exists>loc fd'. rdfs_read (replicate (length (snd (fds ! i))) 0) (location_on_disk b) 0 (ucast (file_size b)) b fd =
    Some (snd (fds ! i), loc, fd')"
proof -
  let ?n = "length (snd (fds ! i))" and ?b = "length (concat (map snd (take i fds)))" and ?C = "concat (map snd fds)"
    and ?at = "8 + 36 * length fds"
  have n: "?b + ?n \<le> length ?C" by (rule concat_bound [OF i])
  have len: "length (rdfs_image now fds) = ?at + length ?C" by (rule rdfs_image_layout(2))
  have bound: "N < 4294967296" using byte_volume_bound [OF v] by simp
  have n32: "?n < 2 ^ 32" "?b < 2 ^ 32" "?at < 4294967296" using n len N bound by auto
  have loc: "location_on_disk b = data_offset fds + of_nat ?b"
    using i by (simp add: b nth_rdfs_listing rdfs_file_entry(2) [OF z])
  have "unat (of_nat ?b :: u32) = ?b" using n32 by (simp add: unat_of_nat)
  then have ul: "unat (location_on_disk b) = ?at + ?b"
    unfolding loc using unat_data_offset [OF n32(3)] n len N bound by (subst u32_add) auto
  have "unat (file_size b) = ?n"
    using i rdfs_file_entry(3) [OF z n32(1)] by (simp add: b nth_rdfs_listing)
  then have us: "unat (ucast (file_size b) :: u32) = ?n" using n32 by (subst unat_ucast_small) simp_all
  have "unat (location_on_disk b) + unat (0 :: u32) + unat (ucast (file_size b) :: u32) \<le> N"
    using ul us n len N by simp
  from byte_volume_read [OF v this] obtain d where
    rd: "filesystem_read fd (location_on_disk b) 0 (ucast (file_size b)) = Some (map f [?at + ?b..<?at + ?b + ?n], fd\<lparr>disk := d\<rparr>)"
    by (auto simp: ul us)
  have "map f [?at + ?b..<?at + ?b + ?n] = take ?n (drop (?at + ?b) (rdfs_image now fds))"
    using len n by (intro map_image [OF image]) simp
  also have "drop (?at + ?b) (rdfs_image now fds) = drop ?b ?C"
    unfolding rdfs_image_layout(3) [of fds now, symmetric] drop_drop by (simp add: add.commute)
  finally have "map f [?at + ?b..<?at + ?b + ?n] = snd (fds ! i)" using concat_slice [OF i] by simp
  with rd show ?thesis by (simp add: rdfs_read_def patch_def)
qed

text \<open>C15: the ramdisk shows what was packed: on a disk that holds the image the tool builds, the driver mounts,
  lists exactly the packed files in their order, with their names cut to 8.3, and reads back the contents
  of each.\<close>

theorem rdfs_roundtrip:
  assumes v: "byte_volume drv j N img f fd" and "block_size fd = 1"
    and "length (rdfs_image now fds) \<le> N"
    and image: "map f [0..<length (rdfs_image now fds)] = rdfs_image now fds"
    and "\<forall>p \<in> set fds. 0 \<notin> set (fst p)"
  shows "\<exists>root fd1 dest fd2. rdfs_mount_disk fd = Some (MOUNT_SUCCESS, Some root, fd1) \<and>
    rdfs_read_dir \<lparr>full_path = None, dir_data = file_data root, file_list = []\<rparr> (file_data root) fd1 = Some (dest, fd2) \<and>
    map name (file_list dest) = map (name_8_3 \<circ> fst) fds \<and>
    (\<forall>i < length fds. \<exists>loc fd3.
       rdfs_read (replicate (length (snd (fds ! i))) 0) (location_on_disk (file_data (file_list dest ! i))) 0
         (ucast (file_size (file_data (file_list dest ! i)))) (file_data (file_list dest ! i)) fd2 =
       Some (snd (fds ! i), loc, fd3))"
proof -
  define xs where "xs = rdfs_image now fds"
  note layout = rdfs_image_layout [where now = now and fds = fds, folded xs_def]
  have N: "length xs \<le> N" "N < 4294967296" using assms(3) byte_volume_bound [OF v] by (simp_all add: xs_def)
  have im: "map f [0..<length xs] = xs" using image by (simp add: xs_def)
  note len = layout(2)
  have "unat (0 :: u32) + unat (0 :: u32) + unat (4 :: u32) \<le> N" using len N by simp
  from byte_volume_read [OF v this] map_image [OF im, of 0 4] len obtain d1 where
    r1: "filesystem_read fd 0 0 4 = Some (take 4 xs, fd\<lparr>disk := d1\<rparr>)" and v1: "byte_volume drv j N img f (fd\<lparr>disk := d1\<rparr>)"
    by auto
  define fd1 where "fd1 = fd\<lparr>disk := d1\<rparr>"
  define root where "root = \<lparr>dir_path = None, name = root_name fd1,
    file_data = \<lparr>location_on_disk = 4, disk_id = fs_id fd1, file_size = 0, file_flags = IS_DIR, format_data = replicate 8 0\<rparr>,
    time_created = 0, time_modified = 0\<rparr>"
  have mount: "rdfs_mount_disk fd = Some (MOUNT_SUCCESS, Some root, fd1)"
    using assms(2) r1 by (simp add: rdfs_mount_disk_def root_def fd1_def layout(1) ascii_def)
  have "unat (4 :: u32) + unat (0 :: u32) + unat (4 :: u32) \<le> N" using len N by simp
  from byte_volume_read [OF v1 [folded fd1_def] this] map_image [OF im, of 4 4] len obtain d2 where
    r2: "filesystem_read fd1 4 0 4 = Some (take 4 (drop 4 xs), fd1\<lparr>disk := d2\<rparr>)"
    and v2: "byte_volume drv j N img f (fd1\<lparr>disk := d2\<rparr>)" by auto
  have num: "le_nat (take 4 (drop 4 xs)) = length fds" using len N by (simp add: layout(1) ascii_def)
  have "drop (unat (8 :: u32)) xs = rdfs_table now (data_offset fds) fds @ concat (map snd fds)"
    by (simp add: layout(1) ascii_def)
  from read_entries_ok [OF v2 im N(1) this] len obtain d3 where
    r3: "rdfs_read_entries (length fds) 8 None (fd1\<lparr>disk := d2\<rparr>) =
      Some (rdfs_listing None (fs_id fd1) now (data_offset fds) fds, fd1\<lparr>disk := d3\<rparr>)"
    and v3: "byte_volume drv j N img f (fd1\<lparr>disk := d3\<rparr>)" by auto
  define hs where "hs = rdfs_listing None (fs_id fd1) now (data_offset fds) fds"
  have dir: "rdfs_read_dir \<lparr>full_path = None, dir_data = file_data root, file_list = []\<rparr> (file_data root) fd1 =
      Some (\<lparr>full_path = None, dir_data = file_data root, file_list = hs\<rparr>, fd1\<lparr>disk := d3\<rparr>)"
    using r2 r3 num by (simp add: rdfs_read_dir_def root_def hs_def)
  have names: "map name hs = map (name_8_3 \<circ> fst) fds"
    by (rule nth_equalityI) (use assms(5) in \<open>auto simp: hs_def nth_rdfs_listing rdfs_file_entry(1)\<close>)
  have contents: "\<forall>i < length fds. \<exists>loc fd3. rdfs_read (replicate (length (snd (fds ! i))) 0) (location_on_disk (file_data (hs ! i))) 0
       (ucast (file_size (file_data (hs ! i)))) (file_data (hs ! i)) (fd1\<lparr>disk := d3\<rparr>) = Some (snd (fds ! i), loc, fd3)"
    using read_listed_file [OF v3 assms(3) image _ _ refl] assms(5) by (simp add: hs_def)
  show ?thesis using mount dir names contents by (intro exI conjI) auto
qed

definition sample_files :: "(bytes \<times> bytes) list" where
  "sample_files = [(ascii ''bin/init.elf'', [1, 2, 3]), (ascii ''kernel.long.sys'', [4])]"

definition sample_ramdisk :: ramdisk_drive where
  "sample_ramdisk = \<lparr>rd_base = (\<lambda>a. if a < length (rdfs_image 9 sample_files) then rdfs_image 9 sample_files ! a else 0),
     rd_size = 1024\<rparr>"

definition sample_ramdisk_volume :: "(unit, unit) filesystem_virtual_drive" where
  "sample_ramdisk_volume =
     \<lparr>disk = the (new_filesystem_drive (ramdisk_driver sample_ramdisk (\<lambda>n. replicate (unat n) 0)) () (2 ^ 0) 1024 0
        (\<lambda>n. replicate (unat n) 0) (\<lambda>_. 0)),
      fs_impl_data = (), fs_id = 0, first_block = 0, num_blocks = 1024, block_size = 1, root_name = ascii ''0:''\<rparr>"

lemma sample_ramdisk_volume_ok:
  "byte_volume (ramdisk_driver sample_ramdisk (\<lambda>n. replicate (unat n) 0)) 10 1024 (\<lambda>_. rd_base sample_ramdisk)
     (rd_base sample_ramdisk) sample_ramdisk_volume"
proof -
  have dev: "block_device (ramdisk_driver sample_ramdisk (\<lambda>n. replicate (unat n) 0)) (2 ^ 0) (unat (1024 :: u32))
      (\<lambda>_. rd_base sample_ramdisk)"
    using ramdisk.block_device_axioms [of sample_ramdisk "\<lambda>n. replicate (unat n) 0"] by (simp add: sample_ramdisk_def)
  from new_filesystem_drive_ok [OF dev, of "\<lambda>n. replicate (unat n) 0" "()" 0 "\<lambda>_. 0"] obtain d where
    "new_filesystem_drive (ramdisk_driver sample_ramdisk (\<lambda>n. replicate (unat n) 0)) () (2 ^ 0) 1024 0
        (\<lambda>n. replicate (unat n) 0) (\<lambda>_. 0) = Some d"
    and "disk_holds (ramdisk_driver sample_ramdisk (\<lambda>n. replicate (unat n) 0)) 0 10 1024 (\<lambda>_. rd_base sample_ramdisk) d
      (rd_base sample_ramdisk)" by (auto simp: ramdisk_driver_def)
  then show ?thesis by (simp add: byte_volume_def sample_ramdisk_volume_def)
qed

theorem rdfs_roundtrip_witness:
  "\<exists>root fd1 dest fd2. rdfs_mount_disk sample_ramdisk_volume = Some (MOUNT_SUCCESS, Some root, fd1) \<and>
    rdfs_read_dir \<lparr>full_path = None, dir_data = file_data root, file_list = []\<rparr> (file_data root) fd1 = Some (dest, fd2) \<and>
    map name (file_list dest) = [ascii ''init.elf'', ascii ''kernel.l.sys'']"
proof -
  have len: "length (rdfs_image 9 sample_files) = 84"
    by (simp add: rdfs_image_def sample_files_def ascii_def)
  have image: "map (rd_base sample_ramdisk) [0..<length (rdfs_image 9 sample_files)] = rdfs_image 9 sample_files"
    by (rule nth_equalityI) (auto simp: sample_ramdisk_def)
  have names: "map (name_8_3 \<circ> fst) sample_files = [ascii ''init.elf'', ascii ''kernel.l.sys'']"
    by (simp add: sample_files_def name_8_3_def path_stem_def path_extension_def path_filename_def ascii_def of_char_def
        DOT_CHAR_def Let_def)
  have "\<forall>p \<in> set sample_files. 0 \<notin> set (fst p)" by (simp add: sample_files_def ascii_def of_char_def)
  from rdfs_roundtrip [OF sample_ramdisk_volume_ok _ _ image this] len names show ?thesis
    by (auto simp: sample_ramdisk_volume_def)
qed

end
