(* ===== verification/Ext2.thy ===== *)
theory Ext2
  imports Streams FatTable
begin

text \<open>
  The ext2 driver (\<open>drivers/formats/ext2.cpp\<close>): super block, group descriptors, inodes with their block maps,
  files and directories. The packed structs of the disk are records with an encoding to bytes; the pointer
  \<open>d\<close> of the code's \<open>ext2fs\<close> to its volume is the volume the operations are passed. A shift by the width of the
  word or more, a division by zero and an index outside the array of groups have no defined result; shifts by
  \<open>log2_block_size\<close> and \<open>ptrs_per_block_log2\<close> are not checked, they are small unless the super block asks for blocks of
  zero bytes.
\<close>

unbundle bit_operations_syntax

section \<open>The structs on the disk\<close>

record superblock =
  sb_inodes_count :: u32
  sb_blocks_count :: u32
  sb_r_blocks_count :: u32
  sb_free_blocks_count :: u32
  sb_free_inodes_count :: u32
  sb_first_data_block :: u32
  sb_log_block_size :: u32
  sb_log_frag_size :: u32
  sb_blocks_per_group :: u32
  sb_frags_per_group :: u32
  sb_inodes_per_group :: u32
  sb_mtime :: u32
  sb_wtime :: u32
  sb_mnt_count :: u32
  sb_max_mnt_count :: u32
  sb_magic :: u32
  sb_state :: u32
  sb_errors :: u32
  sb_minor_rev_level :: u32
  sb_lastcheck :: u32
  sb_checkinterval :: u32
  sb_creator_os :: u32
  sb_rev_level :: u32
  sb_def_resuid :: u32
  sb_def_resgid :: u32
  sb_first_ino :: u32
  sb_inode_size :: u32

text \<open>The fields of 16 bits are kept in words of 32, which the code promotes them to; none of them is changed.\<close>

definition SUPERBLOCK_SIZE :: u32 where "SUPERBLOCK_SIZE = 90"

definition read_superblock :: "bytes \<Rightarrow> superblock" where
  "read_superblock b =
     \<lparr>sb_inodes_count = get32 b 0, sb_blocks_count = get32 b 4, sb_r_blocks_count = get32 b 8,
      sb_free_blocks_count = get32 b 12, sb_free_inodes_count = get32 b 16, sb_first_data_block = get32 b 20,
      sb_log_block_size = get32 b 24, sb_log_frag_size = get32 b 28, sb_blocks_per_group = get32 b 32,
      sb_frags_per_group = get32 b 36, sb_inodes_per_group = get32 b 40, sb_mtime = get32 b 44, sb_wtime = get32 b 48,
      sb_mnt_count = get16 b 52, sb_max_mnt_count = get16 b 54, sb_magic = get16 b 56, sb_state = get16 b 58,
      sb_errors = get16 b 60, sb_minor_rev_level = get16 b 62, sb_lastcheck = get32 b 64, sb_checkinterval = get32 b 68,
      sb_creator_os = get32 b 72, sb_rev_level = get32 b 76, sb_def_resuid = get16 b 80, sb_def_resgid = get16 b 82,
      sb_first_ino = get32 b 84, sb_inode_size = get16 b 88\<rparr>"

record blkgrp =
  bg_block_bitmap :: u32
  bg_inode_bitmap :: u32
  bg_inode_table :: u32
  bg_free_blocks_count :: u16
  bg_free_inodes_count :: u16
  bg_used_dirs_count :: u16

definition BLKGRP_SIZE :: u32 where "BLKGRP_SIZE = 32"

definition read_blkgrp :: "bytes \<Rightarrow> blkgrp" where
  "read_blkgrp b =
     \<lparr>bg_block_bitmap = get32 b 0, bg_inode_bitmap = get32 b 4, bg_inode_table = get32 b 8,
      bg_free_blocks_count = ucast (get16 b 12), bg_free_inodes_count = ucast (get16 b 14),
      bg_used_dirs_count = ucast (get16 b 16)\<rparr>"

definition EXT2_NDIR_BLOCKS :: u32 where "EXT2_NDIR_BLOCKS = 12"
definition EXT2_IND_BLOCK :: nat where "EXT2_IND_BLOCK = 12"
definition EXT2_DIND_BLOCK :: nat where "EXT2_DIND_BLOCK = 13"
definition EXT2_TIND_BLOCK :: nat where "EXT2_TIND_BLOCK = 14"

record inode =
  i_mode :: u16
  i_uid :: u16
  i_size :: u32
  i_atime :: u32
  i_ctime :: u32
  i_mtime :: u32
  i_dtime :: u32
  i_gid :: u16
  i_links_count :: u16
  i_blocks :: u32
  i_flags :: u32
  i_osd1 :: u32
  i_block :: "u32 list"
  i_generation :: u32
  i_file_acl :: u32
  i_dir_acl :: u32
  i_faddr :: u32
  i_osd2 :: bytes

definition INODE_SIZE :: u32 where "INODE_SIZE = 128"

definition read_inode :: "bytes \<Rightarrow> inode" where
  "read_inode b =
     \<lparr>i_mode = ucast (get16 b 0), i_uid = ucast (get16 b 2), i_size = get32 b 4, i_atime = get32 b 8,
      i_ctime = get32 b 12, i_mtime = get32 b 16, i_dtime = get32 b 20, i_gid = ucast (get16 b 24),
      i_links_count = ucast (get16 b 26), i_blocks = get32 b 28, i_flags = get32 b 32, i_osd1 = get32 b 36,
      i_block = map (\<lambda>n. get32 b (40 + 4 * n)) [0..<15], i_generation = get32 b 100, i_file_acl = get32 b 104,
      i_dir_acl = get32 b 108, i_faddr = get32 b 112, i_osd2 = take 12 (drop 116 b)\<rparr>"

definition put16 :: "u16 \<Rightarrow> bytes" where "put16 x = le_bytes 2 (unat x)"
definition put32 :: "u32 \<Rightarrow> bytes" where "put32 x = le_bytes 4 (unat x)"

definition inode_bytes :: "inode \<Rightarrow> bytes" where
  "inode_bytes i =
     put16 (i_mode i) @ put16 (i_uid i) @ put32 (i_size i) @ put32 (i_atime i) @ put32 (i_ctime i) @
     put32 (i_mtime i) @ put32 (i_dtime i) @ put16 (i_gid i) @ put16 (i_links_count i) @ put32 (i_blocks i) @
     put32 (i_flags i) @ put32 (i_osd1 i) @ concat (map put32 (i_block i)) @ put32 (i_generation i) @
     put32 (i_file_acl i) @ put32 (i_dir_acl i) @ put32 (i_faddr i) @ i_osd2 i"

text \<open>A directory entry without its name.\<close>

record dirent =
  d_inode :: u32
  d_rec_len :: u16
  d_name_len :: byte
  d_file_type :: byte

definition DIRENT_SIZE :: u32 where "DIRENT_SIZE = 8"

definition read_dirent :: "bytes \<Rightarrow> dirent" where
  "read_dirent b = \<lparr>d_inode = get32 b 0, d_rec_len = ucast (get16 b 4), d_name_len = b ! 6, d_file_type = b ! 7\<rparr>"

definition dirent_bytes :: "dirent \<Rightarrow> bytes" where
  "dirent_bytes d = put32 (d_inode d) @ put16 (d_rec_len d) @ [d_name_len d, d_file_type d]"

section \<open>The volume\<close>

text \<open>The loop of \<open>find_free_and_mark\<close> at bit \<open>i\<close>, with \<open>n\<close> bits to go.\<close>

fun find_free_from :: "nat \<Rightarrow> nat \<Rightarrow> bytes \<Rightarrow> (nat option \<times> bytes) option" where
  "find_free_from 0 i arr = Some (None, arr)"
| "find_free_from (Suc n) i arr =
     (if i div 8 < length arr
      then let b = arr ! (i div 8); bitmask = push_bit (i mod 8) 1 in
           if b AND bitmask = 0 then Some (Some i, arr[i div 8 := b OR bitmask])
           else find_free_from n (i + 1) arr
      else None)"

definition find_free_and_mark :: "bytes \<Rightarrow> u32 \<Rightarrow> (nat option \<times> bytes) option" where
  "find_free_and_mark arr bits = find_free_from (unat bits) 0 arr"

record ext2fs =
  sb :: superblock
  blkgrps :: "blkgrp list"
  fs_block_size :: u32
  log2_block_size :: u32
  d_blocks_per_block_log2 :: u32
  ptrs_per_block :: u32
  ptrs_per_block_log2 :: u32
  ptrs_per_ind_block :: u32
  num_blkgrps :: u32

type_synonym 'm ext2_volume = "('m, ext2fs) filesystem_virtual_drive"

definition shl :: "u32 \<Rightarrow> u32 \<Rightarrow> u32 option" where
  "shl x n = (if n < 32 then Some (push_bit (unat n) x) else None)"

definition ext2_rd :: "u32 \<Rightarrow> u32 \<Rightarrow> u32 \<Rightarrow> 'm ext2_volume \<Rightarrow> (bytes \<times> 'm ext2_volume) option" where
  "ext2_rd block offset count fd = do {
     b \<leftarrow> shl block (d_blocks_per_block_log2 (fs_impl_data fd));
     filesystem_read fd b offset count
   }"

definition read32 :: "u32 \<Rightarrow> u32 \<Rightarrow> 'm ext2_volume \<Rightarrow> (u32 \<times> 'm ext2_volume) option" where
  "read32 block offset fd = do {
     (xs, fd) \<leftarrow> ext2_rd block offset 4 fd;
     Some (get32 xs 0, fd)
   }"

definition ext2_wr :: "u32 \<Rightarrow> u32 \<Rightarrow> bytes \<Rightarrow> u32 \<Rightarrow> 'm ext2_volume \<Rightarrow> 'm ext2_volume option" where
  "ext2_wr block offset buf count fd = do {
     b \<leftarrow> shl block (d_blocks_per_block_log2 (fs_impl_data fd));
     filesystem_write fd b offset buf count
   }"

definition write32 :: "u32 \<Rightarrow> u32 \<Rightarrow> u32 \<Rightarrow> 'm ext2_volume \<Rightarrow> 'm ext2_volume option" where
  "write32 block offset v fd = ext2_wr block offset (put32 v) 4 fd"

text \<open>The block of the inode table and the offset in it.\<close>

definition inode_place :: "u32 \<Rightarrow> ext2fs \<Rightarrow> (u32 \<times> u32) option" where
  "inode_place ino fs =
     (let ipg = sb_inodes_per_group (sb fs) in
      if ipg = 0 then None
      else let grp = (ino - 1) div ipg; idx = (ino - 1) mod ipg in
           if unat grp < length (blkgrps fs)
           then Some (bg_inode_table (blkgrps fs ! unat grp), idx * sb_inode_size (sb fs))
           else None)"

definition locate_inode :: "u32 \<Rightarrow> 'm ext2_volume \<Rightarrow> (inode \<times> 'm ext2_volume) option" where
  "locate_inode ino fd = do {
     (table, off) \<leftarrow> inode_place ino (fs_impl_data fd);
     (xs, fd) \<leftarrow> ext2_rd table off INODE_SIZE fd;
     Some (read_inode xs, fd)
   }"

definition update_inode :: "u32 \<Rightarrow> inode \<Rightarrow> 'm ext2_volume \<Rightarrow> 'm ext2_volume option" where
  "update_inode ino i fd = do {
     (table, off) \<leftarrow> inode_place ino (fs_impl_data fd);
     ext2_wr table off (inode_bytes i) INODE_SIZE fd
   }"

text \<open>The loops over the block groups, \<open>n\<close> groups before the end.\<close>

fun allocate_inode_from :: "nat \<Rightarrow> nat \<Rightarrow> 'm ext2_volume \<Rightarrow> (u32 \<times> 'm ext2_volume) option" where
  "allocate_inode_from 0 i fd = Some (0, fd)"
| "allocate_inode_from (Suc n) i fd =
     (let fs = fs_impl_data fd; b = blkgrps fs ! i in
      if bg_free_inodes_count b = 0 then allocate_inode_from n (i + 1) fd
      else do {
        (temp, fd) \<leftarrow> ext2_rd (bg_inode_bitmap b) 0 (fs_block_size fs) fd;
        (found, temp) \<leftarrow> find_free_and_mark temp (sb_inodes_per_group (sb fs));
        (case found of
           None \<Rightarrow> allocate_inode_from n (i + 1) fd
         | Some k \<Rightarrow> do {
             fd \<leftarrow> ext2_wr (bg_inode_bitmap b) 0 temp (fs_block_size fs) fd;
             let b = b\<lparr>bg_free_inodes_count := bg_free_inodes_count b - 1\<rparr>;
             let fs = fs\<lparr>blkgrps := (blkgrps fs)[i := b],
                         sb := (sb fs)\<lparr>sb_free_inodes_count := sb_free_inodes_count (sb fs) - 1\<rparr>\<rparr>;
             Some (of_nat k + of_nat i * sb_inodes_per_group (sb fs) + 1, fd\<lparr>fs_impl_data := fs\<rparr>)
           })
      })"

definition allocate_inode :: "'m ext2_volume \<Rightarrow> (u32 \<times> 'm ext2_volume) option" where
  "allocate_inode fd = allocate_inode_from (unat (num_blkgrps (fs_impl_data fd))) 0 fd"

fun allocate_block_from :: "nat \<Rightarrow> nat \<Rightarrow> 'm ext2_volume \<Rightarrow> (u32 \<times> 'm ext2_volume) option" where
  "allocate_block_from 0 i fd = Some (0, fd)"
| "allocate_block_from (Suc n) i fd =
     (let fs = fs_impl_data fd; b = blkgrps fs ! i in
      if bg_free_blocks_count b = 0 then allocate_block_from n (i + 1) fd
      else do {
        (temp, fd) \<leftarrow> ext2_rd (bg_block_bitmap b) 0 (fs_block_size fs) fd;
        (found, temp) \<leftarrow> find_free_and_mark temp (sb_blocks_per_group (sb fs));
        (case found of
           None \<Rightarrow> allocate_block_from n (i + 1) fd
         | Some k \<Rightarrow> do {
             fd \<leftarrow> ext2_wr (bg_block_bitmap b) 0 temp (fs_block_size fs) fd;
             let b = b\<lparr>bg_free_blocks_count := bg_free_blocks_count b - 1\<rparr>;
             let fs = fs\<lparr>blkgrps := (blkgrps fs)[i := b],
                         sb := (sb fs)\<lparr>sb_free_blocks_count := sb_free_blocks_count (sb fs) - 1\<rparr>\<rparr>;
             Some (of_nat k + of_nat i * sb_blocks_per_group (sb fs), fd\<lparr>fs_impl_data := fs\<rparr>)
           })
      })"

definition allocate_block :: "'m ext2_volume \<Rightarrow> (u32 \<times> 'm ext2_volume) option" where
  "allocate_block fd = allocate_block_from (unat (num_blkgrps (fs_impl_data fd))) 0 fd"

text \<open>The index of a block of a file in its pointer blocks: direct, or through one, two or three of them.\<close>

definition get_block_n :: "inode \<Rightarrow> u32 \<Rightarrow> 'm ext2_volume \<Rightarrow> (u32 \<times> 'm ext2_volume) option" where
  "get_block_n i n fd =
     (let fs = fs_impl_data fd; ppb = ptrs_per_block fs; lg = unat (ptrs_per_block_log2 fs) in
      if n < EXT2_NDIR_BLOCKS then Some (i_block i ! unat n, fd)
      else let n = n - EXT2_NDIR_BLOCKS in
      if n < ppb then read32 (i_block i ! EXT2_IND_BLOCK) (n * 4) fd
      else let n = n - ppb in
      if n < ptrs_per_ind_block fs then do {
        (blk, fd) \<leftarrow> read32 (i_block i ! EXT2_DIND_BLOCK) (drop_bit lg n * 4) fd;
        read32 blk ((n AND (ppb - 1)) * 4) fd
      }
      else let n = n - ptrs_per_ind_block fs; nds = drop_bit lg n in do {
        (blk, fd) \<leftarrow> read32 (i_block i ! EXT2_TIND_BLOCK) (drop_bit lg nds * 4) fd;
        (blk, fd) \<leftarrow> read32 blk ((nds AND (ppb - 1)) * 4) fd;
        read32 blk ((n AND (ppb - 1)) * 4) fd
      })"

definition set_block_n :: "inode \<Rightarrow> u32 \<Rightarrow> u32 \<Rightarrow> 'm ext2_volume \<Rightarrow> (inode \<times> 'm ext2_volume) option" where
  "set_block_n i n blk fd =
     (let fs = fs_impl_data fd; ppb = ptrs_per_block fs; lg = unat (ptrs_per_block_log2 fs) in
      if n < EXT2_NDIR_BLOCKS then Some (i\<lparr>i_block := (i_block i)[unat n := blk]\<rparr>, fd)
      else let n = n - EXT2_NDIR_BLOCKS in
      if n < ppb then do {
        fd \<leftarrow> write32 (i_block i ! EXT2_IND_BLOCK) (n * 4) blk fd;
        Some (i, fd)
      }
      else let n = n - ppb in
      if n < ptrs_per_ind_block fs then do {
        (b, fd) \<leftarrow> read32 (i_block i ! EXT2_DIND_BLOCK) (drop_bit lg n * 4) fd;
        fd \<leftarrow> write32 b ((n AND (ppb - 1)) * 4) blk fd;
        Some (i, fd)
      }
      else let n = n - ptrs_per_ind_block fs; nds = drop_bit lg n in do {
        (b, fd) \<leftarrow> read32 (i_block i ! EXT2_TIND_BLOCK) (drop_bit lg nds * 4) fd;
        (b, fd) \<leftarrow> read32 b ((nds AND (ppb - 1)) * 4) fd;
        fd \<leftarrow> write32 b ((n AND (ppb - 1)) * 4) blk fd;
        Some (i, fd)
      })"

record ext2_format_data =
  curr_inode :: u32
  parent_inode :: u32

definition read_format :: "bytes \<Rightarrow> ext2_format_data" where
  "read_format b = \<lparr>curr_inode = get32 b 0, parent_inode = get32 b 4\<rparr>"

definition format_of :: "ext2_format_data \<Rightarrow> bytes" where
  "format_of d = put32 (curr_inode d) @ put32 (parent_inode d)"

definition EXT2_MAGIC :: u32 where "EXT2_MAGIC = 0xEF53"

definition ext2_mount_disk ::
  "'m ext2_volume \<Rightarrow> (mount_status \<times> file_handle option \<times> 'm ext2_volume) option" where
  "ext2_mount_disk fd =
     (if block_size fd = 0 then None
      else do {
        (b, fd) \<leftarrow> filesystem_read fd (1024 div block_size fd) (1024 mod block_size fd) SUPERBLOCK_SIZE;
        let s = read_superblock b;
        (if sb_magic s \<noteq> EXT2_MAGIC then Some (MOUNT_FAILURE, None, fd)
         else do {
           bs \<leftarrow> shl 1024 (sb_log_block_size s);
           let ppb = bs div 4;
           let bpg = sb_blocks_per_group s;
           (if bpg = 0 then None else Some ());
           let groups = (sb_blocks_count s + bpg - 1) div bpg;
           let fs = \<lparr>sb = s, blkgrps = [], fs_block_size = bs, log2_block_size = of_nat (countr_zero bs),
                 d_blocks_per_block_log2 = of_nat (countr_zero (bs div block_size fd)), ptrs_per_block = ppb,
                 ptrs_per_block_log2 = of_nat (countr_zero ppb), ptrs_per_ind_block = ppb * ppb, num_blkgrps = groups\<rparr>;
           (if 2 ^ 27 \<le> groups then None else Some ());
           (t, fd) \<leftarrow> ext2_rd (if bs = 1024 then 2 else 1) 0 (BLKGRP_SIZE * groups) (fd\<lparr>fs_impl_data := fs\<rparr>);
           let fs = fs\<lparr>blkgrps := map (\<lambda>g. read_blkgrp (take 32 (drop (32 * g) t))) [0..<unat groups]\<rparr>;
           Some (MOUNT_SUCCESS,
             Some \<lparr>dir_path = None, name = root_name fd,
               file_data = \<lparr>location_on_disk = 0, disk_id = fs_id fd, file_size = 0, file_flags = IS_DIR,
                 format_data = format_of \<lparr>curr_inode = 2, parent_inode = 2\<rparr>\<rparr>,
               time_created = 0, time_modified = 0\<rparr>,
             fd\<lparr>fs_impl_data := fs\<rparr>)
         })
      })"

section \<open>Files\<close>

text \<open>One piece of a block: its number from the map, and the transfer; \<open>pos\<close> is the place in the caller's buffer.\<close>

definition ext2_read_part ::
  "inode \<Rightarrow> u32 \<Rightarrow> u32 \<Rightarrow> u32 \<Rightarrow> bytes \<Rightarrow> nat \<Rightarrow> 'm ext2_volume \<Rightarrow> (bytes \<times> 'm ext2_volume) option" where
  "ext2_read_part i block_num offset count buf pos fd = do {
     (lba, fd) \<leftarrow> get_block_n i block_num fd;
     (xs, fd) \<leftarrow> ext2_rd lba offset count fd;
     buf \<leftarrow> fill buf pos xs;
     Some (buf, fd)
   }"

fun ext2_read_blocks ::
  "nat \<Rightarrow> inode \<Rightarrow> u32 \<Rightarrow> bytes \<Rightarrow> nat \<Rightarrow> 'm ext2_volume \<Rightarrow> (u32 \<times> bytes \<times> nat \<times> 'm ext2_volume) option" where
  "ext2_read_blocks 0 i block_num buf pos fd = Some (block_num, buf, pos, fd)"
| "ext2_read_blocks (Suc n) i block_num buf pos fd = do {
     (buf, fd) \<leftarrow> ext2_read_part i block_num 0 (fs_block_size (fs_impl_data fd)) buf pos fd;
     ext2_read_blocks n i (block_num + 1) buf (pos + unat (fs_block_size (fs_impl_data fd))) fd
   }"

definition ext2_read ::
  "bytes \<Rightarrow> u32 \<Rightarrow> u64 \<Rightarrow> u32 \<Rightarrow> file_data_block \<Rightarrow> 'm ext2_volume \<Rightarrow> (bytes \<times> u32 \<times> 'm ext2_volume) option" where
  "ext2_read buf start_cluster off sz fblk fd =
     (let fs = fs_impl_data fd; fdata = read_format (format_data fblk);
          chunks = filesystem_chunkify off sz (fs_block_size fs - 1) (log2_block_size fs);
          block_num = start_cluster + start_chunk chunks
      in do {
        (i, fd) \<leftarrow> locate_inode (curr_inode fdata) fd;
        (block_num, buf, fd) \<leftarrow>
          (if start_size chunks \<noteq> 0
           then do {
             (buf, fd) \<leftarrow> ext2_read_part i block_num (start_offset chunks) (start_size chunks) buf 0 fd;
             Some (block_num + 1, buf, fd)
           }
           else Some (block_num, buf, fd));
        (block_num, buf, pos, fd) \<leftarrow>
          ext2_read_blocks (unat (num_full_chunks chunks)) i block_num buf (unat (start_size chunks)) fd;
        (if end_size chunks \<noteq> 0
         then do {
           (buf, fd) \<leftarrow> ext2_read_part i block_num 0 (end_size chunks) buf pos fd;
           Some (buf, block_num, fd)
         }
         else Some (buf, block_num, fd))
      })"

definition ext2_write_part ::
  "inode \<Rightarrow> u32 \<Rightarrow> u32 \<Rightarrow> u32 \<Rightarrow> bytes \<Rightarrow> 'm ext2_volume \<Rightarrow> 'm ext2_volume option" where
  "ext2_write_part i block_num offset count buf fd = do {
     (lba, fd) \<leftarrow> get_block_n i block_num fd;
     ext2_wr lba offset buf count fd
   }"

fun ext2_write_blocks ::
  "nat \<Rightarrow> inode \<Rightarrow> u32 \<Rightarrow> bytes \<Rightarrow> 'm ext2_volume \<Rightarrow> (u32 \<times> bytes \<times> 'm ext2_volume) option" where
  "ext2_write_blocks 0 i block_num buf fd = Some (block_num, buf, fd)"
| "ext2_write_blocks (Suc n) i block_num buf fd = do {
     fd \<leftarrow> ext2_write_part i block_num 0 (fs_block_size (fs_impl_data fd)) buf fd;
     ext2_write_blocks n i (block_num + 1) (drop (unat (fs_block_size (fs_impl_data fd))) buf) fd
   }"

definition ext2_write ::
  "bytes \<Rightarrow> u32 \<Rightarrow> u64 \<Rightarrow> u32 \<Rightarrow> file_data_block \<Rightarrow> 'm ext2_volume \<Rightarrow> (u32 \<times> 'm ext2_volume) option" where
  "ext2_write buf start_cluster off sz fblk fd =
     (let fs = fs_impl_data fd; fdata = read_format (format_data fblk);
          chunks = filesystem_chunkify off sz (fs_block_size fs - 1) (log2_block_size fs);
          block_num = start_cluster + start_chunk chunks
      in do {
        (i, fd) \<leftarrow> locate_inode (curr_inode fdata) fd;
        (block_num, buf, fd) \<leftarrow>
          (if start_size chunks \<noteq> 0
           then do {
             fd \<leftarrow> ext2_write_part i block_num (start_offset chunks) (start_size chunks) buf fd;
             Some (block_num + 1, drop (unat (start_size chunks)) buf, fd)
           }
           else Some (block_num, buf, fd));
        (block_num, buf, fd) \<leftarrow> ext2_write_blocks (unat (num_full_chunks chunks)) i block_num buf fd;
        (if end_size chunks \<noteq> 0
         then do {
           fd \<leftarrow> ext2_write_part i block_num 0 (end_size chunks) buf fd;
           Some (block_num, fd)
         }
         else Some (block_num, fd))
      })"

text \<open>The loop of \<open>ext2_allocate_blocks\<close>, which counts up to the number of blocks the file lacks.\<close>

fun allocate_run :: "nat \<Rightarrow> u32 \<Rightarrow> inode \<Rightarrow> 'm ext2_volume \<Rightarrow> (inode \<times> 'm ext2_volume) option" where
  "allocate_run 0 n i fd = Some (i, fd)"
| "allocate_run (Suc k) n i fd = do {
     (blk, fd) \<leftarrow> allocate_block fd;
     (i, fd) \<leftarrow> set_block_n i n blk fd;
     allocate_run k (n + 1) i fd
   }"

definition ext2_allocate_blocks ::
  "u32 \<Rightarrow> u32 \<Rightarrow> file_data_block \<Rightarrow> 'm ext2_volume \<Rightarrow> (u64 \<times> 'm ext2_volume) option" where
  "ext2_allocate_blocks start_block size_in_bytes fblk fd =
     (let fs = fs_impl_data fd; fdata = read_format (format_data fblk); lg = unat (log2_block_size fs) in do {
        (i, fd) \<leftarrow> locate_inode (curr_inode fdata) fd;
        let blocks_needed = drop_bit lg (size_in_bytes + (fs_block_size fs - 1));
        let blocks_allocated = drop_bit lg (i_size i + (fs_block_size fs - 1));
        (i, fd) \<leftarrow> allocate_run (unat (blocks_needed - blocks_allocated) - unat blocks_allocated) blocks_allocated i fd;
        fd \<leftarrow> update_inode (curr_inode fdata) i fd;
        Some (ucast size_in_bytes, fd)
      })"

definition ext2_update_file :: "file_data_block \<Rightarrow> 'm ext2_volume \<Rightarrow> 'm ext2_volume option" where
  "ext2_update_file fblk fd =
     (let fdata = read_format (format_data fblk) in do {
        (i, fd) \<leftarrow> locate_inode (curr_inode fdata) fd;
        update_inode (curr_inode fdata)
          (i\<lparr>i_size := ucast (file_size fblk), i_dir_acl := ucast (drop_bit 32 (file_size fblk))\<rparr>) fd
      })"

section \<open>Directories\<close>

definition EXT2_FT_DIR :: byte where "EXT2_FT_DIR = 2"

text \<open>The entries of one block, from offset \<open>j\<close> on. An entry of length zero would be read for ever.\<close>

partial_function (option) read_dir_entries ::
  "bytes option \<Rightarrow> ext2_format_data \<Rightarrow> bytes \<Rightarrow> u32 \<Rightarrow> 'm ext2_volume \<Rightarrow> (file_handle list \<times> 'm ext2_volume) option" where
  "read_dir_entries path fdata temp j fd =
     (if j < fs_block_size (fs_impl_data fd)
      then Option.bind (slice (unat j) 8 temp) (\<lambda>hdr.
        let d = read_dirent hdr in
        if d_inode d = 0 then read_dir_entries path fdata temp (j + ucast (d_rec_len d)) fd
        else Option.bind (locate_inode (d_inode d) fd) (\<lambda>(child, fd).
          Option.bind (slice (unat j + 8) (unat (d_name_len d)) temp) (\<lambda>nm.
            Option.bind (read_dir_entries path fdata temp (j + ucast (d_rec_len d)) fd) (\<lambda>(hs, fd).
              Some (\<lparr>dir_path = path, name = nm,
                  file_data = \<lparr>location_on_disk = 0, disk_id = fs_id fd, file_size = ucast (i_size child),
                    file_flags = (if d_file_type d = EXT2_FT_DIR then IS_DIR else 0),
                    format_data = format_of \<lparr>curr_inode = d_inode d, parent_inode = curr_inode fdata\<rparr>\<rparr>,
                  time_created = ucast (i_ctime child), time_modified = ucast (i_mtime child)\<rparr> # hs, fd)))))
      else Some ([], fd))"

fun read_dir_blocks ::
  "nat \<Rightarrow> u32 \<Rightarrow> bytes option \<Rightarrow> ext2_format_data \<Rightarrow> inode \<Rightarrow> 'm ext2_volume \<Rightarrow>
     (file_handle list \<times> 'm ext2_volume) option" where
  "read_dir_blocks 0 n path fdata i fd = Some ([], fd)"
| "read_dir_blocks (Suc k) n path fdata i fd = do {
     (blk, fd) \<leftarrow> get_block_n i n fd;
     (temp, fd) \<leftarrow> ext2_rd blk 0 (fs_block_size (fs_impl_data fd)) fd;
     (hs, fd) \<leftarrow> read_dir_entries path fdata temp 0 fd;
     (hs', fd) \<leftarrow> read_dir_blocks k (n + 1) path fdata i fd;
     Some (hs @ hs', fd)
   }"

definition ext2_read_dir ::
  "directory_stream \<Rightarrow> file_data_block \<Rightarrow> 'm ext2_volume \<Rightarrow> (directory_stream \<times> 'm ext2_volume) option" where
  "ext2_read_dir dest dir fd =
     (let fdata = read_format (format_data dir) in do {
        (i, fd) \<leftarrow> locate_inode (curr_inode fdata) fd;
        let blocks_to_read = drop_bit (unat (log2_block_size (fs_impl_data fd))) (i_size i);
        (hs, fd) \<leftarrow> read_dir_blocks (unat blocks_to_read) 0 (full_path dest) fdata i fd;
        Some (dest\<lparr>file_list := file_list dest @ hs\<rparr>, fd)
      })"

text \<open>The last entry of the last block: the one that reaches to the end of the block.\<close>

partial_function (option) last_entry_from ::
  "u32 \<Rightarrow> u32 \<Rightarrow> 'm ext2_volume \<Rightarrow> (u32 \<times> dirent \<times> 'm ext2_volume) option" where
  "last_entry_from blk j fd =
     Option.bind (ext2_rd blk j DIRENT_SIZE fd) (\<lambda>(xs, fd).
       let d = read_dirent xs; j' = j + ucast (d_rec_len d) in
       if j' = fs_block_size (fs_impl_data fd) then Some (j, d, fd)
       else if j' < fs_block_size (fs_impl_data fd) then last_entry_from blk j' fd
       else Some (0, d, fd))"

definition get_last_entry_in_dir :: "inode \<Rightarrow> 'm ext2_volume \<Rightarrow> (u32 \<times> dirent \<times> 'm ext2_volume) option" where
  "get_last_entry_in_dir i fd =
     (let num_blocks = drop_bit (unat (log2_block_size (fs_impl_data fd))) (i_size i) in do {
        (blk, fd) \<leftarrow> get_block_n i (num_blocks - 1) fd;
        last_entry_from blk 0 fd
      })"

definition entry_length :: "u32 \<Rightarrow> u16" where
  "entry_length name_len = ucast (round_up (8 + name_len) 4)"

definition ext2_create_file ::
  "int \<Rightarrow> bytes \<Rightarrow> u32 \<Rightarrow> directory_stream \<Rightarrow> 'm ext2_volume \<Rightarrow> (directory_stream \<times> 'm ext2_volume) option" where
  "ext2_create_file ts nm flags dir fd =
     (let fdata = read_format (format_data (dir_data dir)); name_len = of_nat (length nm) :: u32 in do {
        (new_inode, fd) \<leftarrow> allocate_inode fd;
        let new_file = \<lparr>dir_path = None, name = nm,
              file_data = \<lparr>location_on_disk = 0, disk_id = fs_id fd, file_size = 0, file_flags = flags,
                format_data = format_of \<lparr>curr_inode = new_inode, parent_inode = curr_inode fdata\<rparr>\<rparr>,
              time_created = word_of_int ts, time_modified = word_of_int ts\<rparr>;
        let t = (word_of_int ts :: u32);
        let new_inod = \<lparr>i_mode = (if flags AND IS_DIR \<noteq> 0 then 0x4000 else 0x8000), i_uid = 0, i_size = 0,
              i_atime = t, i_ctime = t, i_mtime = t, i_dtime = t, i_gid = 0, i_links_count = 1, i_blocks = 0,
              i_flags = (if flags AND IS_READONLY \<noteq> 0 then 0x10 else 0), i_osd1 = 0, i_block = replicate 15 0,
              i_generation = 0, i_file_acl = 0, i_dir_acl = 0, i_faddr = 0, i_osd2 = replicate 12 0\<rparr>;
        fd \<leftarrow> update_inode new_inode new_inod fd;
        (i, fd) \<leftarrow> locate_inode (curr_inode fdata) fd;
        let bs = fs_block_size (fs_impl_data fd);
        let i_blk = drop_bit (unat (log2_block_size (fs_impl_data fd))) (i_size i);
        let new_entry = \<lparr>d_inode = new_inode, d_rec_len = entry_length name_len, d_name_len = ucast name_len,
              d_file_type = (if flags AND IS_DIR \<noteq> 0 then 2 else 1)\<rparr>;
        (end_offset, last_entry, fd) \<leftarrow>
          (if i_blk = 0 then Some (0, read_dirent (replicate 8 0), fd) else get_last_entry_in_dir i fd);
        (block, fd) \<leftarrow> (if i_blk = 0 then Some (0, fd) else get_block_n i (i_blk - 1) fd);
        (end_offset, fd) \<leftarrow>
          (if end_offset \<noteq> 0 \<and> d_inode last_entry \<noteq> 0
           then let real_size = entry_length (ucast (d_name_len last_entry)) in
                if uint (d_rec_len new_entry) \<le> uint (d_rec_len last_entry) - uint real_size
                then do {
                  fd \<leftarrow> ext2_wr block end_offset (dirent_bytes (last_entry\<lparr>d_rec_len := real_size\<rparr>)) DIRENT_SIZE fd;
                  Some (end_offset + ucast real_size, fd)
                }
                else Some (0, fd)
           else Some (end_offset, fd));
        (block, end_offset, fd) \<leftarrow>
          (if end_offset = 0
           then do {
             (block, fd) \<leftarrow> allocate_block fd;
             (i, fd) \<leftarrow> set_block_n i i_blk block fd;
             fd \<leftarrow> update_inode (curr_inode fdata) (i\<lparr>i_size := i_size i + bs\<rparr>) fd;
             Some (block, 0, fd)
           }
           else Some (block, end_offset, fd));
        let new_entry = new_entry\<lparr>d_rec_len := ucast (bs - end_offset)\<rparr>;
        fd \<leftarrow> ext2_wr block end_offset (dirent_bytes new_entry) DIRENT_SIZE fd;
        fd \<leftarrow> ext2_wr block (end_offset + DIRENT_SIZE) nm name_len fd;
        Some (dir\<lparr>file_list := file_list dir @ [new_file]\<rparr>, fd)
      })"

definition ext2_driver :: "int \<Rightarrow> 'm ext2_volume filesystem_driver" where
  "ext2_driver now = \<lparr>mount_disk = ext2_mount_disk, read_chunks = Some ext2_read, write_chunks = Some ext2_write,
     allocate_chunks = Some ext2_allocate_blocks, read_dir = ext2_read_dir, flush_file = Some ext2_update_file,
     create_file = Some (ext2_create_file now), delete_file = None\<rparr>"

end
