(* ===== verification/Ext2Correct.thy ===== *)
theory Ext2Correct
  imports Ext2 Extents Devices
begin

unbundle bit_operations_syntax

text \<open>
  The ext2 driver as a map from the blocks of a file to the blocks of the disk: reading and changing the map, the
  contents of files, and what the driver does when a file grows.
\<close>

section \<open>Volumes\<close>

text \<open>A volume with blocks of \<open>2 ^ q\<close> bytes, from 1 to 64 KiB as the format has them.\<close>

definition ext2_geometry :: "nat \<Rightarrow> nat \<Rightarrow> ext2fs \<Rightarrow> bool" where
  "ext2_geometry k q fs \<longleftrightarrow> fs_block_size fs = 2 ^ q \<and> log2_block_size fs = of_nat q \<and>
     d_blocks_per_block_log2 fs = of_nat (q - k) \<and> ptrs_per_block fs = 2 ^ (q - 2) \<and>
     ptrs_per_block_log2 fs = of_nat (q - 2) \<and> ptrs_per_ind_block fs = 2 ^ (2 * (q - 2)) \<and>
     k \<le> q \<and> 10 \<le> q \<and> q \<le> 16"

definition ext2_on ::
  "'m disk_driver \<Rightarrow> nat \<Rightarrow> nat \<Rightarrow> nat \<Rightarrow> ('m \<Rightarrow> nat \<Rightarrow> byte) \<Rightarrow> nat \<Rightarrow> (nat \<Rightarrow> byte) \<Rightarrow> 'm ext2_volume \<Rightarrow> bool" where
  "ext2_on drv k j N img q f fd \<longleftrightarrow>
     disk_holds drv k j N img (disk fd) f \<and> ext2_geometry k q (fs_impl_data fd)"

lemma ext2_on_disk: "ext2_on drv k j N img q f fd \<Longrightarrow> disk_holds drv k j N img d f' \<Longrightarrow>
    ext2_on drv k j N img q f' (fd\<lparr>disk := d\<rparr>)"
  by (simp add: ext2_on_def)

lemma geometry_shl:
  assumes "ext2_geometry k q fs"
  shows "shl b (d_blocks_per_block_log2 fs) = Some (push_bit (q - k) b)"
proof -
  have "unat (of_nat (q - k) :: u32) = q - k" by (rule small_exponent) (use assms in \<open>auto simp: ext2_geometry_def\<close>)
  moreover from assms have "q - k < 32" by (auto simp: ext2_geometry_def)
  ultimately show ?thesis using assms by (simp add: shl_def ext2_geometry_def word_less_nat_alt del: of_nat_diff)
qed

lemma geometry_sizes:
  assumes "ext2_geometry k q fs"
  shows "unat (fs_block_size fs) = 2 ^ q" and "unat (ptrs_per_block fs) = 2 ^ (q - 2)"
    and "unat (ptrs_per_block_log2 fs) = q - 2" and "unat (ptrs_per_ind_block fs) = 2 ^ (2 * (q - 2))"
    and "unat (log2_block_size fs) = q" and "(2::nat) ^ q = 4 * 2 ^ (q - 2)"
proof -
  from assms have q: "10 \<le> q" "q \<le> 16" by (simp_all add: ext2_geometry_def)
  show "unat (fs_block_size fs) = 2 ^ q" "unat (ptrs_per_block fs) = 2 ^ (q - 2)"
    "unat (ptrs_per_ind_block fs) = 2 ^ (2 * (q - 2))"
    using assms q by (simp_all add: ext2_geometry_def)
  show "unat (ptrs_per_block_log2 fs) = q - 2" "unat (log2_block_size fs) = q"
    using assms small_exponent [of q] small_exponent [of "q - 2"] q by (simp_all only: ext2_geometry_def)
  have "2 + (q - 2) = q" using q by simp
  then have "(2::nat) ^ q = 2 ^ (2 + (q - 2))" by simp
  also have "\<dots> = 4 * 2 ^ (q - 2)" unfolding power_add by simp
  finally show "(2::nat) ^ q = 4 * 2 ^ (q - 2)" .
qed

lemma ext2_rd_ok:
  assumes v: "ext2_on drv k j N img q f fd" and fit: "extent_at k q fd b + unat off + unat n \<le> N * 2 ^ k"
  shows "\<exists>d. ext2_rd b off n fd =
      Some (map f [extent_at k q fd b + unat off..<extent_at k q fd b + unat off + unat n], fd\<lparr>disk := d\<rparr>) \<and>
    ext2_on drv k j N img q f (fd\<lparr>disk := d\<rparr>)"
proof -
  from v have dh: "disk_holds drv k j N img (disk fd) f" and g: "ext2_geometry k q (fs_impl_data fd)"
    by (simp_all add: ext2_on_def)
  have "k \<le> q" using g by (simp add: ext2_geometry_def)
  from extent_read [OF dh this fit] show ?thesis
    using ext2_on_disk [OF v] by (auto simp: ext2_rd_def geometry_shl [OF g])
qed

lemma ext2_wr_ok:
  assumes v: "ext2_on drv k j N img q f fd" and fit: "extent_at k q fd b + unat off + unat n \<le> N * 2 ^ k"
    and w: "cached_writes drv k m" "unat n \<le> m" and buf: "unat n \<le> length buf"
  shows "\<exists>d. ext2_wr b off buf n fd = Some (fd\<lparr>disk := d\<rparr>) \<and>
    ext2_on drv k j N img q (overlay (extent_at k q fd b + unat off) (take (unat n) buf) f) (fd\<lparr>disk := d\<rparr>)"
proof -
  from v have dh: "disk_holds drv k j N img (disk fd) f" and g: "ext2_geometry k q (fs_impl_data fd)"
    by (simp_all add: ext2_on_def)
  have "k \<le> q" using g by (simp add: ext2_geometry_def)
  from extent_write [OF dh this fit w buf] show ?thesis
    using ext2_on_disk [OF v] by (auto simp: ext2_wr_def geometry_shl [OF g])
qed

section \<open>Block maps\<close>

definition word_at :: "(nat \<Rightarrow> byte) \<Rightarrow> nat \<Rightarrow> u32" where
  "word_at f p = of_nat (le_nat (map f [p..<p + 4]))"

lemma get32_map: "get32 (map f [p..<p + 4]) 0 = word_at f p"
  by (simp add: get32_def word_at_def)

lemma read32_ok:
  assumes v: "ext2_on drv k j N img q f fd" and x: "unat x < 2 ^ (q - 2)"
    and fit: "extent_at k q fd b + 2 ^ q \<le> N * 2 ^ k"
  shows "\<exists>d. read32 b (x * 4) fd = Some (word_at f (extent_at k q fd b + 4 * unat x), fd\<lparr>disk := d\<rparr>) \<and>
    ext2_on drv k j N img q f (fd\<lparr>disk := d\<rparr>)"
proof -
  have g: "ext2_geometry k q (fs_impl_data fd)" using v by (simp add: ext2_on_def)
  have P: "(2::nat) ^ q = 4 * 2 ^ (q - 2)" by (rule geometry_sizes(6) [OF g])
  have "(2::nat) ^ q \<le> 2 ^ 16" using g by (intro power_increasing) (auto simp: ext2_geometry_def)
  then have ux: "unat (x * 4) = 4 * unat x" using x P by (simp add: unat_word_ariths)
  have "extent_at k q fd b + unat (x * 4) + unat (4 :: u32) \<le> N * 2 ^ k" using fit x P by (simp add: ux)
  from ext2_rd_ok [OF v this] show ?thesis by (auto simp: read32_def ux get32_map)
qed

lemma write32_ok:
  assumes v: "ext2_on drv k j N img q f fd" and x: "unat x < 2 ^ (q - 2)"
    and fit: "extent_at k q fd b + 2 ^ q \<le> N * 2 ^ k" and w: "cached_writes drv k 4"
  shows "\<exists>d. write32 b (x * 4) y fd = Some (fd\<lparr>disk := d\<rparr>) \<and>
    ext2_on drv k j N img q (overlay (extent_at k q fd b + 4 * unat x) (put32 y) f) (fd\<lparr>disk := d\<rparr>)"
proof -
  have g: "ext2_geometry k q (fs_impl_data fd)" using v by (simp add: ext2_on_def)
  have P: "(2::nat) ^ q = 4 * 2 ^ (q - 2)" by (rule geometry_sizes(6) [OF g])
  have "(2::nat) ^ q \<le> 2 ^ 16" using g by (intro power_increasing) (auto simp: ext2_geometry_def)
  then have ux: "unat (x * 4) = 4 * unat x" using x P by (simp add: unat_word_ariths)
  have "extent_at k q fd b + unat (x * 4) + unat (4 :: u32) \<le> N * 2 ^ k" using fit x P by (simp add: ux)
  from ext2_wr_ok [OF v this w, of "put32 y"] show ?thesis by (simp add: write32_def ux put32_def)
qed

text \<open>
  The reference: the map of an inode is a tree of pointer blocks. The path to block \<open>n\<close> is the slot of the inode and
  the index in each pointer block from there; \<open>at\<close> is the place of a block on the disk.
\<close>

definition block_path :: "nat \<Rightarrow> nat \<Rightarrow> nat \<times> nat list" where
  "block_path P n =
     (if n < 12 then (n, [])
      else if n - 12 < P then (12, [n - 12])
      else if n - 12 - P < P * P then (13, [(n - 12 - P) div P, (n - 12 - P) mod P])
      else let m = n - 12 - P - P * P in (14, [m div P div P, m div P mod P, m mod P]))"

definition mappable :: "nat \<Rightarrow> nat \<Rightarrow> bool" where
  "mappable P n \<longleftrightarrow> n < 12 + P + P * P + P * P * P"

lemma block_path_eqs:
  "n < 12 \<Longrightarrow> block_path P n = (n, [])"
  "m < P \<Longrightarrow> block_path P (12 + m) = (12, [m])"
  "m < P * P \<Longrightarrow> block_path P (12 + P + m) = (13, [m div P, m mod P])"
  "block_path P (12 + P + P * P + m) = (14, [m div P div P, m div P mod P, m mod P])"
  by (simp_all add: block_path_def Let_def)

lemma block_number_cases:
  obtains (direct) "n < 12" "block_path P n = (n, [])"
  | (single) m where "n = 12 + m" "m < P" "block_path P n = (12, [m])"
  | (double) m where "n = 12 + P + m" "m < P * P" "block_path P n = (13, [m div P, m mod P])"
  | (triple) m where "n = 12 + P + P * P + m" "block_path P n = (14, [m div P div P, m div P mod P, m mod P])"
proof (cases "n < 12")
  case False
  then obtain a where a: "n = 12 + a" by (metis le_iff_add linorder_not_less)
  show thesis
  proof (cases "a < P")
    case True
    then show thesis using single [OF a] block_path_eqs(2) a by simp
  next
    case False
    then obtain b where "a = P + b" by (metis le_iff_add linorder_not_less)
    then have b: "n = 12 + P + b" using a by simp
    show thesis
    proof (cases "b < P * P")
      case True
      then show thesis using double [OF b] block_path_eqs(3) b by simp
    next
      case False
      then obtain c where "b = P * P + c" by (metis le_iff_add linorder_not_less)
      then have "n = 12 + P + P * P + c" using b by simp
      then show thesis using triple block_path_eqs(4) by simp
    qed
  qed
qed (use direct block_path_eqs(1) in simp)

fun follow :: "(nat \<Rightarrow> byte) \<Rightarrow> (u32 \<Rightarrow> nat) \<Rightarrow> u32 \<Rightarrow> nat list \<Rightarrow> u32" where
  "follow f at b [] = b"
| "follow f at b (d # ds) = follow f at (word_at f (at b + 4 * d)) ds"

text \<open>The pointer blocks on the way.\<close>

fun pointer_blocks :: "(nat \<Rightarrow> byte) \<Rightarrow> (u32 \<Rightarrow> nat) \<Rightarrow> u32 \<Rightarrow> nat list \<Rightarrow> u32 list" where
  "pointer_blocks f at b [] = []"
| "pointer_blocks f at b (d # ds) = b # pointer_blocks f at (word_at f (at b + 4 * d)) ds"

definition file_block :: "(nat \<Rightarrow> byte) \<Rightarrow> (u32 \<Rightarrow> nat) \<Rightarrow> nat \<Rightarrow> inode \<Rightarrow> nat \<Rightarrow> u32" where
  "file_block f at P i n = (let (s, ds) = block_path P n in follow f at (i_block i ! s) ds)"

definition map_on_disk :: "(nat \<Rightarrow> byte) \<Rightarrow> (u32 \<Rightarrow> nat) \<Rightarrow> nat \<Rightarrow> nat \<Rightarrow> inode \<Rightarrow> nat \<Rightarrow> bool" where
  "map_on_disk f at P limit i n \<longleftrightarrow>
     mappable P n \<and> (let (s, ds) = block_path P n in
       \<forall>b \<in> set (pointer_blocks f at (i_block i ! s) ds). at b + 4 * P \<le> limit)"

text \<open>The pointer block that holds the number of block \<open>n\<close>, and the index in it: what reading and changing the map share.\<close>

definition leaf_block :: "(nat \<Rightarrow> byte) \<Rightarrow> (u32 \<Rightarrow> nat) \<Rightarrow> nat \<Rightarrow> inode \<Rightarrow> nat \<Rightarrow> u32" where
  "leaf_block f at P i n = (let (s, ds) = block_path P n in follow f at (i_block i ! s) (butlast ds))"

definition leaf_index :: "nat \<Rightarrow> nat \<Rightarrow> nat" where
  "leaf_index P n = List.last (snd (block_path P n))"

definition block_leaf :: "inode \<Rightarrow> u32 \<Rightarrow> 'm ext2_volume \<Rightarrow> (u32 \<times> u32 \<times> 'm ext2_volume) option" where
  "block_leaf i n fd =
     (let fs = fs_impl_data fd; ppb = ptrs_per_block fs; lg = unat (ptrs_per_block_log2 fs); n = n - 12 in
      if n < ppb then Some (i_block i ! 12, n, fd)
      else let n = n - ppb in
      if n < ptrs_per_ind_block fs then do {
        (b, fd) \<leftarrow> read32 (i_block i ! 13) (drop_bit lg n * 4) fd;
        Some (b, n AND (ppb - 1), fd)
      }
      else let n = n - ptrs_per_ind_block fs; nds = drop_bit lg n in do {
        (b, fd) \<leftarrow> read32 (i_block i ! 14) (drop_bit lg nds * 4) fd;
        (b, fd) \<leftarrow> read32 b ((nds AND (ppb - 1)) * 4) fd;
        Some (b, n AND (ppb - 1), fd)
      })"

lemmas slot_simps = EXT2_NDIR_BLOCKS_def EXT2_IND_BLOCK_def EXT2_DIND_BLOCK_def EXT2_TIND_BLOCK_def

lemma get_block_leaf:
  "\<not> n < 12 \<Longrightarrow> get_block_n i n fd = do { (b, x, fd) \<leftarrow> block_leaf i n fd; read32 b (x * 4) fd }"
  by (simp add: get_block_n_def block_leaf_def Let_def slot_simps split_def)

lemma set_block_leaf:
  "\<not> n < 12 \<Longrightarrow> set_block_n i n v fd = do { (b, x, fd) \<leftarrow> block_leaf i n fd; fd \<leftarrow> write32 b (x * 4) v fd; Some (i, fd) }"
  by (simp add: set_block_n_def block_leaf_def Let_def slot_simps split_def)

lemma block_leaf_ok:
  assumes v: "ext2_on drv k j N img q f fd" and n12: "\<not> n < 12"
    and m: "map_on_disk f (extent_at k q fd) (2 ^ (q - 2)) (N * 2 ^ k) i (unat n)"
  shows "\<exists>x d. block_leaf i n fd = Some (leaf_block f (extent_at k q fd) (2 ^ (q - 2)) i (unat n), x, fd\<lparr>disk := d\<rparr>) \<and>
    unat x = leaf_index (2 ^ (q - 2)) (unat n) \<and> unat x < 2 ^ (q - 2) \<and> ext2_on drv k j N img q f (fd\<lparr>disk := d\<rparr>)"
proof -
  let ?P = "(2::nat) ^ (q - 2)" and ?at = "extent_at k q fd" and ?fs = "fs_impl_data fd"
  have g: "ext2_geometry k q ?fs" using v by (simp add: ext2_on_def)
  note sz = geometry_sizes [OF g]
  have PP: "(2::nat) ^ (2 * (q - 2)) = ?P * ?P" by (simp only: mult_2 power_add)
  have nw: "ptrs_per_block ?fs - 1 = mask (q - 2)" using g by (simp add: ext2_geometry_def mask_eq_exp_minus_1)
  have low: "unat (y AND (ptrs_per_block ?fs - 1)) = unat y mod ?P" for y :: u32
    unfolding nw by (simp add: unsigned_take_bit_eq take_bit_nat_def flip: take_bit_eq_mask)
  have high: "unat (drop_bit (q - 2) y) = unat y div ?P" for y :: u32 by (rule unat_shift_right)
  have le: "12 \<le> unat n" using n12 by (simp add: word_less_nat_alt)
  then have n: "unat (n - 12) = unat n - 12" by (subst u32_sub) (simp_all add: word_le_nat_alt)
  show ?thesis
  proof (cases rule: block_number_cases [of "unat n" ?P])
    case direct
    then show ?thesis using le by simp
  next
    case (single m)
    then have u: "unat (n - 12) = m" using n by simp
    then have "n - 12 < ptrs_per_block ?fs" unfolding word_less_nat_alt sz(2) using single(2) by simp
    then have "block_leaf i n fd = Some (i_block i ! 12, n - 12, fd\<lparr>disk := disk fd\<rparr>)" by (simp add: block_leaf_def Let_def)
    then show ?thesis using v u single(2)
      by (intro exI [of _ "n - 12"] exI [of _ "disk fd"]) (simp add: leaf_block_def leaf_index_def single(3))
  next
    case (double x)
    let ?m = "n - 12 - ptrs_per_block ?fs"
    have u: "unat (n - 12) = ?P + x" using n double(1) by simp
    then have n2: "unat ?m = x" using sz(2) by (subst u32_sub) (simp_all add: word_le_nat_alt)
    have c: "\<not> n - 12 < ptrs_per_block ?fs" "?m < ptrs_per_ind_block ?fs"
      unfolding word_less_nat_alt u n2 sz(2,4) PP using double(2) by simp_all
    have hi: "unat (drop_bit (q - 2) ?m) < ?P" unfolding high n2 using double(2) by (simp add: less_mult_imp_div_less)
    from m double(3) have fit: "?at (i_block i ! 13) + 2 ^ q \<le> N * 2 ^ k" by (simp add: map_on_disk_def sz(6))
    from read32_ok [OF v hi this] c low [of ?m] show ?thesis
      by (auto simp: block_leaf_def Let_def sz(3) leaf_block_def leaf_index_def double(3) high n2)
  next
    case (triple x)
    let ?m = "n - 12 - ptrs_per_block ?fs - ptrs_per_ind_block ?fs"
    have u: "unat (n - 12) = ?P + (?P * ?P + x)" using n triple(1) by simp
    then have n2: "unat (n - 12 - ptrs_per_block ?fs) = ?P * ?P + x" using sz(2) by (subst u32_sub) (simp_all add: word_le_nat_alt)
    then have n3: "unat ?m = x" using sz(4) PP by (subst u32_sub) (simp_all add: word_le_nat_alt)
    let ?c = "drop_bit (q - 2) ?m"
    have c: "\<not> n - 12 < ptrs_per_block ?fs" "\<not> n - 12 - ptrs_per_block ?fs < ptrs_per_ind_block ?fs"
      unfolding word_less_nat_alt u n2 sz(2,4) PP by simp_all
    have "x < ?P * ?P * ?P" using m triple(1) by (simp add: map_on_disk_def mappable_def)
    then have "x div ?P div ?P < ?P" by (simp add: less_mult_imp_div_less)
    then have hi: "unat (drop_bit (q - 2) ?c) < ?P" unfolding high n3 .
    let ?b1 = "word_at f (?at (i_block i ! 14) + 4 * (x div ?P div ?P))"
    from m triple(2) have fit: "?at (i_block i ! 14) + 2 ^ q \<le> N * 2 ^ k" "?at ?b1 + 2 ^ q \<le> N * 2 ^ k"
      by (simp_all add: map_on_disk_def sz(6))
    from read32_ok [OF v hi fit(1), unfolded high n3] obtain d1 where
      r1: "read32 (i_block i ! 14) (drop_bit (q - 2) ?c * 4) fd = Some (?b1, fd\<lparr>disk := d1\<rparr>)"
      and v1: "ext2_on drv k j N img q f (fd\<lparr>disk := d1\<rparr>)" by blast
    have "unat (?c AND (ptrs_per_block ?fs - 1)) < ?P" unfolding low by simp
    from read32_ok [OF v1 this, of ?b1] fit(2) obtain d2 where
      r2: "read32 ?b1 ((?c AND (ptrs_per_block ?fs - 1)) * 4) (fd\<lparr>disk := d1\<rparr>) =
        Some (word_at f (?at ?b1 + 4 * (x div ?P mod ?P)), fd\<lparr>disk := d2\<rparr>)"
      and v2: "ext2_on drv k j N img q f (fd\<lparr>disk := d2\<rparr>)" unfolding low high n3 by auto
    have "block_leaf i n fd = Some (word_at f (?at ?b1 + 4 * (x div ?P mod ?P)), ?m AND (ptrs_per_block ?fs - 1), fd\<lparr>disk := d2\<rparr>)"
      unfolding block_leaf_def Let_def sz(3) using c by (simp only: if_False r1 r2 Option.bind_lunit prod.case)
    then show ?thesis using v2 low [of ?m] by (auto simp: leaf_block_def leaf_index_def triple(2) n3)
  qed
qed

lemma block_path_pointer: "\<not> n < 12 \<Longrightarrow> snd (block_path P n) \<noteq> []"
  by (cases rule: block_number_cases [of n P]) simp_all

lemma follow_last: "ds \<noteq> [] \<Longrightarrow> follow f at b ds = word_at f (at (follow f at b (butlast ds)) + 4 * List.last ds)"
  by (induction ds arbitrary: b) auto

lemma pointer_blocks_last: "ds \<noteq> [] \<Longrightarrow> follow f at b (butlast ds) \<in> set (pointer_blocks f at b ds)"
  by (induction ds arbitrary: b) auto

lemma file_block_leaf:
  assumes "\<not> n < 12"
  shows "file_block f at P i n = word_at f (at (leaf_block f at P i n) + 4 * leaf_index P n)"
  using follow_last [OF block_path_pointer [OF assms, of P], of f at]
  by (simp add: file_block_def leaf_block_def leaf_index_def split_def Let_def)

lemma leaf_on_disk: "map_on_disk f at P limit i n \<Longrightarrow> \<not> n < 12 \<Longrightarrow> at (leaf_block f at P i n) + 4 * P \<le> limit"
  using pointer_blocks_last [OF block_path_pointer [of n P]]
  by (fastforce simp: map_on_disk_def leaf_block_def split: prod.splits)

lemma get_block_ok:
  assumes v: "ext2_on drv k j N img q f fd"
    and m: "map_on_disk f (extent_at k q fd) (2 ^ (q - 2)) (N * 2 ^ k) i (unat n)"
  shows "\<exists>d. get_block_n i n fd = Some (file_block f (extent_at k q fd) (2 ^ (q - 2)) i (unat n), fd\<lparr>disk := d\<rparr>) \<and>
    ext2_on drv k j N img q f (fd\<lparr>disk := d\<rparr>)"
proof (cases "n < 12")
  case True
  then have u: "unat n < 12" by (simp add: word_less_nat_alt)
  then have "get_block_n i n fd = Some (i_block i ! unat n, fd\<lparr>disk := disk fd\<rparr>)" using True by (simp add: get_block_n_def slot_simps)
  then show ?thesis using v u by (intro exI [of _ "disk fd"]) (simp add: file_block_def block_path_eqs)
next
  case False
  then have u: "\<not> unat n < 12" by (simp add: word_less_nat_alt)
  have P: "(2::nat) ^ q = 4 * 2 ^ (q - 2)" using v geometry_sizes(6) by (auto simp: ext2_on_def)
  from block_leaf_ok [OF v False m] obtain x d where
    l: "block_leaf i n fd = Some (leaf_block f (extent_at k q fd) (2 ^ (q - 2)) i (unat n), x, fd\<lparr>disk := d\<rparr>)"
      "unat x = leaf_index (2 ^ (q - 2)) (unat n)" "unat x < 2 ^ (q - 2)"
    and v1: "ext2_on drv k j N img q f (fd\<lparr>disk := d\<rparr>)" by blast
  have "extent_at k q (fd\<lparr>disk := d\<rparr>) (leaf_block f (extent_at k q fd) (2 ^ (q - 2)) i (unat n)) + 2 ^ q \<le> N * 2 ^ k"
    using leaf_on_disk [OF m u] by (simp add: P)
  from read32_ok [OF v1 l(3) this] l(1,2) show ?thesis
    by (auto simp: get_block_leaf [OF False] file_block_leaf [OF u])
qed

section \<open>Changing the map\<close>

text \<open>
  The pointer block that is written is at one place of the tree only: wherever a path meets it, it is the path of its
  own place.
\<close>

definition single_place :: "(nat \<Rightarrow> byte) \<Rightarrow> (u32 \<Rightarrow> nat) \<Rightarrow> nat \<Rightarrow> inode \<Rightarrow> nat \<Rightarrow> bool" where
  "single_place f at P i n \<longleftrightarrow>
     (\<forall>n' j. mappable P n' \<longrightarrow> j < length (snd (block_path P n')) \<longrightarrow>
        pointer_blocks f at (i_block i ! fst (block_path P n')) (snd (block_path P n')) ! j = leaf_block f at P i n \<longrightarrow>
        fst (block_path P n') = fst (block_path P n) \<and> take j (snd (block_path P n')) = butlast (snd (block_path P n)))"

lemma block_path_digits:
  assumes "mappable P n"
  shows "\<forall>d \<in> set (snd (block_path P n)). d < P"
proof (cases "P = 0")
  case False
  then show ?thesis using assms
    by (cases rule: block_number_cases [of n P]) (auto simp: mappable_def less_mult_imp_div_less)
qed (use assms in \<open>simp add: mappable_def block_path_def\<close>)

lemma block_path_length: "fst (block_path P n) = fst (block_path P n') \<Longrightarrow>
    length (snd (block_path P n)) = length (snd (block_path P n'))"
  by (cases rule: block_number_cases [of n P]; cases rule: block_number_cases [of n' P]) simp_all

fun path_block :: "nat \<Rightarrow> nat \<times> nat list \<Rightarrow> nat" where
  "path_block P (s, []) = s"
| "path_block P (s, [a]) = 12 + a"
| "path_block P (s, [a, b]) = 12 + P + (a * P + b)"
| "path_block P (s, a # b # c # ds) = 12 + P + P * P + ((a * P + b) * P + c)"

lemma path_block_path: "path_block P (block_path P n) = n"
  by (cases rule: block_number_cases [of n P]) (simp_all add: div_mult_mod_eq)

lemma block_path_inject: "block_path P n = block_path P n' \<Longrightarrow> n = n'"
  by (metis path_block_path)

lemma word_at_overlay: "word_at (overlay p (put32 v) f) p = v"
proof -
  have "map (overlay p (put32 v) f) [p..<p + 4] = put32 v"
    using map_overlay_same [of p "put32 v" f] by (simp add: put32_def)
  then show ?thesis using unat_u32_bound [of v] by (simp add: word_at_def put32_def)
qed

lemma word_at_overlay_other:
  "p + 4 \<le> p' \<or> p' + 4 \<le> p \<Longrightarrow> word_at (overlay p (put32 v) f) p' = word_at f p'"
  unfolding word_at_def by (subst map_overlay_disjoint) (auto simp: put32_def)

lemma extents_apart:
  assumes "b \<noteq> b'"
  shows "extent_at k q fd b + 2 ^ q \<le> extent_at k q fd b' \<or> extent_at k q fd b' + 2 ^ q \<le> extent_at k q fd b"
proof -
  have "unat b \<noteq> unat b'" using assms by (simp add: word_unat_eq_iff)
  then have "Suc (unat b) \<le> unat b' \<or> Suc (unat b') \<le> unat b" by linarith
  then have "Suc (unat b) * 2 ^ q \<le> unat b' * 2 ^ q \<or> Suc (unat b') * 2 ^ q \<le> unat b * 2 ^ q" by (metis mult_le_mono1)
  then show ?thesis by (auto simp: extent_at_def)
qed

lemma word_in_other_place:
  assumes "b \<noteq> b' \<or> x \<noteq> y" and "x < 2 ^ (q - 2)" and "y < 2 ^ (q - 2)" and "(2::nat) ^ q = 4 * 2 ^ (q - 2)"
  shows "word_at (overlay (extent_at k q fd b + 4 * x) (put32 v) f) (extent_at k q fd b' + 4 * y) =
    word_at f (extent_at k q fd b' + 4 * y)"
proof (rule word_at_overlay_other, cases "b = b'")
  case True
  then show "extent_at k q fd b + 4 * x + 4 \<le> extent_at k q fd b' + 4 * y \<or>
      extent_at k q fd b' + 4 * y + 4 \<le> extent_at k q fd b + 4 * x" using assms(1) by auto
next
  case False
  then show "extent_at k q fd b + 4 * x + 4 \<le> extent_at k q fd b' + 4 * y \<or>
      extent_at k q fd b' + 4 * y + 4 \<le> extent_at k q fd b + 4 * x"
    using extents_apart [OF False, of k q fd] assms(2-4) by linarith
qed

text \<open>A path that does not use the changed word leads where it led before.\<close>

lemma follow_frame:
  assumes "\<forall>j < length ds. pointer_blocks f (extent_at k q fd) b ds ! j \<noteq> L \<or> ds ! j \<noteq> x" and "\<forall>d \<in> set ds. d < 2 ^ (q - 2)"
    and "x < 2 ^ (q - 2)" and "(2::nat) ^ q = 4 * 2 ^ (q - 2)"
  shows "follow (overlay (extent_at k q fd L + 4 * x) (put32 v) f) (extent_at k q fd) b ds = follow f (extent_at k q fd) b ds"
  using assms(1,2)
proof (induction ds arbitrary: b)
  case (Cons d ds)
  have "L \<noteq> b \<or> x \<noteq> d" using Cons.prems(1) [rule_format, of 0] by auto
  from word_in_other_place [OF this assms(3) _ assms(4)] Cons.prems(2)
  have "word_at (overlay (extent_at k q fd L + 4 * x) (put32 v) f) (extent_at k q fd b + 4 * d) =
      word_at f (extent_at k q fd b + 4 * d)" by simp
  moreover have "\<forall>j < length ds. pointer_blocks f (extent_at k q fd) (word_at f (extent_at k q fd b + 4 * d)) ds ! j \<noteq> L \<or> ds ! j \<noteq> x"
    using Cons.prems(1) by force
  ultimately show ?case using Cons.IH Cons.prems(2) by simp
qed simp

lemma length_pointer_blocks [simp]: "length (pointer_blocks f at b ds) = length ds"
  by (induction ds arbitrary: b) auto

lemma pointer_blocks_take: "pointer_blocks f at b (take m ds) = take m (pointer_blocks f at b ds)"
proof (induction ds arbitrary: b m)
  case (Cons d ds)
  then show ?case by (cases m) auto
qed simp

lemma pointer_blocks_frame:
  assumes "\<forall>j < length ds - 1. pointer_blocks f (extent_at k q fd) b ds ! j \<noteq> L" and "\<forall>d \<in> set ds. d < 2 ^ (q - 2)"
    and "x < 2 ^ (q - 2)" and "(2::nat) ^ q = 4 * 2 ^ (q - 2)"
  shows "pointer_blocks (overlay (extent_at k q fd L + 4 * x) (put32 v) f) (extent_at k q fd) b ds =
    pointer_blocks f (extent_at k q fd) b ds"
  using assms(1,2)
proof (induction ds arbitrary: b)
  case (Cons d ds)
  show ?case
  proof (cases "ds = []")
    case False
    then have "L \<noteq> b \<or> x \<noteq> d" using Cons.prems(1) [rule_format, of 0] by (cases ds) auto
    from word_in_other_place [OF this assms(3) _ assms(4)] Cons.prems(2)
    have "word_at (overlay (extent_at k q fd L + 4 * x) (put32 v) f) (extent_at k q fd b + 4 * d) =
        word_at f (extent_at k q fd b + 4 * d)" by simp
    moreover have "\<forall>j < length ds - 1. pointer_blocks f (extent_at k q fd) (word_at f (extent_at k q fd b + 4 * d)) ds ! j \<noteq> L"
    proof (intro allI impI)
      fix j assume "j < length ds - 1"
      then show "pointer_blocks f (extent_at k q fd) (word_at f (extent_at k q fd b + 4 * d)) ds ! j \<noteq> L"
        using Cons.prems(1) [rule_format, of "Suc j"] by simp
    qed
    ultimately show ?thesis using Cons.IH Cons.prems(2) by simp
  qed simp
qed simp

lemma single_place_own:
  assumes "single_place f at P i n" and "mappable P n" and "j < length (snd (block_path P n)) - 1"
  shows "pointer_blocks f at (i_block i ! fst (block_path P n)) (snd (block_path P n)) ! j \<noteq> leaf_block f at P i n"
proof
  assume "pointer_blocks f at (i_block i ! fst (block_path P n)) (snd (block_path P n)) ! j = leaf_block f at P i n"
  moreover have "j < length (snd (block_path P n))" using assms(3) by simp
  ultimately have "take j (snd (block_path P n)) = butlast (snd (block_path P n))"
    using assms(1,2) unfolding single_place_def by blast
  from arg_cong [OF this, of length] assms(3) show False by simp
qed

lemma single_place_other:
  assumes sp: "single_place f at P i n" and m: "mappable P n'" and ne: "n' \<noteq> n" and n12: "\<not> n < 12"
    and j: "j < length (snd (block_path P n'))"
  shows "pointer_blocks f at (i_block i ! fst (block_path P n')) (snd (block_path P n')) ! j \<noteq> leaf_block f at P i n \<or>
    snd (block_path P n') ! j \<noteq> leaf_index P n"
proof (rule ccontr)
  let ?ds = "snd (block_path P n)" and ?ds' = "snd (block_path P n')"
  assume "\<not> ?thesis"
  then have b: "pointer_blocks f at (i_block i ! fst (block_path P n')) ?ds' ! j = leaf_block f at P i n"
    and x: "?ds' ! j = leaf_index P n" by simp_all
  from sp m j b have s: "fst (block_path P n') = fst (block_path P n)" and t: "take j ?ds' = butlast ?ds"
    unfolding single_place_def by blast+
  have l: "length ?ds' = length ?ds" by (rule block_path_length [OF s])
  from arg_cong [OF t, of length] j l have jl: "Suc j = length ?ds'" by simp
  have "?ds' = take j ?ds' @ [?ds' ! j]" using jl by (metis take_Suc_conv_app_nth lessI order_refl take_all)
  also have "\<dots> = butlast ?ds @ [List.last ?ds]" unfolding t x leaf_index_def ..
  also have "\<dots> = ?ds" using block_path_pointer [OF n12] by (rule append_butlast_last_id)
  finally have "block_path P n' = block_path P n" using s by (simp add: prod_eq_iff)
  then show False using ne block_path_inject by blast
qed

text \<open>C18: the map of an ext2 file: setting block \<open>n\<close> of a file and reading it gives the number that was set, and no
  other block of the file changes, at every level of indirection, when the pointer block written has one place
  in the file's tree.\<close>

theorem ext2_block_map:
  assumes v: "ext2_on drv k j N img q f fd" and w: "cached_writes drv k 4" and len: "length (i_block i) = 15"
    and m: "map_on_disk f (extent_at k q fd) (2 ^ (q - 2)) (N * 2 ^ k) i (unat n)"
    and sp: "single_place f (extent_at k q fd) (2 ^ (q - 2)) i (unat n)"
  shows "\<exists>i' fd' f' fd''. set_block_n i n blk fd = Some (i', fd') \<and> ext2_on drv k j N img q f' fd' \<and>
    get_block_n i' n fd' = Some (blk, fd'') \<and>
    (\<forall>n'. mappable (2 ^ (q - 2)) n' \<longrightarrow> n' \<noteq> unat n \<longrightarrow>
       file_block f' (extent_at k q fd) (2 ^ (q - 2)) i' n' = file_block f (extent_at k q fd) (2 ^ (q - 2)) i n')"
proof (cases "n < 12")
  case True
  then have u: "unat n < 12" by (simp add: word_less_nat_alt)
  let ?i = "i\<lparr>i_block := (i_block i)[unat n := blk]\<rparr>"
  have "set_block_n i n blk fd = Some (?i, fd)" "get_block_n ?i n fd = Some (blk, fd)"
    using True u len by (simp_all add: set_block_n_def get_block_n_def slot_simps)
  moreover have "file_block f at P ?i n' = file_block f at P i n'" if "n' \<noteq> unat n" for n' P at
    by (cases rule: block_number_cases [of n' P]) (use that u in \<open>simp_all add: file_block_def\<close>)
  ultimately show ?thesis using v by blast
next
  case False
  then have u: "\<not> unat n < 12" by (simp add: word_less_nat_alt)
  let ?P = "(2::nat) ^ (q - 2)" and ?at = "extent_at k q fd"
  let ?ds = "snd (block_path ?P (unat n))" and ?b = "i_block i ! fst (block_path ?P (unat n))"
  have P: "(2::nat) ^ q = 4 * ?P" using v geometry_sizes(6) by (auto simp: ext2_on_def)
  have mp: "mappable ?P (unat n)" using m by (simp add: map_on_disk_def)
  define L where "L = leaf_block f ?at ?P i (unat n)"
  from block_leaf_ok [OF v False m] obtain x d where
    l: "block_leaf i n fd = Some (L, x, fd\<lparr>disk := d\<rparr>)" "unat x = leaf_index ?P (unat n)" "unat x < ?P"
    and v1: "ext2_on drv k j N img q f (fd\<lparr>disk := d\<rparr>)" unfolding L_def by blast
  have "extent_at k q (fd\<lparr>disk := d\<rparr>) L + 2 ^ q \<le> N * 2 ^ k"
    using leaf_on_disk [OF m u] by (simp add: P L_def)
  from write32_ok [OF v1 l(3) this w, of blk] obtain d2 where
    wr: "write32 L (x * 4) blk (fd\<lparr>disk := d\<rparr>) = Some (fd\<lparr>disk := d2\<rparr>)"
    and v2: "ext2_on drv k j N img q (overlay (?at L + 4 * unat x) (put32 blk) f) (fd\<lparr>disk := d2\<rparr>)" by auto
  let ?f = "overlay (?at L + 4 * unat x) (put32 blk) f"
  have set: "set_block_n i n blk fd = Some (i, fd\<lparr>disk := d2\<rparr>)" by (simp add: set_block_leaf [OF False] l(1) wr)
  note own = single_place_own [OF sp mp, folded L_def]
  have dg: "\<forall>d \<in> set ?ds. d < ?P" by (rule block_path_digits [OF mp])
  have pb: "pointer_blocks ?f ?at ?b ?ds = pointer_blocks f ?at ?b ?ds"
    by (rule pointer_blocks_frame [OF _ dg l(3) P]) (use own in simp)
  have fl: "follow ?f ?at ?b (butlast ?ds) = follow f ?at ?b (butlast ?ds)"
    by (rule follow_frame [OF _ _ l(3) P])
      (use own dg in \<open>auto simp: butlast_conv_take pointer_blocks_take dest: in_set_takeD\<close>)
  have m2: "map_on_disk ?f (extent_at k q (fd\<lparr>disk := d2\<rparr>)) ?P (N * 2 ^ k) i (unat n)"
    using m pb by (simp add: map_on_disk_def split_def Let_def)
  have leaf: "leaf_block ?f ?at ?P i (unat n) = L" using fl by (simp add: leaf_block_def L_def split_def Let_def)
  then have fb: "file_block ?f ?at ?P i (unat n) = blk"
    using word_at_overlay [of "?at L + 4 * unat x" blk f] by (simp add: file_block_leaf [OF u] l(2))
  from get_block_ok [OF v2 m2] fb obtain fd'' where "get_block_n i n (fd\<lparr>disk := d2\<rparr>) = Some (blk, fd'')" by auto
  moreover have "file_block ?f ?at ?P i n' = file_block f ?at ?P i n'" if n': "mappable ?P n'" "n' \<noteq> unat n" for n'
    unfolding file_block_def split_def Let_def
    by (rule follow_frame [OF _ block_path_digits [OF n'(1)] l(3) P])
      (use single_place_other [OF sp n' u] in \<open>simp add: L_def l(2)\<close>)
  ultimately show ?thesis using set v2 by blast
qed

section \<open>Contents\<close>

text \<open>The bytes of a file, read off the disk through the map.\<close>

definition file_byte :: "(nat \<Rightarrow> byte) \<Rightarrow> (u32 \<Rightarrow> nat) \<Rightarrow> nat \<Rightarrow> inode \<Rightarrow> nat \<Rightarrow> byte" where
  "file_byte f at q i p = f (at (file_block f at (2 ^ (q - 2)) i (p div 2 ^ q)) + p mod 2 ^ q)"

text \<open>Block \<open>n\<close> of the file and the pointers to it are on the disk.\<close>

definition block_on_disk :: "(nat \<Rightarrow> byte) \<Rightarrow> (u32 \<Rightarrow> nat) \<Rightarrow> nat \<Rightarrow> nat \<Rightarrow> inode \<Rightarrow> nat \<Rightarrow> bool" where
  "block_on_disk f at q limit i n \<longleftrightarrow> map_on_disk f at (2 ^ (q - 2)) limit i n \<and>
     at (file_block f at (2 ^ (q - 2)) i n) + 2 ^ q \<le> limit"

lemma map_file_byte:
  assumes "unat n * 2 ^ q + o' = p" and "o' + len \<le> 2 ^ q"
  shows "map f [at (file_block f at (2 ^ (q - 2)) i (unat n)) + o'..<at (file_block f at (2 ^ (q - 2)) i (unat n)) + o' + len] =
    map (file_byte f at q i) [p..<p + len]"
proof (rule nth_equalityI)
  fix x assume "x < length (map f [at (file_block f at (2 ^ (q - 2)) i (unat n)) + o'..<at (file_block f at (2 ^ (q - 2)) i (unat n)) + o' + len])"
  then have x: "x < len" by simp
  have e: "p + x = o' + x + 2 ^ q * unat n" using assms(1) by (simp add: mult.commute)
  have "(p + x) div 2 ^ q = unat n" and "(p + x) mod 2 ^ q = o' + x"
    unfolding e using x assms(2) by (simp_all add: div_mult_self2 mod_mult_self2)
  then show "map f [at (file_block f at (2 ^ (q - 2)) i (unat n)) + o'..<at (file_block f at (2 ^ (q - 2)) i (unat n)) + o' + len] ! x =
      map (file_byte f at q i) [p..<p + len] ! x"
    using x by (simp add: file_byte_def add.assoc)
qed simp

lemma patch_within:
  "pos + length xs \<le> length dst \<Longrightarrow> patch pos xs dst = Some (take pos dst @ xs @ drop (pos + length xs) dst)"
  by (simp add: patch_def)

text \<open>A buffer filled up to \<open>pos\<close> with the bytes of the file from \<open>p\<close> on, and one more piece.\<close>

lemma fill_next:
  assumes "take pos buf = map g [p..<p + pos]" and "pos + len \<le> length buf"
  shows "\<exists>buf'. fill buf pos (map g [p + pos..<p + pos + len]) = Some buf' \<and> length buf' = length buf \<and>
    take (pos + len) buf' = map g [p..<p + (pos + len)]"
proof -
  let ?b = "take pos buf @ map g [p + pos..<p + pos + len] @ drop (pos + len) buf"
  have "map g [p..<p + (pos + len)] = map g [p..<p + pos] @ map g [p + pos..<p + pos + len]"
    using upt_add_eq_append [of p "p + pos" len] by (simp add: add.assoc)
  then have "take (pos + len) ?b = map g [p..<p + (pos + len)]" using assms by simp
  moreover have "fill buf pos (map g [p + pos..<p + pos + len]) = Some ?b"
    using assms(2) by (simp add: fill_def patch_within)
  ultimately show ?thesis using assms(2) by auto
qed

lemma read_part_ok:
  assumes v: "ext2_on drv k j N img q f fd" and b: "block_on_disk f (extent_at k q fd) q (N * 2 ^ k) i (unat n)"
    and p: "unat n * 2 ^ q + unat off = p + pos" and len: "unat off + unat len \<le> 2 ^ q"
    and buf: "take pos buf = map (file_byte f (extent_at k q fd) q i) [p..<p + pos]" "pos + unat len \<le> length buf"
  shows "\<exists>buf' d. ext2_read_part i n off len buf pos fd = Some (buf', fd\<lparr>disk := d\<rparr>) \<and>
    ext2_on drv k j N img q f (fd\<lparr>disk := d\<rparr>) \<and> length buf' = length buf \<and>
    take (pos + unat len) buf' = map (file_byte f (extent_at k q fd) q i) [p..<p + (pos + unat len)]"
proof -
  let ?lba = "file_block f (extent_at k q fd) (2 ^ (q - 2)) i (unat n)"
  from get_block_ok [OF v] b obtain d1 where g: "get_block_n i n fd = Some (?lba, fd\<lparr>disk := d1\<rparr>)"
    and v1: "ext2_on drv k j N img q f (fd\<lparr>disk := d1\<rparr>)" unfolding block_on_disk_def by blast
  have "extent_at k q (fd\<lparr>disk := d1\<rparr>) ?lba + unat off + unat len \<le> N * 2 ^ k"
    using b len by (simp add: block_on_disk_def)
  from ext2_rd_ok [OF v1 this] obtain d2 where
    "ext2_rd ?lba off len (fd\<lparr>disk := d1\<rparr>) = Some (map (file_byte f (extent_at k q fd) q i) [p + pos..<p + pos + unat len], fd\<lparr>disk := d2\<rparr>)"
    and "ext2_on drv k j N img q f (fd\<lparr>disk := d2\<rparr>)"
    using map_file_byte [OF p len, of f "extent_at k q fd" i] by auto
  with g fill_next [OF buf] show ?thesis by (auto simp: ext2_read_part_def)
qed

lemma read_blocks_ok:
  assumes "ext2_on drv k j N img q f fd" and "\<forall>n < c. block_on_disk f (extent_at k q fd) q (N * 2 ^ k) i (unat bn + n)"
    and "unat bn + c < 2 ^ 32" and "unat bn * 2 ^ q = p + pos" and "pos + c * 2 ^ q \<le> length buf"
    and "take pos buf = map (file_byte f (extent_at k q fd) q i) [p..<p + pos]"
  shows "\<exists>buf' d. ext2_read_blocks c i bn buf pos fd = Some (bn + of_nat c, buf', pos + c * 2 ^ q, fd\<lparr>disk := d\<rparr>) \<and>
    ext2_on drv k j N img q f (fd\<lparr>disk := d\<rparr>) \<and> length buf' = length buf \<and>
    take (pos + c * 2 ^ q) buf' = map (file_byte f (extent_at k q fd) q i) [p..<p + (pos + c * 2 ^ q)]"
  using assms
proof (induction c arbitrary: fd bn pos buf)
  case 0
  then show ?case by (auto intro!: exI [of _ "disk fd"])
next
  case (Suc c)
  have g: "ext2_geometry k q (fs_impl_data fd)" using Suc.prems(1) by (simp add: ext2_on_def)
  note bs = geometry_sizes(1) [OF g]
  have "block_on_disk f (extent_at k q fd) q (N * 2 ^ k) i (unat bn)" using Suc.prems(2) [rule_format, of 0] by simp
  from read_part_ok [OF Suc.prems(1) this, of 0 p pos "fs_block_size (fs_impl_data fd)" buf] Suc.prems(4-6) bs obtain buf1 d2 where
    r: "ext2_read_part i bn 0 (fs_block_size (fs_impl_data fd)) buf pos fd = Some (buf1, fd\<lparr>disk := d2\<rparr>)"
    and v2: "ext2_on drv k j N img q f (fd\<lparr>disk := d2\<rparr>)" and b: "length buf1 = length buf"
      "take (pos + 2 ^ q) buf1 = map (file_byte f (extent_at k q fd) q i) [p..<p + (pos + 2 ^ q)]" by auto
  have u: "unat (bn + 1) = unat bn + 1" using Suc.prems(3) by (subst u32_add) auto
  have on: "\<forall>n < c. block_on_disk f (extent_at k q (fd\<lparr>disk := d2\<rparr>)) q (N * 2 ^ k) i (unat (bn + 1) + n)"
  proof (intro allI impI)
    fix n assume "n < c"
    then show "block_on_disk f (extent_at k q (fd\<lparr>disk := d2\<rparr>)) q (N * 2 ^ k) i (unat (bn + 1) + n)"
      using Suc.prems(2) [rule_format, of "Suc n"] by (simp add: u)
  qed
  have "unat (bn + 1) + c < 2 ^ 32" "unat (bn + 1) * 2 ^ q = p + (pos + 2 ^ q)" "pos + 2 ^ q + c * 2 ^ q \<le> length buf1"
    using Suc.prems(3-5) by (simp_all add: u b(1))
  from Suc.IH [OF v2 on this] b(2) obtain buf' d where
    "ext2_read_blocks c i (bn + 1) buf1 (pos + 2 ^ q) (fd\<lparr>disk := d2\<rparr>) =
      Some (bn + 1 + of_nat c, buf', pos + 2 ^ q + c * 2 ^ q, fd\<lparr>disk := d\<rparr>)"
    "ext2_on drv k j N img q f (fd\<lparr>disk := d\<rparr>)" "length buf' = length buf1"
    "take (pos + 2 ^ q + c * 2 ^ q) buf' = map (file_byte f (extent_at k q fd) q i) [p..<p + (pos + 2 ^ q + c * 2 ^ q)]" by auto
  then show ?case using r b(1) bs by (auto simp: ac_simps)
qed

text \<open>The plan of a read: the pieces of the range as the split gives them.\<close>

lemma ext2_plan:
  assumes q: "q \<le> 16" and range: "unat off + unat n < 4294967296"
  defines "C \<equiv> filesystem_chunkify off n (2 ^ q - 1) (of_nat q)"
  defines "bn \<equiv> if start_size C \<noteq> 0 then start_chunk C + 1 else start_chunk C"
  shows "unat (start_chunk C) * 2 ^ q + unat (start_offset C) = unat off"
    and "unat (start_offset C) + unat (start_size C) \<le> 2 ^ q"
    and "unat (start_size C) + unat (num_full_chunks C) * 2 ^ q + unat (end_size C) = unat n"
    and "unat (end_size C) \<le> 2 ^ q"
    and "num_full_chunks C \<noteq> 0 \<or> end_size C \<noteq> 0 \<Longrightarrow> unat bn * 2 ^ q = unat off + unat (start_size C)"
    and "num_full_chunks C \<noteq> 0 \<or> end_size C \<noteq> 0 \<Longrightarrow> unat bn + unat (num_full_chunks C) < 2 ^ 32"
proof -
  have "(4294967296::nat) = 2 ^ 32" by simp
  also have "\<dots> \<le> 2 ^ (32 + q)" by (intro power_increasing) simp_all
  finally have "unat off + unat n < 2 ^ (32 + q)" using range by linarith
  moreover have "q < 32" using q by simp
  ultimately have c: "covers_range (unat off) (unat n) (2 ^ q) (abs_chunks C)" using split_range_covers [of "2 ^ q"] by (simp add: C_def abs_chunkify)
  then have f: "unat (start_chunk C) * 2 ^ q + unat (start_offset C) = unat off" "unat (start_offset C) < 2 ^ q"
    "unat (end_size C) < 2 ^ q" "unat (start_size C) + unat (num_full_chunks C) * 2 ^ q + unat (end_size C) = unat n"
    "unat (start_offset C) + unat (start_size C) \<le> 2 ^ q"
    "0 < unat (num_full_chunks C) \<or> 0 < unat (end_size C) \<Longrightarrow>
      unat (start_size C) = 0 \<and> unat (start_offset C) = 0 \<or> unat (start_offset C) + unat (start_size C) = 2 ^ q"
    by (simp_all add: covers_range_def abs_chunks_def)
  then show "unat (start_chunk C) * 2 ^ q + unat (start_offset C) = unat off"
    "unat (start_offset C) + unat (start_size C) \<le> 2 ^ q"
    "unat (start_size C) + unat (num_full_chunks C) * 2 ^ q + unat (end_size C) = unat n" "unat (end_size C) \<le> 2 ^ q" by simp_all
  assume "num_full_chunks C \<noteq> 0 \<or> end_size C \<noteq> 0"
  then have more: "unat (start_size C) = 0 \<and> unat (start_offset C) = 0 \<or> unat (start_offset C) + unat (start_size C) = 2 ^ q"
    using f(6) by (simp add: word_zero_iff)
  have one: "(1::nat) \<le> 2 ^ q" by simp
  have sc: "unat (start_chunk C) \<le> unat off"
    using f(1) mult_le_mono2 [OF one, of "unat (start_chunk C)"] by linarith
  show bn: "unat bn * 2 ^ q = unat off + unat (start_size C)"
  proof (cases "start_size C = 0")
    case True
    then have "unat (start_offset C) = 0" using more f(2) by auto
    then show ?thesis using True f(1) by (simp add: bn_def)
  next
    case False
    then have e: "unat (start_offset C) + unat (start_size C) = 2 ^ q" using more by (simp add: word_zero_iff)
    have "0 < unat n" using f(4) False by (simp add: word_zero_iff)
    then have "unat (start_chunk C + 1) = unat (start_chunk C) + 1" using sc range by (subst u32_add) auto
    then show ?thesis using False e f(1) by (simp add: bn_def)
  qed
  have "unat bn + unat (num_full_chunks C) \<le> (unat bn + unat (num_full_chunks C)) * 2 ^ q"
    using mult_le_mono2 [OF one] by simp
  also have "\<dots> \<le> unat off + unat n" using bn f(4) by (simp add: distrib_right)
  finally show "unat bn + unat (num_full_chunks C) < 2 ^ 32" using range by simp
qed

lemma locate_inode_ok:
  assumes v: "ext2_on drv k j N img q f fd" and place: "inode_place ino (fs_impl_data fd) = Some (t, o')"
    and fit: "extent_at k q fd t + unat o' + 128 \<le> N * 2 ^ k"
  shows "\<exists>d. locate_inode ino fd =
      Some (read_inode (map f [extent_at k q fd t + unat o'..<extent_at k q fd t + unat o' + 128]), fd\<lparr>disk := d\<rparr>) \<and>
    ext2_on drv k j N img q f (fd\<lparr>disk := d\<rparr>)"
proof -
  have "extent_at k q fd t + unat o' + unat INODE_SIZE \<le> N * 2 ^ k" using fit by (simp add: INODE_SIZE_def)
  from ext2_rd_ok [OF v this] place show ?thesis by (auto simp: locate_inode_def INODE_SIZE_def)
qed

text \<open>C17: reading an ext2 file: a read at any offset, of any length, returns the bytes of the file at these positions,
  the ones that the block map of its inode gives, whatever the blocks the range starts, spans and ends in.\<close>

theorem ext2_read_contents:
  assumes v: "ext2_on drv k j N img q f fd"
    and place: "inode_place (curr_inode (read_format (format_data fblk))) (fs_impl_data fd) = Some (t, o')"
    and fit: "extent_at k q fd t + unat o' + 128 \<le> N * 2 ^ k"
    and i: "i = read_inode (map f [extent_at k q fd t + unat o'..<extent_at k q fd t + unat o' + 128])"
    and range: "unat off + unat n < 4294967296" and buf: "length buf = unat n"
    and blocks: "\<forall>b. unat off < b * 2 ^ q + 2 ^ q \<longrightarrow> b * 2 ^ q < unat off + unat n \<longrightarrow>
      block_on_disk f (extent_at k q fd) q (N * 2 ^ k) i b"
  shows "\<exists>bn fd'. ext2_read buf 0 off n fblk fd =
    Some (map (file_byte f (extent_at k q fd) q i) [unat off..<unat off + unat n], bn, fd') \<and> ext2_on drv k j N img q f fd'"
proof -
  have g: "ext2_geometry k q (fs_impl_data fd)" using v by (simp add: ext2_on_def)
  then have q: "q \<le> 16" by (simp add: ext2_geometry_def)
  let ?at = "extent_at k q fd"
  let ?g = "file_byte f ?at q i"
  define C where "C = filesystem_chunkify off n (2 ^ q - 1) (of_nat q)"
  define bn where "bn = (if start_size C \<noteq> 0 then start_chunk C + 1 else start_chunk C)"
  have C: "filesystem_chunkify off n (fs_block_size (fs_impl_data fd) - 1) (log2_block_size (fs_impl_data fd)) = C"
    using g by (simp add: C_def ext2_geometry_def)
  note plan = ext2_plan [OF q range, folded C_def, folded bn_def]
  from locate_inode_ok [OF v place fit] obtain d0 where l: "locate_inode (curr_inode (read_format (format_data fblk))) fd = Some (i, fd\<lparr>disk := d0\<rparr>)"
    and v0: "ext2_on drv k j N img q f (fd\<lparr>disk := d0\<rparr>)" unfolding i by blast
  obtain buf1 d1 where s1: "(if start_size C \<noteq> 0
       then do {
         (buf, fd) \<leftarrow> ext2_read_part i (start_chunk C) (start_offset C) (start_size C) buf 0 (fd\<lparr>disk := d0\<rparr>);
         Some (start_chunk C + 1, buf, fd)
       }
       else Some (start_chunk C, buf, fd\<lparr>disk := d0\<rparr>)) = Some (bn, buf1, fd\<lparr>disk := d1\<rparr>)"
    and v1: "ext2_on drv k j N img q f (fd\<lparr>disk := d1\<rparr>)" "length buf1 = length buf"
      "take (unat (start_size C)) buf1 = map ?g [unat off..<unat off + unat (start_size C)]"
  proof (cases "start_size C = 0")
    case True
    then show thesis using v0 that [of buf d0] by (simp add: bn_def)
  next
    case False
    then have "0 < unat (start_size C)" by (simp add: word_zero_iff)
    then have "block_on_disk f ?at q (N * 2 ^ k) i (unat (start_chunk C))"
      using plan(1-3) by (intro blocks [rule_format]) linarith+
    from read_part_ok [OF v0, of i "start_chunk C" "start_offset C" "unat off" 0 "start_size C" buf] this plan(1-3) buf
    show thesis using False that by (auto simp: bn_def)
  qed
  have run: "ext2_read buf 0 off n fblk fd = do {
      (block_num, buf, pos, fd) \<leftarrow>
        ext2_read_blocks (unat (num_full_chunks C)) i bn buf1 (unat (start_size C)) (fd\<lparr>disk := d1\<rparr>);
      (if end_size C \<noteq> 0
       then do {
         (buf, fd) \<leftarrow> ext2_read_part i block_num 0 (end_size C) buf pos fd;
         Some (buf, block_num, fd)
       }
       else Some (buf, block_num, fd))
    }"
    by (simp only: ext2_read_def Let_def C l s1 Option.bind_lunit prod.case add_0)
  show ?thesis
  proof (cases "num_full_chunks C = 0 \<and> end_size C = 0")
    case True
    then have "unat (start_size C) = unat n" using plan(3) by simp
    then have "buf1 = map ?g [unat off..<unat off + unat n]" using v1(2,3) buf by simp
    then show ?thesis using v1(1) True by (auto simp: run)
  next
    case False
    then have b: "unat bn * 2 ^ q = unat off + unat (start_size C)" "unat bn + unat (num_full_chunks C) < 2 ^ 32"
      using plan(5,6) by auto
    have on: "block_on_disk f ?at q (N * 2 ^ k) i (unat bn + x)"
      if "x < unat (num_full_chunks C) \<or> x = unat (num_full_chunks C) \<and> 0 < unat (end_size C)" for x
    proof (rule blocks [rule_format])
      show "unat off < (unat bn + x) * 2 ^ q + 2 ^ q" using b(1) by (simp add: distrib_right)
      have "Suc x * 2 ^ q \<le> unat (num_full_chunks C) * 2 ^ q" if "x < unat (num_full_chunks C)"
        using that by (intro mult_le_mono1) simp
      moreover have "(0::nat) < 2 ^ q" by simp
      ultimately have "x * 2 ^ q < unat (num_full_chunks C) * 2 ^ q + unat (end_size C)"
        using that unfolding mult_Suc by (cases "x < unat (num_full_chunks C)") (linarith, auto)
      then show "(unat bn + x) * 2 ^ q < unat off + unat n" using b(1) plan(3) by (simp add: distrib_right)
    qed
    have "\<forall>x < unat (num_full_chunks C). block_on_disk f (extent_at k q (fd\<lparr>disk := d1\<rparr>)) q (N * 2 ^ k) i (unat bn + x)"
      using on by simp
    from read_blocks_ok [OF v1(1) this b(2,1), of buf1] v1(2,3) plan(3) buf obtain buf2 d2 where
      r2: "ext2_read_blocks (unat (num_full_chunks C)) i bn buf1 (unat (start_size C)) (fd\<lparr>disk := d1\<rparr>) =
        Some (bn + num_full_chunks C, buf2, unat (start_size C) + unat (num_full_chunks C) * 2 ^ q, fd\<lparr>disk := d2\<rparr>)"
      and v2: "ext2_on drv k j N img q f (fd\<lparr>disk := d2\<rparr>)" "length buf2 = length buf"
        "take (unat (start_size C) + unat (num_full_chunks C) * 2 ^ q) buf2 =
          map ?g [unat off..<unat off + (unat (start_size C) + unat (num_full_chunks C) * 2 ^ q)]" by auto
    show ?thesis
    proof (cases "end_size C = 0")
      case True
      then have "unat (start_size C) + unat (num_full_chunks C) * 2 ^ q = unat n" using plan(3) by simp
      then have "buf2 = map ?g [unat off..<unat off + unat n]" using v2(2,3) buf by simp
      then show ?thesis using r2 v2(1) True by (auto simp: run)
    next
      case False
      have u: "unat (bn + num_full_chunks C) = unat bn + unat (num_full_chunks C)" by (rule u32_add [OF b(2)])
      have "0 < unat (end_size C)" using False by (simp add: word_zero_iff)
      then have "block_on_disk f ?at q (N * 2 ^ k) i (unat (bn + num_full_chunks C))" unfolding u by (intro on) simp
      from read_part_ok [OF v2(1), of i "bn + num_full_chunks C" 0 "unat off"
          "unat (start_size C) + unat (num_full_chunks C) * 2 ^ q" "end_size C" buf2] this plan(3,4) v2(2,3) buf b(1)
      obtain buf3 d3 where "ext2_read_part i (bn + num_full_chunks C) 0 (end_size C) buf2
          (unat (start_size C) + unat (num_full_chunks C) * 2 ^ q) (fd\<lparr>disk := d2\<rparr>) = Some (buf3, fd\<lparr>disk := d3\<rparr>)"
        "ext2_on drv k j N img q f (fd\<lparr>disk := d3\<rparr>)" "buf3 = map ?g [unat off..<unat off + unat n]"
        by (auto simp: u distrib_right)
      then show ?thesis using r2 False by (auto simp: run)
    qed
  qed
qed

section \<open>Inodes\<close>

lemma length_put [simp]: "length (put16 x) = 2" "length (put32 y) = 4"
  by (simp_all add: put16_def put32_def)

lemma ucast_u16_u32 [simp]: "ucast (ucast (y :: u16) :: u32) = y"
  by (rule bit_word_eqI) (simp add: bit_simps)

lemma get_put: "get32 (put32 x @ rest) 0 = x" "ucast (get16 (put16 y @ rest) 0) = y"
  using unat_u32_bound [of x] unsigned_less [of y, where 'a = nat] by (simp_all add: get32_def get16_def put32_def put16_def unat_of_nat)

lemma get_skip: "length xs \<le> n \<Longrightarrow> get32 (xs @ ys) n = get32 ys (n - length xs)" "length xs \<le> n \<Longrightarrow> get16 (xs @ ys) n = get16 ys (n - length xs)"
  by (simp_all add: get32_def get16_def)

lemma inode_roundtrip:
  assumes "length (i_block i) = 15" and "length (i_osd2 i) = 12"
  shows "read_inode (inode_bytes i) = i"
proof -
  from assms(1) obtain a b c d e f g h l m n p q r s where "i_block i = [a, b, c, d, e, f, g, h, l, m, n, p, q, r, s]"
    by (auto simp: length_Suc_conv numeral_eq_Suc)
  then show ?thesis using assms(2)
    by (simp add: read_inode_def inode_bytes_def get_put get_skip upt_conv_Cons)
qed

lemma put_get32: "n + 4 \<le> length b \<Longrightarrow> put32 (get32 b n) = take 4 (drop n b)"
proof -
  assume "n + 4 \<le> length b"
  then have l: "length (take 4 (drop n b)) = 4" by simp
  then have "le_nat (take 4 (drop n b)) < 2 ^ 32" using le_nat_bound [of "take 4 (drop n b)"] by simp
  then show ?thesis using le_bytes_le_nat [of "take 4 (drop n b)"] l by (simp add: put32_def get32_def unat_of_nat)
qed

lemma put_get16: "n + 2 \<le> length b \<Longrightarrow> put16 (ucast (get16 b n)) = take 2 (drop n b)"
proof -
  assume "n + 2 \<le> length b"
  then have l: "length (take 2 (drop n b)) = 2" by simp
  then have "le_nat (take 2 (drop n b)) < 65536" using le_nat_bound [of "take 2 (drop n b)"] by simp
  then show ?thesis using le_bytes_le_nat [of "take 2 (drop n b)"] l
    by (simp add: put16_def get16_def unat_of_nat unsigned_ucast_eq take_bit_nat_def)
qed

lemma take_take_drop: "n' = n + m \<Longrightarrow> take m (drop n b) @ take m' (drop n' b) = take (m + m') (drop n b)"
  by (simp add: take_add add.commute)

lemma take_drop_rest: "n' = n + m \<Longrightarrow> take m (drop n b) @ drop n' b = drop n b"
  by (metis add.commute append_take_drop_id drop_drop)

lemma inode_bytes_read:
  assumes "length b = 128"
  shows "inode_bytes (read_inode b) = b"
  using assms by (simp add: inode_bytes_def read_inode_def put_get16 put_get32 upt_conv_Cons take_take_drop take_drop_rest)

section \<open>Allocation\<close>

text \<open>The first clear bit of a bitmap is found and set, and no other bit changes.\<close>

definition bitmap_bit :: "bytes \<Rightarrow> nat \<Rightarrow> bool" where
  "bitmap_bit arr i = bit (arr ! (i div 8)) (i mod 8)"

lemma bitmap_mark:
  assumes "i div 8 < length arr"
  shows "bitmap_bit (arr[i div 8 := arr ! (i div 8) OR 2 ^ (i mod 8)]) b \<longleftrightarrow> b = i \<or> bitmap_bit arr b"
proof (cases "b div 8 = i div 8")
  case True
  have "b mod 8 = i mod 8 \<longleftrightarrow> b = i" using True by (metis div_mult_mod_eq)
  moreover have "i mod 8 < 8" by simp
  ultimately show ?thesis using True assms by (auto simp: bitmap_bit_def bit_simps)
next
  case False
  then show ?thesis using assms by (auto simp: bitmap_bit_def nth_list_update)
qed

lemma find_free_from_ok:
  assumes "i + n \<le> 8 * length arr"
  shows "find_free_from n i arr =
    (case find_if (\<lambda>b. \<not> bitmap_bit arr b) [i..<i + n] of
       None \<Rightarrow> Some (None, arr)
     | Some b \<Rightarrow> Some (Some (i + b), arr[(i + b) div 8 := arr ! ((i + b) div 8) OR push_bit ((i + b) mod 8) 1]))"
  using assms
proof (induction n arbitrary: i)
  case (Suc n)
  then have "i div 8 < length arr" by linarith
  moreover have "arr ! (i div 8) AND push_bit (i mod 8) 1 = 0 \<longleftrightarrow> \<not> bitmap_bit arr i"
    by (simp add: bitmap_bit_def and_exp_eq_0_iff_not_bit)
  moreover have "[i..<i + Suc n] = i # [i + 1..<i + 1 + n]" by (simp add: upt_conv_Cons)
  ultimately show ?case using Suc.IH [of "i + 1"] Suc.prems by (simp split: option.splits)
qed simp

text \<open>\<open>find_free_and_mark\<close> on a bitmap with a byte for every eight of its bits: the number returned is the least one
  whose bit is clear; afterwards that bit is set and every other bit is as it was. Without a clear bit the bitmap
  is not touched.\<close>

theorem find_free_exact:
  assumes "unat bits \<le> 8 * length arr"
  shows "case find_free_and_mark arr bits of
      None \<Rightarrow> False
    | Some (None, arr') \<Rightarrow> arr' = arr \<and> (\<forall>b < unat bits. bitmap_bit arr b)
    | Some (Some k, arr') \<Rightarrow> k < unat bits \<and> \<not> bitmap_bit arr k \<and> (\<forall>b < k. bitmap_bit arr b) \<and>
        length arr' = length arr \<and> (\<forall>b. bitmap_bit arr' b \<longleftrightarrow> b = k \<or> bitmap_bit arr b)"
proof (cases "find_if (\<lambda>b. \<not> bitmap_bit arr b) [0..<unat bits]")
  case None
  then have "\<forall>b < unat bits. bitmap_bit arr b" by (simp add: find_if_None)
  then show ?thesis using find_free_from_ok [of 0 "unat bits" arr] assms
    by (simp add: find_free_and_mark_def None)
next
  case (Some k)
  then have k: "k < unat bits" "\<not> bitmap_bit arr k" "\<forall>b < k. bitmap_bit arr b" by (auto dest!: find_if_Some)
  then have "k div 8 < length arr" using assms by linarith
  then show ?thesis using find_free_from_ok [of 0 "unat bits" arr] assms k
    by (simp add: find_free_and_mark_def Some bitmap_mark)
qed

theorem find_free_exact_witness:
  "find_free_and_mark [0xFF, 0x0B] 16 = Some (Some 10, [0xFF, 0x0F])"
proof -
  have "find_free_and_mark [0xFF, 0x0B] 16 = Some (Some 10, [0xFF, 0x0F])"
    by code_simp
  then show ?thesis using find_free_exact [of 16 "[0xFF, 0x0B]"] by simp
qed

section \<open>Growing files\<close>

lemma single_chunk:
  assumes q: "q \<le> 16" and range: "unat off + unat n < 4294967296" and one: "unat off mod 2 ^ q + unat n < 2 ^ q"
  defines "C \<equiv> filesystem_chunkify off n (2 ^ q - 1) (of_nat q)"
  shows "unat (start_chunk C) = unat off div 2 ^ q" and "unat (start_offset C) = unat off mod 2 ^ q" and "start_size C = n"
    and "num_full_chunks C = 0" and "end_size C = 0"
proof -
  have "(4294967296::nat) = 2 ^ 32" by simp
  also have "\<dots> \<le> 2 ^ (32 + q)" by (intro power_increasing) simp_all
  finally have "unat off + unat n < 2 ^ (32 + q)" using range by linarith
  moreover have "q < 32" using q by simp
  ultimately have a: "abs_chunks C = split_range (unat off) (unat n) (2 ^ q)" by (simp add: C_def abs_chunkify)
  have d: "(unat off + unat n) div 2 ^ q = unat off div 2 ^ q"
  proof (rule div_nat_eqI)
    show "2 ^ q * (unat off div 2 ^ q) \<le> unat off + unat n" "unat off + unat n < 2 ^ q * Suc (unat off div 2 ^ q)"
      using one mult_div_mod_eq [of "2 ^ q" "unat off"] unfolding mult_Suc_right by linarith+
  qed
  have n: "unat n mod 2 ^ q = unat n" using one by simp
  have "split_range (unat off) (unat n) (2 ^ q) =
      \<lparr>first_chunk = unat off div 2 ^ q, first_offset = unat off mod 2 ^ q, first_size = unat n, full_chunks = 0, last_size = 0\<rparr>"
    by (simp add: split_range_def d n)
  with a show "unat (start_chunk C) = unat off div 2 ^ q" "unat (start_offset C) = unat off mod 2 ^ q" "start_size C = n"
    "num_full_chunks C = 0" "end_size C = 0"
    by (simp_all add: abs_chunks_def word_unat_eq_iff)
qed

lemma write_single:
  assumes v: "ext2_on drv k j N img q f fd"
    and place: "inode_place (curr_inode (read_format (format_data fblk))) (fs_impl_data fd) = Some (t, o')"
    and fit: "extent_at k q fd t + unat o' + 128 \<le> N * 2 ^ k"
    and i: "i = read_inode (map f [extent_at k q fd t + unat o'..<extent_at k q fd t + unat o' + 128])"
    and range: "unat off + unat n < 4294967296" and one: "unat off mod 2 ^ q + unat n < 2 ^ q" and n: "n \<noteq> 0"
    and b: "block_on_disk f (extent_at k q fd) q (N * 2 ^ k) i (unat off div 2 ^ q)"
    and w: "cached_writes drv k m" "unat n \<le> m" and buf: "length buf = unat n"
  shows "\<exists>bn d. ext2_write buf 0 off n fblk fd = Some (bn, fd\<lparr>disk := d\<rparr>) \<and>
    ext2_on drv k j N img q (overlay (extent_at k q fd (file_block f (extent_at k q fd) (2 ^ (q - 2)) i (unat off div 2 ^ q)) +
      unat off mod 2 ^ q) buf f) (fd\<lparr>disk := d\<rparr>)"
proof -
  have g: "ext2_geometry k q (fs_impl_data fd)" using v by (simp add: ext2_on_def)
  then have q: "q \<le> 16" by (simp add: ext2_geometry_def)
  define C where "C = filesystem_chunkify off n (2 ^ q - 1) (of_nat q)"
  have C: "filesystem_chunkify off n (fs_block_size (fs_impl_data fd) - 1) (log2_block_size (fs_impl_data fd)) = C"
    using g by (simp add: C_def ext2_geometry_def)
  note c = single_chunk [OF q range one, folded C_def]
  let ?lba = "file_block f (extent_at k q fd) (2 ^ (q - 2)) i (unat off div 2 ^ q)"
  from locate_inode_ok [OF v place fit] obtain d0 where l: "locate_inode (curr_inode (read_format (format_data fblk))) fd = Some (i, fd\<lparr>disk := d0\<rparr>)"
    and v0: "ext2_on drv k j N img q f (fd\<lparr>disk := d0\<rparr>)" unfolding i by blast
  from get_block_ok [OF v0, of i "start_chunk C"] b obtain d1 where g1: "get_block_n i (start_chunk C) (fd\<lparr>disk := d0\<rparr>) = Some (?lba, fd\<lparr>disk := d1\<rparr>)"
    and v1: "ext2_on drv k j N img q f (fd\<lparr>disk := d1\<rparr>)" by (auto simp: c(1) block_on_disk_def)
  have "extent_at k q (fd\<lparr>disk := d1\<rparr>) ?lba + unat (start_offset C) + unat n \<le> N * 2 ^ k"
    using b one by (simp add: c(2) block_on_disk_def)
  from ext2_wr_ok [OF v1 this w, of buf] buf obtain d2 where
    w2: "ext2_wr ?lba (start_offset C) buf n (fd\<lparr>disk := d1\<rparr>) = Some (fd\<lparr>disk := d2\<rparr>)"
    and v2: "ext2_on drv k j N img q (overlay (extent_at k q fd ?lba + unat off mod 2 ^ q) buf f) (fd\<lparr>disk := d2\<rparr>)"
    by (auto simp: c(2))
  have "ext2_write buf 0 off n fblk fd = Some (start_chunk C + 1, fd\<lparr>disk := d2\<rparr>)"
    using n by (simp add: ext2_write_def Let_def C l c(3-5) ext2_write_part_def g1 w2)
  then show ?thesis using v2 by blast
qed

text \<open>The number of blocks of a file of \<open>x\<close> bytes.\<close>

definition blocks_of :: "nat \<Rightarrow> nat \<Rightarrow> nat" where
  "blocks_of q x = (x + (2 ^ q - 1)) div 2 ^ q"

lemma blocks_count:
  assumes g: "ext2_geometry k q fs" and x: "unat x + 2 ^ q \<le> 4294967296"
  shows "unat (drop_bit (unat (log2_block_size fs)) (x + (fs_block_size fs - 1))) = blocks_of q (unat x)"
proof -
  have "1 \<le> fs_block_size fs" using geometry_sizes(1) [OF g] by (simp add: word_le_nat_alt)
  then have "unat (fs_block_size fs - 1) = 2 ^ q - 1" using geometry_sizes(1) [OF g] by (subst u32_sub) simp_all
  moreover have "(1::nat) \<le> 2 ^ q" by simp
  ultimately have "unat (x + (fs_block_size fs - 1)) = unat x + (2 ^ q - 1)" using x by (subst u32_add) auto
  then show ?thesis by (simp add: unat_shift_right blocks_of_def geometry_sizes(5) [OF g])
qed

text \<open>C19: a file that grows to at most twice its blocks gets no new block: \<open>ext2_allocate_blocks\<close> reports the whole
  size as allocated, but counts its loop up to the number of missing blocks instead of the number needed, and leaves
  the disk as it was. A write to a block that has no number yet then goes to block 0 and destroys the boot or super block.\<close>

theorem ext2_growth_lost:
  assumes v: "ext2_on drv k j N img q f fd"
    and place: "inode_place (curr_inode (read_format (format_data fblk))) (fs_impl_data fd) = Some (t, o')"
    and fit: "extent_at k q fd t + unat o' + 128 \<le> N * 2 ^ k"
    and i: "i = read_inode (map f [extent_at k q fd t + unat o'..<extent_at k q fd t + unat o' + 128])"
    and grow: "i_size i \<le> s" "unat s + 2 ^ q \<le> 4294967296" "blocks_of q (unat s) \<le> 2 * blocks_of q (unat (i_size i))"
    and range: "unat off + unat n < 4294967296" "unat off mod 2 ^ q + unat n < 2 ^ q" "n \<noteq> 0" "length buf = unat n"
    and hole: "file_block f (extent_at k q fd) (2 ^ (q - 2)) i (unat off div 2 ^ q) = 0"
      "block_on_disk f (extent_at k q fd) q (N * 2 ^ k) i (unat off div 2 ^ q)"
    and w: "cached_writes drv k m" "unat n \<le> m" "128 \<le> m"
  shows "\<exists>fd1 bn fd2. ext2_allocate_blocks 0 s fblk fd = Some (ucast s, fd1) \<and> ext2_on drv k j N img q f fd1 \<and>
    ext2_write buf 0 off n fblk fd1 = Some (bn, fd2) \<and>
    ext2_on drv k j N img q (overlay (extent_at k q fd 0 + unat off mod 2 ^ q) buf f) fd2"
proof -
  let ?ino = "curr_inode (read_format (format_data fblk))" and ?p = "extent_at k q fd t + unat o'"
  have g: "ext2_geometry k q (fs_impl_data fd)" using v by (simp add: ext2_on_def)
  from locate_inode_ok [OF v place fit] obtain d0 where l: "locate_inode ?ino fd = Some (i, fd\<lparr>disk := d0\<rparr>)"
    and v0: "ext2_on drv k j N img q f (fd\<lparr>disk := d0\<rparr>)" unfolding i by blast
  have si: "unat (i_size i) \<le> unat s" using grow(1) by (simp add: word_le_nat_alt)
  define need got where "need = drop_bit (unat (log2_block_size (fs_impl_data fd))) (s + (fs_block_size (fs_impl_data fd) - 1))"
    and "got = drop_bit (unat (log2_block_size (fs_impl_data fd))) (i_size i + (fs_block_size (fs_impl_data fd) - 1))"
  have c: "unat need = blocks_of q (unat s)" "unat got = blocks_of q (unat (i_size i))"
    using blocks_count [OF g] grow(2) si by (simp_all add: need_def got_def)
  have "blocks_of q (unat (i_size i)) \<le> blocks_of q (unat s)" unfolding blocks_of_def using si by (intro div_le_mono) simp
  then have "unat (need - got) = blocks_of q (unat s) - blocks_of q (unat (i_size i))"
    by (subst u32_sub) (simp_all add: word_le_nat_alt c)
  then have none: "unat (need - got) - unat got = 0" using grow(3) by (simp add: c)
  have "length (map f [?p..<?p + 128]) = 128" by simp
  from inode_bytes_read [OF this] have ib: "inode_bytes i = map f [?p..<?p + 128]" by (simp add: i)
  have "extent_at k q (fd\<lparr>disk := d0\<rparr>) t + unat o' + unat INODE_SIZE \<le> N * 2 ^ k" "unat INODE_SIZE \<le> m" "unat INODE_SIZE \<le> length (inode_bytes i)"
    using fit w(3) by (simp_all add: INODE_SIZE_def ib)
  from ext2_wr_ok [OF v0 this(1) w(1) this(2,3)] obtain d1 where u: "update_inode ?ino i (fd\<lparr>disk := d0\<rparr>) = Some (fd\<lparr>disk := d1\<rparr>)"
    and v1: "ext2_on drv k j N img q f (fd\<lparr>disk := d1\<rparr>)"
    using place by (auto simp: update_inode_def INODE_SIZE_def ib overlay_map_id)
  have a: "ext2_allocate_blocks 0 s fblk fd = Some (ucast s, fd\<lparr>disk := d1\<rparr>)"
    using none by (simp add: ext2_allocate_blocks_def Let_def l u flip: need_def got_def)
  have "inode_place ?ino (fs_impl_data (fd\<lparr>disk := d1\<rparr>)) = Some (t, o')" using place by simp
  from write_single [OF v1 this _ _ range(1-3) _ w(1,2) range(4), of i] fit i hole a v1 show ?thesis by auto
qed

section \<open>A volume\<close>

text \<open>
  A memory disk with blocks of 1 KiB: the inode table in block 3, inode 2 a file of 1000 bytes with its data in block 4
  and an indirect block in block 5.
\<close>

definition sample_inode :: inode where
  "sample_inode = \<lparr>i_mode = 0x8000, i_uid = 0, i_size = 1000, i_atime = 0, i_ctime = 0, i_mtime = 0, i_dtime = 0,
     i_gid = 0, i_links_count = 1, i_blocks = 2, i_flags = 0, i_osd1 = 0,
     i_block = 4 # replicate 11 0 @ [5, 0, 0], i_generation = 0, i_file_acl = 0, i_dir_acl = 0,
     i_faddr = 0, i_osd2 = replicate 12 0\<rparr>"

definition sample_contents :: "nat \<Rightarrow> byte" where
  "sample_contents = overlay 4096 [97, 98, 99] (overlay 3200 (inode_bytes sample_inode) (\<lambda>_. 0))"

definition sample_super :: superblock where
  "sample_super = (read_superblock (replicate 90 0))\<lparr>sb_inodes_per_group := 8, sb_inode_size := 128, sb_blocks_per_group := 32\<rparr>"

definition sample_ext2 :: "(nat \<Rightarrow> byte) ext2_volume" where
  "sample_ext2 =
     \<lparr>disk = memory_disk sample_contents,
      fs_impl_data = \<lparr>sb = sample_super,
        blkgrps = [\<lparr>bg_block_bitmap = 1, bg_inode_bitmap = 2, bg_inode_table = 3, bg_free_blocks_count = 9,
          bg_free_inodes_count = 4, bg_used_dirs_count = 0\<rparr>],
        fs_block_size = 1024, log2_block_size = 10, d_blocks_per_block_log2 = 1, ptrs_per_block = 256,
        ptrs_per_block_log2 = 8, ptrs_per_ind_block = 65536, num_blkgrps = 1\<rparr>,
      fs_id = 0, first_block = 0, num_blocks = 64, block_size = 512, root_name = []\<rparr>"

definition sample_ext2_file :: file_data_block where
  "sample_ext2_file = \<lparr>location_on_disk = 0, disk_id = 0, file_size = 1000, file_flags = 0,
     format_data = format_of \<lparr>curr_inode = 2, parent_inode = 1\<rparr>\<rparr>"

lemma sample_ext2_on: "ext2_on (memory_driver 512) 9 1 64 (\<lambda>m. m) 10 sample_contents sample_ext2"
  using memory_disk_holds by (simp add: ext2_on_def ext2_geometry_def sample_ext2_def)

lemma sample_at: "extent_at 9 10 sample_ext2 b = unat b * 1024"
  by (simp add: extent_at_def sample_ext2_def)

lemma sample_writes: "cached_writes (memory_driver 512) 9 1000"
  by (simp add: cached_writes_def memory_driver_def)

lemma sample_curr: "curr_inode (read_format (format_data sample_ext2_file)) = 2"
  by (simp add: sample_ext2_file_def read_format_def format_of_def get_put)

lemma sample_place: "inode_place (curr_inode (read_format (format_data sample_ext2_file))) (fs_impl_data sample_ext2) = Some (3, 128)"
  unfolding sample_curr by (simp add: inode_place_def sample_ext2_def sample_super_def)

lemma length_inode_bytes: "length (i_block i) = 15 \<Longrightarrow> length (i_osd2 i) = 12 \<Longrightarrow> length (inode_bytes i) = 128"
  by (simp add: inode_bytes_def length_concat comp_def sum_list_triv)

lemma sample_inode_read: "sample_inode = read_inode (map sample_contents [3200..<3328])"
proof -
  have l: "length (inode_bytes sample_inode) = 128" by (intro length_inode_bytes) (simp_all add: sample_inode_def)
  have "map sample_contents [3200..<3200 + 128] = inode_bytes sample_inode"
    unfolding sample_contents_def
    using map_overlay_same [of 3200 "inode_bytes sample_inode"] by (subst map_overlay_disjoint) (simp_all add: l)
  then show ?thesis using inode_roundtrip [of sample_inode] by (simp add: sample_inode_def)
qed

lemma sample_block: "n < 12 \<Longrightarrow> file_block f at P sample_inode n = (if n = 0 then 4 else 0)"
  by (auto simp: file_block_def block_path_eqs sample_inode_def nth_Cons' nth_append)

lemma sample_on_disk: "n < 12 \<Longrightarrow> block_on_disk f (extent_at 9 10 sample_ext2) 10 (64 * 2 ^ 9) sample_inode n"
  by (simp add: block_on_disk_def map_on_disk_def mappable_def block_path_eqs sample_block sample_at)

theorem ext2_read_contents_witness:
  "\<exists>bn fd'. ext2_read [0, 0] 0 1 2 sample_ext2_file sample_ext2 = Some ([98, 99], bn, fd')"
proof -
  have bytes: "file_byte sample_contents (extent_at 9 10 sample_ext2) 10 sample_inode (Suc 0) = 98"
    "file_byte sample_contents (extent_at 9 10 sample_ext2) 10 sample_inode (Suc (Suc 0)) = 99"
    by (simp_all add: file_byte_def sample_block sample_at sample_contents_def overlay_def)
  have fit: "extent_at 9 10 sample_ext2 3 + unat (128 :: u32) + 128 \<le> 64 * 2 ^ 9" by (simp add: sample_at)
  have i: "sample_inode = read_inode (map sample_contents
      [extent_at 9 10 sample_ext2 3 + unat (128 :: u32)..<extent_at 9 10 sample_ext2 3 + unat (128 :: u32) + 128])"
    using sample_inode_read by (simp add: sample_at)
  have "\<forall>b. unat (1 :: u64) < b * 2 ^ 10 + 2 ^ 10 \<longrightarrow> b * 2 ^ 10 < unat (1 :: u64) + unat (2 :: u32) \<longrightarrow>
      block_on_disk sample_contents (extent_at 9 10 sample_ext2) 10 (64 * 2 ^ 9) sample_inode b"
  proof (intro allI impI)
    fix b :: nat assume "b * 2 ^ 10 < unat (1 :: u64) + unat (2 :: u32)"
    then have "b < 12" by simp
    then show "block_on_disk sample_contents (extent_at 9 10 sample_ext2) 10 (64 * 2 ^ 9) sample_inode b" by (rule sample_on_disk)
  qed
  from ext2_read_contents [OF sample_ext2_on sample_place fit i _ _ this, of "[0, 0]"] show ?thesis by (auto simp: bytes)
qed

theorem ext2_growth_lost_witness:
  "\<exists>fd1 bn fd2. ext2_allocate_blocks 0 2000 sample_ext2_file sample_ext2 = Some (2000, fd1) \<and>
    ext2_write [1, 2, 3] 0 1030 3 sample_ext2_file fd1 = Some (bn, fd2) \<and>
    ext2_on (memory_driver 512) 9 1 64 (\<lambda>m. m) 10 (overlay 6 [1, 2, 3] sample_contents) fd2"
proof -
  have fit: "extent_at 9 10 sample_ext2 3 + unat (128 :: u32) + 128 \<le> 64 * 2 ^ 9" by (simp add: sample_at)
  have i: "sample_inode = read_inode (map sample_contents
      [extent_at 9 10 sample_ext2 3 + unat (128 :: u32)..<extent_at 9 10 sample_ext2 3 + unat (128 :: u32) + 128])"
    using sample_inode_read by (simp add: sample_at)
  have sz: "i_size sample_inode = 1000" by (simp add: sample_inode_def)
  have "file_block sample_contents (extent_at 9 10 sample_ext2) (2 ^ (10 - 2)) sample_inode (unat (1030 :: u64) div 2 ^ 10) = 0"
    by (simp add: sample_block)
  moreover have "block_on_disk sample_contents (extent_at 9 10 sample_ext2) 10 (64 * 2 ^ 9) sample_inode (unat (1030 :: u64) div 2 ^ 10)"
    by (rule sample_on_disk) simp
  ultimately show ?thesis
    using ext2_growth_lost [OF sample_ext2_on sample_place fit i _ _ _ _ _ _ _ _ _ sample_writes, of 2000 1030 3 "[1, 2, 3]"]
    by (auto simp: sz blocks_of_def sample_at)
qed

lemma sample_word_0: "p + 4 \<le> 1024 \<Longrightarrow> word_at sample_contents p = 0"
proof -
  assume "p + 4 \<le> 1024"
  then have "map sample_contents [p..<p + 4] = map (\<lambda>_. 0) [p..<p + 4]"
    unfolding sample_contents_def by (subst map_overlay_disjoint) (simp_all add: map_overlay_disjoint)
  then show ?thesis by (simp add: word_at_def map_replicate_const numeral_eq_Suc)
qed

lemma sample_single_place: "single_place sample_contents (extent_at 9 10 sample_ext2) 256 sample_inode 13"
proof -
  have p13: "block_path 256 13 = (12, [1])" using block_path_eqs(2) [of 1 256] by simp
  have leaf: "leaf_block sample_contents (extent_at 9 10 sample_ext2) 256 sample_inode 13 = 5"
    by (simp add: leaf_block_def p13 sample_inode_def nth_append)
  have s: "i_block sample_inode ! 12 = 5" "i_block sample_inode ! 13 = 0" "i_block sample_inode ! 14 = 0"
    by (simp_all add: sample_inode_def nth_append)
  have at0: "extent_at 9 10 sample_ext2 0 = 0" by (simp add: sample_at)
  show ?thesis unfolding single_place_def leaf p13
  proof (intro allI impI)
    fix n' j
    assume m: "mappable 256 n'" and j: "j < length (snd (block_path 256 n'))"
      and b: "pointer_blocks sample_contents (extent_at 9 10 sample_ext2) (i_block sample_inode ! fst (block_path 256 n'))
        (snd (block_path 256 n')) ! j = 5"
    show "fst (block_path 256 n') = fst (12, [1]) \<and> take j (snd (block_path 256 n')) = butlast (snd (12, [1]))"
    proof (cases rule: block_number_cases [of n' 256])
      case (double x)
      have "x div 256 < 256" using double(2) by (simp add: less_mult_imp_div_less)
      then have "word_at sample_contents (0 + 4 * (x div 256)) = 0" by (intro sample_word_0) simp
      then show ?thesis using j b by (auto simp: double(3) s at0 less_Suc_eq_0_disj)
    next
      case (triple x)
      have "x < 256 * 256 * 256" using m triple(1) by (simp add: mappable_def)
      then have "x div 256 div 256 < 256" by (simp add: less_mult_imp_div_less div_mult2_eq [symmetric])
      then have "word_at sample_contents (0 + 4 * (x div 256 div 256)) = 0" by (intro sample_word_0) simp
      moreover have "word_at sample_contents (0 + 4 * (x div 256 mod 256)) = 0" by (intro sample_word_0) (simp add: order.trans [OF mult_le_mono2 [of _ 255]])
      ultimately show ?thesis using j b by (auto simp: triple(2) s at0 less_Suc_eq_0_disj)
    qed (use j in \<open>auto simp: s\<close>)
  qed
qed

theorem ext2_block_map_witness:
  "\<exists>i' fd' fd''. set_block_n sample_inode 13 7 sample_ext2 = Some (i', fd') \<and> get_block_n i' 13 fd' = Some (7, fd'')"
proof -
  have len: "length (i_block sample_inode) = 15" by (simp add: sample_inode_def)
  have "block_path 256 13 = (12, [1])" using block_path_eqs(2) [of 1 256] by simp
  then have m: "map_on_disk sample_contents (extent_at 9 10 sample_ext2) (2 ^ (10 - 2)) (64 * 2 ^ 9) sample_inode (unat (13 :: u32))"
    by (simp add: map_on_disk_def mappable_def sample_at) (simp add: sample_inode_def nth_append)
  have w: "cached_writes (memory_driver 512) 9 4" by (simp add: cached_writes_def memory_driver_def)
  have "single_place sample_contents (extent_at 9 10 sample_ext2) (2 ^ (10 - 2)) sample_inode (unat (13 :: u32))"
    using sample_single_place by simp
  from ext2_block_map [OF sample_ext2_on w len m this] show ?thesis by blast
qed

end
