(* ===== verification/CLib.thy ===== *)
theory CLib
  imports CTime
begin

text \<open>
  The character classes, strings and blocks of memory of the C library (\<open>clib/ctype.c\<close>, \<open>clib/include/ctype.h\<close>,
  \<open>clib/string.c\<close>, \<open>atoi\<close> of \<open>clib/stdlib.cpp\<close>). Memory is a function from addresses to bytes; a null pointer is 0.
  A string that does not end, which the loops follow through all of memory for ever, has no result.
\<close>

unbundle bit_operations_syntax

type_synonym ram = "u32 \<Rightarrow> byte"

section \<open>Character classes\<close>

definition ctype_table :: "byte list" where
  "ctype_table =
     replicate 9 0x08 @ replicate 5 0x28 @ replicate 18 0x08 @ [0x20] @ replicate 15 0x10 @ replicate 10 0x44 @
     replicate 7 0x10 @ replicate 6 0x41 @ replicate 20 0x01 @ replicate 6 0x10 @ replicate 6 0x42 @ replicate 20 0x02 @
     replicate 4 0x10 @ [0x08]"

definition CT_DIG :: byte where "CT_DIG = 0x04"
definition CT_WHT :: byte where "CT_WHT = 0x20"

text \<open>A plain \<open>char\<close> above 127 is an index far outside the table; \<open>outside\<close> is what is found there.\<close>

definition ctype_of :: "(byte \<Rightarrow> byte) \<Rightarrow> byte \<Rightarrow> byte" where
  "ctype_of outside c = (if c < 128 then ctype_table ! unat c else outside c)"

definition ctype_isdigit :: "(byte \<Rightarrow> byte) \<Rightarrow> byte \<Rightarrow> bool" where
  "ctype_isdigit outside c \<longleftrightarrow> ctype_of outside c AND CT_DIG \<noteq> 0"

definition ctype_isspace :: "(byte \<Rightarrow> byte) \<Rightarrow> byte \<Rightarrow> bool" where
  "ctype_isspace outside c \<longleftrightarrow> ctype_of outside c AND CT_WHT \<noteq> 0"

section \<open>Strings\<close>

partial_function (option) strchr :: "ram \<Rightarrow> u32 \<Rightarrow> byte \<Rightarrow> u32 option" where
  "strchr m str c =
     (if m str \<noteq> c then if m str = 0 then Some 0 else strchr m (str + 1) c
      else Some str)"

partial_function (option) strlen_from :: "ram \<Rightarrow> u32 \<Rightarrow> u32 \<Rightarrow> u32 option" where
  "strlen_from m str len = (if m str \<noteq> 0 then strlen_from m (str + 1) (len + 1) else Some len)"

definition strlen :: "ram \<Rightarrow> u32 \<Rightarrow> u32 option" where
  "strlen m str = strlen_from m str 0"

partial_function (option) strrchr_from :: "ram \<Rightarrow> u32 \<Rightarrow> u32 \<Rightarrow> byte \<Rightarrow> u32 option" where
  "strrchr_from m str ptr c =
     (if str \<le> ptr then if m ptr = c then Some ptr else strrchr_from m str (ptr - 1) c
      else Some 0)"

definition strrchr :: "ram \<Rightarrow> u32 \<Rightarrow> byte \<Rightarrow> u32 option" where
  "strrchr m str c = do {
     n \<leftarrow> strlen m str;
     strrchr_from m str (str + n) c
   }"

text \<open>The loop over the delimiters.\<close>

partial_function (option) is_delimiter :: "ram \<Rightarrow> byte \<Rightarrow> u32 \<Rightarrow> bool option" where
  "is_delimiter m c dchar =
     (if m dchar = 0 then Some False
      else if c = m dchar then Some True
      else is_delimiter m c (dchar + 1))"

text \<open>
  The loop over the string. A delimiter is overwritten with zero; when it is the first character of the token, the
  token starts behind it (the rest of the delimiters are compared with that zero, to no effect).
\<close>

partial_function (option) strtok_scan :: "ram \<Rightarrow> u32 \<Rightarrow> u32 \<Rightarrow> u32 \<Rightarrow> u32 \<Rightarrow> (u32 \<times> u32 \<times> ram) option" where
  "strtok_scan m buffer token c delimiters =
     (if m c = 0 then Some (token, buffer, m)
      else Option.bind (is_delimiter m (m c) delimiters) (\<lambda>found.
        if found
        then if c = token then strtok_scan (m(c := 0)) (c + 1) (token + 1) (c + 1) delimiters
             else Some (token, c + 1, m(c := 0))
        else strtok_scan m buffer token (c + 1) delimiters))"

text \<open>The result is the token, the static \<open>buffer\<close> and memory.\<close>

definition strtok :: "u32 \<Rightarrow> ram \<Rightarrow> u32 \<Rightarrow> u32 \<Rightarrow> (u32 \<times> u32 \<times> ram) option" where
  "strtok buffer m str delimiters =
     (let buffer = (if str \<noteq> 0 then str else buffer) in
      if buffer = 0 \<or> m buffer = 0 then Some (0, buffer, m)
      else strtok_scan m buffer buffer buffer delimiters)"

definition char_diff :: "ram \<Rightarrow> u32 \<Rightarrow> u32 \<Rightarrow> int" where
  "char_diff m s1 s2 = uint (m s1) - uint (m s2)"

partial_function (option) strcmp :: "ram \<Rightarrow> u32 \<Rightarrow> u32 \<Rightarrow> int option" where
  "strcmp m s1 s2 =
     (if m s1 \<noteq> 0 \<and> m s1 = m s2 then strcmp m (s1 + 1) (s2 + 1)
      else Some (char_diff m s1 s2))"

fun memcmp_loop :: "nat \<Rightarrow> ram \<Rightarrow> u32 \<Rightarrow> u32 \<Rightarrow> int" where
  "memcmp_loop 0 m p q = char_diff m p q"
| "memcmp_loop (Suc n) m p q = (if m p = m q then memcmp_loop n m (p + 1) (q + 1) else char_diff m p q)"

definition memcmp :: "ram \<Rightarrow> u32 \<Rightarrow> u32 \<Rightarrow> u32 \<Rightarrow> int" where
  "memcmp m p q num = (if num = 0 then 0 else memcmp_loop (unat num - 1) m p q)"

fun strncmp_loop :: "nat \<Rightarrow> ram \<Rightarrow> u32 \<Rightarrow> u32 \<Rightarrow> int" where
  "strncmp_loop 0 m s1 s2 = char_diff m s1 s2"
| "strncmp_loop (Suc n) m s1 s2 =
     (if m s1 \<noteq> 0 \<and> m s1 = m s2 then strncmp_loop n m (s1 + 1) (s2 + 1) else char_diff m s1 s2)"

definition strncmp :: "ram \<Rightarrow> u32 \<Rightarrow> u32 \<Rightarrow> u32 \<Rightarrow> int" where
  "strncmp m s1 s2 count = strncmp_loop (unat count) m s1 s2"

section \<open>Blocks\<close>

text \<open>
  \<open>memcpy\<close> and \<open>memset\<close> (\<open>clib/include/string386.inl\<close>) are string instructions of the processor: \<open>rep movsl\<close> moves
  words upwards, \<open>rep movsb\<close> bytes. Which of the bodies a call compiles to depends on what the compiler knows of the
  size: \<open>known\<close> that it is a constant, \<open>low_known\<close> that its two lowest bits are.
\<close>

definition copied :: "u32 \<Rightarrow> u32 \<Rightarrow> nat \<Rightarrow> ram \<Rightarrow> ram" where
  "copied dst src n m = (\<lambda>a. if unat (a - dst) < n then m (src + (a - dst)) else m a)"

definition filled :: "u32 \<Rightarrow> byte \<Rightarrow> nat \<Rightarrow> ram \<Rightarrow> ram" where
  "filled dst c n m = (\<lambda>a. if unat (a - dst) < n then c else m a)"

fun move_up :: "nat \<Rightarrow> u32 \<Rightarrow> u32 \<Rightarrow> ram \<Rightarrow> ram" where
  "move_up 0 dst_ptr src_ptr m = m"
| "move_up (Suc n) dst_ptr src_ptr m = move_up n (dst_ptr + 1) (src_ptr + 1) (m(dst_ptr := m src_ptr))"

fun rep_movsl :: "nat \<Rightarrow> u32 \<Rightarrow> u32 \<Rightarrow> ram \<Rightarrow> ram" where
  "rep_movsl 0 edi esi m = m"
| "rep_movsl (Suc n) edi esi m =
     rep_movsl n (edi + 4) (esi + 4)
       (m(edi := m esi, edi + 1 := m (esi + 1), edi + 2 := m (esi + 2), edi + 3 := m (esi + 3)))"

definition do_memcpy :: "u32 \<Rightarrow> u32 \<Rightarrow> u32 \<Rightarrow> ram \<Rightarrow> ram" where
  "do_memcpy dest src num m =
     (let ecx = num div 4 in
      move_up (unat (num AND 3)) (dest + 4 * ecx) (src + 4 * ecx) (rep_movsl (unat ecx) dest src m))"

definition do_memcpy4 :: "u32 \<Rightarrow> u32 \<Rightarrow> u32 \<Rightarrow> ram \<Rightarrow> ram" where
  "do_memcpy4 dest src num m = rep_movsl (unat (num div 4)) dest src m"

definition memcpy :: "bool \<Rightarrow> bool \<Rightarrow> u32 \<Rightarrow> u32 \<Rightarrow> u32 \<Rightarrow> ram \<Rightarrow> ram" where
  "memcpy known low_known dst src num m =
     (if known
      then if num \<le> 4 then copied dst src (unat num) m
           else if num AND 3 = 0 then do_memcpy4 dst src num m
           else do_memcpy dst src num m
      else if low_known \<and> num AND 3 = 0 then do_memcpy4 dst src num m
      else do_memcpy dst src num m)"

fun rep_stos :: "nat \<Rightarrow> nat \<Rightarrow> u32 \<Rightarrow> byte \<Rightarrow> ram \<Rightarrow> ram" where
  "rep_stos unit 0 edi al m = m"
| "rep_stos unit (Suc n) edi al m = rep_stos unit n (edi + of_nat unit) al (filled edi al unit m)"

definition memset :: "bool \<Rightarrow> bool \<Rightarrow> u32 \<Rightarrow> u32 \<Rightarrow> u32 \<Rightarrow> ram \<Rightarrow> ram" where
  "memset known low_known a val num m =
     (let al = ucast val; words = rep_stos 4 (unat (num div 4)) a al m in
      if known \<and> num \<le> 4 then filled a al (unat num) m
      else if (known \<or> low_known) \<and> num AND 3 = 0 then words
      else rep_stos 1 (unat (num AND 3)) (a + 4 * (num div 4)) al words)"

fun move_down :: "nat \<Rightarrow> u32 \<Rightarrow> u32 \<Rightarrow> ram \<Rightarrow> ram" where
  "move_down 0 dst_ptr src_ptr m = m"
| "move_down (Suc n) dst_ptr src_ptr m = move_down n (dst_ptr - 1) (src_ptr - 1) (m(dst_ptr - 1 := m (src_ptr - 1)))"

definition memmove :: "u32 \<Rightarrow> u32 \<Rightarrow> u32 \<Rightarrow> ram \<Rightarrow> ram" where
  "memmove dest src num m =
     (if src < dest \<and> dest < src + num then move_down (unat num) (dest + num) (src + num) m
      else move_up (unat num) dest src m)"

fun memchr_loop :: "nat \<Rightarrow> ram \<Rightarrow> u32 \<Rightarrow> byte \<Rightarrow> u32" where
  "memchr_loop 0 m p c = 0"
| "memchr_loop (Suc n) m p c = (if m p \<noteq> c then memchr_loop n m (p + 1) c else p)"

definition memchr :: "ram \<Rightarrow> u32 \<Rightarrow> byte \<Rightarrow> u32 \<Rightarrow> u32" where
  "memchr m str c n = (if str = 0 then 0 else memchr_loop (unat n) m str c)"

section \<open>Copying strings\<close>

definition strcat :: "u32 \<Rightarrow> u32 \<Rightarrow> ram \<Rightarrow> ram option" where
  "strcat destination source m = do {
     d \<leftarrow> strlen m destination;
     n \<leftarrow> strlen m source;
     Some (memcpy False False (destination + d) source (n + 1) m)
   }"

definition strcpy :: "u32 \<Rightarrow> u32 \<Rightarrow> ram \<Rightarrow> ram option" where
  "strcpy destination source m = do {
     n \<leftarrow> strlen m source;
     Some (memcpy False False destination source (n + 1) m)
   }"

fun strncpy_loop :: "nat \<Rightarrow> u32 \<Rightarrow> u32 \<Rightarrow> ram \<Rightarrow> ram" where
  "strncpy_loop 0 dst src m = m"
| "strncpy_loop (Suc n) dst src m =
     (if m src \<noteq> 0 then strncpy_loop n (dst + 1) (src + 1) (m(dst := m src)) else m(dst := 0))"

definition strncpy :: "u32 \<Rightarrow> u32 \<Rightarrow> u32 \<Rightarrow> ram \<Rightarrow> ram" where
  "strncpy dst src count m = (if dst = 0 then m else strncpy_loop (unat count) dst src m)"

section \<open>Numbers\<close>

partial_function (option) skip_spaces :: "(byte \<Rightarrow> byte) \<Rightarrow> ram \<Rightarrow> u32 \<Rightarrow> u32 option" where
  "skip_spaces outside m str = (if ctype_isspace outside (m str) then skip_spaces outside m (str + 1) else Some str)"

text \<open>The sum is computed from the left, with the code of the digit before that of zero is subtracted.\<close>

partial_function (option) read_digits :: "(byte \<Rightarrow> byte) \<Rightarrow> ram \<Rightarrow> u32 \<Rightarrow> int \<Rightarrow> int option" where
  "read_digits outside m str n =
     (if ctype_isdigit outside (m str)
      then Option.bind (i32 (n * 10)) (\<lambda>t. Option.bind (i32 (t + sint (m str))) (\<lambda>t. Option.bind (i32 (t - 48)) (\<lambda>n.
        read_digits outside m (str + 1) n)))
      else Some n)"

definition atoi :: "(byte \<Rightarrow> byte) \<Rightarrow> ram \<Rightarrow> u32 \<Rightarrow> int option" where
  "atoi outside m str = do {
     str \<leftarrow> skip_spaces outside m str;
     let (str, sign) = (if m str = 45 then (str + 1, -1) else if m str = 43 then (str + 1, 1) else (str, 1));
     n \<leftarrow> read_digits outside m str 0;
     i32 (n * sign)
   }"

end
