(* ===== verification/Scanf.thy ===== *)
theory Scanf
  imports CLib
begin

text \<open>
  Formatted input of the C library (\<open>clib/scanf.cpp\<close>). The input is behind an interface of two functions, \<open>consume\<close> and
  \<open>look_ahead\<close>; \<open>raw_handler\<close> reads a string, \<open>file_handler\<close> a file. A format is the list of its bytes with the final
  zero, and \<open>fmt\<close> a position in it; reading behind the zero has no result. Results go through the pointers that are
  the arguments into memory.
\<close>

unbundle bit_operations_syntax

record 'h scanf_handler =
  consume :: "'h \<Rightarrow> (byte \<times> 'h) option"
  look_ahead :: "'h \<Rightarrow> (byte \<times> 'h) option"
  num_consumed :: "'h \<Rightarrow> u32"

datatype scanf_type = TYPE_CHAR | TYPE_SHORT | TYPE_INTMAX | TYPE_L | TYPE_LL | TYPE_PTRDIFF | TYPE_SIZE_T | TYPE_INT

fun type_size :: "scanf_type \<Rightarrow> nat" where
  "type_size TYPE_CHAR = 1"
| "type_size TYPE_SHORT = 2"
| "type_size TYPE_INTMAX = 8"
| "type_size TYPE_L = 4"
| "type_size TYPE_LL = 8"
| "type_size TYPE_PTRDIFF = 4"
| "type_size TYPE_SIZE_T = 4"
| "type_size TYPE_INT = 4"

definition store_int :: "u32 \<Rightarrow> scanf_type \<Rightarrow> u64 \<Rightarrow> ram \<Rightarrow> ram" where
  "store_int dest typ i m =
     (\<lambda>a. if unat (a - dest) < type_size typ then ucast (drop_bit (8 * unat (a - dest)) i) else m a)"

section \<open>The loops over the input\<close>

partial_function (option) skip_input :: "(byte \<Rightarrow> byte) \<Rightarrow> 'h scanf_handler \<Rightarrow> 'h \<Rightarrow> 'h option" where
  "skip_input outside ops h =
     Option.bind (look_ahead ops h) (\<lambda>(c, h).
       if ctype_isspace outside c
       then Option.bind (consume ops h) (\<lambda>(_, h). skip_input outside ops h)
       else Some h)"

text \<open>Digits up to \<open>limit\<close>; the value is a decimal number also where only the digits up to seven are accepted.\<close>

partial_function (option) scan_digits :: "'h scanf_handler \<Rightarrow> byte \<Rightarrow> u64 \<Rightarrow> 'h \<Rightarrow> (u64 \<times> 'h) option" where
  "scan_digits ops limit res h =
     Option.bind (look_ahead ops h) (\<lambda>(c, h).
       if 48 \<le> c \<and> c \<le> limit
       then Option.bind (consume ops h) (\<lambda>(_, h). scan_digits ops limit (res * 10 + ucast (c - 48)) h)
       else Some (res, h))"

definition hex_part :: "byte \<Rightarrow> u64 option" where
  "hex_part c =
     (if 48 \<le> c \<and> c \<le> 57 then Some (ucast (c - 48))
      else if 97 \<le> c \<and> c \<le> 102 then Some (ucast (c - 97))
      else if 65 \<le> c \<and> c \<le> 70 then Some (ucast (c - 65))
      else None)"

partial_function (option) scan_hex :: "'h scanf_handler \<Rightarrow> u64 \<Rightarrow> byte \<Rightarrow> 'h \<Rightarrow> (u64 \<times> 'h) option" where
  "scan_hex ops res c h =
     (case hex_part c of
        None \<Rightarrow> Some (res, h)
      | Some d \<Rightarrow>
          Option.bind (consume ops h) (\<lambda>(_, h). Option.bind (look_ahead ops h) (\<lambda>(c, h).
            scan_hex ops (res * 16 + d) c h)))"

definition scan_hex_prefixed :: "'h scanf_handler \<Rightarrow> 'h \<Rightarrow> (u64 \<times> 'h) option" where
  "scan_hex_prefixed ops h = do {
     (c, h) \<leftarrow> look_ahead ops h;
     (c, h) \<leftarrow>
       (if c = 48
        then do {
          (_, h) \<leftarrow> consume ops h;
          (c, h) \<leftarrow> look_ahead ops h;
          if c = 120 then do { (_, h) \<leftarrow> consume ops h; look_ahead ops h } else Some (c, h)
        }
        else Some (c, h));
     scan_hex ops 0 c h
   }"

text \<open>A character goes to \<open>dest[count]\<close> unless the assignment is suppressed.\<close>

definition put_char :: "u32 \<Rightarrow> u32 \<Rightarrow> byte \<Rightarrow> ram \<Rightarrow> ram" where
  "put_char dest count c m = (if dest = 0 then m else m(dest + count := c))"

partial_function (option) scan_string ::
  "(byte \<Rightarrow> byte) \<Rightarrow> 'h scanf_handler \<Rightarrow> u32 \<Rightarrow> u32 \<Rightarrow> byte \<Rightarrow> u32 \<Rightarrow> 'h \<Rightarrow> ram \<Rightarrow> (u32 \<times> 'h \<times> ram) option" where
  "scan_string outside ops dest width c count h m =
     (if c \<noteq> 0 \<and> \<not> ctype_isspace outside c
      then Option.bind (consume ops h) (\<lambda>(_, h). Option.bind (look_ahead ops h) (\<lambda>(c', h).
        let m = put_char dest count c m; count = count + 1 in
        if width \<noteq> 0 \<and> width \<le> count then Some (count, h, m)
        else scan_string outside ops dest width c' count h m))
      else Some (count, h, m))"

partial_function (option) scan_chars ::
  "'h scanf_handler \<Rightarrow> u32 \<Rightarrow> u32 \<Rightarrow> byte \<Rightarrow> u32 \<Rightarrow> 'h \<Rightarrow> ram \<Rightarrow> ('h \<times> ram) option" where
  "scan_chars ops dest width c count h m =
     (if c \<noteq> 0 \<and> count < width
      then Option.bind (consume ops h) (\<lambda>(_, h). Option.bind (look_ahead ops h) (\<lambda>(c', h).
        scan_chars ops dest width c' (count + 1) h (put_char dest count c m)))
      else Some (h, m))"

text \<open>
  The array of the accepted characters has an entry for each character above -2; others are outside of it. The
  character that is not accepted has been consumed.
\<close>

partial_function (option) scan_set ::
  "'h scanf_handler \<Rightarrow> (int \<Rightarrow> bool) \<Rightarrow> u32 \<Rightarrow> u32 \<Rightarrow> byte \<Rightarrow> u32 \<Rightarrow> 'h \<Rightarrow> ram \<Rightarrow> (u32 \<times> 'h \<times> ram) option" where
  "scan_set ops scanset dest width c count h m =
     (if c \<noteq> 0 \<and> (width = 0 \<or> count < width)
      then Option.bind (consume ops h) (\<lambda>(_, h).
        if sint c < - 1 then None
        else if \<not> scanset (sint c) then Some (count, h, m)
        else Option.bind (look_ahead ops h) (\<lambda>(c', h).
          scan_set ops scanset dest width c' (count + 1) h (put_char dest count c m)))
      else Some (count, h, m))"

section \<open>The format\<close>

definition fmt_at :: "byte list \<Rightarrow> nat \<Rightarrow> byte option" where
  "fmt_at fmt i = (if i < length fmt then Some (fmt ! i) else None)"

record 'h scan =
  sc_pos :: nat
  sc_args :: "u32 list"
  sc_matches :: u32
  sc_ram :: ram
  sc_src :: 'h

fun skip_format :: "(byte \<Rightarrow> byte) \<Rightarrow> byte list \<Rightarrow> nat \<Rightarrow> nat \<Rightarrow> nat option" where
  "skip_format outside fmt 0 i = None"
| "skip_format outside fmt (Suc k) i =
     Option.bind (fmt_at fmt (i + 1)) (\<lambda>c. if ctype_isspace outside c then skip_format outside fmt k (i + 1) else Some i)"

fun read_width :: "byte list \<Rightarrow> nat \<Rightarrow> nat \<Rightarrow> int \<Rightarrow> (int \<times> nat) option" where
  "read_width fmt 0 i w = None"
| "read_width fmt (Suc k) i w =
     Option.bind (fmt_at fmt i) (\<lambda>c.
       if 48 \<le> c \<and> c \<le> 57 then Option.bind (i32 (w * 10)) (\<lambda>w. Option.bind (i32 (w + (uint c - 48))) (\<lambda>w. read_width fmt k (i + 1) w))
       else Some (w, i))"

text \<open>The type modifier gives the type, the base that \<open>%i\<close> uses and the next position.\<close>

definition type_modifier :: "byte list \<Rightarrow> nat \<Rightarrow> (scanf_type \<times> nat \<times> nat) option" where
  "type_modifier fmt i = do {
     c \<leftarrow> fmt_at fmt i;
     if c = 104
     then do { d \<leftarrow> fmt_at fmt (i + 1); Some (if d = 104 then (TYPE_CHAR, 10, i + 2) else (TYPE_SHORT, 10, i + 1)) }
     else if c = 106 then Some (TYPE_INTMAX, 10, i + 1)
     else if c = 108
     then do { d \<leftarrow> fmt_at fmt (i + 1); Some (if d = 108 then (TYPE_LL, 10, i + 2) else (TYPE_L, 10, i + 1)) }
     else if c = 76 \<or> c = 113 then Some (TYPE_LL, 10, i + 1)
     else if c = 116 then Some (TYPE_PTRDIFF, 10, i + 1)
     else if c = 122 then Some (TYPE_SIZE_T, 10, i + 1)
     else if c = 48
     then do { d \<leftarrow> fmt_at fmt (i + 1); Some (if d = 120 \<or> d = 88 then (TYPE_INT, 16, i + 2) else (TYPE_INT, 8, i + 1)) }
     else Some (TYPE_INT, 10, i)
   }"

text \<open>
  The set between brackets. A range runs from the character before the minus, which may be the bracket or the caret,
  to the one behind it, whatever that is; \<open>None\<close> inside is the end of the format, for which \<open>EOF\<close> is returned.
\<close>

definition mark :: "bool \<Rightarrow> (int \<Rightarrow> bool) \<Rightarrow> int \<Rightarrow> (int \<Rightarrow> bool) option" where
  "mark invert accept c = (if c < - 1 then None else Some (accept(c := \<not> invert)))"

fun mark_range :: "bool \<Rightarrow> (int \<Rightarrow> bool) \<Rightarrow> int \<Rightarrow> nat \<Rightarrow> (int \<Rightarrow> bool) option" where
  "mark_range invert accept c 0 = Some accept"
| "mark_range invert accept c (Suc n) = Option.bind (mark invert accept c) (\<lambda>accept. mark_range invert accept (c + 1) n)"

fun read_set :: "bool \<Rightarrow> byte list \<Rightarrow> nat \<Rightarrow> nat \<Rightarrow> (int \<Rightarrow> bool) \<Rightarrow> ((int \<Rightarrow> bool) \<times> nat) option option" where
  "read_set invert fmt 0 i accept = None"
| "read_set invert fmt (Suc k) i accept =
     Option.bind (fmt_at fmt i) (\<lambda>c.
       if c = 93 then Some (Some (accept, i))
       else if c = 0 then Some None
       else if c = 45
       then Option.bind (fmt_at fmt (i + 1)) (\<lambda>d. Option.bind (fmt_at fmt (i - 1)) (\<lambda>b.
         Option.bind (mark_range invert accept (sint b) (nat (sint d - sint b))) (\<lambda>accept.
         Option.bind (mark invert accept (sint d)) (\<lambda>accept. read_set invert fmt k (i + 2) accept))))
       else Option.bind (mark invert accept (sint c)) (\<lambda>accept. read_set invert fmt k (i + 1) accept))"

definition char_set :: "byte list \<Rightarrow> nat \<Rightarrow> ((int \<Rightarrow> bool) \<times> nat) option option" where
  "char_set fmt i = do {
     c \<leftarrow> fmt_at fmt i;
     let invert = (c = 94);
     let i = (if invert then i + 1 else i);
     c \<leftarrow> fmt_at fmt i;
     let accept = (\<lambda>c. invert)(- 1 := False);
     (accept, i) \<leftarrow> (if c = 45 \<or> c = 93 then map_option (\<lambda>accept. (accept, i + 1)) (mark invert accept (sint c)) else Some (accept, i));
     read_set invert fmt (length fmt) i accept
   }"

text \<open>What a conversion leads to: the scan goes on, counting a match or not, or \<open>EOF\<close> is returned.\<close>

datatype 'h scanned = Scanned "'h scan" | Skipped "'h scan" | Scanned_EOF

definition store_at :: "u32 \<Rightarrow> scanf_type \<Rightarrow> (u64 \<times> 'h) option \<Rightarrow> nat \<Rightarrow> 'h scan \<Rightarrow> 'h scanned option" where
  "store_at dest typ r i s =
     map_option (\<lambda>(res, h). Scanned (s\<lparr>sc_pos := i, sc_src := h,
       sc_ram := (if dest \<noteq> 0 then store_int dest typ res (sc_ram s) else sc_ram s)\<rparr>)) r"

text \<open>Strings, characters and sets.\<close>

definition scan_text ::
  "(byte \<Rightarrow> byte) \<Rightarrow> 'h scanf_handler \<Rightarrow> byte list \<Rightarrow> u32 \<Rightarrow> u32 \<Rightarrow> nat \<Rightarrow> byte \<Rightarrow> 'h scan \<Rightarrow> 'h scanned option" where
  "scan_text outside ops fmt dest w i k s =
     (if k = 115
      then do {
        (c, h) \<leftarrow> look_ahead ops (sc_src s);
        (count, h, m) \<leftarrow> scan_string outside ops dest w c 0 h (sc_ram s);
        Some (Scanned (s\<lparr>sc_pos := i, sc_src := h, sc_ram := put_char dest count 0 m\<rparr>))
      }
      else if k = 99
      then do {
        (c, h) \<leftarrow> look_ahead ops (sc_src s);
        (h, m) \<leftarrow> scan_chars ops dest (if w = 0 then 1 else w) c 0 h (sc_ram s);
        Some (Scanned (s\<lparr>sc_pos := i, sc_src := h, sc_ram := m\<rparr>))
      }
      else do {
        cs \<leftarrow> char_set fmt (i + 1);
        case cs of
          None \<Rightarrow> Some Scanned_EOF
        | Some (scanset, i) \<Rightarrow> do {
            (c, h) \<leftarrow> look_ahead ops (sc_src s);
            (count, h, m) \<leftarrow> scan_set ops scanset dest w c 0 h (sc_ram s);
            Some (Scanned (s\<lparr>sc_pos := i, sc_src := h, sc_ram := put_char dest count 0 m\<rparr>))
          }
      })"

text \<open>Pointers, which are stored without looking whether the assignment is suppressed, and the count of characters.\<close>

definition scan_special :: "'h scanf_handler \<Rightarrow> u32 \<Rightarrow> nat \<Rightarrow> byte \<Rightarrow> 'h scan \<Rightarrow> 'h scanned option" where
  "scan_special ops dest i k s =
     (if k = 112
      then if dest = 0 then None else store_at dest TYPE_L (scan_hex_prefixed ops (sc_src s)) i s
      else Some (Skipped (s\<lparr>sc_pos := i,
        sc_ram := (if dest \<noteq> 0 then store_int dest TYPE_INT (ucast (num_consumed ops (sc_src s))) (sc_ram s) else sc_ram s)\<rparr>)))"

definition scan_conversion ::
  "(byte \<Rightarrow> byte) \<Rightarrow> 'h scanf_handler \<Rightarrow> byte list \<Rightarrow> u32 \<Rightarrow> int \<Rightarrow> scanf_type \<Rightarrow> nat \<Rightarrow> nat \<Rightarrow> 'h scan \<Rightarrow> 'h scanned option" where
  "scan_conversion outside ops fmt dest width typ base i s = do {
     c \<leftarrow> fmt_at fmt i;
     let base = (if c = 100 \<or> c = 117 then 10 else base);
     let h = sc_src s;
     if c = 100 \<or> c = 117 \<or> c = 105
     then store_at dest typ
       (if base = 10 then scan_digits ops 57 0 h else if base = 16 then scan_hex_prefixed ops h else scan_digits ops 55 0 h) i s
     else if c = 111 then store_at dest typ (scan_digits ops 55 0 h) i s
     else if c = 120 \<or> c = 88 then store_at dest typ (scan_hex_prefixed ops h) i s
     else if c = 115 \<or> c = 99 \<or> c = 91 then scan_text outside ops fmt dest (word_of_int width) i c s
     else if c = 112 \<or> c = 110 then scan_special ops dest i c s
     else Some (Scanned (s\<lparr>sc_pos := i\<rparr>))
   }"

text \<open>From a percent sign on. (The test for a digit followed by a dollar looks at the percent sign itself.)\<close>

definition scan_directive :: "(byte \<Rightarrow> byte) \<Rightarrow> 'h scanf_handler \<Rightarrow> byte list \<Rightarrow> 'h scan \<Rightarrow> 'h scanned option" where
  "scan_directive outside ops fmt s = do {
     let i = sc_pos s;
     c \<leftarrow> fmt_at fmt (i + 1);
     (dest, s) \<leftarrow>
       (if c \<noteq> 42 then (case sc_args s of [] \<Rightarrow> None | a # as \<Rightarrow> Some (a, s\<lparr>sc_args := as\<rparr>)) else Some (0, s));
     let i = i + 1;
     if c = 39 \<or> c = 109 then Some (Skipped (s\<lparr>sc_pos := i + 1\<rparr>))
     else do {
       (width, i) \<leftarrow> (if c = 42 then Some (0, i + 1) else if 48 \<le> c \<and> c \<le> 57 then read_width fmt (length fmt) i 0 else Some (0, i));
       (typ, base, i) \<leftarrow> type_modifier fmt i;
       r \<leftarrow> scan_conversion outside ops fmt dest width typ base i s;
       Some (case r of
         Scanned s \<Rightarrow> Scanned (if dest \<noteq> 0 then s\<lparr>sc_matches := sc_matches s + 1\<rparr> else s)
       | _ \<Rightarrow> r)
     }
   }"

text \<open>The result is the return value with the source and memory.\<close>

partial_function (option) scan_loop :: "(byte \<Rightarrow> byte) \<Rightarrow> 'h scanf_handler \<Rightarrow> byte list \<Rightarrow> 'h scan \<Rightarrow> (int \<times> 'h \<times> ram) option" where
  "scan_loop outside ops fmt s =
     Option.bind (fmt_at fmt (sc_pos s)) (\<lambda>c.
       if c = 0 then Some (sint (sc_matches s), sc_src s, sc_ram s)
       else if ctype_isspace outside c
       then Option.bind (skip_format outside fmt (length fmt) (sc_pos s)) (\<lambda>i.
         Option.bind (skip_input outside ops (sc_src s)) (\<lambda>h.
         scan_loop outside ops fmt (s\<lparr>sc_pos := i + 1, sc_src := h\<rparr>)))
       else if c = 37 \<and> fmt_at fmt (sc_pos s + 1) \<noteq> Some 37
       then Option.bind (scan_directive outside ops fmt s) (\<lambda>r.
         case r of
           Scanned_EOF \<Rightarrow> Some (- 1, sc_src s, sc_ram s)
         | Scanned s \<Rightarrow> scan_loop outside ops fmt (s\<lparr>sc_pos := sc_pos s + 1\<rparr>)
         | Skipped s \<Rightarrow> scan_loop outside ops fmt (s\<lparr>sc_pos := sc_pos s + 1\<rparr>))
       else
         let i = (if c = 37 then sc_pos s + 1 else sc_pos s) in
         Option.bind (consume ops (sc_src s)) (\<lambda>(d, h).
           if d \<noteq> c then Some (sint (sc_matches s), h, sc_ram s)
           else scan_loop outside ops fmt (s\<lparr>sc_pos := i + 1, sc_src := h\<rparr>)))"

definition do_scanf :: "(byte \<Rightarrow> byte) \<Rightarrow> 'h scanf_handler \<Rightarrow> 'h \<Rightarrow> byte list \<Rightarrow> u32 list \<Rightarrow> ram \<Rightarrow> (int \<times> 'h \<times> ram) option" where
  "do_scanf outside ops h fmt args m =
     scan_loop outside ops fmt \<lparr>sc_pos = 0, sc_args = args, sc_matches = 0, sc_ram = m, sc_src = h\<rparr>"

section \<open>Sources of input\<close>

text \<open>A string in memory. (What is stored while it is read does not change it here.)\<close>

record raw_handler =
  rh_text :: "byte list"
  rh_consumed :: u32

definition raw_ops :: "raw_handler scanf_handler" where
  "raw_ops = \<lparr>
     consume = (\<lambda>h. case rh_text h of [] \<Rightarrow> None | c # cs \<Rightarrow> Some (c, h\<lparr>rh_text := cs, rh_consumed := rh_consumed h + 1\<rparr>)),
     look_ahead = (\<lambda>h. case rh_text h of [] \<Rightarrow> None | c # cs \<Rightarrow> Some (c, h)),
     num_consumed = rh_consumed\<rparr>"

text \<open>A file that is read at its position: looking ahead reads a character and sets the position back.\<close>

record file_handler =
  fh_contents :: "byte list"
  fh_pos :: nat
  fh_consumed :: u32

definition file_read :: "file_handler \<Rightarrow> byte option \<times> file_handler" where
  "file_read h =
     (if fh_pos h < length (fh_contents h) then (Some (fh_contents h ! fh_pos h), h\<lparr>fh_pos := fh_pos h + 1\<rparr>) else (None, h))"

definition file_ops :: "file_handler scanf_handler" where
  "file_ops = \<lparr>
     consume = (\<lambda>h. case file_read h of
       (None, h) \<Rightarrow> Some (0, h)
     | (Some c, h) \<Rightarrow> Some (c, h\<lparr>fh_consumed := fh_consumed h + 1\<rparr>)),
     look_ahead = (\<lambda>h. case file_read h of
       (None, h) \<Rightarrow> Some (0, h)
     | (Some c, h) \<Rightarrow> Some (c, h\<lparr>fh_pos := fh_pos h - 1\<rparr>)),
     num_consumed = fh_consumed\<rparr>"

definition vsscanf :: "(byte \<Rightarrow> byte) \<Rightarrow> byte list \<Rightarrow> byte list \<Rightarrow> u32 list \<Rightarrow> ram \<Rightarrow> (int \<times> raw_handler \<times> ram) option" where
  "vsscanf outside buffer fmt args m = do_scanf outside raw_ops \<lparr>rh_text = buffer, rh_consumed = 0\<rparr> fmt args m"

definition vfscanf :: "(byte \<Rightarrow> byte) \<Rightarrow> byte list \<Rightarrow> nat \<Rightarrow> byte list \<Rightarrow> u32 list \<Rightarrow> ram \<Rightarrow> (int \<times> file_handler \<times> ram) option" where
  "vfscanf outside contents pos fmt args m =
     do_scanf outside file_ops \<lparr>fh_contents = contents, fh_pos = pos, fh_consumed = 0\<rparr> fmt args m"

definition sscanf :: "byte list \<Rightarrow> byte list \<Rightarrow> u32 list \<Rightarrow> ram \<Rightarrow> int \<times> ram" where
  "sscanf buffer fmt args m = (0, m)"

end
