(* ===== verification/Printf.thy ===== *)
theory Printf
  imports CLib
begin

text \<open>
  Formatted output of the C library (\<open>clib/stdio.cpp\<close>): \<open>vsnprintf\<close> and the functions that print with it. A format is
  the list of its bytes with the final zero, and its scanning position is what is left of the list: reading behind the
  zero has no result. A variable argument is a word, as on the i386 target. The buffer is the object the caller
  passes, which may be shorter than the size it claims; a write outside the object has no result.
\<close>

unbundle bit_operations_syntax

definition PR_LJ :: u32 where "PR_LJ = 0x01"
definition PR_CA :: u32 where "PR_CA = 0x02"
definition PR_SG :: u32 where "PR_SG = 0x04"
definition PR_32 :: u32 where "PR_32 = 0x08"
definition PR_16 :: u32 where "PR_16 = 0x10"
definition PR_WS :: u32 where "PR_WS = 0x20"
definition PR_LZ :: u32 where "PR_LZ = 0x40"
definition PR_FP :: u32 where "PR_FP = 0x80"
definition PR_BUFLEN :: nat where "PR_BUFLEN = 16"

abbreviation flag :: "u32 \<Rightarrow> u32 \<Rightarrow> bool" where "flag flags f \<equiv> flags AND f \<noteq> 0"

text \<open>The local variables that live from one character of the format to the next.\<close>

record printer =
  pr_state :: nat
  pr_flags :: u32
  pr_given_wd :: u32
  pr_count :: u32
  pr_args :: "u32 list"
  pr_buffer :: "byte list"
  pr_ptr :: nat

definition writechar :: "u32 \<Rightarrow> byte \<Rightarrow> printer \<Rightarrow> printer option" where
  "writechar n c p =
     (if pr_count p < n - 1
      then do {
        b \<leftarrow> patch (pr_ptr p) [c] (pr_buffer p);
        Some (p\<lparr>pr_buffer := b, pr_ptr := pr_ptr p + 1, pr_count := pr_count p + 1\<rparr>)
      }
      else Some (p\<lparr>pr_count := pr_count p + 1\<rparr>))"

fun writechars :: "u32 \<Rightarrow> byte list \<Rightarrow> printer \<Rightarrow> printer option" where
  "writechars n [] p = Some p"
| "writechars n (c # cs) p = do { p \<leftarrow> writechar n c p; writechars n cs p }"

definition next_arg :: "printer \<Rightarrow> (u32 \<times> printer) option" where
  "next_arg p = (case pr_args p of [] \<Rightarrow> None | a # as \<Rightarrow> Some (a, p\<lparr>pr_args := as\<rparr>))"

definition reset_spec :: "printer \<Rightarrow> printer" where
  "reset_spec p = p\<lparr>pr_state := 0, pr_flags := 0, pr_given_wd := 0\<rparr>"

section \<open>Conversions\<close>

text \<open>The digits of a number, written from the end of \<open>buf\<close> to the front; \<open>room\<close> bytes of it are left.\<close>

definition digit_char :: "bool \<Rightarrow> u32 \<Rightarrow> byte" where
  "digit_char ca digit =
     (if digit < 10 then ucast (digit + 48) else if ca then ucast (digit - 10 + 65) else ucast (digit - 10 + 97))"

fun to_digits :: "nat \<Rightarrow> bool \<Rightarrow> u32 \<Rightarrow> u32 \<Rightarrow> byte list \<Rightarrow> byte list option" where
  "to_digits 0 ca radix u_num front = None"
| "to_digits (Suc room) ca radix u_num front =
     (let front = digit_char ca (u_num mod radix) # front; u_num = u_num div radix in
      if u_num \<noteq> 0 then to_digits room ca radix u_num front else Some front)"

text \<open>The argument, of one word with every modifier, its sign, and its digits.\<close>

definition do_num :: "u32 \<Rightarrow> printer \<Rightarrow> (byte list \<times> printer) option" where
  "do_num radix p = do {
     (num, p) \<leftarrow> next_arg p;
     (num, p) \<leftarrow>
       (if flag (pr_flags p) PR_SG \<and> sint num < 0
        then if num = 0x80000000 then None else Some (- num, p\<lparr>pr_flags := pr_flags p OR PR_WS\<rparr>)
        else Some (num, p));
     ds \<leftarrow> to_digits (PR_BUFLEN - 1) (flag (pr_flags p) PR_CA) radix num [];
     Some (ds, p)
   }"

text \<open>
  The loop over the text to print. The macro \<open>WRITECHAR\<close> evaluates its argument \<open>*where++\<close> only when the character is
  written: when the buffer is full, the loop counts on without leaving the character.
\<close>

partial_function (option) emit_text :: "u32 \<Rightarrow> byte list \<Rightarrow> printer \<Rightarrow> printer option" where
  "emit_text n txt p =
     (case txt of
        [] \<Rightarrow> Some p
      | c # cs \<Rightarrow>
          if pr_count p < n - 1
          then Option.bind (patch (pr_ptr p) [c] (pr_buffer p)) (\<lambda>b.
            emit_text n cs (p\<lparr>pr_buffer := b, pr_ptr := pr_ptr p + 1, pr_count := pr_count p + 1\<rparr>))
          else emit_text n txt (p\<lparr>pr_count := pr_count p + 1\<rparr>))"

text \<open>From label \<open>EMIT2\<close> on: padding, the sign, the text and padding behind it.\<close>

definition emit2 :: "u32 \<Rightarrow> byte list \<Rightarrow> u32 \<Rightarrow> printer \<Rightarrow> printer option" where
  "emit2 n txt actual_wd p = do {
     p \<leftarrow>
       (if \<not> flag (pr_flags p) PR_LJ \<and> actual_wd < pr_given_wd p
        then do {
          p \<leftarrow> writechars n (replicate (unat (pr_given_wd p - actual_wd)) (if flag (pr_flags p) PR_LZ then 48 else 32)) p;
          Some (p\<lparr>pr_given_wd := actual_wd\<rparr>)
        }
        else Some p);
     p \<leftarrow> (if pr_flags p AND (PR_WS OR PR_LZ) = PR_WS then writechar n 45 p else Some p);
     p \<leftarrow> emit_text n txt p;
     let rest = (if pr_given_wd p < actual_wd then 0 else pr_given_wd p - actual_wd);
     p \<leftarrow> writechars n (replicate (unat rest) 32) p;
     Some (p\<lparr>pr_given_wd := 0\<rparr>)
   }"

definition emit :: "u32 \<Rightarrow> byte list \<Rightarrow> printer \<Rightarrow> printer option" where
  "emit n txt p =
     (let actual_wd = of_nat (length txt) + (if flag (pr_flags p) PR_WS then 1 else 0) in do {
        p \<leftarrow> (if pr_flags p AND (PR_WS OR PR_LZ) = PR_WS OR PR_LZ then writechar n 45 p else Some p);
        emit2 n txt actual_wd p
      })"

definition string_at :: "ram \<Rightarrow> u32 \<Rightarrow> byte list option" where
  "string_at m str = map_option (\<lambda>n. map (\<lambda>i. m (str + of_nat i)) [0..<unat n]) (strlen m str)"

section \<open>The format\<close>

text \<open>State 4, the conversion character. Whatever it is, the next state is 0.\<close>

definition conversion :: "ram \<Rightarrow> u32 \<Rightarrow> byte \<Rightarrow> printer \<Rightarrow> printer option" where
  "conversion m n c p =
     (let number = (\<lambda>radix p. Option.bind (do_num radix p) (\<lambda>(ds, p). emit n ds p)) in
      map_option reset_spec
       (if c = 88 then number 16 (p\<lparr>pr_flags := pr_flags p OR PR_CA\<rparr>)
        else if c = 120 \<or> c = 112 \<or> c = 110 then number 16 p
        else if c = 100 \<or> c = 105 then number 10 (p\<lparr>pr_flags := pr_flags p OR PR_SG\<rparr>)
        else if c = 117 then number 10 p
        else if c = 111 then number 8 p
        else if c = 99
        then do {
          (a, p) \<leftarrow> next_arg (p\<lparr>pr_flags := pr_flags p AND NOT PR_LZ\<rparr>);
          emit2 n (if ucast a = (0 :: byte) then [] else [ucast a]) 1 p
        }
        else if c = 115
        then do {
          (a, p) \<leftarrow> next_arg (p\<lparr>pr_flags := pr_flags p AND NOT PR_LZ\<rparr>);
          txt \<leftarrow> string_at m a;
          emit n txt p
        }
        else Some p))"

text \<open>State 3, the modifier: the same character then goes to state 4.\<close>

definition modifier :: "ram \<Rightarrow> u32 \<Rightarrow> byte \<Rightarrow> printer \<Rightarrow> printer option" where
  "modifier m n c p =
     conversion m n c
       (p\<lparr>pr_flags := pr_flags p OR (if c = 70 then PR_FP else if c = 108 then PR_32 else if c = 104 then PR_16 else 0)\<rparr>)"

text \<open>The steps return the position at which the \<open>switch\<close> is left.\<close>

definition width :: "ram \<Rightarrow> u32 \<Rightarrow> byte list \<Rightarrow> printer \<Rightarrow> (byte list \<times> printer) option" where
  "width m n fmt p =
     (case fmt of
        [] \<Rightarrow> None
      | c # rest \<Rightarrow>
          if 48 \<le> c \<and> c \<le> 57
          then Some (fmt, p\<lparr>pr_state := 2, pr_given_wd := 10 * pr_given_wd p + (ucast c - 48)\<rparr>)
          else map_option (Pair fmt) (modifier m n c p))"

definition spec_flags :: "ram \<Rightarrow> u32 \<Rightarrow> byte list \<Rightarrow> printer \<Rightarrow> (byte list \<times> printer) option" where
  "spec_flags m n fmt p =
     (case fmt of
        [] \<Rightarrow> None
      | c # rest \<Rightarrow>
          if c = 37 then map_option (\<lambda>p. (fmt, reset_spec p)) (writechar n c p)
          else if c = 45
          then Some (fmt, if flag (pr_flags p) PR_LJ then reset_spec p else p\<lparr>pr_state := 1, pr_flags := pr_flags p OR PR_LJ\<rparr>)
          else if c = 48 \<or> c = 46 then width m n rest (p\<lparr>pr_flags := pr_flags p OR PR_LZ\<rparr>)
          else width m n fmt p)"

definition format_step :: "ram \<Rightarrow> u32 \<Rightarrow> byte list \<Rightarrow> printer \<Rightarrow> (byte list \<times> printer) option" where
  "format_step m n fmt p =
     (if pr_state p = 0
      then if hd fmt \<noteq> 37 then map_option (Pair fmt) (writechar n (hd fmt) p) else spec_flags m n (tl fmt) p
      else if pr_state p = 1 then spec_flags m n fmt p
      else width m n fmt p)"

lemma width_shorter: "width m n fmt p = Some (fmt', p') \<Longrightarrow> fmt' = fmt \<and> fmt \<noteq> []"
  by (auto simp: width_def split: list.splits if_splits)

lemma flags_shorter: "spec_flags m n fmt p = Some (fmt', p') \<Longrightarrow> fmt' \<noteq> [] \<and> length fmt' \<le> length fmt"
  by (auto simp: spec_flags_def split: list.splits if_splits dest!: width_shorter)

lemma format_step_shorter:
  "format_step m n (c # rest) p = Some (fmt', p') \<Longrightarrow> length (tl fmt') < Suc (length rest)"
  by (auto simp: format_step_def split: if_splits dest!: width_shorter flags_shorter)

function format_loop :: "ram \<Rightarrow> u32 \<Rightarrow> byte list \<Rightarrow> printer \<Rightarrow> printer option" where
  "format_loop m n [] p = None"
| "format_loop m n (c # rest) p =
     (if c = 0 then Some p
      else Option.bind (format_step m n (c # rest) p) (\<lambda>(fmt, p). format_loop m n (tl fmt) p))"
  by pat_completeness auto
termination
  by (relation "measure (\<lambda>(m, n, fmt, p). length fmt)") (auto dest: format_step_shorter)

declare format_loop.simps(2) [simp del]

definition vsnprintf :: "ram \<Rightarrow> byte list \<Rightarrow> u32 \<Rightarrow> byte list \<Rightarrow> u32 list \<Rightarrow> (int \<times> byte list) option" where
  "vsnprintf m buffer n fmt args = do {
     p \<leftarrow> format_loop m n fmt \<lparr>pr_state = 0, pr_flags = 0, pr_given_wd = 0, pr_count = 0, pr_args = args,
       pr_buffer = buffer, pr_ptr = 0\<rparr>;
     buffer \<leftarrow> patch (unat (pr_count p)) [0] (pr_buffer p);
     Some (sint (pr_count p), buffer)
   }"

definition vsprintf :: "ram \<Rightarrow> byte list \<Rightarrow> byte list \<Rightarrow> u32 list \<Rightarrow> (int \<times> byte list) option" where
  "vsprintf m s format args = vsnprintf m s 256 format args"

definition snprintf :: "ram \<Rightarrow> byte list \<Rightarrow> u32 \<Rightarrow> byte list \<Rightarrow> u32 list \<Rightarrow> (int \<times> byte list) option" where
  "snprintf m s n format args = vsnprintf m s n format args"

definition sprintf :: "ram \<Rightarrow> byte list \<Rightarrow> byte list \<Rightarrow> u32 list \<Rightarrow> (int \<times> byte list) option" where
  "sprintf m s format args = vsnprintf m s 128 format args"

text \<open>The functions that print format into a buffer of 128 bytes on the stack and write out the length returned.\<close>

definition fprintf :: "ram \<Rightarrow> byte list \<Rightarrow> byte list \<Rightarrow> u32 list \<Rightarrow> (int \<times> byte list) option" where
  "fprintf m junk format args = do {
     (len, buffer) \<leftarrow> vsnprintf m junk 128 format args;
     out \<leftarrow> (if len < 0 then None else slice 0 (nat len) buffer);
     Some (len, out)
   }"

end
