(* ===== verification/CLibCorrect.thy ===== *)
theory CLibCorrect
  imports CLib
begin

text \<open>
  Blocks and strings of memory: what the copying routines do when the regions overlap, the string functions as
  operations on the lists of bytes that they read, and the conversion of digits to a number.
\<close>

unbundle bit_operations_syntax

section \<open>Copying blocks\<close>

text \<open>A copy from the front to the back finds its source as it was.\<close>

definition forward_safe :: "u32 \<Rightarrow> u32 \<Rightarrow> nat \<Rightarrow> bool" where
  "forward_safe dst src n \<longleftrightarrow> (\<forall>j<n. \<forall>i<j. dst + of_nat i \<noteq> src + of_nat j)"

definition backward_safe :: "u32 \<Rightarrow> u32 \<Rightarrow> nat \<Rightarrow> bool" where
  "backward_safe dst src n \<longleftrightarrow> (\<forall>i<n. \<forall>j<i. dst + of_nat i \<noteq> src + of_nat j)"

lemma unat_of_nat32: "x < 4294967296 \<Longrightarrow> unat (of_nat x :: u32) = x"
  by (simp add: unat_of_nat take_bit_nat_eq_self_iff)

lemma offset_cases [case_names offset]:
  obtains x where "a = (d :: u32) + of_nat x" and "x < 4294967296" and "unat (a - d) = x"
proof -
  have "unat (a - d) < 4294967296" using unat_u32_bound [of "a - d"] by simp
  moreover have "a = d + of_nat (unat (a - d))" by simp
  ultimately show ?thesis using that by blast
qed

lemma offset_diff:
  assumes "x < 4294967296" and "k < 4294967296"
  shows "unat (d + of_nat x - (d + of_nat k) :: u32) = (if k \<le> x then x - k else x + 4294967296 - k)"
proof -
  have "d + of_nat x - (d + of_nat k) = (of_nat x - of_nat k :: u32)" by simp
  then show ?thesis using assms by (simp only: unat_sub_if_size) (simp add: unat_of_nat32 word_size)
qed

lemma copied_0 [simp]: "copied dst src 0 m = m"
  by (simp add: copied_def)

lemma copied_at:
  assumes "x < 4294967296"
  shows "copied dst src n m (dst + of_nat x) = (if x < n then m (src + of_nat x) else m (dst + of_nat x))"
  using assms by (simp add: copied_def unat_of_nat32)

lemma copied_elsewhere: "(\<And>i. i < n \<Longrightarrow> a \<noteq> dst + of_nat i) \<Longrightarrow> copied dst src n m a = m a"
proof -
  assume apart: "\<And>i. i < n \<Longrightarrow> a \<noteq> dst + of_nat i"
  obtain x where "a = dst + of_nat x" "unat (a - dst) = x" by (rule offset_cases)
  then show ?thesis using apart [of x] by (auto simp: copied_def)
qed

lemma copied_at_shift:
  assumes "x < 4294967296" and "k < 4294967296" and "k + n \<le> 4294967296"
  shows "copied (dst + of_nat k) (src + of_nat k) n m (dst + of_nat x) =
    (if k \<le> x \<and> x < k + n then m (src + of_nat x) else m (dst + of_nat x))"
proof -
  have "src + of_nat k + (dst + of_nat x - (dst + of_nat k)) = src + of_nat x" by simp
  moreover have "unat (dst + of_nat x - (dst + of_nat k)) < n \<longleftrightarrow> k \<le> x \<and> x < k + n"
    using assms(1,3) by (simp only: offset_diff [OF assms(1,2)]) auto
  ultimately show ?thesis by (auto simp only: copied_def split: if_split)
qed

lemma copied_up:
  assumes "k + n \<le> 4294967296" and "\<And>i j. i < k \<Longrightarrow> k \<le> j \<Longrightarrow> j < k + n \<Longrightarrow> dst + of_nat i \<noteq> src + of_nat j"
  shows "copied (dst + of_nat k) (src + of_nat k) n (copied dst src k m) = copied dst src (k + n) m"
proof (cases "n = 0")
  case False
  then have k: "k < 4294967296" using assms(1) by simp
  show ?thesis
  proof
    fix a
    obtain x where a: "a = dst + of_nat x" and x: "x < 4294967296" by (rule offset_cases)
    have src: "copied dst src k m (src + of_nat x) = m (src + of_nat x)" if "k \<le> x" "x < k + n"
      by (rule copied_elsewhere) (metis assms(2) that)
    show "copied (dst + of_nat k) (src + of_nat k) n (copied dst src k m) a = copied dst src (k + n) m a"
      using src by (simp add: a copied_at_shift [OF x k assms(1)] copied_at [OF x])
  qed
qed simp

lemma copied_down:
  assumes "n + k \<le> 4294967296" and "\<And>i j. n \<le> i \<Longrightarrow> i < n + k \<Longrightarrow> j < n \<Longrightarrow> dst + of_nat i \<noteq> src + of_nat j"
  shows "copied dst src n (copied (dst + of_nat n) (src + of_nat n) k m) = copied dst src (n + k) m"
proof (cases "k = 0")
  case False
  then have n: "n < 4294967296" using assms(1) by simp
  show ?thesis
  proof
    fix a
    obtain x where a: "a = dst + of_nat x" and x: "x < 4294967296" by (rule offset_cases)
    have src: "copied (dst + of_nat n) (src + of_nat n) k m (src + of_nat x) = m (src + of_nat x)" if "x < n"
    proof (rule copied_elsewhere)
      fix i assume "i < k"
      then show "src + of_nat x \<noteq> dst + of_nat n + of_nat i" using assms(2) [of "n + i" x] that by (auto simp: add.assoc)
    qed
    show "copied dst src n (copied (dst + of_nat n) (src + of_nat n) k m) a = copied dst src (n + k) m a"
      using src by (simp add: a copied_at_shift [OF x n assms(1)] copied_at [OF x])
  qed
qed simp

lemma copied_byte: "copied dst src 1 m = m(dst := m src)"
proof
  fix a :: u32
  have "unat (a - dst) < 1 \<longleftrightarrow> a = dst" by (simp add: unat_eq_0)
  then show "copied dst src 1 m a = (m(dst := m src)) a" by (simp add: copied_def)
qed

lemma copied_word:
  "copied dst src 4 m = m(dst := m src, dst + 1 := m (src + 1), dst + 2 := m (src + 2), dst + 3 := m (src + 3))"
proof
  fix a :: u32
  obtain x where a: "a = dst + of_nat x" and x: "x < 4294967296" by (rule offset_cases)
  have "x < 4 \<Longrightarrow> x = 0 \<or> x = 1 \<or> x = 2 \<or> x = 3" by arith
  moreover have "of_nat x = (1 :: u32) \<longleftrightarrow> x = 1" "of_nat x = (2 :: u32) \<longleftrightarrow> x = 2" "of_nat x = (3 :: u32) \<longleftrightarrow> x = 3" "of_nat x = (0 :: u32) \<longleftrightarrow> x = 0"
    using unat_of_nat32 [OF x] by (auto dest: arg_cong [where f = unat])
  ultimately show "copied dst src 4 m a = (m(dst := m src, dst + 1 := m (src + 1), dst + 2 := m (src + 2), dst + 3 := m (src + 3))) a"
    by (auto simp: a copied_at [OF x])
qed

lemma forward_safeD: "forward_safe dst src n \<Longrightarrow> i < j \<Longrightarrow> j < n \<Longrightarrow> dst + of_nat i \<noteq> src + of_nat j"
  by (simp add: forward_safe_def)

lemma forward_safe_shift: "forward_safe dst src (k + n) \<Longrightarrow> forward_safe (dst + of_nat k) (src + of_nat k) n"
  unfolding forward_safe_def
proof (intro allI impI)
  fix i j assume "\<forall>j<k + n. \<forall>i<j. dst + of_nat i \<noteq> src + of_nat j" "j < n" "i < j"
  then have "dst + of_nat (k + i) \<noteq> src + of_nat (k + j)" by simp
  then show "dst + of_nat k + of_nat i \<noteq> src + of_nat k + of_nat j" by (simp add: add.assoc)
qed

lemma forward_safe_less: "forward_safe dst src n \<Longrightarrow> k \<le> n \<Longrightarrow> forward_safe dst src k"
  by (simp add: forward_safe_def)

lemma move_up_copied: "n \<le> 4294967296 \<Longrightarrow> forward_safe dst src n \<Longrightarrow> move_up n dst src m = copied dst src n m"
proof (induction n arbitrary: dst src m)
  case (Suc n)
  have "move_up (Suc n) dst src m = copied (dst + of_nat 1) (src + of_nat 1) n (copied dst src 1 m)"
    using Suc.IH [of "dst + 1" "src + 1"] Suc.prems forward_safe_shift [of dst src 1 n] by (simp only: move_up.simps copied_byte) simp
  also have "\<dots> = copied dst src (1 + n) m"
    by (rule copied_up) (use Suc.prems(1) in simp, rule forward_safeD [OF Suc.prems(2)], simp_all)
  finally show ?case by simp
qed simp

lemma rep_movsl_copied:
  "4 * n \<le> 4294967296 \<Longrightarrow> forward_safe dst src (4 * n) \<Longrightarrow> rep_movsl n dst src m = copied dst src (4 * n) m"
proof (induction n arbitrary: dst src m)
  case (Suc n)
  have "rep_movsl (Suc n) dst src m = copied (dst + of_nat 4) (src + of_nat 4) (4 * n) (copied dst src 4 m)"
    using Suc.IH [of "dst + 4" "src + 4"] Suc.prems forward_safe_shift [of dst src 4 "4 * n"]
    by (simp only: rep_movsl.simps copied_word) simp
  also have "\<dots> = copied dst src (4 + 4 * n) m"
    by (rule copied_up) (use Suc.prems(1) in simp, rule forward_safeD [OF Suc.prems(2)], simp_all)
  finally show ?case by simp
qed simp

lemma size_parts: "unat (num :: u32) = 4 * unat (num div 4) + unat (num AND 3)" and "unat (num div 4) = unat num div 4"
proof -
  have "num AND 3 = num mod 4" using take_bit_eq_mask [of 2 num] by (simp add: take_bit_eq_mod mask_eq_exp_minus_1)
  then show "unat num = 4 * unat (num div 4) + unat (num AND 3)" by (simp add: unat_mod unat_div)
  show "unat (num div 4) = unat num div 4" by (simp add: unat_div)
qed

lemma do_memcpy_copied:
  assumes "forward_safe dst src (unat num)"
  shows "do_memcpy dst src num m = copied dst src (unat num) m"
proof -
  have lt: "unat num < 4294967296" using unat_u32_bound [of num] by simp
  let ?k = "4 * unat (num div 4)" and ?r = "unat (num AND 3)"
  have "rep_movsl (unat (num div 4)) dst src m = copied dst src ?k m"
    using lt size_parts(1) [of num] by (intro rep_movsl_copied forward_safe_less [OF assms]) auto
  moreover have "move_up ?r (dst + of_nat ?k) (src + of_nat ?k) (copied dst src ?k m) =
      copied (dst + of_nat ?k) (src + of_nat ?k) ?r (copied dst src ?k m)"
    using assms lt size_parts(1) [of num] by (intro move_up_copied forward_safe_shift) auto
  moreover have "\<dots> = copied dst src (?k + ?r) m"
    using lt size_parts(1) [of num] assms by (intro copied_up) (auto intro: forward_safeD [THEN notE] less_le_trans)
  ultimately show ?thesis using size_parts(1) [of num] by (simp add: do_memcpy_def Let_def)
qed

lemma memcpy_copied:
  assumes "forward_safe dst src (unat num)"
  shows "memcpy known low_known dst src num m = copied dst src (unat num) m"
proof -
  have "do_memcpy4 dst src num m = copied dst src (unat num) m" if "num AND 3 = 0"
  proof -
    have n: "unat num = 4 * unat (num div 4)" using that size_parts(1) [of num] by simp
    then show ?thesis using assms unat_u32_bound [of num]
      by (simp only: do_memcpy4_def) (rule rep_movsl_copied, auto)
  qed
  then show ?thesis using do_memcpy_copied [OF assms] by (simp add: memcpy_def)
qed

lemma move_down_copied:
  "n \<le> 4294967296 \<Longrightarrow> backward_safe dst src n \<Longrightarrow>
    move_down n (dst + of_nat n) (src + of_nat n) m = copied dst src n m"
proof (induction n arbitrary: m)
  case (Suc n)
  have d: "dst + of_nat (Suc n) - 1 = dst + of_nat n" "src + of_nat (Suc n) - 1 = src + of_nat n" by simp_all
  have "move_down (Suc n) (dst + of_nat (Suc n)) (src + of_nat (Suc n)) m =
      copied dst src n (copied (dst + of_nat n) (src + of_nat n) 1 m)"
    using Suc.IH Suc.prems by (simp only: move_down.simps d copied_byte) (auto simp: backward_safe_def)
  also have "\<dots> = copied dst src (n + 1) m"
    using Suc.prems by (intro copied_down) (auto simp: backward_safe_def less_Suc_eq)
  finally show ?case by simp
qed simp

text \<open>C29: regions that do not wrap around the end of memory are moved as if the source were read completely first,
  however they overlap; where they do not overlap in a way that harms a copy upwards, every body that \<open>memcpy\<close> compiles
  to moves the same bytes.\<close>

theorem memmove_copies:
  assumes "unat src + unat num < 2 ^ 32" and "unat dest + unat num \<le> 2 ^ 32"
  shows "memmove dest src num m = copied dest src (unat num) m \<and>
    (dest \<le> src \<or> src + num \<le> dest \<longrightarrow> memcpy known low_known dest src num m = memmove dest src num m)"
proof -
  have at: "unat (src + of_nat j) = unat src + j" "unat (dest + of_nat j) = unat dest + j" if "j < unat num" for j
    using that assms by (subst u32_add; simp add: unat_of_nat32)+
  have e: "unat (src + num) = unat src + unat num" using assms(1) by (subst u32_add) auto
  have bw: "backward_safe dest src (unat num)" if "src < dest"
    unfolding backward_safe_def
  proof (intro allI impI)
    fix i j assume "i < unat num" "j < i"
    with that have "unat (src + of_nat j) < unat (dest + of_nat i)" by (simp add: at word_less_nat_alt)
    then show "dest + of_nat i \<noteq> src + of_nat j" by auto
  qed
  have fw: "forward_safe dest src (unat num)" if "dest \<le> src \<or> src + num \<le> dest"
    unfolding forward_safe_def
  proof (intro allI impI)
    fix i j assume "j < unat num" "i < j"
    with that have "unat (src + of_nat j) \<noteq> unat (dest + of_nat i)" by (auto simp: at word_le_nat_alt e)
    then show "dest + of_nat i \<noteq> src + of_nat j" by auto
  qed
  have "unat num \<le> 4294967296" using unat_u32_bound [of num] by simp
  then show ?thesis
    using move_down_copied [of "unat num" dest src m] bw move_up_copied [of "unat num" dest src m] fw
      memcpy_copied [of dest src num known low_known m]
    by (auto simp: memmove_def not_less)
qed

theorem memmove_copies_witness:
  "memmove 101 100 3 ucast = copied 101 100 3 ucast \<and> memcpy False True 101 90 8 ucast = memmove 101 90 8 ucast"
  using memmove_copies [of 100 3 101 ucast] memmove_copies [of 90 8 101 ucast False True] by simp

section \<open>Strings\<close>

text \<open>The string at an address, without its zero.\<close>

fun cstring :: "ram \<Rightarrow> u32 \<Rightarrow> byte list \<Rightarrow> bool" where
  "cstring m s [] \<longleftrightarrow> m s = 0"
| "cstring m s (x # xs) \<longleftrightarrow> m s = x \<and> x \<noteq> 0 \<and> cstring m (s + 1) xs"

lemma cstring_append:
  "cstring m s (xs @ ys) \<longleftrightarrow> 0 \<notin> set xs \<and> (\<forall>i<length xs. m (s + of_nat i) = xs ! i) \<and> cstring m (s + of_nat (length xs)) ys"
proof (induction xs arbitrary: s)
  case (Cons x xs)
  have "(\<forall>i<length (x # xs). m (s + of_nat i) = (x # xs) ! i) \<longleftrightarrow> m s = x \<and> (\<forall>i<length xs. m (s + 1 + of_nat i) = xs ! i)"
    by (simp add: All_less_Suc2 add.assoc)
  then show ?case by (auto simp: Cons.IH add.assoc)
qed simp

lemma cstring_iff:
  "cstring m s xs \<longleftrightarrow> 0 \<notin> set xs \<and> (\<forall>i<length xs. m (s + of_nat i) = xs ! i) \<and> m (s + of_nat (length xs)) = 0"
  using cstring_append [of m s xs "[]"] by simp

lemma cstring_unique: "cstring m s xs \<Longrightarrow> cstring m s ys \<Longrightarrow> xs = ys"
proof (induction xs arbitrary: s ys)
  case Nil then show ?case by (cases ys) auto
next
  case (Cons x xs) then show ?case by (cases ys) auto
qed

lemma strlen_from_cstring: "cstring m s xs \<Longrightarrow> strlen_from m s k = Some (k + of_nat (length xs))"
  by (induction xs arbitrary: s k) (subst strlen_from.simps, simp add: add.assoc)+

lemma strlen_cstring: "cstring m s xs \<Longrightarrow> strlen m s = Some (of_nat (length xs))"
  by (simp add: strlen_def strlen_from_cstring)

lemma cstring_copied:
  assumes "cstring m src xs" and "length xs + 1 \<le> n" and "n \<le> 4294967296"
  shows "cstring (copied dst src n m) dst xs"
  using assms by (auto simp: cstring_iff copied_at)

text \<open>The comparison of the strings themselves: the bytes are compared as unsigned numbers.\<close>

fun compare_strings :: "byte list \<Rightarrow> byte list \<Rightarrow> int" where
  "compare_strings [] [] = 0"
| "compare_strings (x # xs) [] = uint x"
| "compare_strings [] (y # ys) = - uint y"
| "compare_strings (x # xs) (y # ys) = (if x = y then compare_strings xs ys else uint x - uint y)"

lemma strcmp_compare: "cstring m s xs \<Longrightarrow> cstring m t ys \<Longrightarrow> strcmp m s t = Some (compare_strings xs ys)"
  by (induction xs ys arbitrary: s t rule: compare_strings.induct) (subst strcmp.simps, force simp: char_diff_def)+

lemma byte_uint_eq: "uint (x :: byte) = uint y \<longleftrightarrow> x = y"
  by (simp add: word_uint_eq_iff)

lemma byte_uint_pos: "0 < uint (x :: byte) \<longleftrightarrow> x \<noteq> 0" "uint x = 0 \<longleftrightarrow> x = 0"
  by (simp_all add: word_uint_eq_iff order_less_le)

lemma compare_strings_0: "0 \<notin> set xs \<Longrightarrow> 0 \<notin> set ys \<Longrightarrow> compare_strings xs ys = 0 \<longleftrightarrow> xs = ys"
  by (induction xs ys rule: compare_strings.induct) (auto simp: byte_uint_eq byte_uint_pos)

lemma compare_strings_less:
  "0 \<notin> set xs \<Longrightarrow> 0 \<notin> set ys \<Longrightarrow> compare_strings xs ys < 0 \<longleftrightarrow> ord_class.lexordp xs ys"
  by (induction xs ys rule: compare_strings.induct) (auto simp: byte_uint_pos byte_uint_eq word_less_def not_less order_le_less)

lemma strncmp_loop_compare:
  "cstring m s xs \<Longrightarrow> cstring m t ys \<Longrightarrow> strncmp_loop n m s t = compare_strings (take (Suc n) xs) (take (Suc n) ys)"
proof (induction n arbitrary: s t xs ys)
  case 0
  then show ?case by (cases xs; cases ys) (auto simp: char_diff_def)
next
  case (Suc n)
  then show ?case by (cases xs; cases ys) (auto simp: char_diff_def)
qed

text \<open>\<open>strcmp\<close> orders strings as lists of unsigned bytes, so its sign is that of the lexicographic order and it is
  zero for equal strings only; \<open>strncmp\<close> of \<open>count\<close> characters compares \<open>count + 1\<close> of them.\<close>

theorem strcmp_order:
  assumes "cstring m s xs" and "cstring m t ys"
  shows "(\<exists>r. strcmp m s t = Some r \<and> (r = 0 \<longleftrightarrow> xs = ys) \<and> (r < 0 \<longleftrightarrow> ord_class.lexordp xs ys)) \<and>
    (strncmp m s t count = 0 \<longleftrightarrow> take (unat count + 1) xs = take (unat count + 1) ys)"
proof -
  have z: "0 \<notin> set xs" "0 \<notin> set ys" using assms by (simp_all add: cstring_iff)
  then have "0 \<notin> set (take (unat count + 1) xs)" "0 \<notin> set (take (unat count + 1) ys)" by (meson in_set_takeD)+
  from compare_strings_0 [OF this] show ?thesis
    using strcmp_compare [OF assms] compare_strings_0 [OF z] compare_strings_less [OF z]
    by (simp add: strncmp_def strncmp_loop_compare [OF assms])
qed

text \<open>A memory that holds a text at an address and zeros elsewhere.\<close>

definition holding :: "u32 \<Rightarrow> byte list \<Rightarrow> ram" where
  "holding s xs = (\<lambda>a. if unat (a - s) < length xs then xs ! unat (a - s) else 0)"

lemma cstring_holding: "0 \<notin> set xs \<Longrightarrow> length xs + 1 < 4294967296 \<Longrightarrow> cstring (holding a (xs @ [0])) a xs"
  by (simp add: cstring_iff holding_def unat_of_nat32 nth_append)

theorem strcmp_order_witness:
  "(\<exists>r. strcmp (holding 8 [97, 98, 0, 97, 99, 0]) 8 11 = Some r \<and> r < 0) \<and>
    strncmp (holding 8 [97, 98, 0, 97, 99, 0]) 8 11 1 \<noteq> 0"
  using strcmp_order [of "holding 8 [97, 98, 0, 97, 99, 0]" 8 "[97, 98]" 11 "[97, 99]" 1] by (auto simp: holding_def)

section \<open>Tokens\<close>

lemma is_delimiter_set: "cstring m d ds \<Longrightarrow> is_delimiter m c d = Some (c \<in> set ds)"
  by (induction ds arbitrary: d) (subst is_delimiter.simps, simp)+

lemma strtok_scan_last:
  "cstring m c xs \<Longrightarrow> cstring m d ds \<Longrightarrow> set xs \<inter> set ds = {} \<Longrightarrow> strtok_scan m b t c d = Some (t, b, m)"
  by (induction xs arbitrary: c) (subst strtok_scan.simps, simp add: is_delimiter_set)+

lemma strtok_scan_first:
  "cstring m c (xs @ e # ys) \<Longrightarrow> cstring m d ds \<Longrightarrow> set xs \<inter> set ds = {} \<Longrightarrow> e \<in> set ds \<Longrightarrow> c + of_nat (length xs) \<noteq> t \<Longrightarrow>
    strtok_scan m b t c d = Some (t, c + of_nat (length xs) + 1, m(c + of_nat (length xs) := 0))"
proof (induction xs arbitrary: c)
  case Nil
  then show ?case by (subst strtok_scan.simps) (auto simp: is_delimiter_set)
next
  case (Cons x xs)
  then show ?case by (subst strtok_scan.simps) (auto simp: is_delimiter_set add.assoc)
qed

lemma cstring_length: "cstring m s xs \<Longrightarrow> length xs < 4294967296"
proof (rule ccontr)
  assume c: "cstring m s xs" and "\<not> length xs < 4294967296"
  let ?i = "length xs mod 4294967296"
  have i: "?i < length xs" using \<open>\<not> length xs < 4294967296\<close> mod_less_divisor [of 4294967296 "length xs"] by linarith
  have "of_nat (length xs) = (of_nat ?i :: u32)" by (simp add: word_of_nat_eq_iff take_bit_eq_mod)
  with c i have "xs ! ?i = 0" by (metis cstring_iff)
  with c i show False by (metis cstring_iff nth_mem)
qed

lemma cstring_outside: "cstring m s xs \<Longrightarrow> (\<And>i. i \<le> length xs \<Longrightarrow> a \<noteq> s + of_nat i) \<Longrightarrow> cstring (m(a := c)) s xs"
proof -
  assume s: "cstring m s xs" and "\<And>i. i \<le> length xs \<Longrightarrow> a \<noteq> s + of_nat i"
  then have "(m(a := c)) (s + of_nat i) = m (s + of_nat i)" if "i \<le> length xs" for i using that by auto
  then show ?thesis using s by (simp add: cstring_iff del: fun_upd_apply)
qed

text \<open>A string of two tokens: the first call of \<open>strtok\<close> ends the first token with a zero and returns it; the second
  returns the second token and changes nothing, so every later call returns that token again instead of a null
  pointer, and a loop over the tokens never ends.\<close>

theorem strtok_never_ends:
  assumes "cstring m s (xs @ e # ys)" and "cstring m d ds"
    and "xs \<noteq> []" and "ys \<noteq> []" and "set xs \<inter> set ds = {}" and "set ys \<inter> set ds = {}" and "e \<in> set ds"
    and "s \<noteq> 0" and "s + of_nat (length xs) + 1 \<noteq> 0" and "\<forall>i\<le>length ds. s + of_nat (length xs) \<noteq> d + of_nat i"
  shows "\<exists>r m'. strtok buffer m s d = Some (s, r, m') \<and> cstring m' s xs \<and>
    cstring m' r ys \<and> strtok r m' 0 d = Some (r, r, m')"
proof -
  let ?e = "s + of_nat (length xs)"
  let ?r = "?e + 1" and ?m = "m(?e := 0)"
  have len: "length xs + length ys + 1 < 4294967296" using cstring_length [OF assms(1)] by simp
  have parts: "0 \<notin> set xs" "\<forall>i<length xs. m (s + of_nat i) = xs ! i" "cstring m ?r ys" "m s \<noteq> 0"
    using assms(1,3) by (auto simp: cstring_append neq_Nil_conv)
  have inj: "of_nat i = (of_nat j :: u32) \<longleftrightarrow> i = j" if "i < 4294967296" "j < 4294967296" for i j
    using that by (metis unat_of_nat32)
  have "?e \<noteq> s" using assms(3) len inj [of "length xs" 0] by simp
  then have "strtok buffer m s d = Some (s, ?r, ?m)"
    using assms(8) parts(4) by (simp add: strtok_def strtok_scan_first [OF assms(1,2,5,7)])
  moreover have "cstring ?m s xs" using parts(1,2) len by (auto simp: cstring_iff inj)
  moreover have y: "cstring ?m ?r ys"
  proof (rule cstring_outside [OF parts(3)])
    fix i assume "i \<le> length ys"
    then show "?e \<noteq> ?r + of_nat i" using len inj [of 0 "Suc i"] by (auto simp: add.assoc)
  qed
  moreover have "strtok ?r ?m 0 d = Some (?r, ?r, ?m)"
  proof -
    have "cstring ?m d ds" using assms(10) by (intro cstring_outside [OF assms(2)]) simp
    moreover have "?m ?r \<noteq> 0" using y assms(4) by (auto simp: neq_Nil_conv)
    ultimately show ?thesis using assms(9) by (simp add: strtok_def Let_def strtok_scan_last [OF y _ assms(6)])
  qed
  ultimately show ?thesis by blast
qed

theorem strtok_never_ends_witness:
  "\<exists>r m'. strtok 0 (holding 8 [97, 44, 98, 0, 44, 0]) 8 12 = Some (8, r, m') \<and> strtok r m' 0 12 = Some (r, r, m')"
  using strtok_never_ends [of "holding 8 [97, 44, 98, 0, 44, 0]" 8 "[97]" 44 "[98]" 12 "[44]" 0]
  by (auto simp: holding_def le_Suc_eq)

section \<open>Numbers\<close>

definition decimal_value_of :: "byte list \<Rightarrow> int" where
  "decimal_value_of ds = foldl (\<lambda>n d. 10 * n + (uint d - 48)) 0 ds"

lemma ctype_ascii:
  "\<forall>i\<in>set [0..<128]. (ctype_table ! i AND CT_DIG \<noteq> 0 \<longleftrightarrow> 48 \<le> i \<and> i \<le> 57) \<and>
    (ctype_table ! i AND CT_WHT \<noteq> 0 \<longleftrightarrow> 9 \<le> i \<and> i \<le> 13 \<or> i = 32)"
  by code_simp

lemma isdigit_ascii: "c < 128 \<Longrightarrow> ctype_isdigit outside c \<longleftrightarrow> 48 \<le> c \<and> c \<le> 57"
  and isspace_ascii: "c < 128 \<Longrightarrow> ctype_isspace outside c \<longleftrightarrow> 9 \<le> c \<and> c \<le> 13 \<or> c = 32"
proof -
  assume c: "c < 128"
  then have "unat c \<in> set [0..<128]" by (simp add: word_less_nat_alt)
  with ctype_ascii have t: "ctype_table ! unat c AND CT_DIG \<noteq> 0 \<longleftrightarrow> 48 \<le> unat c \<and> unat c \<le> 57"
    "ctype_table ! unat c AND CT_WHT \<noteq> 0 \<longleftrightarrow> 9 \<le> unat c \<and> unat c \<le> 13 \<or> unat c = 32" by blast+
  have "unat c = 32 \<longleftrightarrow> c = 32" by (simp add: word_unat_eq_iff)
  then show "ctype_isdigit outside c \<longleftrightarrow> 48 \<le> c \<and> c \<le> 57" "ctype_isspace outside c \<longleftrightarrow> 9 \<le> c \<and> c \<le> 13 \<or> c = 32"
    using t c by (simp_all add: ctype_isdigit_def ctype_isspace_def ctype_of_def word_le_nat_alt)
qed

abbreviation is_digit :: "byte \<Rightarrow> bool" where "is_digit c \<equiv> 48 \<le> c \<and> c \<le> 57"

lemma digit_bounds:
  assumes "is_digit c"
  shows "c < 128" and "48 \<le> uint c" and "uint c \<le> 57" and "sint c = uint c"
proof -
  show "48 \<le> uint c" "uint c \<le> 57" using assms by (simp_all add: word_le_def)
  then show "c < 128" "sint c = uint c" by (simp_all add: word_less_def sint_uint signed_take_bit_int_eq_self_iff)
qed

text \<open>The next digit can be added without an overflow of the sum before zero is subtracted.\<close>

lemma i32_digit:
  assumes "0 \<le> n" and "is_digit c"
  shows "Option.bind (i32 (n * 10)) (\<lambda>t. Option.bind (i32 (t + sint c)) (\<lambda>t. Option.bind (i32 (t - 48)) k)) =
    (if 10 * n + (uint c - 48) \<le> 2147483599 then k (10 * n + (uint c - 48)) else None)"
proof -
  obtain u where u: "uint c = u" "sint c = u" "48 \<le> u" "u \<le> 57" using digit_bounds [OF assms(2)] by blast
  show ?thesis
  proof (cases "10 * n + (u - 48) \<le> 2147483599")
    case True
    then have "n * 10 \<le> 2147483647" "n * 10 + u \<le> 2147483647" using u(3,4) by simp_all
    then show ?thesis using True u assms(1) by (simp add: i32_def mult.commute diff_add_eq add_diff_eq)
  next
    case False
    then have "\<not> n * 10 + u < 2 ^ 31" by simp
    then have "i32 (n * 10 + u) = None" by (simp add: i32_def)
    then show ?thesis using False u(1,2) by (cases "i32 (n * 10)") (simp_all add: i32_def split: if_splits)
  qed
qed

lemma value_grows: "0 \<le> n \<Longrightarrow> \<forall>d\<in>set ds. is_digit d \<Longrightarrow> n \<le> foldl (\<lambda>n d. 10 * n + (uint d - 48)) n ds"
proof (induction ds arbitrary: n)
  case (Cons d ds)
  then have "48 \<le> uint d" using digit_bounds(2) [of d] by simp
  then have n: "0 \<le> 10 * n + (uint d - 48)" "n \<le> 10 * n + (uint d - 48)" using Cons.prems(1) by simp_all
  then have "10 * n + (uint d - 48) \<le> foldl (\<lambda>n d. 10 * n + (uint d - 48)) (10 * n + (uint d - 48)) ds"
    using Cons.prems(2) by (intro Cons.IH) simp_all
  with n(2) show ?case by simp
qed simp

lemma read_digits_value:
  assumes "cstring m s (ds @ rest)" and "\<forall>d\<in>set ds. is_digit d"
    and "case rest of [] \<Rightarrow> True | c # cs \<Rightarrow> c < 128 \<and> \<not> is_digit c" and "0 \<le> n" and "n \<le> 2147483599"
  shows "read_digits outside m s n =
    (if foldl (\<lambda>n d. 10 * n + (uint d - 48)) n ds \<le> 2147483599 then Some (foldl (\<lambda>n d. 10 * n + (uint d - 48)) n ds) else None)"
  using assms(1,2,4,5)
proof (induction ds arbitrary: s n)
  case Nil
  then have "m s < 128 \<and> \<not> is_digit (m s)" using assms(3) by (cases rest) auto
  then show ?case using Nil by (subst read_digits.simps) (auto simp: isdigit_ascii)
next
  case (Cons d ds)
  then have d: "is_digit d" "m s = d" by auto
  let ?n = "10 * n + (uint d - 48)"
  have n: "0 \<le> ?n" using digit_bounds [OF d(1)] Cons.prems(3) by simp
  have "read_digits outside m s n = (if ?n \<le> 2147483599 then read_digits outside m (s + 1) ?n else None)"
    using d by (subst read_digits.simps) (simp add: isdigit_ascii digit_bounds(1) i32_digit [OF Cons.prems(3)])
  moreover have "?n \<le> foldl (\<lambda>n d. 10 * n + (uint d - 48)) ?n ds" using Cons.prems(2) by (intro value_grows [OF n]) simp
  moreover have "cstring m (s + 1) (ds @ rest)" using Cons.prems(1) by simp
  ultimately show ?case using Cons.IH [of "s + 1" ?n] Cons.prems(2) n by auto
qed

lemma skip_spaces_skips:
  "cstring m s (sp @ rest) \<Longrightarrow> (\<And>c. c \<in> set sp \<Longrightarrow> c < 128 \<and> ctype_isspace outside c) \<Longrightarrow>
    (case rest of [] \<Rightarrow> True | c # cs \<Rightarrow> c < 128 \<and> \<not> ctype_isspace outside c) \<Longrightarrow> skip_spaces outside m s = Some (s + of_nat (length sp))"
proof (induction sp arbitrary: s)
  case Nil
  then have "\<not> ctype_isspace outside (m s)" by (cases rest) (auto simp: isspace_ascii)
  then show ?case by (subst skip_spaces.simps) simp
next
  case (Cons c sp)
  then show ?case by (subst skip_spaces.simps) (auto simp: add.assoc)
qed

text \<open>The sign that \<open>atoi\<close> accepts in front of the digits.\<close>

definition sign_of :: "byte list \<Rightarrow> int option" where
  "sign_of sg = (if sg = [] \<or> sg = [43] then Some 1 else if sg = [45] then Some (-1) else None)"

text \<open>On spaces, an optional sign and digits \<open>atoi\<close> returns the number they write if its absolute value is at most
  2147483599; for the 48 larger numbers up to the greatest \<open>int\<close> (and for those above) the addition of the digit's
  code overflows before that of zero is subtracted, which has no defined result.\<close>

theorem atoi_value:
  assumes "cstring m s (sp @ sg @ ds @ rest)"
    and "\<forall>c\<in>set sp. 9 \<le> c \<and> c \<le> 13 \<or> c = 32" and "sign_of sg = Some k" and "ds \<noteq> []" and "\<forall>d\<in>set ds. is_digit d"
    and "case rest of [] \<Rightarrow> True | c # cs \<Rightarrow> c < 128 \<and> \<not> is_digit c"
  shows "atoi outside m s = (if decimal_value_of ds \<le> 2147483599 then Some (k * decimal_value_of ds) else None)"
proof -
  let ?s = "s + of_nat (length sp)"
  obtain d ds' where ds: "ds = d # ds'" and d: "is_digit d" using assms(4,5) by (cases ds) auto
  have "skip_spaces outside m s = Some ?s"
  proof (rule skip_spaces_skips [OF assms(1)])
    fix c assume "c \<in> set sp"
    with assms(2) have c: "9 \<le> c \<and> c \<le> 13 \<or> c = 32" by blast
    then have "c < 128" by (auto elim: order.strict_trans1)
    with c show "c < 128 \<and> ctype_isspace outside c" by (simp add: isspace_ascii)
  next
    have "\<not> ctype_isspace outside d" "d < 128" using d digit_bounds [OF d] by (auto simp: isspace_ascii word_le_def)
    then show "case sg @ ds @ rest of [] \<Rightarrow> True | c # cs \<Rightarrow> c < 128 \<and> \<not> ctype_isspace outside c"
      using assms(3) by (auto simp: ds sign_of_def isspace_ascii split: if_splits)
  qed
  moreover have c: "cstring m ?s (sg @ ds @ rest)" using assms(1) cstring_append [of m s sp "sg @ ds @ rest"] by simp
  then have "cstring m (?s + of_nat (length sg)) (ds @ rest)" using cstring_append [of m ?s sg "ds @ rest"] by simp
  then have "read_digits outside m (?s + of_nat (length sg)) 0 = (if decimal_value_of ds \<le> 2147483599 then Some (decimal_value_of ds) else None)"
    using read_digits_value [of m _ ds rest 0 outside] assms(5,6) by (simp add: decimal_value_of_def)
  moreover have "0 \<le> decimal_value_of ds" using value_grows [of 0 ds] assms(5) by (simp add: decimal_value_of_def)
  moreover have "m ?s = hd (sg @ ds)" using c ds by (cases sg) auto
  moreover have "d \<noteq> 45" "d \<noteq> 43" using d by auto
  ultimately show ?thesis
    using assms(3) by (auto simp: atoi_def ds sign_of_def i32_def split: if_splits)
qed

theorem atoi_value_witness: "atoi (\<lambda>c. 0) (holding 8 [32, 45, 52, 50, 120, 0]) 8 = Some (- 42)"
  using atoi_value [of "holding 8 [32, 45, 52, 50, 120, 0]" 8 "[32]" "[45]" "[52, 50]" "[120]" "-1" "\<lambda>c. 0"]
  by (simp add: holding_def sign_of_def decimal_value_of_def)

end
