(* ===== verification/PrintfCorrect.thy ===== *)
theory PrintfCorrect
  imports Printf CLibCorrect
begin

text \<open>
  What \<open>vsnprintf\<close> puts into its buffer: texts, strings and decimal numbers, the buffers that are too short for them,
  and the conversions it does not carry out.
\<close>

unbundle bit_operations_syntax

section \<open>Text without conversions\<close>

definition printer_start :: "byte list \<Rightarrow> u32 list \<Rightarrow> printer" where
  "printer_start buffer args = \<lparr>pr_state = 0, pr_flags = 0, pr_given_wd = 0, pr_count = 0, pr_args = args,
     pr_buffer = buffer, pr_ptr = 0\<rparr>"

text \<open>What was printed so far is in the buffer, as far as it fits into \<open>n\<close> bytes with a zero behind it.\<close>

definition printed :: "u32 \<Rightarrow> byte list \<Rightarrow> byte list \<Rightarrow> printer \<Rightarrow> bool" where
  "printed n buffer xs p \<longleftrightarrow> unat (pr_count p) = length xs \<and> length xs < 2 ^ 31 \<and> pr_ptr p = min (length xs) (unat n - 1) \<and>
     pr_buffer p = take (unat n - 1) xs @ drop (min (length xs) (unat n - 1)) buffer"

lemma writechar_ok:
  assumes "printed n buffer xs p" and "unat n = length buffer" and "0 < n" and "length xs + 1 < 2 ^ 31"
  shows "\<exists>b k. writechar n c p = Some (p\<lparr>pr_buffer := b, pr_ptr := k, pr_count := pr_count p + 1\<rparr>) \<and>
    printed n buffer (xs @ [c]) (p\<lparr>pr_buffer := b, pr_ptr := k, pr_count := pr_count p + 1\<rparr>)"
proof -
  have n1: "unat (n - 1) = unat n - 1" using assms(3) by (subst u32_sub) (auto simp: word_le_nat_alt word_less_nat_alt)
  have c1: "unat (pr_count p + 1) = length xs + 1" using assms(1,4) by (subst u32_add) (auto simp: printed_def)
  show ?thesis
  proof (cases "length xs < unat n - 1")
    case True
    then have l: "pr_count p < n - 1" using assms(1) n1 by (simp add: printed_def word_less_nat_alt)
    have b: "pr_buffer p = xs @ drop (length xs) buffer" "pr_ptr p = length xs" using assms(1) True by (simp_all add: printed_def)
    have "patch (length xs) [c] (xs @ drop (length xs) buffer) = Some (xs @ c # drop (Suc (length xs)) buffer)"
      using True assms(2) by (simp add: patch_def drop_Suc tl_drop)
    then show ?thesis using l b True assms(4) c1
      by (simp add: writechar_def printed_def)
  next
    case False
    then have "\<not> pr_count p < n - 1" using assms(1) n1 by (simp add: printed_def word_less_nat_alt)
    then have "writechar n c p = Some (p\<lparr>pr_buffer := pr_buffer p, pr_ptr := pr_ptr p, pr_count := pr_count p + 1\<rparr>)" by (simp add: writechar_def)
    moreover have "printed n buffer (xs @ [c]) (p\<lparr>pr_buffer := pr_buffer p, pr_ptr := pr_ptr p, pr_count := pr_count p + 1\<rparr>)"
      using assms(1,4) False c1 by (auto simp: printed_def min_def)
    ultimately show ?thesis by blast
  qed
qed

lemma writechars_ok:
  assumes "printed n buffer xs p" and "unat n = length buffer" and "0 < n" and "length xs + length cs < 2 ^ 31"
  shows "\<exists>b k c. writechars n cs p = Some (p\<lparr>pr_buffer := b, pr_ptr := k, pr_count := c\<rparr>) \<and>
    printed n buffer (xs @ cs) (p\<lparr>pr_buffer := b, pr_ptr := k, pr_count := c\<rparr>)"
  using assms(1,4)
proof (induction cs arbitrary: xs p)
  case Nil
  have "p\<lparr>pr_buffer := pr_buffer p, pr_ptr := pr_ptr p, pr_count := pr_count p\<rparr> = p" by simp
  with Nil show ?case by (intro exI [of _ "pr_buffer p"] exI [of _ "pr_ptr p"] exI [of _ "pr_count p"]) simp
next
  case (Cons c cs)
  from writechar_ok [OF Cons.prems(1) assms(2,3), of c] Cons.prems(2) obtain b k where
    w: "writechar n c p = Some (p\<lparr>pr_buffer := b, pr_ptr := k, pr_count := pr_count p + 1\<rparr>)"
    and pr: "printed n buffer (xs @ [c]) (p\<lparr>pr_buffer := b, pr_ptr := k, pr_count := pr_count p + 1\<rparr>)" by auto
  from Cons.IH [OF pr] Cons.prems(2) w show ?case by auto
qed

lemma format_loop_text:
  assumes "printed n buffer xs p" and "unat n = length buffer" and "0 < n" and "length xs + length cs < 2 ^ 31"
    and "pr_state p = 0" and "0 \<notin> set cs" and "37 \<notin> set cs"
  shows "\<exists>b k c. format_loop m n (cs @ rest) p = format_loop m n rest (p\<lparr>pr_buffer := b, pr_ptr := k, pr_count := c\<rparr>) \<and>
    printed n buffer (xs @ cs) (p\<lparr>pr_buffer := b, pr_ptr := k, pr_count := c\<rparr>)"
  using assms(1,4-7)
proof (induction cs arbitrary: xs p)
  case Nil
  then show ?case by (intro exI [of _ "pr_buffer p"] exI [of _ "pr_ptr p"] exI [of _ "pr_count p"]) simp
next
  case (Cons c cs)
  from writechar_ok [OF Cons.prems(1) assms(2,3), of c] Cons.prems(2) obtain b k where
    w: "writechar n c p = Some (p\<lparr>pr_buffer := b, pr_ptr := k, pr_count := pr_count p + 1\<rparr>)"
    and pr: "printed n buffer (xs @ [c]) (p\<lparr>pr_buffer := b, pr_ptr := k, pr_count := pr_count p + 1\<rparr>)" by auto
  have "format_loop m n ((c # cs) @ rest) p = format_loop m n (cs @ rest) (p\<lparr>pr_buffer := b, pr_ptr := k, pr_count := pr_count p + 1\<rparr>)"
    using Cons.prems(3-5) w by (simp add: format_loop.simps(2) format_step_def)
  with Cons.IH [OF pr] Cons.prems(2-5) show ?case by auto
qed

text \<open>Printing text that holds no conversion into a buffer of \<open>n\<close> bytes: when it fits with its zero, the buffer
  holds it; when it is longer than that, the zero is written behind the end of the buffer (at the length of the whole
  text), which the model shows as no result. So no output is ever truncated, and \<open>printf\<close> overruns its 128 bytes.\<close>

theorem vsnprintf_overflows:
  assumes "unat n = length buffer" and "0 < n" and "length xs < 2 ^ 31" and "0 \<notin> set xs" and "37 \<notin> set xs"
  shows "vsnprintf m buffer n (xs @ [0]) args =
    (if length xs < unat n then Some (int (length xs), xs @ 0 # drop (length xs + 1) buffer) else None)"
proof -
  have "printed n buffer [] (printer_start buffer args)" by (simp add: printed_def printer_start_def)
  from format_loop_text [OF this assms(1,2), of xs m "[0]"] assms(3-5) obtain b k c where
    f: "format_loop m n (xs @ [0]) (printer_start buffer args) =
      format_loop m n [0] ((printer_start buffer args)\<lparr>pr_buffer := b, pr_ptr := k, pr_count := c\<rparr>)"
    and pr: "printed n buffer xs ((printer_start buffer args)\<lparr>pr_buffer := b, pr_ptr := k, pr_count := c\<rparr>)"
    by (auto simp: printer_start_def)
  then have c: "unat c = length xs" and b: "b = take (unat n - 1) xs @ drop (min (length xs) (unat n - 1)) buffer"
    by (simp_all add: printed_def)
  have s: "sint c = int (length xs)"
  proof -
    have "uint c = int (length xs)" using c by (metis uint_nat)
    then show ?thesis using assms(3) by (simp add: sint_uint signed_take_bit_int_eq_self_iff)
  qed
  have v: "vsnprintf m buffer n (xs @ [0]) args = map_option (Pair (sint c)) (patch (unat c) [0] b)"
    using f by (simp add: vsnprintf_def printer_start_def format_loop.simps(2)) (cases "patch (unat c) [0] b", simp_all)
  show ?thesis
  proof (cases "length xs < unat n")
    case True
    then have "b = xs @ drop (length xs) buffer" by (simp add: b)
    then show ?thesis using True assms(1) by (simp add: v c s patch_def drop_Suc tl_drop)
  next
    case False
    then have "length b \<le> length xs" using assms(1,2) by (simp add: b min_def word_less_nat_alt) 
    then show ?thesis using False by (simp add: v c patch_def)
  qed
qed

section \<open>Strings\<close>

lemma emit_text_Nil [simp]: "emit_text n [] p = Some p"
  by (subst emit_text.simps) simp

lemma emit_text_Cons:
  "emit_text n (c # cs) p =
    (if pr_count p < n - 1
     then Option.bind (patch (pr_ptr p) [c] (pr_buffer p)) (\<lambda>b.
       emit_text n cs (p\<lparr>pr_buffer := b, pr_ptr := pr_ptr p + 1, pr_count := pr_count p + 1\<rparr>))
     else emit_text n (c # cs) (p\<lparr>pr_count := pr_count p + 1\<rparr>))"
  by (subst emit_text.simps) simp

text \<open>A text that fits is printed like other characters.\<close>

lemma emit_text_fits:
  assumes "printed n buffer xs p" and "unat n = length buffer" and "length xs + length cs < unat n" and "length buffer \<le> 2 ^ 31"
  shows "emit_text n (cs @ ds) p = Option.bind (writechars n cs p) (emit_text n ds)"
  using assms(1,3)
proof (induction cs arbitrary: xs p)
  case (Cons c cs)
  have n: "0 < n" using Cons.prems(2) by (simp add: word_less_nat_alt)
  have "unat (n - 1) = unat n - 1" using n by (subst u32_sub) (auto simp: word_le_nat_alt word_less_nat_alt)
  then have l: "pr_count p < n - 1" using Cons.prems by (simp add: word_less_nat_alt printed_def)
  then have w: "writechar n c p = Option.bind (patch (pr_ptr p) [c] (pr_buffer p)) (\<lambda>b.
      Some (p\<lparr>pr_buffer := b, pr_ptr := pr_ptr p + 1, pr_count := pr_count p + 1\<rparr>))"
    by (simp add: writechar_def)
  from writechar_ok [OF Cons.prems(1) assms(2) n, of c] Cons.prems(2) assms(2,4) obtain b k where
    ok: "writechar n c p = Some (p\<lparr>pr_buffer := b, pr_ptr := k, pr_count := pr_count p + 1\<rparr>)"
    and pr: "printed n buffer (xs @ [c]) (p\<lparr>pr_buffer := b, pr_ptr := k, pr_count := pr_count p + 1\<rparr>)" by auto
  from ok w obtain b' where "patch (pr_ptr p) [c] (pr_buffer p) = Some b'"
    and "p\<lparr>pr_buffer := b', pr_ptr := pr_ptr p + 1, pr_count := pr_count p + 1\<rparr> = p\<lparr>pr_buffer := b, pr_ptr := k, pr_count := pr_count p + 1\<rparr>"
    by (cases "patch (pr_ptr p) [c] (pr_buffer p)") auto
  then have "emit_text n ((c # cs) @ ds) p = emit_text n (cs @ ds) (p\<lparr>pr_buffer := b, pr_ptr := k, pr_count := pr_count p + 1\<rparr>)"
    using l by (simp add: emit_text_Cons [of n c "cs @ ds"])
  then show ?case using Cons.IH [OF pr] Cons.prems(2) by (simp add: ok)
qed simp

text \<open>A full buffer: the count runs on until it wraps around.\<close>

lemma emit_text_spin:
  "n - 1 \<le> pr_count p \<Longrightarrow> n \<noteq> 1 \<Longrightarrow> emit_text n (c # cs) p = emit_text n (c # cs) (p\<lparr>pr_count := 0\<rparr>)"
proof (induction "2 ^ 32 - unat (pr_count p)" arbitrary: p rule: less_induct)
  case less
  have step: "emit_text n (c # cs) p = emit_text n (c # cs) (p\<lparr>pr_count := pr_count p + 1\<rparr>)"
    using less.prems(1) by (subst emit_text_Cons) (simp add: leD)
  show ?case
  proof (cases "1 + pr_count p = 0")
    case False
    then have u: "unat (pr_count p + 1) = unat (pr_count p) + 1" using unatSuc [of "pr_count p"] by (simp add: add.commute)
    moreover have "unat (pr_count p) < 2 ^ 32" by (rule unat_u32_bound)
    ultimately show ?thesis using less.hyps [of "p\<lparr>pr_count := pr_count p + 1\<rparr>"] less.prems step
      by (simp add: word_le_nat_alt)
  qed (simp add: step add.commute)
qed

lemma patch_end: "patch (length xs) [c] xs = None" "patch (Suc (length xs)) [c] xs = None"
  by (simp_all add: patch_def)

text \<open>The character behind the last one that fits is written over the end of what was printed, and counted as the first.\<close>

lemma emit_text_full:
  assumes "pr_count p = n - 1" and "1 < n" and "pr_ptr p + 1 = length (pr_buffer p)"
  shows "emit_text n (c # cs) p =
    (if cs = [] then Some (p\<lparr>pr_buffer := (pr_buffer p)[pr_ptr p := c], pr_ptr := pr_ptr p + 1, pr_count := 1\<rparr>) else None)"
proof -
  let ?p = "p\<lparr>pr_buffer := (pr_buffer p)[pr_ptr p := c], pr_ptr := pr_ptr p + 1, pr_count := 1\<rparr>"
  have n: "0 < n - 1" "n \<noteq> 1" using assms(2) by (auto simp: word_gt_0)
  have b: "patch (pr_ptr p) [c] (pr_buffer p) = Some ((pr_buffer p)[pr_ptr p := c])"
    using assms(3) by (simp add: patch_def upd_conv_take_nth_drop)
  have "emit_text n (c # cs) p = emit_text n (c # cs) (p\<lparr>pr_count := 0\<rparr>)" using assms(1) n(2) by (intro emit_text_spin) simp_all
  then have one: "emit_text n (c # cs) p = emit_text n cs ?p" using n(1) b emit_text_Cons [of n c cs "p\<lparr>pr_count := 0\<rparr>"] by simp
  show ?thesis
  proof (cases cs)
    case (Cons d ds)
    have e: "patch (Suc (pr_ptr p)) [d] ((pr_buffer p)[pr_ptr p := c]) = None" using assms(3) by (simp add: patch_def)
    have stop: "emit_text n (d # ds) (?p\<lparr>pr_count := k\<rparr>) = None" if "k < n - 1" for k
      using that e by (subst emit_text_Cons) simp
    have "emit_text n (d # ds) ?p = None"
    proof (cases "1 < n - 1")
      case True
      with stop [of 1] show ?thesis by simp
    next
      case False
      then have "emit_text n (d # ds) ?p = emit_text n (d # ds) (?p\<lparr>pr_count := 0\<rparr>)" using n(2) by (intro emit_text_spin) simp_all
      with stop [OF n(1)] show ?thesis by simp
    qed
    then show ?thesis using one Cons by simp
  next
    case Nil
    then show ?thesis using one by simp
  qed
qed

lemma emit_text_keeps:
  "emit_text n txt p = Some p' \<Longrightarrow> (\<exists>b k c. p' = p\<lparr>pr_buffer := b, pr_ptr := k, pr_count := c\<rparr>) \<and> (n = 1 \<longrightarrow> txt = [])"
proof (rule emit_text.raw_induct [where P = "\<lambda>n txt p p'. (\<exists>b k c. p' = p\<lparr>pr_buffer := b, pr_ptr := k, pr_count := c\<rparr>) \<and> (n = 1 \<longrightarrow> txt = [])"])
  fix g n xs p p'
  assume 1: "\<And>n xs p p'. g n xs p = Some p' \<Longrightarrow>
      (\<exists>b k c. p' = p\<lparr>pr_buffer := b, pr_ptr := k, pr_count := c\<rparr>) \<and> (n = 1 \<longrightarrow> xs = [])"
    "(case xs of [] \<Rightarrow> Some p
      | c # cs \<Rightarrow>
          if pr_count p < n - 1
          then Option.bind (patch (pr_ptr p) [c] (pr_buffer p)) (\<lambda>b.
            g n cs (p\<lparr>pr_buffer := b, pr_ptr := pr_ptr p + 1, pr_count := pr_count p + 1\<rparr>))
          else g n xs (p\<lparr>pr_count := pr_count p + 1\<rparr>)) = Some p'"
  show "(\<exists>b k c. p' = p\<lparr>pr_buffer := b, pr_ptr := k, pr_count := c\<rparr>) \<and> (n = 1 \<longrightarrow> xs = [])"
  proof (cases xs)
    case Nil
    with 1(2) have "p' = p\<lparr>pr_buffer := pr_buffer p, pr_ptr := pr_ptr p, pr_count := pr_count p\<rparr>" by simp
    with Nil show ?thesis by blast
  next
    case (Cons c cs)
    show ?thesis
    proof (cases "pr_count p < n - 1")
      case True
      with 1(2) Cons obtain b where "g n cs (p\<lparr>pr_buffer := b, pr_ptr := pr_ptr p + 1, pr_count := pr_count p + 1\<rparr>) = Some p'"
        by (auto split: bind_splits)
      from 1(1) [OF this] True show ?thesis by auto
    next
      case False
      with 1(2) Cons have "g n (c # cs) (p\<lparr>pr_count := pr_count p + 1\<rparr>) = Some p'" by simp
      from 1(1) [OF this] show ?thesis using Cons by auto
    qed
  qed
qed assumption

lemma string_at_cstring: "cstring m a xs \<Longrightarrow> string_at m a = Some xs"
proof -
  assume c: "cstring m a xs"
  then have "unat (of_nat (length xs) :: u32) = length xs" by (intro unat_of_nat32 cstring_length)
  moreover have "map (\<lambda>i. m (a + of_nat i)) [0..<length xs] = xs" using c by (intro nth_equalityI) (simp_all add: cstring_iff)
  ultimately show ?thesis by (simp add: string_at_def strlen_cstring [OF c])
qed

lemma printed_start: "unat n = length buffer \<Longrightarrow> printed n buffer [] (printer_start buffer args)"
  by (simp add: printed_def printer_start_def)

lemma vsnprintf_start:
  "vsnprintf m buffer n fmt args =
    Option.bind (format_loop m n fmt (printer_start buffer args)) (\<lambda>p.
      Option.bind (patch (unat (pr_count p)) [0] (pr_buffer p)) (\<lambda>b. Some (sint (pr_count p), b)))"
  by (simp add: vsnprintf_def printer_start_def)

lemma sint_of_count: "length xs < 2 ^ 31 \<Longrightarrow> unat (c :: u32) = length xs \<Longrightarrow> sint c = int (length xs)"
proof -
  assume l: "length xs < 2 ^ 31" and "unat c = length xs"
  then have "uint c = int (length xs)" by (metis uint_nat)
  then show ?thesis using l by (simp add: sint_uint signed_take_bit_int_eq_self_iff)
qed

text \<open>The zero that ends the output, when it fits.\<close>

lemma printed_end:
  assumes "printed n buffer xs p" and "unat n = length buffer" and "length xs < unat n"
  shows "patch (unat (pr_count p)) [0] (pr_buffer p) = Some (xs @ 0 # drop (length xs + 1) buffer)"
    and "sint (pr_count p) = int (length xs)"
proof -
  have p: "unat (pr_count p) = length xs" "pr_buffer p = xs @ drop (length xs) buffer" "length xs < 2 ^ 31"
    using assms by (simp_all add: printed_def)
  then show "patch (unat (pr_count p)) [0] (pr_buffer p) = Some (xs @ 0 # drop (length xs + 1) buffer)"
    using assms(2,3) by (simp add: patch_def drop_Suc tl_drop)
  show "sint (pr_count p) = int (length xs)" by (rule sint_of_count [OF p(3,1)])
qed

lemma emit_plain:
  assumes "pr_flags p AND (PR_WS OR PR_LZ OR PR_LJ) = 0" and "pr_given_wd p = 0"
  shows "emit n txt p = emit_text n txt p"
proof -
  have f: "pr_flags p AND (PR_WS OR PR_LZ) = 0" "pr_flags p AND PR_WS = 0"
  proof -
    have "pr_flags p AND (PR_WS OR PR_LZ) = (pr_flags p AND (PR_WS OR PR_LZ OR PR_LJ)) AND (PR_WS OR PR_LZ)"
      by (simp add: PR_WS_def PR_LZ_def PR_LJ_def and.assoc)
    then show "pr_flags p AND (PR_WS OR PR_LZ) = 0" using assms(1) by simp
    have "pr_flags p AND PR_WS = (pr_flags p AND (PR_WS OR PR_LZ OR PR_LJ)) AND PR_WS"
      by (simp add: PR_WS_def PR_LZ_def PR_LJ_def and.assoc)
    then show "pr_flags p AND PR_WS = 0" using assms(1) by simp
  qed
  have z: "PR_WS \<noteq> 0" "PR_WS OR PR_LZ \<noteq> 0" by (simp_all add: PR_WS_def PR_LZ_def)
  show ?thesis
  proof (cases "emit_text n txt p")
    case (Some q)
    then have "pr_given_wd q = 0" "q\<lparr>pr_given_wd := 0\<rparr> = q" using emit_text_keeps [OF Some] assms(2) by auto
    then show ?thesis using Some by (auto simp: emit_def emit2_def Let_def f z assms(2) word_gt_0 split: if_splits)
  qed (auto simp: emit_def emit2_def Let_def f z assms(2))
qed

lemma format_string:
  assumes "string_at m a = Some xs" and "pr_state p = 0" "pr_flags p = 0" "pr_given_wd p = 0" "pr_args p = a # as"
  shows "format_loop m n [37, 115, 0] p = map_option reset_spec (emit_text n xs (p\<lparr>pr_args := as\<rparr>))"
proof -
  obtain st b k c where "p = \<lparr>pr_state = st, pr_flags = 0, pr_given_wd = 0, pr_count = c, pr_args = a # as, pr_buffer = b, pr_ptr = k\<rparr>"
    using assms(3-5) by (cases p) auto
  then have "p\<lparr>pr_flags := 0, pr_args := as\<rparr> = p\<lparr>pr_args := as\<rparr>" by simp
  then have e: "emit n xs (p\<lparr>pr_flags := 0, pr_args := as\<rparr>) = emit_text n xs (p\<lparr>pr_args := as\<rparr>)"
    using emit_plain [of "p\<lparr>pr_args := as\<rparr>" n xs] assms(3,4) by (simp only:) simp
  have "format_step m n [37, 115, 0] p = map_option (\<lambda>p. ([115, 0], reset_spec p)) (emit_text n xs (p\<lparr>pr_args := as\<rparr>))"
    using assms by (simp add: format_step_def spec_flags_def width_def modifier_def conversion_def next_arg_def e option.map_comp comp_def)
  then show ?thesis by (cases "emit_text n xs (p\<lparr>pr_args := as\<rparr>)") (simp_all add: format_loop.simps(2))
qed

text \<open>C28: printing a string with \<open>%s\<close> into a buffer of at least two bytes: if it fits with its zero, the buffer holds
  it. If it has one character too many, the count runs through all its values before that character is written to the
  last byte, one character is reported, and the zero cuts the output off behind its first byte. A longer string is
  written behind the end of the buffer, which has no result.\<close>

theorem snprintf_string:
  assumes "unat n = length buffer" and "2 \<le> length buffer" and "length buffer \<le> 2 ^ 31" and "cstring m a xs"
  shows "snprintf m buffer n [37, 115, 0] (a # as) =
    (if length xs < length buffer then Some (int (length xs), xs @ 0 # drop (length xs + 1) buffer)
     else if length xs = length buffer then Some (1, xs[1 := 0])
     else None)"
proof -
  let ?p = "(printer_start buffer (a # as))\<lparr>pr_args := as\<rparr>"
  have n: "1 < n" "0 < n" "unat (n - 1) = unat n - 1" using assms(1,2) by (auto simp: word_less_nat_alt word_le_nat_alt u32_sub)
  have f: "snprintf m buffer n [37, 115, 0] (a # as) = Option.bind (emit_text n xs ?p) (\<lambda>p.
      Option.bind (patch (unat (pr_count p)) [0] (pr_buffer p)) (\<lambda>b. Some (sint (pr_count p), b)))"
  proof -
    have "format_loop m n [37, 115, 0] (printer_start buffer (a # as)) = map_option reset_spec (emit_text n xs ?p)"
      by (rule format_string [OF string_at_cstring [OF assms(4)]]) (simp_all add: printer_start_def)
    then show ?thesis by (simp add: snprintf_def vsnprintf_start reset_spec_def bind_map_option comp_def)
  qed
  have p: "printed n buffer [] ?p" using assms(1) by (simp add: printed_def printer_start_def)
  show ?thesis
  proof (cases "length xs < length buffer")
    case True
    from writechars_ok [OF p assms(1) n(2), of xs] True assms(3) obtain b k c where
      w: "writechars n xs ?p = Some (?p\<lparr>pr_buffer := b, pr_ptr := k, pr_count := c\<rparr>)"
      and pr: "printed n buffer xs (?p\<lparr>pr_buffer := b, pr_ptr := k, pr_count := c\<rparr>)" by auto
    have "emit_text n xs ?p = Some (?p\<lparr>pr_buffer := b, pr_ptr := k, pr_count := c\<rparr>)"
      using emit_text_fits [OF p assms(1) _ assms(3), of xs "[]"] True assms(1) w by simp
    then show ?thesis using printed_end [OF pr assms(1)] True assms(1) by (simp add: f)
  next
    case False
    let ?k = "length buffer - 1"
    obtain ys c zs where xs: "xs = ys @ c # zs" and ys: "length ys = ?k"
      
    proof
      have k: "?k < length xs" using False assms(2) by simp
      show "xs = take ?k xs @ xs ! ?k # drop (Suc ?k) xs" using k by (rule id_take_nth_drop)
      show "length (take ?k xs) = ?k" using k by simp
    qed
    have "length [] + length ys < 2 ^ 31" using ys assms(2,3) by simp
    from writechars_ok [OF p assms(1) n(2) this] obtain b k ct where
      w: "writechars n ys ?p = Some (?p\<lparr>pr_buffer := b, pr_ptr := k, pr_count := ct\<rparr>)"
      and pr: "printed n buffer ys (?p\<lparr>pr_buffer := b, pr_ptr := k, pr_count := ct\<rparr>)" by auto
    have b: "unat ct = ?k" "k = ?k" "b = ys @ drop ?k buffer" using pr ys assms(1) by (simp_all add: printed_def)
    have ct: "ct = n - 1" using b(1) n(3) assms(1) by (simp add: word_unat_eq_iff)
    have "emit_text n xs ?p = emit_text n (c # zs) (?p\<lparr>pr_buffer := b, pr_ptr := k, pr_count := ct\<rparr>)"
      using emit_text_fits [OF p assms(1) _ assms(3), of ys "c # zs"] ys assms(1,2) w by (simp add: xs)
    also have "\<dots> = (if zs = [] then Some (?p\<lparr>pr_buffer := b[k := c], pr_ptr := k + 1, pr_count := 1\<rparr>) else None)"
      using emit_text_full [of "?p\<lparr>pr_buffer := b, pr_ptr := k, pr_count := ct\<rparr>" n c zs] n(1) ct b(2,3) ys assms(2) by simp
    finally have e: "emit_text n xs ?p = (if zs = [] then Some (?p\<lparr>pr_buffer := b[k := c], pr_ptr := k + 1, pr_count := 1\<rparr>) else None)" .
    have "length (drop ?k buffer) = Suc 0" using assms(2) by simp
    then obtain d where "drop ?k buffer = [d]" unfolding length_Suc_conv by blast
    then have bc: "b[k := c] = ys @ [c]" using b(2,3) ys by (simp add: list_update_append)
    have "length xs = length buffer + length zs" using ys assms(2) by (simp add: xs)
    then have "length xs = length buffer \<longleftrightarrow> zs = []" by simp
    moreover have "patch (unat (1 :: u32)) [0] (ys @ [c]) = Some ((ys @ [c])[1 := 0])"
      using ys assms(2) by (simp add: patch_def upd_conv_take_nth_drop)
    ultimately show ?thesis using False by (cases "zs = []") (simp_all add: f e bc, simp add: xs)
  qed
qed

theorem snprintf_string_witness:
  "snprintf (holding 64 [97, 98, 99, 100, 0]) [1, 2, 3, 4] 4 [37, 115, 0] [64] = Some (1, [97, 0, 99, 100])"
  using snprintf_string [of 4 "[1, 2, 3, 4]" "holding 64 [97, 98, 99, 100, 0]" 64 "[97, 98, 99, 100]" "[]"] by (simp add: holding_def)

section \<open>Numbers\<close>

definition digit_of :: "nat \<Rightarrow> byte" where "digit_of k = of_nat (48 + k)"

fun decimal :: "nat \<Rightarrow> byte list" where
  "decimal n = (if n < 10 then [digit_of n] else decimal (n div 10) @ [digit_of (n mod 10)])"

declare decimal.simps [simp del]

definition signed_decimal :: "u32 \<Rightarrow> byte list" where
  "signed_decimal x = (if sint x < 0 then 45 # decimal (unat (- x)) else decimal (unat x))"

lemma digit_of_bounds:
  assumes "k < 10"
  shows "uint (digit_of k) = 48 + int k" and "is_digit (digit_of k)"
proof -
  have "unat (digit_of k) = 48 + k" using assms by (simp add: digit_of_def unat_of_nat take_bit_nat_eq_self del: of_nat_add)
  then show u: "uint (digit_of k) = 48 + int k" by (simp add: uint_nat)
  then show "is_digit (digit_of k)" using assms by (simp add: word_le_def)
qed

lemma digit_char_decimal: "digit_char ca (u mod 10) = digit_of (unat u mod 10)"
proof -
  have m: "unat (u mod 10) = unat u mod 10" by (simp add: unat_mod)
  then have "u mod 10 < 10" by (simp add: word_less_nat_alt)
  moreover have s: "unat (u mod 10 + 48) = 48 + unat u mod 10" using m by (subst u32_add) simp_all
  have "ucast (u mod 10 + 48) = digit_of (unat u mod 10)"
    unfolding digit_of_def s [symmetric] by (simp only: of_nat_unat)
  ultimately show ?thesis by (simp add: digit_char_def)
qed

lemma to_digits_decimal:
  "unat u < 10 ^ room \<Longrightarrow> 0 < room \<Longrightarrow> to_digits room ca 10 u front = Some (decimal (unat u) @ front)"
proof (induction room arbitrary: u front)
  case (Suc room)
  have d: "unat (u div 10) = unat u div 10" by (simp add: unat_div)
  show ?case
  proof (cases "unat u < 10")
    case True
    then have "u div 10 = 0" using d by (simp add: word_zero_iff)
    then show ?thesis using True by (subst decimal.simps) (simp add: digit_char_decimal)
  next
    case False
    then have z: "u div 10 \<noteq> 0" using d by (simp add: word_zero_iff div_eq_0_iff)
    have "unat (u div 10) < 10 ^ room" using Suc.prems(1) by (simp add: d less_mult_imp_div_less mult.commute)
    moreover have "0 < room" using Suc.prems(1) False by (cases room) auto
    ultimately have "to_digits room ca 10 (u div 10) (digit_char ca (u mod 10) # front) =
        Some (decimal (unat u div 10) @ digit_char ca (u mod 10) # front)"
      using Suc.IH by (simp add: d)
    then show ?thesis using z False by (subst decimal.simps) (simp add: digit_char_decimal Let_def)
  qed
qed simp

lemma decimal_digits: "d \<in> set (decimal n) \<Longrightarrow> is_digit d"
  by (induction n rule: decimal.induct) (subst (asm) (2) decimal.simps, auto simp: digit_of_bounds split: if_splits)

lemma decimal_value: "decimal_value_of (decimal n) = int n"
proof (induction n rule: decimal.induct)
  case (1 n)
  show ?case
  proof (cases "n < 10")
    case True
    then show ?thesis by (subst decimal.simps) (simp add: decimal_value_of_def digit_of_bounds)
  next
    case False
    have "int n = 10 * int (n div 10) + int (n mod 10)" by presburger
    moreover have "uint (digit_of (n mod 10)) = 48 + int (n mod 10)" by (rule digit_of_bounds) simp
    ultimately show ?thesis using False 1 [OF False] by (subst decimal.simps) (simp add: decimal_value_of_def)
  qed
qed

lemma decimal_length: "n < 10 ^ k \<Longrightarrow> 0 < k \<Longrightarrow> length (decimal n) \<le> k"
proof (induction k arbitrary: n)
  case (Suc k)
  show ?case
  proof (cases "n < 10")
    case False
    have "n div 10 < 10 ^ k" using Suc.prems(1) by (simp add: less_mult_imp_div_less mult.commute)
    moreover have "0 < k" using Suc.prems(1) False by (cases k) auto
    ultimately show ?thesis using Suc.IH False by (subst decimal.simps) simp
  qed (subst decimal.simps, simp)
qed simp

lemma decimal_nonempty: "decimal n \<noteq> []"
  by (subst decimal.simps) simp

section \<open>Printing and reading numbers\<close>

lemma emit_signed:
  assumes "pr_flags p = PR_SG OR PR_WS" and "pr_given_wd p = 0" and "length cs + 1 < 2 ^ 32"
  shows "emit n cs p = Option.bind (writechar n 45 p) (emit_text n cs)"
proof -
  have f: "PR_WS \<noteq> 0" "PR_LZ \<noteq> 0" "(PR_SG OR PR_WS) AND (PR_WS OR PR_LZ) = PR_WS" "PR_WS \<noteq> PR_WS OR PR_LZ" "(PR_SG OR PR_WS) AND PR_WS \<noteq> 0"
    by (simp_all add: PR_WS_def PR_LZ_def PR_SG_def)
  have "unat (of_nat (length cs + 1) :: u32) = length cs + 1" using assms(3) by (intro unat_of_nat32) simp
  then have wd: "0 < of_nat (length cs) + (1 :: u32)" "of_nat (length cs) + (1 :: u32) \<noteq> 0"
    by (simp_all only: of_nat_add of_nat_1 word_less_nat_alt word_zero_iff) simp_all
  show ?thesis
  proof (cases "Option.bind (writechar n 45 p) (emit_text n cs)")
    case (Some q)
    then obtain p1 where p1: "writechar n 45 p = Some p1" "emit_text n cs p1 = Some q" by (auto split: bind_splits)
    have "pr_given_wd p1 = 0" using p1(1) assms(2) by (auto simp: writechar_def split: bind_splits if_splits)
    then have "pr_given_wd q = 0" "q\<lparr>pr_given_wd := 0\<rparr> = q" using emit_text_keeps [OF p1(2)] by auto
    then show ?thesis using p1 wd by (auto simp: emit_def emit2_def Let_def f assms(1,2))
  next
    case None
    then show ?thesis using wd by (auto simp: emit_def emit2_def Let_def f assms(1,2) split: bind_splits)
  qed
qed

text \<open>The conversion \<open>%d\<close>: the sign, and the digits of the absolute value.\<close>

lemma loop_end:
  "Option.bind (map_option (Pair [c, 0]) r) (\<lambda>(fmt, y). format_loop m n (tl fmt) y) = r"
  by (cases r) (simp_all add: format_loop.simps(2))

lemma format_number:
  assumes "pr_state p = 0" "pr_flags p = 0" "pr_given_wd p = 0" "pr_args p = x # as" and "x \<noteq> 0x80000000"
  shows "\<exists>fl. format_loop m n [37, 100, 0] p =
    (let p = p\<lparr>pr_args := as, pr_flags := fl\<rparr> in
     map_option reset_spec
      (if sint x < 0 then Option.bind (writechar n 45 p) (emit_text n (decimal (unat (- x))))
       else emit_text n (decimal (unat x)) p))"
proof -
  have f: "PR_SG \<noteq> 0" by (simp add: PR_SG_def)
  have plain: "PR_SG AND (PR_WS OR PR_LZ OR PR_LJ) = 0" by (simp add: PR_SG_def PR_WS_def PR_LZ_def PR_LJ_def)
  have room: "unat y < 10 ^ 15" for y :: u32 using unat_u32_bound [of y] by simp
  have len: "length (decimal (unat y)) + 1 < 2 ^ 32" for y :: u32
    using decimal_length [OF room [of y]] by simp
  obtain b k c where p: "p = \<lparr>pr_state = 0, pr_flags = 0, pr_given_wd = 0, pr_count = c, pr_args = x # as, pr_buffer = b, pr_ptr = k\<rparr>"
    using assms(1-4) by (cases p) auto
  let ?p = "p\<lparr>pr_args := as, pr_flags := PR_SG\<rparr>" and ?q = "p\<lparr>pr_args := as, pr_flags := PR_SG OR PR_WS\<rparr>"
  have "format_loop m n [37, 100, 0] p = map_option reset_spec
      (if sint x < 0 then emit n (decimal (unat (- x))) ?q else emit n (decimal (unat x)) ?p)"
    using assms(5)
    by (simp add: p format_loop.simps(2) [of _ _ 37] format_step_def spec_flags_def width_def modifier_def conversion_def do_num_def next_arg_def
        f loop_end PR_BUFLEN_def to_digits_decimal [OF room])
  moreover have "emit n (decimal (unat (- x))) ?q = Option.bind (writechar n 45 ?q) (emit_text n (decimal (unat (- x))))"
    using assms(3) len by (intro emit_signed) simp_all
  moreover have "emit n (decimal (unat x)) ?p = emit_text n (decimal (unat x)) ?p"
    using assms(3) plain by (intro emit_plain) simp_all
  ultimately show ?thesis by (cases "sint x < 0") (auto simp: Let_def)
qed

lemma take_bit_uint_u32: "take_bit 32 (uint (x :: u32)) = uint x"
proof (rule take_bit_int_eq_self)
  have "unat x < 4294967296" using unat_u32_bound [of x] by simp
  then have "int (unat x) < int 4294967296" by (simp only: of_nat_less_iff)
  then show "uint x < 2 ^ 32" by simp
qed simp

lemma sint_bounds: "- 2147483648 \<le> sint (x :: u32)" "sint x < 2147483648"
  using sint_greater_eq [of x] sint_less [of x] by simp_all

lemma sint_parts:
  fixes x :: u32
  shows "sint x < 0 \<Longrightarrow> int (unat (- x)) = - sint x" and "0 \<le> sint x \<Longrightarrow> int (unat x) = sint x"
proof -
  assume "sint x < 0"
  moreover have "- x = of_int (- sint x)" by simp
  then have "uint (- x) = take_bit 32 (- sint x)" by (simp only: unsigned_of_int) simp
  ultimately show "int (unat (- x)) = - sint x" using sint_bounds [of x] by (simp add: take_bit_int_eq_self)
next
  assume "0 \<le> sint x"
  moreover have "take_bit 32 (uint x) = uint x" by (rule take_bit_uint_u32)
  then have "uint x = take_bit 32 (sint x)" using take_bit_signed_take_bit [of 32 31 "uint x"] by (simp add: sint_uint)
  ultimately show "int (unat x) = sint x" using sint_bounds [of x] by (simp add: take_bit_int_eq_self)
qed

lemma emit_fits:
  assumes "printed n buffer xs p" and "unat n = length buffer" and "length xs + length cs < unat n" and "length buffer \<le> 2 ^ 31"
  shows "\<exists>q. emit_text n cs p = Some q \<and> printed n buffer (xs @ cs) q"
proof -
  have "0 < n" using assms(3) by (simp add: word_less_nat_alt)
  with writechars_ok [OF assms(1,2) this, of cs] assms(2-4) emit_text_fits [OF assms(1,2), of cs "[]"]
  show ?thesis by fastforce
qed

lemma snprintf_printed:
  assumes "format_loop m n fmt (printer_start buffer args) = Some (reset_spec q)" and "printed n buffer xs q"
    and "unat n = length buffer" and "length xs < unat n"
  shows "snprintf m buffer n fmt args = Some (int (length xs), xs @ 0 # drop (length xs + 1) buffer)"
  using printed_end [OF assms(2-4)] by (simp add: snprintf_def vsnprintf_start assms(1)) (simp add: reset_spec_def)

text \<open>C26: \<open>%d\<close> into a buffer of at least twelve bytes prints the number's sign and digits, whose value is the number, and
  \<open>atoi\<close> reads it back if its absolute value is at most 2147483599. (The most negative number cannot be negated.)\<close>

theorem print_number_atoi:
  assumes "unat n = length buffer" and "12 \<le> length buffer" and "length buffer \<le> 2 ^ 31" and "x \<noteq> 0x80000000"
  shows "\<exists>xs. snprintf m buffer n [37, 100, 0] (x # as) = Some (int (length xs), xs @ 0 # drop (length xs + 1) buffer) \<and>
    (\<bar>sint x\<bar> \<le> 2147483599 \<longrightarrow> atoi outside (holding a (xs @ [0])) a = Some (sint x))"
proof (intro exI conjI impI)
  let ?sg = "if sint x < 0 then [45] else []" and ?d = "if sint x < 0 then decimal (unat (- x)) else decimal (unat x)"
  have "unat y < 10 ^ 10" for y :: u32 using unat_u32_bound [of y] by simp
  then have len: "length (decimal (unat y)) \<le> 10" for y :: u32 by (rule decimal_length) simp
  have fit: "length (?sg @ ?d) < unat n" using len [of x] len [of "- x"] assms(1,2) by simp
  have n: "0 < n" using assms(1,2) by (cases buffer) (auto simp: word_less_nat_alt)
  obtain fl where f: "format_loop m n [37, 100, 0] (printer_start buffer (x # as)) =
      (let p = (printer_start buffer (x # as))\<lparr>pr_args := as, pr_flags := fl\<rparr> in
       map_option reset_spec
        (if sint x < 0 then Option.bind (writechar n 45 p) (emit_text n (decimal (unat (- x))))
         else emit_text n (decimal (unat x)) p))"
    using format_number [of "printer_start buffer (x # as)" x as m n] assms(4) by (auto simp: printer_start_def)
  let ?p = "(printer_start buffer (x # as))\<lparr>pr_args := as, pr_flags := fl\<rparr>"
  have p: "printed n buffer [] ?p" using assms(1) by (simp add: printed_def printer_start_def)
  have "\<exists>q. format_loop m n [37, 100, 0] (printer_start buffer (x # as)) = Some (reset_spec q) \<and> printed n buffer (?sg @ ?d) q"
  proof (cases "sint x < 0")
    case True
    from writechar_ok [OF p assms(1) n, of 45] obtain q1 where
      q1: "writechar n 45 ?p = Some q1" "printed n buffer [45] q1" by auto
    with emit_fits [OF q1(2) assms(1) _ assms(3), of "decimal (unat (- x))"] fit True show ?thesis by (auto simp: f Let_def)
  next
    case False
    with emit_fits [OF p assms(1) _ assms(3), of "decimal (unat x)"] fit show ?thesis by (auto simp: f Let_def)
  qed
  then obtain q where "format_loop m n [37, 100, 0] (printer_start buffer (x # as)) = Some (reset_spec q)"
    "printed n buffer (?sg @ ?d) q" by blast
  then show "snprintf m buffer n [37, 100, 0] (x # as) =
      Some (int (length (?sg @ ?d)), (?sg @ ?d) @ 0 # drop (length (?sg @ ?d) + 1) buffer)"
    using assms(1) fit by (rule snprintf_printed)
  assume small: "\<bar>sint x\<bar> \<le> 2147483599"
  have dig: "\<forall>d\<in>set ?d. is_digit d" by (auto dest: decimal_digits)
  have "cstring (holding a ((?sg @ ?d) @ [0])) a ([] @ ?sg @ ?d @ [])"
  proof -
    have "0 \<notin> set ?d" using dig by fastforce
    then have z: "0 \<notin> set (?sg @ ?d)" by simp
    have "length (?sg @ ?d) + 1 < 4294967296" using fit assms(1,3) by simp
    from cstring_holding [OF z this] show ?thesis by (simp only: append_Nil append_Nil2)
  qed
  moreover have "sign_of ?sg = Some (if sint x < 0 then - 1 else 1)" by (simp add: sign_of_def)
  moreover have "?d \<noteq> []" by (simp add: decimal_nonempty)
  moreover have "decimal_value_of ?d = \<bar>sint x\<bar>" using sint_parts [of x] by (simp add: decimal_value)
  ultimately have "atoi outside (holding a ((?sg @ ?d) @ [0])) a = Some ((if sint x < 0 then - 1 else 1) * \<bar>sint x\<bar>)"
    using atoi_value [of _ a "[]" ?sg ?d "[]"] dig small by (simp only:) simp
  then show "atoi outside (holding a ((?sg @ ?d) @ [0])) a = Some (sint x)" by (simp split: if_splits)
qed

theorem print_number_atoi_witness:
  "\<exists>xs. snprintf (\<lambda>a. 0) (replicate 16 0) 16 [37, 100, 0] [- 42] = Some (int (length xs), xs @ 0 # drop (length xs + 1) (replicate 16 0)) \<and>
    atoi (\<lambda>c. 0) (holding 64 (xs @ [0])) 64 = Some (- 42)"
  using print_number_atoi [of 16 "replicate 16 0" "- 42" "\<lambda>a. 0" "[]" "\<lambda>c. 0" 64] by simp

section \<open>Modifiers\<close>

text \<open>A length modifier ends the conversion: after \<open>%l\<close> or \<open>%h\<close> (with no width before it) nothing is converted, no
  argument is taken, and the conversion character that follows is printed as it stands.\<close>

theorem modifier_ends_conversion:
  assumes "c = 108 \<or> c = 104" and "unat n = length buffer" and "2 \<le> length buffer" and "d \<noteq> 0" and "d \<noteq> 37"
  shows "snprintf m buffer n [37, c, d, 0] args = Some (1, [d, 0] @ drop 2 buffer)"
proof -
  have c: "conversion m n c p = Some (reset_spec p)" for p using assms(1) by (auto simp: conversion_def)
  let ?p = "printer_start buffer args"
  have r: "reset_spec (p\<lparr>pr_flags := k\<rparr>) = reset_spec p" for p k by (simp add: reset_spec_def)
  have n: "0 < n" using assms(2,3) by (cases buffer) (auto simp: word_less_nat_alt)
  from writechar_ok [OF printed_start [OF assms(2)] assms(2) n, of d] obtain q where
    w: "writechar n d ?p = Some q" "printed n buffer [d] q" by auto
  have "pr_state q = 0 \<and> pr_flags q = 0 \<and> pr_given_wd q = 0"
    using w(1) by (auto simp: writechar_def printer_start_def split: bind_splits if_splits)
  then have q: "reset_spec q = q" by (simp add: reset_spec_def)
  have s: "reset_spec ?p = ?p" "pr_state ?p = 0" by (simp_all add: reset_spec_def printer_start_def)
  have "format_step m n [37, c, d, 0] ?p = Some ([c, d, 0], ?p)"
    using assms(1) c s by (auto simp: format_step_def spec_flags_def width_def modifier_def r)
  moreover have "format_step m n [d, 0] ?p = Some ([d, 0], q)" using assms(5) w(1) s(2) by (simp add: format_step_def)
  ultimately have "format_loop m n [37, c, d, 0] ?p = Some q" using assms(4) by (simp add: format_loop.simps(2))
  then have "format_loop m n [37, c, d, 0] ?p = Some (reset_spec q)" by (simp add: q)
  from snprintf_printed [OF this w(2) assms(2)] assms(2,3) show ?thesis by (simp add: numeral_2_eq_2)
qed

theorem modifier_ends_conversion_witness: "snprintf (\<lambda>a. 0) [1, 2, 3] 3 [37, 108, 117, 0] [7] = Some (1, [117, 0, 3])"
  using modifier_ends_conversion [of 108 3 "[1, 2, 3]" 117 "\<lambda>a. 0" "[7]"] by simp

end
