(* ===== verification/ScanfCorrect.thy ===== *)
theory ScanfCorrect
  imports Scanf PrintfCorrect
begin

text \<open>
  Reading numbers: what \<open>do_scanf\<close> makes of the digits and of other characters, for every source of input that keeps
  the contract of \<open>consume\<close> and \<open>look_ahead\<close>, and its two sources.
\<close>

unbundle bit_operations_syntax

text \<open>The contract of a source: the characters that are left, of which the last is a zero.\<close>

locale scan_source =
  fixes ops :: "'h scanf_handler" and rest :: "'h \<Rightarrow> byte list"
  assumes look: "rest h = c # cs \<Longrightarrow> \<exists>h'. look_ahead ops h = Some (c, h') \<and> rest h' = c # cs"
    and eat: "rest h = c # cs \<Longrightarrow> c \<noteq> 0 \<Longrightarrow> \<exists>h'. consume ops h = Some (c, h') \<and> rest h' = cs"
begin

lemma scan_digits_value:
  "rest h = ds @ c # cs \<Longrightarrow> \<forall>d\<in>set ds. is_digit d \<Longrightarrow> \<not> is_digit c \<Longrightarrow>
    \<exists>h'. scan_digits ops 57 r h = Some (foldl (\<lambda>r d. r * 10 + ucast (d - 48)) r ds, h') \<and> rest h' = c # cs"
proof (induction ds arbitrary: h r)
  case Nil
  from look [of h c cs] Nil(1) obtain h' where "look_ahead ops h = Some (c, h')" "rest h' = c # cs" by auto
  then show ?case using Nil(3) by (subst scan_digits.simps) auto
next
  case (Cons d ds)
  from look [of h d "ds @ c # cs"] Cons.prems(1) obtain h1 where
    h1: "look_ahead ops h = Some (d, h1)" "rest h1 = d # ds @ c # cs" by auto
  have d: "is_digit d" "d \<noteq> 0" using Cons.prems(2) by auto
  from eat [OF h1(2) d(2)] obtain h2 where h2: "consume ops h1 = Some (d, h2)" "rest h2 = ds @ c # cs" by auto
  have "scan_digits ops 57 r h = scan_digits ops 57 (r * 10 + ucast (d - 48)) h2"
    using d(1) h1(1) h2(1) by (subst scan_digits.simps) simp
  then show ?case using Cons.IH [OF h2(2)] Cons.prems(2,3) by simp
qed

lemma scan_hex_step:
  assumes "rest h = c # d # cs" and "hex_part c = Some v" and "hex_part d = None"
  shows "\<exists>h'. scan_hex ops r c h = Some (r * 16 + v, h') \<and> rest h' = d # cs"
proof -
  have "c \<noteq> 0" using assms(2) by (auto simp: hex_part_def)
  from eat [OF assms(1) this] obtain h1 where h1: "consume ops h = Some (c, h1)" "rest h1 = d # cs" by auto
  from look [OF h1(2)] obtain h2 where h2: "look_ahead ops h1 = Some (d, h2)" "rest h2 = d # cs" by auto
  have "scan_hex ops (r * 16 + v) d h2 = Some (r * 16 + v, h2)" using assms(3) by (subst scan_hex.simps) simp
  then show ?thesis using assms(2) h1(1) h2 by (subst scan_hex.simps) simp
qed

text \<open>A format of one conversion, \<open>%u\<close> or \<open>%d\<close>.\<close>

lemma scan_number:
  assumes "rest h = ds @ c # cs" and "\<forall>d\<in>set ds. is_digit d" and "\<not> is_digit c" and "k = 117 \<or> k = 100" and "dest \<noteq> 0"
  shows "\<exists>h'. do_scanf outside ops h [37, k, 0] [dest] m =
    Some (1, h', store_int dest TYPE_INT (foldl (\<lambda>r d. r * 10 + ucast (d - 48)) 0 ds) m) \<and> rest h' = c # cs"
proof -
  let ?s = "\<lparr>sc_pos = 0, sc_args = [dest], sc_matches = 0, sc_ram = m, sc_src = h\<rparr>"
  let ?v = "foldl (\<lambda>r d. r * 10 + ucast (d - 48)) 0 ds"
  from scan_digits_value [OF assms(1-3), of 0] obtain h' where
    h: "scan_digits ops 57 0 h = Some (?v, h')" "rest h' = c # cs" by auto
  let ?s1 = "\<lparr>sc_pos = 1, sc_args = [], sc_matches = 1, sc_ram = store_int dest TYPE_INT ?v m, sc_src = h'\<rparr>"
  have "scan_directive outside ops [37, k, 0] ?s = Some (Scanned ?s1)"
    using assms(4,5) h(1)
    by (auto simp: scan_directive_def fmt_at_def type_modifier_def scan_conversion_def store_at_def)
  then have "scan_loop outside ops [37, k, 0] ?s = scan_loop outside ops [37, k, 0] (?s1\<lparr>sc_pos := Suc (Suc 0)\<rparr>)"
    using assms(4) by (elim disjE; subst scan_loop.simps; simp add: fmt_at_def isspace_ascii)
  also have "\<dots> = Some (1, h', store_int dest TYPE_INT ?v m)"
    by (subst scan_loop.simps) (simp add: fmt_at_def)
  finally show ?thesis using h(2) by (simp add: do_scanf_def)
qed

end

interpretation raw: scan_source raw_ops rh_text
  by unfold_locales (auto simp: raw_ops_def)

interpretation stream: scan_source file_ops "\<lambda>h. drop (fh_pos h) (fh_contents h) @ [0]"
proof
  fix h :: file_handler and c cs
  assume r: "drop (fh_pos h) (fh_contents h) @ [0] = c # cs"
  have in_file: "c = fh_contents h ! fh_pos h \<and> cs = drop (Suc (fh_pos h)) (fh_contents h) @ [0]" if "fh_pos h < length (fh_contents h)"
    using r that by (simp add: Cons_nth_drop_Suc [symmetric])
  have at_end: "c = 0" if "\<not> fh_pos h < length (fh_contents h)"
    using r that by simp
  show "\<exists>h'. look_ahead file_ops h = Some (c, h') \<and> drop (fh_pos h') (fh_contents h') @ [0] = c # cs"
    using r in_file at_end by (cases "fh_pos h < length (fh_contents h)") (auto simp: file_ops_def file_read_def)
  assume "c \<noteq> 0"
  then show "\<exists>h'. consume file_ops h = Some (c, h') \<and> drop (fh_pos h') (fh_contents h') @ [0] = cs"
    using in_file at_end by (cases "fh_pos h < length (fh_contents h)") (auto simp: file_ops_def file_read_def)
qed

section \<open>Printing and scanning\<close>

lemma foldl_word_value:
  "\<forall>d\<in>set ds. is_digit d \<Longrightarrow>
    foldl (\<lambda>r d. r * 10 + ucast (d - 48)) (word_of_int n) ds = (word_of_int (foldl (\<lambda>n d. 10 * n + (uint d - 48)) n ds) :: u64)"
proof (induction ds arbitrary: n)
  case (Cons d ds)
  have d: "is_digit d" using Cons.prems by simp
  have "uint (d - 48) = uint d - 48" using d by (simp add: uint_sub_if' word_le_def)
  then have "ucast (d - 48) = (word_of_int (uint d - 48) :: u64)" by (metis ucast_eq)
  then have "word_of_int n * 10 + ucast (d - 48) = (word_of_int (10 * n + (uint d - 48)) :: u64)" by (simp add: mult.commute)
  then show ?case using Cons.IH [of "10 * n + (uint d - 48)"] Cons.prems by (simp add: mult.commute)
qed simp

lemma scanned_decimal: "foldl (\<lambda>r d. r * 10 + ucast (d - 48)) 0 (decimal (unat (x :: u32))) = (ucast x :: u64)"
proof -
  have "foldl (\<lambda>r d. r * 10 + ucast (d - 48)) 0 (decimal (unat x)) = (word_of_int (decimal_value_of (decimal (unat x))) :: u64)"
    using foldl_word_value [of "decimal (unat x)" 0] decimal_digits by (simp add: decimal_value_of_def)
  also have "\<dots> = ucast x" by (simp add: decimal_value)
  finally show ?thesis .
qed

lemma format_unsigned:
  assumes "pr_state p = 0" "pr_flags p = 0" "pr_given_wd p = 0" "pr_args p = x # as"
  shows "format_loop m n [37, 117, 0] p = map_option reset_spec (emit_text n (decimal (unat x)) (p\<lparr>pr_args := as\<rparr>))"
proof -
  obtain b k c where p: "p = \<lparr>pr_state = 0, pr_flags = 0, pr_given_wd = 0, pr_count = c, pr_args = x # as, pr_buffer = b, pr_ptr = k\<rparr>"
    using assms by (cases p) auto
  have room: "unat x < 10 ^ 15" using unat_u32_bound [of x] by simp
  have "emit n (decimal (unat x)) (p\<lparr>pr_args := as\<rparr>) = emit_text n (decimal (unat x)) (p\<lparr>pr_args := as\<rparr>)"
    by (rule emit_plain) (simp_all add: p)
  then show ?thesis
    by (simp add: p format_loop.simps(2) [of _ _ 37] format_step_def spec_flags_def width_def modifier_def conversion_def do_num_def next_arg_def
        loop_end PR_BUFLEN_def to_digits_decimal [OF room])
qed

text \<open>C27: a number printed with \<open>%u\<close> is read back with \<open>%u\<close>, from a string and from a file that ends with it: one match
  is reported, and the number is stored at the pointer.\<close>

theorem print_scan_unsigned:
  assumes "unat n = length buffer" and "12 \<le> length buffer" and "length buffer \<le> 2 ^ 31" and "dest \<noteq> 0"
  shows "\<exists>xs. snprintf m buffer n [37, 117, 0] (x # as) = Some (int (length xs), xs @ 0 # drop (length xs + 1) buffer) \<and>
    (\<exists>h. vsscanf outside (xs @ [0]) [37, 117, 0] [dest] m = Some (1, h, store_int dest TYPE_INT (ucast x) m)) \<and>
    (\<exists>h. vfscanf outside xs 0 [37, 117, 0] [dest] m = Some (1, h, store_int dest TYPE_INT (ucast x) m))"
proof (intro exI [of _ "decimal (unat x)"] conjI)
  let ?p = "(printer_start buffer (x # as))\<lparr>pr_args := as\<rparr>"
  have p: "printed n buffer [] ?p" using assms(1) by (simp add: printed_def printer_start_def)
  have "length (decimal (unat x)) \<le> 10" using unat_u32_bound [of x] by (intro decimal_length) simp_all
  then have fit: "length (decimal (unat x)) < unat n" using assms(1,2) by simp
  with emit_fits [OF p assms(1) _ assms(3)] obtain q where
    q: "emit_text n (decimal (unat x)) ?p = Some q" "printed n buffer (decimal (unat x)) q" by auto
  have "format_loop m n [37, 117, 0] (printer_start buffer (x # as)) = Some (reset_spec q)"
    using format_unsigned [of "printer_start buffer (x # as)" x as m n] q(1) by (simp add: printer_start_def)
  from snprintf_printed [OF this q(2) assms(1) fit]
  show "snprintf m buffer n [37, 117, 0] (x # as) =
      Some (int (length (decimal (unat x))), decimal (unat x) @ 0 # drop (length (decimal (unat x)) + 1) buffer)" .
  have dig: "\<forall>d\<in>set (decimal (unat x)). is_digit d" by (auto dest: decimal_digits)
  show "\<exists>h. vsscanf outside (decimal (unat x) @ [0]) [37, 117, 0] [dest] m = Some (1, h, store_int dest TYPE_INT (ucast x) m)"
    using raw.scan_number [of "\<lparr>rh_text = decimal (unat x) @ [0], rh_consumed = 0\<rparr>" "decimal (unat x)" 0 "[]" 117 dest outside m, OF _ dig _ _ assms(4)]
    by (auto simp: vsscanf_def scanned_decimal)
  show "\<exists>h. vfscanf outside (decimal (unat x)) 0 [37, 117, 0] [dest] m = Some (1, h, store_int dest TYPE_INT (ucast x) m)"
    using stream.scan_number [of "\<lparr>fh_contents = decimal (unat x), fh_pos = 0, fh_consumed = 0\<rparr>" "decimal (unat x)" 0 "[]" 117 dest outside m, OF _ dig _ _ assms(4)]
    by (auto simp: vfscanf_def scanned_decimal)
qed

theorem print_scan_unsigned_witness:
  "\<exists>xs h. snprintf (\<lambda>a. 0) (replicate 12 0) 12 [37, 117, 0] [42] = Some (int (length xs), xs @ 0 # drop (length xs + 1) (replicate 12 0)) \<and>
    vsscanf (\<lambda>c. 0) (xs @ [0]) [37, 117, 0] [64] (\<lambda>a. 0) = Some (1, h, store_int 64 TYPE_INT 42 (\<lambda>a. 0))"
  using print_scan_unsigned [of 12 "replicate 12 0" 64 "\<lambda>a. 0" 42 "[]" "\<lambda>c. 0"] by auto

text \<open>Where the input does not start with a digit, \<open>%d\<close> and \<open>%u\<close> store zero, leave the input where it is and count a
  match; the sign of a number is such a character, so negative numbers cannot be read and no mismatch is reported.\<close>

theorem scan_mismatch_counted:
  assumes "\<not> is_digit c" and "k = 117 \<or> k = 100" and "dest \<noteq> 0"
  shows "\<exists>h. vsscanf outside (c # cs) [37, k, 0] [dest] m = Some (1, h, store_int dest TYPE_INT 0 m) \<and> rh_text h = c # cs"
  using raw.scan_number [of "\<lparr>rh_text = c # cs, rh_consumed = 0\<rparr>" "[]" c cs k dest outside m, OF _ _ assms(1-3)] by (auto simp: vsscanf_def)

theorem scan_mismatch_counted_witness:
  "\<exists>h. vsscanf (\<lambda>c. 0) [45, 49, 0] [37, 100, 0] [64] (\<lambda>a. 7) = Some (1, h, store_int 64 TYPE_INT 0 (\<lambda>a. 7)) \<and> rh_text h = [45, 49, 0]"
  using scan_mismatch_counted [of 45 100 64 "\<lambda>c. 0" "[49, 0]" "\<lambda>a. 7"] by simp

text \<open>A hexadecimal letter counts from zero: the value of a is 0 and that of f is 5.\<close>

lemma hex_letters:
  assumes "97 \<le> c \<and> c \<le> 102" and "c' = c - 97"
  shows "\<exists>h'. scan_hex raw_ops 0 c \<lparr>rh_text = [c, 0], rh_consumed = 0\<rparr> = Some (ucast c', h')"
proof -
  have "\<not> is_digit c" using assms(1) order_trans [of 97 c 57] by auto
  then have "hex_part c = Some (ucast c')" using assms by (auto simp: hex_part_def)
  then show ?thesis
    using raw.scan_hex_step [of "\<lparr>rh_text = [c, 0], rh_consumed = 0\<rparr>" c 0 "[]" "ucast c'" 0] by (auto simp: hex_part_def)
qed

end
