(* ===== verification/Tasks.thy ===== *)
theory Tasks
  imports Locks
begin

text \<open>
  Tasks, processes and the scheduler (\<open>kernel/task.cpp\<close>, \<open>task.asm\<close>, \<open>tss.h\<close>, \<open>gdt.cpp\<close>). The state holds the tasks and
  processes under their addresses and what each processor has in its registers. An operation takes the number of
  the processor that executes it; it ends where the processor leaves the task, and what follows a switch in the code
  is an operation of its own. Memory for new tasks, stacks and address spaces comes from the memory manager and is an
  argument; what is given back is recorded.
\<close>

unbundle bit_operations_syntax

type_synonym addr = u32

definition TASK_PAGE :: u32 where "TASK_PAGE = 4096"

section \<open>Segments\<close>

record gdt_entry =
  limit_lo :: u16
  base_lo :: u16
  base_mid :: byte
  access :: byte
  granularity :: byte
  base_hi :: byte

definition get_seg_base :: "gdt_entry \<Rightarrow> u32" where
  "get_seg_base e = ucast (base_lo e) OR push_bit 16 (ucast (base_mid e)) OR push_bit 24 (ucast (base_hi e))"

definition set_seg_base :: "gdt_entry \<Rightarrow> u32 \<Rightarrow> gdt_entry" where
  "set_seg_base e val =
     e\<lparr>base_lo := ucast (val AND 0xFFFF), base_mid := ucast (drop_bit 16 val AND 0xFF), base_hi := ucast (drop_bit 24 val AND 0xFF)\<rparr>"

definition data_segment :: "byte \<Rightarrow> gdt_entry" where
  "data_segment acc = \<lparr>limit_lo = 0xFFFF, base_lo = 0, base_mid = 0, access = acc, granularity = 0xCF, base_hi = 0\<rparr>"

section \<open>State\<close>

record saved_regs =
  esp :: u32
  esp0 :: u32
  cr3 :: u32
  tls_gdt_hi :: u32
  tls_base_lo :: u16

definition tls_hi :: "u32 \<Rightarrow> u32" where
  "tls_hi tls_ptr = (tls_ptr AND 0xFF000000) OR 0x00CFF200 OR (drop_bit 16 tls_ptr AND 0xFF)"

definition init_tcb_regs :: "u32 \<Rightarrow> u32 \<Rightarrow> u32 \<Rightarrow> saved_regs" where
  "init_tcb_regs stack_top page_dir tls_ptr =
     \<lparr>esp = stack_top - 36, esp0 = stack_top, cr3 = page_dir, tls_gdt_hi = tls_hi tls_ptr, tls_base_lo = ucast (tls_ptr AND 0xFFFF)\<rparr>"

record task =
  regs :: saved_regs
  running :: byte
  tid :: task_id
  kernel_stack_top :: u32
  user_stack_top :: u32
  p_data :: addr

text \<open>Of the objects a process has loaded, the segments: their addresses and numbers of pages.\<close>

record process =
  address_space :: u32
  objects :: "(u32 \<times> u32) list list"
  parent_pid :: task_id
  pid :: task_id
  p_tasks :: "addr list"

text \<open>A processor: the task state segment and descriptors that are used, the current task, and two registers.\<close>

record cpu_state =
  tss_esp0 :: u32
  tss_stack_seg :: u16
  tls_data :: gdt_entry
  cpu_data :: gdt_entry
  tss_data :: gdt_entry
  tcb :: addr
  r_esp :: u32
  r_cr3 :: u32

record user_transition_stack_items =
  flags :: u32
  eip :: u32
  code_addr :: u32
  stack_addr :: u32

datatype mem_call = Free_pages u32 u32 | Destroy_memory_space u32

record sched =
  task_at :: "addr \<Rightarrow> task option"
  process_at :: "addr \<Rightarrow> process option"
  cpus :: "cpu_state list"
  tasks :: "task_id \<Rightarrow> addr option"
  runnable :: "addr list"
  active_process :: task_id
  last_id :: task_id
  stack_items :: "u32 \<Rightarrow> user_transition_stack_items option"
  user_writes :: "(u32 \<times> byte list) list"
  mem_calls :: "mem_call list"

definition set_task :: "addr \<Rightarrow> task \<Rightarrow> sched \<Rightarrow> sched" where
  "set_task t k s = s\<lparr>task_at := (task_at s)(t := Some k)\<rparr>"

definition generate_tid :: "sched \<Rightarrow> task_id \<times> sched" where
  "generate_tid s = (last_id s, s\<lparr>last_id := last_id s + 1\<rparr>)"

definition get_running_task :: "nat \<Rightarrow> sched \<Rightarrow> addr" where
  "get_running_task c s = tcb (cpus s ! c)"

definition get_running_task_id :: "nat \<Rightarrow> sched \<Rightarrow> task_id option" where
  "get_running_task_id c s = map_option tid (task_at s (get_running_task c s))"

definition running_process :: "nat \<Rightarrow> sched \<Rightarrow> (addr \<times> process) option" where
  "running_process c s = do {
     k \<leftarrow> task_at s (get_running_task c s);
     p \<leftarrow> process_at s (p_data k);
     Some (p_data k, p)
   }"

definition this_task_is_active :: "nat \<Rightarrow> sched \<Rightarrow> bool option" where
  "this_task_is_active c s = map_option (\<lambda>(_, p). pid p = active_process s) (running_process c s)"

section \<open>Switching\<close>

text \<open>The flag of a task, which exactly one of those that set it finds clear.\<close>

definition test_and_set_running :: "addr \<Rightarrow> sched \<Rightarrow> (bool \<times> sched) option" where
  "test_and_set_running t s = do {
     k \<leftarrow> task_at s t;
     let (was, now) = tas_aquire (running k);
     Some (was, set_task t (k\<lparr>running := now\<rparr>) s)
   }"

text \<open>From label \<open>load_new_task\<close> on. The registers on the new task's stack take 24 bytes with the return address.\<close>

definition load_new_task :: "nat \<Rightarrow> addr \<Rightarrow> sched \<Rightarrow> sched option" where
  "load_new_task c t s = do {
     k \<leftarrow> task_at s t;
     let cpu = cpus s ! c;
     let hi = tls_gdt_hi (regs k);
     let seg = (tls_data cpu)\<lparr>base_lo := tls_base_lo (regs k), base_mid := ucast hi, access := ucast (drop_bit 8 hi),
       granularity := ucast (drop_bit 16 hi), base_hi := ucast (drop_bit 24 hi)\<rparr>;
     Some (s\<lparr>cpus := (cpus s)[c := cpu\<lparr>tcb := t, tls_data := seg, r_esp := esp (regs k) + 24, tss_esp0 := esp0 (regs k),
       r_cr3 := cr3 (regs k)\<rparr>]\<rparr>)
   }"

definition switch_task_no_return :: "nat \<Rightarrow> addr \<Rightarrow> sched \<Rightarrow> sched option" where
  "switch_task_no_return c t s = load_new_task c t s"

definition switch_task :: "nat \<Rightarrow> addr \<Rightarrow> sched \<Rightarrow> sched option" where
  "switch_task c t s = do {
     let cpu = cpus s ! c;
     k \<leftarrow> task_at s (tcb cpu);
     let k = k\<lparr>regs := (regs k)\<lparr>esp := r_esp cpu - 24, cr3 := r_cr3 cpu\<rparr>, running := tas_release (running k)\<rparr>;
     load_new_task c t (set_task (tcb cpu) k s)
   }"

definition switch_to_task :: "nat \<Rightarrow> task_id \<Rightarrow> sched \<Rightarrow> sched option" where
  "switch_to_task c i s = do {
     t \<leftarrow> tasks s i;
     (was, s) \<leftarrow> test_and_set_running t s;
     if \<not> was then switch_task c t s else Some s
   }"

definition switch_to_active_task :: "nat \<Rightarrow> sched \<Rightarrow> sched option" where
  "switch_to_active_task c s = do {
     active \<leftarrow> this_task_is_active c s;
     if \<not> active then switch_to_task c (active_process s) s else Some s
   }"

definition run_next_task :: "nat \<Rightarrow> sched \<Rightarrow> sched option" where
  "run_next_task c s =
     (if runnable s = [] then None
      else
        let next = (active_process s + 1) mod of_nat (length (runnable s)) in
        switch_to_task c next (s\<lparr>active_process := next\<rparr>))"

text \<open>The first task of the list that is not running is taken.\<close>

fun take_first :: "nat \<Rightarrow> task_id option \<Rightarrow> addr list \<Rightarrow> sched \<Rightarrow> (addr option \<times> sched) option" where
  "take_first c skip [] s = Some (None, s)"
| "take_first c skip (t # ts) s = do {
     k \<leftarrow> task_at s t;
     if skip = Some (tid k) then take_first c skip ts s
     else do {
       (was, s) \<leftarrow> test_and_set_running t s;
       if \<not> was then Some (Some t, s) else take_first c skip ts s
     }
   }"

definition run_background_tasks :: "nat \<Rightarrow> sched \<Rightarrow> sched option" where
  "run_background_tasks c s = do {
     i \<leftarrow> get_running_task_id c s;
     (t, s) \<leftarrow> take_first c (Some i) (runnable s) s;
     case t of None \<Rightarrow> Some s | Some t \<Rightarrow> switch_task c t s
   }"

definition yield_to :: "nat \<Rightarrow> task_id \<Rightarrow> sched \<Rightarrow> sched option" where
  "yield_to c i s = do {
     is_active \<leftarrow> this_task_is_active c s;
     if tasks s i \<noteq> None \<and> is_active then switch_to_task c i s
     else if is_active then run_background_tasks c s
     else switch_to_active_task c s
   }"

section \<open>New tasks\<close>

definition add_cpu :: "addr \<Rightarrow> u32 \<Rightarrow> u32 \<Rightarrow> addr \<Rightarrow> cpu_state \<Rightarrow> sched \<Rightarrow> sched option" where
  "add_cpu init_process new_stack pdir new_task new_cpu s = do {
     let (new_pid, s) = generate_tid s;
     let k = \<lparr>regs = init_tcb_regs (new_stack + TASK_PAGE) pdir 0, running = 0, tid = new_pid, kernel_stack_top = new_stack,
       user_stack_top = 0, p_data = init_process\<rparr>;
     p \<leftarrow> process_at s init_process;
     Some ((set_task new_task k s)\<lparr>
       cpus := cpus s @ [new_cpu\<lparr>tcb := new_task, tls_data := data_segment 0xF2, cpu_data := data_segment 0x92\<rparr>],
       process_at := (process_at s)(init_process := Some (p\<lparr>p_tasks := p_tasks p @ [new_task]\<rparr>)),
       tasks := (tasks s)(new_pid \<mapsto> new_task)\<rparr>)
   }"

definition create_TSS :: "u32 \<Rightarrow> u32 \<Rightarrow> cpu_state \<Rightarrow> cpu_state" where
  "create_TSS tss_address stack cpu =
     cpu\<lparr>tss_stack_seg := 0x10, tss_esp0 := stack,
       tss_data := set_seg_base \<lparr>limit_lo = 104, base_lo = 0, base_mid = 0, access = 0x89, granularity = 0x40, base_hi = 0\<rparr> tss_address\<rparr>"

text \<open>What the new processor does until it halts; \<open>self\<close> is the address of its state, \<open>tss_addr\<close> that of its segment.\<close>

definition cpu_entry_point :: "nat \<Rightarrow> u32 \<Rightarrow> u32 \<Rightarrow> sched \<Rightarrow> sched option" where
  "cpu_entry_point c self tss_addr s =
     (if c < length (cpus s)
      then do {
        let t = tcb (cpus s ! c);
        k \<leftarrow> task_at s t;
        (was, s) \<leftarrow> test_and_set_running t s;
        let cpu = create_TSS tss_addr (esp0 (regs k)) (cpus s ! c);
        let cpu = cpu\<lparr>cpu_data := set_seg_base (cpu_data cpu) self, r_esp := esp0 (regs k)\<rparr>;
        Some (s\<lparr>cpus := (cpus s)[c := cpu], runnable := runnable s @ [t]\<rparr>)
      }
      else None)"

text \<open>The frame at the top of the kernel stack, which the first switch to the task pops, and the argument on its stack.\<close>

definition create_new_task ::
  "u32 \<Rightarrow> u32 \<Rightarrow> u32 \<Rightarrow> addr \<Rightarrow> u32 \<Rightarrow> addr \<Rightarrow> u32 \<Rightarrow> u32 \<Rightarrow> u32 \<Rightarrow> sched \<Rightarrow> sched option" where
  "create_new_task user_stack kernel_stack pdir new_task run_user_code parent execution_addr tls_ptr args_size s = do {
     p \<leftarrow> process_at s parent;
     let (i, s) = generate_tid s;
     let k = \<lparr>regs = init_tcb_regs (kernel_stack + TASK_PAGE) pdir tls_ptr, running = 0, tid = i, kernel_stack_top = kernel_stack,
       user_stack_top = user_stack, p_data = parent\<rparr>;
     let stack = (user_stack + TASK_PAGE) - (8 + args_size);
     Some ((set_task new_task k s)\<lparr>
       process_at := (process_at s)(parent := Some (p\<lparr>p_tasks := p_tasks p @ [new_task]\<rparr>)),
       stack_items := (stack_items s)(esp (regs k) := Some \<lparr>flags = 0x0200, eip = run_user_code, code_addr = execution_addr, stack_addr = stack\<rparr>),
       user_writes := user_writes s @ [(stack + 4, le_bytes 4 (unat i))],
       tasks := (tasks s)(i \<mapsto> new_task)\<rparr>)
   }"

definition spawn_thread :: "u32 \<Rightarrow> u32 \<Rightarrow> u32 \<Rightarrow> addr \<Rightarrow> u32 \<Rightarrow> nat \<Rightarrow> u32 \<Rightarrow> u32 \<Rightarrow> sched \<Rightarrow> (task_id \<times> sched) option" where
  "spawn_thread user_stack kernel_stack pdir new_task run_user_code c function_ptr tls_ptr s = do {
     (parent, p) \<leftarrow> running_process c s;
     s \<leftarrow> create_new_task user_stack kernel_stack pdir new_task run_user_code parent function_ptr tls_ptr 0 s;
     k \<leftarrow> task_at s new_task;
     Some (tid k, s\<lparr>runnable := runnable s @ [new_task]\<rparr>)
   }"

text \<open>
  The file is an argument: whether it has a directory path, and what loading it gives: its entry point and the segments
  of its objects, if it succeeds.
\<close>

definition spawn_process ::
  "u32 \<Rightarrow> u32 \<Rightarrow> addr \<Rightarrow> u32 \<Rightarrow> addr \<Rightarrow> u32 \<Rightarrow> (bool \<times> (u32 \<times> (u32 \<times> u32) list list) option) option \<Rightarrow>
    nat \<Rightarrow> byte list \<Rightarrow> u32 \<Rightarrow> sched \<Rightarrow>
    (task_id \<times> sched) option" where
  "spawn_process user_stack kernel_stack new_task run_user_code new_process space file_arg c args fl s =
     (case file_arg of
        None \<Rightarrow> Some (INVALID_TASK_ID, s)
      | Some (has_dir_path, loaded) \<Rightarrow> do {
          (_, parent) \<leftarrow> running_process c s;
          if \<not> has_dir_path then None
          else case loaded of
            None \<Rightarrow> Some (INVALID_TASK_ID, s\<lparr>mem_calls := mem_calls s @ [Destroy_memory_space space]\<rparr>)
          | Some (entry_point, objs) \<Rightarrow> do {
              let p = \<lparr>address_space = space, objects = objs, parent_pid = pid parent, pid = 0, p_tasks = []\<rparr>;
              let args_size = of_nat (length args);
              s \<leftarrow> create_new_task user_stack kernel_stack space new_task run_user_code new_process entry_point 0 (args_size + 4)
                (s\<lparr>process_at := (process_at s)(new_process \<mapsto> p)\<rparr>);
              k \<leftarrow> task_at s new_task;
              items \<leftarrow> stack_items s (esp (regs k));
              p \<leftarrow> process_at s new_process;
              let s = s\<lparr>user_writes := user_writes s @
                  [(stack_addr items + 8, le_bytes 4 (unat args_size)), (stack_addr items + 12, args)],
                process_at := (process_at s)(new_process \<mapsto> p\<lparr>pid := tid k\<rparr>),
                runnable := runnable s @ [new_task]\<rparr>;
              if fl AND 1 \<noteq> 0
              then do {
                active \<leftarrow> this_task_is_active c s;
                s \<leftarrow> switch_task c new_task (if active then s\<lparr>active_process := tid k\<rparr> else s);
                Some (tid k, s)
              }
              else Some (tid k, s)
            }
        })"

section \<open>Ending tasks\<close>

definition memmanager_free_pages_call :: "u32 \<Rightarrow> u32 \<Rightarrow> sched \<Rightarrow> sched" where
  "memmanager_free_pages_call a n s = s\<lparr>mem_calls := mem_calls s @ [Free_pages a n]\<rparr>"

text \<open>The task leaves the lists and the processor goes to its parent or to any task that is not running; when there is
  none, it keeps looking, which is a step that is not taken.\<close>

definition switch_task_post_terminate :: "nat \<Rightarrow> addr \<Rightarrow> sched \<Rightarrow> sched option" where
  "switch_task_post_terminate c t s = do {
     k \<leftarrow> task_at s t;
     p \<leftarrow> process_at s (p_data k);
     if t \<in> set (p_tasks p) \<and> t \<in> set (runnable s)
     then do {
       let s = s\<lparr>process_at := (process_at s)(p_data k \<mapsto> p\<lparr>p_tasks := remove1 t (p_tasks p)\<rparr>),
         runnable := remove1 t (runnable s),
         tasks := (tasks s)(tid k := None),
         active_process := (if active_process s = tid k then parent_pid p else active_process s)\<rparr>;
       (was, s) \<leftarrow> (case tasks s (parent_pid p) of None \<Rightarrow> Some (True, s) | Some u \<Rightarrow> test_and_set_running u s);
       if \<not> was then switch_task_no_return c (the (tasks s (parent_pid p))) s
       else do {
         (u, s) \<leftarrow> take_first c None (runnable s) s;
         (case u of None \<Rightarrow> None | Some u \<Rightarrow> switch_task_no_return c u s)
       }
     }
     else None
   }"

definition exit_thread :: "nat \<Rightarrow> sched \<Rightarrow> sched option" where
  "exit_thread c s = do {
     let t = get_running_task c s;
     k \<leftarrow> task_at s t;
     switch_task_post_terminate c t
       (memmanager_free_pages_call (kernel_stack_top k) 1 (memmanager_free_pages_call (user_stack_top k) 1 s))
   }"

definition end_last_task :: "nat \<Rightarrow> addr \<Rightarrow> sched \<Rightarrow> sched option" where
  "end_last_task c t s = do {
     k \<leftarrow> task_at s t;
     let s = memmanager_free_pages_call (kernel_stack_top k) 1 (memmanager_free_pages_call (user_stack_top k) 1 s);
     p \<leftarrow> process_at s (p_data k);
     switch_task_post_terminate c t (s\<lparr>mem_calls := mem_calls s @ [Destroy_memory_space (address_space p)]\<rparr>)
   }"

text \<open>Before the first switch: with other tasks in the process the processor leaves for the first of them, whether it
  runs or not.\<close>

definition exit_process_join :: "nat \<Rightarrow> sched \<Rightarrow> sched option" where
  "exit_process_join c s = do {
     (_, p) \<leftarrow> running_process c s;
     if length (p_tasks p) \<noteq> 1
     then do {
       t \<leftarrow> List.find (\<lambda>t. t \<noteq> get_running_task c s) (p_tasks p);
       switch_task c t s
     }
     else Some s
   }"

text \<open>When the task goes on, its process is deleted whatever tasks it has.\<close>

definition exit_process_end :: "nat \<Rightarrow> sched \<Rightarrow> sched option" where
  "exit_process_end c s = do {
     (a, p) \<leftarrow> running_process c s;
     let s = foldl (\<lambda>s (ptr, n). memmanager_free_pages_call ptr n s) s (concat (objects p));
     t \<leftarrow> (case p_tasks p of [] \<Rightarrow> None | t # _ \<Rightarrow> Some t);
     end_last_task c t (s\<lparr>process_at := (process_at s)(a := None)\<rparr>)
   }"

definition set_tls_addr :: "nat \<Rightarrow> u32 \<Rightarrow> sched \<Rightarrow> sched option" where
  "set_tls_addr c tls_ptr s = do {
     let cpu = cpus s ! c;
     k \<leftarrow> task_at s (tcb cpu);
     let k = k\<lparr>regs := (regs k)\<lparr>tls_gdt_hi := tls_hi tls_ptr, tls_base_lo := ucast (tls_ptr AND 0xFFFF)\<rparr>\<rparr>;
     Some ((set_task (tcb cpu) k s)\<lparr>cpus := (cpus s)[c := cpu\<lparr>tls_data := set_seg_base (tls_data cpu) tls_ptr\<rparr>]\<rparr>)
   }"

definition setup_first_task :: "addr \<Rightarrow> addr \<Rightarrow> u32 \<Rightarrow> u32 \<Rightarrow> cpu_state \<Rightarrow> sched \<Rightarrow> sched option" where
  "setup_first_task init_task init_process init_stack pdir boot_cpu s = do {
     k \<leftarrow> task_at s init_task;
     p \<leftarrow> process_at s init_process;
     let top = init_stack + TASK_PAGE;
     let k = k\<lparr>kernel_stack_top := top, regs := (regs k)\<lparr>esp0 := top, esp := top - 36, cr3 := pdir\<rparr>, running := snd (tas_aquire (running k))\<rparr>;
     Some ((set_task init_task k s)\<lparr>cpus := cpus s @ [boot_cpu],
       process_at := (process_at s)(init_process \<mapsto> p\<lparr>p_tasks := p_tasks p @ [init_task]\<rparr>),
       tasks := (tasks s)(tid k \<mapsto> init_task),
       runnable := runnable s @ [init_task]\<rparr>)
   }"

definition setup_boot_cpu :: "u32 \<Rightarrow> u32 \<Rightarrow> u32 \<Rightarrow> cpu_state \<Rightarrow> cpu_state" where
  "setup_boot_cpu init_stack self tss_address cpu =
     (let cpu = create_TSS tss_address (init_stack + TASK_PAGE) cpu in cpu\<lparr>cpu_data := set_seg_base (cpu_data cpu) self\<rparr>)"

end
