(* ===== verification/TasksCorrect.thy ===== *)
theory TasksCorrect
  imports Tasks
begin

text \<open>
  The scheduler: no task is current on two processors as long as tasks are switched to by way of their flag, what the
  two switches without it lead to, and the registers that a switch keeps.
\<close>

unbundle bit_operations_syntax

section \<open>Who runs where\<close>

definition current :: "sched \<Rightarrow> addr list" where
  "current s = map tcb (cpus s)"

definition run :: "sched \<Rightarrow> addr \<Rightarrow> bool" where
  "run s t \<longleftrightarrow> (case task_at s t of None \<Rightarrow> False | Some k \<Rightarrow> running k \<noteq> 0)"

text \<open>Every processor has a task of its own, whose flag is set.\<close>

definition sched_inv :: "sched \<Rightarrow> bool" where
  "sched_inv s \<longleftrightarrow> distinct (current s) \<and> (\<forall>t\<in>set (current s). run s t)"

lemma run_set_task [simp]: "run (set_task t k s) u \<longleftrightarrow> (if u = t then running k \<noteq> 0 else run s u)"
  by (simp add: run_def set_task_def)

lemma set_task_keeps [simp]:
  "cpus (set_task t k s) = cpus s" "tasks (set_task t k s) = tasks s" "runnable (set_task t k s) = runnable s"
  "process_at (set_task t k s) = process_at s"
  by (simp_all add: set_task_def)

lemma current_set_task [simp]: "current (set_task t k s) = current s"
  by (simp add: current_def)

lemma run_cong: "task_at s' = task_at s \<Longrightarrow> run s' = run s"
  by (rule ext) (simp add: run_def)

lemma sched_inv_cong: "task_at s' = task_at s \<Longrightarrow> cpus s' = cpus s \<Longrightarrow> sched_inv s' = sched_inv s"
  using run_cong [of s' s] by (simp add: sched_inv_def current_def)

text \<open>Setting a flag: nothing else changes, and the one who sets it knows.\<close>

lemma test_and_set_effect:
  assumes "test_and_set_running t s = Some (was, s')"
  shows "was = run s t" and "run s' = (run s)(t := True)" and "cpus s' = cpus s" and "tasks s' = tasks s"
    and "runnable s' = runnable s" and "process_at s' = process_at s"
    and "\<exists>k k'. task_at s t = Some k \<and> task_at s' = (task_at s)(t := Some k') \<and> regs k' = regs k"
  using assms
  by (auto simp: test_and_set_running_def tas_aquire_def run_def set_task_def fun_eq_iff Let_def split: bind_splits if_splits)

lemma load_new_task_effect:
  assumes "load_new_task c t s = Some s'" and "c < length (cpus s)"
  shows "current s' = (current s)[c := t]" and "run s' = run s" and "length (cpus s') = length (cpus s)"
  using assms by (auto simp: load_new_task_def current_def map_update Let_def run_def split: bind_splits)

lemma switch_task_effect:
  assumes "switch_task c t s = Some s'" and "c < length (cpus s)"
  shows "current s' = (current s)[c := t]" and "run s' = (run s)(current s ! c := False)" and "length (cpus s') = length (cpus s)"
proof -
  from assms(1) obtain k where k: "task_at s (tcb (cpus s ! c)) = Some k"
    and l: "load_new_task c t (set_task (tcb (cpus s ! c))
      (k\<lparr>regs := (regs k)\<lparr>esp := r_esp (cpus s ! c) - 24, cr3 := r_cr3 (cpus s ! c)\<rparr>, running := tas_release (running k)\<rparr>) s) = Some s'"
    by (auto simp: switch_task_def Let_def split: bind_splits)
  from load_new_task_effect [OF l] assms(2)
  show "current s' = (current s)[c := t]" "run s' = (run s)(current s ! c := False)" "length (cpus s') = length (cpus s)"
    by (simp_all add: fun_eq_iff current_def tas_release_def)
qed

lemma take_first_effect:
  "take_first c skip ts s = Some (r, s') \<Longrightarrow> cpus s' = cpus s \<and>
    (case r of None \<Rightarrow> run s' = run s | Some t \<Rightarrow> \<not> run s t \<and> run s' = (run s)(t := True))"
proof (induction ts arbitrary: s)
  case (Cons t ts)
  then obtain k where k: "task_at s t = Some k" by (auto split: bind_splits)
  show ?case
  proof (cases "skip = Some (tid k)")
    case True
    with Cons k show ?thesis by auto
  next
    case False
    with Cons.prems k obtain was s1 where s1: "test_and_set_running t s = Some (was, s1)"
      and rest: "(if \<not> was then Some (Some t, s1) else take_first c skip ts s1) = Some (r, s')"
      by (auto split: bind_splits)
    note e = test_and_set_effect [OF s1]
    show ?thesis
    proof (cases was)
      case True
      then have "run s1 = run s" using e(1,2) by (auto simp: fun_eq_iff)
      with Cons.IH [of s1] rest True e(3) show ?thesis by (auto split: option.splits)
    next
      case False
      then show ?thesis using rest e by auto
    qed
  qed
qed simp

text \<open>Leaving for a task whose flag was clear and has been set, with or without giving up the present one.\<close>

lemma inv_switch:
  assumes "sched_inv s" and "\<not> run s t" and "run s1 = (run s)(t := True)" and "cpus s1 = cpus s" and "c < length (cpus s)"
    and "switch_task c t s1 = Some s'"
  shows "sched_inv s' \<and> length (cpus s') = length (cpus s)"
proof -
  have cur: "current s1 = current s" using assms(4) by (simp add: current_def)
  have t: "t \<notin> set (current s)" and d: "distinct (current s)" using assms(1,2) by (auto simp: sched_inv_def)
  have c4: "c < length (cpus s1)" using assms(4,5) by simp
  note e = switch_task_effect [OF assms(6) c4]
  have c: "c < length (current s)" using assms(5) by (simp add: current_def)
  have r: "run s' = ((run s)(t := True))(current s ! c := False)" using e(2) assms(3-5) cur by simp
  have "t \<noteq> current s ! c" using t nth_mem [OF c] by auto
  then have "run s' t" by (simp add: r)
  have "run s' u" if u: "u \<in> set ((current s)[c := t])" for u
  proof (cases "u = t")
    case True
    then show ?thesis using \<open>run s' t\<close> by simp
  next
    case False
    obtain i where i: "i < length (current s)" "u = (current s)[c := t] ! i" using u unfolding in_set_conv_nth by auto
    then have "i \<noteq> c" "u = current s ! i" using False c by (auto simp: nth_list_update split: if_splits)
    then have "u \<noteq> current s ! c" "u \<in> set (current s)" using d c i(1) by (simp_all add: nth_eq_iff_index_eq)
    then show ?thesis using assms(1) False by (simp add: r sched_inv_def)
  qed
  moreover have "distinct ((current s)[c := t])" using d t by (simp add: distinct_list_update)
  ultimately have "sched_inv s'" unfolding sched_inv_def e(1) cur by blast
  then show ?thesis using e(3) assms(4,5) by simp
qed

lemma inv_load:
  assumes "sched_inv s" and "\<not> run s t" and "run s1 = (run s)(t := True)" and "cpus s1 = cpus s" and "c < length (cpus s)"
    and "load_new_task c t s1 = Some s'"
  shows "sched_inv s' \<and> length (cpus s') = length (cpus s)"
proof -
  have cur: "current s1 = current s" using assms(4) by (simp add: current_def)
  have t: "t \<notin> set (current s)" and d: "distinct (current s)" using assms(1,2) by (auto simp: sched_inv_def)
  note e = load_new_task_effect [OF assms(6)]
  have "distinct ((current s)[c := t])" using d t by (simp add: distinct_list_update)
  moreover have "\<forall>u\<in>set ((current s)[c := t]). ((run s)(t := True)) u"
    using assms(1) set_update_subset_insert [of "current s" c t] by (auto simp: sched_inv_def)
  ultimately show ?thesis using e assms(3-5) cur by (simp add: sched_inv_def)
qed

lemma inv_switch_to_task:
  assumes "switch_to_task c i s = Some s'" and "sched_inv s" and "c < length (cpus s)"
  shows "sched_inv s' \<and> length (cpus s') = length (cpus s)"
proof -
  from assms(1) obtain t was s1 where s1: "test_and_set_running t s = Some (was, s1)"
    and sw: "(if \<not> was then switch_task c t s1 else Some s1) = Some s'"
    by (auto simp: switch_to_task_def split: bind_splits)
  note e = test_and_set_effect [OF s1]
  show ?thesis
  proof (cases was)
    case True
    then have "run s1 = run s" using e(1,2) by (auto simp: fun_eq_iff)
    then show ?thesis using True sw e(3) assms(2) by (simp add: sched_inv_def current_def)
  next
    case False
    then show ?thesis using inv_switch [OF assms(2) _ e(2,3) assms(3)] sw e(1) by simp
  qed
qed

lemma inv_run_background:
  assumes "run_background_tasks c s = Some s'" and "sched_inv s" and "c < length (cpus s)"
  shows "sched_inv s' \<and> length (cpus s') = length (cpus s)"
proof -
  from assms(1) obtain i r s1 where t: "take_first c (Some i) (runnable s) s = Some (r, s1)"
    and sw: "(case r of None \<Rightarrow> Some s1 | Some t \<Rightarrow> switch_task c t s1) = Some s'"
    by (auto simp: run_background_tasks_def split: bind_splits)
  note e = take_first_effect [OF t]
  show ?thesis
  proof (cases r)
    case None
    then show ?thesis using sw e assms(2) by (simp add: sched_inv_def current_def)
  next
    case (Some t)
    then show ?thesis using inv_switch [OF assms(2), of t s1 c s'] sw e assms(3) by simp
  qed
qed

lemma inv_switch_to_active:
  assumes "switch_to_active_task c s = Some s'" and "sched_inv s" and "c < length (cpus s)"
  shows "sched_inv s' \<and> length (cpus s') = length (cpus s)"
  using assms inv_switch_to_task [of c "active_process s" s s']
  by (auto simp: switch_to_active_task_def split: bind_splits if_splits)

lemma inv_run_next:
  assumes "run_next_task c s = Some s'" and "sched_inv s" and "c < length (cpus s)"
  shows "sched_inv s' \<and> length (cpus s') = length (cpus s)"
proof -
  let ?n = "(active_process s + 1) mod of_nat (length (runnable s))"
  have "sched_inv (s\<lparr>active_process := ?n\<rparr>)" using assms(2) by (subst sched_inv_cong [of _ s]) simp_all
  moreover have "switch_to_task c ?n (s\<lparr>active_process := ?n\<rparr>) = Some s'"
    using assms(1) by (simp add: run_next_task_def Let_def split: if_splits)
  ultimately show ?thesis using inv_switch_to_task assms(3) by fastforce
qed

lemma inv_yield:
  assumes "yield_to c i s = Some s'" and "sched_inv s" and "c < length (cpus s)"
  shows "sched_inv s' \<and> length (cpus s') = length (cpus s)"
  using assms inv_switch_to_task [of c i s s'] inv_run_background [of c s s'] inv_switch_to_active [of c s s']
  by (auto simp: yield_to_def split: bind_splits if_splits)

lemma new_task_effect:
  assumes "create_new_task us ks pd t ruc p ea tls n s = Some s'"
  shows "cpus s' = cpus s" and "run s' = (run s)(t := False)"
  using assms by (auto simp: create_new_task_def generate_tid_def Let_def run_def set_task_def fun_eq_iff split: bind_splits)

lemma inv_new_task:
  assumes "sched_inv s" and "cpus s' = cpus s" and "run s' = (run s)(t := False)" and "task_at s t = None"
  shows "sched_inv s'"
  using assms by (auto simp: sched_inv_def current_def run_def)

lemma inv_spawn_thread:
  assumes "spawn_thread us ks pd t ruc c f tls s = Some (i, s')" and "sched_inv s" and "task_at s t = None"
  shows "sched_inv s' \<and> length (cpus s') = length (cpus s)"
proof -
  from assms(1) obtain p s1 where s1: "create_new_task us ks pd t ruc p f tls 0 s = Some s1" and s': "s' = s1\<lparr>runnable := runnable s1 @ [t]\<rparr>"
    by (auto simp: spawn_thread_def split: bind_splits)
  note e = new_task_effect [OF s1]
  have "sched_inv s1" using inv_new_task [OF assms(2) e assms(3)] .
  then show ?thesis using e(1) sched_inv_cong [of s' s1] by (simp add: s')
qed


lemma inv_spawn_process:
  assumes "spawn_process us ks t ruc p space fa c args fl s = Some (i, s')" and "fl AND 1 = 0" and "sched_inv s" and "task_at s t = None"
  shows "sched_inv s' \<and> length (cpus s') = length (cpus s)"
proof -
  have eq: "sched_inv s' \<and> length (cpus s') = length (cpus s)" if "cpus s' = cpus s" "task_at s' = task_at s"
    using that assms(3) sched_inv_cong [of s' s] by simp
  show ?thesis
  proof (cases fa)
    case None
    then show ?thesis using assms(1) eq by (simp add: spawn_process_def)
  next
    case (Some f)
    obtain h l where f: "f = (h, l)" by fastforce
    from assms(1) Some f obtain a b where b: "running_process c s = Some (a, b)" and h: "h"
      by (auto simp: spawn_process_def split: bind_splits if_splits)
    show ?thesis
    proof (cases l)
      case None
      then show ?thesis using assms(1) Some f b h eq by (auto simp: spawn_process_def)
    next
      case (Some e)
      obtain x objs where e: "e = (x, objs)" by fastforce
      let ?sa = "s\<lparr>process_at := (process_at s)(p \<mapsto>
          \<lparr>address_space = space, objects = objs, parent_pid = pid b, pid = 0, p_tasks = []\<rparr>)\<rparr>"
      from assms(1,2) \<open>fa = Some f\<close> f b h Some e obtain s1 where
        s1: "create_new_task us ks space t ruc p x 0 (of_nat (length args) + 4) ?sa = Some s1"
        and s': "cpus s' = cpus s1 \<and> task_at s' = task_at s1"
        by (auto simp: spawn_process_def Let_def split: bind_splits)
      note c = new_task_effect [OF s1]
      have "run ?sa = run s" by (rule run_cong) simp
      then have "sched_inv s1" using inv_new_task [OF assms(3) _ _ assms(4), of s1] c by simp
      then show ?thesis using c(1) s' sched_inv_cong [of s' s1] by simp
    qed
  qed
qed

lemma inv_exit:
  assumes "switch_task_post_terminate c t s = Some s'" and "sched_inv s" and "c < length (cpus s)"
  shows "sched_inv s' \<and> length (cpus s') = length (cpus s)"
proof -
  from assms(1) obtain k p where k: "task_at s t = Some k" and p: "process_at s (p_data k) = Some p"
    and mem: "t \<in> set (p_tasks p) \<and> t \<in> set (runnable s)"
    by (auto simp: switch_task_post_terminate_def split: bind_splits if_splits)
  define s0 where "s0 = s\<lparr>process_at := (process_at s)(p_data k \<mapsto> p\<lparr>p_tasks := remove1 t (p_tasks p)\<rparr>),
         runnable := remove1 t (runnable s),
         tasks := (tasks s)(tid k := None),
         active_process := (if active_process s = tid k then parent_pid p else active_process s)\<rparr>"
  let ?u = "tasks s0 (parent_pid p)"
  have "Option.bind (case ?u of None \<Rightarrow> Some (True, s0) | Some u \<Rightarrow> test_and_set_running u s0) (\<lambda>(was, s1).
      if \<not> was then switch_task_no_return c (the (tasks s1 (parent_pid p))) s1
      else Option.bind (take_first c None (runnable s1) s1) (\<lambda>(u, s2).
        case u of None \<Rightarrow> None | Some u \<Rightarrow> switch_task_no_return c u s2)) = Some s'"
    using assms(1) unfolding s0_def by (simp only: switch_task_post_terminate_def k p mem bind.bind_lunit Let_def if_True simp_thms)
  then obtain was s1 where s1: "(case ?u of None \<Rightarrow> Some (True, s0) | Some u \<Rightarrow> test_and_set_running u s0) = Some (was, s1)"
    and rest: "(if \<not> was then switch_task_no_return c (the (tasks s1 (parent_pid p))) s1
      else Option.bind (take_first c None (runnable s1) s1) (\<lambda>(u, s2).
        case u of None \<Rightarrow> None | Some u \<Rightarrow> switch_task_no_return c u s2)) = Some s'"
    by (auto split: bind_splits)
  have s0: "cpus s0 = cpus s" "task_at s0 = task_at s" by (simp_all add: s0_def)
  have inv0: "sched_inv s0" using sched_inv_cong [OF s0(2,1)] assms(2) by simp
  show ?thesis
  proof (cases was)
    case True
    have "run s1 = run s0 \<and> cpus s1 = cpus s0"
      using s1 True test_and_set_effect(1-3) by (cases ?u) (fastforce simp: fun_eq_iff)+
    then have inv1: "sched_inv s1" "length (cpus s1) = length (cpus s)" using inv0 s0(1) by (simp_all add: sched_inv_def current_def)
    from rest True obtain v s2 where "take_first c None (runnable s1) s1 = Some (Some v, s2)" and l: "load_new_task c v s2 = Some s'"
      by (auto simp: switch_task_no_return_def split: bind_splits option.splits)
    then have "\<not> run s1 v" "run s2 = (run s1)(v := True)" "cpus s2 = cpus s1" using take_first_effect by fastforce+
    from inv_load [OF inv1(1) this _ l] inv1(2) assms(3) show ?thesis by simp
  next
    case False
    with s1 obtain v where v: "?u = Some v" "test_and_set_running v s0 = Some (was, s1)" by (auto split: option.splits)
    note e = test_and_set_effect [OF v(2)]
    have l: "load_new_task c v s1 = Some s'" using rest False v(1) e(4) by (simp add: switch_task_no_return_def)
    show ?thesis using inv_load [OF inv0 _ e(2,3) _ l] e(1) False s0(1) assms(3) by simp
  qed
qed

lemma inv_exit_thread:
  assumes "exit_thread c s = Some s'" and "sched_inv s" and "c < length (cpus s)"
  shows "sched_inv s' \<and> length (cpus s') = length (cpus s)"
proof -
  from assms(1) obtain a b where "switch_task_post_terminate c (get_running_task c s)
      (memmanager_free_pages_call a 1 (memmanager_free_pages_call b 1 s)) = Some s'"
    by (auto simp: exit_thread_def Let_def split: bind_splits)
  from inv_exit [OF this] sched_inv_cong [of "memmanager_free_pages_call a 1 (memmanager_free_pages_call b 1 s)" s] assms(2,3)
  show ?thesis by (simp add: memmanager_free_pages_call_def)
qed

section \<open>One task, one processor\<close>

text \<open>What a processor can do to the scheduler, except to wait for the process it starts, and to exit a process.\<close>

inductive sched_step :: "sched \<Rightarrow> sched \<Rightarrow> bool" where
  "c < length (cpus s) \<Longrightarrow> switch_to_task c i s = Some s' \<Longrightarrow> sched_step s s'"
| "c < length (cpus s) \<Longrightarrow> switch_to_active_task c s = Some s' \<Longrightarrow> sched_step s s'"
| "c < length (cpus s) \<Longrightarrow> run_next_task c s = Some s' \<Longrightarrow> sched_step s s'"
| "c < length (cpus s) \<Longrightarrow> run_background_tasks c s = Some s' \<Longrightarrow> sched_step s s'"
| "c < length (cpus s) \<Longrightarrow> yield_to c i s = Some s' \<Longrightarrow> sched_step s s'"
| "c < length (cpus s) \<Longrightarrow> task_at s t = None \<Longrightarrow> spawn_thread us ks pd t ruc c f tls s = Some (i, s') \<Longrightarrow> sched_step s s'"
| "c < length (cpus s) \<Longrightarrow> task_at s t = None \<Longrightarrow> fl AND 1 = 0 \<Longrightarrow>
    spawn_process us ks t ruc p space fa c args fl s = Some (i, s') \<Longrightarrow> sched_step s s'"
| "c < length (cpus s) \<Longrightarrow> exit_thread c s = Some s' \<Longrightarrow> sched_step s s'"

inductive sched_reachable :: "sched \<Rightarrow> sched \<Rightarrow> bool" for s where
  "sched_reachable s s"
| "sched_reachable s s1 \<Longrightarrow> sched_step s1 s2 \<Longrightarrow> sched_reachable s s2"

lemma inv_step: "sched_step s s' \<Longrightarrow> sched_inv s \<Longrightarrow> sched_inv s'"
  by (induction rule: sched_step.induct)
    (blast dest: inv_switch_to_task inv_switch_to_active inv_run_next inv_run_background inv_yield inv_spawn_thread inv_spawn_process inv_exit_thread)+

lemma inv_reachable: "sched_reachable s s' \<Longrightarrow> sched_inv s \<Longrightarrow> sched_inv s'"
  by (induction rule: sched_reachable.induct) (auto intro: inv_step)



text \<open>Two processors with the first two tasks.\<close>

definition sample_task :: "task_id \<Rightarrow> task" where
  "sample_task i = \<lparr>regs = init_tcb_regs (4096 * (i + 16)) 0 0, running = 1, tid = i, kernel_stack_top = 0, user_stack_top = 0, p_data = 8\<rparr>"

definition sample_cpu :: "addr \<Rightarrow> cpu_state" where
  "sample_cpu t = \<lparr>tss_esp0 = 0, tss_stack_seg = 16, tls_data = data_segment 0xF2, cpu_data = data_segment 0x92,
    tss_data = data_segment 0, tcb = t, r_esp = 5000, r_cr3 = 0\<rparr>"

definition sample_sched :: sched where
  "sample_sched = \<lparr>task_at = [100 \<mapsto> sample_task 0, 200 \<mapsto> sample_task 1],
    process_at = [8 \<mapsto> \<lparr>address_space = 0, objects = [], parent_pid = INVALID_TASK_ID, pid = 0, p_tasks = [100, 200]\<rparr>],
    cpus = [sample_cpu 100, sample_cpu 200], tasks = [0 \<mapsto> 100, 1 \<mapsto> 200], runnable = [100, 200], active_process = 0,
    last_id = 2, stack_items = (\<lambda>_. None), user_writes = [], mem_calls = []\<rparr>"

lemma sample_inv: "sched_inv sample_sched"
  by (simp add: sched_inv_def current_def run_def sample_sched_def sample_cpu_def sample_task_def)


section \<open>Waiting for a process\<close>

text \<open>C31: a task that starts a process and waits for it switches to the new task without setting its flag: any other
  processor that switches to the task (by its number or as a background task) then runs it as well, on the same
  stack.\<close>

theorem wait_runs_twice:
  assumes "spawn_process us ks t ruc p space (Some (True, Some (entry_point, objs))) c args 1 s = Some (i, s1)"
    and "c < length (cpus s)" and "d < length (cpus s)" and "c \<noteq> d" and "get_running_task d s \<noteq> t" and "get_running_task c s \<noteq> t"
    and "task_at s (get_running_task d s) \<noteq> None"
  shows "\<exists>s2. switch_to_task d i s1 = Some s2 \<and> get_running_task c s2 = t \<and> get_running_task d s2 = t"
proof -
  obtain s0 k where sw: "switch_task c t s0 = Some s1" and s0: "cpus s0 = cpus s" "tasks s0 i = Some t"
    and k: "task_at s0 t = Some k" "running k = 0" and others: "\<forall>u. u \<noteq> t \<longrightarrow> task_at s0 u = task_at s u"
    using assms(1)
    by (auto simp: spawn_process_def create_new_task_def generate_tid_def set_task_def Let_def split: bind_splits)
  from sw obtain kc where kc: "task_at s0 (tcb (cpus s0 ! c)) = Some kc"
    and l: "load_new_task c t (set_task (tcb (cpus s0 ! c))
      (kc\<lparr>regs := (regs kc)\<lparr>esp := r_esp (cpus s0 ! c) - 24, cr3 := r_cr3 (cpus s0 ! c)\<rparr>, running := tas_release (running kc)\<rparr>) s0) = Some s1"
    by (auto simp: switch_task_def Let_def split: bind_splits)
  have tc: "tcb (cpus s0 ! c) \<noteq> t" "tcb (cpus s0 ! d) \<noteq> t" using assms(5,6) s0(1) by (simp_all add: get_running_task_def)
  note e = load_new_task_effect [OF l]
  have t1: "task_at s1 t = Some k" "tasks s1 i = Some t" "cpus s1 ! d = cpus s0 ! d" "tcb (cpus s1 ! c) = t"
    using l k(1) tc s0 assms(2,4) by (auto simp: load_new_task_def set_task_def Let_def split: bind_splits)
  have len: "length (cpus s1) = length (cpus s)" using e(3) s0(1) assms(2) by simp
  have d1: "task_at s1 (tcb (cpus s1 ! d)) \<noteq> None"
    using l t1(3) tc assms(7) others s0(1) by (auto simp: load_new_task_def set_task_def get_running_task_def Let_def split: bind_splits)
  then show ?thesis
    using t1 k(2) tc len assms(2-4)
    by (auto simp: switch_to_task_def test_and_set_running_def tas_aquire_def switch_task_def load_new_task_def set_task_def Let_def get_running_task_def)
qed

theorem wait_runs_twice_witness:
  "\<exists>i s1 s2. spawn_process 0x10000 0x20000 300 7 9 5 (Some (True, Some (64, []))) 0 [] 1 sample_sched = Some (i, s1) \<and>
    switch_to_task 1 i s1 = Some s2 \<and> get_running_task 0 s2 = get_running_task 1 s2"
proof -
  have "\<exists>i s1. spawn_process 0x10000 0x20000 300 7 9 5 (Some (True, Some (64, []))) 0 [] 1 sample_sched = Some (i, s1)"
    by (simp add: spawn_process_def running_process_def get_running_task_def sample_sched_def sample_cpu_def sample_task_def
        create_new_task_def generate_tid_def set_task_def Let_def this_task_is_active_def switch_task_def load_new_task_def)
  then obtain i s1 where s: "spawn_process 0x10000 0x20000 300 7 9 5 (Some (True, Some (64, []))) 0 [] 1 sample_sched = Some (i, s1)" by blast
  from wait_runs_twice [OF s, of 1] show ?thesis
    using s by (auto simp: sample_sched_def sample_cpu_def get_running_task_def)
qed

section \<open>Segment bases\<close>

lemma segment_masks: "(0xFF000000 :: u32) = push_bit 24 (mask 8)" "(0xFF :: u32) = mask 8" "(0xFFFF :: u32) = mask 16"
  by (simp_all add: mask_eq_exp_minus_1 push_bit_eq_mult take_bit_eq_mod)

lemma bit_seg_base:
  "bit (get_seg_base e) n \<longleftrightarrow> n < 32 \<and>
    (if n < 16 then bit (base_lo e) n else if n < 24 then bit (base_mid e) (n - 16) else bit (base_hi e) (n - 24))"
  by (auto simp: get_seg_base_def bit_simps dest: bit_imp_le_length)

lemma access_bits: "bit (0x00CFF200 :: u32) n \<Longrightarrow> 8 \<le> n \<and> n < 24"
proof -
  assume b: "bit (0x00CFF200 :: u32) n"
  have "take_bit 8 (0x00CFF200 :: u32) = 0" "take_bit 24 (0x00CFF200 :: u32) = 0x00CFF200" by (simp_all add: take_bit_eq_mod)
  then show ?thesis using b by (metis bit_0_eq bit_take_bit_iff bot_apply bot_bool_def not_le)
qed

lemma bit_tls_hi: "n < 8 \<Longrightarrow> bit (tls_hi v) n \<longleftrightarrow> bit v (n + 16)" "24 \<le> n \<Longrightarrow> n < 32 \<Longrightarrow> bit (tls_hi v) n \<longleftrightarrow> bit v n"
  using access_bits [of n] by (auto simp: tls_hi_def segment_masks bit_simps add.commute)

lemma seg_base_set: "get_seg_base (set_seg_base e v) = v"
  by (rule bit_word_eqI) (auto simp: bit_seg_base set_seg_base_def segment_masks bit_simps)

lemma seg_base_tls:
  "get_seg_base (e\<lparr>base_lo := ucast (v AND 0xFFFF), base_mid := ucast (tls_hi v), access := a, granularity := g,
    base_hi := ucast (drop_bit 24 (tls_hi v))\<rparr>) = v"
  by (rule bit_word_eqI) (auto simp: bit_seg_base segment_masks(3) bit_simps bit_tls_hi)

text \<open>C32: a task that was switched away from, and is later loaded by any processor while its saved registers are
  untouched, goes on with the stack pointer and the page directory it had, and with the base of its thread-local
  storage.\<close>

theorem switch_resumes:
  assumes "switch_task c t s = Some s1" and "get_running_task c s \<noteq> t" and "c < length (cpus s)"
    and "task_at s (get_running_task c s) = Some k" and "tls_gdt_hi (regs k) = tls_hi v" and "tls_base_lo (regs k) = ucast (v AND 0xFFFF)"
    and "map_option regs (task_at s2 (get_running_task c s)) = map_option regs (task_at s1 (get_running_task c s))" and "d < length (cpus s2)"
  shows "\<exists>s3. load_new_task d (get_running_task c s) s2 = Some s3 \<and> get_running_task d s3 = get_running_task c s \<and>
    r_esp (cpus s3 ! d) = r_esp (cpus s ! c) \<and> r_cr3 (cpus s3 ! d) = r_cr3 (cpus s ! c) \<and>
    get_seg_base (tls_data (cpus s3 ! d)) = v"
proof -
  let ?prev = "get_running_task c s"
  have "map_option regs (task_at s1 ?prev) = Some ((regs k)\<lparr>esp := r_esp (cpus s ! c) - 24, cr3 := r_cr3 (cpus s ! c)\<rparr>)"
    using assms(1,4) by (auto simp: switch_task_def load_new_task_def set_task_def Let_def get_running_task_def split: bind_splits)
  then obtain k2 where "task_at s2 ?prev = Some k2" "regs k2 = (regs k)\<lparr>esp := r_esp (cpus s ! c) - 24, cr3 := r_cr3 (cpus s ! c)\<rparr>"
    using assms(7) by auto
  then show ?thesis using assms(5,6,8)
    by (auto simp: load_new_task_def get_running_task_def Let_def seg_base_tls)
qed

theorem switch_resumes_witness:
  "\<exists>s1 s3. switch_task 0 300 (set_task 300 (sample_task 7) sample_sched) = Some s1 \<and> load_new_task 1 100 s1 = Some s3 \<and>
    r_esp (cpus s3 ! 1) = r_esp (cpus sample_sched ! 0)"
proof -
  let ?s = "set_task 300 (sample_task 7) sample_sched"
  have "\<exists>s1. switch_task 0 300 ?s = Some s1 \<and> length (cpus s1) = 2"
    by (simp add: switch_task_def load_new_task_def set_task_def sample_sched_def sample_cpu_def Let_def)
  then obtain s1 where s1: "switch_task 0 300 ?s = Some s1" "length (cpus s1) = 2" by blast
  from switch_resumes [OF s1(1), of "sample_task 0" 0 s1 1] s1 show ?thesis
    by (auto simp: get_running_task_def set_task_def sample_sched_def sample_cpu_def sample_task_def init_tcb_regs_def tls_hi_def)
qed

text \<open>The number of the next task is an index of the list: without a task of that number the assertion fails.\<close>

lemma run_next_task_fails:
  assumes "tasks s ((active_process s + 1) mod of_nat (length (runnable s))) = None"
  shows "run_next_task c s = None"
  using assms by (simp add: run_next_task_def switch_to_task_def Let_def)

text \<open>The process is deleted before its address space is read: the last step of \<open>exit_process\<close> uses freed memory.\<close>

lemma freed_calls: "process_at (foldl (\<lambda>s (ptr, n). memmanager_free_pages_call ptr n s) s xs) = process_at s"
  "task_at (foldl (\<lambda>s (ptr, n). memmanager_free_pages_call ptr n s) s xs) = task_at s"
  by (induction xs arbitrary: s) (auto simp: memmanager_free_pages_call_def)

lemma exit_process_end_freed:
  assumes "running_process c s = Some (a, p)" and "p_tasks p = t # ts" and "task_at s t = Some k" and "p_data k = a"
  shows "exit_process_end c s = None"
  using assms by (simp add: exit_process_end_def end_last_task_def memmanager_free_pages_call_def [of _ _ "_\<lparr>process_at := _\<rparr>"] freed_calls Let_def)
    (simp add: memmanager_free_pages_call_def)

end
