(* ===== verification/SharedMem.thy ===== *)
theory SharedMem
  imports PagingCorrect PhysMemCorrect HashMap CLibCorrect
begin

text \<open>
  Shared memory (\<open>kernel/shared_mem.cpp\<close>): buffers of physical memory under a name, counted references to them, and
  their mapping into the memory of a task. A handle is the address of the buffer's record; one that points to no
  record has no result. The locks serialise the operations. What is created and closed as often as it was opened
  gives its memory back; the size of a buffer can wrap around to no pages at all.
\<close>

unbundle bit_operations_syntax

section \<open>State\<close>

record shared_buffer =
  sb_name :: "byte list"
  sb_physical :: u32
  sb_num_pages :: u32
  sb_buffer_size :: u32
  num_refs :: u32

text \<open>The table of names, the records of the buffers under their addresses, and the memory manager.\<close>

record shared_mem =
  shared_buffers :: "(byte list, u32) hash_map"
  buffer_at :: "u32 \<Rightarrow> shared_buffer option"
  mm :: mm_state

section \<open>Operations\<close>

text \<open>\<open>node\<close> is the address that the table allocates for a new record.\<close>

definition create_shared_buffer :: "u32 \<Rightarrow> byte list \<Rightarrow> u32 \<Rightarrow> shared_mem \<Rightarrow> (u32 \<times> shared_mem) option" where
  "create_shared_buffer node nm sz s =
     (case hash_map_emplace hash_string nm node (shared_buffers s) of
        (False, _) \<Rightarrow> Some (0, s)
      | (True, m) \<Rightarrow> do {
          let num_pages = memmanager_minimum_pages sz;
          (physical, map) \<leftarrow> physical_memory_allocate (memory_map (mm s)) (num_pages * PAGE_SIZE) PAGE_SIZE;
          Some (if physical \<noteq> 0 then node else 0,
            s\<lparr>shared_buffers := m,
              buffer_at := (buffer_at s)(node \<mapsto> \<lparr>sb_name = nm, sb_physical = physical, sb_num_pages = num_pages, sb_buffer_size = sz,
                num_refs = 1\<rparr>),
              mm := (mm s)\<lparr>memory_map := map\<rparr>\<rparr>)
        })"

definition open_shared_buffer :: "byte list \<Rightarrow> shared_mem \<Rightarrow> (u32 \<times> shared_mem) option" where
  "open_shared_buffer nm s =
     (case hash_map_lookup hash_string (shared_buffers s) nm of
        Some data \<Rightarrow> map_option (\<lambda>b. (data, s\<lparr>buffer_at := (buffer_at s)(data \<mapsto> b\<lparr>num_refs := num_refs b + 1\<rparr>)\<rparr>)) (buffer_at s data)
      | None \<Rightarrow> Some (0, s))"

definition close_shared_buffer :: "u32 \<Rightarrow> shared_mem \<Rightarrow> shared_mem option" where
  "close_shared_buffer buf_handle s = do {
     b \<leftarrow> buffer_at s buf_handle;
     let b = b\<lparr>num_refs := num_refs b - 1\<rparr>;
     if num_refs b = 0
     then do {
       map \<leftarrow> physical_memory_free (memory_map (mm s)) (sb_physical b) (sb_num_pages b * PAGE_SIZE);
       Some (s\<lparr>shared_buffers := hash_map_remove hash_string (sb_name b) (shared_buffers s),
         buffer_at := (buffer_at s)(buf_handle := None), mm := (mm s)\<lparr>memory_map := map\<rparr>\<rparr>)
     }
     else Some (s\<lparr>buffer_at := (buffer_at s)(buf_handle \<mapsto> b)\<rparr>)
   }"

definition map_shared_buffer :: "u32 \<Rightarrow> u32 \<Rightarrow> u32 \<Rightarrow> shared_mem \<Rightarrow> (u32 \<times> shared_mem) option" where
  "map_shared_buffer buf_handle sz flags s = do {
     b \<leftarrow> buffer_at s buf_handle;
     if sb_buffer_size b < sz then Some (0, s)
     else do {
       (v, m) \<leftarrow> memmanager_map_to_new_pages (mm s) (sb_physical b) (memmanager_minimum_pages sz) (PAGE_USER OR PAGE_PRESENT OR flags);
       Some (v, s\<lparr>mm := m\<rparr>)
     }
   }"

section \<open>References\<close>

fun times_opt :: "nat \<Rightarrow> ('s \<Rightarrow> 's option) \<Rightarrow> 's \<Rightarrow> 's option" where
  "times_opt 0 f s = Some s"
| "times_opt (Suc n) f s = Option.bind (f s) (times_opt n f)"

text \<open>A buffer of \<open>n\<close> references under its name.\<close>

definition holds_refs :: "u32 \<Rightarrow> shared_buffer \<Rightarrow> nat \<Rightarrow> shared_mem \<Rightarrow> shared_mem \<Rightarrow> bool" where
  "holds_refs h b n s0 s \<longleftrightarrow>
     shared_buffers s = shared_buffers s0 \<and> mm s = mm s0 \<and> hash_map_lookup hash_string (shared_buffers s0) (sb_name b) = Some h
     \<and> buffer_at s = (buffer_at s0)(h \<mapsto> b\<lparr>num_refs := of_nat n\<rparr>)"

lemma open_counts:
  "holds_refs h b n s0 s \<Longrightarrow> \<exists>s'. open_shared_buffer (sb_name b) s = Some (h, s') \<and> holds_refs h b (Suc n) s0 s'"
  by (auto simp: holds_refs_def open_shared_buffer_def add.commute)

lemma opens_count:
  "holds_refs h b n s0 s \<Longrightarrow>
    \<exists>s'. times_opt k (\<lambda>s. map_option snd (open_shared_buffer (sb_name b) s)) s = Some s' \<and> holds_refs h b (n + k) s0 s'"
proof (induction k arbitrary: n s)
  case (Suc k)
  obtain s1 where s1: "open_shared_buffer (sb_name b) s = Some (h, s1)" "holds_refs h b (Suc n) s0 s1"
    using open_counts [OF Suc.prems] by blast
  from Suc.IH [OF s1(2)] show ?case by (simp add: s1(1))
qed simp

lemma close_counts:
  assumes "holds_refs h b (Suc n) s0 s" and "0 < n" and "Suc n < 4294967296"
  shows "\<exists>s'. close_shared_buffer h s = Some s' \<and> holds_refs h b n s0 s'"
proof -
  have "(of_nat (Suc n) :: u32) - 1 = of_nat n" by simp
  moreover have "(of_nat n :: u32) \<noteq> 0"
    using assms(2,3) by (metis Suc_lessD less_numeral_extra(3) unat_0 unat_of_nat32)
  ultimately show ?thesis
    using assms(1) by (auto simp: holds_refs_def close_shared_buffer_def Let_def)
qed

lemma closes_count:
  "holds_refs h b (n + k) s0 s \<Longrightarrow> 0 < n \<Longrightarrow> n + k < 4294967296 \<Longrightarrow>
    \<exists>s'. times_opt k (close_shared_buffer h) s = Some s' \<and> holds_refs h b n s0 s'"
proof (induction k arbitrary: s)
  case (Suc k)
  obtain s1 where s1: "close_shared_buffer h s = Some s1" "holds_refs h b (n + k) s0 s1"
    using close_counts [of h b "n + k" s0 s] Suc.prems by auto
  from Suc.IH [OF s1(2)] Suc.prems(2,3) show ?case by (simp add: s1(1))
qed simp


section \<open>Properties\<close>

lemma page_bytes:
  assumes "0 < unat sz" and "unat sz + 8192 \<le> 4294967296"
  shows "unat (memmanager_minimum_pages sz * PAGE_SIZE) = (unat sz + 4095) div 4096 * 4096"
    "unat sz \<le> unat (memmanager_minimum_pages sz * PAGE_SIZE)" "0 < unat (memmanager_minimum_pages sz * PAGE_SIZE)"
    "unat (memmanager_minimum_pages sz * PAGE_SIZE) + 4096 \<le> 4294967296"
proof -
  have "unat (sz + (PAGE_SIZE - 1)) = unat sz + 4095"
    using assms(2) by (subst u32_add) (simp_all add: PAGE_SIZE_def)
  then have p: "unat (memmanager_minimum_pages sz) = (unat sz + 4095) div 4096"
    by (simp add: memmanager_minimum_pages_def unat_div PAGE_SIZE_def)
  have le: "(unat sz + 4095) div 4096 * 4096 \<le> unat sz + 4095" by (simp add: div_times_less_eq_dividend)
  with assms(2) p show e: "unat (memmanager_minimum_pages sz * PAGE_SIZE) = (unat sz + 4095) div 4096 * 4096"
    by (simp add: unat_word_ariths PAGE_SIZE_def)
  have "(unat sz + 4095) mod 4096 < 4096" by simp
  then have ge: "unat sz \<le> (unat sz + 4095) div 4096 * 4096"
    using div_mult_mod_eq [of "unat sz + 4095" 4096] by linarith
  show "unat sz \<le> unat (memmanager_minimum_pages sz * PAGE_SIZE)" "0 < unat (memmanager_minimum_pages sz * PAGE_SIZE)"
    "unat (memmanager_minimum_pages sz * PAGE_SIZE) + 4096 \<le> 4294967296"
    unfolding e using assms le ge by linarith+
qed

lemma page_align: "PAGE_SIZE = 2 ^ 12"
  by (simp add: PAGE_SIZE_def)

text \<open>C35: a new buffer gets memory of its size that was free and is no longer; after it has been opened \<open>k\<close> times more, the
  same number of closes leaves it in place, and the last one gives exactly its memory back and forgets its name.\<close>

theorem shared_buffer_released:
  assumes "wf_table (shared_buffers s)" and "hash_map_lookup hash_string (shared_buffers s) nm = None"
    and "wf_blocks (memory_map (mm s))" and "length (memory_map (mm s)) < MAX_NUM_MEMORY_BLOCKS - 1" and "0 \<notin> free_bytes (memory_map (mm s))"
    and "0 < unat sz" and "unat sz + 8192 \<le> 2 ^ 32" and "k + 1 < 2 ^ 32"
    and "\<exists>b \<in> set (memory_map (mm s)). fits 4096 (unat (memmanager_minimum_pages sz * PAGE_SIZE)) b"
  shows "\<exists>s1 s2 s3 b. create_shared_buffer node nm sz s = Some (node, s1)
    \<and> buffer_at s1 node = Some b \<and> {unat (sb_physical b)..<unat (sb_physical b) + unat sz} \<subseteq> free_bytes (memory_map (mm s))
    \<and> free_bytes (memory_map (mm s1)) \<inter> {unat (sb_physical b)..<unat (sb_physical b) + unat sz} = {}
    \<and> times_opt k (\<lambda>s. map_option snd (open_shared_buffer nm s)) s1 = Some s2
    \<and> times_opt k (close_shared_buffer node) s2 = Some s3 \<and> buffer_at s3 node = Some b
    \<and> (\<exists>s4. close_shared_buffer node s3 = Some s4 \<and> free_bytes (memory_map (mm s4)) = free_bytes (memory_map (mm s))
        \<and> hash_map_lookup hash_string (shared_buffers s4) nm = None \<and> buffer_at s4 node = None)"
proof -
  let ?pages = "memmanager_minimum_pages sz"
  have bound: "unat sz + 8192 \<le> 4294967296" using assms(7) by simp
  note pb = page_bytes [OF assms(6) bound]
  have "1 < MAX_NUM_MEMORY_BLOCKS - length (memory_map (mm s))" using assms(4) by linarith
  moreover have "(12 :: nat) < 32 \<and> unat (?pages * PAGE_SIZE) + 2 ^ 12 \<le> 2 ^ 32 \<and> (\<exists>b\<in>set (memory_map (mm s)). fits (2 ^ 12) (unat (?pages * PAGE_SIZE)) b)"
    using pb(4) assms(9) by simp
  ultimately obtain r m1 m2 where r: "physical_memory_allocate (memory_map (mm s)) (?pages * PAGE_SIZE) PAGE_SIZE = Some (r, m1)"
    "{unat r..<unat r + unat (?pages * PAGE_SIZE)} \<subseteq> free_bytes (memory_map (mm s))"
    "free_bytes m1 = free_bytes (memory_map (mm s)) - {unat r..<unat r + unat (?pages * PAGE_SIZE)}"
    "physical_memory_free m1 r (?pages * PAGE_SIZE) = Some m2" "free_bytes m2 = free_bytes (memory_map (mm s))"
    using phys.alloc_release [OF assms(3) _ _ pb(3), of 12] by (auto simp: page_align)
  have "r \<noteq> 0" using r(2) pb(3) assms(5) by (auto simp: subset_iff)
  obtain tb where tb: "hash_map_emplace hash_string nm node (shared_buffers s) = (True, tb)"
    using table.put_new [OF assms(1), of hash_string nm node] assms(2) by (cases "hash_map_emplace hash_string nm node (shared_buffers s)") auto
  have t: "wf_table tb" "hash_map_lookup hash_string tb nm = Some node"
    using table.wf_put [OF assms(1), of hash_string nm node] table.get_put [OF assms(1), of hash_string nm node nm] assms(2) tb by simp_all
  define b where "b = \<lparr>sb_name = nm, sb_physical = r, sb_num_pages = ?pages, sb_buffer_size = sz, num_refs = 1\<rparr>"
  define s1 where "s1 = s\<lparr>shared_buffers := tb, buffer_at := (buffer_at s)(node \<mapsto> b), mm := (mm s)\<lparr>memory_map := m1\<rparr>\<rparr>"
  have c: "create_shared_buffer node nm sz s = Some (node, s1)"
    by (simp add: create_shared_buffer_def tb r(1) \<open>r \<noteq> 0\<close> s1_def b_def)
  have h1: "holds_refs node b 1 s1 s1" using t(2) by (simp add: holds_refs_def s1_def b_def)
  obtain s2 where s2: "times_opt k (\<lambda>s. map_option snd (open_shared_buffer nm s)) s1 = Some s2" "holds_refs node b (1 + k) s1 s2"
    using opens_count [OF h1, of k] by (auto simp: b_def)
  obtain s3 where s3: "times_opt k (close_shared_buffer node) s2 = Some s3" "holds_refs node b 1 s1 s3"
    using closes_count [OF s2(2)] assms(8) by auto
  have "physical_memory_free (memory_map (mm s3)) (sb_physical b) (sb_num_pages b * PAGE_SIZE) = Some m2"
    using s3(2) r(4) by (simp add: holds_refs_def s1_def b_def)
  moreover have b3: "buffer_at s3 node = Some b" using s3(2) by (simp add: holds_refs_def b_def)
  ultimately have "close_shared_buffer node s3 = Some (s3\<lparr>shared_buffers := hash_map_remove hash_string nm (shared_buffers s3),
      buffer_at := (buffer_at s3)(node := None), mm := (mm s3)\<lparr>memory_map := m2\<rparr>\<rparr>)"
    by (simp add: close_shared_buffer_def b_def)
  moreover have "hash_map_lookup hash_string (hash_map_remove hash_string nm (shared_buffers s3)) nm = None"
    using s3(2) table.get_del [OF t(1), of hash_string nm nm] by (simp add: holds_refs_def s1_def)
  moreover define s4 where "s4 = s3\<lparr>shared_buffers := hash_map_remove hash_string nm (shared_buffers s3),
      buffer_at := (buffer_at s3)(node := None), mm := (mm s3)\<lparr>memory_map := m2\<rparr>\<rparr>"
  ultimately have s4: "close_shared_buffer node s3 = Some s4" "free_bytes (memory_map (mm s4)) = free_bytes (memory_map (mm s))"
    "hash_map_lookup hash_string (shared_buffers s4) nm = None" "buffer_at s4 node = None"
    by (simp_all add: r(5))
  have "{unat r..<unat r + unat sz} \<subseteq> {unat r..<unat r + unat (?pages * PAGE_SIZE)}" using pb(2) by auto
  with r(2,3) have "{unat r..<unat r + unat sz} \<subseteq> free_bytes (memory_map (mm s))" "free_bytes m1 \<inter> {unat r..<unat r + unat sz} = {}"
    by blast+
  then have "{unat (sb_physical b)..<unat (sb_physical b) + unat sz} \<subseteq> free_bytes (memory_map (mm s))"
    "free_bytes (memory_map (mm s1)) \<inter> {unat (sb_physical b)..<unat (sb_physical b) + unat sz} = {}"
    by (simp_all add: b_def s1_def)
  moreover have "buffer_at s1 node = Some b" by (simp add: s1_def)
  ultimately show ?thesis using c s2(1) s3(1) b3 s4 by blast
qed

text \<open>The number of pages of a buffer of nearly 2^32 bytes wraps around to none: such a buffer takes no memory, and yet a task
  maps as much of the physical memory behind its address as it likes, all of which the memory manager gives to others.\<close>

theorem shared_buffer_overrun:
  assumes "2 ^ 32 - 4096 < unat sz" and "create_shared_buffer node nm sz s = Some (node, s1)" and "node \<noteq> 0"
    and "wf_blocks (memory_map (mm s))" and "length (memory_map (mm s)) < MAX_NUM_MEMORY_BLOCKS" and "len \<le> sz"
  shows "free_bytes (memory_map (mm s1)) = free_bytes (memory_map (mm s))
    \<and> (\<exists>r. map_shared_buffer node len flags s1 = map_option (\<lambda>(v, m). (v, s1\<lparr>mm := m\<rparr>))
        (memmanager_map_to_new_pages (mm s1) r (memmanager_minimum_pages len) (PAGE_USER OR PAGE_PRESENT OR flags)))"
proof -
  have wrap: "memmanager_minimum_pages sz = 0"
  proof -
    have "unat (sz + (PAGE_SIZE - 1)) = (unat sz + 4095) mod 4294967296" by (simp add: unat_word_ariths PAGE_SIZE_def)
    also have "\<dots> = unat sz + 4095 - 4294967296"
      using assms(1) unat_u32_bound [of sz] by (subst mod_if) (simp add: mod_less)
    finally have "unat (sz + (PAGE_SIZE - 1)) < 4096" using unat_u32_bound [of sz] by simp
    then have "unat (memmanager_minimum_pages sz) = 0" by (simp add: memmanager_minimum_pages_def unat_div PAGE_SIZE_def)
    then show ?thesis by (simp add: word_zero_iff)
  qed
  from assms(2) wrap assms(3) obtain r m1 tb where
    r: "physical_memory_allocate (memory_map (mm s)) 0 PAGE_SIZE = Some (r, m1)"
    and s1: "s1 = s\<lparr>shared_buffers := tb, buffer_at := (buffer_at s)(node \<mapsto> \<lparr>sb_name = nm, sb_physical = r, sb_num_pages = 0,
      sb_buffer_size = sz, num_refs = 1\<rparr>), mm := (mm s)\<lparr>memory_map := m1\<rparr>\<rparr>"
    by (auto simp: create_shared_buffer_def Let_def bind_eq_Some_conv split: prod.splits bool.splits if_splits)
  have "free_bytes m1 = free_bytes (memory_map (mm s))"
    using allocate_from_ok [of "[]" "memory_map (mm s)" 12 0] assms(4,5) r
    by (auto simp: allocated_def physical_memory_allocate_def page_align split: if_splits)
  moreover have "map_shared_buffer node len flags s1 = map_option (\<lambda>(v, m). (v, s1\<lparr>mm := m\<rparr>))
        (memmanager_map_to_new_pages (mm s1) r (memmanager_minimum_pages len) (PAGE_USER OR PAGE_PRESENT OR flags))"
    using assms(6) by (cases "memmanager_map_to_new_pages (mm s1) r (memmanager_minimum_pages len) (PAGE_USER OR PAGE_PRESENT OR flags)")
      (auto simp: map_shared_buffer_def s1 linorder_not_less [symmetric])
  ultimately show ?thesis by (auto simp: s1)
qed


section \<open>Witnesses\<close>

definition no_buffers :: shared_mem where
  "no_buffers = \<lparr>shared_buffers = [[]], buffer_at = (\<lambda>_. None), mm = (sample_mm 0)\<lparr>memory_map := sample_map\<rparr>\<rparr>"

lemma no_buffers_wf:
  "wf_table (shared_buffers no_buffers)" "hash_map_lookup hash_string (shared_buffers no_buffers) nm = None"
  "wf_blocks (memory_map (mm no_buffers))" "length (memory_map (mm no_buffers)) < MAX_NUM_MEMORY_BLOCKS - 1"
  "0 \<notin> free_bytes (memory_map (mm no_buffers))"
  using sample_map_wf sample_map_small
  by (auto simp: no_buffers_def wf_table_def hash_map_lookup_def bucket_index_def intro: exI [of _ 0])
     (auto simp: sample_map_def mb_bytes_def mb_lo_def)

lemma two_pages: "memmanager_minimum_pages 0x2000 * PAGE_SIZE = 0x2000"
  by (simp add: memmanager_minimum_pages_def PAGE_SIZE_def)

theorem shared_buffer_released_witness:
  "\<exists>s1 s2. create_shared_buffer 8 [97] 0x2000 no_buffers = Some (8, s1)
    \<and> times_opt 3 (\<lambda>s. map_option snd (open_shared_buffer [97] s)) s1 = Some s2"
proof -
  have f: "\<exists>b\<in>set (memory_map (mm no_buffers)). fits 4096 (unat (memmanager_minimum_pages 0x2000 * PAGE_SIZE)) b"
    using sample_map_fits by (simp add: two_pages no_buffers_def)
  show ?thesis
    using shared_buffer_released [OF no_buffers_wf _ _ _ f, where k = 3 and node = 8 and nm = "[97]"] by auto
qed

lemma allocate_nothing: "physical_memory_allocate sample_map 0 PAGE_SIZE = Some (0x100000, sample_map)"
  by code_simp

theorem shared_buffer_overrun_witness:
  "\<exists>s1 r. create_shared_buffer 8 [97] 0xFFFFFFFF no_buffers = Some (8, s1)
    \<and> map_shared_buffer 8 0x40000000 0 s1 = map_option (\<lambda>(v, m). (v, s1\<lparr>mm := m\<rparr>))
        (memmanager_map_to_new_pages (mm s1) r 0x40000 (PAGE_USER OR PAGE_PRESENT))"
proof -
  have "memmanager_minimum_pages 0xFFFFFFFF = 0" "memmanager_minimum_pages 0x40000000 = 0x40000"
    by (simp_all add: memmanager_minimum_pages_def PAGE_SIZE_def)
  moreover obtain s1 where c: "create_shared_buffer 8 [97] 0xFFFFFFFF no_buffers = Some (8, s1)"
    using allocate_nothing
    by (auto simp: create_shared_buffer_def calculation no_buffers_def hash_map_emplace_def bucket_index_def Let_def)
  ultimately show ?thesis
    using shared_buffer_overrun [OF _ c _ no_buffers_wf(3), where len = "0x40000000" and flags = 0] no_buffers_wf(4) by auto
qed

end
