(* ===== verification/Terminal.thy ===== *)
theory Terminal
  imports SharedMem
begin

text \<open>
  The terminal (\<open>api/terminal/terminal.cpp\<close>): characters and escape sequences on a text screen. The shared state is a
  record, the screen the list of its cells; a cell outside of the screen has no result, nor has a character that is
  read behind the memory the text lies in. The display's answers (its mode, its memory) are arguments.
\<close>

unbundle bit_operations_syntax

record text_char =
  ch :: byte
  attr :: byte

definition vt100_colors :: "byte list" where
  "vt100_colors = [0x00, 0x04, 0x02, 0x06, 0x01, 0x05, 0x03, 0x07]"

record terminal_state =
  t_width :: u32
  t_height :: u32
  total_size :: u32
  last_row_start :: u32
  cursor_pos :: u32
  is_bright :: byte
  fgr_color :: byte
  bgr_color :: byte
  color :: byte
  clear_val :: text_char

text \<open>The terminal with its screen, the cursor the display shows, and the saved cursor.\<close>

record terminal =
  m_state :: terminal_state
  screen :: "text_char list"
  display_cursor :: u32
  cursorstore :: u32

definition initial_state :: terminal_state where
  "initial_state = \<lparr>t_width = 0, t_height = 0, total_size = 0, last_row_start = 0, cursor_pos = 0, is_bright = 1, fgr_color = 7,
     bgr_color = 0, color = 0x0F, clear_val = \<lparr>ch = 0, attr = 0x0F\<rparr>\<rparr>"

text \<open>The mode that the display reports: whether it is a text mode, its width and height.\<close>

definition set_display_mode :: "bool \<times> u32 \<times> u32 \<Rightarrow> terminal_state \<Rightarrow> terminal_state" where
  "set_display_mode mode st =
     (case mode of (text_mode, w, h) \<Rightarrow>
        if text_mode then st\<lparr>t_width := w, t_height := h, total_size := w * h, last_row_start := w * (h - 1)\<rparr> else st)"

text \<open>The buffer of the state by its name, and whether it is new; \<open>node\<close> and \<open>state_size\<close> are the address of a new buffer's
  record and the size of the state.\<close>

datatype terminal_open_mode = TERMINAL_CREATE_NEW | TERMINAL_CREATE_IF_NOT_FOUND | TERMINAL_OPEN_EXISTING

definition get_buf_handle ::
    "u32 \<Rightarrow> u32 \<Rightarrow> byte list \<Rightarrow> terminal_open_mode \<Rightarrow> shared_mem \<Rightarrow> ((u32 \<times> bool) \<times> shared_mem) option" where
  "get_buf_handle node state_size nm mode s = do {
     (buf, s) \<leftarrow> (if mode \<noteq> TERMINAL_OPEN_EXISTING then create_shared_buffer node nm state_size s else Some (0, s));
     if mode \<noteq> TERMINAL_OPEN_EXISTING \<and> (buf \<noteq> 0 \<or> mode = TERMINAL_CREATE_NEW) then Some ((buf, True), s)
     else map_option (\<lambda>(h, s). ((h, False), s)) (open_shared_buffer nm s)
   }"

definition get_shared_state :: "bool \<Rightarrow> bool \<times> u32 \<times> u32 \<Rightarrow> terminal_state \<Rightarrow> terminal_state" where
  "get_shared_state init mode shared = (if init then set_display_mode mode initial_state else shared)"

definition set_mode :: "bool \<times> u32 \<times> u32 \<Rightarrow> text_char list \<Rightarrow> terminal \<Rightarrow> terminal" where
  "set_mode mode memory t = t\<lparr>m_state := set_display_mode mode (m_state t), screen := memory\<rparr>"

section \<open>The screen\<close>

definition fill_cells :: "u32 \<Rightarrow> u32 \<Rightarrow> text_char \<Rightarrow> terminal \<Rightarrow> terminal option" where
  "fill_cells a n c t = map_option (\<lambda>s. t\<lparr>screen := s\<rparr>) (patch (unat a) (replicate (unat n) c) (screen t))"

definition set_color :: "byte \<Rightarrow> byte \<Rightarrow> byte \<Rightarrow> terminal \<Rightarrow> terminal" where
  "set_color bgr fgr bright t =
     (let col = push_bit 4 (bgr AND 0x0F) OR ((fgr + (bright AND 0x01) * 8) AND 0x0F) in
      t\<lparr>m_state := (m_state t)\<lparr>fgr_color := fgr, bgr_color := bgr, is_bright := bright, color := col,
        clear_val := \<lparr>ch = 0, attr = col\<rparr>\<rparr>\<rparr>)"

definition set_ansi_color :: "byte \<Rightarrow> byte \<Rightarrow> terminal \<Rightarrow> terminal" where
  "set_ansi_color bgr fgr t =
     set_color (vt100_colors ! unat (bgr AND 7)) (vt100_colors ! unat (fgr AND 7)) (is_bright (m_state t)) t"

definition set_cursor :: "u32 \<Rightarrow> terminal \<Rightarrow> terminal" where
  "set_cursor offset t = t\<lparr>m_state := (m_state t)\<lparr>cursor_pos := offset\<rparr>, display_cursor := offset\<rparr>"

definition set_cursor_pos :: "u32 \<Rightarrow> u32 \<Rightarrow> terminal \<Rightarrow> terminal" where
  "set_cursor_pos x y t = set_cursor ((y * t_height (m_state t)) + x) t"

definition clear_screen :: "terminal \<Rightarrow> terminal option" where
  "clear_screen t = map_option (set_cursor 0) (fill_cells 0 (total_size (m_state t)) (clear_val (m_state t)) t)"

definition clear_row :: "u32 \<Rightarrow> terminal \<Rightarrow> terminal option" where
  "clear_row row t = fill_cells (row * t_width (m_state t)) (t_width (m_state t)) (clear_val (m_state t)) t"

text \<open>The rows are copied upwards in memory, each before it is overwritten.\<close>

definition scroll_up :: "terminal \<Rightarrow> terminal option" where
  "scroll_up t = do {
     let st = m_state t;
     rows \<leftarrow> slice (unat (t_width st)) (unat (total_size st - t_width st)) (screen t);
     s \<leftarrow> patch 0 rows (screen t);
     clear_row (t_height st - 1) (set_cursor_pos (t_height st - 1) 0 (t\<lparr>screen := s\<rparr>))
   }"

definition write_chars_at_pos :: "u32 \<Rightarrow> u32 \<Rightarrow> byte list \<Rightarrow> terminal \<Rightarrow> terminal option" where
  "write_chars_at_pos x y cs t =
     map_option (\<lambda>s. t\<lparr>screen := s\<rparr>)
       (patch (unat (x + y * t_width (m_state t))) (map (\<lambda>c. \<lparr>ch = c, attr = color (m_state t)\<rparr>) cs) (screen t))"

definition delete_chars :: "u32 \<Rightarrow> terminal \<Rightarrow> terminal option" where
  "delete_chars num t =
     map_option (set_cursor (cursor_pos (m_state t) - num))
       (fill_cells (cursor_pos (m_state t) - num) num (clear_val (m_state t)) t)"

section \<open>Escape sequences\<close>

text \<open>The numbers of a control sequence, four at most, from position \<open>i\<close> of the text on; the result is their number, the
  numbers and the position of the character behind them.\<close>

fun read_arg :: "(byte \<Rightarrow> byte) \<Rightarrow> byte list \<Rightarrow> nat \<Rightarrow> nat \<Rightarrow> nat \<Rightarrow> u32 list \<Rightarrow> (u32 list \<times> nat) option" where
  "read_arg outside text 0 i argnum args = None"
| "read_arg outside text (Suc k) i argnum args =
     (if i < length text
      then if ctype_isdigit outside (text ! i)
           then if argnum < 4
                then read_arg outside text k (i + 1) argnum (args[argnum := args ! argnum * 10 + ucast (text ! i - 48)])
                else None
           else Some (args, i)
      else None)"

fun read_args :: "(byte \<Rightarrow> byte) \<Rightarrow> byte list \<Rightarrow> nat \<Rightarrow> nat \<Rightarrow> nat \<Rightarrow> u32 list \<Rightarrow> (nat \<times> u32 list \<times> nat) option" where
  "read_args outside text 0 i argnum args = None"
| "read_args outside text (Suc k) i argnum args =
     Option.bind (read_arg outside text (length text) (i + 1) argnum args) (\<lambda>(args, i).
       if text ! i = 59 then read_args outside text k i (argnum + 1) args else Some (argnum + 1, args, i))"

definition sgr :: "u32 \<Rightarrow> terminal \<Rightarrow> terminal" where
  "sgr comm t =
     (let st = m_state t in
      if comm = 1 then set_color (bgr_color st) (fgr_color st) 1 t
      else if comm = 22 then set_color (bgr_color st) (fgr_color st) 0 t
      else if 30 \<le> comm \<and> comm \<le> 37 then set_color (bgr_color st) (vt100_colors ! unat (comm - 30)) (is_bright st) t
      else if 40 \<le> comm \<and> comm \<le> 47 then set_color (vt100_colors ! unat (comm - 40)) (fgr_color st) (is_bright st) t
      else t)"

text \<open>The result is the number of characters that belong to the sequence behind its first.\<close>

definition handle_escape_sequence :: "(byte \<Rightarrow> byte) \<Rightarrow> byte list \<Rightarrow> terminal \<Rightarrow> (nat \<times> terminal) option" where
  "handle_escape_sequence outside text t =
     (if length text \<le> 1 then None
      else if text ! 1 = 91
      then do {
        (argnum, args, i) \<leftarrow> read_args outside text (length text) 1 0 [0, 0, 0, 0];
        let c = text ! i;
        t \<leftarrow>
          (if c = 74 then (if args ! 0 = 2 then clear_screen t else Some t)
           else if c = 72 then Some (set_cursor_pos (args ! 0 - 1) (args ! 1 - 1) t)
           else if c = 109 then (if argnum \<le> 4 then Some (foldl (\<lambda>t comm. sgr comm t) t (take argnum args)) else None)
           else if c = 115 then Some (t\<lparr>cursorstore := cursor_pos (m_state t)\<rparr>)
           else if c = 117 then Some (t\<lparr>m_state := (m_state t)\<lparr>cursor_pos := cursorstore t\<rparr>\<rparr>)
           else Some t);
        Some (i, t)
      }
      else Some (1, t))"

section \<open>Printing\<close>

text \<open>What a character does to its cell, and how far it moves.\<close>

definition handle_char :: "byte \<Rightarrow> u32 \<Rightarrow> terminal \<Rightarrow> (u32 \<times> terminal) option" where
  "handle_char source pos t =
     (let cell = (\<lambda>f. if unat pos < length (screen t) then Some (t\<lparr>screen := (screen t)[unat pos := f (screen t ! unat pos)]\<rparr>) else None) in
      if source = 13 then Some (0, t)
      else if source = 10
      then if t_width (m_state t) = 0 then None else Some (t_width (m_state t) - (pos mod t_width (m_state t)), t)
      else if source = 9 then Some (4 - (pos mod 4), t)
      else if source = 8 then map_option (Pair (- 1)) (cell (\<lambda>c. c\<lparr>ch := 0\<rparr>))
      else map_option (Pair 1) (cell (\<lambda>_. \<lparr>ch = source, attr = color (m_state t)\<rparr>)))"

definition check_scroll :: "u32 \<Rightarrow> terminal \<Rightarrow> (u32 \<times> terminal) option" where
  "check_scroll pos t =
     (if total_size (m_state t) \<le> pos then map_option (Pair (last_row_start (m_state t))) (scroll_up t) else Some (pos, t))"

text \<open>The memory from the text on, of which the first \<open>n\<close> characters are printed.\<close>

function print_loop :: "(byte \<Rightarrow> byte) \<Rightarrow> nat \<Rightarrow> byte list \<Rightarrow> u32 \<Rightarrow> terminal \<Rightarrow> (u32 \<times> terminal) option" where
  "print_loop outside n text pos t =
     (if n = 0 then Some (pos, t)
      else case text of
        [] \<Rightarrow> None
      | c # cs \<Rightarrow>
          if c = 27
          then Option.bind (handle_escape_sequence outside text t) (\<lambda>(k, t).
            Option.bind (check_scroll pos t) (\<lambda>(pos, t). print_loop outside (n - (k + 1)) (drop (k + 1) text) pos t))
          else Option.bind (handle_char c pos t) (\<lambda>(d, t).
            Option.bind (check_scroll (pos + d) t) (\<lambda>(pos, t). print_loop outside (n - 1) cs pos t)))"
  by pat_completeness auto
termination by (relation "measure (\<lambda>(outside, n, text, pos, t). n)") auto

declare print_loop.simps [simp del]

definition term_print :: "(byte \<Rightarrow> byte) \<Rightarrow> byte list \<Rightarrow> nat \<Rightarrow> terminal \<Rightarrow> terminal option" where
  "term_print outside text n t =
     map_option (\<lambda>(pos, t). set_cursor pos t) (print_loop outside n text (cursor_pos (m_state t)) t)"

fun print_repeated :: "(byte \<Rightarrow> byte) \<Rightarrow> byte \<Rightarrow> nat \<Rightarrow> terminal \<Rightarrow> terminal option" where
  "print_repeated outside c 0 t = Some t"
| "print_repeated outside c (Suc n) t = Option.bind (term_print outside [c] 1 t) (print_repeated outside c n)"

end
