(* ===== verification/TerminalCorrect.thy ===== *)
theory TerminalCorrect
  imports Terminal CLibCorrect
begin

text \<open>
  The terminal: printing keeps the cursor on the screen, plain text is printed as onto a tape of which the screen
  shows the last rows, and a sequence that moves the cursor has no effect inside of a printed text.
\<close>

section \<open>Well-formed terminals\<close>

text \<open>The display is in a text mode and the screen has its cells.\<close>

definition wf_terminal :: "terminal \<Rightarrow> bool" where
  "wf_terminal t \<longleftrightarrow> 0 < t_width (m_state t) \<and> 0 < t_height (m_state t)
     \<and> unat (total_size (m_state t)) = unat (t_width (m_state t)) * unat (t_height (m_state t))
     \<and> unat (last_row_start (m_state t)) = unat (t_width (m_state t)) * (unat (t_height (m_state t)) - 1)
     \<and> length (screen t) = unat (total_size (m_state t))"

text \<open>What printing leaves of the terminal: everything but the cells and the cursor.\<close>

definition same_mode :: "terminal \<Rightarrow> terminal \<Rightarrow> bool" where
  "same_mode t t' \<longleftrightarrow> t_width (m_state t') = t_width (m_state t) \<and> t_height (m_state t') = t_height (m_state t)
     \<and> total_size (m_state t') = total_size (m_state t) \<and> last_row_start (m_state t') = last_row_start (m_state t)
     \<and> length (screen t') = length (screen t)"

lemma same_mode_refl [simp]: "same_mode t t"
  by (simp add: same_mode_def)

lemma same_mode_trans: "same_mode t u \<Longrightarrow> same_mode u v \<Longrightarrow> same_mode t v"
  by (simp add: same_mode_def)

lemma wf_same_mode: "wf_terminal t \<Longrightarrow> same_mode t t' \<Longrightarrow> wf_terminal t'"
  by (simp add: wf_terminal_def same_mode_def)

lemma wf_screen:
  assumes "wf_terminal t"
  shows "0 < unat (t_width (m_state t))" "unat (t_width (m_state t)) \<le> unat (total_size (m_state t))"
    "unat (last_row_start (m_state t)) + unat (t_width (m_state t)) = unat (total_size (m_state t))"
    "last_row_start (m_state t) < total_size (m_state t)"
proof -
  from assms have h: "0 < unat (t_height (m_state t))" "0 < unat (t_width (m_state t))"
    by (simp_all add: wf_terminal_def word_less_nat_alt)
  then obtain k where k: "unat (t_height (m_state t)) = Suc k" using gr0_implies_Suc by blast
  from assms h k show "0 < unat (t_width (m_state t))" "unat (t_width (m_state t)) \<le> unat (total_size (m_state t))"
    "unat (last_row_start (m_state t)) + unat (t_width (m_state t)) = unat (total_size (m_state t))"
    "last_row_start (m_state t) < total_size (m_state t)"
    by (simp_all add: wf_terminal_def word_less_nat_alt)
qed

lemma set_cursor_same [simp]: "same_mode t (set_cursor p t)" "screen (set_cursor p t) = screen t"
    "cursor_pos (m_state (set_cursor p t)) = p" "total_size (m_state (set_cursor p t)) = total_size (m_state t)"
    "last_row_start (m_state (set_cursor p t)) = last_row_start (m_state t)"
  by (simp_all add: same_mode_def set_cursor_def)

lemma set_color_same [simp]: "same_mode t (set_color a b c t)" "screen (set_color a b c t) = screen t"
  by (simp_all add: same_mode_def set_color_def Let_def)

lemma sgr_same [simp]: "same_mode t (sgr c t)"
  by (simp add: sgr_def Let_def)

lemma sgr_fold_same: "same_mode t (foldl (\<lambda>t comm. sgr comm t) t cs)"
  proof (induction cs arbitrary: t)
  case (Cons c cs) show ?case using same_mode_trans [OF sgr_same Cons.IH] by simp
qed simp

lemma fill_cells_same: "fill_cells a n c t = Some t' \<Longrightarrow> same_mode t t'"
  by (auto simp: fill_cells_def same_mode_def dest: length_patch)

lemma clear_screen_same: "clear_screen t = Some t' \<Longrightarrow> same_mode t t'"
  by (auto simp: clear_screen_def intro: same_mode_trans [OF fill_cells_same])

text \<open>Scrolling: the rows but the first, and an empty one.\<close>

lemma scroll_up_rows:
  assumes "wf_terminal t"
  obtains t' where "scroll_up t = Some t'" and "same_mode t t'"
    and "screen t' = drop (unat (t_width (m_state t))) (screen t) @ replicate (unat (t_width (m_state t))) (clear_val (m_state t))"
    and "clear_val (m_state t') = clear_val (m_state t)" and "color (m_state t') = color (m_state t)"
proof -
  note w = wf_screen [OF assms]
  let ?st = "m_state t"
  let ?w = "unat (t_width ?st)" and ?n = "unat (total_size ?st)"
  from assms have len: "length (screen t) = ?n" by (simp add: wf_terminal_def)
  have row: "unat (t_width ?st * (t_height ?st - 1)) = unat (last_row_start ?st)"
  proof -
    have "unat (t_height ?st - 1) = unat (t_height ?st) - 1"
      using assms by (subst u32_sub) (auto simp: wf_terminal_def word_le_nat_alt word_less_nat_alt)
    moreover have "?w * (unat (t_height ?st) - 1) < 2 ^ 32"
      using assms unat_u32_bound [of "last_row_start ?st"] by (simp add: wf_terminal_def)
    ultimately show ?thesis using assms by (simp add: unat_word_ariths wf_terminal_def)
  qed
  have sub: "unat (total_size ?st - t_width ?st) = ?n - ?w"
    using w(2) by (subst u32_sub) (auto simp: word_le_nat_alt)
  let ?rows = "drop ?w (screen t)"
  have "slice ?w (unat (total_size ?st - t_width ?st)) (screen t) = Some ?rows"
    using w(2) len by (simp add: slice_Some_iff sub)
  moreover have "patch 0 ?rows (screen t) = Some (?rows @ drop (?n - ?w) (screen t))"
    using len by (simp add: patch_Some_iff)
  moreover have "patch (unat (t_width ?st * (t_height ?st - 1))) (replicate ?w (clear_val ?st)) (?rows @ drop (?n - ?w) (screen t))
      = Some (?rows @ replicate ?w (clear_val ?st))"
    using w len by (simp add: patch_Some_iff row)
  ultimately show ?thesis
    using w len
    by (intro that [of "(set_cursor_pos (t_height ?st - 1) 0 t)\<lparr>screen := ?rows @ replicate ?w (clear_val ?st)\<rparr>"])
       (simp_all add: scroll_up_def Let_def clear_row_def fill_cells_def set_cursor_pos_def set_cursor_def same_mode_def
          mult.commute [of "t_height ?st - 1"])
qed

lemma check_scroll_in:
  assumes "wf_terminal t" and "check_scroll pos t = Some (pos', t')"
  shows "same_mode t t' \<and> pos' < total_size (m_state t')"
proof (cases "total_size (m_state t) \<le> pos")
  case True
  obtain u where u: "scroll_up t = Some u" "same_mode t u" by (rule scroll_up_rows [OF assms(1)])
  with True assms(2) have "pos' = last_row_start (m_state t)" "t' = u" by (auto simp: check_scroll_def)
  with u(2) wf_screen(4) [OF assms(1)] show ?thesis by (simp add: same_mode_def)
next
  case False with assms(2) show ?thesis by (auto simp: check_scroll_def)
qed

lemma check_scroll_total: "wf_terminal t \<Longrightarrow> \<exists>r. check_scroll pos t = Some r"
  by (metis check_scroll_def option.simps(9) scroll_up_rows)

lemma handle_char_same: "handle_char c pos t = Some (d, t') \<Longrightarrow> same_mode t t'"
  by (auto simp: handle_char_def Let_def same_mode_def split: if_splits)

lemma handle_char_total:
  "wf_terminal t \<Longrightarrow> pos < total_size (m_state t) \<Longrightarrow> \<exists>r. handle_char c pos t = Some r"
  by (auto simp: handle_char_def Let_def wf_terminal_def word_less_nat_alt)

lemma handle_escape_same: "handle_escape_sequence outside chars t = Some (k, t') \<Longrightarrow> same_mode t t'"
  by (auto simp: handle_escape_sequence_def Let_def bind_eq_Some_conv set_cursor_pos_def sgr_fold_same clear_screen_same
      same_mode_def [of t "t\<lparr>cursorstore := _\<rparr>"] same_mode_def [of t "t\<lparr>m_state := _\<rparr>"] split: if_splits)


section \<open>The cursor stays on the screen\<close>

lemma print_loop_same:
  assumes "wf_terminal t" and "pos < total_size (m_state t)" and "print_loop outside n chars pos t = Some (pos', t')"
  shows "same_mode t t' \<and> pos' < total_size (m_state t')"
  using assms
proof (induction outside n chars pos t arbitrary: pos' t' rule: print_loop.induct)
  case (1 outside n chars pos t)
  show ?case
  proof (cases "n = 0")
    case True with 1(3-) show ?thesis by (simp add: print_loop.simps)
  next
    case False
    with 1(5) obtain c cs where chars: "chars = c # cs" by (cases chars) (auto simp: print_loop.simps)
    show ?thesis
    proof (cases "c = 27")
      case True
      with 1(5) False chars obtain k u p v where
        u: "handle_escape_sequence outside chars t = Some (k, u)" and v: "check_scroll pos u = Some (p, v)"
        and r: "print_loop outside (n - (k + 1)) (drop (k + 1) chars) p v = Some (pos', t')"
        by (subst (asm) print_loop.simps) (auto simp: bind_eq_Some_conv)
      note m = handle_escape_same [OF u] and wf = wf_same_mode [OF 1(3) handle_escape_same [OF u]]
      note s = check_scroll_in [OF wf v]
      note m' = same_mode_trans [OF m conjunct1 [OF s]]
      show ?thesis
        using 1(1) [OF False chars True u refl v refl wf_same_mode [OF 1(3) m'] conjunct2 [OF s] r] m'
        by (auto intro: same_mode_trans)
    next
      case other: False
      with 1(5) False chars obtain d u p v where
        u: "handle_char c pos t = Some (d, u)" and v: "check_scroll (pos + d) u = Some (p, v)"
        and r: "print_loop outside (n - 1) cs p v = Some (pos', t')"
        by (subst (asm) print_loop.simps) (auto simp: bind_eq_Some_conv)
      note m = handle_char_same [OF u] and wf = wf_same_mode [OF 1(3) handle_char_same [OF u]]
      note s = check_scroll_in [OF wf v]
      note m' = same_mode_trans [OF m conjunct1 [OF s]]
      show ?thesis
        using 1(2) [OF False chars other u refl v refl wf_same_mode [OF 1(3) m'] conjunct2 [OF s] r] m'
        by (auto intro: same_mode_trans)
    qed
  qed
qed

lemma print_loop_total:
  assumes "wf_terminal t" and "pos < total_size (m_state t)" and "27 \<notin> set chars" and "n \<le> length chars"
  shows "\<exists>r. print_loop outside n chars pos t = Some r"
  using assms
proof (induction n arbitrary: chars pos t)
  case (Suc n)
  then obtain c cs where chars: "chars = c # cs" "c \<noteq> 27" by (cases chars) auto
  obtain d u where u: "handle_char c pos t = Some (d, u)" using handle_char_total Suc.prems(1,2) by fast
  note wf = wf_same_mode [OF Suc.prems(1) handle_char_same [OF u]]
  obtain p v where v: "check_scroll (pos + d) u = Some (p, v)" using check_scroll_total [OF wf] by fast
  note s = check_scroll_in [OF wf v]
  from Suc.IH [OF wf_same_mode [OF wf conjunct1 [OF s]] conjunct2 [OF s], of cs] Suc.prems(3,4) chars
  show ?case by (subst print_loop.simps) (simp add: u v)
qed (simp add: print_loop.simps)

lemma print_stays_on_screen:
  assumes "wf_terminal t" and "cursor_pos (m_state t) < total_size (m_state t)"
    and "term_print outside chars n t = Some t'"
  shows "wf_terminal t' \<and> cursor_pos (m_state t') < total_size (m_state t')"
proof -
  from assms(3) obtain p u where u: "print_loop outside n chars (cursor_pos (m_state t)) t = Some (p, u)" "t' = set_cursor p u"
    by (auto simp: term_print_def)
  note m = print_loop_same [OF assms(1,2) u(1)]
  have "same_mode u t'" by (simp add: u(2))
  with conjunct2 [OF m] wf_same_mode [OF assms(1) same_mode_trans [OF conjunct1 [OF m] this]] show ?thesis
    by (simp add: u(2))
qed



section \<open>Plain text\<close>

definition plain_text :: "byte list \<Rightarrow> bool" where
  "plain_text chars \<longleftrightarrow> set chars \<inter> {8, 9, 10, 13, 27} = {}"

text \<open>The tape that begins with the screen, has the text from \<open>p\<close> on and is empty behind both.\<close>

definition tape :: "terminal \<Rightarrow> nat \<Rightarrow> byte list \<Rightarrow> nat \<Rightarrow> text_char" where
  "tape t p chars i =
     (if p \<le> i \<and> i < p + length chars then \<lparr>ch = chars ! (i - p), attr = color (m_state t)\<rparr>
      else if i < length (screen t) then screen t ! i
      else clear_val (m_state t))"

text \<open>How many rows have left the screen when the cursor of the tape is at \<open>q\<close>.\<close>

definition rows_gone :: "terminal \<Rightarrow> nat \<Rightarrow> nat" where
  "rows_gone t q =
     (if q < length (screen t) then 0 else (q - length (screen t)) div unat (t_width (m_state t)) + 1)"


lemma rows_gone_step:
  fixes q :: nat
  assumes "0 < unat (t_width (m_state t))" and "unat (t_width (m_state t)) \<le> length (screen t)"
  defines "w \<equiv> unat (t_width (m_state t))" and "k \<equiv> rows_gone t q"
  shows "k * w \<le> q" "q - k * w < length (screen t)"
    "q - k * w + 1 < length (screen t) \<Longrightarrow> rows_gone t (q + 1) = k"
    "q - k * w + 1 = length (screen t) \<Longrightarrow> rows_gone t (q + 1) = k + 1"
proof -
  let ?n = "length (screen t)"
  have w: "0 < w" "w \<le> ?n" using assms(1,2) by (simp_all add: w_def)
  have "k * w \<le> q \<and> q - k * w < ?n \<and> (q - k * w + 1 < ?n \<longrightarrow> rows_gone t (q + 1) = k)
    \<and> (q - k * w + 1 = ?n \<longrightarrow> rows_gone t (q + 1) = k + 1)"
  proof (cases "q < ?n")
    case True
    then show ?thesis by (auto simp: k_def rows_gone_def)
  next
    case False
    then obtain d where d: "q = ?n + d" by (metis le_add_diff_inverse not_less)
    define a r where "a = d div w" and "r = d mod w"
    have dr: "d = a * w + r" "r < w" using w(1) by (simp_all add: a_def r_def)
    have k: "k = a + 1" by (simp add: k_def rows_gone_def d a_def w_def)
    have q: "q - k * w = ?n - w + r" "k * w \<le> q" using w(2) dr by (simp_all add: d k)
    have g: "rows_gone t (Suc q) = Suc ((a * w + Suc r) div w)" by (simp add: rows_gone_def d w_def [symmetric] dr(1))
    have "(a * w + Suc r) div w = (if Suc r = w then Suc a else a)"
    proof (cases "Suc r = w")
      case True
      then have "a * w + Suc r = Suc a * w" by simp
      then show ?thesis using w(1) True by (metis nonzero_mult_div_cancel_right not_less_zero)
    next
      case False
      have "(a * w + x) div w = a" if "x < w" for x using that by simp
      from this [of "Suc r"] False dr(2) show ?thesis by simp
    qed
    with q w dr(2) show ?thesis by (auto simp: g k)
  qed
  then show "k * w \<le> q" "q - k * w < length (screen t)"
    "q - k * w + 1 < length (screen t) \<Longrightarrow> rows_gone t (q + 1) = k"
    "q - k * w + 1 = length (screen t) \<Longrightarrow> rows_gone t (q + 1) = k + 1" by simp_all
qed

text \<open>A terminal that shows the tape of another one with the text printed from \<open>p\<close> on.\<close>

definition shows_tape :: "terminal \<Rightarrow> nat \<Rightarrow> byte list \<Rightarrow> u32 \<Rightarrow> terminal \<Rightarrow> bool" where
  "shows_tape t p chars pos t' \<longleftrightarrow>
     (let k = rows_gone t (p + length chars) * unat (t_width (m_state t)) in
      same_mode t t' \<and> color (m_state t') = color (m_state t) \<and> clear_val (m_state t') = clear_val (m_state t)
      \<and> unat pos = p + length chars - k
      \<and> screen t' = map (\<lambda>i. tape t p chars (k + i)) [0..<length (screen t)])"

lemma shows_tape_step:
  assumes wf: "wf_terminal t" and "plain_text [c]" and s: "shows_tape t p chars pos u"
  shows "\<exists>pos' u'. Option.bind (handle_char c pos u) (\<lambda>(d, v). check_scroll (pos + d) v) = Some (pos', u')
    \<and> shows_tape t p (chars @ [c]) pos' u'"
proof -
  let ?n = "length (screen t)" and ?w = "unat (t_width (m_state t))" and ?q = "p + length chars"
  define k where "k = rows_gone t ?q"
  have n: "?n = unat (total_size (m_state t))" using wf by (simp add: wf_terminal_def)
  note w = wf_screen [OF wf]
  note r = rows_gone_step [of t ?q, folded k_def, unfolded n, OF w(1,2)]
  from s have u: "same_mode t u" "color (m_state u) = color (m_state t)" "clear_val (m_state u) = clear_val (m_state t)"
    "unat pos = ?q - k * ?w" "screen u = map (\<lambda>i. tape t p chars (k * ?w + i)) [0..<?n]"
    by (simp_all add: shows_tape_def k_def Let_def)
  define v where "v = u\<lparr>screen := (screen u)[unat pos := \<lparr>ch = c, attr = color (m_state t)\<rparr>]\<rparr>"
  have sv: "screen v = map (\<lambda>i. tape t p (chars @ [c]) (k * ?w + i)) [0..<?n]"
  proof (rule nth_equalityI)
    fix i assume "i < length (screen v)"
    then have "i < ?n" by (simp add: v_def u(5))
    then show "screen v ! i = map (\<lambda>i. tape t p (chars @ [c]) (k * ?w + i)) [0..<?n] ! i"
      using r(1) u(4) by (auto simp: v_def u(5) tape_def nth_list_update nth_append)
  qed (simp add: v_def u(5))
  have m: "same_mode t v" using u(1) by (simp add: same_mode_def v_def)
  have h: "handle_char c pos u = Some (1, v)"
    using \<open>plain_text [c]\<close> r(2) u by (simp add: plain_text_def handle_char_def Let_def v_def n)
  have lt: "unat pos + 1 < 2 ^ 32 \<or> unat pos + 1 = ?n"
    using r(2) unat_u32_bound [of "total_size (m_state t)"] u(4) by (simp add: n)
  have pos1: "unat (pos + 1) = unat pos + 1"
    using r(2) unat_u32_bound [of "total_size (m_state t)"] u(4) by (subst u32_add) (simp_all add: n)
  show ?thesis
  proof (cases "unat pos + 1 < ?n")
    case True
    then have "check_scroll (pos + 1) v = Some (pos + 1, v)"
      using m by (simp add: check_scroll_def same_mode_def word_le_nat_alt pos1 n)
    moreover have "rows_gone t (p + length (chars @ [c])) = k" using r(3) True u(4) by (simp add: n)
    ultimately show ?thesis
      using m sv u r(1) by (simp add: h shows_tape_def Let_def pos1) (simp add: v_def)
  next
    case False
    then have e: "unat pos + 1 = ?n" using r(2) u(4) by (simp add: n)
    obtain u' where u': "scroll_up v = Some u'" "same_mode v u'"
      "screen u' = drop (unat (t_width (m_state v))) (screen v) @ replicate (unat (t_width (m_state v))) (clear_val (m_state v))"
      "clear_val (m_state u') = clear_val (m_state v)" "color (m_state u') = color (m_state v)"
      by (rule scroll_up_rows [OF wf_same_mode [OF wf m]])
    have "total_size (m_state v) \<le> pos + 1" using m e by (simp add: same_mode_def word_le_nat_alt pos1 n)
    then have c: "check_scroll (pos + 1) v = Some (last_row_start (m_state t), u')"
      using m by (simp add: check_scroll_def u'(1) same_mode_def)
    have g: "rows_gone t (p + length (chars @ [c])) = k + 1" using r(4) e u(4) by (simp add: n)
    have "screen u' = map (\<lambda>i. tape t p (chars @ [c]) ((k + 1) * ?w + i)) [0..<?n]"
    proof (rule nth_equalityI)
      have wv: "unat (t_width (m_state v)) = ?w" "clear_val (m_state v) = clear_val (m_state t)"
        using m u(3) by (simp_all add: same_mode_def v_def)
      fix i assume "i < length (screen u')"
      then have i: "i < ?n" using m u'(2) by (simp add: same_mode_def)
      show "screen u' ! i = map (\<lambda>i. tape t p (chars @ [c]) ((k + 1) * ?w + i)) [0..<?n] ! i"
      proof (cases "i < ?n - ?w")
        case True
        then show ?thesis by (simp add: u'(3) wv sv nth_append algebra_simps)
      next
        case F: False
        have "p + length chars + 1 \<le> (k + 1) * ?w + i" using F e u(4) r(1) w(2) n by (simp add: algebra_simps)
        moreover have "\<not> (k + 1) * ?w + i < ?n" using F w(2) n by (simp add: algebra_simps)
        ultimately show ?thesis using F i w(2) by (simp add: u'(3) wv sv nth_append tape_def n)
      qed
    qed (use m u'(2) in \<open>simp add: same_mode_def\<close>)
    moreover have "unat (last_row_start (m_state t)) = p + length (chars @ [c]) - (k + 1) * ?w"
      using e u(4) r(1) w(3) by (simp add: n)
    ultimately show ?thesis
      using same_mode_trans [OF m u'(2)] u'(4,5) u(2,3)
      by (simp add: h c g [simplified] shows_tape_def Let_def) (simp add: v_def)
  qed
qed


lemma print_loop_char:
  "c \<noteq> 27 \<Longrightarrow> print_loop outside (Suc n) (c # cs) pos t =
     Option.bind (Option.bind (handle_char c pos t) (\<lambda>(d, v). check_scroll (pos + d) v))
       (\<lambda>(pos, t). print_loop outside n cs pos t)"
  by (subst print_loop.simps) (simp add: Option.bind_assoc split_def)

lemma print_loop_tape:
  assumes "wf_terminal t" and "plain_text xs" and "shows_tape t p ys pos u"
  shows "\<exists>pos' u'. print_loop outside (length xs) (xs @ rest) pos u = Some (pos', u') \<and> shows_tape t p (ys @ xs) pos' u'"
  using assms(2,3)
proof (induction xs arbitrary: ys pos u)
  case Nil then show ?case by (simp add: print_loop.simps)
next
  case (Cons c cs)
  then have "plain_text [c]" "plain_text cs" "c \<noteq> 27" by (simp_all add: plain_text_def)
  obtain q v where v: "Option.bind (handle_char c pos u) (\<lambda>(d, v). check_scroll (pos + d) v) = Some (q, v)"
    "shows_tape t p (ys @ [c]) q v"
    using shows_tape_step [OF assms(1) \<open>plain_text [c]\<close> Cons.prems(2)] by blast
  from Cons.IH [OF \<open>plain_text cs\<close> v(2)] show ?case
    by (simp add: print_loop_char [OF \<open>c \<noteq> 27\<close>] v(1))
qed

text \<open>C37: plain text of any length is printed as if onto a tape without end that begins with the screen: the cells
  from the cursor on hold the characters in the current colour, and the screen shows that tape without the rows
  that have left it at the top, as many as are needed to keep the cursor on it; behind the text everything is as it
  was, or empty on the rows that have come up.\<close>

theorem print_plain:
  assumes "wf_terminal t" and "cursor_pos (m_state t) < total_size (m_state t)" and "plain_text xs"
  defines "p \<equiv> unat (cursor_pos (m_state t))"
  defines "k \<equiv> rows_gone t (p + length xs) * unat (t_width (m_state t))"
  shows "\<exists>t'. term_print outside (xs @ rest) (length xs) t = Some t'
    \<and> screen t' = map (\<lambda>i. tape t p xs (k + i)) [0..<length (screen t)]
    \<and> unat (cursor_pos (m_state t')) = p + length xs - k \<and> display_cursor t' = cursor_pos (m_state t')
    \<and> color (m_state t') = color (m_state t)"
proof -
  from assms(1,2) have "p < length (screen t)" by (simp add: p_def wf_terminal_def word_less_nat_alt)
  moreover have "map (tape t p []) [0..<length (screen t)] = screen t"
    by (rule nth_equalityI) (auto simp: tape_def)
  ultimately have "shows_tape t p [] (cursor_pos (m_state t)) t"
    by (simp add: shows_tape_def Let_def rows_gone_def p_def)
  from print_loop_tape [OF assms(1,3) this, of outside rest] obtain q u where
    u: "print_loop outside (length xs) (xs @ rest) (cursor_pos (m_state t)) t = Some (q, u)" "shows_tape t p xs q u" by auto
  from u(2) show ?thesis
    by (intro exI [of _ "set_cursor q u"]) (simp add: term_print_def u(1) shows_tape_def Let_def k_def set_cursor_def)
qed

section \<open>The cursor inside of a text\<close>

lemma scroll_up_cursor: "scroll_up (set_cursor c t) = scroll_up t"
  by (simp add: scroll_up_def Let_def set_cursor_pos_def set_cursor_def)

lemma handle_char_cursor:
  "handle_char c pos (set_cursor q t) = map_option (\<lambda>(d, u). (d, set_cursor q u)) (handle_char c pos t)"
  by (auto simp: handle_char_def Let_def set_cursor_def)

lemma print_loop_cursor:
  assumes "27 \<notin> set xs" and "n \<le> length xs"
  shows "map_option (\<lambda>(pos, t). set_cursor pos t) (print_loop outside n (xs @ rest) pos (set_cursor q t)) =
    map_option (\<lambda>(pos, t). set_cursor pos t) (print_loop outside n (xs @ rest) pos t)"
  using assms
proof (induction n arbitrary: xs pos t)
  case 0
  then show ?case by (simp add: print_loop.simps) (simp add: set_cursor_def)
next
  case (Suc n)
  then obtain c cs where xs: "xs = c # cs" "c \<noteq> 27" by (cases xs) auto
  note IH = Suc.IH [of cs, simplified]
  show ?case
  proof (cases "handle_char c pos t")
    case None
    then show ?thesis by (simp add: xs print_loop_char handle_char_cursor)
  next
    case (Some du)
    obtain d u where du: "du = (d, u)" by force
    show ?thesis
      using Suc.prems xs IH [of "pos + d" u]
      by (simp add: print_loop_char handle_char_cursor Some du check_scroll_def scroll_up_cursor )
  qed
qed


lemma read_arg_one:
  assumes "i + 1 < length chars" and "ctype_isdigit outside (chars ! i)" and "\<not> ctype_isdigit outside (chars ! (i + 1))" and "argnum < 4"
  shows "read_arg outside chars (Suc (Suc k)) i argnum args =
    Some (args[argnum := args ! argnum * 10 + ucast (chars ! i - 48)], i + 1)"
  using assms by simp

lemma read_args_sep:
  assumes "read_arg outside chars (length chars) (i + 1) argnum args = Some (args', j)" and "chars ! j = 59"
  shows "read_args outside chars (Suc k) i argnum args = read_args outside chars k j (argnum + 1) args'"
  using assms by (simp del: read_arg.simps)

lemma read_args_end:
  assumes "read_arg outside chars (length chars) (i + 1) argnum args = Some (args', j)" and "chars ! j \<noteq> 59"
  shows "read_args outside chars (Suc k) i argnum args = Some (argnum + 1, args', j)"
  using assms by (simp del: read_arg.simps)

text \<open>The sequence that moves the cursor to a row and a column has no effect on the text behind it: whatever the
  two numbers are, a terminal that prints the sequence and a text looks afterwards exactly as if it had printed the
  text alone, at the place where the cursor was before.\<close>

theorem cursor_sequence_ignored:
  assumes "row < 10" and "column < 10" and "27 \<notin> set xs"
    and "cursor_pos (m_state t) < total_size (m_state t)"
  shows "term_print outside ([27, 91, 48 + row, 59, 48 + column, 72] @ xs) (6 + length xs) t = term_print outside xs (length xs) t"
proof -
  have d: "ctype_isdigit outside (48 + x)" "48 + x < 128" if "x < 10" for x :: byte
  proof -
    have "unat (48 + x) = 48 + unat x" using that by (subst unat_add_small) (simp_all add: word_less_nat_alt)
    with that show "48 + x < 128" by (simp add: word_less_nat_alt)
    with \<open>unat (48 + x) = 48 + unat x\<close> that show "ctype_isdigit outside (48 + x)"
      by (simp add: isdigit_ascii word_le_nat_alt word_less_nat_alt)
  qed
  have nd: "\<not> ctype_isdigit outside 59" "\<not> ctype_isdigit outside 72" by (simp_all add: isdigit_ascii)
  define sq where "sq = [27, 91, 48 + row, 59, 48 + column, 72] @ xs"
  have sq: "length sq = Suc (Suc (4 + length xs))" "sq ! 1 = 91" "sq ! 2 = 48 + row" "sq ! 3 = 59"
    "sq ! 4 = 48 + column" "sq ! 5 = 72" "drop 6 sq = xs"
    by (simp_all add: sq_def)
  have sq_Cons: "sq = 27 # tl sq" by (simp add: sq_def)
  have r1: "read_arg outside sq (length sq) 2 0 [0, 0, 0, 0] = Some ([ucast row, 0, 0, 0], 3)"
    using read_arg_one [of 2 sq outside 0 "4 + length xs" "[0, 0, 0, 0]"] by (simp add: sq d assms(1) nd del: read_arg.simps)
  have r2: "read_arg outside sq (length sq) 4 1 [ucast row, 0, 0, 0] = Some ([ucast row, ucast column, 0, 0], 5)"
    using read_arg_one [of 4 sq outside 1 "4 + length xs" "[ucast row, 0, 0, 0]"]
    by (simp add: sq d assms(2) nd del: read_arg.simps)
  have "read_args outside sq (Suc (Suc (4 + length xs))) 1 0 [0, 0, 0, 0] = read_args outside sq (Suc (4 + length xs)) 3 (0 + 1) [ucast row, 0, 0, 0]"
    by (rule read_args_sep) (use r1 in \<open>simp_all add: sq numeral_2_eq_2 del: read_arg.simps\<close>)
  also have "\<dots> = Some (0 + 1 + 1, [ucast row, ucast column, 0, 0], 5)"
    by (rule read_args_end) (use r2 in \<open>simp_all add: sq del: read_arg.simps\<close>)
  finally have "read_args outside sq (length sq) 1 0 [0, 0, 0, 0] = Some (2, [ucast row, ucast column, 0, 0], 5)"
    by (simp only: sq(1)) simp
  then have h: "handle_escape_sequence outside sq t = Some (5, set_cursor_pos (ucast row - 1) (ucast column - 1) t)"
    using sq(2) by (simp add: handle_escape_sequence_def sq del: read_args.simps)
  let ?u = "set_cursor_pos (ucast row - 1) (ucast column - 1) t"
  have s: "check_scroll (cursor_pos (m_state t)) ?u = Some (cursor_pos (m_state t), ?u)"
    using assms(4) by (simp add: check_scroll_def set_cursor_pos_def linorder_not_le [symmetric])
  have "print_loop outside (6 + length xs) sq (cursor_pos (m_state t)) t
      = Option.bind (handle_escape_sequence outside sq t) (\<lambda>(k, u). Option.bind (check_scroll (cursor_pos (m_state t)) u)
          (\<lambda>(pos, v). print_loop outside (6 + length xs - (k + 1)) (drop (k + 1) sq) pos v))"
    by (subst print_loop.simps, subst (2) sq_Cons) simp
  then have "print_loop outside (6 + length xs) sq (cursor_pos (m_state t)) t = print_loop outside (length xs) xs (cursor_pos (m_state t)) ?u"
    by (simp add: h s sq)
  then show ?thesis
    using print_loop_cursor [OF assms(3), of "length xs" outside "[]" "cursor_pos (m_state t)"]
    by (simp add: term_print_def set_cursor_pos_def sq_def)
qed


section \<open>A terminal of two rows\<close>

definition small_terminal :: terminal where
  "small_terminal = \<lparr>m_state = set_display_mode (True, 2, 2) initial_state, screen = replicate 4 \<lparr>ch = 0, attr = 15\<rparr>,
     display_cursor = 0, cursorstore = 0\<rparr>"

lemma small_terminal_wf: "wf_terminal small_terminal" "cursor_pos (m_state small_terminal) < total_size (m_state small_terminal)"
  by (simp_all add: small_terminal_def wf_terminal_def set_display_mode_def initial_state_def)


lemma print_plain_witness:
  "\<exists>t'. term_print (\<lambda>_. 0) [65, 66, 67, 68, 69] 5 small_terminal = Some t' \<and> map ch (screen t') = [67, 68, 69, 0]
    \<and> cursor_pos (m_state t') = 3"
proof -
  have "plain_text [65, 66, 67, 68, 69]" by (simp add: plain_text_def)
  have five: "length [65, 66, 67, 68, 69 :: byte] = 5" "[65, 66, 67, 68, 69 :: byte] @ [] = [65, 66, 67, 68, 69]" by simp_all
  note r = print_plain [OF small_terminal_wf \<open>plain_text _\<close>, of "\<lambda>_. 0" "[]", unfolded five]
  have p: "unat (cursor_pos (m_state small_terminal)) = 0" "length (screen small_terminal) = 4"
    "rows_gone small_terminal (0 + 5) = 1" "unat (t_width (m_state small_terminal)) = 2"
    by (simp_all add: small_terminal_def set_display_mode_def initial_state_def rows_gone_def)
  from r [unfolded p] obtain t' where
    t': "term_print (\<lambda>_. 0) [65, 66, 67, 68, 69] 5 small_terminal = Some t'"
      "screen t' = map (\<lambda>i. tape small_terminal 0 [65, 66, 67, 68, 69] (1 * 2 + i)) [0..<4]" "unat (cursor_pos (m_state t')) = 0 + 5 - 1 * 2"
    by blast
  from t'(2) have "map ch (screen t') = [67, 68, 69, 0]"
    by (simp only: t'(2)) code_simp
  moreover from t'(3) have "cursor_pos (m_state t') = 3" by (simp add: word_unat_eq_iff)
  ultimately show ?thesis by (intro exI [of _ t'] conjI t'(1))
qed

lemma cursor_sequence_ignored_witness:
  "term_print (\<lambda>_. 0) [27, 91, 49, 59, 49, 72, 65] 7 small_terminal = term_print (\<lambda>_. 0) [65] 1 small_terminal"
  using cursor_sequence_ignored [of 1 1 "[65]" small_terminal "\<lambda>_. 0"] small_terminal_wf by simp

end
