(* ===== verification/Input.thy ===== *)
theory Input
  imports Tasks
begin

text \<open>
  Keys and input events: the codes of the keys (\<open>api/virtual_keys.h\<close>), the keyboard's interrupt handler
  (\<open>drivers/at_kbrd.cpp\<close>), the kernel's ring buffer of events with the state of each key (\<open>kernel/input.cpp\<close>), and the
  characters that keys stand for (\<open>api/keyboard.c\<close>). Events reach the tasks of the active process only, so the operations
  take the processor and the scheduler's state.
\<close>

unbundle bit_operations_syntax

section \<open>Virtual keys\<close>

abbreviation VK_NONE :: byte where "VK_NONE \<equiv> 0"
abbreviation VK_BACKSPACE :: byte where "VK_BACKSPACE \<equiv> 1"
abbreviation VK_TAB :: byte where "VK_TAB \<equiv> 2"
abbreviation VK_ENTER :: byte where "VK_ENTER \<equiv> 3"
abbreviation VK_LSHIFT :: byte where "VK_LSHIFT \<equiv> 4"
abbreviation VK_RSHIFT :: byte where "VK_RSHIFT \<equiv> 5"
abbreviation VK_LCTRL :: byte where "VK_LCTRL \<equiv> 6"
abbreviation VK_RCTRL :: byte where "VK_RCTRL \<equiv> 7"
abbreviation VK_LALT :: byte where "VK_LALT \<equiv> 8"
abbreviation VK_RALT :: byte where "VK_RALT \<equiv> 9"
abbreviation VK_SPACE :: byte where "VK_SPACE \<equiv> 10"
abbreviation VK_CAPS_LOCK :: byte where "VK_CAPS_LOCK \<equiv> 11"
abbreviation VK_LEFT :: byte where "VK_LEFT \<equiv> 12"
abbreviation VK_UP :: byte where "VK_UP \<equiv> 13"
abbreviation VK_RIGHT :: byte where "VK_RIGHT \<equiv> 14"
abbreviation VK_DOWN :: byte where "VK_DOWN \<equiv> 15"
abbreviation VK_A :: byte where "VK_A \<equiv> 16"
abbreviation VK_B :: byte where "VK_B \<equiv> 17"
abbreviation VK_C :: byte where "VK_C \<equiv> 18"
abbreviation VK_D :: byte where "VK_D \<equiv> 19"
abbreviation VK_E :: byte where "VK_E \<equiv> 20"
abbreviation VK_F :: byte where "VK_F \<equiv> 21"
abbreviation VK_G :: byte where "VK_G \<equiv> 22"
abbreviation VK_H :: byte where "VK_H \<equiv> 23"
abbreviation VK_I :: byte where "VK_I \<equiv> 24"
abbreviation VK_J :: byte where "VK_J \<equiv> 25"
abbreviation VK_K :: byte where "VK_K \<equiv> 26"
abbreviation VK_L :: byte where "VK_L \<equiv> 27"
abbreviation VK_M :: byte where "VK_M \<equiv> 28"
abbreviation VK_N :: byte where "VK_N \<equiv> 29"
abbreviation VK_O :: byte where "VK_O \<equiv> 30"
abbreviation VK_P :: byte where "VK_P \<equiv> 31"
abbreviation VK_Q :: byte where "VK_Q \<equiv> 32"
abbreviation VK_R :: byte where "VK_R \<equiv> 33"
abbreviation VK_S :: byte where "VK_S \<equiv> 34"
abbreviation VK_T :: byte where "VK_T \<equiv> 35"
abbreviation VK_U :: byte where "VK_U \<equiv> 36"
abbreviation VK_V :: byte where "VK_V \<equiv> 37"
abbreviation VK_W :: byte where "VK_W \<equiv> 38"
abbreviation VK_X :: byte where "VK_X \<equiv> 39"
abbreviation VK_Y :: byte where "VK_Y \<equiv> 40"
abbreviation VK_Z :: byte where "VK_Z \<equiv> 41"
abbreviation VK_NUMLOCK :: byte where "VK_NUMLOCK \<equiv> 42"
abbreviation VK_NUMPAD_0 :: byte where "VK_NUMPAD_0 \<equiv> 43"
abbreviation VK_NUMPAD_1 :: byte where "VK_NUMPAD_1 \<equiv> 44"
abbreviation VK_NUMPAD_2 :: byte where "VK_NUMPAD_2 \<equiv> 45"
abbreviation VK_NUMPAD_3 :: byte where "VK_NUMPAD_3 \<equiv> 46"
abbreviation VK_NUMPAD_4 :: byte where "VK_NUMPAD_4 \<equiv> 47"
abbreviation VK_NUMPAD_5 :: byte where "VK_NUMPAD_5 \<equiv> 48"
abbreviation VK_NUMPAD_6 :: byte where "VK_NUMPAD_6 \<equiv> 49"
abbreviation VK_NUMPAD_7 :: byte where "VK_NUMPAD_7 \<equiv> 50"
abbreviation VK_NUMPAD_8 :: byte where "VK_NUMPAD_8 \<equiv> 51"
abbreviation VK_NUMPAD_9 :: byte where "VK_NUMPAD_9 \<equiv> 52"
abbreviation VK_NUMPAD_DIVIDE :: byte where "VK_NUMPAD_DIVIDE \<equiv> 53"
abbreviation VK_NUMPAD_MULIPLY :: byte where "VK_NUMPAD_MULIPLY \<equiv> 54"
abbreviation VK_NUMPAD_MINUS :: byte where "VK_NUMPAD_MINUS \<equiv> 55"
abbreviation VK_NUMPAD_PLUS :: byte where "VK_NUMPAD_PLUS \<equiv> 56"
abbreviation VK_NUMPAD_ENTER :: byte where "VK_NUMPAD_ENTER \<equiv> 57"
abbreviation VK_NUMPAD_PERIOD :: byte where "VK_NUMPAD_PERIOD \<equiv> 58"
abbreviation VK_BACKTICK :: byte where "VK_BACKTICK \<equiv> 59"
abbreviation VK_0 :: byte where "VK_0 \<equiv> 60"
abbreviation VK_1 :: byte where "VK_1 \<equiv> 61"
abbreviation VK_2 :: byte where "VK_2 \<equiv> 62"
abbreviation VK_3 :: byte where "VK_3 \<equiv> 63"
abbreviation VK_4 :: byte where "VK_4 \<equiv> 64"
abbreviation VK_5 :: byte where "VK_5 \<equiv> 65"
abbreviation VK_6 :: byte where "VK_6 \<equiv> 66"
abbreviation VK_7 :: byte where "VK_7 \<equiv> 67"
abbreviation VK_8 :: byte where "VK_8 \<equiv> 68"
abbreviation VK_9 :: byte where "VK_9 \<equiv> 69"
abbreviation VK_MINUS :: byte where "VK_MINUS \<equiv> 70"
abbreviation VK_EQUALS :: byte where "VK_EQUALS \<equiv> 71"
abbreviation VK_COMMA :: byte where "VK_COMMA \<equiv> 72"
abbreviation VK_PERIOD :: byte where "VK_PERIOD \<equiv> 73"
abbreviation VK_SLASH :: byte where "VK_SLASH \<equiv> 74"
abbreviation VK_SEMICOLON :: byte where "VK_SEMICOLON \<equiv> 75"
abbreviation VK_APOSTROPHE :: byte where "VK_APOSTROPHE \<equiv> 76"
abbreviation VK_LSQR_BRACKET :: byte where "VK_LSQR_BRACKET \<equiv> 77"
abbreviation VK_RSQR_BRACKET :: byte where "VK_RSQR_BRACKET \<equiv> 78"
abbreviation VK_BACKSLASH :: byte where "VK_BACKSLASH \<equiv> 79"
abbreviation VK_LMETA :: byte where "VK_LMETA \<equiv> 80"
abbreviation VK_RMETA :: byte where "VK_RMETA \<equiv> 81"
abbreviation VK_MENU :: byte where "VK_MENU \<equiv> 82"
abbreviation VK_PRINT_SCREEN :: byte where "VK_PRINT_SCREEN \<equiv> 83"
abbreviation VK_SCROLL_LOCK :: byte where "VK_SCROLL_LOCK \<equiv> 84"
abbreviation VK_PAUSE :: byte where "VK_PAUSE \<equiv> 85"
abbreviation VK_INSERT :: byte where "VK_INSERT \<equiv> 86"
abbreviation VK_HOME :: byte where "VK_HOME \<equiv> 87"
abbreviation VK_PAGE_UP :: byte where "VK_PAGE_UP \<equiv> 88"
abbreviation VK_DELETE :: byte where "VK_DELETE \<equiv> 89"
abbreviation VK_END :: byte where "VK_END \<equiv> 90"
abbreviation VK_PAGE_DOWN :: byte where "VK_PAGE_DOWN \<equiv> 91"
abbreviation VK_ESCAPE :: byte where "VK_ESCAPE \<equiv> 92"
abbreviation VK_F1 :: byte where "VK_F1 \<equiv> 93"
abbreviation VK_F2 :: byte where "VK_F2 \<equiv> 94"
abbreviation VK_F3 :: byte where "VK_F3 \<equiv> 95"
abbreviation VK_F4 :: byte where "VK_F4 \<equiv> 96"
abbreviation VK_F5 :: byte where "VK_F5 \<equiv> 97"
abbreviation VK_F6 :: byte where "VK_F6 \<equiv> 98"
abbreviation VK_F7 :: byte where "VK_F7 \<equiv> 99"
abbreviation VK_F8 :: byte where "VK_F8 \<equiv> 100"
abbreviation VK_F9 :: byte where "VK_F9 \<equiv> 101"
abbreviation VK_F10 :: byte where "VK_F10 \<equiv> 102"
abbreviation VK_F11 :: byte where "VK_F11 \<equiv> 103"
abbreviation VK_F12 :: byte where "VK_F12 \<equiv> 104"
abbreviation VK_MEDIA_PREVIOUS :: byte where "VK_MEDIA_PREVIOUS \<equiv> 105"
abbreviation VK_MEDIA_NEXT :: byte where "VK_MEDIA_NEXT \<equiv> 106"
abbreviation VK_MEDIA_PLAY :: byte where "VK_MEDIA_PLAY \<equiv> 107"
abbreviation VK_MEDIA_STOP :: byte where "VK_MEDIA_STOP \<equiv> 108"
abbreviation VK_VOLUME_UP :: byte where "VK_VOLUME_UP \<equiv> 109"
abbreviation VK_VOLUME_DOWN :: byte where "VK_VOLUME_DOWN \<equiv> 110"
abbreviation VK_MUTE :: byte where "VK_MUTE \<equiv> 111"
abbreviation VK_CALC :: byte where "VK_CALC \<equiv> 112"
abbreviation VK_WWW :: byte where "VK_WWW \<equiv> 113"
abbreviation VK_WWW_SEARCH :: byte where "VK_WWW_SEARCH \<equiv> 114"
abbreviation VK_WWW_FWD :: byte where "VK_WWW_FWD \<equiv> 115"
abbreviation VK_WWW_BACK :: byte where "VK_WWW_BACK \<equiv> 116"
abbreviation VK_WWW_FAV :: byte where "VK_WWW_FAV \<equiv> 117"
abbreviation VK_WWW_REF :: byte where "VK_WWW_REF \<equiv> 118"
abbreviation VK_WWW_STOP :: byte where "VK_WWW_STOP \<equiv> 119"
abbreviation VK_POWER :: byte where "VK_POWER \<equiv> 120"
abbreviation VK_SLEEP :: byte where "VK_SLEEP \<equiv> 121"
abbreviation VK_WAKE :: byte where "VK_WAKE \<equiv> 122"
abbreviation VK_MYCOMP :: byte where "VK_MYCOMP \<equiv> 123"
abbreviation VK_MAIL :: byte where "VK_MAIL \<equiv> 124"
abbreviation VK_APPS :: byte where "VK_APPS \<equiv> 125"
abbreviation VK_MEDIA_SELECT :: byte where "VK_MEDIA_SELECT \<equiv> 126"

definition NUM_VIRTUAL_KEYS :: nat where "NUM_VIRTUAL_KEYS = 127"

type_synonym key_type = u32

section \<open>Events\<close>

datatype event_type = BUTTON_DOWN | BUTTON_UP | KEY_DOWN | KEY_UP | AXIS_MOTION

record input_event =
  device_index :: u32
  control_index :: u32
  ev_data :: int
  ev_type :: event_type
  time_stamp :: u64

definition INPUT_BUFFER_SIZE :: u32 where "INPUT_BUFFER_SIZE = 64"

record input =
  virtual_keystates :: "bool list"
  input_buf_front :: u32
  input_buf_back :: u32
  input_buf :: "input_event list"

text \<open>A key code outside of the array of states has no result.\<close>

definition note_key :: "input_event \<Rightarrow> input \<Rightarrow> input option" where
  "note_key e i =
     (if 0 \<le> ev_data e \<and> ev_data e < int (length (virtual_keystates i))
      then Some (i\<lparr>virtual_keystates := (virtual_keystates i)[nat (ev_data e) := (ev_type e = KEY_DOWN)]\<rparr>) else None)"

definition put_event :: "input_event \<Rightarrow> input \<Rightarrow> input" where
  "put_event e i =
     i\<lparr>input_buf := (input_buf i)[unat (input_buf_front i) := e],
       input_buf_front := (input_buf_front i + 1) mod INPUT_BUFFER_SIZE\<rparr>"

definition handle_input_event :: "nat \<Rightarrow> input_event \<Rightarrow> input \<times> sched \<Rightarrow> (input \<times> sched) option" where
  "handle_input_event c e x =
     (case x of (i, s) \<Rightarrow>
        if ev_type e = KEY_DOWN \<or> ev_type e = KEY_UP
        then do {
          i \<leftarrow> note_key e i;
          if ev_type e = KEY_DOWN \<and> ev_data e = uint VK_TAB
             \<and> (virtual_keystates i ! unat VK_RALT \<or> virtual_keystates i ! unat VK_LALT)
          then map_option (Pair i) (run_next_task c s)
          else Some (put_event e i, s)
        }
        else Some (put_event e i, s))"

text \<open>The status, the event that is stored through the pointer, and the buffer.\<close>

definition do_get_input_event :: "nat \<Rightarrow> input \<Rightarrow> sched \<Rightarrow> (int \<times> input_event option \<times> input) option" where
  "do_get_input_event c i s = do {
     active \<leftarrow> this_task_is_active c s;
     if active
     then if input_buf_back i \<noteq> input_buf_front i
          then Some (0, Some (input_buf i ! unat (input_buf_back i)),
                 i\<lparr>input_buf_back := (input_buf_back i + 1) mod INPUT_BUFFER_SIZE\<rparr>)
          else Some (1, None, i)
     else Some (-1, None, i)
   }"

text \<open>A task that waits is woken by each event; what happens to the buffer and the scheduler before each time it wakes is an
  argument, and a task that is not woken any more does not return.\<close>

fun get_input_event_wait ::
    "nat \<Rightarrow> (input \<times> sched \<Rightarrow> (input \<times> sched) option) list \<Rightarrow> input \<times> sched \<Rightarrow> (input_event option \<times> input \<times> sched) option" where
  "get_input_event_wait c meanwhile (i, s) =
     Option.bind (do_get_input_event c i s) (\<lambda>(r, e, i).
       if r = 0 then Some (e, i, s)
       else case meanwhile of
         [] \<Rightarrow> None
       | m # ms \<Rightarrow> Option.bind (m (i, s)) (get_input_event_wait c ms))"

definition get_input_event ::
    "nat \<Rightarrow> bool \<Rightarrow> (input \<times> sched \<Rightarrow> (input \<times> sched) option) list \<Rightarrow> input \<times> sched \<Rightarrow> (int \<times> input_event option \<times> input \<times> sched) option" where
  "get_input_event c wait meanwhile x =
     (if wait then map_option (Pair 0) (get_input_event_wait c meanwhile x)
      else case x of (i, s) \<Rightarrow> map_option (\<lambda>(r, e, i). (r, e, i, s)) (do_get_input_event c i s))"

definition get_keystate :: "nat \<Rightarrow> key_type \<Rightarrow> input \<Rightarrow> sched \<Rightarrow> bool option" where
  "get_keystate c key i s =
     (if NUM_VIRTUAL_KEYS \<le> unat key then Some False
      else map_option (\<lambda>active. active \<and> virtual_keystates i ! unat key) (this_task_is_active c s))"

section \<open>The keyboard\<close>

definition key_translation_table :: "byte list" where
  "key_translation_table =
    [VK_NONE, VK_ESCAPE, VK_1, VK_2,
     VK_3, VK_4, VK_5, VK_6,
     VK_7, VK_8, VK_9, VK_0,
     VK_MINUS, VK_EQUALS, VK_BACKSPACE, VK_TAB,
     VK_Q, VK_W, VK_E, VK_R,
     VK_T, VK_Y, VK_U, VK_I,
     VK_O, VK_P, VK_LSQR_BRACKET, VK_RSQR_BRACKET,
     VK_ENTER, VK_LCTRL, VK_A, VK_S,
     VK_D, VK_F, VK_G, VK_H,
     VK_J, VK_K, VK_L, VK_SEMICOLON,
     VK_APOSTROPHE, VK_BACKTICK, VK_LSHIFT, VK_BACKSLASH,
     VK_Z, VK_X, VK_C, VK_V,
     VK_B, VK_N, VK_M, VK_COMMA,
     VK_PERIOD, VK_SLASH, VK_RSHIFT, VK_NUMPAD_MULIPLY,
     VK_LALT, VK_SPACE, VK_CAPS_LOCK, VK_F1,
     VK_F2, VK_F3, VK_F4, VK_F5,
     VK_F6, VK_F7, VK_F8, VK_F9,
     VK_F10, VK_NUMLOCK, VK_CAPS_LOCK, VK_NUMPAD_7,
     VK_NUMPAD_8, VK_NUMPAD_9, VK_NUMPAD_MINUS, VK_NUMPAD_4,
     VK_NUMPAD_5, VK_NUMPAD_6, VK_NUMPAD_PLUS, VK_NUMPAD_1,
     VK_NUMPAD_2, VK_NUMPAD_3, VK_NUMPAD_0, VK_NUMPAD_PERIOD,
     VK_NONE, VK_NONE, VK_NONE, VK_F11,
     VK_F12, VK_NONE, VK_NONE, VK_NONE,
     VK_NONE, VK_NONE, VK_NONE, VK_NONE,
     VK_NONE, VK_NONE, VK_NONE, VK_NONE,
     VK_NONE, VK_NONE, VK_NONE, VK_NONE,
     VK_NONE, VK_NONE, VK_NONE, VK_NONE,
     VK_NONE, VK_NONE, VK_NONE, VK_NONE,
     VK_NONE, VK_NONE, VK_NONE, VK_NONE,
     VK_NONE, VK_NONE, VK_NONE, VK_NONE,
     VK_NONE, VK_NONE, VK_NONE, VK_NONE,
     VK_NONE, VK_NONE, VK_NONE, VK_NONE,
     VK_NONE, VK_NONE, VK_NONE, VK_NONE,
     VK_NONE, VK_NONE, VK_NONE, VK_NONE,
     VK_NONE, VK_NONE, VK_NONE, VK_NONE,
     VK_NONE, VK_NONE, VK_NONE, VK_NONE,
     VK_MEDIA_PREVIOUS, VK_NONE, VK_NONE, VK_NONE,
     VK_NONE, VK_NONE, VK_NONE, VK_NONE,
     VK_NONE, VK_MEDIA_NEXT, VK_NONE, VK_NONE,
     VK_NUMPAD_ENTER, VK_RCTRL, VK_NONE, VK_NONE,
     VK_MUTE, VK_CALC, VK_MEDIA_PLAY, VK_NONE,
     VK_MEDIA_STOP, VK_NONE, VK_NONE, VK_NONE,
     VK_NONE, VK_NONE, VK_NONE, VK_NONE,
     VK_NONE, VK_NONE, VK_VOLUME_UP, VK_VOLUME_DOWN,
     VK_NONE, VK_WWW, VK_NONE, VK_NONE,
     VK_NONE, VK_NUMPAD_DIVIDE, VK_NONE, VK_NONE,
     VK_RALT, VK_NONE, VK_NONE, VK_NONE,
     VK_NONE, VK_NONE, VK_NONE, VK_NONE,
     VK_NONE, VK_NONE, VK_NONE, VK_NONE,
     VK_NONE, VK_NONE, VK_NONE, VK_HOME,
     VK_UP, VK_PAGE_UP, VK_NONE, VK_LEFT,
     VK_NONE, VK_RIGHT, VK_NONE, VK_END,
     VK_DOWN, VK_PAGE_DOWN, VK_INSERT, VK_DELETE,
     VK_NONE, VK_NONE, VK_NONE, VK_NONE,
     VK_NONE, VK_NONE, VK_NONE, VK_LMETA,
     VK_RMETA, VK_APPS, VK_POWER, VK_SLEEP,
     VK_NONE, VK_NONE, VK_NONE, VK_WAKE,
     VK_NONE, VK_WWW_SEARCH, VK_WWW_FAV, VK_WWW_REF,
     VK_WWW_STOP, VK_WWW_FWD, VK_WWW_BACK, VK_MYCOMP,
     VK_MAIL, VK_MEDIA_SELECT, VK_NONE, VK_NONE,
     VK_NONE, VK_NONE, VK_NONE, VK_NONE,
     VK_NONE, VK_NONE, VK_NONE, VK_NONE,
     VK_NONE, VK_NONE, VK_NONE, VK_NONE,
     VK_NONE, VK_NONE, VK_NONE, VK_NONE]"

text \<open>The interrupt handler with the byte from the port and the time; the state holds the last byte.\<close>

definition at_keyboard_handler ::
    "nat \<Rightarrow> byte \<Rightarrow> u64 \<Rightarrow> byte \<times> input \<times> sched \<Rightarrow> (byte \<times> input \<times> sched) option" where
  "at_keyboard_handler c key_data ticks x =
     (case x of (last_key, y) \<Rightarrow>
        map_option (Pair key_data)
          (if key_data < 0xE0
           then let lookup = key_data AND 0x7f;
                    lookup = (if last_key = 0xE0 then lookup + 128 else lookup)
                in handle_input_event c
                     \<lparr>device_index = 0, control_index = 0, ev_data = uint (key_translation_table ! unat lookup),
                      ev_type = (if key_data AND 0x80 = 0 then KEY_DOWN else KEY_UP), time_stamp = ticks\<rparr> y
           else Some y))"

section \<open>Characters\<close>

definition vk_to_ascii :: "byte list" where
  "vk_to_ascii =
    [0, 8, 9, 10, 0, 0, 0, 0, 0, 0, 32, 0, 0, 0, 0, 0, 97, 98, 99, 100, 101, 102, 103, 104,
     105, 106, 107, 108, 109, 110, 111, 112, 113, 114, 115, 116, 117, 118, 119, 120, 121, 122, 0, 48, 49, 50, 51, 52,
     53, 54, 55, 56, 57, 47, 42, 45, 43, 10, 46, 96, 48, 49, 50, 51, 52, 53, 54, 55, 56, 57, 45, 61,
     44, 46, 47, 59, 39, 91, 93, 92, 0, 0, 0, 0, 0, 0, 0, 0, 0, 0, 0, 0, 27, 0, 0, 0,
     0, 0, 0, 0, 0, 0, 0, 0, 0, 0, 0, 0, 0, 0, 0, 0, 0, 0, 0, 0, 0, 0, 0, 0,
     0, 0, 0, 0, 0, 0, 0,
     0, 8, 9, 10, 0, 0, 0, 0, 0, 0, 32, 0, 0, 0, 0, 0, 65, 66, 67, 68, 69, 70, 71, 72,
     73, 74, 75, 76, 77, 78, 79, 80, 81, 82, 83, 84, 85, 86, 87, 88, 89, 90, 0, 48, 49, 50, 51, 52,
     53, 54, 55, 56, 57, 47, 42, 45, 43, 10, 46, 126, 41, 33, 64, 35, 36, 37, 94, 38, 42, 40, 95, 43,
     60, 62, 63, 58, 34, 123, 125, 124, 0, 0, 0, 0, 0, 0, 0, 0, 0, 0, 0, 0, 27, 0, 0, 0,
     0, 0, 0, 0, 0, 0, 0, 0, 0, 0, 0, 0, 0, 0, 0, 0, 0, 0, 0, 0, 0, 0, 0, 0,
     0, 0, 0, 0, 0, 0, 0]"

definition get_ascii_from_vk :: "nat \<Rightarrow> key_type \<Rightarrow> input \<Rightarrow> sched \<Rightarrow> byte option" where
  "get_ascii_from_vk c k i s = do {
     down \<leftarrow> (if unat k < NUM_VIRTUAL_KEYS then get_keystate c k i s else Some False);
     if down
     then do {
       left \<leftarrow> get_keystate c (ucast VK_LSHIFT) i s;
       right \<leftarrow> get_keystate c (ucast VK_RSHIFT) i s;
       Some (vk_to_ascii ! (if left \<or> right then unat k + NUM_VIRTUAL_KEYS else unat k))
     }
     else Some 0
   }"

end
