(* ===== verification/InputCorrect.thy ===== *)
theory InputCorrect
  imports Input TasksCorrect
begin

text \<open>
  Input events: the ring buffer is a queue of up to 63 events (the contract \<open>bounded_queue\<close>), which are delivered in
  order; one more event and all are lost. What is typed on the keyboard is the character of the key.
\<close>

section \<open>A queue in a fixed space\<close>

locale bounded_queue =
  fixes inv :: "'q \<Rightarrow> bool" and content :: "'q \<Rightarrow> 'e list" and cap :: nat
    and put :: "'e \<Rightarrow> 'q \<Rightarrow> 'q" and get :: "'q \<Rightarrow> ('e \<times> 'q) option"
  assumes put_inv: "inv q \<Longrightarrow> inv (put e q)"
    and put_content: "inv q \<Longrightarrow> length (content q) < cap \<Longrightarrow> content (put e q) = content q @ [e]"
    and put_full: "inv q \<Longrightarrow> length (content q) = cap \<Longrightarrow> content (put e q) = []"
    and get_Cons: "inv q \<Longrightarrow> content q = e # es \<Longrightarrow> \<exists>q'. get q = Some (e, q') \<and> inv q' \<and> content q' = es"
    and get_Nil: "inv q \<Longrightarrow> content q = [] \<Longrightarrow> get q = None"
begin

fun get_n :: "nat \<Rightarrow> 'q \<Rightarrow> ('e list \<times> 'q) option" where
  "get_n 0 q = Some ([], q)"
| "get_n (Suc n) q = Option.bind (get q) (\<lambda>(e, q). map_option (\<lambda>(es, q). (e # es, q)) (get_n n q))"

lemma puts_inv: "inv q \<Longrightarrow> inv (fold put es q)"
  by (induction es arbitrary: q) (auto intro: put_inv)

lemma puts_content:
  "inv q \<Longrightarrow> length (content q) + length es \<le> cap \<Longrightarrow> content (fold put es q) = content q @ es"
  by (induction es arbitrary: q) (auto simp: put_inv put_content)

lemma puts_overflow:
  assumes "inv q" and "length (content q) + length es = cap + 1" and "es \<noteq> []"
  shows "content (fold put es q) = []"
proof -
  from assms(3) obtain fs e where es: "es = fs @ [e]" by (metis rev_exhaust)
  with assms(2) have "length (content q) + length fs = cap" by simp
  with puts_content [OF assms(1), of fs] have "length (content (fold put fs q)) = cap" by simp
  with put_full [OF puts_inv [OF assms(1)]] show ?thesis by (simp add: es)
qed

lemma get_all:
  "inv q \<Longrightarrow> \<exists>q'. get_n (length (content q)) q = Some (content q, q') \<and> inv q' \<and> content q' = []"
proof (induction "content q" arbitrary: q)
  case Nil
  then show ?case by (auto simp: Nil(1) [symmetric])
next
  case (Cons e es)
  obtain q1 where q1: "get q = Some (e, q1)" "inv q1" "content q1 = es"
    using get_Cons [OF Cons.prems Cons.hyps(2) [symmetric]] by blast
  from Cons.hyps(1) [OF q1(3) [symmetric] q1(2)] q1 show ?case
    by (auto simp: Cons.hyps(2) [symmetric])
qed

end

section \<open>The ring buffer\<close>

definition ring_inv :: "input \<Rightarrow> bool" where
  "ring_inv i \<longleftrightarrow> length (input_buf i) = 64 \<and> length (virtual_keystates i) = NUM_VIRTUAL_KEYS
     \<and> unat (input_buf_front i) < 64 \<and> unat (input_buf_back i) < 64"

definition pending :: "input \<Rightarrow> input_event list" where
  "pending i = map (\<lambda>k. input_buf i ! ((unat (input_buf_back i) + k) mod 64))
     [0..<(unat (input_buf_front i) + 64 - unat (input_buf_back i)) mod 64]"

definition take_event :: "input \<Rightarrow> (input_event \<times> input) option" where
  "take_event i =
     (if input_buf_back i \<noteq> input_buf_front i
      then Some (input_buf i ! unat (input_buf_back i), i\<lparr>input_buf_back := (input_buf_back i + 1) mod INPUT_BUFFER_SIZE\<rparr>)
      else None)"

lemma next_slot: "unat (x :: u32) < 64 \<Longrightarrow> unat ((x + 1) mod INPUT_BUFFER_SIZE) = (unat x + 1) mod 64"
  by (simp add: INPUT_BUFFER_SIZE_def unat_mod unat_word_ariths)

lemma ring_distance:
  fixes f b :: nat
  assumes "f < 64" and "b < 64"
  shows "((f + 1) mod 64 + 64 - b) mod 64 = (if (f + 64 - b) mod 64 = 63 then 0 else (f + 64 - b) mod 64 + 1)"
    "f \<noteq> b \<Longrightarrow> (f + 64 - b) mod 64 = Suc ((f + 64 - (b + 1) mod 64) mod 64)"
    "f = b \<longleftrightarrow> (f + 64 - b) mod 64 = 0"
    "(b + (f + 64 - b) mod 64) mod 64 = f"
    "k < (f + 64 - b) mod 64 \<Longrightarrow> (b + k) mod 64 \<noteq> f"
proof -
  have m: "n < 128 \<Longrightarrow> n mod 64 = (if n < 64 then n else n - 64)" for n :: nat
    by (simp add: mod_if)
  have s: "(x + 1) mod 64 = (if x = 63 then 0 else x + 1)" if "x < 64" for x :: nat
    using that by (cases "x = 63") auto
  define d where "d = (f + 64 - b) mod 64"
  have d: "d = (if b \<le> f then f - b else f + 64 - b)"
    unfolding d_def using assms by (subst m) auto
  from assms show "((f + 1) mod 64 + 64 - b) mod 64 = (if d = 63 then 0 else d + 1)"
    unfolding s [OF assms(1)] by (subst m) (auto simp: d split: if_splits)
  from assms show "f \<noteq> b \<Longrightarrow> d = Suc ((f + 64 - (b + 1) mod 64) mod 64)"
    unfolding s [OF assms(2)] by (subst m) (auto simp: d split: if_splits)
  from assms show "f = b \<longleftrightarrow> d = 0" by (auto simp: d)
  from assms show "(b + d) mod 64 = f" by (subst m) (auto simp: d)
  from assms show "k < d \<Longrightarrow> (b + k) mod 64 \<noteq> f" by (subst m) (auto simp: d split: if_splits)
qed

lemma put_event_pending:
  assumes "ring_inv i" and "length (pending i) < 63"
  shows "pending (put_event e i) = pending i @ [e]"
proof -
  let ?f = "unat (input_buf_front i)" and ?b = "unat (input_buf_back i)"
  let ?d = "(?f + 64 - ?b) mod 64"
  from assms have i: "?f < 64" "?b < 64" "length (input_buf i) = 64" "?d < 63" by (simp_all add: ring_inv_def pending_def)
  note r = ring_distance [OF i(1,2)]
  have "pending (put_event e i) = map (\<lambda>k. (input_buf i)[?f := e] ! ((?b + k) mod 64)) [0..<?d + 1]"
    using i r(1) by (simp add: pending_def put_event_def next_slot)
  also have "\<dots> = map (\<lambda>k. (input_buf i)[?f := e] ! ((?b + k) mod 64)) [0..<?d] @ [(input_buf i)[?f := e] ! ?f]"
    using r(4) by simp
  also have "\<dots> = pending i @ [e]"
    using not_sym [OF r(5)] i by (auto simp: pending_def)
  finally show ?thesis .
qed

lemma put_event_full:
  assumes "ring_inv i" and "length (pending i) = 63"
  shows "pending (put_event e i) = []"
  using assms ring_distance(1) [of "unat (input_buf_front i)" "unat (input_buf_back i)"]
  by (simp add: pending_def put_event_def next_slot ring_inv_def)

lemma take_event_Nil: "ring_inv i \<Longrightarrow> pending i = [] \<Longrightarrow> take_event i = None"
  using ring_distance(3) [of "unat (input_buf_front i)" "unat (input_buf_back i)"]
  by (simp add: pending_def take_event_def ring_inv_def word_unat_eq_iff)

lemma take_event_Cons:
  assumes "ring_inv i" and "pending i = e # es"
  shows "\<exists>j. take_event i = Some (e, j) \<and> ring_inv j \<and> pending j = es"
proof -
  let ?f = "unat (input_buf_front i)" and ?b = "unat (input_buf_back i)"
  let ?d = "(?f + 64 - (?b + 1) mod 64) mod 64"
  from assms have i: "?f < 64" "?b < 64" "length (input_buf i) = 64" by (simp_all add: ring_inv_def)
  note r = ring_distance [OF i(1,2)]
  have ne: "?f \<noteq> ?b"
  proof
    assume "?f = ?b"
    then have "pending i = []" by (simp add: pending_def)
    with assms(2) show False by simp
  qed
  have p: "pending i = map (\<lambda>k. input_buf i ! ((?b + k) mod 64)) [0..<Suc ?d]"
    using r(2) [OF ne] by (simp only: pending_def)
  have shift: "map f [0..<Suc n] = f 0 # map (\<lambda>k. f (Suc k)) [0..<n]" for f :: "nat \<Rightarrow> 'a" and n
  proof -
    have "[0..<Suc n] = 0 # map Suc [0..<n]" by (simp add: map_Suc_upt upt_conv_Cons del: upt_Suc)
    then show ?thesis by (simp del: upt_Suc)
  qed
  have "e = input_buf i ! (?b mod 64)" "es = map (\<lambda>k. input_buf i ! ((?b + Suc k) mod 64)) [0..<?d]"
    using p assms(2) unfolding shift by simp_all
  moreover have "((?b + 1) mod 64 + k) mod 64 = (?b + Suc k) mod 64" for k by (simp add: mod_simps)
  ultimately show ?thesis
    using ne i assms(1)
    by (auto simp: take_event_def pending_def next_slot ring_inv_def word_unat_eq_iff)
qed

lemma put_event_inv: "ring_inv i \<Longrightarrow> ring_inv (put_event e i)"
  by (simp add: ring_inv_def put_event_def next_slot)

interpretation events: bounded_queue ring_inv pending 63 put_event take_event
  by unfold_locales (simp_all add: put_event_inv put_event_pending put_event_full take_event_Cons take_event_Nil)


section \<open>Events on their way to a task\<close>

text \<open>Events that do not switch to another process: no tabulator, and of the keys that there are.\<close>

definition ordinary :: "input_event \<Rightarrow> bool" where
  "ordinary e \<longleftrightarrow> (ev_type e = KEY_DOWN \<or> ev_type e = KEY_UP \<longrightarrow> 0 \<le> ev_data e \<and> ev_data e < 127 \<and> ev_data e \<noteq> uint VK_TAB)"

fun handle_events :: "nat \<Rightarrow> input_event list \<Rightarrow> input \<times> sched \<Rightarrow> (input \<times> sched) option" where
  "handle_events c [] x = Some x"
| "handle_events c (e # es) x = Option.bind (handle_input_event c e x) (handle_events c es)"

fun read_events :: "nat \<Rightarrow> nat \<Rightarrow> input \<times> sched \<Rightarrow> (input_event list \<times> input \<times> sched) option" where
  "read_events c 0 x = Some ([], x)"
| "read_events c (Suc n) x =
     (case get_input_event c False [] x of
        Some (r, Some e, x) \<Rightarrow> map_option (\<lambda>(es, x). (e # es, x)) (read_events c n x)
      | _ \<Rightarrow> None)"

definition same_events :: "input \<Rightarrow> input \<Rightarrow> bool" where
  "same_events i j \<longleftrightarrow> (\<exists>ks. length ks = length (virtual_keystates i) \<and> j = i\<lparr>virtual_keystates := ks\<rparr>)"

lemma same_events_facts:
  assumes "same_events i j"
  shows "pending j = pending i" "ring_inv j = ring_inv i" "same_events (put_event e i) (put_event e j)"
  using assms by (auto simp: same_events_def pending_def ring_inv_def put_event_def)

lemma same_events_fold: "same_events i j \<Longrightarrow> same_events (fold put_event es i) (fold put_event es j)"
  by (induction es arbitrary: i j) (auto intro: same_events_facts(3))

lemma handle_ordinary:
  assumes "ordinary e" and "ring_inv i"
  shows "\<exists>j. handle_input_event c e (i, s) = Some (put_event e j, s) \<and> same_events i j"
proof (cases "ev_type e = KEY_DOWN \<or> ev_type e = KEY_UP")
  case True
  with assms have "note_key e i = Some (i\<lparr>virtual_keystates := (virtual_keystates i)[nat (ev_data e) := (ev_type e = KEY_DOWN)]\<rparr>)"
    and "ev_data e \<noteq> uint VK_TAB"
    by (simp_all add: ordinary_def note_key_def ring_inv_def NUM_VIRTUAL_KEYS_def)
  then show ?thesis
    by (intro exI [of _ "i\<lparr>virtual_keystates := (virtual_keystates i)[nat (ev_data e) := (ev_type e = KEY_DOWN)]\<rparr>"])
       (use True in \<open>auto simp: handle_input_event_def same_events_def intro!: exI [of _ "(virtual_keystates i)[nat (ev_data e) := (ev_type e = KEY_DOWN)]"]\<close>)
next
  case False
  then show ?thesis
    by (intro exI [of _ i]) (auto simp: handle_input_event_def same_events_def intro!: exI [of _ "virtual_keystates i"])
qed

lemma same_events_trans: "same_events i j \<Longrightarrow> same_events j k \<Longrightarrow> same_events i k"
  by (auto simp: same_events_def)

lemma handle_events_fold:
  assumes "\<forall>e\<in>set es. ordinary e" and "ring_inv i"
  shows "\<exists>j. handle_events c es (i, s) = Some (j, s) \<and> same_events (fold put_event es i) j"
  using assms
proof (induction es arbitrary: i)
  case Nil
  then show ?case by (auto simp: same_events_def intro!: exI [of _ "virtual_keystates i"])
next
  case (Cons e es)
  then obtain j where j: "handle_input_event c e (i, s) = Some (put_event e j, s)" "same_events i j"
    using handle_ordinary by (metis list.set_intros(1))
  from Cons.prems j(2) have "ring_inv (put_event e j)" by (simp add: put_event_inv same_events_facts(2))
  with Cons obtain k where k: "handle_events c es (put_event e j, s) = Some (k, s)"
    "same_events (fold put_event es (put_event e j)) k" by auto
  have "same_events (fold put_event es (put_event e i)) (fold put_event es (put_event e j))"
    by (rule same_events_fold [OF same_events_facts(3) [OF j(2)]])
  with k(2) have "same_events (fold put_event es (put_event e i)) k" by (rule same_events_trans [rotated])
  with j(1) k(1) show ?case by simp
qed

lemma get_take:
  assumes "this_task_is_active c s = Some True"
  shows "get_input_event c False m (i, s) =
    (case take_event i of Some (e, j) \<Rightarrow> Some (0, Some e, j, s) | None \<Rightarrow> Some (1, None, i, s))"
  using assms by (simp add: get_input_event_def do_get_input_event_def take_event_def)

lemma read_events_get_n:
  assumes "this_task_is_active c s = Some True"
  shows "read_events c n (i, s) = map_option (\<lambda>(es, j). (es, j, s)) (events.get_n n i)"
proof (induction n arbitrary: i)
  case (Suc n)
  show ?case by (cases "take_event i") (auto simp: get_take [OF assms] Suc option.map_comp comp_def split_def)
qed simp


text \<open>When the 64th event arrives before one is read, all of them are lost: the buffer is taken for an empty one.\<close>

theorem input_overflow:
  assumes "ring_inv i" and "this_task_is_active c s = Some True" and "\<forall>e\<in>set es. ordinary e" and "es \<noteq> []"
    and "length (pending i) + length es = 64"
  shows "\<exists>j. handle_events c es (i, s) = Some (j, s) \<and> get_input_event c False [] (j, s) = Some (1, None, j, s)"
proof -
  obtain j where j: "handle_events c es (i, s) = Some (j, s)" "same_events (fold put_event es i) j"
    using handle_events_fold [OF assms(3,1)] by blast
  have "pending j = []" "ring_inv j"
    using events.puts_overflow [OF assms(1) _ assms(4)] assms(5) events.puts_inv [OF assms(1)] same_events_facts(1,2) [OF j(2)]
    by simp_all
  from take_event_Nil [OF this(2,1)] j(1) show ?thesis by (auto simp: get_take [OF assms(2)])
qed


section \<open>Typing\<close>

lemma table_keys: "\<forall>k\<in>set key_translation_table. k < 127" "length key_translation_table = 256"
  by code_simp+

lemma make_codes:
  "\<forall>n\<in>set [0..<96]. (of_nat n :: byte) AND 0x80 = 0 \<and> (of_nat n :: byte) AND 0x7f = of_nat n
     \<and> (of_nat n OR 0x80 :: byte) AND 0x7f = of_nat n \<and> (of_nat n OR 0x80 :: byte) AND 0x80 \<noteq> 0
     \<and> (of_nat n OR 0x80 :: byte) < 0xE0 \<and> (of_nat n :: byte) < 0xE0"
  by code_simp

lemma make_code:
  fixes sc :: byte
  assumes "sc < 0x60"
  shows "sc AND 0x80 = 0" "sc AND 0x7f = sc" "(sc OR 0x80) AND 0x7f = sc" "(sc OR 0x80) AND 0x80 \<noteq> 0" "sc OR 0x80 < 0xE0" "sc < 0xE0"
proof -
  from assms have "unat sc \<in> set [0..<96]" by (simp add: word_less_nat_alt)
  from bspec [OF make_codes this] show "sc AND 0x80 = 0" "sc AND 0x7f = sc" "(sc OR 0x80) AND 0x7f = sc" "(sc OR 0x80) AND 0x80 \<noteq> 0"
    "sc OR 0x80 < 0xE0" "sc < 0xE0"
    by simp_all
qed

lemma keyboard_event:
  assumes "ring_inv i" and "key < 0xE0" and "before \<noteq> 0xE0" and "key AND 0x7f = sc"
    and "key_translation_table ! unat sc \<noteq> VK_TAB" and "unat sc < 256"
  shows "\<exists>j. at_keyboard_handler c key ticks (before, i, s) = Some (key, j, s) \<and> ring_inv j
    \<and> virtual_keystates j = (virtual_keystates i)[unat (key_translation_table ! unat sc) := (key AND 0x80 = 0)]"
proof -
  let ?k = "key_translation_table ! unat sc"
  let ?e = "\<lparr>device_index = 0, control_index = 0, ev_data = uint ?k,
    ev_type = (if key AND 0x80 = 0 then KEY_DOWN else KEY_UP), time_stamp = ticks\<rparr>"
  have "?k < 127" using table_keys assms(6) by (metis nth_mem)
  then have k: "uint ?k < 127" by (simp add: word_less_def)
  have t: "uint ?k \<noteq> uint VK_TAB" using assms(5) by (simp only: word_uint_eq_iff not_False_eq_True)
  let ?j = "i\<lparr>virtual_keystates := (virtual_keystates i)[unat ?k := (key AND 0x80 = 0)]\<rparr>"
  have "note_key ?e i = Some ?j"
    using assms(1) k by (simp add: note_key_def ring_inv_def NUM_VIRTUAL_KEYS_def)
  then have h: "handle_input_event c ?e (i, s) = Some (put_event ?e ?j, s)"
    using t by (simp add: handle_input_event_def del: uint_numeral)
  have "ring_inv ?j" using assms(1) by (simp add: ring_inv_def)
  then have r: "ring_inv (put_event ?e ?j)" by (rule put_event_inv)
  have "at_keyboard_handler c key ticks (before, i, s) = map_option (Pair key) (handle_input_event c ?e (i, s))"
    using assms(2-4) by (simp add: at_keyboard_handler_def)
  moreover have "virtual_keystates (put_event ?e ?j) = virtual_keystates ?j" by (simp add: put_event_def)
  ultimately show ?thesis using h r by simp
qed

lemma ascii_of_state:
  fixes k :: byte
  assumes "ring_inv i" and "this_task_is_active c s = Some True" and "k < 127"
  shows "get_ascii_from_vk c (ucast k) i s =
    Some (if virtual_keystates i ! unat k
      then vk_to_ascii ! (if virtual_keystates i ! 4 \<or> virtual_keystates i ! 5 then unat k + 127 else unat k) else 0)"
proof -
  have "unat k < 127" using assms(3) by (simp add: word_less_nat_alt)
  moreover from this have "unat (ucast k :: u32) = unat k" by (intro unat_ucast_small) simp
  ultimately show ?thesis
    using assms(2) by (simp add: get_ascii_from_vk_def get_keystate_def NUM_VIRTUAL_KEYS_def)
qed

text \<open>From the byte of the keyboard to the character: while a key is held down its character is read for it, the
  shifted one if a shift key is held, and none any more when it has been released.\<close>

theorem key_typed:
  assumes "ring_inv i" and "this_task_is_active c s = Some True" and "before \<noteq> 0xE0" and "sc < 0x60"
    and "k = key_translation_table ! unat sc" and "k \<noteq> VK_TAB" and "k \<noteq> VK_LSHIFT" and "k \<noteq> VK_RSHIFT"
  shows "\<exists>j l. at_keyboard_handler c sc ticks (before, i, s) = Some (sc, j, s)
    \<and> get_ascii_from_vk c (ucast k) j s =
        Some (vk_to_ascii ! (if virtual_keystates i ! 4 \<or> virtual_keystates i ! 5 then unat k + 127 else unat k))
    \<and> at_keyboard_handler c (sc OR 0x80) later (sc, j, s) = Some (sc OR 0x80, l, s)
    \<and> get_ascii_from_vk c (ucast k) l s = Some 0"
proof -
  note m = make_code [OF assms(4)]
  have sc: "unat sc < 256" "sc \<noteq> 0xE0" using assms(4) unsigned_less [of sc] by (auto simp: word_less_nat_alt)
  have k: "key_translation_table ! unat sc \<noteq> VK_TAB" using assms(5,6) by simp
  obtain j where j: "at_keyboard_handler c sc ticks (before, i, s) = Some (sc, j, s)" "ring_inv j"
    "virtual_keystates j = (virtual_keystates i)[unat k := True]"
    using keyboard_event [OF assms(1) m(6) assms(3) m(2) k sc(1), of c ticks s] m(1) by (auto simp: assms(5))
  obtain l where l: "at_keyboard_handler c (sc OR 0x80) later (sc, j, s) = Some (sc OR 0x80, l, s)" "ring_inv l"
    "virtual_keystates l = (virtual_keystates j)[unat k := False]"
    using keyboard_event [OF j(2) m(5) sc(2) m(3) k sc(1), of c later s] m(4) by (auto simp: assms(5))
  have "k < 127" using table_keys sc(1) by (metis assms(5) nth_mem)
  then have k: "k < 127" "unat k < 127" by (simp_all add: word_less_nat_alt)
  have "unat k \<noteq> 4" "unat k \<noteq> 5" using assms(7,8) by (simp_all add: word_unat_eq_iff)
  then show ?thesis
    using j l k assms(1) ascii_of_state [OF j(2) assms(2) k(1)] ascii_of_state [OF l(2) assms(2) k(1)]
    by (simp add: ring_inv_def NUM_VIRTUAL_KEYS_def)
qed

section \<open>Witnesses\<close>

definition no_input :: input where
  "no_input = \<lparr>virtual_keystates = replicate 127 False, input_buf_front = 0, input_buf_back = 0,
     input_buf = replicate 64 \<lparr>device_index = 0, control_index = 0, ev_data = 0, ev_type = KEY_UP, time_stamp = 0\<rparr>\<rparr>"

definition press :: "int \<Rightarrow> input_event" where
  "press k = \<lparr>device_index = 0, control_index = 0, ev_data = k, ev_type = KEY_DOWN, time_stamp = 0\<rparr>"

lemma sample_input: "ring_inv no_input" "this_task_is_active 0 sample_sched = Some True" "pending no_input = []"
  by (simp_all add: ring_inv_def no_input_def NUM_VIRTUAL_KEYS_def this_task_is_active_def running_process_def get_running_task_def
      sample_sched_def sample_cpu_def sample_task_def pending_def)


theorem input_overflow_witness:
  "\<exists>j. handle_events 0 (replicate 64 (press 16)) (no_input, sample_sched) = Some (j, sample_sched)
    \<and> get_input_event 0 False [] (j, sample_sched) = Some (1, None, j, sample_sched)"
  by (rule input_overflow [OF sample_input(1,2)]) (simp_all add: ordinary_def press_def sample_input(3))

theorem key_typed_witness:
  "\<exists>j. at_keyboard_handler 0 0x1E 0 (0, no_input, sample_sched) = Some (0x1E, j, sample_sched)
    \<and> get_ascii_from_vk 0 16 j sample_sched = Some 97"
proof -
  have k: "VK_A = key_translation_table ! unat (0x1E :: byte)" by code_simp
  have a: "vk_to_ascii ! unat VK_A = 97" by code_simp
  show ?thesis
    using key_typed [OF sample_input(1,2), of 0 "0x1E" VK_A 0 0] k a by (auto simp: no_input_def)
qed

end
