(* ===== verification/Elf.thy ===== *)
theory Elf
  imports FatDir Paging HashMap Printf
begin

text \<open>
  Executables and shared objects (\<open>kernel/elf.cpp\<close>, \<open>elf.h\<close>, \<open>dynamic_object.h\<close>) and the loading of drivers
  (\<open>kernel/driver_loader.cpp\<close>). An object's segments are copied into memory, its dynamic section is read there, the
  libraries it needs are loaded in the same way, and the addresses of symbols are written where its relocations say.
  Memory is that of the C library's model, a function from addresses to bytes; the memory manager's answers are an
  argument and what is asked of it is recorded. The names in the tables are views of strings in the objects' memory,
  taken here for the strings. What is printed is left out.
\<close>

unbundle bit_operations_syntax

section \<open>The file format\<close>

record ELF_header32 =
  e_type :: u16
  machine_arch :: u16
  entry_point :: u32
  pgh_offset :: u32
  pgh_entries :: u16

record ELF_program_header32 =
  ph_type :: u32
  ph_offset :: u32
  virtual_address :: u32
  file_size :: u32
  mem_size :: u32
  ph_flags :: u32
  alignment :: u32

record ELF_rel32 =
  r_offset :: u32
  r_info :: u32

record ELF_dyn32 =
  d_tag :: u32
  d_un :: u32

record ELF_sym32 =
  st_name :: u32
  st_value :: u32
  st_size :: u32
  st_section_index :: u16

text \<open>The structures are packed.\<close>

definition bytes_header :: "byte list \<Rightarrow> ELF_header32" where
  "bytes_header b = \<lparr>e_type = ucast (get16 b 0), machine_arch = ucast (get16 b 2), entry_point = get32 b 8, pgh_offset = get32 b 12,
     pgh_entries = ucast (get16 b 28)\<rparr>"

definition bytes_program_header :: "byte list \<Rightarrow> ELF_program_header32" where
  "bytes_program_header b = \<lparr>ph_type = get32 b 0, ph_offset = get32 b 4, virtual_address = get32 b 8, file_size = get32 b 16,
     mem_size = get32 b 20, ph_flags = get32 b 24, alignment = get32 b 28\<rparr>"

definition mem_bytes :: "ram \<Rightarrow> u32 \<Rightarrow> nat \<Rightarrow> byte list" where
  "mem_bytes m a n = map (\<lambda>i. m (a + of_nat i)) [0..<n]"

definition ram32 :: "ram \<Rightarrow> u32 \<Rightarrow> u32" where
  "ram32 m a = get32 (mem_bytes m a 4) 0"

definition rel_at :: "ram \<Rightarrow> u32 \<Rightarrow> ELF_rel32" where
  "rel_at m a = \<lparr>r_offset = ram32 m a, r_info = ram32 m (a + 4)\<rparr>"

definition dyn_at :: "ram \<Rightarrow> u32 \<Rightarrow> ELF_dyn32" where
  "dyn_at m a = \<lparr>d_tag = ram32 m a, d_un = ram32 m (a + 4)\<rparr>"

definition sym_at :: "ram \<Rightarrow> u32 \<Rightarrow> ELF_sym32" where
  "sym_at m a = \<lparr>st_name = ram32 m a, st_value = ram32 m (a + 4), st_size = ram32 m (a + 8),
     st_section_index = ucast (get16 (mem_bytes m (a + 14) 2) 0)\<rparr>"

text \<open>Bytes laid into memory from an address on, wrapping around.\<close>

definition laid :: "u32 \<Rightarrow> byte list \<Rightarrow> ram \<Rightarrow> ram" where
  "laid p bs m = (\<lambda>a. if unat (a - p) < length bs then bs ! unat (a - p) else m a)"

definition set_ram32 :: "u32 \<Rightarrow> u32 \<Rightarrow> ram \<Rightarrow> ram" where
  "set_ram32 a v m = laid a (le_bytes 4 (unat v)) m"

text \<open>A file is its contents. Reading behind its end leaves what was there.\<close>

definition read_into :: "byte list \<Rightarrow> u32 \<Rightarrow> nat \<Rightarrow> byte list \<Rightarrow> byte list" where
  "read_into file off n junk = (let bs = take n (drop (unat off) file) in bs @ drop (length bs) (take n junk))"

definition elf_is_readable :: "byte list \<Rightarrow> bool" where
  "elf_is_readable ident \<longleftrightarrow> take 4 ident = [0x7f, 0x45, 0x4C, 0x46] \<and> ident ! 5 = 1 \<and> ident ! 4 = 1"

definition elf_is_compatible :: "ELF_header32 \<Rightarrow> bool" where
  "elf_is_compatible h \<longleftrightarrow> machine_arch h = 3 \<and> (e_type h = 2 \<or> e_type h = 3)"

definition program_header :: "byte list \<Rightarrow> byte list \<Rightarrow> ELF_header32 \<Rightarrow> nat \<Rightarrow> ELF_program_header32" where
  "program_header file junk h i = bytes_program_header (read_into file (pgh_offset h + of_nat i * 32) 32 junk)"

definition PTYPE_LOAD :: u32 where "PTYPE_LOAD = 1"
definition PTYPE_DYNAMIC :: u32 where "PTYPE_DYNAMIC = 2"
definition PTYPE_TLS :: u32 where "PTYPE_TLS = 7"
definition PF_WRITE :: u32 where "PF_WRITE = 2"

text \<open>The lowest address and the size.\<close>

definition elf_get_size :: "byte list \<Rightarrow> byte list \<Rightarrow> ELF_header32 \<Rightarrow> u32 \<times> u32" where
  "elf_get_size file junk h =
     (let (min_address, max_address) =
        foldl (\<lambda>(lo, hi) i.
            let p = program_header file junk h i in
            if ph_type p = PTYPE_LOAD then (min lo (virtual_address p), max hi (virtual_address p + mem_size p)) else (lo, hi))
          (NOT 0, 0) [0..<unat (pgh_entries h)]
      in (min_address, max_address - min_address))"

section \<open>State\<close>

datatype page_op = Virtual_alloc u32 u32 u32 | Set_page_flags u32 u32 u32

record loader =
  memory :: ram
  lib_set :: "(byte list, u32) hash_map"
  symbol_map :: "(byte list, u32) hash_map"
  glob_data_symbol_map :: "(byte list, u32) hash_map"
  page_ops :: "page_op list"

record ELF_linker_data =
  dynamic_section :: u32
  base_address :: u32
  init_func :: u32
  array_init_funcs :: u32
  num_array_init_funcs :: u32
  hash_table :: u32
  symbol_table :: u32
  symbol_table_size :: u32
  string_table :: u32
  string_table_size :: u32
  is_userspace :: bool

record tls_image_data =
  tls_pointer :: u32
  image_size :: u32
  total_size :: u32
  tls_alignment :: u32

record dynamic_object =
  o_entry_point :: u32
  segments :: "(u32 \<times> u32) list"
  tls_image :: tls_image_data
  linker_data :: "ELF_linker_data option"

definition new_object :: dynamic_object where
  "new_object = \<lparr>o_entry_point = 0, segments = [], tls_image = \<lparr>tls_pointer = 0, image_size = 0, total_size = 0, tls_alignment = 1\<rparr>,
     linker_data = None\<rparr>"

section \<open>Segments\<close>

text \<open>The aligned address, the address and the flags; the number of pages is computed and not used.\<close>

definition calculate_segment_info :: "ELF_program_header32 \<Rightarrow> u32 \<Rightarrow> bool \<Rightarrow> u32 \<times> u32 \<times> u32 \<times> u32" where
  "calculate_segment_info p base user =
     (let aligned = base + (virtual_address p AND NOT (PAGE_SIZE - 1));
          virtual = base + virtual_address p
      in (aligned, virtual, memmanager_minimum_pages ((virtual - aligned) + mem_size p),
          (if ph_flags p AND PF_WRITE \<noteq> 0 then PAGE_RW else 0) OR (if user then PAGE_USER else 0)))"

definition load_segment ::
    "byte list \<Rightarrow> u32 \<Rightarrow> u32 \<Rightarrow> bool \<Rightarrow> ELF_program_header32 \<Rightarrow> dynamic_object \<times> loader \<Rightarrow> dynamic_object \<times> loader" where
  "load_segment file base num_pages user p x =
     (case x of (ob, st) \<Rightarrow>
        if ph_type p = PTYPE_DYNAMIC
        then (ob\<lparr>linker_data := Some \<lparr>dynamic_section = base + virtual_address p, base_address = base, init_func = 0,
                array_init_funcs = 0, num_array_init_funcs = 0, hash_table = 0, symbol_table = 0, symbol_table_size = 0,
                string_table = 0, string_table_size = 0, is_userspace = user\<rparr>\<rparr>, st)
        else if ph_type p = PTYPE_LOAD
        then let (aligned, virtual, _, fl) = calculate_segment_info p base user in
             (ob, st\<lparr>page_ops := page_ops st @ [Set_page_flags aligned num_pages fl],
                memory := laid virtual (take (unat (file_size p)) (drop (unat (ph_offset p)) file)) (memory st)\<rparr>)
        else if ph_type p = PTYPE_TLS
        then (ob\<lparr>tls_image := \<lparr>tls_pointer = base + virtual_address p, image_size = file_size p, total_size = mem_size p,
                tls_alignment = alignment p\<rparr>\<rparr>, st)
        else (ob, st))"

definition load_segments ::
    "byte list \<Rightarrow> byte list \<Rightarrow> ELF_header32 \<Rightarrow> u32 \<Rightarrow> u32 \<Rightarrow> bool \<Rightarrow> dynamic_object \<times> loader \<Rightarrow> dynamic_object \<times> loader" where
  "load_segments file junk h base num_pages user x =
     foldl (\<lambda>x i. load_segment file base num_pages user (program_header file junk h i) x) x [0..<unat (pgh_entries h)]"

section \<open>The dynamic section\<close>

record dyn_info =
  relocation_entries :: u32
  relocation_addr :: u32
  plt_relocation_entries :: u32
  plt_relocation_addr :: u32

definition dyn_entry :: "ram \<Rightarrow> ELF_dyn32 \<Rightarrow> ELF_linker_data \<times> dyn_info \<Rightarrow> ELF_linker_data \<times> dyn_info" where
  "dyn_entry m e x =
     (case x of (l, d) \<Rightarrow>
        let v = d_un e; p = base_address l + d_un e; t = d_tag e in
        if t = 2 then (l, d\<lparr>plt_relocation_entries := v div 8\<rparr>)
        else if t = 23 then (l, d\<lparr>plt_relocation_addr := p\<rparr>)
        else if t = 17 then (l, d\<lparr>relocation_addr := p\<rparr>)
        else if t = 18 then (l, d\<lparr>relocation_entries := v div 8\<rparr>)
        else if t = 4 then (l\<lparr>hash_table := p, symbol_table_size := ram32 m (p + 4)\<rparr>, d)
        else if t = 5 then (l\<lparr>string_table := p\<rparr>, d)
        else if t = 6 then (l\<lparr>symbol_table := p\<rparr>, d)
        else if t = 10 then (l\<lparr>string_table_size := v\<rparr>, d)
        else if t = 11 then (l\<lparr>init_func := p\<rparr>, d)
        else if t = 25 then (l\<lparr>array_init_funcs := p\<rparr>, d)
        else if t = 26 then (l\<lparr>num_array_init_funcs := v div 4\<rparr>, d)
        else (l, d))"

definition DT_NULL :: u32 where "DT_NULL = 0"
definition DT_NEEDED :: u32 where "DT_NEEDED = 1"

partial_function (option) dyn_scan :: "ram \<Rightarrow> u32 \<Rightarrow> ELF_linker_data \<times> dyn_info \<Rightarrow> (ELF_linker_data \<times> dyn_info) option" where
  "dyn_scan m a x =
     (if d_tag (dyn_at m a) = DT_NULL then Some x else dyn_scan m (a + 8) (dyn_entry m (dyn_at m a) x))"

text \<open>
  The libraries. \<open>libs\<close> is the search in the library directory: its file, if there is one, and of the file its contents,
  if it can be opened. A library that has been loaded is entered in the set behind its own libraries.
\<close>

partial_function (option) needed_from ::
    "(byte list option \<Rightarrow> dynamic_object \<Rightarrow> loader \<Rightarrow> (int \<times> dynamic_object \<times> loader) option) \<Rightarrow> (byte list \<Rightarrow> byte list option option) \<Rightarrow>
     u32 \<Rightarrow> u32 \<Rightarrow> (u32 \<times> u32) list \<Rightarrow> loader \<Rightarrow> ((u32 \<times> u32) list \<times> loader) option" where
  "needed_from load libs strings a segs st =
     (let e = dyn_at (memory st) a in
      if d_tag e = DT_NULL then Some (segs, st)
      else if d_tag e = DT_NEEDED
      then Option.bind (string_at (memory st) (strings + d_un e)) (\<lambda>lib_name.
        if hash_map_contains hash_string (lib_set st) lib_name then needed_from load libs strings (a + 8) segs st
        else case libs lib_name of
          None \<Rightarrow> needed_from load libs strings (a + 8) segs st
        | Some lib_handle \<Rightarrow>
            Option.bind (load lib_handle new_object st) (\<lambda>(r, lib, st).
              if r \<noteq> 0
              then needed_from load libs strings (a + 8) (segs @ segments lib)
                     (st\<lparr>lib_set := snd (hash_map_insert hash_string lib_name 1 (lib_set st))\<rparr>)
              else needed_from load libs strings (a + 8) segs st))
      else needed_from load libs strings (a + 8) segs st)"

section \<open>Symbols and relocations\<close>

fun read_symbols_from :: "ELF_linker_data \<Rightarrow> nat \<Rightarrow> u32 \<Rightarrow> loader \<Rightarrow> loader option" where
  "read_symbols_from l 0 a st = Some st"
| "read_symbols_from l (Suc n) a st =
     (let symbol = sym_at (memory st) a in
      if st_section_index symbol \<noteq> 0
      then Option.bind (string_at (memory st) (string_table l + st_name symbol)) (\<lambda>symbol_name.
        read_symbols_from l n (a + 16)
          (st\<lparr>symbol_map := snd (hash_map_insert hash_string symbol_name (base_address l + st_value symbol) (symbol_map st))\<rparr>))
      else read_symbols_from l n (a + 16) st)"

definition elf_read_symbols :: "ELF_linker_data \<Rightarrow> loader \<Rightarrow> loader option" where
  "elf_read_symbols l st =
     (if symbol_table l \<noteq> 0 \<and> string_table l \<noteq> 0
      then read_symbols_from l (unat (symbol_table_size l)) (symbol_table l) st else Some st)"

definition R_386_32 :: byte where "R_386_32 = 1"
definition R_386_PC32 :: byte where "R_386_PC32 = 2"
definition R_386_COPY :: byte where "R_386_COPY = 5"
definition R_386_GLOB_DAT :: byte where "R_386_GLOB_DAT = 6"
definition R_386_JMP_SLOT :: byte where "R_386_JMP_SLOT = 7"
definition R_386_RELATIVE :: byte where "R_386_RELATIVE = 8"

definition elf_relocation_uses_symbol :: "byte \<Rightarrow> bool" where
  "elf_relocation_uses_symbol t \<longleftrightarrow> t \<in> {R_386_32, R_386_PC32, R_386_COPY, R_386_GLOB_DAT, R_386_JMP_SLOT}"

text \<open>The name and the value of an entry's symbol. A name that is not found is waited for, for ever.\<close>

definition relocation_symbol :: "ELF_linker_data \<Rightarrow> ELF_rel32 \<Rightarrow> loader \<Rightarrow> (byte list \<times> u32) option" where
  "relocation_symbol l r st =
     (let symbol = sym_at (memory st) (symbol_table l + 16 * drop_bit 8 (r_info r)) in
      if elf_relocation_uses_symbol (ucast (r_info r))
      then if string_table l + st_name symbol = 0 then Some ([], 0)
           else do {
             symbol_name \<leftarrow> string_at (memory st) (string_table l + st_name symbol);
             val \<leftarrow> hash_map_lookup hash_string (symbol_map st) symbol_name;
             Some (symbol_name, val)
           }
      else Some ([], base_address l + st_value symbol))"

definition relocate :: "ELF_linker_data \<Rightarrow> ELF_rel32 \<Rightarrow> loader \<Rightarrow> loader option" where
  "relocate l r st = do {
     (symbol_name, val) \<leftarrow> relocation_symbol l r st;
     let symbol = sym_at (memory st) (symbol_table l + 16 * drop_bit 8 (r_info r));
     let address = base_address l + r_offset r;
     let t = (ucast (r_info r) :: byte);
     let old = ram32 (memory st) address;
     Some (st\<lparr>memory :=
       (if t = R_386_GLOB_DAT
        then set_ram32 address
               (if symbol_name \<noteq> [] then snd (hash_map_lookup_into hash_string (glob_data_symbol_map st) symbol_name val) else val)
               (memory st)
        else if t = R_386_JMP_SLOT then set_ram32 address val (memory st)
        else if t = R_386_32 then set_ram32 address (val + old) (memory st)
        else if t = R_386_PC32 then set_ram32 address (val + old - address) (memory st)
        else if t = R_386_RELATIVE then set_ram32 address (base_address l + old) (memory st)
        else if t = R_386_COPY then memcpy False False address val (st_size symbol) (memory st)
        else memory st)\<rparr>)
   }"

fun relocations_from :: "ELF_linker_data \<Rightarrow> nat \<Rightarrow> u32 \<Rightarrow> loader \<Rightarrow> loader option" where
  "relocations_from l 0 a st = Some st"
| "relocations_from l (Suc n) a st = Option.bind (relocate l (rel_at (memory st) a) st) (relocations_from l n (a + 8))"

definition elf_process_relocation_section :: "ELF_linker_data \<Rightarrow> u32 \<Rightarrow> u32 \<Rightarrow> loader \<Rightarrow> loader option" where
  "elf_process_relocation_section l tbl rel_entries st =
     (if tbl = 0 \<or> symbol_table l = 0 then Some st else relocations_from l (unat rel_entries) tbl st)"

section \<open>Loading\<close>

definition elf_process_dynamic_section ::
    "(byte list option \<Rightarrow> dynamic_object \<Rightarrow> loader \<Rightarrow> (int \<times> dynamic_object \<times> loader) option) \<Rightarrow> (byte list \<Rightarrow> byte list option option) \<Rightarrow>
     dynamic_object \<Rightarrow> loader \<Rightarrow> (dynamic_object \<times> loader) option" where
  "elf_process_dynamic_section load libs ob st =
     (case linker_data ob of
        None \<Rightarrow> Some (ob, st)
      | Some l \<Rightarrow>
          if dynamic_section l = 0 then Some (ob, st)
          else do {
            (l, d) \<leftarrow> dyn_scan (memory st) (dynamic_section l)
              (l, \<lparr>relocation_entries = 0, relocation_addr = 0, plt_relocation_entries = 0, plt_relocation_addr = 0\<rparr>);
            (segs, st) \<leftarrow> needed_from load libs (string_table l) (dynamic_section l) (segments ob) st;
            st \<leftarrow> elf_read_symbols l st;
            st \<leftarrow> (if relocation_addr d \<noteq> 0
              then elf_process_relocation_section l (relocation_addr d) (relocation_entries d) st else Some st);
            st \<leftarrow> (if plt_relocation_addr d \<noteq> 0
              then elf_process_relocation_section l (plt_relocation_addr d) (plt_relocation_entries d) st else Some st);
            Some (ob\<lparr>linker_data := Some l, segments := segs\<rparr>, st)
          })"

text \<open>
  \<open>depth\<close> bounds how many loads can be nested, each within the one before, until the kernel's stack is used up.
  \<open>valloc\<close> is the memory manager's answer, which may depend on what it has done before.
\<close>

primrec load_elf ::
    "(page_op list \<Rightarrow> u32 \<Rightarrow> u32 \<Rightarrow> u32) \<Rightarrow> (byte list \<Rightarrow> byte list option option) \<Rightarrow> byte list \<Rightarrow> bool \<Rightarrow> nat \<Rightarrow>
     byte list option \<Rightarrow> dynamic_object \<Rightarrow> loader \<Rightarrow> (int \<times> dynamic_object \<times> loader) option" where
  "load_elf valloc libs junk user 0 = (\<lambda>f ob st. None)"
| "load_elf valloc libs junk user (Suc depth) = (\<lambda>f ob st.
     case f of
       None \<Rightarrow> Some (0, ob, st)
     | Some file \<Rightarrow>
         if elf_is_readable (read_into file 0 16 junk)
         then let h = bytes_header (read_into file 16 36 junk) in
           if elf_is_compatible h
           then do {
             let (base, sz) = elf_get_size file junk h;
             let num_pages = memmanager_minimum_pages sz;
             let got = valloc (page_ops st) base num_pages;
             let st = st\<lparr>page_ops := page_ops st @ [Virtual_alloc base num_pages (if user then PAGE_USER OR PAGE_RW else PAGE_RW)]\<rparr>;
             let ob = ob\<lparr>segments := segments ob @ [(got, num_pages)], linker_data := None\<rparr>;
             if base \<noteq> 0 \<and> base \<noteq> got then None
             else do {
               let base = (if base \<noteq> 0 then 0 else got);
               let (ob, st) = load_segments file junk h base num_pages user (ob, st);
               (ob, st) \<leftarrow> elf_process_dynamic_section (load_elf valloc libs junk user depth) libs
                 (ob\<lparr>o_entry_point := base + entry_point h\<rparr>) st;
               Some (1, ob, st)
             }
           }
           else Some (1, ob, st)
         else Some (1, ob, st))"

section \<open>Drivers\<close>

definition CT_UP :: byte where "CT_UP = 0x01"

definition tolower :: "(byte \<Rightarrow> byte) \<Rightarrow> byte \<Rightarrow> byte" where
  "tolower outside c = (if ctype_of outside c AND CT_UP \<noteq> 0 then c + 97 - 65 else c)"

text \<open>The name of a driver's function: that of its file up to the first dot, in small letters, with a suffix. Without a dot
  its position is the largest number; a part that would end before it begins is the rest of the name.\<close>

definition driver_init_name :: "(byte \<Rightarrow> byte) \<Rightarrow> byte list \<Rightarrow> byte list" where
  "driver_init_name outside filename =
     (let slash = (case find_last_of 0x2F filename of None \<Rightarrow> 0 | Some i \<Rightarrow> i + 1);
          dot = (case find_if (\<lambda>c. c = DOT) filename of None \<Rightarrow> 0xFFFFFFFF | Some i \<Rightarrow> of_nat i) :: u32
      in map (tolower outside) (take (unat (dot - of_nat slash)) (drop slash filename) @ [0x5F, 0x69, 0x6E, 0x69, 0x74]))"

text \<open>The status and the address of the function that is called.\<close>

definition load_driver ::
    "(page_op list \<Rightarrow> u32 \<Rightarrow> u32 \<Rightarrow> u32) \<Rightarrow> (byte list \<Rightarrow> byte list option option) \<Rightarrow> byte list \<Rightarrow> nat \<Rightarrow> bool \<Rightarrow>
     (byte \<Rightarrow> byte) \<Rightarrow> byte list \<Rightarrow> byte list option \<Rightarrow> loader \<Rightarrow> (int \<times> u32 option \<times> loader) option" where
  "load_driver valloc libs junk depth active outside filename file st =
     (if \<not> active then Some (-1, None, st)
      else Option.bind (load_elf valloc libs junk False depth file new_object st) (\<lambda>(r, ob, st).
        if r \<noteq> 0
        then (case hash_map_lookup hash_string (symbol_map st) (driver_init_name outside filename) of
                Some func_address \<Rightarrow> Some (0, Some func_address, st)
              | None \<Rightarrow> Some (-1, None, st))
        else Some (-1, None, st)))"

end
