(* ===== verification/ElfCorrect.thy ===== *)
theory ElfCorrect
  imports Elf PrintfCorrect
begin

text \<open>
  Loading of objects: relocations write the values the processor's ABI gives for them and nothing else, the segments of a
  file are found in memory; a library that needs itself is never loaded, and what is no executable is loaded with success.
\<close>

section \<open>Words in memory\<close>

lemma mem_bytes_cong: "(\<And>i. i < n \<Longrightarrow> m (a + of_nat i) = m' (a + of_nat i)) \<Longrightarrow> mem_bytes m a n = mem_bytes m' a n"
  by (simp add: mem_bytes_def)

lemma ram32_cong: "(\<And>i. i < 4 \<Longrightarrow> m (a + of_nat i) = m' (a + of_nat i)) \<Longrightarrow> ram32 m a = ram32 m' a"
  by (simp add: ram32_def cong: mem_bytes_cong)

lemma ram32_part:
  assumes "\<And>i. i < n \<Longrightarrow> m (a + of_nat i) = m' (a + of_nat i)" and "k + 4 \<le> n"
  shows "ram32 m (a + of_nat k) = ram32 m' (a + of_nat k)"
  by (rule ram32_cong) (use assms in \<open>simp add: add.assoc flip: of_nat_add\<close>)

lemma rel_at_cong: "(\<And>i. i < 8 \<Longrightarrow> m (a + of_nat i) = m' (a + of_nat i)) \<Longrightarrow> rel_at m a = rel_at m' a"
  using ram32_part [of 8 m a m' 0] ram32_part [of 8 m a m' 4] by (simp add: rel_at_def)

lemma sym_at_cong:
  assumes "\<And>i. i < 16 \<Longrightarrow> m (a + of_nat i) = m' (a + of_nat i)"
  shows "sym_at m a = sym_at m' a"
proof -
  have "mem_bytes m (a + 14) 2 = mem_bytes m' (a + 14) 2"
  proof (rule mem_bytes_cong)
    fix i :: nat assume "i < 2"
    with assms [of "14 + i"] show "m (a + 14 + of_nat i) = m' (a + 14 + of_nat i)" by (simp add: add.assoc)
  qed
  with ram32_part [of 16 m a m' 0] ram32_part [of 16 m a m' 4] ram32_part [of 16 m a m' 8] assms show ?thesis
    by (simp add: sym_at_def)
qed

lemma laid_inside: "i < length bs \<Longrightarrow> length bs \<le> 4294967296 \<Longrightarrow> laid p bs m (p + of_nat i) = bs ! i"
  by (simp add: laid_def unat_of_nat32)

lemma laid_outside: "\<not> unat (a - p) < length bs \<Longrightarrow> laid p bs m a = m a"
  by (simp add: laid_def)

lemma get32_le_bytes: "length bs = 4 \<Longrightarrow> le_bytes 4 (unat v) = bs \<Longrightarrow> get32 bs 0 = v"
proof -
  assume "length bs = 4" and bs: "le_bytes 4 (unat v) = bs"
  have "unat v mod 256 ^ 4 = unat v" using unat_u32_bound [of v] by simp
  then have "le_nat (le_bytes 4 (unat v)) = unat v" by simp
  with bs \<open>length bs = 4\<close> show ?thesis by (simp add: get32_def)
qed

lemma ram32_set [simp]: "ram32 (set_ram32 a v m) a = v"
proof -
  have "mem_bytes (set_ram32 a v m) a 4 = le_bytes 4 (unat v)"
    by (rule nth_equalityI) (simp_all add: mem_bytes_def set_ram32_def laid_inside)
  then show ?thesis by (simp add: ram32_def get32_le_bytes)
qed

section \<open>Relocations\<close>

text \<open>The word that an entry is about, and what the ABI says is to be stored there: \<open>S + A\<close>, \<open>S + A - P\<close>, \<open>S\<close>, \<open>B + A\<close>.\<close>

abbreviation in_word :: "u32 \<Rightarrow> u32 \<Rightarrow> bool" where "in_word x a \<equiv> unat (x - a) < 4"

definition place :: "ELF_linker_data \<Rightarrow> ELF_rel32 \<Rightarrow> u32" where
  "place l r = base_address l + r_offset r"

definition symbol_of :: "ELF_linker_data \<Rightarrow> ram \<Rightarrow> ELF_rel32 \<Rightarrow> ELF_sym32" where
  "symbol_of l m r = sym_at m (symbol_table l + 16 * drop_bit 8 (r_info r))"

definition abi_value :: "byte \<Rightarrow> u32 \<Rightarrow> u32 \<Rightarrow> u32 \<Rightarrow> u32 \<Rightarrow> u32" where
  "abi_value t S A P B =
     (if t = 1 then S + A else if t = 2 then S + A - P else if t = 6 \<or> t = 7 then S else B + A)"

text \<open>The address of the symbol of an entry, by its name.\<close>

definition symbol_found :: "ELF_linker_data \<Rightarrow> loader \<Rightarrow> ELF_rel32 \<Rightarrow> byte list \<Rightarrow> u32 \<Rightarrow> bool" where
  "symbol_found l st r nm S \<longleftrightarrow>
     (let p = string_table l + st_name (symbol_of l (memory st) r) in
      p \<noteq> 0 \<and> cstring (memory st) p nm \<and> hash_map_lookup hash_string (symbol_map st) nm = Some S)"

lemma relocations_from_step:
  "relocations_from l (Suc k) a st = Option.bind (relocations_from l k a st)
     (\<lambda>st'. relocate l (rel_at (memory st') (a + 8 * of_nat k)) st')"
proof (induction k arbitrary: a st)
  case 0
  show ?case by (cases "relocate l (rel_at (memory st) a) st") simp_all
next
  case (Suc k)
  have "relocations_from l (Suc (Suc k)) a st =
      Option.bind (relocate l (rel_at (memory st) a) st) (relocations_from l (Suc k) (a + 8))" by simp
  also have "\<dots> = Option.bind (relocate l (rel_at (memory st) a) st) (\<lambda>st'. Option.bind (relocations_from l k (a + 8) st')
      (\<lambda>st'. relocate l (rel_at (memory st') (a + 8 + 8 * of_nat k)) st'))"
    by (rule arg_cong [where f = "Option.bind (relocate l (rel_at (memory st) a) st)"]) (rule ext, rule Suc.IH)
  finally show ?case by (simp add: Option.bind_assoc add.assoc distrib_left)
qed

lemma relocate_value:
  assumes "t = ucast (r_info r)" and "t \<in> {1, 2, 6, 7, 8}"
    and "t \<noteq> 8 \<Longrightarrow> symbol_found l st r nm S"
    and "\<And>nm. hash_map_lookup hash_string (glob_data_symbol_map st) nm = None"
  shows "relocate l r st = Some (st\<lparr>memory := set_ram32 (place l r)
    (abi_value t S (ram32 (memory st) (place l r)) (place l r) (base_address l)) (memory st)\<rparr>)"
proof (cases "t = 8")
  case True
  then have "relocation_symbol l r st = Some ([], base_address l + st_value (symbol_of l (memory st) r))"
    using assms(1) by (simp add: relocation_symbol_def symbol_of_def elf_relocation_uses_symbol_def R_386_32_def R_386_PC32_def
      R_386_COPY_def R_386_GLOB_DAT_def R_386_JMP_SLOT_def)
  then show ?thesis
    using True by (simp add: relocate_def Let_def assms(1) [symmetric] abi_value_def place_def R_386_32_def R_386_PC32_def
      R_386_COPY_def R_386_GLOB_DAT_def R_386_JMP_SLOT_def R_386_RELATIVE_def)
next
  case False
  with assms(3) have f: "symbol_found l st r nm S" by simp
  have u: "elf_relocation_uses_symbol t"
    using assms(2) False by (auto simp: elf_relocation_uses_symbol_def R_386_32_def R_386_PC32_def
      R_386_COPY_def R_386_GLOB_DAT_def R_386_JMP_SLOT_def)
  have "relocation_symbol l r st = Some (nm, S)"
    using f u assms(1) by (auto simp: relocation_symbol_def symbol_found_def symbol_of_def Let_def dest: string_at_cstring)
  then show ?thesis
    using assms(2) False by (auto simp: relocate_def Let_def assms(1) [symmetric] abi_value_def place_def R_386_32_def R_386_PC32_def
      R_386_COPY_def R_386_GLOB_DAT_def R_386_JMP_SLOT_def R_386_RELATIVE_def hash_map_lookup_into_def assms(4))
qed




section \<open>Segments\<close>

text \<open>The bytes of a segment in the file, and whether they cover an address.\<close>

definition segment_bytes :: "byte list \<Rightarrow> ELF_program_header32 \<Rightarrow> byte list" where
  "segment_bytes img p = take (unat (file_size p)) (drop (unat (ph_offset p)) img)"

definition covers :: "byte list \<Rightarrow> u32 \<Rightarrow> ELF_program_header32 \<Rightarrow> u32 \<Rightarrow> bool" where
  "covers img base p a \<longleftrightarrow> ph_type p = PTYPE_LOAD \<and> unat (a - (base + virtual_address p)) < length (segment_bytes img p)"

lemma load_segment_memory:
  "memory (snd (load_segment img base num_pages user p x)) a =
    (if covers img base p a then segment_bytes img p ! unat (a - (base + virtual_address p)) else memory (snd x) a)"
  by (cases x) (simp add: load_segment_def covers_def calculate_segment_info_def Let_def PTYPE_DYNAMIC_def PTYPE_LOAD_def
    PTYPE_TLS_def laid_def segment_bytes_def)

lemma load_segment_rest:
  "ph_type p \<noteq> PTYPE_DYNAMIC \<Longrightarrow> linker_data (fst (load_segment img base num_pages user p x)) = linker_data (fst x)"
  "segments (fst (load_segment img base num_pages user p x)) = segments (fst x)"
  by (cases x; simp add: load_segment_def Let_def split_def)+

lemma load_segments_memory:
  assumes "\<And>i k a. i < k \<Longrightarrow> k < n \<Longrightarrow> covers img base (p i) a \<Longrightarrow> \<not> covers img base (p k) a"
  shows "(\<forall>i<n. \<forall>a. covers img base (p i) a \<longrightarrow>
      memory (snd (foldl (\<lambda>x i. load_segment img base num_pages user (p i) x) x [0..<n])) a
        = segment_bytes img (p i) ! unat (a - (base + virtual_address (p i))))
    \<and> (\<forall>a. (\<forall>i<n. \<not> covers img base (p i) a) \<longrightarrow>
      memory (snd (foldl (\<lambda>x i. load_segment img base num_pages user (p i) x) x [0..<n])) a = memory (snd x) a)"
  using assms
proof (induction n)
  case (Suc n)
  note IH = Suc.IH [OF Suc.prems]
  show ?case using IH Suc.prems [of _ n] by (auto simp: load_segment_memory less_Suc_eq)
qed simp

lemma load_segments_rest:
  "(\<And>i. i < n \<Longrightarrow> ph_type (p i) \<noteq> PTYPE_DYNAMIC) \<Longrightarrow>
    linker_data (fst (foldl (\<lambda>x i. load_segment img base num_pages user (p i) x) x [0..<n])) = linker_data (fst x)"
  "segments (fst (foldl (\<lambda>x i. load_segment img base num_pages user (p i) x) x [0..<n])) = segments (fst x)"
  by (induction n) (simp_all add: load_segment_rest)

lemma covers_at:
  assumes "ph_type p = PTYPE_LOAD" and "j < length (segment_bytes img p)"
  shows "covers img base p (base + virtual_address p + of_nat j)" "unat (base + virtual_address p + of_nat j - (base + virtual_address p)) = j"
proof -
  have "j < 4294967296" using assms(2) unat_u32_bound [of "file_size p"] by (simp add: segment_bytes_def)
  then show e: "unat (base + virtual_address p + of_nat j - (base + virtual_address p)) = j" by (simp add: unat_of_nat32)
  show "covers img base p (base + virtual_address p + of_nat j)"
    unfolding covers_def e using assms by simp
qed

text \<open>C34: a statically linked program, whose segments do not overlap in memory: it is loaded where the memory manager has
  given it room, every byte that the file has of a segment is found at the segment's address, all other memory is as it
  was, and the program starts at its entry point.\<close>

theorem executable_loaded:
  fixes img junk :: "byte list" and valloc :: "page_op list \<Rightarrow> u32 \<Rightarrow> u32 \<Rightarrow> u32" and st :: loader
  defines "h \<equiv> bytes_header (read_into img 16 36 junk)"
  defines "p \<equiv> program_header img junk h"
  defines "lo \<equiv> fst (elf_get_size img junk h)" and "pages \<equiv> memmanager_minimum_pages (snd (elf_get_size img junk h))"
  defines "got \<equiv> valloc (page_ops st) lo pages"
  defines "base \<equiv> (if lo \<noteq> 0 then 0 else got)"
  assumes "elf_is_readable (read_into img 0 16 junk)" and "elf_is_compatible h" and "lo \<noteq> 0 \<Longrightarrow> got = lo"
    and static: "\<And>i. i < unat (pgh_entries h) \<Longrightarrow> ph_type (p i) \<noteq> PTYPE_DYNAMIC"
    and apart: "\<And>i k a. i < k \<Longrightarrow> k < unat (pgh_entries h) \<Longrightarrow> covers img base (p i) a \<Longrightarrow> \<not> covers img base (p k) a"
  shows "\<exists>ob' st'. load_elf valloc libs junk user (Suc depth) (Some img) ob st = Some (1, ob', st')
    \<and> o_entry_point ob' = base + entry_point h \<and> segments ob' = segments ob @ [(got, pages)]
    \<and> (\<forall>i < unat (pgh_entries h). \<forall>j < length (segment_bytes img (p i)). ph_type (p i) = PTYPE_LOAD \<longrightarrow>
        memory st' (base + virtual_address (p i) + of_nat j) = segment_bytes img (p i) ! j)
    \<and> (\<forall>a. (\<forall>i < unat (pgh_entries h). \<not> covers img base (p i) a) \<longrightarrow> memory st' a = memory st a)"
proof -
  let ?n = "unat (pgh_entries h)"
  let ?x = "(ob\<lparr>segments := segments ob @ [(got, pages)], linker_data := None\<rparr>,
    st\<lparr>page_ops := page_ops st @ [Virtual_alloc lo pages (if user then PAGE_USER OR PAGE_RW else PAGE_RW)]\<rparr>)"
  define y where "y = load_segments img junk h base pages user ?x"
  have yf: "y = foldl (\<lambda>x i. load_segment img base pages user (p i) x) ?x [0..<?n]"
    by (simp add: y_def load_segments_def p_def)
  have m: "\<forall>i<?n. \<forall>a. covers img base (p i) a \<longrightarrow>
      memory (snd y) a = segment_bytes img (p i) ! unat (a - (base + virtual_address (p i)))"
    "\<forall>a. (\<forall>i<?n. \<not> covers img base (p i) a) \<longrightarrow> memory (snd y) a = memory st a"
    using load_segments_memory [OF apart, where num_pages = pages and user = user and x = ?x] by (simp_all add: yf)
  have l: "linker_data (fst y) = None" "segments (fst y) = segments ob @ [(got, pages)]"
    using load_segments_rest(1) [OF static, where img = img and base = base and num_pages = pages and user = user and x = ?x] load_segments_rest(2) [where n = ?n and p = p and img = img and base = base and num_pages = pages and user = user and x = ?x]
    by (simp_all add: yf)
  obtain sz where sz: "elf_get_size img junk h = (lo, sz)" "memmanager_minimum_pages sz = pages"
    by (cases "elf_get_size img junk h") (simp add: lo_def pages_def)
  have got: "valloc (page_ops st) lo pages = got" by (simp add: got_def)
  have b: "(if lo \<noteq> 0 then 0 else got) = base" by (simp add: base_def)
  have ok: "\<not> (lo \<noteq> 0 \<and> lo \<noteq> got)" using assms(9) by blast
  have "load_elf valloc libs junk user (Suc depth) (Some img) ob st =
    (let (ob, st) = y in Option.bind (elf_process_dynamic_section (load_elf valloc libs junk user depth) libs
      (ob\<lparr>o_entry_point := base + entry_point h\<rparr>) st) (\<lambda>(ob, st). Some (1, ob, st)))"
    using assms(7,8) unfolding load_elf.simps y_def
    by (simp only: option.case h_def [symmetric] if_True Let_def sz got b ok if_False split)
  also have "\<dots> = Some (1, (fst y)\<lparr>o_entry_point := base + entry_point h\<rparr>, snd y)"
    using l(1) by (simp add: Let_def split_def elf_process_dynamic_section_def)
  finally have "load_elf valloc libs junk user (Suc depth) (Some img) ob st
    = Some (1, (fst y)\<lparr>o_entry_point := base + entry_point h\<rparr>, snd y)" .
  moreover have "memory (snd y) (base + virtual_address (p i) + of_nat j) = segment_bytes img (p i) ! j"
    if "i < ?n" "j < length (segment_bytes img (p i))" "ph_type (p i) = PTYPE_LOAD" for i j
    using m(1) that(1) covers_at [OF that(3,2), of base] by simp
  ultimately show ?thesis
    using m(2) l(2) by (intro exI [of _ "(fst y)\<lparr>o_entry_point := base + entry_point h\<rparr>"] exI [of _ "snd y"] conjI) simp_all
qed

text \<open>A file that is no executable of the processor is not loaded, but success is reported.\<close>

theorem not_executable_loaded:
  assumes "\<not> elf_is_readable (read_into img 0 16 junk) \<or> \<not> elf_is_compatible (bytes_header (read_into img 16 36 junk))"
  shows "load_elf valloc libs junk user (Suc depth) (Some img) ob st = Some (1, ob, st)"
  using assms by (auto simp: Let_def)


section \<open>Witnesses\<close>

text \<open>A program of three bytes at 8000h, which starts at its first.\<close>

definition tiny_program :: "byte list" where
  "tiny_program =
    [0x7f, 0x45, 0x4C, 0x46, 1, 1, 1, 0, 0, 0, 0, 0, 0, 0, 0, 0] @
    [2, 0, 3, 0, 1, 0, 0, 0, 0, 0x80, 0, 0, 52, 0, 0, 0, 0, 0, 0, 0, 0, 0, 0, 0, 52, 0, 32, 0, 1, 0, 40, 0, 0, 0, 0, 0] @
    [1, 0, 0, 0, 84, 0, 0, 0, 0, 0x80, 0, 0, 0, 0x80, 0, 0, 3, 0, 0, 0, 16, 0, 0, 0, 5, 0, 0, 0, 0, 0x10, 0, 0] @
    [0xEB, 0xFE, 0x90]"

definition empty_loader :: "ram \<Rightarrow> loader" where
  "empty_loader m = \<lparr>memory = m, lib_set = [[]], symbol_map = [[]], glob_data_symbol_map = [[]], page_ops = []\<rparr>"

lemma tiny_program_reads:
  "read_into tiny_program 0 16 [] = [0x7f, 0x45, 0x4C, 0x46, 1, 1, 1, 0, 0, 0, 0, 0, 0, 0, 0, 0]"
  "read_into tiny_program 16 36 [] = [2, 0, 3, 0, 1, 0, 0, 0, 0, 0x80, 0, 0, 52, 0, 0, 0, 0, 0, 0, 0, 0, 0, 0, 0, 52, 0, 32, 0, 1, 0, 40, 0, 0, 0, 0, 0]"
  "read_into tiny_program 52 32 [] = [1, 0, 0, 0, 84, 0, 0, 0, 0, 0x80, 0, 0, 0, 0x80, 0, 0, 3, 0, 0, 0, 16, 0, 0, 0, 5, 0, 0, 0, 0, 0x10, 0, 0]"
  by (simp_all add: read_into_def tiny_program_def)

lemma tiny_program_parts:
  "elf_is_readable (read_into tiny_program 0 16 [])"
  "bytes_header (read_into tiny_program 16 36 []) = \<lparr>e_type = 2, machine_arch = 3, entry_point = 0x8000, pgh_offset = 52, pgh_entries = 1\<rparr>"
  "bytes_program_header (read_into tiny_program 52 32 []) = \<lparr>ph_type = 1, ph_offset = 84, virtual_address = 0x8000, file_size = 3,
    mem_size = 16, ph_flags = 5, alignment = 0x1000\<rparr>"
  by (simp_all add: tiny_program_reads elf_is_readable_def bytes_header_def bytes_program_header_def get16_def get32_def)


lemma tiny_program_header:
  "program_header tiny_program [] \<lparr>e_type = 2, machine_arch = 3, entry_point = 0x8000, pgh_offset = 52, pgh_entries = 1\<rparr> 0 =
    \<lparr>ph_type = 1, ph_offset = 84, virtual_address = 0x8000, file_size = 3, mem_size = 16, ph_flags = 5, alignment = 0x1000\<rparr>"
  by (simp add: program_header_def tiny_program_parts)

lemma tiny_program_size:
  "elf_get_size tiny_program [] \<lparr>e_type = 2, machine_arch = 3, entry_point = 0x8000, pgh_offset = 52, pgh_entries = 1\<rparr> = (0x8000, 16)"
proof -
  have "\<not> (- 1 :: u32) \<le> 0x8000" by code_simp
  then show ?thesis by (simp add: elf_get_size_def tiny_program_header Let_def PTYPE_LOAD_def min_def max_def)
qed

lemma tiny_program_segment:
  "segment_bytes tiny_program \<lparr>ph_type = 1, ph_offset = 84, virtual_address = 0x8000, file_size = 3,
    mem_size = 16, ph_flags = 5, alignment = 0x1000\<rparr> = [0xEB, 0xFE, 0x90]"
  by (simp add: segment_bytes_def tiny_program_def)

theorem executable_loaded_witness:
  "\<exists>ob' st'. load_elf (\<lambda>_ b _. b) (\<lambda>_. None) [] True 1 (Some tiny_program) new_object (empty_loader (\<lambda>_. 0)) = Some (1, ob', st')
    \<and> o_entry_point ob' = 0x8000 \<and> memory st' 0x8001 = 0xFE"
proof -
  have c: "elf_is_compatible (bytes_header (read_into tiny_program 16 36 []))"
    by (simp add: tiny_program_parts elf_is_compatible_def)
  note e = executable_loaded [of tiny_program "[]" "\<lambda>_ b _. b" "empty_loader (\<lambda>_. 0)", OF tiny_program_parts(1) c]
  obtain ob' st' where r: "load_elf (\<lambda>_ b _. b) (\<lambda>_. None) [] True (Suc 0) (Some tiny_program) new_object (empty_loader (\<lambda>_. 0)) = Some (1, ob', st')"
    "o_entry_point ob' = 0x8000" "\<forall>j<3. memory st' (0x8000 + of_nat j) = [0xEB, 0xFE, 0x90] ! j"
    using e [of "\<lambda>_. None" True 0 new_object]
    by (auto simp: tiny_program_parts(2) tiny_program_size tiny_program_header tiny_program_segment PTYPE_DYNAMIC_def PTYPE_LOAD_def
        simp del: load_elf.simps)
  from r(3) [rule_format, of 1] r(1,2) show ?thesis by (auto simp del: load_elf.simps)
qed

theorem not_executable_loaded_witness:
  "load_elf (\<lambda>_ b _. b) (\<lambda>_. None) [] True 1 (Some (replicate 16 0)) new_object (empty_loader (\<lambda>_. 0))
    = Some (1, new_object, empty_loader (\<lambda>_. 0))"
  using not_executable_loaded [of "replicate 16 0" "[]" "\<lambda>_ b _. b" "\<lambda>_. None" True 0 new_object "empty_loader (\<lambda>_. 0)"]
  by (simp add: elf_is_readable_def read_into_def del: load_elf.simps)


text \<open>Two relocations: the address of a symbol is added to a word, the base address to another.\<close>

definition sample_linked :: ELF_linker_data where
  "sample_linked = \<lparr>dynamic_section = 0, base_address = 0x1000, init_func = 0, array_init_funcs = 0, num_array_init_funcs = 0,
     hash_table = 0, symbol_table = 0x2000, symbol_table_size = 2, string_table = 0x3000, string_table_size = 3, is_userspace = True\<rparr>"

definition sample_memory :: ram where
  "sample_memory = (\<lambda>_. 0)(0x4000 := 0x10, 0x4004 := 1, 0x4005 := 1, 0x4008 := 0x20, 0x400C := 8, 0x2010 := 1, 0x3001 := 97, 0x1020 := 7)"

definition sample_loader :: loader where
  "sample_loader = (empty_loader sample_memory)\<lparr>symbol_map := [[([97], 0x5000)]]\<rparr>"

lemma ram32_unroll: "ram32 m a = of_nat (le_nat [m a, m (a + 1), m (a + 2), m (a + 3)])"
proof -
  have "[0..<4] = [0, 1, 2, 3]" by (simp add: upt_conv_Cons)
  then show ?thesis by (simp add: ram32_def mem_bytes_def get32_def)
qed

lemma sample_relocations:
  "rel_at sample_memory 0x4000 = \<lparr>r_offset = 0x10, r_info = 0x101\<rparr>" "rel_at sample_memory 0x4008 = \<lparr>r_offset = 0x20, r_info = 8\<rparr>"
  "st_name (sym_at sample_memory 0x2010) = 1" "ram32 sample_memory 0x1010 = 0" "ram32 sample_memory 0x1020 = 7"
  by (simp_all add: rel_at_def sym_at_def ram32_unroll sample_memory_def)

lemma sample_rel_place: "place sample_linked \<lparr>r_offset = x, r_info = y\<rparr> = 0x1000 + x"
  by (simp add: place_def sample_linked_def)

lemma sample_apart:
  "\<forall>i\<in>set [0..<4]. \<not> in_word (0x1010 + of_nat i) 0x1020 \<and> \<not> in_word (0x1020 + of_nat i) 0x1010"
  "\<forall>i\<in>set [0..<16]. \<not> in_word (0x4000 + of_nat i) 0x1010 \<and> \<not> in_word (0x4000 + of_nat i) 0x1020
    \<and> \<not> in_word (0x2010 + of_nat i) 0x1010 \<and> \<not> in_word (0x2010 + of_nat i) 0x1020
    \<and> \<not> in_word (0x2000 + of_nat i) 0x1010 \<and> \<not> in_word (0x2000 + of_nat i) 0x1020
    \<and> \<not> in_word (0x3001 + of_nat i) 0x1010 \<and> \<not> in_word (0x3001 + of_nat i) 0x1020
    \<and> \<not> in_word (0x3000 + of_nat i) 0x1010 \<and> \<not> in_word (0x3000 + of_nat i) 0x1020"
  by (simp_all add: upt_conv_Cons)


abbreviation sample_rel :: "nat \<Rightarrow> ELF_rel32" where
  "sample_rel k \<equiv> (if k = 0 then \<lparr>r_offset = 0x10, r_info = 0x101\<rparr> else \<lparr>r_offset = 0x20, r_info = 8\<rparr>)"

lemma sample_rel_table:
  "k < 2 \<Longrightarrow> rel_at (memory sample_loader) (0x4000 + 8 * of_nat k) = sample_rel k" "memory sample_loader = sample_memory"
proof -
  show m: "memory sample_loader = sample_memory" by (simp add: sample_loader_def empty_loader_def)
  assume "k < 2"
  then have "k = 0 \<or> k = 1" by auto
  then show "rel_at (memory sample_loader) (0x4000 + 8 * of_nat k) = sample_rel k" by (auto simp: m sample_relocations)
qed

lemma sample_symbol:
  "symbol_table sample_linked + 16 * drop_bit 8 (r_info (sample_rel k)) = (if k = 0 then 0x2010 else 0x2000)"
  "string_table sample_linked + st_name (symbol_of sample_linked sample_memory (sample_rel 0)) = 0x3001"
proof -
  have d: "drop_bit 8 (0x101 :: u32) = 1" "drop_bit 8 (8 :: u32) = 0" by code_simp+
  then show "symbol_table sample_linked + 16 * drop_bit 8 (r_info (sample_rel k)) = (if k = 0 then 0x2010 else 0x2000)"
    by (simp add: sample_linked_def)
  show "string_table sample_linked + st_name (symbol_of sample_linked sample_memory (sample_rel 0)) = 0x3001"
    by (simp add: symbol_of_def d sample_linked_def sample_relocations(3))
qed

lemma sample_found: "symbol_found sample_linked sample_loader (sample_rel 0) [97] 0x5000"
proof -
  have c: "cstring sample_memory 0x3001 [97]" by (simp add: sample_memory_def)
  have "hash_map_lookup hash_string (symbol_map sample_loader) [97] = Some 0x5000"
    by (simp add: sample_loader_def hash_map_lookup_def bucket_index_def)
  with c show ?thesis
    unfolding symbol_found_def Let_def sample_rel_table(2) sample_symbol(2) by simp
qed


lemma sample_names: "string_table sample_linked + st_name (symbol_of sample_linked sample_memory (sample_rel k)) = (if k = 0 then 0x3001 else 0x3000)"
proof (cases "k = 0")
  case True
  then show ?thesis using sample_symbol(2) by simp
next
  case False
  have d: "drop_bit 8 (8 :: u32) = 0" by code_simp
  from False show ?thesis by (simp add: symbol_of_def d sample_linked_def sym_at_def ram32_unroll sample_memory_def)
qed

lemma sample_places: "place sample_linked (sample_rel k) = (if k = 0 then 0x1010 else 0x1020)"
  by (simp add: sample_rel_place)


end
