(* ===== verification/Editor.thy ===== *)
theory Editor
  imports Input Terminal
begin

text \<open>
  The text editor (\<open>apps/edit.cpp\<close>, the build for this system): the lines of a text, the cursor and the window on them,
  what the keys do, loading and saving. What is drawn is a list of requests to the terminal, which \<open>draw_on\<close> carries
  out. A line outside of the text has no result. \<open>std::vector\<close> is a list with its capacity: a line made of parts of
  another one is made of freed memory when the vector moves first, which is an argument (\<open>freed\<close>).
\<close>

section \<open>Numbers and views\<close>

function to_string_loop :: "u32 \<Rightarrow> byte list \<Rightarrow> byte list" where
  "to_string_loop n acc =
     (let acc = (ucast (n mod 10) + 48) # acc in if n div 10 \<noteq> 0 then to_string_loop (n div 10) acc else acc)"
  by pat_completeness auto
termination
proof (relation "measure (\<lambda>(n, acc). unat n)", goal_cases)
  case (2 n acc x)
  then have "unat (n div 10) \<noteq> 0" by (simp add: unat_eq_zero)
  then have "unat n div 10 \<noteq> 0" by (simp add: unat_div)
  then have "unat n div 10 < unat n" by (intro div_less_dividend) (auto intro: gr0I)
  then show ?case by (simp add: unat_div)
qed simp

declare to_string_loop.simps [simp del]

definition to_string :: "u32 \<Rightarrow> byte list" where
  "to_string n = to_string_loop n []"

abbreviation ascii_bytes :: "string \<Rightarrow> byte list" where "ascii_bytes s \<equiv> map (of_nat \<circ> of_char) s"

abbreviation size32 :: "'a list \<Rightarrow> u32" where "size32 xs \<equiv> of_nat (length xs)"

definition view_substr :: "byte list \<Rightarrow> u32 \<Rightarrow> u32 \<Rightarrow> byte list option" where
  "view_substr s pos count = (if unat pos \<le> length s then Some (take (unat count) (drop (unat pos) s)) else None)"

section \<open>State\<close>

record line =
  l_text :: "byte list"
  l_ending :: "byte list"

datatype draw_op = Write_chars u32 u32 "byte list" | Write_char u32 u32 byte u32 | Set_color byte byte | Toggle u32 | Clear

record editor =
  line_buffer :: "line list"
  line_capacity :: nat
  cursor_x :: u32
  cursor_y :: u32
  preffered_x :: u32
  window_y_offset :: u32
  window_x_offset :: u32
  term_width :: u32
  term_height :: u32
  current_file_name :: "byte list"
  control_held :: bool
  alt_held :: bool
  draws :: "draw_op list"
  saved :: "(byte list \<times> byte list) list"
  exited :: bool

definition line_at :: "editor \<Rightarrow> u32 \<Rightarrow> line option" where
  "line_at e y = (if unat y < length (line_buffer e) then Some (line_buffer e ! unat y) else None)"

definition set_line :: "u32 \<Rightarrow> line \<Rightarrow> editor \<Rightarrow> editor" where
  "set_line y l e = e\<lparr>line_buffer := (line_buffer e)[unat y := l]\<rparr>"

text \<open>\<open>emplace_back\<close>, \<open>emplace\<close> and \<open>erase\<close> of the vector.\<close>

definition add_line :: "line \<Rightarrow> editor \<Rightarrow> editor" where
  "add_line l e = e\<lparr>line_buffer := line_buffer e @ [l],
     line_capacity := (if length (line_buffer e) = line_capacity e then (line_capacity e + 1) * 2 else line_capacity e)\<rparr>"

definition emplace_line :: "nat \<Rightarrow> line \<Rightarrow> editor \<Rightarrow> editor" where
  "emplace_line i l e = e\<lparr>line_buffer := take i (line_buffer e) @ l # drop i (line_buffer e),
     line_capacity := (if length (line_buffer e) = line_capacity e then length (line_buffer e) + 1 else line_capacity e)\<rparr>"

definition erase_line :: "nat \<Rightarrow> editor \<Rightarrow> editor" where
  "erase_line i e = e\<lparr>line_buffer := take i (line_buffer e) @ drop (i + 1) (line_buffer e)\<rparr>"

section \<open>Keys\<close>

text \<open>
  The events that come, each with the character that \<open>get_ascii_from_vk\<close> gives for its key then; without any more it
  waits, and there is no key.
\<close>

type_synonym key_event = "input_event \<times> byte"

fun get_keypress :: "key_event list \<Rightarrow> editor \<Rightarrow> (int \<times> byte) option \<times> key_event list \<times> editor" where
  "get_keypress [] e = (None, [], e)"
| "get_keypress ((ev, c) # evs) e =
     (if ev_type ev \<noteq> KEY_DOWN \<and> ev_type ev \<noteq> KEY_UP then get_keypress evs e
      else let key = ev_data ev;
               e = (if key = uint VK_RCTRL \<or> key = uint VK_LCTRL then e\<lparr>control_held := (ev_type ev = KEY_DOWN)\<rparr>
                 else if key = uint VK_RALT \<or> key = uint VK_LALT then e\<lparr>alt_held := (ev_type ev = KEY_DOWN)\<rparr> else e)
           in if ev_type ev = KEY_DOWN then (Some (key, c), evs, e) else get_keypress evs e)"

lemma get_keypress_shorter: "get_keypress evs e = (Some k, rest, f) \<Longrightarrow> length rest < length evs"
  by (induction evs e rule: get_keypress.induct) (fastforce simp: Let_def split: if_splits)+

section \<open>Drawing\<close>

definition draw :: "draw_op \<Rightarrow> editor \<Rightarrow> editor" where
  "draw d e = e\<lparr>draws := draws e @ [d]\<rparr>"

definition write_clearline :: "u32 \<Rightarrow> u32 \<Rightarrow> u32 \<Rightarrow> editor \<Rightarrow> editor" where
  "write_clearline x y n = draw (Write_char x y 0 n)"

definition write_at_position :: "u32 \<Rightarrow> u32 \<Rightarrow> byte list \<Rightarrow> editor \<Rightarrow> editor" where
  "write_at_position x y str e =
     (let width = min (x + size32 str) (term_width e) - x in draw (Write_chars x y (take (unat width) str)) e)"

definition rect_part :: "u32 \<Rightarrow> u32 \<Rightarrow> u32 \<Rightarrow> u32 \<Rightarrow> u32" where
  "rect_part room extent from limit = min (min room (of_int (max (sint extent - sint from) 0))) limit"

text \<open>A rectangle of the text on the terminal: the place and extent there, and the first column and line of the text.\<close>

fun draw_rows :: "u32 \<Rightarrow> u32 \<Rightarrow> u32 \<Rightarrow> u32 \<Rightarrow> u32 \<Rightarrow> nat \<Rightarrow> editor \<Rightarrow> editor option" where
  "draw_rows dx dy dw sx sy 0 e = Some e"
| "draw_rows dx dy dw sx sy (Suc n) e = do {
     l \<leftarrow> line_at e sy;
     let width = rect_part dw (size32 (l_text l)) sx (term_width e);
     e \<leftarrow> (if sx < size32 (l_text l)
       then map_option (\<lambda>s. write_at_position dx dy s e) (view_substr (l_text l) sx width) else Some e);
     draw_rows dx (dy + 1) dw sx (sy + 1) n (write_clearline (dx + width) dy (dw - width) e)
   }"

definition draw_rect :: "u32 \<Rightarrow> u32 \<Rightarrow> u32 \<Rightarrow> u32 \<Rightarrow> u32 \<Rightarrow> u32 \<Rightarrow> editor \<Rightarrow> editor option" where
  "draw_rect dx dy dw dh sx sy e =
     draw_rows dx dy dw sx sy (unat (rect_part dh (size32 (line_buffer e)) sy (term_height e))) e"

definition do_full_redraw :: "editor \<Rightarrow> editor option" where
  "do_full_redraw e = draw_rect 0 0 (term_width e) (term_height e) (window_x_offset e) (window_y_offset e) e"

definition toggle_cell_highlighted :: "u32 \<Rightarrow> u32 \<Rightarrow> editor \<Rightarrow> editor" where
  "toggle_cell_highlighted x y e = (if x < term_width e \<and> y < term_width e then draw (Toggle (x + y * term_width e)) e else e)"

definition redraw_from_line :: "u32 \<Rightarrow> editor \<Rightarrow> editor option" where
  "redraw_from_line l e =
     (let y_coord = l - window_y_offset e in draw_rect 0 y_coord (term_width e) (term_height e - y_coord) 0 l e)"

text \<open>What the terminal does with a request; the highlighted cell's attribute is inverted.\<close>

fun draw_on :: "draw_op \<Rightarrow> terminal \<Rightarrow> terminal option" where
  "draw_on (Write_chars x y cs) t = write_chars_at_pos x y cs t"
| "draw_on (Write_char x y c n) t = write_chars_at_pos x y (replicate (unat n) c) t"
| "draw_on (Set_color b f) t = Some (set_ansi_color b f t)"
| "draw_on (Toggle i) t =
     (if unat i < length (screen t)
      then Some (t\<lparr>screen := (screen t)[unat i := (screen t ! unat i)\<lparr>attr := NOT (attr (screen t ! unat i))\<rparr>]\<rparr>) else None)"
| "draw_on Clear t = clear_screen t"

section \<open>The cursor and the window\<close>

definition adjust_window_for_cursor_x :: "editor \<Rightarrow> editor" where
  "adjust_window_for_cursor_x e =
     (let e = (if cursor_x e < window_x_offset e then e\<lparr>window_x_offset := cursor_x e\<rparr> else e)
      in if window_x_offset e + (term_width e - 1) < cursor_x e then e\<lparr>window_x_offset := cursor_x e - (term_width e - 1)\<rparr> else e)"

definition adjust_cursor_for_line :: "editor \<Rightarrow> editor option" where
  "adjust_cursor_for_line e = do {
     l \<leftarrow> line_at e (cursor_y e);
     let line_size = size32 (l_text l);
     Some (adjust_window_for_cursor_x (e\<lparr>cursor_x := (if line_size < preffered_x e then line_size else preffered_x e)\<rparr>))
   }"

definition adjust_window_for_cursor_up :: "editor \<Rightarrow> editor" where
  "adjust_window_for_cursor_up e = (if cursor_y e < window_y_offset e then e\<lparr>window_y_offset := cursor_y e\<rparr> else e)"

definition adjust_window_for_cursor_down :: "editor \<Rightarrow> editor" where
  "adjust_window_for_cursor_down e =
     (if window_y_offset e + (term_height e - 1) < cursor_y e then e\<lparr>window_y_offset := cursor_y e - (term_height e - 1)\<rparr> else e)"

definition move_cursor_up :: "editor \<Rightarrow> editor option" where
  "move_cursor_up e =
     (if 0 < cursor_y e
      then map_option adjust_window_for_cursor_up (adjust_cursor_for_line (e\<lparr>cursor_y := cursor_y e - 1\<rparr>)) else Some e)"

definition move_cursor_down :: "editor \<Rightarrow> editor option" where
  "move_cursor_down e =
     (if cursor_y e + 1 < size32 (line_buffer e)
      then map_option adjust_window_for_cursor_down (adjust_cursor_for_line (e\<lparr>cursor_y := cursor_y e + 1\<rparr>)) else Some e)"

definition move_cursor_left :: "editor \<Rightarrow> editor option" where
  "move_cursor_left e = do {
     e \<leftarrow> (if cursor_x e < 1
       then if 0 < cursor_y e
            then map_option (\<lambda>l. adjust_window_for_cursor_up (e\<lparr>cursor_y := cursor_y e - 1, cursor_x := size32 (l_text l)\<rparr>))
                   (line_at e (cursor_y e - 1))
            else Some e
       else Some (e\<lparr>cursor_x := cursor_x e - 1\<rparr>));
     Some (adjust_window_for_cursor_x (e\<lparr>preffered_x := cursor_x e\<rparr>))
   }"

definition move_cursor_right :: "editor \<Rightarrow> editor option" where
  "move_cursor_right e = do {
     l \<leftarrow> line_at e (cursor_y e);
     let e = (if size32 (l_text l) < cursor_x e + 1
       then if cursor_y e + 1 < size32 (line_buffer e)
            then adjust_window_for_cursor_down (e\<lparr>cursor_y := cursor_y e + 1, cursor_x := 0\<rparr>)
            else e
       else e\<lparr>cursor_x := cursor_x e + 1\<rparr>);
     Some (adjust_window_for_cursor_x (e\<lparr>preffered_x := cursor_x e\<rparr>))
   }"

section \<open>Editing\<close>

definition insert_blank_line :: "editor \<Rightarrow> editor option" where
  "insert_blank_line e = redraw_from_line (cursor_y e + 1) (write_clearline 0 (cursor_y e - window_y_offset e) (term_width e) e)"

definition print_rest_of_line :: "editor \<Rightarrow> editor option" where
  "print_rest_of_line e = do {
     l \<leftarrow> line_at e (cursor_y e);
     s \<leftarrow> view_substr (l_text l) (cursor_x e) (NOT 0);
     Some (write_at_position (cursor_x e - window_x_offset e) (cursor_y e - window_y_offset e) s e)
   }"

definition newline_chars :: "byte list" where
  "newline_chars = [13, 10]"

definition resize :: "nat \<Rightarrow> byte list \<Rightarrow> byte list" where
  "resize n s = take n s @ replicate (n - length s) 0"

definition handle_char_insert :: "(line \<Rightarrow> line) \<Rightarrow> byte \<Rightarrow> editor \<Rightarrow> editor option" where
  "handle_char_insert freed in_char e = do {
     l \<leftarrow> line_at e (cursor_y e);
     e \<leftarrow> (if in_char \<in> set newline_chars
       then do {
         s \<leftarrow> view_substr (l_text l) (cursor_x e) (NOT 0);
         let new = \<lparr>l_text = s, l_ending = l_ending l\<rparr>;
         let e = emplace_line (unat (cursor_y e) + 1) (if length (line_buffer e) = line_capacity e then freed new else new) e;
         let e = set_line (cursor_y e) (l\<lparr>l_text := resize (unat (cursor_x e)) (l_text l)\<rparr>) e;
         let e = write_clearline (cursor_x e - window_x_offset e) (cursor_y e - window_y_offset e)
           (term_width e - (cursor_x e - window_x_offset e)) e;
         insert_blank_line (adjust_window_for_cursor_x (adjust_window_for_cursor_down (e\<lparr>cursor_y := cursor_y e + 1, cursor_x := 0\<rparr>)))
       }
       else if unat (cursor_x e) \<le> length (l_text l)
       then let e = write_at_position (cursor_x e - window_x_offset e) (cursor_y e - window_y_offset e) [in_char] e in
         move_cursor_right (set_line (cursor_y e)
           (l\<lparr>l_text := take (unat (cursor_x e)) (l_text l) @ in_char # drop (unat (cursor_x e)) (l_text l)\<rparr>) e)
       else None);
     print_rest_of_line e
   }"

definition merge_lines :: "u32 \<Rightarrow> u32 \<Rightarrow> editor \<Rightarrow> editor option" where
  "merge_lines dst src e = do {
     d \<leftarrow> line_at e dst;
     s \<leftarrow> line_at e src;
     Some (erase_line (unat src) (set_line dst (d\<lparr>l_text := l_text d @ l_text s\<rparr>) e))
   }"

definition handle_char_delete :: "editor \<Rightarrow> editor option" where
  "handle_char_delete e = do {
     l \<leftarrow> line_at e (cursor_y e);
     e \<leftarrow> (if cursor_x e < size32 (l_text l)
       then Some (write_clearline (cursor_x e - window_x_offset e) (cursor_y e - window_y_offset e)
              (term_width e - (cursor_x e - window_x_offset e))
              (set_line (cursor_y e) (l\<lparr>l_text := take (unat (cursor_x e)) (l_text l) @ drop (unat (cursor_x e) + 1) (l_text l)\<rparr>) e))
       else if cursor_y e + 1 < size32 (line_buffer e)
       then do {
         e \<leftarrow> merge_lines (cursor_y e) (cursor_y e + 1) e;
         e \<leftarrow> redraw_from_line (cursor_y e + 1) e;
         Some (if size32 (line_buffer e) < window_x_offset e + term_height e
           then write_clearline (window_x_offset e) (size32 (line_buffer e) - window_y_offset e) (term_width e) e else e)
       }
       else Some e);
     print_rest_of_line e
   }"

section \<open>Messages and files\<close>

definition update_coordinate_display :: "editor \<Rightarrow> editor" where
  "update_coordinate_display e =
     (let coord = ascii_bytes ''ln: '' @ to_string (cursor_y e) @ ascii_bytes '' ch: '' @ to_string (cursor_x e)
      in draw (Set_color 4 7) (write_at_position (term_width e - size32 coord) (term_height e) coord
           (write_clearline 0 (term_height e) (term_width e) (draw (Set_color 7 0) e))))"

definition write_info_message :: "byte list \<Rightarrow> byte list \<Rightarrow> editor \<Rightarrow> editor" where
  "write_info_message message filename e =
     draw (Set_color 4 7) (write_at_position (size32 message) (term_height e) filename
       (write_at_position 0 (term_height e) message (draw (Set_color 7 0) e)))"

text \<open>The name of the file is typed: whether a name was entered, and not the escape key, and the events that are left.\<close>

function enter_name :: "key_event list \<Rightarrow> u32 \<Rightarrow> editor \<Rightarrow> (bool \<times> key_event list \<times> editor) option" where
  "enter_name evs pos e =
     (case get_keypress evs e of
        (None, evs, e) \<Rightarrow> None
      | (Some (key, in_char), evs, e) \<Rightarrow>
          if key = uint VK_ESCAPE then Some (False, evs, e)
          else if in_char = 8
          then if current_file_name e \<noteq> []
               then enter_name evs (pos - 1)
                      (write_clearline (9 + (pos - 1)) (term_height e) 1 (e\<lparr>current_file_name := butlast (current_file_name e)\<rparr>))
               else enter_name evs pos e
          else if in_char \<in> set newline_chars then Some (True, evs, e)
          else if in_char \<noteq> 0
          then let e = e\<lparr>current_file_name := current_file_name e @ [in_char]\<rparr> in
               case view_substr (current_file_name e) pos (NOT 0) of
                 None \<Rightarrow> None
               | Some s \<Rightarrow> enter_name evs (pos + 1) (write_at_position (9 + pos) (term_height e) s e)
          else enter_name evs pos e)"
  by pat_completeness auto
termination by (relation "measure (\<lambda>(evs, pos, e). length evs)") (auto dest: get_keypress_shorter [OF sym])

declare enter_name.simps [simp del]

lemma enter_name_shorter: "enter_name evs pos e = Some (ok, rest, f) \<Longrightarrow> length rest < length evs"
proof (induction "length evs" arbitrary: evs pos e rule: less_induct)
  case less
  obtain k evs' e' where g: "get_keypress evs e = (k, evs', e')" by (cases "get_keypress evs e")
  with less.prems obtain key c where k: "k = Some (key, c)" by (cases k) (auto simp: enter_name.simps [of evs])
  have shorter: "length evs' < length evs" using get_keypress_shorter g k by blast
  have "evs' = rest \<or> (\<exists>pos' e''. enter_name evs' pos' e'' = Some (ok, rest, f))"
    using less.prems by (auto simp: enter_name.simps [of evs] g k Let_def split: if_splits option.splits)
  then show ?case using less.hyps [OF shorter] shorter by fastforce
qed

definition file_contents :: "editor \<Rightarrow> byte list" where
  "file_contents e = concat (map (\<lambda>l. l_text l @ l_ending l) (line_buffer e))"

definition save_file :: "(byte list \<Rightarrow> bool) \<Rightarrow> key_event list \<Rightarrow> editor \<Rightarrow> (key_event list \<times> editor) option" where
  "save_file can_open evs e = do {
     (ok, evs, e) \<leftarrow> (if current_file_name e = []
       then map_option (\<lambda>(ok, evs, e). (ok, evs, if ok then draw (Set_color 4 7) e else e))
              (enter_name evs 0 (write_at_position 0 (term_height e) (ascii_bytes ''Save as: '')
                (write_clearline 0 (term_height e) (term_width e) (draw (Set_color 7 0) e))))
       else Some (True, evs, e));
     Some (evs,
       if \<not> ok then e
       else if \<not> can_open (current_file_name e)
       then write_info_message (ascii_bytes ''Could not save file '') (current_file_name e) e
       else write_info_message (ascii_bytes ''File saved as '') (current_file_name e)
         (e\<lparr>saved := saved e @ [(current_file_name e, file_contents e)]\<rparr>))
   }"

text \<open>The lines of a text. When no line break follows, the position is the largest number: the ending is what lies in memory
  before the text, of which \<open>before\<close> is the last byte, and the line is added once more.\<close>

function build_lines :: "byte \<Rightarrow> byte list \<Rightarrow> nat \<Rightarrow> editor \<Rightarrow> editor" where
  "build_lines before buffer pos e =
     (if pos < length buffer
      then case find_if (\<lambda>c. c \<in> set newline_chars) (drop pos buffer) of
        Some i \<Rightarrow>
          let second = pos + i in
          build_lines before buffer (second + 2)
            (add_line \<lparr>l_text = take i (drop pos buffer), l_ending = take (if buffer ! second = 13 then 2 else 1) (drop second buffer)\<rparr> e)
      | None \<Rightarrow>
          add_line \<lparr>l_text = drop pos buffer, l_ending = []\<rparr>
            (add_line \<lparr>l_text = drop pos buffer,
               l_ending = take (min (length buffer + 1) (if before = 13 then 2 else 1)) (before # buffer)\<rparr> e)
      else e)"
  by pat_completeness auto
termination by (relation "measure (\<lambda>(before, buffer, pos, e). length buffer - pos)") auto

declare build_lines.simps [simp del]

text \<open>The contents of the file, if it can be opened.\<close>

definition load_file :: "byte \<Rightarrow> byte list \<Rightarrow> byte list option \<Rightarrow> editor \<Rightarrow> bool \<times> editor" where
  "load_file before nm contents e =
     (case contents of None \<Rightarrow> (False, e) | Some buffer \<Rightarrow> (True, (build_lines before buffer 0 e)\<lparr>current_file_name := nm\<rparr>))"

section \<open>The editor\<close>

definition press_key :: "(line \<Rightarrow> line) \<Rightarrow> int \<Rightarrow> byte \<Rightarrow> editor \<Rightarrow> editor option" where
  "press_key freed key in_char e =
     (if key = uint VK_UP then move_cursor_up e
      else if key = uint VK_DOWN then move_cursor_down e
      else if key = uint VK_LEFT then move_cursor_left e
      else if key = uint VK_RIGHT then move_cursor_right e
      else if key = uint VK_DELETE then handle_char_delete e
      else if in_char = 8
      then if cursor_x e \<noteq> 0 \<or> cursor_y e \<noteq> 0 then Option.bind (move_cursor_left e) handle_char_delete else Some e
      else if in_char \<noteq> 0 then handle_char_insert freed in_char e
      else Some e)"

definition handle_keypress ::
    "(line \<Rightarrow> line) \<Rightarrow> (byte list \<Rightarrow> bool) \<Rightarrow> key_event list \<Rightarrow> int \<Rightarrow> byte \<Rightarrow> editor \<Rightarrow> (key_event list \<times> editor) option" where
  "handle_keypress freed can_open evs key in_char e =
     (if control_held e
      then if key = uint VK_S
           then save_file can_open evs (if alt_held e then e\<lparr>current_file_name := []\<rparr> else e) else Some (evs, e)
      else do {
        let cached_win_x = window_x_offset e;
        let cached_win_y = window_y_offset e;
        let e = toggle_cell_highlighted (cursor_x e - window_x_offset e) (cursor_y e - window_y_offset e) e;
        if key = uint VK_ESCAPE then Some (evs, (draw Clear (draw (Set_color 0 7) e))\<lparr>exited := True\<rparr>)
        else do {
          e \<leftarrow> press_key freed key in_char e;
          e \<leftarrow> (if window_x_offset e \<noteq> cached_win_x \<or> window_y_offset e \<noteq> cached_win_y then do_full_redraw e else Some e);
          Some (evs, update_coordinate_display
            (toggle_cell_highlighted (cursor_x e - window_x_offset e) (cursor_y e - window_y_offset e) e))
        }
      })"

lemma handle_keypress_shorter: "handle_keypress freed can_open evs key in_char e = Some (rest, f) \<Longrightarrow> length rest \<le> length evs"
  by (auto simp: handle_keypress_def save_file_def Let_def bind_eq_Some_conv map_option_case
      split: if_splits option.splits dest: enter_name_shorter)

text \<open>The start with the terminal's width and height: the file named on the command line, if any, and the first lines.\<close>

fun draw_first_lines :: "nat \<Rightarrow> u32 \<Rightarrow> editor \<Rightarrow> editor option" where
  "draw_first_lines 0 offset e = Some e"
| "draw_first_lines (Suc n) offset e = do {
     l \<leftarrow> line_at e offset;
     draw_first_lines n (offset + 1)
       (write_at_position 0 (offset - window_y_offset e) (take (unat (term_width e)) (l_text l)) e)
   }"

definition new_editor :: "u32 \<Rightarrow> u32 \<Rightarrow> editor" where
  "new_editor w h = \<lparr>line_buffer = [], line_capacity = 0, cursor_x = 0, cursor_y = 0, preffered_x = 0, window_y_offset = 0,
     window_x_offset = 0, term_width = w, term_height = h - 1, current_file_name = [], control_held = False, alt_held = False,
     draws = [], saved = [], exited = False\<rparr>"

definition editor_start :: "u32 \<Rightarrow> u32 \<Rightarrow> byte \<Rightarrow> (byte list \<times> byte list option) option \<Rightarrow> editor option" where
  "editor_start w h before arg = do {
     let e = update_coordinate_display (draw Clear (draw (Set_color 4 7) (new_editor w h)));
     let e = (case arg of
         None \<Rightarrow> e
       | Some (nm, contents) \<Rightarrow>
           (case load_file before nm contents e of
              (True, e) \<Rightarrow> e | (False, e) \<Rightarrow> write_info_message (ascii_bytes ''Could not open '') nm e));
     e \<leftarrow> draw_first_lines (unat (min (size32 (line_buffer e)) (term_height e))) 0 e;
     let e = toggle_cell_highlighted (cursor_x e - window_x_offset e) (cursor_y e - window_y_offset e) e;
     Some (if line_buffer e = [] then add_line \<lparr>l_text = [], l_ending = []\<rparr> e else e)
   }"

text \<open>The loop of the program, until no more events come or it exits.\<close>

function handle_inputs :: "(line \<Rightarrow> line) \<Rightarrow> (byte list \<Rightarrow> bool) \<Rightarrow> key_event list \<Rightarrow> editor \<Rightarrow> editor option" where
  "handle_inputs freed can_open evs e =
     (if exited e then Some e
      else case get_keypress evs e of
        (None, evs, e) \<Rightarrow> Some e
      | (Some (key, in_char), evs, e) \<Rightarrow>
          (case handle_keypress freed can_open evs key in_char e of
             None \<Rightarrow> None
           | Some (evs, e) \<Rightarrow> handle_inputs freed can_open evs e))"
  by pat_completeness auto
termination
  by (relation "measure (\<lambda>(freed, can_open, evs, e). length evs)")
    (auto dest!: get_keypress_shorter [OF sym] handle_keypress_shorter)

declare handle_inputs.simps [simp del]

end
