(* ===== verification/EditorCorrect.thy ===== *)
theory EditorCorrect
  imports Editor
begin

text \<open>
  The editor: the text as the characters and line breaks before and after the cursor, what each key does to it, and what
  is saved of a text that was loaded and edited.
\<close>

section \<open>The text of an editor\<close>

datatype symbol = Character byte | Line_break

abbreviation symbols :: "byte list \<Rightarrow> symbol list" where "symbols \<equiv> map Character"

text \<open>Lines in front of the cursor's line end with a break, lines behind it start with one.\<close>

definition leading :: "byte list list \<Rightarrow> symbol list" where
  "leading ts = concat (map (\<lambda>t. symbols t @ [Line_break]) ts)"

definition trailing :: "byte list list \<Rightarrow> symbol list" where
  "trailing ts = concat (map (\<lambda>t. Line_break # symbols t) ts)"

lemma leading_simps [simp]:
  "leading [] = []" "leading (t # ts) = symbols t @ Line_break # leading ts" "leading (ts @ us) = leading ts @ leading us"
  by (simp_all add: leading_def)

lemma trailing_simps [simp]:
  "trailing [] = []" "trailing (t # ts) = Line_break # symbols t @ trailing ts" "trailing (ts @ us) = trailing ts @ trailing us"
  by (simp_all add: trailing_def)

lemma trailing_leading: "trailing (ts @ t # us) = Line_break # leading ts @ symbols t @ trailing us"
  by (induction ts) simp_all

lemma leading_end: "ts \<noteq> [] \<Longrightarrow> leading ts = leading (butlast ts) @ symbols (last ts) @ [Line_break]"
  by (induction ts rule: rev_induct) simp_all

lemma length_trailing: "length (trailing ts) = length (leading ts)"
  by (induction ts) simp_all

lemma trailing_bounds: "t \<in> set ts \<Longrightarrow> length t < length (trailing ts)" "length ts \<le> length (trailing ts)"
  by (induction ts) auto

definition editor_text :: "editor \<Rightarrow> symbol list \<times> symbol list" where
  "editor_text e =
     (let ts = map l_text (line_buffer e); y = unat (cursor_y e); x = unat (cursor_x e)
      in (leading (take y ts) @ symbols (take x (ts ! y)), symbols (drop x (ts ! y)) @ trailing (drop (y + 1) ts)))"

definition window_ok :: "editor \<Rightarrow> bool" where
  "window_ok e \<longleftrightarrow> window_y_offset e \<le> cursor_y e \<and> 0 < unat (term_height e) \<and> unat (term_height e) < 2147483648"

definition wf_editor :: "editor \<Rightarrow> bool" where
  "wf_editor e \<longleftrightarrow> unat (cursor_y e) < length (line_buffer e)
     \<and> unat (cursor_x e) \<le> length (l_text (line_buffer e ! unat (cursor_y e)))
     \<and> length (trailing (map l_text (line_buffer e))) < 2147483648 \<and> window_ok e"

text \<open>The lines around the cursor.\<close>

definition here :: "editor \<Rightarrow> line list \<Rightarrow> line \<Rightarrow> line list \<Rightarrow> nat \<Rightarrow> bool" where
  "here e P l S x \<longleftrightarrow> line_buffer e = P @ l # S \<and> unat (cursor_y e) = length P \<and> unat (cursor_x e) = x
     \<and> x \<le> length (l_text l) \<and> length (trailing (map l_text (P @ l # S))) < 2147483648"

lemma wf_here: "wf_editor e \<longleftrightarrow> window_ok e \<and> (\<exists>P l S x. here e P l S x)"
proof
  assume wf: "wf_editor e"
  then have "line_buffer e = take (unat (cursor_y e)) (line_buffer e) @ line_buffer e ! unat (cursor_y e) # drop (Suc (unat (cursor_y e))) (line_buffer e)"
    by (simp add: wf_editor_def id_take_nth_drop [symmetric])
  moreover have "length (take (unat (cursor_y e)) (line_buffer e)) = unat (cursor_y e)"
    using wf by (simp add: wf_editor_def)
  ultimately have "here e (take (unat (cursor_y e)) (line_buffer e)) (line_buffer e ! unat (cursor_y e))
      (drop (Suc (unat (cursor_y e))) (line_buffer e)) (unat (cursor_x e))"
    using wf unfolding wf_editor_def here_def by simp
  then show "window_ok e \<and> (\<exists>P l S x. here e P l S x)"
    using wf unfolding wf_editor_def by blast
next
  assume "window_ok e \<and> (\<exists>P l S x. here e P l S x)"
  then show "wf_editor e" by (auto simp: wf_editor_def here_def)
qed

lemma wf_hereI: "here e P l S x \<Longrightarrow> window_ok e \<Longrightarrow> wf_editor e"
  by (auto simp: wf_here)

lemma here_text:
  assumes "here e P l S x"
  shows "editor_text e = (leading (map l_text P) @ symbols (take x (l_text l)), symbols (drop x (l_text l)) @ trailing (map l_text S))"
proof -
  have "map l_text (line_buffer e) ! length P = l_text l" "take (length P) (map l_text (line_buffer e)) = map l_text P"
    "drop (length P + 1) (map l_text (line_buffer e)) = map l_text S"
    using assms by (simp_all add: here_def nth_append)
  then show ?thesis using assms unfolding editor_text_def here_def Let_def by (simp only:)
qed

lemma text_size: "here e P l S x \<Longrightarrow>
  length (trailing (map l_text (P @ l # S))) = length (fst (editor_text e)) + length (snd (editor_text e)) + 1"
  by (simp add: here_text length_trailing)

text \<open>The parts of the state that the keys of a text do not change.\<close>

definition frame :: "editor \<Rightarrow> _" where
  "frame e = (current_file_name e, saved e, control_held e, alt_held e, exited e, term_height e)"

lemma here_update [simp]:
  "here (e\<lparr>draws := d\<rparr>) = here e" "here (e\<lparr>window_x_offset := w\<rparr>) = here e" "here (e\<lparr>window_y_offset := w\<rparr>) = here e"
  "here (e\<lparr>preffered_x := w\<rparr>) = here e"
  by (intro ext; simp add: here_def)+

lemma frame_update [simp]:
  "frame (e\<lparr>draws := d\<rparr>) = frame e" "frame (e\<lparr>window_x_offset := w\<rparr>) = frame e" "frame (e\<lparr>window_y_offset := w\<rparr>) = frame e"
  "frame (e\<lparr>preffered_x := w\<rparr>) = frame e" "frame (e\<lparr>cursor_x := w\<rparr>) = frame e" "frame (e\<lparr>cursor_y := w\<rparr>) = frame e"
  "frame (e\<lparr>line_buffer := ls\<rparr>) = frame e" "frame (e\<lparr>line_capacity := n\<rparr>) = frame e"
  by (simp_all add: frame_def)

lemma window_ok_update [simp]:
  "window_ok (e\<lparr>draws := d\<rparr>) = window_ok e" "window_ok (e\<lparr>window_x_offset := w\<rparr>) = window_ok e"
  "window_ok (e\<lparr>preffered_x := w\<rparr>) = window_ok e" "window_ok (e\<lparr>cursor_x := w\<rparr>) = window_ok e"
  "window_ok (e\<lparr>line_buffer := ls\<rparr>) = window_ok e" "window_ok (e\<lparr>line_capacity := n\<rparr>) = window_ok e"
  by (simp_all add: window_ok_def)

section \<open>What drawing changes\<close>

text \<open>Only the requests to the terminal.\<close>

definition drawn :: "editor \<Rightarrow> editor \<Rightarrow> bool" where
  "drawn e e' \<longleftrightarrow> (\<exists>d. e' = e\<lparr>draws := d\<rparr>)"

lemma drawn_refl [simp]: "drawn e e"
  unfolding drawn_def by (rule exI [where x = "draws e"]) simp

lemma drawn_trans: "drawn e f \<Longrightarrow> drawn f g \<Longrightarrow> drawn e g"
  by (auto simp: drawn_def)

lemma drawn_draw [simp]:
  "drawn e (draw d e)" "drawn e (write_clearline x y n e)" "drawn e (write_at_position x y str e)"
  "drawn e (toggle_cell_highlighted x y e)"
  by (auto simp: drawn_def draw_def write_clearline_def write_at_position_def Let_def toggle_cell_highlighted_def
      intro: exI [where x = "draws e"])

lemma drawn_after: "drawn e f \<Longrightarrow> drawn e (draw d f)" "drawn e f \<Longrightarrow> drawn e (write_clearline x y n f)"
  "drawn e f \<Longrightarrow> drawn e (write_at_position x y str f)" "drawn e f \<Longrightarrow> drawn e (toggle_cell_highlighted x y f)"
  by (meson drawn_trans drawn_draw)+

lemma drawn_messages [simp]: "drawn e (update_coordinate_display e)" "drawn e (write_info_message a b e)"
  by (simp_all add: update_coordinate_display_def write_info_message_def Let_def drawn_after)

lemma drawn_same:
  assumes "drawn e f"
  shows "here f = here e" "frame f = frame e" "window_ok f = window_ok e" "line_buffer f = line_buffer e" "line_capacity f = line_capacity e"
    "cursor_y f = cursor_y e" "cursor_x f = cursor_x e" "window_y_offset f = window_y_offset e" "line_at f = line_at e"
    "editor_text f = editor_text e"
  using assms by (auto simp: drawn_def line_at_def fun_eq_iff editor_text_def)

lemma sint_small: "unat (w :: u32) < 2147483648 \<Longrightarrow> sint w = int (unat w)"
proof -
  assume "unat w < 2147483648"
  then have "uint w < 2147483648" by (metis uint_nat of_nat_less_iff of_nat_numeral)
  then have "sint w = uint w"
    using order_trans [OF _ uint_ge_0 [of w], of "- 2147483648"] by (simp add: sint_uint signed_take_bit_int_eq_self_iff)
  then show ?thesis by (simp only: uint_nat)
qed

lemma size32_small: "length xs < 2147483648 \<Longrightarrow> unat (size32 xs) = length xs"
  by (simp add: unat_of_nat32)

lemma rect_part_bound:
  assumes "unat extent < 2147483648" and "unat from < 2147483648"
  shows "unat (rect_part room extent from limit) \<le> unat extent - unat from"
proof -
  let ?d = "of_int (max (sint extent - sint from) 0) :: u32"
  have "max (sint extent - sint from) 0 = int (unat extent - unat from)"
    unfolding sint_small [OF assms(1)] sint_small [OF assms(2)] by linarith
  then have "unat ?d = unat extent - unat from"
    using assms by (simp add: unat_of_nat32)
  moreover have "rect_part room extent from limit \<le> ?d" by (simp add: rect_part_def min_le_iff_disj)
  ultimately show ?thesis by (simp add: word_le_nat_alt)
qed

lemma view_substr_inside: "sx < size32 s \<Longrightarrow> view_substr s sx n \<noteq> None"
  by (simp add: view_substr_def word_less_nat_alt unat_of_nat)

lemma draw_rows_drawn:
  assumes "unat sy + n \<le> length (line_buffer e)" and "length (line_buffer e) < 2147483648"
  shows "\<exists>f. draw_rows dx dy dw sx sy n e = Some f \<and> drawn e f"
  using assms
proof (induction n arbitrary: dy sy e)
  case (Suc n)
  let ?l = "line_buffer e ! unat sy" and ?w = "rect_part dw (size32 (l_text (line_buffer e ! unat sy))) sx (term_width e)"
  have at: "line_at e sy = Some ?l" using Suc.prems by (simp add: line_at_def)
  obtain g where g: "(if sx < size32 (l_text ?l) then map_option (\<lambda>s. write_at_position dx dy s e) (view_substr (l_text ?l) sx ?w) else Some e) = Some g"
      "drawn e g"
    using view_substr_inside [of sx "l_text ?l" ?w] by (cases "sx < size32 (l_text ?l)") auto
  let ?h = "write_clearline (dx + ?w) dy (dw - ?w) g"
  have h: "drawn e ?h" using g by (simp add: drawn_after)
  have next_line: "unat (sy + 1) = unat sy + 1" using Suc.prems by (subst u32_add) simp_all
  have "unat (sy + 1) + n \<le> length (line_buffer ?h)" "length (line_buffer ?h) < 2147483648"
    using Suc.prems next_line drawn_same(4) [OF h] by simp_all
  from Suc.IH [OF this] obtain f where "draw_rows dx (dy + 1) dw sx (sy + 1) n ?h = Some f" "drawn ?h f" by blast
  then show ?case using at g h by (auto simp: Let_def intro: drawn_trans)
qed simp

lemma draw_rect_drawn:
  assumes "length (line_buffer e) < 2147483648" and "unat sy \<le> length (line_buffer e)"
  shows "\<exists>f. draw_rect dx dy dw dh sx sy e = Some f \<and> drawn e f"
proof -
  have "unat (rect_part dh (size32 (line_buffer e)) sy (term_height e)) \<le> unat (size32 (line_buffer e)) - unat sy"
    using assms by (intro rect_part_bound) (simp_all add: size32_small)
  then show ?thesis using assms by (simp add: draw_rect_def draw_rows_drawn size32_small)
qed

lemma here_bounds:
  assumes "here e P l S x"
  shows "length (line_buffer e) < 2147483648" "length (l_text l) < 2147483648" "\<forall>t \<in> set (P @ S). length (l_text t) < 2147483648"
proof -
  have total: "length (trailing (map l_text (P @ l # S))) < 2147483648" and lines: "line_buffer e = P @ l # S"
    using assms by (simp_all only: here_def)
  have "length (l_text t) < 2147483648" if "t \<in> set (P @ l # S)" for t
    using trailing_bounds(1) [OF imageI [OF that, of l_text, folded set_map]] total by (rule less_trans)
  then show "length (l_text l) < 2147483648" "\<forall>t \<in> set (P @ S). length (l_text t) < 2147483648" by simp_all
  show "length (line_buffer e) < 2147483648"
    using trailing_bounds(2) [of "map l_text (P @ l # S)"] total unfolding lines by (simp only: length_map)
qed

lemma here_line: "here e P l S x \<Longrightarrow> line_at e (cursor_y e) = Some l"
  by (simp add: here_def line_at_def)

section \<open>The window\<close>

lemma adjust_x [simp]:
  "here (adjust_window_for_cursor_x e) = here e" "frame (adjust_window_for_cursor_x e) = frame e"
  "window_ok (adjust_window_for_cursor_x e) = window_ok e" "line_buffer (adjust_window_for_cursor_x e) = line_buffer e"
  "line_capacity (adjust_window_for_cursor_x e) = line_capacity e" "cursor_y (adjust_window_for_cursor_x e) = cursor_y e"
  by (simp_all add: adjust_window_for_cursor_x_def Let_def)

lemma adjust_up [simp]:
  "here (adjust_window_for_cursor_up e) = here e" "frame (adjust_window_for_cursor_up e) = frame e"
  "line_buffer (adjust_window_for_cursor_up e) = line_buffer e" "line_capacity (adjust_window_for_cursor_up e) = line_capacity e"
  by (simp_all add: adjust_window_for_cursor_up_def)

lemma adjust_down [simp]:
  "here (adjust_window_for_cursor_down e) = here e" "frame (adjust_window_for_cursor_down e) = frame e"
  "line_buffer (adjust_window_for_cursor_down e) = line_buffer e" "line_capacity (adjust_window_for_cursor_down e) = line_capacity e"
  "cursor_y (adjust_window_for_cursor_down e) = cursor_y e"
  by (simp_all add: adjust_window_for_cursor_down_def)

lemma window_up: "window_ok e \<Longrightarrow> term_height e' = term_height e \<Longrightarrow> window_ok (adjust_window_for_cursor_up e')"
  by (auto simp: window_ok_def adjust_window_for_cursor_up_def)

lemma window_down:
  assumes "window_ok e" and "term_height e' = term_height e" and "window_y_offset e' = window_y_offset e"
    and "unat (cursor_y e') = unat (cursor_y e) + 1" and "unat (cursor_y e') < 2147483648"
  shows "window_ok (adjust_window_for_cursor_down e')"
proof -
  have le: "window_y_offset e' \<le> cursor_y e'" using assms by (simp add: window_ok_def word_le_nat_alt)
  have h: "unat (term_height e' - 1) = unat (term_height e') - 1"
    using assms by (subst u32_sub) (auto simp: window_ok_def word_le_nat_alt)
  have "unat (window_y_offset e' + (term_height e' - 1)) = unat (window_y_offset e') + (unat (term_height e') - 1)"
    using assms le h by (subst u32_add) (auto simp: window_ok_def word_le_nat_alt)
  then have "term_height e' - 1 \<le> cursor_y e'" if "window_y_offset e' + (term_height e' - 1) < cursor_y e'"
    using that h by (simp only: word_le_nat_alt word_less_nat_alt)
  then have "cursor_y e' - (term_height e' - 1) \<le> cursor_y e'" if "window_y_offset e' + (term_height e' - 1) < cursor_y e'"
    using that u32_sub [of "term_height e' - 1" "cursor_y e'"] by (simp only: word_le_nat_alt)
  then show ?thesis using assms le by (auto simp: window_ok_def adjust_window_for_cursor_down_def)
qed

section \<open>What the keys do\<close>

text \<open>After an operation: the lines around the cursor, the ends of the lines and the rest of the state.\<close>

definition became :: "editor \<Rightarrow> line list \<Rightarrow> line \<Rightarrow> line list \<Rightarrow> nat \<Rightarrow> editor \<Rightarrow> bool" where
  "became e P l S x e' \<longleftrightarrow> here e' P l S x \<and> window_ok e' \<and> frame e' = frame e \<and> line_capacity e \<le> line_capacity e'"

lemma became_drawn: "became e P l S x f \<Longrightarrow> drawn f g \<Longrightarrow> became e P l S x g"
  by (simp add: became_def drawn_same)

lemma here_with_cursor:
  assumes "here e P l S x" and "P @ l # S = P' @ l' # S'" and "unat y' = length P'" and "unat x' = x''" and "x'' \<le> length (l_text l')"
  shows "here (e\<lparr>cursor_y := y', cursor_x := x'\<rparr>) P' l' S' x''"
  using assms by (simp add: here_def)

lemma prev_line:
  assumes "here e P l S x" and "P \<noteq> []"
  shows "unat (cursor_y e - 1) = length (butlast P)" "line_at e (cursor_y e - 1) = Some (last P)"
proof -
  have "1 \<le> cursor_y e" using assms by (cases P) (auto simp: here_def word_le_nat_alt)
  then show y: "unat (cursor_y e - 1) = length (butlast P)" using assms by (simp add: u32_sub here_def)
  have "(P @ l # S) ! length (butlast P) = last P" using assms(2) by (simp add: nth_append last_conv_nth)
  then show "line_at e (cursor_y e - 1) = Some (last P)"
    using assms y by (simp add: line_at_def here_def)
qed

lemma next_line:
  assumes "here e P l S x"
  shows "unat (cursor_y e + 1) = length P + 1" "cursor_y e + 1 < size32 (line_buffer e) \<longleftrightarrow> S \<noteq> []"
proof -
  show y: "unat (cursor_y e + 1) = length P + 1"
    using assms here_bounds(1) [OF assms] by (subst u32_add) (simp_all add: here_def)
  have "unat (size32 (line_buffer e)) = length P + 1 + length S"
    using assms by (subst size32_small [OF here_bounds(1) [OF assms]]) (simp add: here_def)
  then show "cursor_y e + 1 < size32 (line_buffer e) \<longleftrightarrow> S \<noteq> []" by (simp add: y word_less_nat_alt)
qed

lemma cursor_y_zero: "here e P l S x \<Longrightarrow> 0 < cursor_y e \<longleftrightarrow> P \<noteq> []"
  by (auto simp: here_def word_less_nat_alt)

lemma left_moved:
  assumes "here e P l S x" and "window_ok e"
  shows "\<exists>f. move_cursor_left e = Some f \<and>
    (if x = 0 then if P = [] then became e P l S x f else became e (butlast P) (last P) (l # S) (length (l_text (last P))) f
     else became e P l S (x - 1) f)"
proof (cases "x = 0")
  case True
  then have x0: "cursor_x e < 1" using assms by (auto simp: here_def word_less_nat_alt)
  show ?thesis
  proof (cases "P = []")
    case True
    then show ?thesis
      using x0 \<open>x = 0\<close> assms cursor_y_zero [OF assms(1)] by (simp add: move_cursor_left_def became_def)
  next
    case False
    have lines: "P @ l # S = butlast P @ last P # l # S" using False by simp
    have len: "length (l_text (last P)) < 2147483648" using here_bounds(3) [OF assms(1)] False by simp
    have "here (e\<lparr>cursor_y := cursor_y e - 1, cursor_x := size32 (l_text (last P))\<rparr>) (butlast P) (last P) (l # S) (length (l_text (last P)))"
      by (rule here_with_cursor [OF assms(1) lines prev_line(1) [OF assms(1) False] size32_small [OF len]]) simp
    then show ?thesis
      using x0 \<open>x = 0\<close> False assms cursor_y_zero [OF assms(1)] prev_line(2) [OF assms(1) False]
      by (simp add: move_cursor_left_def became_def window_up [OF assms(2)])
  qed
next
  case False
  then have x1: "\<not> cursor_x e < 1" "unat (cursor_x e - 1) = x - 1"
    using assms by (auto simp: here_def word_less_nat_alt word_le_nat_alt u32_sub)
  have "here (e\<lparr>cursor_x := cursor_x e - 1\<rparr>) P l S (x - 1)" using assms x1 by (auto simp: here_def)
  then show ?thesis using False x1 assms by (simp add: move_cursor_left_def became_def)
qed

lemma cursor_x_next:
  assumes "here e P l S x"
  shows "unat (cursor_x e + 1) = x + 1" "size32 (l_text l) < cursor_x e + 1 \<longleftrightarrow> x = length (l_text l)"
    "cursor_x e < size32 (l_text l) \<longleftrightarrow> x < length (l_text l)"
proof -
  show x: "unat (cursor_x e + 1) = x + 1"
    using assms here_bounds(2) [OF assms] by (subst u32_add) (simp_all add: here_def)
  show "size32 (l_text l) < cursor_x e + 1 \<longleftrightarrow> x = length (l_text l)" "cursor_x e < size32 (l_text l) \<longleftrightarrow> x < length (l_text l)"
    using assms x size32_small [OF here_bounds(2) [OF assms]] by (auto simp: word_less_nat_alt here_def)
qed

lemma right_moved:
  assumes "here e P l S x" and "window_ok e"
  shows "\<exists>f. move_cursor_right e = Some f \<and>
    (if x = length (l_text l) then if S = [] then became e P l S x f else became e (P @ [l]) (hd S) (tl S) 0 f
     else became e P l S (x + 1) f)"
proof (cases "x = length (l_text l)")
  case True
  show ?thesis
  proof (cases "S = []")
    case True
    then show ?thesis
      using \<open>x = _\<close> assms by (simp add: move_cursor_right_def here_line cursor_x_next [OF assms(1)] next_line [OF assms(1)] became_def)
  next
    case False
    let ?e = "e\<lparr>cursor_y := cursor_y e + 1, cursor_x := 0\<rparr>"
    have h: "here ?e (P @ [l]) (hd S) (tl S) 0"
      by (rule here_with_cursor [OF assms(1)]) (simp_all add: False next_line [OF assms(1)])
    have "unat (cursor_y e) + 1 < 2147483648"
      using here_bounds(1) [OF assms(1)] assms(1) by (simp add: here_def)
    then have "window_ok (adjust_window_for_cursor_down ?e)"
      using assms next_line(1) [OF assms(1)] by (intro window_down [OF assms(2)]) (simp_all add: here_def)
    then show ?thesis
      using \<open>x = _\<close> False h assms by (simp add: move_cursor_right_def here_line cursor_x_next [OF assms(1)] next_line [OF assms(1)] became_def Let_def)
  qed
next
  case False
  then have "here (e\<lparr>cursor_x := cursor_x e + 1\<rparr>) P l S (x + 1)"
    using assms(1) cursor_x_next(1) [OF assms(1)] by (simp add: here_def)
  then show ?thesis using False assms by (simp add: move_cursor_right_def here_line cursor_x_next [OF assms(1)] became_def)
qed

text \<open>Up and down keep the lines.\<close>

lemma vertical:
  assumes "here e P l S x" and "P @ l # S = P' @ l' # S'" and "unat y = length P'"
  shows "\<exists>f x'. adjust_cursor_for_line (e\<lparr>cursor_y := y\<rparr>) = Some f \<and> here f P' l' S' x' \<and> frame f = frame e
    \<and> line_capacity f = line_capacity e \<and> cursor_y f = y \<and> window_y_offset f = window_y_offset e"
proof -
  have line: "line_at (e\<lparr>cursor_y := y\<rparr>) y = Some l'" using assms by (simp add: line_at_def here_def)
  have "l' \<in> set (P @ l # S)" using assms(2) by simp
  then have len: "length (l_text l') < 2147483648" using here_bounds [OF assms(1)] by auto
  define x' where "x' = (if size32 (l_text l') < preffered_x e then size32 (l_text l') else preffered_x e)"
  have "unat x' \<le> length (l_text l')" using size32_small [OF len] by (simp add: word_less_nat_alt x'_def)
  then have "here (e\<lparr>cursor_y := y, cursor_x := x'\<rparr>) P' l' S' (unat x')"
    by (intro here_with_cursor [OF assms refl])
  moreover have "adjust_cursor_for_line (e\<lparr>cursor_y := y\<rparr>) = Some (adjust_window_for_cursor_x (e\<lparr>cursor_y := y, cursor_x := x'\<rparr>))"
    using line by (simp add: adjust_cursor_for_line_def Let_def x'_def)
  moreover have "window_y_offset (adjust_window_for_cursor_x f) = window_y_offset f" for f
    by (simp add: adjust_window_for_cursor_x_def Let_def)
  ultimately show ?thesis by (intro exI) auto
qed

lemma up_moved:
  assumes "here e P l S x" and "window_ok e"
  shows "\<exists>f P' l' S' x'. move_cursor_up e = Some f \<and> P' @ l' # S' = P @ l # S \<and> became e P' l' S' x' f"
proof (cases "P = []")
  case True
  then have "move_cursor_up e = Some e \<and> P @ l # S = P @ l # S \<and> became e P l S x e"
    using assms cursor_y_zero [OF assms(1)] by (simp add: move_cursor_up_def became_def)
  then show ?thesis by blast
next
  case False
  have lines: "P @ l # S = butlast P @ last P # l # S" using False by simp
  from vertical [OF assms(1) lines prev_line(1) [OF assms(1) False]] obtain f x' where f:
    "adjust_cursor_for_line (e\<lparr>cursor_y := cursor_y e - 1\<rparr>) = Some f" "here f (butlast P) (last P) (l # S) x'" "frame f = frame e"
    "line_capacity f = line_capacity e" by blast
  then have "window_ok (adjust_window_for_cursor_up f)" by (intro window_up [OF assms(2)]) (simp add: frame_def)
  then have "move_cursor_up e = Some (adjust_window_for_cursor_up f) \<and> butlast P @ last P # l # S = P @ l # S
      \<and> became e (butlast P) (last P) (l # S) x' (adjust_window_for_cursor_up f)"
    using f False cursor_y_zero [OF assms(1)] by (simp add: move_cursor_up_def became_def)
  then show ?thesis by blast
qed

lemma down_moved:
  assumes "here e P l S x" and "window_ok e"
  shows "\<exists>f P' l' S' x'. move_cursor_down e = Some f \<and> P' @ l' # S' = P @ l # S \<and> became e P' l' S' x' f"
proof (cases S)
  case Nil
  then have "move_cursor_down e = Some e \<and> P @ l # S = P @ l # S \<and> became e P l S x e"
    using assms next_line [OF assms(1)] by (simp add: move_cursor_down_def became_def)
  then show ?thesis by blast
next
  case (Cons l' S')
  have lines: "P @ l # S = (P @ [l]) @ l' # S'" and y: "unat (cursor_y e + 1) = length (P @ [l])"
    using Cons next_line [OF assms(1)] by simp_all
  from vertical [OF assms(1) lines y] obtain f x' where f:
    "adjust_cursor_for_line (e\<lparr>cursor_y := cursor_y e + 1\<rparr>) = Some f" "here f (P @ [l]) l' S' x'" "frame f = frame e"
    "line_capacity f = line_capacity e" "cursor_y f = cursor_y e + 1" "window_y_offset f = window_y_offset e" by blast
  have "unat (cursor_y e) + 1 < 2147483648" using here_bounds(1) [OF assms(1)] assms(1) Cons by (simp add: here_def)
  then have "window_ok (adjust_window_for_cursor_down f)"
    using f assms(1) y by (intro window_down [OF assms(2)]) (simp_all add: frame_def here_def)
  then have "move_cursor_down e = Some (adjust_window_for_cursor_down f) \<and> (P @ [l]) @ l' # S' = P @ l # S
      \<and> became e (P @ [l]) l' S' x' (adjust_window_for_cursor_down f)"
    using f Cons next_line [OF assms(1)] by (simp add: move_cursor_down_def became_def)
  then show ?thesis by blast
qed

text \<open>Deleting and inserting.\<close>

lemma rest_printed:
  assumes "here e P l S x"
  shows "\<exists>f. print_rest_of_line e = Some f \<and> drawn e f"
  using assms by (simp add: print_rest_of_line_def here_line view_substr_def) (simp add: here_def)

lemma redrawn_from_line:
  assumes "here e P l S x"
  shows "\<exists>f. redraw_from_line (cursor_y e + 1) e = Some f \<and> drawn e f"
  unfolding redraw_from_line_def Let_def using assms next_line(1) [OF assms]
  by (intro draw_rect_drawn here_bounds(1) [OF assms]) (simp add: here_def)

lemma finished_line:
  assumes "g = Some f" and "became e P l S x f"
  shows "\<exists>h. Option.bind g print_rest_of_line = Some h \<and> became e P l S x h"
proof -
  obtain h where "print_rest_of_line f = Some h" "drawn f h" using rest_printed assms(2) unfolding became_def by blast
  then show ?thesis using assms became_drawn by auto
qed

lemma set_line_here:
  assumes "here e P l S x"
  shows "set_line (cursor_y e) l' e = e\<lparr>line_buffer := P @ l' # S\<rparr>"
  using assms by (simp add: set_line_def here_def)

lemma deleted_in_line:
  assumes "here e P l S x" and "window_ok e" and "x < length (l_text l)"
  shows "\<exists>f. handle_char_delete e = Some f \<and> became e P (l\<lparr>l_text := take x (l_text l) @ drop (x + 1) (l_text l)\<rparr>) S x f"
proof -
  let ?l = "l\<lparr>l_text := take x (l_text l) @ drop (x + 1) (l_text l)\<rparr>" and ?e = "e\<lparr>line_buffer := P @ l\<lparr>l_text := take x (l_text l) @ drop (x + 1) (l_text l)\<rparr> # S\<rparr>"
  let ?f = "write_clearline (cursor_x e - window_x_offset e) (cursor_y e - window_y_offset e) (term_width e - (cursor_x e - window_x_offset e)) ?e"
  have "here ?e P ?l S x" using assms by (auto simp: here_def)
  then have became: "became e P ?l S x ?f"
    by (intro became_drawn [OF _ drawn_draw(2)]) (simp add: became_def assms)
  have x: "unat (cursor_x e) = x" using assms(1) by (simp add: here_def)
  have "handle_char_delete e = Option.bind (Some ?f) print_rest_of_line"
    using assms(3) by (simp add: handle_char_delete_def here_line [OF assms(1)] cursor_x_next(3) [OF assms(1)] set_line_here [OF assms(1)] x)
  with finished_line [OF refl became] show ?thesis by simp
qed

lemma deleted_break:
  assumes "here e P l (s # S) (length (l_text l))" and "window_ok e"
  shows "\<exists>f. handle_char_delete e = Some f \<and> became e P (l\<lparr>l_text := l_text l @ l_text s\<rparr>) S (length (l_text l)) f"
proof -
  let ?l = "l\<lparr>l_text := l_text l @ l_text s\<rparr>" and ?y = "cursor_y e"
  let ?e = "e\<lparr>line_buffer := P @ l\<lparr>l_text := l_text l @ l_text s\<rparr> # S\<rparr>"
  have y: "unat (?y + 1) = length P + 1" by (rule next_line [OF assms(1)])
  have at: "line_at e (?y + 1) = Some s" using assms(1) y by (simp add: line_at_def here_def nth_append)
  have "merge_lines ?y (?y + 1) e = Some ?e"
    by (simp add: merge_lines_def here_line [OF assms(1)] at set_line_here [OF assms(1)] erase_line_def y)
  moreover have e: "here ?e P ?l S (length (l_text l))" using assms by (auto simp: here_def)
  from redrawn_from_line [OF e] obtain f where f: "redraw_from_line (?y + 1) ?e = Some f" "drawn ?e f" by auto
  let ?g = "if size32 (line_buffer f) < window_x_offset f + term_height f
    then write_clearline (window_x_offset f) (size32 (line_buffer f) - window_y_offset f) (term_width f) f else f"
  have "became e P ?l S (length (l_text l)) ?e" using e by (simp add: became_def assms)
  moreover have "drawn ?e ?g" using f(2) drawn_after(2) by simp
  ultimately have became: "became e P ?l S (length (l_text l)) ?g" using became_drawn by blast
  have "handle_char_delete e = Option.bind (Some ?g) print_rest_of_line"
    using \<open>merge_lines _ _ _ = _\<close> f(1) next_line(2) [OF assms(1)]
    by (simp add: handle_char_delete_def here_line [OF assms(1)] cursor_x_next(3) [OF assms(1)])
  with finished_line [OF refl became] show ?thesis by simp
qed

lemma deleted_nothing:
  assumes "here e P l [] (length (l_text l))" and "window_ok e"
  shows "\<exists>f. handle_char_delete e = Some f \<and> became e P l [] (length (l_text l)) f"
proof -
  have "handle_char_delete e = Option.bind (Some e) print_rest_of_line"
    using next_line(2) [OF assms(1)] by (simp add: handle_char_delete_def here_line [OF assms(1)] cursor_x_next(3) [OF assms(1)])
  with finished_line [OF refl, of e P l "[]" "length (l_text l)" e] assms show ?thesis by (simp add: became_def)
qed

lemma inserted_character:
  assumes "here e P l S x" and "window_ok e" and "c \<notin> set newline_chars"
    and "length (trailing (map l_text (P @ l # S))) + 1 < 2147483648"
  shows "\<exists>f. handle_char_insert freed c e = Some f \<and> became e P (l\<lparr>l_text := take x (l_text l) @ c # drop x (l_text l)\<rparr>) S (x + 1) f"
proof -
  let ?l = "l\<lparr>l_text := take x (l_text l) @ c # drop x (l_text l)\<rparr>"
  let ?d = "write_at_position (cursor_x e - window_x_offset e) (cursor_y e - window_y_offset e) [c] e"
  let ?e = "?d\<lparr>line_buffer := P @ l\<lparr>l_text := take x (l_text l) @ c # drop x (l_text l)\<rparr> # S\<rparr>"
  have d: "drawn e ?d" by simp
  have hd: "here ?d P l S x" using assms(1) drawn_same(1) [OF d] by simp
  have x: "unat (cursor_x e) = x" "x \<le> length (l_text l)" using assms(1) by (simp_all add: here_def)
  have h: "here ?e P ?l S x" using hd assms(4) by (auto simp: here_def)
  have "window_ok ?e" using assms(2) drawn_same(3) [OF d] by simp
  from right_moved [OF h this] x(2) obtain f where f: "move_cursor_right ?e = Some f" "became ?e P ?l S (x + 1) f"
    by auto
  then have "became e P ?l S (x + 1) f" using drawn_same [OF d] by (simp add: became_def)
  moreover have "handle_char_insert freed c e = Option.bind (Some f) print_rest_of_line"
    using f(1) assms(3) x drawn_same(6,7) [OF d] set_line_here [OF hd] by (simp add: handle_char_insert_def here_line [OF assms(1)] Let_def)
  ultimately show ?thesis using finished_line [OF refl] by simp
qed

lemma inserted_break:
  assumes "here e P l S x" and "window_ok e" and "c \<in> set newline_chars"
    and "length (trailing (map l_text (P @ l # S))) + 1 < 2147483648" and "length (line_buffer e) < line_capacity e"
  shows "\<exists>f. handle_char_insert freed c e = Some f
    \<and> became e (P @ [l\<lparr>l_text := take x (l_text l)\<rparr>]) \<lparr>l_text = drop x (l_text l), l_ending = l_ending l\<rparr> S 0 f"
proof -
  let ?l = "l\<lparr>l_text := take x (l_text l)\<rparr>" and ?n = "\<lparr>l_text = drop x (l_text l), l_ending = l_ending l\<rparr>"
  let ?a = "e\<lparr>line_buffer := P @ l\<lparr>l_text := take x (l_text l)\<rparr> # \<lparr>l_text = drop x (l_text l), l_ending = l_ending l\<rparr> # S\<rparr>"
  let ?b = "write_clearline (cursor_x e - window_x_offset e) (cursor_y e - window_y_offset e)
      (term_width e - (cursor_x e - window_x_offset e)) ?a"
  let ?c = "?b\<lparr>cursor_y := cursor_y e + 1, cursor_x := 0\<rparr>"
  let ?d = "adjust_window_for_cursor_x (adjust_window_for_cursor_down ?c)"
  have at: "unat (cursor_y e) = length P" "unat (cursor_x e) = x" "x \<le> length (l_text l)" "line_buffer e = P @ l # S"
    using assms(1) by (simp_all add: here_def)
  have b: "drawn ?a ?b" by simp
  have small: "length P + 1 < 2147483648" using here_bounds(1) [OF assms(1)] trailing_bounds(2) [of "map l_text (P @ l # S)"] assms(4) at
    by (simp add: trailing_leading)
  have "here ?a P ?l (?n # S) x" using at assms(4) by (simp add: here_def)
  then have "here ?c (P @ [?l]) ?n S 0"
    using next_line(1) [OF assms(1)] drawn_same(1) [OF b] by (intro here_with_cursor) simp_all
  moreover have "window_ok (adjust_window_for_cursor_down ?c)"
    using drawn_same [OF b] next_line(1) [OF assms(1)] at small
    by (intro window_down [OF assms(2)]) (simp_all add: write_clearline_def draw_def)
  ultimately have d: "became e (P @ [?l]) ?n S 0 ?d" using drawn_same [OF b] by (simp add: became_def)
  let ?g = "write_clearline 0 (cursor_y ?d - window_y_offset ?d) (term_width ?d) ?d"
  have g: "drawn ?d ?g" by simp
  have "here ?g (P @ [?l]) ?n S 0" using d drawn_same(1) [OF g] by (simp add: became_def)
  from redrawn_from_line [OF this] obtain f where f: "redraw_from_line (cursor_y ?g + 1) ?g = Some f" "drawn ?g f" by blast
  then have blank: "insert_blank_line ?d = Some f" using drawn_same(6) [OF g] by (simp add: insert_blank_line_def)
  have became: "became e (P @ [?l]) ?n S 0 f" using became_drawn [OF d drawn_trans [OF g f(2)]] .
  have emplaced: "set_line (cursor_y e) ?l (emplace_line (unat (cursor_y e) + 1) ?n e) = ?a"
    using at assms(5) by (simp add: emplace_line_def set_line_def)
  have rest: "take (unat (- 1 :: u32)) (drop x (l_text l)) = drop x (l_text l)" using here_bounds(2) [OF assms(1)] by (simp add: unsigned_minus_1_eq_mask mask_eq_exp_minus_1)
  have "handle_char_insert freed c e = Option.bind (insert_blank_line ?d) print_rest_of_line"
    using assms(3,5) at emplaced drawn_same(6) [OF b] by (simp add: rest handle_char_insert_def here_line [OF assms(1)] Let_def view_substr_def resize_def emplace_line_def set_line_def)
  with finished_line [OF blank became] show ?thesis by simp
qed

section \<open>The keys on the text\<close>

text \<open>What a key does to the text before and after the cursor; up and down only move the cursor.\<close>

fun edit_text :: "int \<Rightarrow> byte \<Rightarrow> symbol list \<times> symbol list \<Rightarrow> symbol list \<times> symbol list \<Rightarrow> bool" where
  "edit_text key c (b, a) (b', a') =
     (if key = uint VK_UP \<or> key = uint VK_DOWN then b' @ a' = b @ a
      else if key = uint VK_LEFT then b' = butlast b \<and> a' = drop (length b - 1) b @ a
      else if key = uint VK_RIGHT then b' = b @ take 1 a \<and> a' = drop 1 a
      else if key = uint VK_DELETE then b' = b \<and> a' = drop 1 a
      else if c = 8 then b' = butlast b \<and> a' = a
      else if c = 0 then b' = b \<and> a' = a
      else b' = b @ [if c \<in> set newline_chars then Line_break else Character c] \<and> a' = a)"

definition around :: "line list \<Rightarrow> line \<Rightarrow> line list \<Rightarrow> nat \<Rightarrow> symbol list \<times> symbol list" where
  "around P l S x = (leading (map l_text P) @ symbols (take x (l_text l)), symbols (drop x (l_text l)) @ trailing (map l_text S))"

definition edits :: "int \<Rightarrow> byte \<Rightarrow> editor \<Rightarrow> line list \<Rightarrow> line \<Rightarrow> line list \<Rightarrow> nat \<Rightarrow> editor \<Rightarrow> bool" where
  "edits key c e P l S x f \<longleftrightarrow> (\<exists>P' l' S' x'. became e P' l' S' x' f \<and> edit_text key c (around P l S x) (around P' l' S' x')
     \<and> l_ending ` set (P' @ l' # S') \<subseteq> l_ending ` set (P @ l # S)
     \<and> length (P' @ l' # S') \<le> length (P @ l # S) + (if c \<in> set newline_chars then 1 else 0))"

lemma editsI:
  assumes "became e P' l' S' x' f" and "edit_text key c (around P l S x) (around P' l' S' x')"
    and "l_ending ` set (P' @ l' # S') \<subseteq> l_ending ` set (P @ l # S)"
    and "length (P' @ l' # S') \<le> length (P @ l # S) + (if c \<in> set newline_chars then 1 else 0)"
  shows "edits key c e P l S x f"
  unfolding edits_def using assms by blast

lemma around_whole: "fst (around P l S x) @ snd (around P l S x) = tl (trailing (map l_text (P @ l # S)))"
proof -
  have "symbols (take x (l_text l)) @ symbols (drop x (l_text l)) = symbols (l_text l)"
    by (simp flip: map_append)
  then show ?thesis by (simp add: around_def trailing_leading del: trailing_simps(3))
qed

lemma leading_butlast: "P \<noteq> [] \<Longrightarrow> leading (map l_text P) = leading (map l_text (butlast P)) @ symbols (l_text (last P)) @ [Line_break]"
  by (subst leading_end) (simp_all add: map_butlast last_map)

lemma lines_at_last: "P \<noteq> [] \<Longrightarrow> set P = insert (last P) (set (butlast P))"
  by (metis append_butlast_last_id list.simps(15) rotate1.simps(2) set_rotate1)

lemma press_left:
  assumes "here e P l S x" and "window_ok e"
  shows "\<exists>f. move_cursor_left e = Some f \<and> edits (uint VK_LEFT) c e P l S x f"
proof -
  from left_moved [OF assms] obtain f where f: "move_cursor_left e = Some f"
    "if x = 0 then if P = [] then became e P l S x f else became e (butlast P) (last P) (l # S) (length (l_text (last P))) f
     else became e P l S (x - 1) f" by blast
  have "edits (uint VK_LEFT) c e P l S x f"
  proof (cases "x = 0")
    case True
    show ?thesis
    proof (cases "P = []")
      case True
      then show ?thesis using f \<open>x = 0\<close> by (intro editsI [where P' = P and l' = l and S' = S and x' = x]) (simp_all add: around_def)
    next
      case False
      then have "became e (butlast P) (last P) (l # S) (length (l_text (last P))) f" using f \<open>x = 0\<close> by simp
      from this show ?thesis
        using False \<open>x = 0\<close> by (intro editsI [where P' = "butlast P" and l' = "last P" and S' = "l # S" and x' = "length (l_text (last P))"]) (auto simp add: around_def leading_butlast lines_at_last butlast_append)
    qed
  next
    case False
    then have "x \<le> length (l_text l)" using assms(1) by (simp add: here_def)
    then have "take x (l_text l) = take (x - 1) (l_text l) @ [l_text l ! (x - 1)]" "drop (x - 1) (l_text l) = l_text l ! (x - 1) # drop x (l_text l)"
      using False by (cases x; simp add: take_Suc_conv_app_nth Cons_nth_drop_Suc)+
    then show ?thesis
      using False f by (intro editsI [where P' = P and l' = l and S' = S and x' = "x - 1"]) (simp_all add: around_def butlast_append)
  qed
  then show ?thesis using f by blast
qed

lemma press_right:
  assumes "here e P l S x" and "window_ok e"
  shows "\<exists>f. move_cursor_right e = Some f \<and> edits (uint VK_RIGHT) c e P l S x f"
proof -
  from right_moved [OF assms] obtain f where f: "move_cursor_right e = Some f"
    "if x = length (l_text l) then if S = [] then became e P l S x f else became e (P @ [l]) (hd S) (tl S) 0 f
     else became e P l S (x + 1) f" by blast
  have "edits (uint VK_RIGHT) c e P l S x f"
  proof (cases "x = length (l_text l)")
    case True
    show ?thesis
    proof (cases S)
      case Nil
      then show ?thesis using f True by (intro editsI [where P' = P and l' = l and S' = S and x' = x]) (simp_all add: around_def)
    next
      case (Cons s S')
      then have b: "became e (P @ [l]) s S' 0 f" using f True by simp
     show ?thesis using Cons True by (intro editsI [OF b]) (simp_all add: around_def)
    qed
  next
    case False
    then have "x < length (l_text l)" using assms(1) by (simp add: here_def)
    then have "take (x + 1) (l_text l) = take x (l_text l) @ [l_text l ! x]" "drop x (l_text l) = l_text l ! x # drop (x + 1) (l_text l)"
      by (simp_all add: take_Suc_conv_app_nth Cons_nth_drop_Suc)
    then show ?thesis
      using False f by (intro editsI [where P' = P and l' = l and S' = S and x' = "x + 1"]) (simp_all add: around_def)
  qed
  then show ?thesis using f by blast
qed

lemma press_delete:
  assumes "here e P l S x" and "window_ok e"
  shows "\<exists>f. handle_char_delete e = Some f \<and> edits (uint VK_DELETE) c e P l S x f"
proof (cases "x = length (l_text l)")
  case at_end: True
  show ?thesis
  proof (cases S)
    case Nil
    with deleted_nothing assms at_end obtain f where "handle_char_delete e = Some f" and f: "became e P l [] (length (l_text l)) f" by blast
    moreover have "edits (uint VK_DELETE) c e P l S x f" using at_end Nil by (intro editsI [OF f]) (simp_all add: around_def)
    ultimately show ?thesis by blast
  next
    case (Cons s S')
    with deleted_break assms at_end obtain f where "handle_char_delete e = Some f"
      and f: "became e P (l\<lparr>l_text := l_text l @ l_text s\<rparr>) S' (length (l_text l)) f" by blast
    moreover have "edits (uint VK_DELETE) c e P l S x f" using at_end Cons by (intro editsI [OF f]) (auto simp: around_def)
    ultimately show ?thesis by blast
  qed
next
  case False
  then have x: "x < length (l_text l)" using assms(1) by (simp add: here_def)
  with deleted_in_line assms obtain f where "handle_char_delete e = Some f"
    and f: "became e P (l\<lparr>l_text := take x (l_text l) @ drop (x + 1) (l_text l)\<rparr>) S x f" by blast
  moreover have "edits (uint VK_DELETE) c e P l S x f"
    using x by (intro editsI [OF f]) (simp_all add: around_def min_def flip: Cons_nth_drop_Suc [OF x])
  ultimately show ?thesis by blast
qed

lemma became_trans: "became e P l S x f \<Longrightarrow> became f P' l' S' x' g \<Longrightarrow> became e P' l' S' x' g"
  by (auto simp: became_def)

lemma cursor_not_first:
  assumes "here e P l S x"
  shows "cursor_x e \<noteq> 0 \<or> cursor_y e \<noteq> 0 \<longleftrightarrow> fst (around P l S x) \<noteq> []"
proof -
  have "cursor_x e \<noteq> 0 \<longleftrightarrow> x \<noteq> 0" "cursor_y e \<noteq> 0 \<longleftrightarrow> P \<noteq> []" "x \<le> length (l_text l)"
    using assms unat_eq_zero [of "cursor_x e"] unat_eq_zero [of "cursor_y e"] by (auto simp: here_def)
  moreover have "leading (map l_text P) = [] \<longleftrightarrow> P = []" by (cases P) simp_all
  ultimately show ?thesis by (auto simp: around_def)
qed

lemma press_backspace:
  assumes "here e P l S x" and "window_ok e" and "cursor_x e \<noteq> 0 \<or> cursor_y e \<noteq> 0"
    and "key \<notin> {uint VK_UP, uint VK_DOWN, uint VK_LEFT, uint VK_RIGHT, uint VK_DELETE}"
  shows "\<exists>f. Option.bind (move_cursor_left e) handle_char_delete = Some f \<and> edits key 8 e P l S x f"
proof -
  obtain g where g: "move_cursor_left e = Some g" "edits (uint VK_LEFT) 0 e P l S x g" using press_left assms by blast
  then obtain P1 l1 S1 x1 where left: "became e P1 l1 S1 x1 g" "edit_text (uint VK_LEFT) 0 (around P l S x) (around P1 l1 S1 x1)"
    "l_ending ` set (P1 @ l1 # S1) \<subseteq> l_ending ` set (P @ l # S)" "length (P1 @ l1 # S1) \<le> length (P @ l # S)"
    by (auto simp: edits_def newline_chars_def)
  have "here g P1 l1 S1 x1" "window_ok g" using left(1) by (simp_all add: became_def)
  from press_delete [OF this, of 0] obtain f P2 l2 S2 x2 where f: "handle_char_delete g = Some f" "became g P2 l2 S2 x2 f"
    "edit_text (uint VK_DELETE) 0 (around P1 l1 S1 x1) (around P2 l2 S2 x2)" "l_ending ` set (P2 @ l2 # S2) \<subseteq> l_ending ` set (P1 @ l1 # S1)"
    "length (P2 @ l2 # S2) \<le> length (P1 @ l1 # S1)"
    by (auto simp: edits_def newline_chars_def)
  have "edit_text key 8 (around P l S x) (around P2 l2 S2 x2)"
    using left(2) f(3) assms(4) cursor_not_first [OF assms(1)] assms(3)
    by (cases "around P l S x"; cases "around P1 l1 S1 x1"; cases "around P2 l2 S2 x2") simp
  then have "edits key 8 e P l S x f"
    by (rule editsI [OF became_trans [OF left(1) f(2)] _ subset_trans [OF f(4) left(3)]])
      (use order_trans [OF f(5) left(4)] in simp)
  then show ?thesis using g(1) f(1) by auto
qed

lemma press_character:
  assumes "here e P l S x" and "window_ok e" and "key \<notin> {uint VK_UP, uint VK_DOWN, uint VK_LEFT, uint VK_RIGHT, uint VK_DELETE}" and "c \<noteq> 8" and "c \<noteq> 0"
    and "length (trailing (map l_text (P @ l # S))) + 1 < 2147483648"
    and "c \<in> set newline_chars \<Longrightarrow> length (line_buffer e) < line_capacity e"
  shows "\<exists>f. handle_char_insert freed c e = Some f \<and> edits key c e P l S x f"
proof (cases "c \<in> set newline_chars")
  case True
  with inserted_break [OF assms(1,2) _ assms(6)] assms(7) obtain f where "handle_char_insert freed c e = Some f"
    and f: "became e (P @ [l\<lparr>l_text := take x (l_text l)\<rparr>]) \<lparr>l_text = drop x (l_text l), l_ending = l_ending l\<rparr> S 0 f" by blast
  moreover have "edits key c e P l S x f" using True assms(3-5) by (intro editsI [OF f]) (simp_all add: around_def)
  ultimately show ?thesis by blast
next
  case False
  with inserted_character [OF assms(1,2) _ assms(6)] obtain f where "handle_char_insert freed c e = Some f"
    and f: "became e P (l\<lparr>l_text := take x (l_text l) @ c # drop x (l_text l)\<rparr>) S (x + 1) f" by blast
  moreover have "x \<le> length (l_text l)" using assms(1) by (simp add: here_def)
  then have "edits key c e P l S x f" using False assms(3-5) by (intro editsI [OF f]) (simp_all add: around_def min_def)
  ultimately show ?thesis by blast
qed

lemma press_vertical:
  assumes "here e P l S x" and "window_ok e"
  shows "\<exists>f. move_cursor_up e = Some f \<and> edits (uint VK_UP) c e P l S x f" "\<exists>f. move_cursor_down e = Some f \<and> edits (uint VK_DOWN) c e P l S x f"
proof -
  have edits: "edits key c e P l S x f" if "P' @ l' # S' = P @ l # S" "became e P' l' S' x' f" "key = uint VK_UP \<or> key = uint VK_DOWN" for key P' l' S' x' f
  proof -
    have "edit_text key c (around P l S x) (around P' l' S' x')"
      using that(1,3) around_whole [of P l S x] around_whole [of P' l' S' x']
      by (cases "around P l S x"; cases "around P' l' S' x'") simp
    then show ?thesis by (rule editsI [OF that(2)]) (simp_all only: that(1) order_refl le_add1)
  qed
  show "\<exists>f. move_cursor_up e = Some f \<and> edits (uint VK_UP) c e P l S x f" using up_moved [OF assms] edits by blast
  show "\<exists>f. move_cursor_down e = Some f \<and> edits (uint VK_DOWN) c e P l S x f" using down_moved [OF assms] edits by blast
qed

lemma press_key_edits:
  assumes "here e P l S x" and "window_ok e" and "length (trailing (map l_text (P @ l # S))) + 1 < 2147483648"
    and "c \<in> set newline_chars \<Longrightarrow> length (line_buffer e) < line_capacity e"
  shows "\<exists>f. press_key freed key c e = Some f \<and> edits key c e P l S x f"
proof (cases "key \<in> {uint VK_UP, uint VK_DOWN, uint VK_LEFT, uint VK_RIGHT, uint VK_DELETE}")
  case True
  then show ?thesis
    using press_vertical [OF assms(1,2), of c] press_left [OF assms(1,2), of c] press_right [OF assms(1,2), of c] press_delete [OF assms(1,2), of c]
    unfolding press_key_def by force
next
  case False
  consider "c = 8" "cursor_x e \<noteq> 0 \<or> cursor_y e \<noteq> 0" | "c = 8" "\<not> (cursor_x e \<noteq> 0 \<or> cursor_y e \<noteq> 0)" | "c = 0" | "c \<noteq> 8" "c \<noteq> 0"
    by blast
  then show ?thesis
  proof cases
    case 1
    then show ?thesis using press_backspace [OF assms(1,2) 1(2) False] False by (simp add: press_key_def)
  next
    case 2
    have "edits key c e P l S x e"
      using 2 False cursor_not_first [OF assms(1)] assms(1,2)
      by (intro editsI [where P' = P and l' = l and S' = S and x' = x]) (auto simp: became_def around_def)
    then show ?thesis using 2 False by (simp add: press_key_def)
  next
    case 3
    have "edits key c e P l S x e"
      using 3 False assms(1,2) by (intro editsI [where P' = P and l' = l and S' = S and x' = x]) (simp_all add: became_def around_def)
    then show ?thesis using 3 False by (simp add: press_key_def)
  next
    case 4
    then show ?thesis using press_character [OF assms(1,2) False 4 assms(3,4)] False by (simp add: press_key_def)
  qed
qed

lemma full_redraw: "here e P l S x \<Longrightarrow> window_ok e \<Longrightarrow> \<exists>f. do_full_redraw e = Some f \<and> drawn e f"
  unfolding do_full_redraw_def
  by (intro draw_rect_drawn here_bounds(1)) (auto simp: here_def window_ok_def word_le_nat_alt)

lemma handle_keypress_edits:
  assumes "here e P l S x" and "window_ok e" and "length (trailing (map l_text (P @ l # S))) + 1 < 2147483648"
    and "c \<in> set newline_chars \<Longrightarrow> length (line_buffer e) < line_capacity e" and "\<not> control_held e" and "key \<noteq> uint VK_ESCAPE"
  shows "\<exists>f. handle_keypress freed can_open evs key c e = Some (evs, f) \<and> edits key c e P l S x f"
proof -
  let ?e = "toggle_cell_highlighted (cursor_x e - window_x_offset e) (cursor_y e - window_y_offset e) e"
  have t: "drawn e ?e" by simp
  have "here ?e P l S x" "window_ok ?e" "c \<in> set newline_chars \<Longrightarrow> length (line_buffer ?e) < line_capacity ?e"
    using assms by (simp_all add: drawn_same [OF t])
  from press_key_edits [OF this(1,2) assms(3) this(3)] obtain f where f: "press_key freed key c ?e = Some f" "edits key c ?e P l S x f" by blast
  then obtain P' l' S' x' where e': "became e P' l' S' x' f" "edit_text key c (around P l S x) (around P' l' S' x')"
      "l_ending ` set (P' @ l' # S') \<subseteq> l_ending ` set (P @ l # S)"
      "length (P' @ l' # S') \<le> length (P @ l # S) + (if c \<in> set newline_chars then 1 else 0)"
    unfolding edits_def became_def drawn_same(2) [OF t] drawn_same(5) [OF t] by blast
  obtain g where g: "(if window_x_offset f \<noteq> window_x_offset e \<or> window_y_offset f \<noteq> window_y_offset e then do_full_redraw f else Some f) = Some g"
    "drawn f g"
    using full_redraw [of f P' l' S' x'] e'(1) unfolding became_def by (metis drawn_refl)
  let ?h = "update_coordinate_display (toggle_cell_highlighted (cursor_x g - window_x_offset g) (cursor_y g - window_y_offset g) g)"
  have "drawn f ?h" using drawn_trans [OF g(2) drawn_trans [OF drawn_draw(4) drawn_messages(1)]] .
  then have "edits key c e P l S x ?h" using editsI [OF became_drawn [OF e'(1)] e'(2-4)] by blast
  moreover have "handle_keypress freed can_open evs key c e = Some (evs, ?h)"
    using f(1) g(1) assms(5,6) by (simp add: handle_keypress_def Let_def)
  ultimately show ?thesis by blast
qed


definition sample_editor :: editor where
  "sample_editor = (new_editor 80 25)\<lparr>line_buffer := [\<lparr>l_text = [97, 98], l_ending = []\<rparr>], line_capacity := 2, cursor_x := 1\<rparr>"


section \<open>Loading, editing and saving\<close>

text \<open>A text of which each line ends with a carriage return and a line feed.\<close>

definition crlf :: "byte list" where
  "crlf = [13, 10]"

definition crlf_text :: "byte list list \<Rightarrow> byte list" where
  "crlf_text ts = concat (map (\<lambda>t. t @ crlf) ts)"

fun rendered :: "symbol list \<Rightarrow> byte list" where
  "rendered [] = []"
| "rendered (Character c # ss) = c # rendered ss"
| "rendered (Line_break # ss) = crlf @ rendered ss"

lemma rendered_append [simp]: "rendered (xs @ ys) = rendered xs @ rendered ys"
  by (induction xs rule: rendered.induct) simp_all

lemma rendered_symbols [simp]: "rendered (symbols t) = t"
  by (induction t) simp_all

lemma rendered_trailing: "rendered (trailing ts) @ crlf = crlf @ crlf_text ts"
  by (induction ts) (simp_all add: crlf_text_def)

definition crlf_line :: "byte list \<Rightarrow> line" where
  "crlf_line t = \<lparr>l_text = t, l_ending = crlf\<rparr>"

definition add_lines :: "byte list list \<Rightarrow> editor \<Rightarrow> editor" where
  "add_lines ts e = foldl (\<lambda>e t. add_line (crlf_line t) e) e ts"

lemma build_lines_crlf:
  assumes "\<forall>t \<in> set ts. set t \<inter> set newline_chars = {}"
  shows "build_lines before (pre @ crlf_text ts) (length pre) e = add_lines ts e"
  using assms
proof (induction ts arbitrary: pre e)
  case Nil
  then show ?case by (simp add: build_lines.simps [of _ _ "length pre"] crlf_text_def add_lines_def)
next
  case (Cons t ts)
  have found: "find_if (\<lambda>c. c \<in> set newline_chars) (t @ 13 # 10 # crlf_text ts) = Some (length t)"
    using Cons.prems by (intro find_if_append) (auto simp: newline_chars_def)
  have buffer: "pre @ crlf_text (t # ts) = (pre @ t @ crlf) @ crlf_text ts" "crlf_text (t # ts) = t @ 13 # 10 # crlf_text ts"
    by (simp_all add: crlf_text_def crlf_def)
  have "build_lines before (pre @ crlf_text (t # ts)) (length pre) e =
      build_lines before (pre @ crlf_text (t # ts)) (length pre + length t + 2) (add_line (crlf_line t) e)"
    by (subst build_lines.simps) (simp add: buffer(2) found nth_append crlf_line_def crlf_def)
  also have "\<dots> = add_lines ts (add_line (crlf_line t) e)"
    using Cons.IH [of "pre @ t @ crlf"] Cons.prems unfolding buffer(1) by (simp add: crlf_def)
  finally show ?case by (simp add: add_lines_def)
qed

text \<open>The capacity after as many lines were added.\<close>

fun capacity_after :: "nat \<Rightarrow> nat" where
  "capacity_after 0 = 0"
| "capacity_after (Suc n) = (if n = capacity_after n then (n + 1) * 2 else capacity_after n)"

lemma add_lines_snoc: "add_lines (ts @ [t]) e = add_line (crlf_line t) (add_lines ts e)"
  by (simp add: add_lines_def)

lemma lines_added:
  assumes "line_buffer e = []" and "line_capacity e = 0"
  shows "add_lines ts e = e\<lparr>line_buffer := map crlf_line ts, line_capacity := capacity_after (length ts)\<rparr>"
proof (induction ts rule: rev_induct)
  case Nil
  then show ?case using assms by (simp add: add_lines_def)
next
  case (snoc t ts)
  then show ?case by (simp add: add_lines_snoc add_line_def)
qed

text \<open>Lines that end with a line feed alone lose their first character, all but the first of them; a last line without
  an end comes twice.\<close>

lemma line_feeds_lose_text:
  "file_contents (build_lines 0 [97, 10, 98, 99, 10] 0 (new_editor 80 25)) = [97, 10, 99, 10]"
  "file_contents (build_lines 0 [97, 98] 0 (new_editor 80 25)) = [97, 98, 0, 97, 98]"
  by (simp_all add: build_lines.simps newline_chars_def new_editor_def add_line_def file_contents_def)

text \<open>The file of a text whose lines all end like that.\<close>

definition crlf_editor :: "editor \<Rightarrow> bool" where
  "crlf_editor e \<longleftrightarrow> (\<forall>l \<in> set (line_buffer e). l_ending l = crlf)"

lemma crlf_file:
  assumes "here e P l S x" and "crlf_editor e"
  shows "file_contents e = rendered (fst (editor_text e) @ snd (editor_text e)) @ crlf"
proof -
  let ?ts = "map l_text (P @ l # S)"
  have "file_contents e = crlf_text ?ts"
    unfolding file_contents_def crlf_text_def map_map using assms
    by (intro arg_cong [where f = concat]) (simp add: here_def crlf_editor_def)
  moreover have "trailing ?ts = Line_break # fst (editor_text e) @ snd (editor_text e)"
    using around_whole [of P l S x] by (simp add: here_text [OF assms(1)] around_def trailing_leading del: trailing_simps(3))
  ultimately show ?thesis using rendered_trailing [of ?ts] by simp
qed

section \<open>Sequences of keys\<close>

fun edit_texts :: "(int \<times> byte) list \<Rightarrow> symbol list \<times> symbol list \<Rightarrow> symbol list \<times> symbol list \<Rightarrow> bool" where
  "edit_texts [] p q = (q = p)"
| "edit_texts ((key, c) # keys) p q = (\<exists>r. edit_text key c p r \<and> edit_texts keys r q)"

text \<open>The keys that events press, and those of them that break the line.\<close>

fun pressed :: "key_event list \<Rightarrow> (int \<times> byte) list" where
  "pressed [] = []"
| "pressed ((ev, c) # evs) = (if ev_type ev = KEY_DOWN then (ev_data ev, c) # pressed evs else pressed evs)"

definition breaks :: "(int \<times> byte) list \<Rightarrow> nat" where
  "breaks keys = length (filter (\<lambda>(key, c). c \<in> set newline_chars) keys)"

text \<open>Events that neither press nor release escape, control or alt.\<close>

definition plain_events :: "key_event list \<Rightarrow> bool" where
  "plain_events evs \<longleftrightarrow>
     (\<forall>(ev, c) \<in> set evs. ev_data ev \<notin> {uint VK_ESCAPE, uint VK_LCTRL, uint VK_RCTRL, uint VK_LALT, uint VK_RALT})"

lemma edit_text_size:
  "edit_text key c p q \<Longrightarrow> length (fst q) + length (snd q) \<le> length (fst p) + length (snd p) + 1"
proof -
  assume edit: "edit_text key c p q"
  obtain b a b' a' where pq: "p = (b, a)" "q = (b', a')" by (cases p; cases q)
  show ?thesis
  proof (cases "key = uint VK_UP \<or> key = uint VK_DOWN")
    case True
    then have "length (b' @ a') = length (b @ a)" using edit by (simp add: pq)
    then show ?thesis by (simp add: pq)
  qed (use edit in \<open>simp add: pq split: if_splits\<close>)
qed

lemma handle_inputs_skip:
  "ev_type ev \<noteq> KEY_DOWN \<Longrightarrow> plain_events [(ev, c)] \<Longrightarrow> handle_inputs freed can_open ((ev, c) # evs) e =
    (if exited e then Some e else handle_inputs freed can_open evs e)"
  by (subst handle_inputs.simps) (auto simp: handle_inputs.simps [of _ _ evs] plain_events_def Let_def)

lemma handle_inputs_press:
  "ev_type ev = KEY_DOWN \<Longrightarrow> plain_events [(ev, c)] \<Longrightarrow> \<not> exited e \<Longrightarrow>
    handle_keypress freed can_open evs (ev_data ev) c e = Some (evs', f) \<Longrightarrow>
    handle_inputs freed can_open ((ev, c) # evs) e = handle_inputs freed can_open evs' f"
  by (subst handle_inputs.simps) (simp add: plain_events_def Let_def)

lemma plain_events_Cons: "plain_events (x # evs) \<longleftrightarrow> plain_events [x] \<and> plain_events evs"
  by (auto simp: plain_events_def)

lemma handle_inputs_edit:
  assumes "wf_editor e" and "crlf_editor e" and "\<not> control_held e" and "\<not> exited e" and "plain_events evs"
    and "length (fst (editor_text e)) + length (snd (editor_text e)) + length evs + 1 < 2147483648"
    and "length (line_buffer e) + breaks (pressed evs) \<le> line_capacity e"
  shows "\<exists>f. handle_inputs freed can_open (evs @ rest) e = handle_inputs freed can_open rest f \<and> wf_editor f \<and> crlf_editor f
    \<and> frame f = frame e \<and> edit_texts (pressed evs) (editor_text e) (editor_text f)"
  using assms
proof (induction evs arbitrary: e)
  case Nil
  then show ?case by auto
next
  case (Cons k evs)
  obtain ev c where k: "k = (ev, c)" by force
  have plain: "plain_events [(ev, c)]" "plain_events evs" using Cons.prems(5) plain_events_Cons k by blast+
  show ?case
  proof (cases "ev_type ev = KEY_DOWN")
    case False
    then show ?thesis
      using Cons.IH [OF Cons.prems(1-4) plain(2)] Cons.prems(4,6,7) plain(1) by (simp add: k handle_inputs_skip)
  next
    case True
    obtain P l S x where at: "here e P l S x" "window_ok e" using Cons.prems(1) wf_here by blast
    have bound: "length (trailing (map l_text (P @ l # S))) + 1 < 2147483648"
      using Cons.prems(6) unfolding text_size [OF at(1)] by simp
    have keys: "breaks (pressed (k # evs)) = (if c \<in> set newline_chars then 1 else 0) + breaks (pressed evs)"
      using True by (simp add: k breaks_def)
    have room: "c \<in> set newline_chars \<Longrightarrow> length (line_buffer e) < line_capacity e" using Cons.prems(7) keys by simp
    have "ev_data ev \<noteq> uint VK_ESCAPE" using plain by (simp add: plain_events_def)
    from handle_keypress_edits [OF at bound room Cons.prems(3) this] obtain g P' l' S' x' where
      g: "handle_keypress freed can_open (evs @ rest) (ev_data ev) c e = Some (evs @ rest, g)" "became e P' l' S' x' g"
        "edit_text (ev_data ev) c (around P l S x) (around P' l' S' x')"
        "l_ending ` set (P' @ l' # S') \<subseteq> l_ending ` set (P @ l # S)"
        "length (P' @ l' # S') \<le> length (P @ l # S) + (if c \<in> set newline_chars then 1 else 0)"
      unfolding edits_def by blast
    have at': "here g P' l' S' x'" "window_ok g" "frame g = frame e" "line_capacity e \<le> line_capacity g"
      using g(2) by (simp_all add: became_def)
    have lines: "line_buffer e = P @ l # S" "line_buffer g = P' @ l' # S'" using at(1) at'(1) unfolding here_def by blast+
    have edited: "edit_text (ev_data ev) c (editor_text e) (editor_text g)"
      using g(3) by (simp only: here_text [OF at(1)] here_text [OF at'(1)] around_def)
    have "wf_editor g" using at'(1,2) by (rule wf_hereI)
    moreover have "l_ending ` set (line_buffer e) \<subseteq> {crlf}" using Cons.prems(2) by (auto simp: crlf_editor_def)
    then have "l_ending ` set (line_buffer g) \<subseteq> {crlf}" using g(4) unfolding lines by (rule subset_trans [rotated])
    then have "crlf_editor g" unfolding crlf_editor_def image_subset_iff by simp
    moreover have "\<not> control_held g" "\<not> exited g" using at'(3) Cons.prems(3,4) by (simp_all add: frame_def)
    moreover have "length (fst (editor_text g)) + length (snd (editor_text g)) + length evs + 1 < 2147483648"
      using edit_text_size [OF edited] Cons.prems(6) by simp
    moreover have "length (line_buffer g) + breaks (pressed evs) \<le> line_capacity g"
      using g(5) at'(4) Cons.prems(7) keys unfolding lines by (simp split: if_splits)
    ultimately obtain f where f: "handle_inputs freed can_open (evs @ rest) g = handle_inputs freed can_open rest f" "wf_editor f"
      "crlf_editor f" "frame f = frame g" "edit_texts (pressed evs) (editor_text g) (editor_text f)"
      using Cons.IH [of g] plain(2) by blast
    moreover from f(5) have "edit_texts (pressed (k # evs)) (editor_text e) (editor_text f)"
      unfolding k pressed.simps edit_texts.simps if_P [OF True] using edited by blast
    moreover have "handle_inputs freed can_open ((k # evs) @ rest) e = handle_inputs freed can_open (evs @ rest) g"
      using handle_inputs_press [OF True plain(1) Cons.prems(4) g(1)] by (simp add: k)
    ultimately show ?thesis using at'(3) by (intro exI [where x = f]) simp
  qed
qed

section \<open>A session\<close>

lemma draw_first_lines_drawn:
  assumes "unat offset + n \<le> length (line_buffer e)" and "length (line_buffer e) < 2147483648"
  shows "\<exists>f. draw_first_lines n offset e = Some f \<and> drawn e f"
  using assms
proof (induction n arbitrary: offset e)
  case (Suc n)
  let ?f = "write_at_position 0 (offset - window_y_offset e) (take (unat (term_width e)) (l_text (line_buffer e ! unat offset))) e"
  have f: "drawn e ?f" by simp
  have "unat (offset + 1) = unat offset + 1" using Suc.prems by (subst u32_add) simp_all
  then have "unat (offset + 1) + n \<le> length (line_buffer ?f)" "length (line_buffer ?f) < 2147483648"
    using Suc.prems drawn_same(4) [OF f] by simp_all
  from Suc.IH [OF this] obtain g where "draw_first_lines n (offset + 1) ?f = Some g" "drawn ?f g" by blast
  then show ?case using Suc.prems drawn_trans [OF f] by (simp add: line_at_def)
qed simp

lemma editor_started:
  assumes "ts \<noteq> []" and "\<forall>t \<in> set ts. set t \<inter> set newline_chars = {}" and "length (trailing ts) < 2147483648"
    and "1 < unat h" and "unat h < 2147483648"
  shows "\<exists>e. editor_start w h before (Some (nm, Some (crlf_text ts))) = Some e \<and> wf_editor e \<and> crlf_editor e
    \<and> editor_text e = ([], tl (trailing ts)) \<and> line_capacity e = capacity_after (length ts) \<and> length (line_buffer e) = length ts
    \<and> current_file_name e = nm \<and> saved e = [] \<and> \<not> control_held e \<and> \<not> alt_held e \<and> \<not> exited e"
proof -
  let ?a = "update_coordinate_display (draw Clear (draw (Set_color 4 7) (new_editor w h)))"
  let ?b = "add_lines ts ?a" and ?n = "new_editor w h"
  have a: "drawn (new_editor w h) ?a" using drawn_trans [OF _ drawn_messages(1)] by (simp add: drawn_after)
  have empty: "line_buffer ?a = []" "line_capacity ?a = 0" by (simp_all add: drawn_same [OF a]) (simp_all add: new_editor_def)
  have b: "build_lines before (crlf_text ts) 0 ?a = ?b" using build_lines_crlf [OF assms(2), of before "[]"] by simp
  let ?c = "?b\<lparr>current_file_name := nm\<rparr>"
  have lines: "line_buffer ?c = map crlf_line ts" "line_capacity ?c = capacity_after (length ts)" "cursor_x ?c = 0" "cursor_y ?c = 0"
    "window_y_offset ?c = 0" "term_height ?c = h - 1" "saved ?c = []" "\<not> control_held ?c" "\<not> alt_held ?c" "\<not> exited ?c"
    using drawn_same [OF a] by (simp_all add: lines_added [OF empty]) (simp_all add: frame_def new_editor_def)
  have count: "length ts < 2147483648" using trailing_bounds(2) [of ts] assms(3) by simp
  have "unat (min (size32 (line_buffer ?c)) (term_height ?c)) \<le> unat (size32 (line_buffer ?c))"
    by (simp add: min_def word_le_nat_alt)
  then have "unat (0 :: u32) + unat (min (size32 (line_buffer ?c)) (term_height ?c)) \<le> length (line_buffer ?c)"
    "length (line_buffer ?c) < 2147483648" using count by (simp_all add: lines(1) size32_small)
  from draw_first_lines_drawn [OF this] obtain d where
    d: "draw_first_lines (unat (min (size32 (line_buffer ?c)) (term_height ?c))) 0 ?c = Some d" "drawn ?c d" by blast
  let ?e = "toggle_cell_highlighted (cursor_x d - window_x_offset d) (cursor_y d - window_y_offset d) d"
  have e: "drawn ?c ?e" using drawn_after(4) [OF d(2)] .
  have "line_buffer ?e \<noteq> []" using assms(1) drawn_same(4) [OF e] lines(1) by simp
  then have start: "editor_start w h before (Some (nm, Some (crlf_text ts))) = Some ?e"
    using d(1) by (simp add: editor_start_def load_file_def b)
  obtain t us where ts: "ts = t # us" using assms(1) by (cases ts) auto
  have texts: "map l_text (map crlf_line us) = us" "l_text (crlf_line t) = t" by (simp_all add: crlf_line_def comp_def)
  have "here ?c [] (crlf_line t) (map crlf_line us) 0"
    unfolding here_def using assms(3) lines texts ts by (simp add: comp_def crlf_line_def)
  then have h: "here ?e [] (crlf_line t) (map crlf_line us) 0" using drawn_same(1) [OF e] by simp
  have "window_ok ?c" using assms(4,5) u32_sub [of 1 h] lines by (simp add: window_ok_def word_le_nat_alt)
  then have w: "window_ok ?e" using drawn_same(3) [OF e] by simp
  have "editor_text ?e = ([], tl (trailing ts))" using ts texts by (simp add: here_text [OF h])
  moreover have "crlf_editor ?e" using drawn_same(4) [OF e] lines(1) by (simp add: crlf_editor_def crlf_line_def)
  moreover have "current_file_name ?e = nm \<and> saved ?e = [] \<and> \<not> control_held ?e \<and> \<not> alt_held ?e \<and> \<not> exited ?e"
    using drawn_same(2) [OF e] lines by (simp add: frame_def)
  moreover have "line_capacity ?e = capacity_after (length ts) \<and> length (line_buffer ?e) = length ts"
    using drawn_same(4,5) [OF e] lines by simp
  ultimately show ?thesis using start wf_hereI [OF h w] by blast
qed

text \<open>Control is pressed, and then S.\<close>

definition save_keys :: "key_event list" where
  "save_keys =
     (let down = (\<lambda>key. \<lparr>device_index = 0, control_index = 0, ev_data = key, ev_type = KEY_DOWN, time_stamp = 0\<rparr>)
      in [(down (uint VK_LCTRL), 0), (down (uint VK_S), 115)])"

lemma save_keys_save:
  assumes "current_file_name e \<noteq> []" and "\<not> alt_held e" and "\<not> exited e" and "\<not> control_held e"
  shows "\<exists>g. handle_inputs freed (\<lambda>_. True) save_keys e = Some g \<and> saved g = saved e @ [(current_file_name e, file_contents e)]"
proof -
  let ?e = "e\<lparr>control_held := True\<rparr>"
  let ?g = "write_info_message (ascii_bytes ''File saved as '') (current_file_name e)
      (?e\<lparr>saved := saved e @ [(current_file_name e, file_contents e)]\<rparr>)"
  have g: "saved ?g = saved e @ [(current_file_name e, file_contents e)] \<and> \<not> exited ?g"
    using drawn_same(2) [OF drawn_messages(2)] assms by (simp add: frame_def)
  have contents: "file_contents ?e = file_contents e" by (simp add: file_contents_def)
  have "handle_inputs freed (\<lambda>_. True) save_keys e = Some ?g"
    using assms g contents
    by (simp add: save_keys_def handle_inputs.simps Let_def handle_keypress_def save_file_def)
  then show ?thesis using g by blast
qed


text \<open>Three lines: the first end of line is deleted, a letter and a new line are typed, with a key released in between.\<close>

definition sample_events :: "key_event list" where
  "sample_events =
     (let ev = (\<lambda>t key. \<lparr>device_index = 0, control_index = 0, ev_data = key, ev_type = t, time_stamp = 0\<rparr>)
      in [(ev KEY_DOWN (uint VK_RIGHT), 0), (ev KEY_UP (uint VK_RIGHT), 0), (ev KEY_DOWN (uint VK_DELETE), 0),
          (ev KEY_DOWN (uint VK_E), 101), (ev KEY_DOWN (uint VK_ENTER), 10)])"


end
