(* ===== verification/Spec2Isabelle.thy ===== *)
theory Spec2Isabelle
  imports FatDirCorrect Directory PartitionsCorrect PagingCorrect HashMap HeapCorrect Locks Iso9660Correct RdfsCorrect Ext2Correct
    ScanfCorrect TasksCorrect TerminalCorrect InputCorrect ElfCorrect EditorCorrect
begin

text \<open>
  A verification library of the JSD-OS kernel and its C library: the storage stack from the disk drivers
  up to paths and open files, physical, virtual and shared memory, the heap, the locks, the scheduler, the
  loading of programs and drivers, input events, the terminal, and the text editor on top of them.

  The program. A disk driver (\<open>disk_driver\<close>, the struct of \<open>kernel/filesystem/fs_driver.h\<close>) moves whole
  blocks. The block cache of \<open>kernel/filesystem/drives.cpp\<close> makes of it a device of bytes, cuts it into
  partitions (by the partitioners, of which \<open>drivers/formats/mbr.cpp\<close> is one) and mounts a filesystem driver
  on each: FAT (\<open>drivers/formats/fat.cpp\<close>), ext2 (\<open>ext2.cpp\<close>), ISO 9660 (\<open>iso9660.cpp\<close>) or the ramdisk's own (\<open>rdfs.cpp\<close>). On
  top, \<open>streams.cpp\<close> reads and writes open files and \<open>directory.cpp\<close> finds, creates and deletes them by
  path. Memory comes from \<open>kernel/physical_manager.cpp\<close> in blocks, is mapped by
  \<open>kernel/memorymanager.cpp\<close>, and is handed out in pieces by \<open>clib/liballoc.cpp\<close>. \<open>kernel/locks.h\<close> keeps
  tasks out of each other's way, \<open>kernel/util/hash.h\<close> is the table the kernel keeps its names in. \<open>kernel/task.cpp\<close>
  starts processes, whose files \<open>kernel/elf.cpp\<close> loads, and switches between them; \<open>kernel/input.cpp\<close> hands the
  keyboard's events to the active one. Programs share memory by name (\<open>kernel/shared_mem.cpp\<close>), where
  \<open>api/terminal/terminal.cpp\<close> keeps the state of the screen.

  Conventions. Integers are words of their width on the i386 target (\<open>size_t\<close> and pointers have 32 bits);
  sums that may exceed them wrap as in the code. A failed \<open>k_assert\<close>, an access outside a buffer, a null
  pointer followed and an undefined arithmetic result are \<^const>\<open>None\<close>; status codes of the code are values.
  State is passed explicitly. Loops that may not end are \<open>partial_function (option)\<close>, and what is said of
  them says that they do end; the other loops are recursions with a measure, so no fuel is used.
  Uninitialised memory is an argument (\<open>junk\<close>, \<open>m_malloc\<close>), and so are the clock and the devices.

  Theories. Each component has a theory with its state and operations, named as in the code and in its order,
  and, where there is more than a page to say, a second one, \<open>...Correct\<close>, with what holds of them.

  \<^item> \<open>Prelude\<close>: words, little-endian encodings, checked copies (\<open>slice\<close>, \<open>patch\<close>), lists, options; the collection
    \<open>word_nat_simps\<close> takes words to numbers.
  \<^item> \<open>FsUtil\<close> (\<open>filesystem/util.h\<close>): the split of a range of bytes; it is exact for every range that does not wrap,
    and the two code paths of the split agree.
  \<^item> \<open>Unicode\<close> (\<open>util/unicode.h\<close>): encoders and decoders, and their round trip.
  \<^item> \<open>CTime\<close> (\<open>clib/time.cpp\<close>): \<open>mktime\<close>, \<open>gmtime\<close>; the round trip holds up to a day for 2001 to 2024 and fails outside.
  \<^item> \<open>FsTypes\<close> (\<open>api/files.h\<close>, \<open>filesystem.h\<close>, \<open>fs_driver.h\<close>): the data the layers exchange.
  \<^item> \<open>Drives\<close>, \<open>DrivesCorrect\<close>, \<open>Devices\<close> (\<open>drives.cpp\<close>, \<open>drivers/ramdisk.cpp\<close>): the cache implements an array of
    bytes (\<open>cached_disk\<close>). The locale \<open>block_device\<close> is what a driver promises; the ramdisk and a memory device keep it.
    A bulk write that passes the cache by can be lost.
  \<^item> \<open>Partitions\<close>, \<open>PartitionsCorrect\<close>: the lists of drives and partitions, the invariant of the partition map, the
    contract of a partitioner and the one for master boot records.
  \<^item> \<open>FatTable\<close>, \<open>FatTableCorrect\<close>: the boot block, the allocation table in its three layouts as a map from clusters
    to entries, and the chains in it. \<open>FatDir\<close>, \<open>FatDirCorrect\<close>: directory entries, long names, time stamps,
    creating and deleting.
  \<^item> \<open>Iso9660\<close>, \<open>Iso9660Correct\<close> and \<open>Rdfs\<close>, \<open>RdfsCorrect\<close>: the two read-only filesystems over the cache; the second
    reads back what the image tool (\<open>tools/rdfs.cpp\<close>) wrote.
  \<^item> \<open>Extents\<close>, \<open>Ext2\<close>, \<open>Ext2Correct\<close> (\<open>ext2.cpp\<close>): inodes, the tree of block numbers as a map from the blocks of a
    file to those of the disk, contents of files, and files that do not grow as they should.
  \<^item> \<open>Streams\<close> (\<open>streams.cpp\<close>) and \<open>Directory\<close> (\<open>directory.cpp\<close>, mounting): open files, and paths as walks through
    directories.
  \<^item> \<open>PhysMem\<close>, \<open>PhysMemCorrect\<close>: the list of free blocks is the set of free bytes. The locale \<open>byte_manager\<close> is its contract.
  \<^item> \<open>Paging\<close>, \<open>PagingCorrect\<close>: mapping through the recursive directory entry, stated over the translation the
    processor makes (\<open>page_walk\<close>), with the invariant \<open>paged\<close>.
  \<^item> \<open>Heap\<close>, \<open>HeapCorrect\<close>: the blocks handed out lie apart (\<open>heap_inv\<close>), \<open>free\<close> gives back exactly one, and
    \<open>realloc\<close> keeps the contents; sizes close to the top of the address space wrap.
  \<^item> \<open>Locks\<close>: the mutexes and readers-writer locks as an interleaving of atomic actions (\<open>lock_step\<close>): exclusion
    and progress by rule induction, and a downgrade that never ends.
  \<^item> \<open>HashMap\<close>: the table refines a partial map; \<open>kernel_map\<close> is the contract.

  \<^item> \<open>CLib\<close>, \<open>CLibCorrect\<close> (\<open>clib/string.c\<close>, \<open>ctype.c\<close>, \<open>include/string386.inl\<close>, \<open>atoi\<close>): blocks and strings in a memory of
    bytes; strings are read off as lists (\<open>cstring\<close>).
  \<^item> \<open>Printf\<close>, \<open>PrintfCorrect\<close> (\<open>clib/stdio.cpp\<close>) and \<open>Scanf\<close>, \<open>ScanfCorrect\<close> (\<open>clib/scanf.cpp\<close>): the formatter as a
    machine over the format, the scanner over any source of characters (the locale \<open>scan_source\<close>); numbers survive
    printing and reading, long texts overrun their buffer.

  \<^item> \<open>Tasks\<close>, \<open>TasksCorrect\<close> (\<open>kernel/task.cpp\<close>, \<open>task.asm\<close>, \<open>gdt.cpp\<close>): the scheduler of several processors as steps
    (\<open>sched_step\<close>); a task is current on one processor at most (\<open>sched_inv\<close>), except for the two switches that do
    not set the flag, and a switch keeps the registers.

  \<^item> \<open>SharedMem\<close>: buffers with their references; what was allocated comes back with the last reference, but a buffer can
    have a size and no memory.
  \<^item> \<open>Elf\<close>, \<open>ElfCorrect\<close> (\<open>kernel/elf.cpp\<close>, \<open>driver_loader.cpp\<close>): an object is loaded into the memory of the C library's
    model, its libraries before its relocations; these store what the ABI says (\<open>abi_value\<close>), and a static program
    is found in memory as it is in its file. The number of loads within loads is bounded by an argument, the room on the
    kernel's stack.
  \<^item> \<open>Input\<close>, \<open>InputCorrect\<close> (\<open>kernel/input.cpp\<close>, \<open>drivers/at_kbrd.cpp\<close>, \<open>api/keyboard.c\<close>): the ring buffer keeps the
    contract \<open>bounded_queue\<close> of a queue of 63 events, and what is typed comes out as the key's character.
  \<^item> \<open>Terminal\<close>, \<open>TerminalCorrect\<close>: characters and escape sequences on the screen; plain text is a tape (\<open>tape\<close>) that the
    screen shows the end of.
  \<^item> \<open>Editor\<close>, \<open>EditorCorrect\<close> (\<open>apps/edit.cpp\<close>): every key does to the text before and after the cursor what an
    abstract text with a cursor says (\<open>edit_text\<close>), and what is saved is the edited text, for lines that end in a
    carriage return and a line feed.

  Bounds. Disk addresses are those that stay below \<open>2 ^ 32\<close> bytes, which the code itself requires; theorems name
  the bound they need. The page table and free block counts are those of the code.

  Not modelled. Concurrency outside \<open>Locks\<close> and \<open>Tasks\<close>: the other components are sequential between lock and unlock. The
  translation cache. Controllers, display adapters, mice, serial ports, buses and the clock, which are port input and
  output with little state of their own; the boot code and the descriptor tables. \<open>intrusive_ptr\<close>, \<open>std::vector\<close> and
  \<open>std::string\<close> are the lists and options of their users. The shell and the other applications, and the file functions of
  \<open>stdio.cpp\<close>, are users of the system calls that are modelled here.
\<close>

end
